(* ===== verification/Binder_Prelude.thy ===== *)
theory Binder_Prelude
  imports Main "HOL-Library.Word"
begin

text \<open>
  The vocabulary the component theories share: the operations of \<open>std::string\<close> the sources use
  (searching, slicing, trimming, lowering), the C number parsers (\<open>strtoll\<close>, \<open>atoi\<close>) and
  \<open>std::to_string\<close>, two's complement wrap-around of the fixed-width integers, positioned writes
  into a file, and the generic facts about them. A \<open>std::string\<close> is a \<^typ>\<open>string\<close> (a list of
  bytes), a position is a \<^typ>\<open>nat\<close>, and \<open>npos\<close> is \<^const>\<open>None\<close>.
\<close>

named_theorems str_simps \<open>rewriting rules for the string operations\<close>
named_theorems code_points \<open>unfolding rules for character classes\<close>

type_synonym bytes = string


subsection \<open>Searching and slicing\<close>

fun find_pos :: "('a \<Rightarrow> bool) \<Rightarrow> 'a list \<Rightarrow> nat option" where
  "find_pos P [] = None"
| "find_pos P (x # xs) = (if P x then Some 0 else map_option Suc (find_pos P xs))"

fun rfind_pos :: "('a \<Rightarrow> bool) \<Rightarrow> 'a list \<Rightarrow> nat option" where
  "rfind_pos P [] = None"
| "rfind_pos P (x # xs) =
     (case rfind_pos P xs of
        Some i \<Rightarrow> Some (Suc i)
      | None \<Rightarrow> if P x then Some 0 else None)"

fun is_prefix :: "'a list \<Rightarrow> 'a list \<Rightarrow> bool" where
  "is_prefix [] ys = True"
| "is_prefix (x # xs) [] = False"
| "is_prefix (x # xs) (y # ys) = (x = y \<and> is_prefix xs ys)"

fun find_sub :: "'a list \<Rightarrow> 'a list \<Rightarrow> nat option" where
  "find_sub pat [] = (if pat = [] then Some 0 else None)"
| "find_sub pat (x # xs) =
     (if is_prefix pat (x # xs) then Some 0 else map_option Suc (find_sub pat xs))"

definition find_char :: "'a \<Rightarrow> 'a list \<Rightarrow> nat option" where
  "find_char c = find_pos (\<lambda>x. x = c)"

definition rfind_char :: "'a \<Rightarrow> 'a list \<Rightarrow> nat option" where
  "rfind_char c = rfind_pos (\<lambda>x. x = c)"

definition find_from :: "('a \<Rightarrow> bool) \<Rightarrow> nat \<Rightarrow> 'a list \<Rightarrow> nat option" where
  "find_from P start xs = map_option (\<lambda>i. start + i) (find_pos P (drop start xs))"

definition substr :: "'a list \<Rightarrow> nat \<Rightarrow> nat \<Rightarrow> 'a list" where
  "substr xs pos len = take len (drop pos xs)"

definition substr_from :: "'a list \<Rightarrow> nat \<Rightarrow> 'a list" where
  "substr_from xs pos = drop pos xs"


subsection \<open>Character classes\<close>

definition char_code :: "char \<Rightarrow> nat" where
  "char_code c = of_char c"

definition is_space :: "char \<Rightarrow> bool" where
  "is_space c \<longleftrightarrow> char_code c = 32 \<or> (9 \<le> char_code c \<and> char_code c \<le> 13)"

definition is_digit :: "char \<Rightarrow> bool" where
  "is_digit c \<longleftrightarrow> 48 \<le> char_code c \<and> char_code c \<le> 57"

definition to_lower_char :: "char \<Rightarrow> char" where
  "to_lower_char c = (if 65 \<le> char_code c \<and> char_code c \<le> 90 then char_of (char_code c + 32) else c)"

declare is_space_def [code_points] is_digit_def [code_points] to_lower_char_def [code_points]
  char_code_def [code_points]

text \<open>The carriage return and the line feed; a character literal cannot spell them.\<close>

definition cr :: char where
  "cr = CHR 0x0D"

definition lf :: char where
  "lf = CHR 0x0A"

definition crlf :: bytes where
  "crlf = [cr, lf]"

definition strip_front :: "('a \<Rightarrow> bool) \<Rightarrow> 'a list \<Rightarrow> 'a list" where
  "strip_front P xs = dropWhile P xs"

definition strip_back :: "('a \<Rightarrow> bool) \<Rightarrow> 'a list \<Rightarrow> 'a list" where
  "strip_back P xs = rev (dropWhile P (rev xs))"


subsection \<open>Numbers\<close>

text \<open>Two's complement wrap-around of \<open>int32_t\<close> and \<open>int64_t\<close> arithmetic.\<close>

definition s32 :: "int \<Rightarrow> int" where
  "s32 x = (x + 2 ^ 31) mod 2 ^ 32 - 2 ^ 31"

definition s64 :: "int \<Rightarrow> int" where
  "s64 x = (x + 2 ^ 63) mod 2 ^ 64 - 2 ^ 63"

text \<open>Division of signed C integers truncates towards zero.\<close>

definition cdiv :: "int \<Rightarrow> int \<Rightarrow> int" where
  "cdiv a b = sgn a * sgn b * (\<bar>a\<bar> div \<bar>b\<bar>)"

definition digit_char :: "nat \<Rightarrow> char" where
  "digit_char d = char_of (48 + d)"

fun nat_to_dec :: "nat \<Rightarrow> string" where
  "nat_to_dec n =
     (if n < 10 then [digit_char n] else nat_to_dec (n div 10) @ [digit_char (n mod 10)])"

declare nat_to_dec.simps [simp del]

text \<open>Hexadecimal, as the chunked encoding writes its sizes.\<close>

definition hex_char :: "nat \<Rightarrow> char" where
  "hex_char d = char_of (if d < 10 then 48 + d else 87 + d)"

fun nat_to_hex :: "nat \<Rightarrow> string" where
  "nat_to_hex n =
     (if n < 16 then [hex_char n] else nat_to_hex (n div 16) @ [hex_char (n mod 16)])"

declare nat_to_hex.simps [simp del]

definition int_to_dec :: "int \<Rightarrow> string" where
  "int_to_dec i = (if i < 0 then ''-'' @ nat_to_dec (nat (- i)) else nat_to_dec (nat i))"

text \<open>
  The value of a digit in the bases the sources parse (10 and 16); \<^const>\<open>None\<close> for any other
  character.
\<close>

definition digit_val :: "nat \<Rightarrow> char \<Rightarrow> nat option" where
  "digit_val base c =
     (let n = char_code c;
          v = (if 48 \<le> n \<and> n \<le> 57 then Some (n - 48)
               else if 97 \<le> n \<and> n \<le> 102 then Some (n - 87)
               else if 65 \<le> n \<and> n \<le> 70 then Some (n - 55)
               else None)
      in case v of None \<Rightarrow> None | Some d \<Rightarrow> if d < base then Some d else None)"

fun digits_val :: "nat \<Rightarrow> nat \<Rightarrow> string \<Rightarrow> nat \<times> nat" where
  "digits_val base acc [] = (acc, 0)"
| "digits_val base acc (c # cs) =
     (case digit_val base c of
        None \<Rightarrow> (acc, 0)
      | Some d \<Rightarrow> (let (v, k) = digits_val base (acc * base + d) cs in (v, Suc k)))"

definition llong_clamp :: "int \<Rightarrow> int" where
  "llong_clamp x = (if x < - (2 ^ 63) then - (2 ^ 63) else if x > 2 ^ 63 - 1 then 2 ^ 63 - 1 else x)"

text \<open>
  \<open>strtoll (text, \<open>&\<close>end, base)\<close>: white space, an optional sign, an optional \<open>0x\<close> before a
  hexadecimal digit in base 16, then digits; out-of-range values are clamped. The second
  component is the number of characters consumed, 0 when there was no number.
\<close>

definition hex_prefix :: "nat \<Rightarrow> string \<Rightarrow> nat" where
  "hex_prefix base s =
     (if base = 16 \<and> length s \<ge> 3 \<and> s ! 0 = CHR ''0'' \<and> (s ! 1 = CHR ''x'' \<or> s ! 1 = CHR ''X'')
         \<and> digit_val 16 (s ! 2) \<noteq> None
      then 2 else 0)"

definition strtoll :: "nat \<Rightarrow> string \<Rightarrow> int \<times> nat" where
  "strtoll base s =
     (let ws = length (takeWhile is_space s);
          s1 = drop ws s;
          neg = (s1 \<noteq> [] \<and> hd s1 = CHR ''-'');
          sg = (if s1 \<noteq> [] \<and> (hd s1 = CHR ''-'' \<or> hd s1 = CHR ''+'') then 1 else 0);
          s2 = drop sg s1;
          hp = hex_prefix base s2;
          (v, k) = digits_val base 0 (drop hp s2)
      in if k = 0 then (0, 0)
         else (llong_clamp (if neg then - int v else int v), ws + sg + hp + k))"

text \<open>glibc's \<open>atoi\<close> is \<open>strtol\<close> truncated to \<open>int\<close>.\<close>

definition atoi :: "string \<Rightarrow> int" where
  "atoi s = s32 (fst (strtoll 10 s))"


subsection \<open>Files\<close>

text \<open>
  \<open>write(2)\<close> at an offset: the bytes replace what was there, a gap before the offset reads as
  zeros, the rest of the file stays.
\<close>

definition pad_to :: "nat \<Rightarrow> bytes \<Rightarrow> bytes" where
  "pad_to n xs = xs @ replicate (n - length xs) (CHR 0x00)"

definition write_at :: "nat \<Rightarrow> bytes \<Rightarrow> bytes \<Rightarrow> bytes" where
  "write_at off d xs = take off (pad_to off xs) @ d @ drop (off + length d) xs"


subsection \<open>Facts about searching\<close>

lemma find_pos_None [str_simps]: "find_pos P xs = None \<longleftrightarrow> (\<forall>x\<in>set xs. \<not> P x)"
  by (induction xs) auto

lemma rfind_pos_None [str_simps]: "rfind_pos P xs = None \<longleftrightarrow> (\<forall>x\<in>set xs. \<not> P x)"
  by (induction xs) (auto split: option.splits)

lemma find_pos_Some:
  "find_pos P xs = Some i \<longleftrightarrow> i < length xs \<and> P (xs ! i) \<and> (\<forall>x\<in>set (take i xs). \<not> P x)"
proof (induction xs arbitrary: i)
  case (Cons x xs)
  then show ?case by (cases i) auto
qed simp

lemma rfind_pos_Some:
  "rfind_pos P xs = Some i \<longleftrightarrow>
     i < length xs \<and> P (xs ! i) \<and> (\<forall>x\<in>set (drop (Suc i) xs). \<not> P x)"
proof (induction xs arbitrary: i)
  case (Cons x xs)
  show ?case
  proof (cases i)
    case 0
    then show ?thesis using rfind_pos_None [of P xs] by (auto split: option.splits)
  next
    case (Suc j)
    then show ?thesis using Cons.IH [of j] by (auto simp: rfind_pos_None split: option.splits)
  qed
qed simp

lemma find_pos_append_skip:
  "\<forall>x\<in>set xs. \<not> P x \<Longrightarrow> find_pos P (xs @ ys) = map_option (\<lambda>i. length xs + i) (find_pos P ys)"
  by (induction xs; cases "find_pos P ys") auto

lemma find_pos_append_hit:
  "\<forall>x\<in>set xs. \<not> P x \<Longrightarrow> P y \<Longrightarrow> find_pos P (xs @ y # ys) = Some (length xs)"
  by (simp add: find_pos_append_skip)

lemma rfind_pos_append_hit:
  "\<forall>x\<in>set ys. \<not> P x \<Longrightarrow> P y \<Longrightarrow> rfind_pos P (xs @ y # ys) = Some (length xs)"
  by (auto simp: rfind_pos_Some)

lemma find_char_None [str_simps]: "find_char c xs = None \<longleftrightarrow> c \<notin> set xs"
  by (auto simp: find_char_def find_pos_None)

lemma rfind_char_None [str_simps]: "rfind_char c xs = None \<longleftrightarrow> c \<notin> set xs"
  by (auto simp: rfind_char_def rfind_pos_None)

lemma find_char_hit [str_simps]: "c \<notin> set xs \<Longrightarrow> find_char c (xs @ c # ys) = Some (length xs)"
  unfolding find_char_def by (rule find_pos_append_hit) auto

lemma rfind_char_hit [str_simps]: "c \<notin> set ys \<Longrightarrow> rfind_char c (xs @ c # ys) = Some (length xs)"
  unfolding rfind_char_def by (rule rfind_pos_append_hit) auto

lemma find_char_Some:
  "find_char c xs = Some i \<longleftrightarrow> i < length xs \<and> xs ! i = c \<and> c \<notin> set (take i xs)"
  by (auto simp: find_char_def find_pos_Some)

lemma rfind_char_Some:
  "rfind_char c xs = Some i \<longleftrightarrow> i < length xs \<and> xs ! i = c \<and> c \<notin> set (drop (Suc i) xs)"
  by (auto simp: rfind_char_def rfind_pos_Some)

lemma is_prefix_iff: "is_prefix p xs \<longleftrightarrow> (\<exists>ys. xs = p @ ys)"
  by (induction p xs rule: is_prefix.induct) auto

lemma find_sub_Some_split:
  "find_sub p xs = Some i \<Longrightarrow> xs = take i xs @ p @ drop (i + length p) xs"
proof (induction p xs arbitrary: i rule: find_sub.induct)
  case (1 pat)
  then show ?case by (auto split: if_splits)
next
  case (2 pat x xs)
  show ?case
  proof (cases "is_prefix pat (x # xs)")
    case True
    then obtain ys where "x # xs = pat @ ys" by (auto simp: is_prefix_iff)
    moreover from True "2.prems" have "i = 0" by simp
    ultimately show ?thesis by simp
  next
    case False
    with "2.prems" obtain j where "find_sub pat xs = Some j" and i: "i = Suc j" by auto
    with "2.IH" [OF False] have "xs = take j xs @ pat @ drop (j + length pat) xs" by blast
    then have "x # xs = x # (take j xs @ pat @ drop (j + length pat) xs)" by simp
    then show ?thesis unfolding i by simp
  qed
qed

text \<open>A pattern is not found earlier than its first character occurs.\<close>

lemma find_sub_skip [str_simps]:
  "c \<notin> set xs \<Longrightarrow>
   find_sub (c # p) (xs @ ys) = map_option (\<lambda>i. length xs + i) (find_sub (c # p) ys)"
proof (induction xs)
  case (Cons x xs)
  then have "x \<noteq> c" by auto
  with Cons show ?case by (cases "find_sub (c # p) ys") auto
qed (cases "find_sub (c # p) ys"; simp)

lemma find_sub_prefix [str_simps]: "find_sub p (p @ ys) = Some 0"
proof (cases "p @ ys")
  case (Cons x xs)
  then have "is_prefix p (x # xs)" unfolding is_prefix_iff by metis
  with Cons show ?thesis by simp
qed simp

lemma find_sub_None_append: "find_sub p (xs @ ys) = None \<Longrightarrow> p \<noteq> [] \<Longrightarrow> find_sub p xs = None"
proof (induction xs)
  case (Cons x xs)
  then have "\<not> is_prefix p (x # xs @ ys)" and "find_sub p (xs @ ys) = None"
    by (auto split: if_splits)
  moreover from \<open>\<not> is_prefix p (x # xs @ ys)\<close> have "\<not> is_prefix p (x # xs)"
    unfolding is_prefix_iff by (metis append.assoc append_Cons)
  ultimately show ?case using Cons by simp
qed simp


subsection \<open>Facts about trimming\<close>

lemma strip_front_id: "xs = [] \<or> \<not> P (hd xs) \<Longrightarrow> strip_front P xs = xs"
  by (cases xs) (auto simp: strip_front_def)

lemma strip_back_id: "xs = [] \<or> \<not> P (last xs) \<Longrightarrow> strip_back P xs = xs"
  by (cases xs rule: rev_cases) (auto simp: strip_back_def)

lemma strip_front_hd: "strip_front P xs \<noteq> [] \<Longrightarrow> \<not> P (hd (strip_front P xs))"
  by (simp add: strip_front_def hd_dropWhile)

lemma strip_back_last: "strip_back P xs \<noteq> [] \<Longrightarrow> \<not> P (last (strip_back P xs))"
  by (simp add: strip_back_def last_rev hd_dropWhile)

lemma strip_back_prefix: "\<exists>ys. xs = strip_back P xs @ ys \<and> (\<forall>y\<in>set ys. P y)"
proof (intro exI conjI)
  have "rev xs = takeWhile P (rev xs) @ dropWhile P (rev xs)" by simp
  then have "rev (rev xs) = rev (takeWhile P (rev xs) @ dropWhile P (rev xs))" by (rule arg_cong)
  then show "xs = strip_back P xs @ rev (takeWhile P (rev xs))"
    by (simp only: strip_back_def rev_append rev_rev_ident)
  show "\<forall>y\<in>set (rev (takeWhile P (rev xs))). P y" by (auto dest: set_takeWhileD)
qed

lemma strip_back_hd: "strip_back P xs \<noteq> [] \<Longrightarrow> hd (strip_back P xs) = hd xs"
  using strip_back_prefix [of xs P] by (metis hd_append2)


subsection \<open>Facts about numbers\<close>

lemma s32_id: "- (2 ^ 31) \<le> x \<Longrightarrow> x < 2 ^ 31 \<Longrightarrow> s32 x = x"
  by (simp add: s32_def)

lemma s64_id: "- (2 ^ 63) \<le> x \<Longrightarrow> x < 2 ^ 63 \<Longrightarrow> s64 x = x"
  by (simp add: s64_def)

lemma s32_range: "- (2 ^ 31) \<le> s32 x \<and> s32 x < 2 ^ 31"
  by (simp add: s32_def)

lemma s64_range: "- (2 ^ 63) \<le> s64 x \<and> s64 x < 2 ^ 63"
  by (simp add: s64_def)

lemma digit_val_digit_char: "d < 10 \<Longrightarrow> digit_val 10 (digit_char d) = Some d"
  by (simp add: digit_val_def digit_char_def char_code_def)

lemma is_digit_digit_char: "d < 10 \<Longrightarrow> is_digit (digit_char d)"
  by (simp add: is_digit_def digit_char_def char_code_def)

lemma nat_to_dec_digits: "c \<in> set (nat_to_dec n) \<Longrightarrow> is_digit c"
proof (induction n rule: nat_to_dec.induct)
  case (1 n)
  show ?case
  proof (cases "n < 10")
    case True
    with "1.prems" show ?thesis
      by (simp add: nat_to_dec.simps [of n] is_digit_digit_char)
  next
    case False
    with 1 show ?thesis
      by (auto simp: nat_to_dec.simps [of n] intro: is_digit_digit_char)
  qed
qed

lemma nat_to_dec_nonempty [simp]: "nat_to_dec n \<noteq> []"
  by (subst nat_to_dec.simps) simp

lemma digits_val_append:
  "\<forall>c\<in>set xs. digit_val base c \<noteq> None \<Longrightarrow>
   digits_val base acc (xs @ ys) =
     (let (v, k) = digits_val base acc xs; (w, l) = digits_val base v ys in (w, k + l))"
  by (induction xs arbitrary: acc) (auto simp: case_prod_beta Let_def)

lemma is_digit_digit_val: "is_digit c \<Longrightarrow> digit_val 10 c \<noteq> None"
  by (auto simp: is_digit_def digit_val_def Let_def)

lemma digits_val_nat_to_dec: "digits_val 10 0 (nat_to_dec n) = (n, length (nat_to_dec n))"
proof (induction n rule: nat_to_dec.induct)
  case (1 n)
  show ?case
  proof (cases "n < 10")
    case True
    then show ?thesis by (simp add: nat_to_dec.simps [of n] digit_val_digit_char)
  next
    case False
    have "\<forall>c\<in>set (nat_to_dec (n div 10)). digit_val 10 c \<noteq> None"
      by (blast dest: nat_to_dec_digits is_digit_digit_val)
    with False "1.IH" show ?thesis
      by (simp add: nat_to_dec.simps [of n] digits_val_append digit_val_digit_char)
  qed
qed

text \<open>\<open>strtoll\<close> inverts \<open>std::to_string\<close>, whatever non-digit follows.\<close>

lemma digits_val_stop:
  "rest = [] \<or> digit_val base (hd rest) = None \<Longrightarrow> digits_val base acc rest = (acc, 0)"
  by (cases rest) auto

lemma strtoll_nat_to_dec:
  assumes "int n < 2 ^ 63" and "rest = [] \<or> \<not> is_digit (hd rest)"
  shows "strtoll 10 (nat_to_dec n @ rest) = (int n, length (nat_to_dec n))"
proof -
  obtain c cs where c: "nat_to_dec n = c # cs" by (cases "nat_to_dec n") auto
  then have "is_digit c" using nat_to_dec_digits [of c n] by simp
  then have ns: "\<not> is_space c" and nm: "c \<noteq> CHR ''-''" and np: "c \<noteq> CHR ''+''"
    by (auto simp: code_points)
  have ds: "\<forall>c\<in>set (nat_to_dec n). digit_val 10 c \<noteq> None"
    by (blast dest: nat_to_dec_digits is_digit_digit_val)
  have "digit_val 10 (hd rest) = None" if "rest \<noteq> []"
    using assms(2) that by (auto simp: digit_val_def is_digit_def Let_def split: option.splits)
  then have "digits_val 10 n rest = (n, 0)" by (auto intro: digits_val_stop)
  then have "digits_val 10 0 (nat_to_dec n @ rest) = (n, length (nat_to_dec n))"
    using ds by (simp add: digits_val_append digits_val_nat_to_dec)
  then show ?thesis
    using assms(1) c ns nm np by (simp add: strtoll_def Let_def hex_prefix_def llong_clamp_def)
qed


lemma digit_val_hex_char: "d < 16 \<Longrightarrow> digit_val 16 (hex_char d) = Some d"
  by (auto simp: digit_val_def hex_char_def char_code_def Let_def)

lemma nat_to_hex_digits: "c \<in> set (nat_to_hex n) \<Longrightarrow> digit_val 16 c \<noteq> None"
proof (induction n rule: nat_to_hex.induct)
  case (1 n)
  show ?case
  proof (cases "n < 16")
    case True
    with "1.prems" show ?thesis
      by (simp add: nat_to_hex.simps [of n] digit_val_hex_char)
  next
    case False
    have "digit_val 16 (hex_char (n mod 16)) = Some (n mod 16)" by (rule digit_val_hex_char) simp
    with False 1 show ?thesis
      by (auto simp: nat_to_hex.simps [of n])
  qed
qed

lemma nat_to_hex_nonempty [simp]: "nat_to_hex n \<noteq> []"
  by (subst nat_to_hex.simps) simp

lemma digits_val_nat_to_hex: "digits_val 16 0 (nat_to_hex n) = (n, length (nat_to_hex n))"
proof (induction n rule: nat_to_hex.induct)
  case (1 n)
  show ?case
  proof (cases "n < 16")
    case True
    then show ?thesis by (simp add: nat_to_hex.simps [of n] digit_val_hex_char)
  next
    case False
    have "\<forall>c\<in>set (nat_to_hex (n div 16)). digit_val 16 c \<noteq> None"
      by (blast dest: nat_to_hex_digits)
    with False "1.IH" show ?thesis
      by (simp add: nat_to_hex.simps [of n] digits_val_append digit_val_hex_char)
  qed
qed

lemma hex_digit_chars:
  "digit_val 16 c \<noteq> None \<Longrightarrow>
   \<not> is_space c \<and> c \<noteq> CHR ''-'' \<and> c \<noteq> CHR ''+'' \<and> c \<noteq> CHR ''x'' \<and> c \<noteq> CHR ''X'' \<and> c \<noteq> CHR '';'' \<and>
   c \<noteq> lf \<and> c \<noteq> cr"
  by (auto simp: digit_val_def code_points Let_def lf_def cr_def split: if_splits)

lemma nat_to_hex_chars: "c \<in> set (nat_to_hex n) \<Longrightarrow> \<not> is_space c \<and> c \<noteq> CHR '';'' \<and> c \<noteq> lf \<and> c \<noteq> cr"
  using hex_digit_chars [OF nat_to_hex_digits] by blast

lemma strtoll_nat_to_hex:
  assumes "int n < 2 ^ 63"
  shows "strtoll 16 (nat_to_hex n) = (int n, length (nat_to_hex n))"
proof -
  have d: "\<And>c. c \<in> set (nat_to_hex n) \<Longrightarrow> digit_val 16 c \<noteq> None" by (rule nat_to_hex_digits)
  obtain c cs where c: "nat_to_hex n = c # cs" by (cases "nat_to_hex n") auto
  then have hc: "\<not> is_space c" "c \<noteq> CHR ''-''" "c \<noteq> CHR ''+''"
    using hex_digit_chars [OF d, of c] by auto
  have "hex_prefix 16 (nat_to_hex n) = 0"
    using hex_digit_chars [OF d [OF nth_mem, of 1]] by (auto simp: hex_prefix_def)
  with c hc have "hex_prefix 16 (c # cs) = 0" by simp
  with assms show ?thesis
    using c hc digits_val_nat_to_hex [of n] by (simp add: strtoll_def Let_def llong_clamp_def)
qed

lemma length_nat_to_hex: "n < 16 ^ k \<Longrightarrow> 0 < k \<Longrightarrow> length (nat_to_hex n) \<le> k"
proof (induction k arbitrary: n)
  case (Suc k)
  show ?case
  proof (cases "n < 16")
    case True
    then show ?thesis by (simp add: nat_to_hex.simps [of n])
  next
    case False
    have "n div 16 < 16 ^ k" using Suc.prems by (simp add: less_mult_imp_div_less mult.commute)
    moreover have "0 < k" using False Suc.prems by (cases k) auto
    ultimately show ?thesis using Suc.IH False by (simp add: nat_to_hex.simps [of n])
  qed
qed simp


subsection \<open>Facts about files\<close>

lemma write_at_end: "write_at (length xs) d xs = xs @ d"
  by (simp add: write_at_def pad_to_def)

lemma length_write_at: "length (write_at off d xs) = max (length xs) (off + length d)"
  by (auto simp: write_at_def pad_to_def)

lemma write_at_write_at:
  "write_at (off + length d) e (write_at off d xs) = write_at off (d @ e) xs"
proof (cases "off \<le> length xs")
  case True
  then show ?thesis by (simp add: write_at_def pad_to_def min_def ac_simps)
next
  case False
  then show ?thesis by (auto simp: write_at_def pad_to_def min_def)
qed

lemma write_at_nil: "off \<le> length xs \<Longrightarrow> write_at off [] xs = xs"
  by (simp add: write_at_def pad_to_def)



subsection \<open>Runs given by their states\<close>

fun chain :: "('a \<Rightarrow> 'a \<Rightarrow> bool) \<Rightarrow> 'a list \<Rightarrow> bool" where
  "chain R (x # y # zs) \<longleftrightarrow> R x y \<and> chain R (y # zs)"
| "chain R zs \<longleftrightarrow> True"

lemma chain_rtranclp: "chain R (x # xs) \<Longrightarrow> R\<^sup>*\<^sup>* x (last (x # xs))"
  by (induction xs arbitrary: x) (auto intro: converse_rtranclp_into_rtranclp split: if_splits)

end
