(* ===== verification/Http_Url.thy ===== *)
theory Http_Url
  imports Binder_Prelude
begin

text \<open>
  URLs of the HTTP transport: \<open>struct Url\<close> with its two printers, \<open>parseUrl\<close> and
  \<open>resolveRedirect\<close> (\<open>service/http/HttpClient.cpp\<close>). The facts: every accepted URL has the
  shape the header promises, printing and parsing are inverse on URLs without delimiter
  characters in their host, and a redirect to a path stays on its origin.
\<close>

definition toLower :: "string \<Rightarrow> string" where
  "toLower s = map to_lower_char s"

definition trim :: "string \<Rightarrow> string" where
  "trim s = strip_back is_space (strip_front is_space s)"

record url =
  scheme :: string
  host :: string
  port :: string
  target :: string

definition hostHeader :: "url \<Rightarrow> string" where
  "hostHeader u =
     (let isDefault = (scheme u = ''http'' \<and> port u = ''80'') \<or> (scheme u = ''https'' \<and> port u = ''443'');
          literalV6 = find_char (CHR '':'') (host u) \<noteq> None;
          bare = (if literalV6 then ''['' @ host u @ '']'' else host u)
      in if isDefault then bare else bare @ '':'' @ port u)"

definition toString :: "url \<Rightarrow> string" where
  "toString u = scheme u @ ''://'' @ hostHeader u @ target u"

definition is_delim :: "char \<Rightarrow> bool" where
  "is_delim c \<longleftrightarrow> c = CHR ''/'' \<or> c = CHR ''?'' \<or> c = CHR ''#''"

text \<open>The host and the port (possibly empty) of a non-empty authority.\<close>

definition splitAuthority :: "string \<Rightarrow> (string \<times> string) option" where
  "splitAuthority authority =
     (if hd authority = CHR ''['' then
        (case find_char (CHR '']'') authority of
           None \<Rightarrow> None
         | Some cl \<Rightarrow>
             let rest = substr_from authority (cl + 1)
             in Some (substr authority 1 (cl - 1),
                      if rest \<noteq> [] \<and> hd rest = CHR '':'' then substr_from rest 1 else ''''))
      else
        (case rfind_char (CHR '':'') authority of
           None \<Rightarrow> Some (authority, '''')
         | Some colon \<Rightarrow> Some (substr authority 0 colon, substr_from authority (colon + 1))))"

definition parseTarget :: "string \<Rightarrow> nat \<Rightarrow> string" where
  "parseTarget input authorityEnd =
     (let t0 = (if authorityEnd < length input then substr_from input authorityEnd else ''/'');
          t1 = (if t0 = [] \<or> hd t0 \<noteq> CHR ''/'' then ''/'' @ t0 else t0)
      in case find_char (CHR ''#'') t1 of None \<Rightarrow> t1 | Some fragment \<Rightarrow> take fragment t1)"

text \<open>The second half of \<open>parseUrl\<close>: host, port and target from an authority.\<close>

definition parseAuthority :: "string \<Rightarrow> string \<Rightarrow> string \<Rightarrow> nat \<Rightarrow> url option" where
  "parseAuthority sch authority input authorityEnd =
     (if authority = [] then None
      else case splitAuthority authority of
             None \<Rightarrow> None
           | Some (h, p) \<Rightarrow>
               if h = [] then None
               else let p' = (if p = [] then (if sch = ''https'' then ''443'' else ''80'') else p)
                    in if \<not> list_all is_digit p' then None
                       else Some \<lparr>scheme = sch, host = h, port = p',
                                  target = parseTarget input authorityEnd\<rparr>)"

definition parseUrl :: "string \<Rightarrow> url option" where
  "parseUrl text =
     (let input = trim text
      in case find_sub ''://'' input of
           None \<Rightarrow> None
         | Some schemeEnd \<Rightarrow>
             let sch = toLower (substr input 0 schemeEnd)
             in if sch \<noteq> ''http'' \<and> sch \<noteq> ''https'' then None
                else
                  let authorityStart = schemeEnd + 3;
                      authorityEnd = (case find_from is_delim authorityStart input of
                                        None \<Rightarrow> length input | Some e \<Rightarrow> e);
                      authority0 = substr input authorityStart (authorityEnd - authorityStart);
                      authority = (case rfind_char (CHR ''@'') authority0 of
                                     None \<Rightarrow> authority0 | Some at \<Rightarrow> substr_from authority0 (at + 1))
                  in parseAuthority sch authority input authorityEnd)"

definition resolveRedirect :: "url \<Rightarrow> string \<Rightarrow> string" where
  "resolveRedirect base location =
     (let tgt = trim location
      in if tgt = [] then []
         else if find_sub ''://'' tgt \<noteq> None then tgt
         else if hd tgt = CHR ''/'' then toString (base\<lparr>target := tgt\<rparr>)
         else let dir = (case rfind_char (CHR ''/'') (target base) of
                           None \<Rightarrow> ''/''
                         | Some lastSlash \<Rightarrow> substr (target base) 0 (lastSlash + 1))
              in toString (base\<lparr>target := dir @ tgt\<rparr>))"


subsection \<open>Well-formed URLs\<close>

definition url_wf :: "url \<Rightarrow> bool" where
  "url_wf u \<longleftrightarrow>
     (scheme u = ''http'' \<or> scheme u = ''https'') \<and> host u \<noteq> [] \<and> port u \<noteq> [] \<and>
     list_all is_digit (port u) \<and> target u \<noteq> [] \<and> hd (target u) = CHR ''/'' \<and>
     CHR ''#'' \<notin> set (target u)"

text \<open>
  Hosts and targets that survive printing: no delimiter of the URL grammar inside the host, no
  white space at the end of the target.
\<close>

definition host_clean :: "string \<Rightarrow> bool" where
  "host_clean h \<longleftrightarrow> h \<noteq> [] \<and> (\<forall>c\<in>set h. c \<notin> set ''/?#@[]'')"

definition url_clean :: "url \<Rightarrow> bool" where
  "url_clean u \<longleftrightarrow> url_wf u \<and> host_clean (host u) \<and> \<not> is_space (last (target u))"

lemma parseTarget_wf:
  "parseTarget input e \<noteq> [] \<and> hd (parseTarget input e) = CHR ''/'' \<and>
   CHR ''#'' \<notin> set (parseTarget input e)"
proof -
  define t0 where "t0 = (if e < length input then substr_from input e else ''/'')"
  define t1 where "t1 = (if t0 = [] \<or> hd t0 \<noteq> CHR ''/'' then ''/'' @ t0 else t0)"
  have t1: "t1 \<noteq> []" "hd t1 = CHR ''/''" by (auto simp: t1_def)
  have eq: "parseTarget input e =
      (case find_char (CHR ''#'') t1 of None \<Rightarrow> t1 | Some fragment \<Rightarrow> take fragment t1)"
    unfolding parseTarget_def Let_def t0_def t1_def by (rule refl)
  show ?thesis
  proof (cases "find_char (CHR ''#'') t1")
    case None
    moreover from None have "CHR ''#'' \<notin> set t1" by (simp add: find_char_None)
    ultimately show ?thesis using t1 eq by simp
  next
    case (Some i)
    then have "i \<noteq> 0" using t1 by (cases "i = 0") (auto simp: find_char_Some hd_conv_nth)
    moreover from Some have "CHR ''#'' \<notin> set (take i t1)" by (simp add: find_char_Some)
    ultimately show ?thesis using Some t1 eq by simp
  qed
qed

lemma parseAuthority_wf:
  assumes "parseAuthority sch authority input e = Some u" and "sch = ''http'' \<or> sch = ''https''"
  shows "url_wf u"
  using assms parseTarget_wf [of input e]
  by (auto simp: parseAuthority_def url_wf_def Let_def split: option.splits if_splits)

lemma parseUrl_url_wf: "parseUrl text = Some u \<Longrightarrow> url_wf u"
  unfolding parseUrl_def Let_def
  by (auto intro: parseAuthority_wf split: option.split_asm if_split_asm)


subsection \<open>Printing and parsing\<close>

lemma host_clean_no: "host_clean h \<Longrightarrow> c \<in> set ''/?#@[]'' \<Longrightarrow> c \<notin> set h"
  by (auto simp: host_clean_def)

lemma splitAuthority_hostHeader:
  assumes "host_clean h" and "p = [] \<or> (p \<noteq> [] \<and> list_all is_digit p)"
  shows "splitAuthority ((if CHR '':'' \<in> set h then ''['' @ h @ '']'' else h) @
           (if p = [] then [] else '':'' @ p)) = Some (h, p)"
proof (cases "CHR '':'' \<in> set h")
  case True
  have "CHR '']'' \<notin> set (CHR ''['' # h)" using host_clean_no [OF assms(1)] by auto
  then have "find_char (CHR '']'') ((CHR ''['' # h) @ CHR '']'' # (if p = [] then [] else '':'' @ p))
      = Some (length (CHR ''['' # h))"
    by (rule find_char_hit)
  with True show ?thesis
    by (auto simp: splitAuthority_def substr_def substr_from_def Let_def)
next
  case False
  have h: "h \<noteq> []" "hd h \<noteq> CHR ''[''"
    using assms(1) by (auto simp: host_clean_def dest: hd_in_set)
  show ?thesis
  proof (cases "p = []")
    case True
    moreover from False have "rfind_char (CHR '':'') h = None" by (simp add: rfind_char_None)
    ultimately show ?thesis using False h by (simp add: splitAuthority_def)
  next
    case p: False
    have "CHR '':'' \<notin> set p" using assms(2) p by (auto simp: list_all_iff code_points)
    then have "rfind_char (CHR '':'') (h @ CHR '':'' # p) = Some (length h)" by (rule rfind_char_hit)
    with False h p show ?thesis
      by (simp add: splitAuthority_def substr_def substr_from_def)
  qed
qed

lemma hostHeader_eq:
  "hostHeader u = (if CHR '':'' \<in> set (host u) then ''['' @ host u @ '']'' else host u) @
     (if (scheme u = ''http'' \<and> port u = ''80'') \<or> (scheme u = ''https'' \<and> port u = ''443'')
      then [] else '':'' @ port u)"
  using find_char_None [of "CHR '':''" "host u"] by (simp add: hostHeader_def Let_def)

lemma digits_no_delim: "list_all is_digit p \<Longrightarrow> c \<in> set p \<Longrightarrow> \<not> is_delim c \<and> c \<noteq> CHR ''@''"
  by (auto simp: list_all_iff is_delim_def code_points)

lemma hostHeader_no_delim:
  assumes "url_wf u" and "host_clean (host u)" and "c \<in> set (hostHeader u)"
  shows "\<not> is_delim c \<and> c \<noteq> CHR ''@''"
proof -
  have "c \<in> set (host u) \<or> c \<in> set (port u) \<or> c \<in> set '':[]''"
    using assms(3) by (auto simp: hostHeader_eq split: if_splits)
  then show ?thesis
    using assms(1,2) digits_no_delim [of "port u" c] host_clean_no [of "host u" c]
    by (auto simp: url_wf_def is_delim_def)
qed

lemma trim_id: "s = [] \<or> \<not> is_space (hd s) \<and> \<not> is_space (last s) \<Longrightarrow> trim s = s"
  by (auto simp: trim_def strip_front_id strip_back_id)

lemma trim_last: "trim s \<noteq> [] \<Longrightarrow> \<not> is_space (last (trim s))"
  unfolding trim_def by (rule strip_back_last)

lemma find_char_takeWhile:
  "(case find_char c t of None \<Rightarrow> t | Some i \<Rightarrow> take i t) = takeWhile (\<lambda>x. x \<noteq> c) t"
proof (induction t)
  case (Cons x t)
  then show ?case by (cases "find_pos (\<lambda>x. x = c) t") (auto simp: find_char_def)
qed (simp add: find_char_def)

lemma parseTarget_path:
  assumes "t \<noteq> []" and "hd t = CHR ''/''"
  shows "parseTarget (pre @ t) (length pre) = takeWhile (\<lambda>c. c \<noteq> CHR ''#'') t"
  using assms by (simp add: parseTarget_def substr_from_def Let_def find_char_takeWhile)

lemma parseAuthority_hostHeader:
  assumes wf: "url_wf u" and hc: "host_clean (host u)" and t: "t \<noteq> []" "hd t = CHR ''/''"
  shows "parseAuthority (scheme u) (hostHeader u) ((scheme u @ ''://'' @ hostHeader u) @ t)
           (length (scheme u @ ''://'' @ hostHeader u)) =
         Some (u\<lparr>target := takeWhile (\<lambda>c. c \<noteq> CHR ''#'') t\<rparr>)"
proof -
  define p where "p = (if (scheme u = ''http'' \<and> port u = ''80'') \<or> (scheme u = ''https'' \<and> port u = ''443'')
      then [] else port u)"
  have split: "splitAuthority (hostHeader u) = Some (host u, p)"
    using splitAuthority_hostHeader [OF hc, of p] wf
    by (auto simp: hostHeader_eq p_def url_wf_def)
  have ne: "hostHeader u \<noteq> []" "host u \<noteq> []" using hc by (auto simp: hostHeader_eq host_clean_def)
  have port: "(if p = [] then if scheme u = ''https'' then ''443'' else ''80'' else p) = port u"
    using wf by (auto simp: p_def url_wf_def)
  have tgt: "parseTarget ((scheme u @ ''://'' @ hostHeader u) @ t)
      (length (scheme u @ ''://'' @ hostHeader u)) = takeWhile (\<lambda>c. c \<noteq> CHR ''#'') t"
    by (rule parseTarget_path [OF t])
  have "list_all is_digit (port u)" using wf by (simp add: url_wf_def)
  then show ?thesis
    using ne unfolding parseAuthority_def Let_def split option.case prod.case port tgt by simp
qed

text \<open>Parsing an origin followed by any path gives back the origin and the path.\<close>

lemma parseUrl_origin:
  assumes wf: "url_wf u" and hc: "host_clean (host u)"
    and t: "t \<noteq> []" "hd t = CHR ''/''" "\<not> is_space (last t)"
  shows "parseUrl (toString (u\<lparr>target := t\<rparr>)) =
    Some (u\<lparr>target := takeWhile (\<lambda>c. c \<noteq> CHR ''#'') t\<rparr>)"
proof -
  let ?pre = "scheme u @ ''://'' @ hostHeader u"
  define s where "s = ?pre @ t"
  have s: "toString (u\<lparr>target := t\<rparr>) = s" by (simp add: s_def toString_def hostHeader_eq)
  have sch: "scheme u = ''http'' \<or> scheme u = ''https''" using wf by (simp add: url_wf_def)
  have "hd s = CHR ''h''" "last s = last t" using sch t by (auto simp: s_def)
  then have trim: "trim s = s" using t by (intro trim_id) (auto simp: code_points)
  have "CHR '':'' \<notin> set (scheme u)" using sch by auto
  then have find: "find_sub ''://'' s = Some (length (scheme u))"
    unfolding s_def by (simp add: find_sub_skip find_sub_prefix)
  have low: "toLower (substr s 0 (length (scheme u))) = scheme u"
    using sch by (auto simp: s_def substr_def toLower_def code_points)
  have "find_pos is_delim (hostHeader u @ t) = Some (length (hostHeader u))"
  proof -
    obtain r where "t = CHR ''/'' # r" using t by (cases t) auto
    then show ?thesis
      using hostHeader_no_delim [OF wf hc] by (auto intro!: find_pos_append_hit simp: is_delim_def)
  qed
  then have ae: "find_from is_delim (length (scheme u) + 3) s = Some (length ?pre)"
    by (simp add: find_from_def s_def)
  have auth: "substr s (length (scheme u) + 3) (length ?pre - (length (scheme u) + 3)) = hostHeader u"
    by (simp add: substr_def s_def)
  have "rfind_char (CHR ''@'') (hostHeader u) = None"
    using hostHeader_no_delim [OF wf hc] by (auto simp: rfind_char_None)
  then have "parseUrl s = parseAuthority (scheme u) (hostHeader u) s (length ?pre)"
    using sch unfolding parseUrl_def Let_def trim find low ae auth option.case by auto
  also have "\<dots> = Some (u\<lparr>target := takeWhile (\<lambda>c. c \<noteq> CHR ''#'') t\<rparr>)"
    unfolding s_def by (rule parseAuthority_hostHeader [OF wf hc t(1,2)])
  finally show ?thesis unfolding s .
qed

lemma parseUrl_toString_eq:
  assumes "url_clean u"
  shows "parseUrl (toString u) = Some u"
proof -
  have "takeWhile (\<lambda>c. c \<noteq> CHR ''#'') (target u) = target u"
    using assms by (intro takeWhile_eq_all_conv [THEN iffD2]) (auto simp: url_clean_def url_wf_def)
  then show ?thesis
    using parseUrl_origin [of u "target u"] assms by (simp add: url_clean_def url_wf_def)
qed


subsection \<open>Redirects\<close>

text \<open>The path a relative or absolute \<open>Location\<close> names, seen from a base URL.\<close>

definition redirect_path :: "url \<Rightarrow> string \<Rightarrow> string" where
  "redirect_path base tgt =
     (if hd tgt = CHR ''/'' then tgt
      else (case rfind_char (CHR ''/'') (target base) of
           None \<Rightarrow> ''/'' | Some i \<Rightarrow> take (i + 1) (target base)) @ tgt)"

lemma redirect_path_shape:
  assumes "url_wf base" and "tgt \<noteq> []"
  shows "redirect_path base tgt \<noteq> [] \<and> hd (redirect_path base tgt) = CHR ''/'' \<and>
         last (redirect_path base tgt) = last tgt"
  using assms by (auto simp: redirect_path_def url_wf_def split: option.splits)

lemma resolveRedirect_path:
  assumes "trim loc \<noteq> []" and "find_sub ''://'' (trim loc) = None"
  shows "resolveRedirect base loc = toString (base\<lparr>target := redirect_path base (trim loc)\<rparr>)"
  using assms
  by (auto simp: resolveRedirect_def redirect_path_def substr_def Let_def split: option.splits)

lemma resolveRedirect_origin:
  assumes "url_wf base" and "host_clean (host base)"
    and "trim loc \<noteq> []" and "find_sub ''://'' (trim loc) = None"
  shows "parseUrl (resolveRedirect base loc) =
    Some (base\<lparr>target := takeWhile (\<lambda>c. c \<noteq> CHR ''#'') (redirect_path base (trim loc))\<rparr>)"
  using assms redirect_path_shape [of base "trim loc"] trim_last [of loc]
  by (simp add: resolveRedirect_path parseUrl_origin)

end
