(* ===== verification/Http_Stream.thy ===== *)
theory Http_Stream
  imports Http_Reader
begin

text \<open>
  The abstract view of the \<open>Reader\<close>: a connection that is neither cancelled, broken nor idle for
  too long delivers one byte stream, and everything read from it is a function of that stream. The
  interface between the pumps and whoever receives the body (\<open>BodyFn\<close>) is the locale
  \<open>body_sink\<close>; sinks that have room for what is coming are \<open>roomy_sink\<close>s.
\<close>

subsection \<open>Quiet connections and their byte stream\<close>

definition quiet_step :: "bool \<Rightarrow> int \<Rightarrow> poll_step \<Rightarrow> bool" where
  "quiet_step cancelable idle e \<longleftrightarrow>
     \<not> (cancelable \<and> step_canceled e) \<and>
     (case step_recv e of
        Received bs \<Rightarrow> bs \<noteq> [] | Again \<Rightarrow> step_elapsed e < idle | Broken _ \<Rightarrow> False)"

definition quiet :: "reader \<Rightarrow> bool" where
  "quiet r \<longleftrightarrow> list_all (quiet_step (mIsCanceled r) (mIdleTimeoutMs r)) (mConn r)"

definition step_bytes :: "poll_step \<Rightarrow> bytes" where
  "step_bytes e = (case step_recv e of Received bs \<Rightarrow> bs | _ \<Rightarrow> [])"

definition stream :: "reader \<Rightarrow> bytes" where
  "stream r = buffered r @ concat (map step_bytes (mConn r))"

lemma stream_consume: "k \<le> length (buffered r) \<Longrightarrow> stream (consume k r) = drop k (stream r)"
  by (simp add: stream_def consume_def buffered_def add.commute)

lemma quiet_consume [simp]: "quiet (consume k r) = quiet r"
  by (simp add: quiet_def consume_def)

lemma mConn_consume [simp]: "mConn (consume k r) = mConn r"
  by (simp add: consume_def)

lemma fill_loop_quiet:
  assumes "list_all (quiet_step (mIsCanceled r) (mIdleTimeoutMs r)) es" and "buffered r = []"
  shows "(concat (map step_bytes es) = [] \<and> fill_loop r es = (kOk, True, r\<lparr>mConn := []\<rparr>)) \<or>
     (\<exists>r1. fill_loop r es = (kOk, False, r1) \<and> quiet r1 \<and>
        stream r1 = concat (map step_bytes es) \<and> buffered r1 \<noteq> [])"
  using assms
proof (induction es)
  case (Cons e es)
  show ?case
  proof (cases "step_recv e")
    case (Received bs)
    with Cons.prems show ?thesis
      by (auto simp: quiet_step_def [of _ _ e] quiet_def stream_def buffered_def step_bytes_def [of e])
  qed (use Cons in \<open>auto simp: quiet_step_def [of _ _ e] step_bytes_def [of e]\<close>)
qed simp

lemma fill_quiet:
  assumes "quiet r" and "buffered r = []"
  shows "(stream r = [] \<and> fill r = (kOk, True, r\<lparr>mConn := []\<rparr>)) \<or>
     (\<exists>r1. fill r = (kOk, False, r1) \<and> quiet r1 \<and> stream r1 = stream r \<and> buffered r1 \<noteq> [])"
  using fill_loop_quiet [of r "mConn r"] assms by (simp add: fill_def quiet_def stream_def)

lemma refill_quiet:
  assumes "quiet r"
  shows "(stream r = [] \<and> refill r = (kOk, True, r\<lparr>mConn := []\<rparr>)) \<or>
     (\<exists>r1. refill r = (kOk, False, r1) \<and> quiet r1 \<and> stream r1 = stream r \<and> buffered r1 \<noteq> [])"
  using fill_quiet [OF assms] assms by (cases "buffered r = []") (auto simp: refill_def)


subsection \<open>Lines\<close>

lemma scanLine_append:
  "scanLine line (xs @ ys) =
     (case scanLine line xs of
        (LineMore l, k) \<Rightarrow> (let (res, j) = scanLine l ys in (res, k + j))
      | other \<Rightarrow> other)"
  by (induction line xs rule: scanLine.induct)
    (auto simp: Let_def split: prod.splits scan.splits)

lemma scanLine_more: "scanLine line cs = (LineMore l, k) \<Longrightarrow> k = length cs"
  by (induction line cs arbitrary: k rule: scanLine.induct) (auto split: if_splits prod.splits)

text \<open>Reading a line from a quiet connection is scanning its stream, whatever the packets.\<close>

definition line_outcome :: "bytes \<Rightarrow> reader \<Rightarrow> http_error \<times> bytes \<times> reader \<Rightarrow> bool" where
  "line_outcome line r res \<longleftrightarrow>
     (case scanLine line (stream r) of
        (LineDone l, k) \<Rightarrow>
          (\<exists>r'. res = (kOk, l, r') \<and> quiet r' \<and> stream r' = drop k (stream r))
      | (LineTooLong l, k) \<Rightarrow> fst res = kErrorIo \<and> mError (snd (snd res)) = ''response line too long''
      | (LineMore l, k) \<Rightarrow> fst res = kErrorIo \<and> mError (snd (snd res)) = ''connection closed mid-header'')"

lemma readLine_loop_quiet:
  "quiet r \<longrightarrow> line_outcome line r (readLine_loop line r)"
proof (rule readLine_rule [where P = "\<lambda>line r res. quiet r \<longrightarrow> line_outcome line r res"], goal_cases)
  case (1 line r l k)
  then have "scanLine line (stream r) = (LineDone l, k)" by (simp add: stream_def scanLine_append)
  then show ?case
    using scanLine_consumed [OF 1] by (simp add: line_outcome_def stream_consume)
next
  case (2 line r l k)
  then have "scanLine line (stream r) = (LineTooLong l, k)" by (simp add: stream_def scanLine_append)
  then show ?case by (simp add: line_outcome_def)
next
  case (3 line r l k rc eof r')
  then have "buffered (consume k r) = []" using scanLine_more [OF 3(1)] by (simp add: buffered_def consume_def)
  with 3 show ?case using fill_quiet [of "consume k r"] by auto
next
  case (4 line r l k r')
  have k: "k = length (buffered r)" using 4 scanLine_more by blast
  then have "buffered (consume k r) = []" by (simp add: buffered_def consume_def)
  then have "quiet r \<longrightarrow> stream (consume k r) = []" using 4 fill_quiet [of "consume k r"] by auto
  then have "quiet r \<longrightarrow> stream r = buffered r" using k stream_consume [of k r] by (simp add: stream_def)
  then show ?case using 4 by (simp add: line_outcome_def)
next
  case (5 line r l k r' res)
  have k: "k = length (buffered r)" using 5 scanLine_more by blast
  then have "buffered (consume k r) = []" by (simp add: buffered_def consume_def)
  then have r': "quiet r \<longrightarrow> quiet r' \<and> stream r' = drop k (stream r)"
    using 5 fill_quiet [of "consume k r"] stream_consume [of k r] k by auto
  have "scanLine line (stream r) = (let (res, j) = scanLine l (drop k (stream r)) in (res, k + j))"
    using 5 k by (simp add: stream_def scanLine_append)
  then show ?case
    using r' 5 by (auto simp: line_outcome_def Let_def add.commute split: prod.splits scan.splits)
qed

lemma readLine_quiet: "quiet r \<Longrightarrow> line_outcome [] r (readLine r)"
  using readLine_loop_quiet by (simp add: readLine_def)

lemma scanLine_line:
  "lf \<notin> set xs \<Longrightarrow> length line + length xs \<le> kMaxLineLength \<Longrightarrow>
   scanLine line (xs @ lf # ys) = (LineDone (strip_cr (line @ xs)), Suc (length xs))"
  by (induction xs arbitrary: line) auto

lemma readLine_line:
  assumes "quiet r" and "stream r = xs @ lf # ys" and "lf \<notin> set xs" and "length xs \<le> kMaxLineLength"
  shows "\<exists>r'. readLine r = (kOk, strip_cr xs, r') \<and> quiet r' \<and> stream r' = ys"
  using readLine_quiet [OF assms(1)] scanLine_line [of xs "[]" ys] assms(2-4)
  by (simp add: line_outcome_def)

lemma readLine_crlf:
  assumes "quiet r" and "stream r = xs @ crlf @ ys" and "lf \<notin> set xs" and "length xs < kMaxLineLength"
  shows "\<exists>r'. readLine r = (kOk, xs, r') \<and> quiet r' \<and> stream r' = ys"
  using readLine_line [of r "xs @ [cr]" ys] assms
  by (simp add: crlf_def strip_cr_def) (simp add: cr_def lf_def)


subsection \<open>Body sinks\<close>

text \<open>What a pump relies on: an accepting call appends its bytes to what the sink holds.\<close>

locale body_sink =
  fixes onBody :: "'s \<Rightarrow> bytes \<Rightarrow> bool \<times> 's"
    and view :: "'s \<Rightarrow> bytes"
  assumes append: "onBody s d = (True, s') \<Longrightarrow> view s' = view s @ d"
begin

text \<open>
  Whatever the network does, a pump that was not refused counted what it delivered, and a pump that
  succeeded on a length delivered that length.
\<close>

lemma pumpPlain_counts:
  "case pumpPlain onBody want w r s of (rc, w', err, r', s') \<Rightarrow>
     rc \<noteq> kErrorWrite \<longrightarrow>
       (\<exists>ds. view s' = view s @ ds \<and> w' = w + int (length ds)) \<and>
       (rc = kOk \<and> 0 \<le> want \<and> w \<le> want \<longrightarrow> w' = want)"
proof (rule pumpPlain_rule [where P = "\<lambda>w r s res. case res of (rc, w', err, r', s') \<Rightarrow>
     rc \<noteq> kErrorWrite \<longrightarrow>
       (\<exists>ds. view s' = view s @ ds \<and> w' = w + int (length ds)) \<and>
       (rc = kOk \<and> 0 \<le> want \<and> w \<le> want \<longrightarrow> w' = want)"], goal_cases)
  case (6 w r s r1 s1 d res)
  obtain rc w' err r' s' where res: "res = (rc, w', err, r', s')" by (cases res) auto
  have v: "view s1 = view s @ d" using 6 append by blast
  have le: "0 \<le> want \<longrightarrow> w + int (length d) \<le> want"
    using 6(1,3) by (auto simp: chunk_of_def)
  show ?case unfolding res prod.case
  proof (intro impI conjI)
    assume "rc \<noteq> kErrorWrite"
    then obtain ds where "view s' = view s1 @ ds" "w' = w + int (length d) + int (length ds)"
      using 6(5) by (auto simp: res)
    with v show "\<exists>ds. view s' = view s @ ds \<and> w' = w + int (length ds)"
      by (intro exI [of _ "d @ ds"]) simp
  next
    assume "rc \<noteq> kErrorWrite" and "rc = kOk \<and> 0 \<le> want \<and> w \<le> want"
    with 6(5) le show "w' = want" by (simp add: res)
  qed
qed auto

lemma pumpChunked_counts:
  "case pumpChunked onBody w r s of (rc, w', err, r', s') \<Rightarrow>
     rc \<noteq> kErrorWrite \<longrightarrow> (\<exists>ds. view s' = view s @ ds \<and> w' = w + int (length ds))"
proof (rule pumpChunked_rule [where P = "\<lambda>w r s res. case res of (rc, w', err, r', s') \<Rightarrow>
     rc \<noteq> kErrorWrite \<longrightarrow> (\<exists>ds. view s' = view s @ ds \<and> w' = w + int (length ds))"], goal_cases)
  case (4 w r s line r1 sz k rc d err r2 s2)
  then show ?case
    using pumpPlain_counts [where want = sz and w = 0 and r = r1 and s = s] by auto
next
  case (5 w r s line r1 sz k d err r2 s2 rc l r3)
  then show ?case
    using pumpPlain_counts [where want = sz and w = 0 and r = r1 and s = s] by auto
next
  case (6 w r s line r1 sz k d err r2 s2 l r3 res)
  obtain rc w' err' r' s' where res: "res = (rc, w', err', r', s')" by (cases res) auto
  obtain ds where "view s2 = view s @ ds" "d = int (length ds)"
    using pumpPlain_counts [where want = sz and w = 0 and r = r1 and s = s] 6(4) by auto
  moreover have "rc \<noteq> kErrorWrite \<longrightarrow> (\<exists>es. view s' = view s2 @ es \<and> w' = w + d + int (length es))"
    using 6(6) by (simp add: res)
  ultimately show ?case by (auto simp: res intro: exI [of _ "ds @ es" for es])
qed auto

end

locale roomy_sink = body_sink +
  fixes fits :: "'s \<Rightarrow> nat \<Rightarrow> bool"
  assumes accepts: "fits s n \<Longrightarrow> length d \<le> n \<Longrightarrow> \<exists>s'. onBody s d = (True, s') \<and> fits s' (n - length d)"
begin

text \<open>A turn of the pump on a quiet connection with bytes left.\<close>

lemma turn:
  assumes "quiet r" and "refill r = (kOk, False, r1)" and "d = chunk_of want w (buffered r1)"
    and "fits s n" and "length d \<le> n"
  shows "quiet (consume (length d) r1) \<and> stream (consume (length d) r1) = drop (length d) (stream r) \<and>
    d = take (length d) (stream r) \<and>
    (\<exists>s1. onBody s d = (True, s1) \<and> fits s1 (n - length d) \<and> view s1 = view s @ d)"
proof -
  have r1: "quiet r1" "stream r1 = stream r" using refill_quiet [OF assms(1)] assms(2) by auto
  have le: "length d \<le> length (buffered r1)" unfolding assms(3) by (rule chunk_of_length)
  have "d = take (length d) (buffered r1)" using assms(3) by (auto simp: chunk_of_def min_def)
  then have "d = take (length d) (stream r)" using le r1(2) [symmetric] by (simp add: stream_def)
  then show ?thesis
    using r1 le accepts [OF assms(4,5)] append by (auto simp: stream_consume)
qed

lemma pumpPlain_exact:
  "quiet r \<and> 0 \<le> w \<and> w \<le> want \<and> nat (want - w) \<le> length (stream r) \<and> fits s (nat (want - w) + m) \<longrightarrow>
   (\<exists>r' s'. pumpPlain onBody want w r s = (kOk, want, '''', r', s') \<and> quiet r' \<and>
      stream r' = drop (nat (want - w)) (stream r) \<and>
      view s' = view s @ take (nat (want - w)) (stream r) \<and> fits s' m)"
proof (rule pumpPlain_rule [where P = "\<lambda>w r s res.
   quiet r \<and> 0 \<le> w \<and> w \<le> want \<and> nat (want - w) \<le> length (stream r) \<and> fits s (nat (want - w) + m) \<longrightarrow>
   (\<exists>r' s'. res = (kOk, want, '''', r', s') \<and> quiet r' \<and>
      stream r' = drop (nat (want - w)) (stream r) \<and>
      view s' = view s @ take (nat (want - w)) (stream r) \<and> fits s' m)"], goal_cases)
  case (2 w r s rc eof r1)
  then show ?case using refill_quiet [of r] by auto
next
  case (4 w r s r1)
  then show ?case using refill_quiet [of r] by auto
next
  case (5 w r s r1 s1)
  define d where "d = chunk_of want w (buffered r1)"
  have "length d \<le> nat (want - w) + m" if "0 \<le> want" using that by (simp add: d_def chunk_of_def)
  then have "quiet r \<and> 0 \<le> want \<and> fits s (nat (want - w) + m) \<longrightarrow> (\<exists>s1. onBody s d = (True, s1))"
    using turn [OF _ 5(2) d_def] by blast
  with 5 show ?case by (auto simp: d_def)
next
  case (6 w r s r1 s1 d res)
  show ?case
  proof (intro impI)
    assume a: "quiet r \<and> 0 \<le> w \<and> w \<le> want \<and> nat (want - w) \<le> length (stream r) \<and> fits s (nat (want - w) + m)"
    then have d: "length d \<le> nat (want - w)" using 6 by (auto simp: chunk_of_def)
    define n where "n = nat (want - w) - length d"
    have nw: "nat (want - (w + int (length d))) = n" "nat (want - w) = length d + n"
      using d by (auto simp: n_def)
    note t = turn [OF conjunct1 [OF a] 6(2,3), of s "nat (want - w) + m"]
    have s1: "fits s1 (n + m)" "view s1 = view s @ d" "d = take (length d) (stream r)"
      and r1: "quiet (consume (length d) r1)"
        "stream (consume (length d) r1) = drop (length d) (stream r)"
      using t a d 6(4) by (auto simp: n_def)
    have "w + int (length d) \<le> want" using d a by linarith
    then obtain r' s' where "res = (kOk, want, '''', r', s')" "quiet r'" "fits s' m"
      and st: "stream r' = drop n (drop (length d) (stream r))"
      and vw: "view s' = (view s @ d) @ take n (drop (length d) (stream r))"
      using 6(5) a s1 r1 unfolding nw by (auto simp: nw)
    moreover have "take (nat (want - w)) (stream r) = d @ take n (drop (length d) (stream r))"
      unfolding nw take_add using s1(3) by simp
    moreover have "stream r' = drop (nat (want - w)) (stream r)" unfolding nw st by (simp add: add.commute)
    ultimately show "\<exists>r' s'. res = (kOk, want, '''', r', s') \<and> quiet r' \<and>
      stream r' = drop (nat (want - w)) (stream r) \<and>
      view s' = view s @ take (nat (want - w)) (stream r) \<and> fits s' m"
      using vw by auto
  qed
qed auto

text \<open>
  A stream that ends before \<open>want\<close> bytes: everything is delivered, and the end is an error exactly
  when a length was promised.
\<close>

lemma pumpPlain_drain:
  "quiet r \<and> (want < 0 \<or> w + int (length (stream r)) < want) \<and> fits s (length (stream r)) \<longrightarrow>
   (\<exists>err r' s'. pumpPlain onBody want w r s =
       (if want < 0 then kOk else kErrorIo, w + int (length (stream r)), err, r', s') \<and>
      view s' = view s @ stream r)"
proof (rule pumpPlain_rule [where P = "\<lambda>w r s res.
   quiet r \<and> (want < 0 \<or> w + int (length (stream r)) < want) \<and> fits s (length (stream r)) \<longrightarrow>
   (\<exists>err r' s'. res =
       (if want < 0 then kOk else kErrorIo, w + int (length (stream r)), err, r', s') \<and>
      view s' = view s @ stream r)"], goal_cases)
  case (2 w r s rc eof r1)
  then show ?case using refill_quiet [of r] by auto
next
  case (3 w r s r1)
  then show ?case using refill_quiet [of r] by auto
next
  case (4 w r s r1)
  then show ?case using refill_quiet [of r] by auto
next
  case (5 w r s r1 s1)
  define d where "d = chunk_of want w (buffered r1)"
  have "length d \<le> length (stream r)" if "quiet r"
    using refill_quiet [OF that] 5(2) chunk_of_length [of want w "buffered r1"]
    by (auto simp: d_def stream_def dest: arg_cong [of _ _ length])
  then have "quiet r \<and> fits s (length (stream r)) \<longrightarrow> (\<exists>s1. onBody s d = (True, s1))"
    using turn [OF _ 5(2) d_def] by blast
  with 5 show ?case by (auto simp: d_def)
next
  case (6 w r s r1 s1 d res)
  show ?case
  proof (intro impI)
    assume a: "quiet r \<and> (want < 0 \<or> w + int (length (stream r)) < want) \<and> fits s (length (stream r))"
    have le: "length d \<le> length (stream r)"
      using refill_quiet [OF conjunct1 [OF a]] 6(2,3) chunk_of_length [of want w "buffered r1"]
      by (auto simp: stream_def dest: arg_cong [of _ _ length])
    note t = turn [OF conjunct1 [OF a] 6(2,3), of s "length (stream r)"]
    have s1: "fits s1 (length (stream r) - length d)" "view s1 = view s @ d"
      and r1: "quiet (consume (length d) r1)"
        "stream (consume (length d) r1) = drop (length d) (stream r)"
      and d: "d = take (length d) (stream r)"
      using t a le 6(4) by auto
    obtain err r' s' where
      "res = (if want < 0 then kOk else kErrorIo, w + int (length (stream r)), err, r', s')"
      "view s' = (view s @ d) @ drop (length d) (stream r)"
      using 6(5) a s1 r1 le by (auto simp: of_nat_diff)
    moreover have "d @ drop (length d) (stream r) = stream r" by (subst d) simp
    ultimately show "\<exists>err r' s'. res =
       (if want < 0 then kOk else kErrorIo, w + int (length (stream r)), err, r', s') \<and>
      view s' = view s @ stream r" by auto
  qed
qed auto

end


subsection \<open>The chunked encoding\<close>

text \<open>A chunk on the wire: its size in hexadecimal, extensions, and the data, each part ended by CRLF.\<close>

definition encode_chunk :: "bytes \<times> bytes \<Rightarrow> bytes" where
  "encode_chunk c = (case c of (ext, d) \<Rightarrow> nat_to_hex (length d) @ ext @ crlf @ d @ crlf)"

definition encode_chunked :: "(bytes \<times> bytes) list \<Rightarrow> bytes" where
  "encode_chunked cs = concat (map encode_chunk cs) @ ''0'' @ crlf @ crlf"

definition chunk_ok :: "bytes \<times> bytes \<Rightarrow> bool" where
  "chunk_ok c = (case c of (ext, d) \<Rightarrow>
     d \<noteq> [] \<and> int (length d) < 2 ^ 63 \<and> (ext = [] \<or> hd ext = CHR '';'') \<and> lf \<notin> set ext \<and>
     length ext \<le> 8000)"

lemma chunk_header_hex:
  assumes "ext = [] \<or> hd ext = CHR '';''"
  shows "chunk_header (nat_to_hex n @ ext) = nat_to_hex n"
proof -
  have no: "CHR '';'' \<notin> set (nat_to_hex n)" using nat_to_hex_chars by blast
  have "trim (nat_to_hex n) = nat_to_hex n"
    using nat_to_hex_chars [OF hd_in_set, of n] nat_to_hex_chars [OF last_in_set, of n]
    by (intro trim_id) auto
  moreover have "takeWhile (\<lambda>x. x \<noteq> CHR '';'') (nat_to_hex n @ ext) = nat_to_hex n"
  proof -
    have "takeWhile (\<lambda>x. x \<noteq> CHR '';'') (nat_to_hex n @ ext) =
        nat_to_hex n @ takeWhile (\<lambda>x. x \<noteq> CHR '';'') ext"
      using no by (intro takeWhile_append2) auto
    with assms show ?thesis by (cases ext) auto
  qed
  ultimately show ?thesis by (simp add: chunk_header_def find_char_takeWhile)
qed

lemma readLine_chunk_header:
  assumes "quiet r" and "stream r = encode_chunk (ext, d) @ rest" and "chunk_ok (ext, d)"
  shows "\<exists>r'. readLine r = (kOk, nat_to_hex (length d) @ ext, r') \<and> quiet r' \<and> stream r' = d @ crlf @ rest"
proof -
  have "length d < 16 ^ 16" using assms(3) by (auto simp: chunk_ok_def)
  then have "length (nat_to_hex (length d)) \<le> 16" by (rule length_nat_to_hex) simp
  moreover have "lf \<notin> set (nat_to_hex (length d))" using nat_to_hex_chars by blast
  ultimately show ?thesis
    using assms readLine_crlf [of r "nat_to_hex (length d) @ ext" "d @ crlf @ rest"]
    by (simp add: encode_chunk_def chunk_ok_def kMaxLineLength_def)
qed

lemma readTrailers_crlf:
  assumes "quiet r" and "stream r = crlf @ rest"
  shows "quiet (readTrailers r) \<and> stream (readTrailers r) = rest"
  using readLine_crlf [of r "[]" rest] assms
  by (auto simp: readTrailers.simps [of r] kMaxLineLength_def)

context roomy_sink
begin

lemma pumpChunked_decodes:
  assumes "quiet r" and "stream r = encode_chunked cs @ rest" and "list_all chunk_ok cs"
    and "fits s (length (concat (map snd cs)) + m)"
  shows "\<exists>r' s'. pumpChunked onBody w r s = (kOk, w + int (length (concat (map snd cs))), '''', r', s') \<and>
      view s' = view s @ concat (map snd cs) \<and> quiet r' \<and> stream r' = rest \<and> fits s' m"
  using assms
proof (induction cs arbitrary: w r s)
  case Nil
  then obtain r1 where rl: "readLine r = (kOk, ''0'', r1)" and q: "quiet r1" "stream r1 = crlf @ rest"
    using readLine_crlf [of r "''0''" "crlf @ rest"]
    by (auto simp: encode_chunked_def kMaxLineLength_def lf_def)
  have h: "chunk_header ''0'' = ''0''" "strtoll 16 ''0'' = (0, 1)" by code_simp+
  show ?case
    using readTrailers_crlf [OF q] Nil.prems(4)
    by (simp add: pumpChunked.simps [of onBody w r s] rl h Let_def)
next
  case (Cons c cs)
  obtain ext d where c: "c = (ext, d)" by fastforce
  have ok: "chunk_ok (ext, d)" "list_all chunk_ok cs" using Cons.prems c by auto
  have "stream r = encode_chunk (ext, d) @ encode_chunked cs @ rest"
    using Cons.prems(2) by (simp add: encode_chunked_def c)
  then obtain r1 where rl: "readLine r = (kOk, nat_to_hex (length d) @ ext, r1)" and q1: "quiet r1"
    and st1: "stream r1 = d @ crlf @ encode_chunked cs @ rest"
    using readLine_chunk_header [OF Cons.prems(1) _ ok(1)] by blast
  have h: "chunk_header (nat_to_hex (length d) @ ext) = nat_to_hex (length d)"
    using ok by (intro chunk_header_hex) (simp add: chunk_ok_def)
  have sz: "strtoll 16 (nat_to_hex (length d)) = (int (length d), length (nat_to_hex (length d)))"
    using ok by (intro strtoll_nat_to_hex) (simp add: chunk_ok_def)
  obtain r2 s2 where pp: "pumpPlain onBody (int (length d)) 0 r1 s = (kOk, int (length d), '''', r2, s2)"
    and q2: "quiet r2" "stream r2 = crlf @ encode_chunked cs @ rest"
    and v2: "view s2 = view s @ d" and f2: "fits s2 (length (concat (map snd cs)) + m)"
    using pumpPlain_exact [of r1 0 "int (length d)" s "length (concat (map snd cs)) + m"] q1 st1
      Cons.prems(4) c by (auto simp: add.assoc)
  obtain r3 where rl3: "readLine r2 = (kOk, [], r3)" and q3: "quiet r3" "stream r3 = encode_chunked cs @ rest"
    using readLine_crlf [of r2 "[]" "encode_chunked cs @ rest"] q2 by (auto simp: kMaxLineLength_def)
  have "pumpChunked onBody w r s = pumpChunked onBody (w + int (length d)) r3 s2"
    using ok by (simp add: pumpChunked.simps [of onBody w r s] rl h sz pp rl3 Let_def chunk_ok_def)
  then show ?case
    using Cons.IH [OF q3 ok(2) f2, of "w + int (length d)"] v2 by (auto simp: c)
qed

end

end
