(* ===== verification/Http_Client.thy ===== *)
theory Http_Client
  imports Http_Conn Http_Stream
begin

text \<open>
  One request/response exchange, redirect following and the in-memory variant
  (\<open>performOnce\<close>, \<open>get\<close> and \<open>getString\<close> of \<open>service/http/HttpClient.cpp\<close>). The network answers
  each hop with an \<open>exchange\<close>, as a function of the hop, the URL and the request sent. The
  callbacks are state transformers of whoever receives the response.
\<close>

subsection \<open>Data\<close>

record response_info =
  statusCode :: int
  reason :: string
  contentType :: string
  startOffset :: int
  totalBytes :: int
  finalUrl :: string

definition new_response :: response_info where
  "new_response = \<lparr>statusCode = 0, reason = '''', contentType = '''', startOffset = 0, totalBytes = -1,
     finalUrl = ''''\<rparr>"

record request =
  req_url :: string
  resumeFrom :: int
  maxRedirects :: int
  connectTimeoutMs :: int
  idleTimeoutMs :: int

definition new_request :: "string \<Rightarrow> int \<Rightarrow> request" where
  "new_request u from = \<lparr>req_url = u, resumeFrom = from, maxRedirects = 5, connectTimeoutMs = 15000,
     idleTimeoutMs = 30000\<rparr>"

record result =
  res_error :: http_error
  res_message :: string
  res_response :: response_info
  res_bytes :: int

definition new_result :: result where
  "new_result = \<lparr>res_error = kOk, res_message = '''', res_response = new_response, res_bytes = 0\<rparr>"

record attempt =
  att_result :: result
  redirectTo :: string

type_synonym 's headers_fn = "'s \<Rightarrow> response_info \<Rightarrow> bool \<times> 's"

text \<open>
  One exchange as the kernel and OpenSSL play it: connecting, sending, and the turns of the receive
  loop with the result each kind of connection gets.
\<close>

record raw_recv =
  raw_canceled :: bool
  raw_read :: read_result
  raw_ssl :: ssl_read
  raw_elapsed :: int

record exchange =
  ex_connect :: connect_env
  ex_tls :: tls_env
  ex_write :: "write_result list"
  ex_sslwrite :: "ssl_write list"
  ex_recv :: "raw_recv list"

definition conn_script :: "(int \<Rightarrow> string) \<Rightarrow> conn_kind \<Rightarrow> exchange \<Rightarrow> poll_step list" where
  "conn_script strerror kind ex =
     map (\<lambda>e. \<lparr>step_canceled = raw_canceled e,
               step_recv = (case kind of
                              PlainConn \<Rightarrow> PlainConn_recv strerror (raw_read e)
                            | TlsConn \<Rightarrow> TlsConn_recv strerror (raw_ssl e)),
               step_elapsed = raw_elapsed e\<rparr>) (ex_recv ex)"

definition conn_send :: "(int \<Rightarrow> string) \<Rightarrow> conn_kind \<Rightarrow> exchange \<Rightarrow> send_result list" where
  "conn_send strerror kind ex =
     (case kind of
        PlainConn \<Rightarrow> map (plain_send strerror) (ex_write ex)
      | TlsConn \<Rightarrow> map tls_send (ex_sslwrite ex))"


subsection \<open>Parsing the response head\<close>

definition parseStatusLine :: "string \<Rightarrow> bool \<times> int \<times> string" where
  "parseStatusLine line =
     (if take 5 line \<noteq> ''HTTP/'' then (False, 0, '''')
      else case find_char (CHR '' '') line of
             None \<Rightarrow> (False, 0, '''')
           | Some sp \<Rightarrow>
               let code = atoi (drop (sp + 1) line);
                   rsn = (case find_from (\<lambda>c. c = CHR '' '') (sp + 1) line of
                            None \<Rightarrow> '''' | Some sp2 \<Rightarrow> trim (substr_from line (sp2 + 1)))
               in (100 \<le> code \<and> code < 600, code, rsn))"

definition parseContentRange :: "string \<Rightarrow> (int \<times> int) option" where
  "parseContentRange value =
     (case find_char (CHR '' '') value of
        None \<Rightarrow> None
      | Some sp \<Rightarrow>
          let range = trim (substr_from value (sp + 1))
          in case (find_char (CHR ''-'') range, find_char (CHR ''/'') range) of
               (Some dash, Some slash) \<Rightarrow>
                 if dash > slash then None
                 else let totalText = substr_from range (slash + 1)
                      in Some (fst (strtoll 10 range),
                               if totalText = ''*'' then -1 else fst (strtoll 10 totalText))
             | _ \<Rightarrow> None)"

definition kUserAgent :: string where
  "kUserAgent = ''binder-http-service/1.0''"

definition request_head :: "url \<Rightarrow> request \<Rightarrow> bytes" where
  "request_head u req =
     ''GET '' @ target u @ '' HTTP/1.1'' @ crlf @
     ''Host: '' @ hostHeader u @ crlf @
     ''User-Agent: '' @ kUserAgent @ crlf @
     ''Accept: */*'' @ crlf @
     ''Accept-Encoding: identity'' @ crlf @
     (if resumeFrom req > 0 then ''Range: bytes='' @ int_to_dec (resumeFrom req) @ ''-'' @ crlf else []) @
     ''Connection: close'' @ crlf @ crlf"

text \<open>The header loop of \<open>performOnce\<close>: an error with its message, or the headers.\<close>

function readHeaders :: "headers \<Rightarrow> reader \<Rightarrow> (http_error \<times> string + headers) \<times> reader" where
  "readHeaders hs r =
     (case readLine r of
        (rc, line, r1) \<Rightarrow>
          if rc \<noteq> kOk then (Inl (rc, mError r1), r1)
          else if line = [] then (Inr hs, r1)
          else case find_char (CHR '':'') line of
                 None \<Rightarrow> readHeaders hs r1
               | Some colon \<Rightarrow>
                   if headers_size hs \<ge> kMaxHeaderCount
                   then (Inl (kErrorTooLarge, ''too many response headers''), r1)
                   else readHeaders
                          (headers_add hs (trim (substr line 0 colon)) (trim (substr_from line (colon + 1)))) r1)"
  by pat_completeness auto
termination
  by (relation "measure (\<lambda>(hs, r). pending r)") (auto dest!: sym [THEN readLine_pending])

declare readHeaders.simps [simp del]

definition is_redirect :: "int \<Rightarrow> bool" where
  "is_redirect code \<longleftrightarrow> code = 301 \<or> code = 302 \<or> code = 303 \<or> code = 307 \<or> code = 308"

text \<open>Where the body belongs and how long the resource is, from the status and the headers.\<close>

definition contentLength :: "headers \<Rightarrow> int" where
  "contentLength hs =
     (let lengthText = headers_get hs ''Content-Length''
      in if lengthText = [] then -1 else fst (strtoll 10 lengthText))"

definition body_extent :: "request \<Rightarrow> headers \<Rightarrow> int \<Rightarrow> int \<times> int" where
  "body_extent req hs code =
     (if code = 206 then
        (case parseContentRange (headers_get hs ''Content-Range'') of
           Some (start, tot) \<Rightarrow> (start, tot)
         | None \<Rightarrow>
             (resumeFrom req,
              if contentLength hs < 0 then -1 else s64 (resumeFrom req + contentLength hs)))
      else (0, contentLength hs))"


subsection \<open>One exchange\<close>

text \<open>The part of \<open>performOnce\<close> after the headers are in.\<close>

definition respond :: "url \<Rightarrow> request \<Rightarrow> 's headers_fn option \<Rightarrow> 's body_fn \<Rightarrow> headers \<Rightarrow>
    response_info \<Rightarrow> reader \<Rightarrow> 's \<Rightarrow> attempt \<times> 's" where
  "respond u req onHeaders onBody hs info r s =
     (let failed = (\<lambda>i e m n. \<lparr>att_result = \<lparr>res_error = e, res_message = m, res_response = i,
                                 res_bytes = n\<rparr>, redirectTo = ''''\<rparr>)
      in if is_redirect (statusCode info) then
           (let location = headers_get hs ''Location'';
                next_url = (if location \<noteq> [] then resolveRedirect u location else '''')
            in if next_url \<noteq> []
               then (\<lparr>att_result = new_result\<lparr>res_response := info\<rparr>, redirectTo = next_url\<rparr>, s)
               else (failed info kErrorIo
                       (''HTTP '' @ int_to_dec (statusCode info) @ '' without a usable Location'') 0, s))
         else if statusCode info \<ge> 400 then
           (failed info kErrorHttpStatus
              (''HTTP '' @ int_to_dec (statusCode info) @
               (if reason info = [] then '''' else '' '' @ reason info)) 0, s)
         else
           (let (start, tot) = body_extent req hs (statusCode info);
                info' = info\<lparr>contentType := headers_get hs ''Content-Type'', finalUrl := toString u,
                             startOffset := start, totalBytes := tot\<rparr>;
                (accepted, s1) = (case onHeaders of None \<Rightarrow> (True, s) | Some f \<Rightarrow> f s info')
            in if \<not> accepted then (failed info' kErrorWrite ''caller refused the response'' 0, s1)
               else
                 (case (if headers_contains hs ''Transfer-Encoding'' ''chunked''
                        then pumpChunked onBody 0 r s1
                        else pumpPlain onBody (contentLength hs) 0 r s1) of
                    (rc, written, bodyError, r2, s2) \<Rightarrow>
                      (\<lparr>att_result = \<lparr>res_error = rc,
                                      res_message = (if rc \<noteq> kOk then bodyError else ''''),
                                      res_response = info', res_bytes = written\<rparr>,
                        redirectTo = ''''\<rparr>, s2))))"

definition performOnce :: "(int \<Rightarrow> string) \<Rightarrow> exchange \<Rightarrow> bool \<Rightarrow> url \<Rightarrow> request \<Rightarrow>
    's headers_fn option \<Rightarrow> 's body_fn \<Rightarrow> 's \<Rightarrow> attempt \<times> 's" where
  "performOnce strerror ex cancelable u req onHeaders onBody s =
     (let failed = (\<lambda>i e m. \<lparr>att_result = \<lparr>res_error = e, res_message = m, res_response = i,
                               res_bytes = 0\<rparr>, redirectTo = ''''\<rparr>)
      in case openConnection strerror u (connectTimeoutMs req) (ex_connect ex) (ex_tls ex) of
           Inl (e, message, closed) \<Rightarrow> (failed new_response e message, s)
         | Inr (kind, fd, closed) \<Rightarrow>
             (case sendAll (conn_send strerror kind ex) (request_head u req) of
                (sent, err, out) \<Rightarrow>
                  if \<not> sent then (failed new_response kErrorIo (''sending request failed: '' @ err), s)
                  else
                    (case readLine (new_reader (conn_script strerror kind ex) cancelable (idleTimeoutMs req)) of
                       (rc, line, r1) \<Rightarrow>
                         if rc \<noteq> kOk then (failed new_response rc (mError r1), s)
                         else
                           (case parseStatusLine line of
                              (valid, code, rsn) \<Rightarrow>
                                let info = new_response\<lparr>statusCode := code, reason := rsn\<rparr>
                                in if \<not> valid
                                   then (failed info kErrorIo
                                           (''not an HTTP response: '' @ [CHR 0x22] @ line @ [CHR 0x22]), s)
                                   else
                                     (case readHeaders [] r1 of
                                        (Inl (e, m), r2) \<Rightarrow> (failed info e m, s)
                                      | (Inr hs, r2) \<Rightarrow>
                                          respond u req onHeaders onBody hs info r2 s)))))"


subsection \<open>Redirects\<close>

text \<open>
  The world a \<open>get\<close> runs in: the cancel flag as found before each hop, and the exchange the network
  answers a request with.
\<close>

record network =
  net_strerror :: "int \<Rightarrow> string"
  net_canceled :: "nat \<Rightarrow> bool"
  net_exchange :: "nat \<Rightarrow> url \<Rightarrow> bytes \<Rightarrow> exchange"

text \<open>The loop of \<open>get\<close>, with the number of hops left.\<close>

fun get_loop :: "network \<Rightarrow> bool \<Rightarrow> request \<Rightarrow> 's headers_fn option \<Rightarrow> 's body_fn \<Rightarrow> nat \<Rightarrow> nat \<Rightarrow>
    string \<Rightarrow> 's \<Rightarrow> result \<times> 's" where
  "get_loop net cancelable req onHeaders onBody 0 hop current s =
     (new_result\<lparr>res_error := kErrorTooLarge,
                 res_message := ''more than '' @ int_to_dec (maxRedirects req) @ '' redirects''\<rparr>, s)"
| "get_loop net cancelable req onHeaders onBody (Suc n) hop current s =
     (case parseUrl current of
        None \<Rightarrow>
          (new_result\<lparr>res_error := kErrorBadUrl,
                      res_message := ''cannot parse URL '' @ [CHR 0x22] @ current @ [CHR 0x22]\<rparr>, s)
      | Some u \<Rightarrow>
          if cancelable \<and> net_canceled net hop
          then (new_result\<lparr>res_error := kErrorCanceled, res_message := ''canceled''\<rparr>, s)
          else
            (let hopRequest = req\<lparr>req_url := current\<rparr>;
                 (att, s1) = performOnce (net_strerror net)
                               (net_exchange net hop u (request_head u hopRequest)) cancelable u hopRequest
                               onHeaders onBody s
             in if redirectTo att = [] then (att_result att, s1)
                else get_loop net cancelable req onHeaders onBody n (Suc hop) (redirectTo att) s1))"

definition get :: "network \<Rightarrow> bool \<Rightarrow> request \<Rightarrow> 's headers_fn option \<Rightarrow> 's body_fn \<Rightarrow> 's \<Rightarrow> result \<times> 's" where
  "get net cancelable req onHeaders onBody s =
     get_loop net cancelable req onHeaders onBody (nat (maxRedirects req + 1)) 0 (req_url req) s"


subsection \<open>Bodies in memory\<close>

record string_sink =
  sink_body :: string
  sink_overflowed :: bool

definition string_onBody :: "nat \<Rightarrow> string_sink body_fn" where
  "string_onBody maxBytes s d =
     (if length (sink_body s) + length d > maxBytes then (False, s\<lparr>sink_overflowed := True\<rparr>)
      else (True, s\<lparr>sink_body := sink_body s @ d\<rparr>))"

definition getString :: "network \<Rightarrow> string \<Rightarrow> nat \<Rightarrow> result \<times> string" where
  "getString net u maxBytes =
     (case get net False (new_request u 0) None (string_onBody maxBytes)
             \<lparr>sink_body = '''', sink_overflowed = False\<rparr> of
        (res, s) \<Rightarrow>
          if sink_overflowed s
          then (res\<lparr>res_error := kErrorTooLarge,
                    res_message := ''response exceeds '' @ int_to_dec (int maxBytes) @ '' bytes''\<rparr>, '''')
          else (res, sink_body s))"

interpretation mem: roomy_sink "string_onBody maxBytes" sink_body
    "\<lambda>s n. \<not> sink_overflowed s \<and> length (sink_body s) + n \<le> maxBytes" for maxBytes
  by unfold_locales (auto simp: string_onBody_def split: if_splits)



subsection \<open>What callbacks keep\<close>

text \<open>
  A relation between sink states that both callbacks respect, and that is reflexive and transitive,
  holds between the state before and after any pump, exchange or \<open>get\<close>.
\<close>

locale response_steps =
  fixes onHeaders :: "'s headers_fn option" and onBody :: "'s body_fn" and R :: "'s \<Rightarrow> 's \<Rightarrow> bool"
  assumes R_refl: "R s s"
    and R_trans: "R s t \<Longrightarrow> R t u \<Longrightarrow> R s u"
    and headers_step: "onHeaders = Some f \<Longrightarrow> R s (snd (f s i))"
    and body_step: "R s (snd (onBody s d))"
begin

lemma pumpPlain_steps: "case pumpPlain onBody want w r s of (rc, w', err, r', s') \<Rightarrow> R s s'"
proof (rule pumpPlain_rule [where P = "\<lambda>w r s res. case res of (rc, w', err, r', s') \<Rightarrow> R s s'"], goal_cases)
  case (5 w r s r1 s1)
  then show ?case using body_step [of s "chunk_of want w (buffered r1)"] by simp
next
  case (6 w r s r1 s1 d res)
  then have "R s s1" using body_step [of s d] by simp
  with 6 show ?case by (auto intro: R_trans)
qed (auto intro: R_refl)

lemma pumpChunked_steps: "case pumpChunked onBody w r s of (rc, w', err, r', s') \<Rightarrow> R s s'"
proof (rule pumpChunked_rule [where P = "\<lambda>w r s res. case res of (rc, w', err, r', s') \<Rightarrow> R s s'"], goal_cases)
  case (4 w r s line r1 sz k rc d err r2 s2)
  then show ?case using pumpPlain_steps [where want = sz and w = 0 and r = r1 and s = s] by simp
next
  case (5 w r s line r1 sz k d err r2 s2 rc l r3)
  then show ?case using pumpPlain_steps [where want = sz and w = 0 and r = r1 and s = s] by simp
next
  case (6 w r s line r1 sz k d err r2 s2 l r3 res)
  then have "R s s2" using pumpPlain_steps [where want = sz and w = 0 and r = r1 and s = s] by simp
  with 6 show ?case by (auto intro: R_trans)
qed (auto intro: R_refl)

lemma respond_steps: "R s (snd (respond u req onHeaders onBody hs info r s))"
proof -
  have h: "R s (snd (case onHeaders of None \<Rightarrow> (True, s) | Some f \<Rightarrow> f s i))" for i
    by (auto simp: R_refl headers_step split: option.splits)
  have p: "R s1 (snd (snd (snd (snd (if c then pumpChunked onBody 0 r s1
                            else pumpPlain onBody n 0 r s1)))))" for c n s1
    using pumpChunked_steps [where w = 0 and r = r and s = s1]
      pumpPlain_steps [where want = n and w = 0 and r = r and s = s1]
    by (auto split: prod.splits)
  show ?thesis
    using R_trans [OF h p] h by (auto simp: respond_def Let_def case_prod_beta R_refl)
qed

lemma performOnce_steps: "R s (snd (performOnce strerror ex c u req onHeaders onBody s))"
  unfolding performOnce_def Let_def
  by (auto simp: R_refl respond_steps split: sum.splits prod.splits)

lemma get_loop_steps: "R s (snd (get_loop net c req onHeaders onBody n hop current s))"
proof (induction n arbitrary: hop current s)
  case (Suc n)
  show ?case
  proof (cases "parseUrl current")
    case (Some u)
    let ?po = "performOnce (net_strerror net) (net_exchange net hop u
      (request_head u (req\<lparr>req_url := current\<rparr>))) c u (req\<lparr>req_url := current\<rparr>) onHeaders onBody s"
    have "R s (snd ?po)" by (rule performOnce_steps)
    with Suc Some show ?thesis by (auto simp: R_refl Let_def case_prod_beta intro: R_trans)
  qed (simp add: R_refl)
qed (simp add: R_refl)

lemma get_steps: "R s (snd (get net c req onHeaders onBody s))"
  unfolding get_def by (rule get_loop_steps)

end

interpretation mem_cap: response_steps None "string_onBody maxBytes"
    "\<lambda>s t. length (sink_body s) \<le> maxBytes \<longrightarrow> length (sink_body t) \<le> maxBytes" for maxBytes
  by unfold_locales (auto simp: string_onBody_def)

lemma getString_cap: "length (snd (getString net u maxBytes)) \<le> maxBytes"
  using mem_cap.get_steps [of "\<lparr>sink_body = '''', sink_overflowed = False\<rparr>" maxBytes net False "new_request u 0"]
  by (simp add: getString_def case_prod_beta)


subsection \<open>How often the network is asked\<close>

lemma get_loop_hops:
  assumes "\<And>k. hop \<le> k \<Longrightarrow> k < hop + n \<Longrightarrow>
      net_canceled net k = net_canceled net' k \<and> net_exchange net k = net_exchange net' k"
    and "net_strerror net = net_strerror net'"
  shows "get_loop net c req onHeaders onBody n hop current s =
    get_loop net' c req onHeaders onBody n hop current s"
  using assms(1)
proof (induction n arbitrary: hop current s)
  case (Suc n)
  have "net_canceled net hop = net_canceled net' hop" "net_exchange net hop = net_exchange net' hop"
    using Suc.prems [of hop] by auto
  moreover have "get_loop net c req onHeaders onBody n (Suc hop) cur t =
      get_loop net' c req onHeaders onBody n (Suc hop) cur t" for cur t
    using Suc.prems by (intro Suc.IH) auto
  ultimately show ?case
    using assms(2) by (auto simp: Let_def case_prod_beta split: option.splits)
qed simp

lemma get_hops:
  assumes "\<And>k. int k \<le> maxRedirects req \<Longrightarrow>
      net_canceled net k = net_canceled net' k \<and> net_exchange net k = net_exchange net' k"
    and "net_strerror net = net_strerror net'"
  shows "get net c req onHeaders onBody s = get net' c req onHeaders onBody s"
  unfolding get_def using assms by (intro get_loop_hops) auto


subsection \<open>Response heads\<close>

definition header_ok :: "string \<times> string \<Rightarrow> bool" where
  "header_ok h = (case h of (n, v) \<Rightarrow>
     CHR '':'' \<notin> set n \<and> lf \<notin> set n \<and> lf \<notin> set v \<and> trim n = n \<and> trim v = v \<and>
     length n + length v < 8000)"

definition render_header :: "string \<times> string \<Rightarrow> bytes" where
  "render_header h = (case h of (n, v) \<Rightarrow> n @ '': '' @ v @ crlf)"

definition render_headers :: "(string \<times> string) list \<Rightarrow> bytes" where
  "render_headers hs = concat (map render_header hs) @ crlf"

definition stored :: "(string \<times> string) list \<Rightarrow> headers" where
  "stored hs = map (\<lambda>(n, v). (toLower n, v)) hs"

lemma trim_space_Cons: "trim (CHR '' '' # v) = trim v"
  by (simp add: trim_def strip_front_def code_points)

lemma readHeaders_render:
  assumes "quiet r" and "stream r = render_headers hs @ rest" and "list_all header_ok hs"
    and "length acc + length hs \<le> kMaxHeaderCount"
  shows "\<exists>r'. readHeaders acc r = (Inr (acc @ stored hs), r') \<and> quiet r' \<and> stream r' = rest"
  using assms
proof (induction hs arbitrary: acc r)
  case Nil
  then obtain r' where "readLine r = (kOk, [], r')" "quiet r'" "stream r' = rest"
    using readLine_crlf [of r "[]" rest] by (auto simp: render_headers_def kMaxLineLength_def)
  then show ?case by (simp add: readHeaders.simps [of acc r] stored_def)
next
  case (Cons h hs)
  obtain n v where h: "h = (n, v)" by fastforce
  have ok: "CHR '':'' \<notin> set n" "lf \<notin> set (n @ '': '' @ v)" "trim n = n" "trim v = v"
    "length (n @ '': '' @ v) < kMaxLineLength"
    using Cons.prems(3) by (auto simp: h header_ok_def kMaxLineLength_def lf_def)
  have "stream r = (n @ '': '' @ v) @ crlf @ (render_headers hs @ rest)"
    using Cons.prems(2) by (simp add: render_headers_def render_header_def h)
  then obtain r1 where rl: "readLine r = (kOk, n @ '': '' @ v, r1)"
    and q: "quiet r1" "stream r1 = render_headers hs @ rest"
    using readLine_crlf [OF Cons.prems(1) _ ok(2,5)] by blast
  have colon: "find_char (CHR '':'') (n @ '': '' @ v) = Some (length n)"
    using ok(1) by (simp add: find_char_hit)
  have "readHeaders acc r = readHeaders (acc @ [(toLower n, v)]) r1"
    using Cons.prems(4) ok
    by (simp add: readHeaders.simps [of acc r] rl colon [simplified] headers_size_def headers_add_def
        substr_def substr_from_def trim_space_Cons)
  then show ?case
    using Cons.IH [OF q, of "acc @ [(toLower n, v)]"] Cons.prems(3,4) by (auto simp: stored_def h)
qed

lemma parseStatusLine_ok: "parseStatusLine ''HTTP/1.1 200 OK'' = (True, 200, ''OK'')"
  by code_simp


subsection \<open>Exchanges that go through\<close>

text \<open>
  The network accepts the connection and the request, is not cancelled, and delivers these bytes, in
  any packets and after any pauses shorter than the idle timeout.
\<close>

definition answers :: "(int \<Rightarrow> string) \<Rightarrow> exchange \<Rightarrow> bool \<Rightarrow> url \<Rightarrow> request \<Rightarrow> bytes \<Rightarrow> bool" where
  "answers strerror ex c u req bs \<longleftrightarrow>
     (case openConnection strerror u (connectTimeoutMs req) (ex_connect ex) (ex_tls ex) of
        Inl _ \<Rightarrow> False
      | Inr (kind, fd, closed) \<Rightarrow>
          fst (sendAll (conn_send strerror kind ex) (request_head u req)) \<and>
          quiet (new_reader (conn_script strerror kind ex) c (idleTimeoutMs req)) \<and>
          stream (new_reader (conn_script strerror kind ex) c (idleTimeoutMs req)) = bs)"

text \<open>A status line of a final response, and a response head made of it and of headers.\<close>

definition status_line_ok :: "string \<Rightarrow> int \<Rightarrow> string \<Rightarrow> bool" where
  "status_line_ok sl code rsn \<longleftrightarrow>
     parseStatusLine sl = (True, code, rsn) \<and> lf \<notin> set sl \<and> length sl < kMaxLineLength"

definition head_ok :: "(string \<times> string) list \<Rightarrow> bool" where
  "head_ok hs \<longleftrightarrow> list_all header_ok hs \<and> length hs \<le> kMaxHeaderCount"

lemma performOnce_answers:
  assumes "answers strerror ex c u req (sl @ crlf @ render_headers hs @ rest)"
    and "status_line_ok sl code rsn" and "head_ok hs"
  shows "\<exists>r. quiet r \<and> stream r = rest \<and>
    performOnce strerror ex c u req onHeaders onBody s =
      respond u req onHeaders onBody (stored hs) (new_response\<lparr>statusCode := code, reason := rsn\<rparr>) r s"
proof -
  obtain kind fd closed where
    oc: "openConnection strerror u (connectTimeoutMs req) (ex_connect ex) (ex_tls ex) = Inr (kind, fd, closed)"
    using assms(1) by (auto simp: answers_def split: sum.splits)
  define r0 where "r0 = new_reader (conn_script strerror kind ex) c (idleTimeoutMs req)"
  have r0: "quiet r0" "stream r0 = sl @ crlf @ (render_headers hs @ rest)"
    and "fst (sendAll (conn_send strerror kind ex) (request_head u req))"
    using assms(1) oc by (auto simp: answers_def r0_def)
  then obtain err out where
    sa: "sendAll (conn_send strerror kind ex) (request_head u req) = (True, err, out)"
    by (cases "sendAll (conn_send strerror kind ex) (request_head u req)") auto
  obtain r1 where rl: "readLine r0 = (kOk, sl, r1)" and r1: "quiet r1" "stream r1 = render_headers hs @ rest"
    using readLine_crlf [OF r0] assms(2) by (auto simp: status_line_ok_def)
  obtain r2 where rh: "readHeaders [] r1 = (Inr (stored hs), r2)" and r2: "quiet r2" "stream r2 = rest"
    using readHeaders_render [OF r1, of "[]"] assms(3) by (auto simp: head_ok_def)
  have "performOnce strerror ex c u req onHeaders onBody s =
      respond u req onHeaders onBody (stored hs) (new_response\<lparr>statusCode := code, reason := rsn\<rparr>) r2 s"
    using assms(2) by (simp add: performOnce_def oc sa rl rh r0_def [symmetric] status_line_ok_def Let_def)
  with r2 show ?thesis by blast
qed

text \<open>The response as the callbacks see it.\<close>

definition final_info :: "url \<Rightarrow> request \<Rightarrow> headers \<Rightarrow> response_info \<Rightarrow> response_info" where
  "final_info u req hs info =
     info\<lparr>contentType := headers_get hs ''Content-Type'', finalUrl := toString u,
          startOffset := fst (body_extent req hs (statusCode info)),
          totalBytes := snd (body_extent req hs (statusCode info))\<rparr>"

definition run_headers :: "'s headers_fn option \<Rightarrow> 's \<Rightarrow> response_info \<Rightarrow> bool \<times> 's" where
  "run_headers onHeaders s i = (case onHeaders of None \<Rightarrow> (True, s) | Some f \<Rightarrow> f s i)"

lemma respond_final:
  assumes "\<not> is_redirect (statusCode info)" and "statusCode info < 400"
    and "run_headers onHeaders s (final_info u req hs info) = (True, s1)"
    and "(if headers_contains hs ''Transfer-Encoding'' ''chunked'' then pumpChunked onBody 0 r s1
          else pumpPlain onBody (contentLength hs) 0 r s1) = (rc, n, err, r2, s2)"
  shows "respond u req onHeaders onBody hs info r s =
    (\<lparr>att_result = \<lparr>res_error = rc, res_message = (if rc \<noteq> kOk then err else ''''),
        res_response = final_info u req hs info, res_bytes = n\<rparr>, redirectTo = ''''\<rparr>, s2)"
  using assms
  by (auto simp: respond_def final_info_def run_headers_def Let_def case_prod_beta split: if_splits)

context roomy_sink
begin

lemma respond_length:
  assumes "\<not> is_redirect (statusCode info)" and "statusCode info < 400"
    and "run_headers onHeaders s (final_info u req hs info) = (True, s1)"
    and "\<not> headers_contains hs ''Transfer-Encoding'' ''chunked''" and "contentLength hs = int (length body)"
    and "quiet r" and "stream r = body @ rest" and "fits s1 (length body)"
  shows "\<exists>s2. respond u req onHeaders onBody hs info r s =
      (\<lparr>att_result = \<lparr>res_error = kOk, res_message = '''',
          res_response = final_info u req hs info, res_bytes = int (length body)\<rparr>, redirectTo = ''''\<rparr>, s2) \<and>
      view s2 = view s1 @ body \<and> fits s2 0"
proof -
  obtain r2 s2 where "pumpPlain onBody (contentLength hs) 0 r s1 = (kOk, int (length body), '''', r2, s2)"
    and "view s2 = view s1 @ body" and "fits s2 0"
    using pumpPlain_exact [of r 0 "int (length body)" s1 0] assms(5-8) by auto
  then show ?thesis
    using respond_final [OF assms(1-3), of onBody r kOk "int (length body)" "''''" r2 s2] assms(4) by auto
qed

lemma respond_truncated:
  assumes "\<not> is_redirect (statusCode info)" and "statusCode info < 400"
    and "run_headers onHeaders s (final_info u req hs info) = (True, s1)"
    and "\<not> headers_contains hs ''Transfer-Encoding'' ''chunked''"
    and "int (length (stream r)) < contentLength hs"
    and "quiet r" and "fits s1 (length (stream r))"
  shows "res_error (att_result (fst (respond u req onHeaders onBody hs info r s))) = kErrorIo"
proof -
  obtain err r2 s2 where
    "pumpPlain onBody (contentLength hs) 0 r s1 = (kErrorIo, int (length (stream r)), err, r2, s2)"
    using pumpPlain_drain [of r "contentLength hs" 0 s1] assms(5-7) by fastforce
  then show ?thesis
    using respond_final [OF assms(1-3), of onBody r kErrorIo "int (length (stream r))" err r2 s2] assms(4) by auto
qed

lemma respond_chunked:
  assumes "\<not> is_redirect (statusCode info)" and "statusCode info < 400"
    and "run_headers onHeaders s (final_info u req hs info) = (True, s1)"
    and "headers_contains hs ''Transfer-Encoding'' ''chunked''"
    and "quiet r" and "stream r = encode_chunked cs @ rest" and "list_all chunk_ok cs"
    and "fits s1 (length (concat (map snd cs)))"
  shows "\<exists>s2. respond u req onHeaders onBody hs info r s =
      (\<lparr>att_result = \<lparr>res_error = kOk, res_message = '''', res_response = final_info u req hs info,
          res_bytes = int (length (concat (map snd cs)))\<rparr>, redirectTo = ''''\<rparr>, s2) \<and>
      view s2 = view s1 @ concat (map snd cs) \<and> fits s2 0"
proof -
  obtain r2 s2 where
    "pumpChunked onBody 0 r s1 = (kOk, 0 + int (length (concat (map snd cs))), '''', r2, s2)"
    and "view s2 = view s1 @ concat (map snd cs)" and "fits s2 0"
    using pumpChunked_decodes [OF assms(5-7), of s1 0 0] assms(8) by auto
  then show ?thesis
    using respond_final [OF assms(1-3), of onBody r kOk "int (length (concat (map snd cs)))" "''''" r2 s2]
      assms(4) by auto
qed

end

text \<open>A \<open>get\<close> whose first exchange is not a redirect is that exchange.\<close>

lemma get_first_hop:
  assumes "parseUrl (req_url req) = Some u" and "\<not> (c \<and> net_canceled net 0)" and "0 \<le> maxRedirects req"
    and "performOnce (net_strerror net) (net_exchange net 0 u (request_head u req)) c u req onHeaders onBody s
         = (att, s')"
    and "redirectTo att = ''''"
  shows "get net c req onHeaders onBody s = (att_result att, s')"
proof -
  have "nat (maxRedirects req + 1) = Suc (nat (maxRedirects req))" using assms(3) by simp
  then show ?thesis using assms by (auto simp: get_def Let_def)
qed


subsection \<open>A concrete network\<close>

text \<open>A host that accepts plain connections and answers with the given packets.\<close>

definition packets_exchange :: "bytes list \<Rightarrow> exchange" where
  "packets_exchange ps =
     \<lparr>ex_connect = \<lparr>env_resolve = None,
         env_addrs = [\<lparr>try_socket = 3, try_connect = None, try_elapsed = 0, try_poll = PollReady,
                       try_sockopt = (0, 0)\<rparr>]\<rparr>,
      ex_tls = \<lparr>tls_built = False, tls_context = False, tls_new = None, tls_attempts = []\<rparr>,
      ex_write = [], ex_sslwrite = [],
      ex_recv = map (\<lambda>bs. \<lparr>raw_canceled = False, raw_read = ReadOk bs, raw_ssl = SslRead [], raw_elapsed = 0\<rparr>) ps\<rparr>"

definition packets_net :: "(nat \<Rightarrow> bytes list) \<Rightarrow> network" where
  "packets_net ps = \<lparr>net_strerror = (\<lambda>_. ''''), net_canceled = (\<lambda>_. False),
     net_exchange = (\<lambda>hop _ _. packets_exchange (ps hop))\<rparr>"

lemma packets_exchange_answers:
  assumes "scheme u \<noteq> ''https''" and "list_all (\<lambda>p. p \<noteq> []) ps"
  shows "answers strerror (packets_exchange ps) c u req (concat ps)"
proof -
  have oc: "openConnection strerror u t (ex_connect (packets_exchange ps)) (ex_tls (packets_exchange ps)) =
      Inr (PlainConn, 3, [])" for t
    using assms(1) by (simp add: openConnection_def connectTcp_def packets_exchange_def try_address_def)
  have sa: "fst (sendAll (conn_send strerror PlainConn (packets_exchange ps)) (request_head u req))"
    by (cases "request_head u req") (simp_all add: conn_send_def packets_exchange_def)
  have q: "quiet (new_reader (conn_script strerror PlainConn (packets_exchange ps)) c t)" for t
    using assms(2)
    by (auto simp: quiet_def new_reader_def conn_script_def packets_exchange_def quiet_step_def
        PlainConn_recv_def list_all_iff)
  have "stream (new_reader (conn_script strerror PlainConn (packets_exchange ps)) c t) = concat ps" for t
    by (simp add: stream_def buffered_def new_reader_def conn_script_def packets_exchange_def
        step_bytes_def PlainConn_recv_def comp_def)
  with oc sa q show ?thesis by (simp add: answers_def)
qed


subsection \<open>The in-memory variant, end to end\<close>

lemma getString_first_hop:
  assumes "parseUrl u = Some ur"
    and "performOnce (net_strerror net) (net_exchange net 0 ur (request_head ur (new_request u 0))) False ur
           (new_request u 0) None (string_onBody maxBytes) \<lparr>sink_body = '''', sink_overflowed = False\<rparr> = (att, s')"
    and "redirectTo att = ''''" and "\<not> sink_overflowed s'"
  shows "getString net u maxBytes = (att_result att, sink_body s')"
  using get_first_hop [of "new_request u 0" ur False net None "string_onBody maxBytes"] assms
  by (simp add: getString_def new_request_def)

text \<open>
  A 200 response whose head carries its length is returned whole by \<open>getString\<close>, whatever the
  packets it arrives in, as long as it fits the caller's limit; what follows the body is ignored.
\<close>

theorem getString_returns_body:
  assumes "parseUrl u = Some ur"
    and "answers (net_strerror net) (net_exchange net 0 ur (request_head ur (new_request u 0))) False ur
           (new_request u 0) (''HTTP/1.1 200 OK'' @ crlf @ render_headers hs @ body @ rest)"
    and "head_ok hs" and "headers_get (stored hs) ''Content-Length'' = nat_to_dec (length body)"
    and "\<not> headers_contains (stored hs) ''Transfer-Encoding'' ''chunked''"
    and "length body \<le> maxBytes" and "int (length body) < 2 ^ 63"
  shows "\<exists>res. getString net u maxBytes = (res, body) \<and> res_error res = kOk \<and>
    res_bytes res = int (length body) \<and> totalBytes (res_response res) = int (length body) \<and>
    finalUrl (res_response res) = toString ur"
proof -
  let ?s0 = "\<lparr>sink_body = '''', sink_overflowed = False\<rparr>" and ?req = "new_request u 0"
  let ?info = "new_response\<lparr>statusCode := 200, reason := ''OK''\<rparr>"
  have sok: "status_line_ok ''HTTP/1.1 200 OK'' 200 ''OK''" by (simp add: status_line_ok_def parseStatusLine_ok kMaxLineLength_def lf_def)
  obtain r where r: "quiet r" "stream r = body @ rest"
    and po: "performOnce (net_strerror net) (net_exchange net 0 ur (request_head ur ?req)) False ur ?req None
        (string_onBody maxBytes) ?s0 =
      respond ur ?req None (string_onBody maxBytes) (stored hs) ?info r ?s0"
    using performOnce_answers [OF assms(2) sok assms(3), of None "string_onBody maxBytes" ?s0]
    by (elim exE conjE)
  have len: "contentLength (stored hs) = int (length body)"
    using strtoll_nat_to_dec [of "length body" "[]"] assms(4,7) by (simp add: contentLength_def)
  obtain s2 where re: "respond ur ?req None (string_onBody maxBytes) (stored hs) ?info r ?s0 =
      (\<lparr>att_result = \<lparr>res_error = kOk, res_message = '''',
          res_response = final_info ur ?req (stored hs) ?info, res_bytes = int (length body)\<rparr>, redirectTo = ''''\<rparr>, s2)"
    and s2: "sink_body s2 = body" "\<not> sink_overflowed s2"
    using mem.respond_length [of ?info None ?s0 ur ?req "stored hs" ?s0 body r rest maxBytes] len r assms(5,6)
    by (auto simp: is_redirect_def run_headers_def)
  show ?thesis
    using getString_first_hop [OF assms(1) po [unfolded re]] s2 len
    by (simp add: final_info_def body_extent_def)
qed

theorem getString_returns_body_witness:
  "\<exists>res. getString (packets_net (\<lambda>_. [''HTTP/1.1 2'', ''00 OK'' @ crlf @ ''Content-Length: 5'' @ crlf,
       crlf @ ''hel'', ''lo!'']))
     ''http://h/x'' 10 = (res, ''hello'') \<and> res_error res = kOk \<and> res_bytes res = 5 \<and>
     totalBytes (res_response res) = 5 \<and> finalUrl (res_response res) = ''http://h/x''"
proof -
  let ?ps = "[''HTTP/1.1 2'', ''00 OK'' @ crlf @ ''Content-Length: 5'' @ crlf, crlf @ ''hel'', ''lo!'']"
  let ?net = "packets_net (\<lambda>_. ?ps)" and ?hs = "[(''Content-Length'', ''5'')]"
  define ur where "ur = \<lparr>scheme = ''http'', host = ''h'', port = ''80'', target = ''/x''\<rparr>"
  have pu: "parseUrl ''http://h/x'' = Some ur" unfolding ur_def by code_simp
  have cc: "concat ?ps = ''HTTP/1.1 200 OK'' @ crlf @ render_headers ?hs @ ''hello'' @ ''!''"
    by (simp add: render_headers_def render_header_def crlf_def)
  have an: "answers (net_strerror ?net) (net_exchange ?net 0 ur (request_head ur (new_request ''http://h/x'' 0)))
      False ur (new_request ''http://h/x'' 0) (''HTTP/1.1 200 OK'' @ crlf @ render_headers ?hs @ ''hello'' @ ''!'')"
    unfolding cc [symmetric] packets_net_def network.simps
    by (rule packets_exchange_answers) (simp_all add: ur_def crlf_def)
  have ho: "head_ok ?hs"
    by (simp add: head_ok_def header_ok_def kMaxHeaderCount_def lf_def) code_simp
  have cl: "headers_get (stored ?hs) ''Content-Length'' = nat_to_dec (length ''hello'')" by code_simp
  have te: "\<not> headers_contains (stored ?hs) ''Transfer-Encoding'' ''chunked''" by code_simp
  have "\<exists>res. getString ?net ''http://h/x'' 10 = (res, ''hello'') \<and> res_error res = kOk \<and>
      res_bytes res = int (length ''hello'') \<and> totalBytes (res_response res) = int (length ''hello'') \<and>
      finalUrl (res_response res) = toString ur"
    by (rule getString_returns_body [OF pu an ho cl te]) simp_all
  moreover have "toString ur = ''http://h/x''" unfolding ur_def by code_simp
  ultimately show ?thesis by simp
qed

text \<open>\<open>getString\<close> never hands back more than \<open>maxBytes\<close> bytes, whatever the network does.\<close>

theorem getString_bounded: "length (snd (getString net u maxBytes)) \<le> maxBytes"
  by (rule getString_cap)

text \<open>
  A \<open>get\<close> performs at most \<open>maxRedirects + 1\<close> exchanges: two networks that agree on those hops
  give the same result.
\<close>

theorem get_bounded_hops:
  assumes "\<forall>k. int k \<le> maxRedirects req \<longrightarrow>
      net_canceled net k = net_canceled net' k \<and> net_exchange net k = net_exchange net' k"
    and "net_strerror net = net_strerror net'"
  shows "get net c req onHeaders onBody s = get net' c req onHeaders onBody s"
  using assms by (intro get_hops) auto

theorem get_bounded_hops_witness:
  "get (packets_net (\<lambda>_. [])) False (new_request ''http://h/x'' 0) None (string_onBody 9)
     \<lparr>sink_body = '''', sink_overflowed = False\<rparr> =
   get (packets_net (\<lambda>k. if k \<le> 5 then [] else [''x''])) False (new_request ''http://h/x'' 0) None
     (string_onBody 9) \<lparr>sink_body = '''', sink_overflowed = False\<rparr>"
  by (rule get_bounded_hops) (simp_all add: packets_net_def new_request_def)

end
