(* ===== verification/Http_Props.thy ===== *)
theory Http_Props
  imports Http_Client
begin

text \<open>
  Properties of the HTTP client that rest on the lemmas of \<open>Http_Url\<close>, \<open>Http_Conn\<close>, \<open>Http_Stream\<close> and
  \<open>Http_Client\<close>: URLs survive printing, relative redirects stay on the origin, chunked bodies are decoded
  and no socket is lost while connecting.
\<close>

text \<open>
  Printing a URL and parsing it again gives the same URL, for every well-formed URL whose host has
  no delimiter and whose target does not end in white space, IPv6 literals and non-default ports
  included.
\<close>

theorem parseUrl_roundtrip:
  assumes "url_wf u" "host_clean (host u)" "\<not> is_space (last (target u))"
  shows "parseUrl (toString u) = Some u"
  using parseUrl_toString_eq [of u] assms by (simp add: url_clean_def)

theorem parseUrl_roundtrip_witness:
  "parseUrl (toString \<lparr>scheme = ''https'', host = ''::1'', port = ''8443'', target = ''/a?b=c''\<rparr>) =
     Some \<lparr>scheme = ''https'', host = ''::1'', port = ''8443'', target = ''/a?b=c''\<rparr>"
  by (rule parseUrl_roundtrip) (simp_all add: url_wf_def host_clean_def is_digit_def is_space_def char_code_def)

text \<open>
  A redirect whose Location has no scheme never leaves the origin: the URL it resolves to parses,
  with the scheme, host and port of the page it came from.
\<close>

theorem redirect_keeps_origin:
  assumes "url_wf base" "host_clean (host base)" "trim loc \<noteq> []" "find_sub ''://'' (trim loc) = None"
  shows "\<exists>t. parseUrl (resolveRedirect base loc) = Some (base\<lparr>target := t\<rparr>)"
  using resolveRedirect_origin [OF assms] by blast

theorem redirect_keeps_origin_witness:
  "\<exists>t. parseUrl (resolveRedirect \<lparr>scheme = ''http'', host = ''h'', port = ''80'', target = ''/a/b''\<rparr> ''//evil/x'') =
     Some \<lparr>scheme = ''http'', host = ''h'', port = ''80'', target = t\<rparr>"
proof -
  have "trim ''//evil/x'' \<noteq> []" "find_sub ''://'' (trim ''//evil/x'') = None" by code_simp+
  from redirect_keeps_origin [OF _ _ this, of "\<lparr>scheme = ''http'', host = ''h'', port = ''80'', target = ''/a/b''\<rparr>"]
  show ?thesis by (simp add: url_wf_def host_clean_def is_digit_def char_code_def)
qed

text \<open>
  C30. A chunked response is decoded by \<open>getString\<close>: whatever the packets it arrives in, the chunk
  extensions and the sizes of the chunks, the body returned is the chunks' data, joined.
\<close>

theorem getString_decodes_chunked:
  assumes "parseUrl u = Some ur"
    and "answers (net_strerror net) (net_exchange net 0 ur (request_head ur (new_request u 0))) False ur
           (new_request u 0) (''HTTP/1.1 200 OK'' @ crlf @ render_headers hs @ encode_chunked cs @ rest)"
    and "head_ok hs" and "headers_contains (stored hs) ''Transfer-Encoding'' ''chunked''"
    and "list_all chunk_ok cs" and "length (concat (map snd cs)) \<le> maxBytes"
  shows "\<exists>res. getString net u maxBytes = (res, concat (map snd cs)) \<and> res_error res = kOk \<and>
    res_bytes res = int (length (concat (map snd cs)))"
proof -
  let ?s0 = "\<lparr>sink_body = '''', sink_overflowed = False\<rparr>" and ?req = "new_request u 0"
  let ?info = "new_response\<lparr>statusCode := 200, reason := ''OK''\<rparr>"
  have sok: "status_line_ok ''HTTP/1.1 200 OK'' 200 ''OK''"
    by (simp add: status_line_ok_def parseStatusLine_ok kMaxLineLength_def lf_def)
  obtain r where r: "quiet r" "stream r = encode_chunked cs @ rest"
    and po: "performOnce (net_strerror net) (net_exchange net 0 ur (request_head ur ?req)) False ur ?req None
        (string_onBody maxBytes) ?s0 = respond ur ?req None (string_onBody maxBytes) (stored hs) ?info r ?s0"
    using performOnce_answers [OF assms(2) sok assms(3), of None "string_onBody maxBytes" ?s0] by auto
  obtain s2 where re: "respond ur ?req None (string_onBody maxBytes) (stored hs) ?info r ?s0 =
      (\<lparr>att_result = \<lparr>res_error = kOk, res_message = '''', res_response = final_info ur ?req (stored hs) ?info,
          res_bytes = int (length (concat (map snd cs)))\<rparr>, redirectTo = ''''\<rparr>, s2)"
    and s2: "sink_body s2 = concat (map snd cs)" "\<not> sink_overflowed s2"
    using mem.respond_chunked [of ?info None ?s0 ur ?req "stored hs" ?s0 r cs rest maxBytes] r assms(4-6)
    by (auto simp: is_redirect_def run_headers_def)
  show ?thesis using getString_first_hop [OF assms(1) po [unfolded re]] s2 by simp
qed

theorem getString_decodes_chunked_witness:
  "\<exists>res. getString (packets_net (\<lambda>_. [''HTTP/1.1 200 OK'' @ crlf @ ''Transfer-Encoding: chunked'' @ crlf @ crlf @ ''3;x'',
       crlf @ ''hel'' @ crlf, ''2'' @ crlf @ ''lo'' @ crlf @ ''0'', crlf @ crlf])) ''http://h/x'' 10 = (res, ''hello'') \<and>
     res_error res = kOk \<and> res_bytes res = 5"
proof -
  let ?ps = "[''HTTP/1.1 200 OK'' @ crlf @ ''Transfer-Encoding: chunked'' @ crlf @ crlf @ ''3;x'',
       crlf @ ''hel'' @ crlf, ''2'' @ crlf @ ''lo'' @ crlf @ ''0'', crlf @ crlf]"
  let ?net = "packets_net (\<lambda>_. ?ps)" and ?hs = "[(''Transfer-Encoding'', ''chunked'')]"
  let ?cs = "[('';x'', ''hel''), ('''', ''lo'')]"
  define ur where "ur = \<lparr>scheme = ''http'', host = ''h'', port = ''80'', target = ''/x''\<rparr>"
  have pu: "parseUrl ''http://h/x'' = Some ur" unfolding ur_def by code_simp
  have hx: "nat_to_hex 3 = ''3''" "nat_to_hex 2 = ''2''" by code_simp+
  have cc: "concat ?ps = ''HTTP/1.1 200 OK'' @ crlf @ render_headers ?hs @ encode_chunked ?cs @ []"
    by (simp add: render_headers_def render_header_def encode_chunked_def encode_chunk_def crlf_def hx numeral_3_eq_3 [symmetric] numeral_2_eq_2 [symmetric])
  have an: "answers (net_strerror ?net) (net_exchange ?net 0 ur (request_head ur (new_request ''http://h/x'' 0)))
      False ur (new_request ''http://h/x'' 0) (''HTTP/1.1 200 OK'' @ crlf @ render_headers ?hs @ encode_chunked ?cs @ [])"
    unfolding cc [symmetric] packets_net_def network.simps
    by (rule packets_exchange_answers) (simp_all add: ur_def crlf_def)
  have ho: "head_ok ?hs"
    by (simp add: head_ok_def header_ok_def kMaxHeaderCount_def lf_def) code_simp
  have te: "headers_contains (stored ?hs) ''Transfer-Encoding'' ''chunked''" by code_simp
  have "\<exists>res. getString ?net ''http://h/x'' 10 = (res, concat (map snd ?cs)) \<and> res_error res = kOk \<and>
      res_bytes res = int (length (concat (map snd ?cs)))"
    by (rule getString_decodes_chunked [OF pu an ho te]) (simp_all add: chunk_ok_def lf_def)
  then show ?thesis by simp
qed

text \<open>The sockets opened while connecting: those of each address up to the first that connects.\<close>

fun reached :: "int \<Rightarrow> addr_try list \<Rightarrow> int list" where
  "reached tmo [] = []"
| "reached tmo (t # ts) =
     (if try_socket t < 0 then reached tmo ts
      else try_socket t # (if fst (try_address tmo t) then [] else reached tmo ts))"

lemma connect_loop_reached:
  "connect_loop strerror u tmo err ts = (fd, err', closed) \<Longrightarrow>
   reached tmo ts = closed @ (if fd < 0 then [] else [fd])"
  by (induction strerror u tmo err ts arbitrary: closed rule: connect_loop.induct)
    (auto simp: Let_def split: if_splits prod.splits)

text \<open>
  No socket is lost while connecting: when \<open>openConnection\<close> fails, the sockets it closed are exactly
  those it opened; when it succeeds, exactly the one it returns is left open.
\<close>

theorem openConnection_no_leak:
  "(case openConnection strerror u tmo env tls of
      Inl (e, message, closed) \<Rightarrow> closed
    | Inr (kind, fd, closed) \<Rightarrow> closed @ [fd]) =
   (if env_resolve env = None then reached tmo (env_addrs env) else [])"
proof -
  obtain fd m cl where c: "connectTcp strerror u tmo env = (fd, m, cl)" by (metis prod_cases3)
  have "(if env_resolve env = None then reached tmo (env_addrs env) else []) = cl @ (if fd < 0 then [] else [fd])"
    using c connect_loop_reached by (fastforce simp: connectTcp_def split: option.splits)
  then show ?thesis by (auto simp: openConnection_def c split: option.splits)
qed

end
