(* ===== verification/Http_Callbacks.thy ===== *)
theory Http_Callbacks
  imports Http_Client
begin

text \<open>
  The order in which \<open>get\<close> calls its callbacks, and the two facts a caller draws from a successful
  transfer: the headers callback ran once, before any body callback, and a response that promised a
  length delivered that length.
\<close>

subsection \<open>One headers call, then body calls\<close>

definition body_call :: "'s body_fn \<Rightarrow> 's \<Rightarrow> 's \<Rightarrow> bool" where
  "body_call onBody s t \<longleftrightarrow> (\<exists>d. t = snd (onBody s d))"

interpretation runs: response_steps None onBody "(body_call onBody)\<^sup>*\<^sup>*" for onBody :: "'s body_fn"
  by unfold_locales (auto simp: body_call_def intro: rtranclp_trans intro!: r_into_rtranclp)

text \<open>
  What the callbacks can have done to the state of the caller: nothing; a refused headers call; or an
  accepted headers call followed by body calls.
\<close>

definition called :: "'s headers_fn \<Rightarrow> 's body_fn \<Rightarrow> 's \<Rightarrow> 's \<Rightarrow> bool" where
  "called f onBody s t \<longleftrightarrow> t = s \<or>
     (\<exists>i. if fst (f s i) then (body_call onBody)\<^sup>*\<^sup>* (snd (f s i)) t else t = snd (f s i))"

lemma respond_called: "called f onBody s (snd (respond u req (Some f) onBody hs info r s))"
proof -
  have p: "(body_call onBody)\<^sup>*\<^sup>* s1 (snd (snd (snd (snd (if c then pumpChunked onBody 0 r s1
                            else pumpPlain onBody n 0 r s1)))))" for c n s1
    using runs.pumpChunked_steps [where onBody = onBody and w = 0 and r = r and s = s1]
      runs.pumpPlain_steps [where onBody = onBody and want = n and w = 0 and r = r and s = s1]
    by (auto split: prod.splits)
  have "snd (respond u req (Some f) onBody hs info r s) = s \<or>
      (let i = final_info u req hs info in
       snd (respond u req (Some f) onBody hs info r s) =
         (if fst (f s i)
          then snd (snd (snd (snd (if headers_contains hs ''Transfer-Encoding'' ''chunked''
                                   then pumpChunked onBody 0 r (snd (f s i))
                                   else pumpPlain onBody (contentLength hs) 0 r (snd (f s i))))))
          else snd (f s i)))"
    by (simp add: respond_def final_info_def Let_def case_prod_beta)
  then show ?thesis
  proof (elim disjE)
    assume "let i = final_info u req hs info in
       snd (respond u req (Some f) onBody hs info r s) =
         (if fst (f s i)
          then snd (snd (snd (snd (if headers_contains hs ''Transfer-Encoding'' ''chunked''
                                   then pumpChunked onBody 0 r (snd (f s i))
                                   else pumpPlain onBody (contentLength hs) 0 r (snd (f s i))))))
          else snd (f s i))"
    then show ?thesis
      unfolding called_def Let_def using p by (intro disjI2 exI [of _ "final_info u req hs info"]) presburger
  qed (simp add: called_def)
qed

lemma respond_redirect_quiet:
  "redirectTo (fst (respond u req (Some f) onBody hs info r s)) \<noteq> [] \<Longrightarrow>
   snd (respond u req (Some f) onBody hs info r s) = s"
  by (auto simp: respond_def Let_def case_prod_beta split: if_splits)

lemma performOnce_called:
  "called f onBody s (snd (performOnce strerror ex c u req (Some f) onBody s)) \<and>
   (redirectTo (fst (performOnce strerror ex c u req (Some f) onBody s)) \<noteq> [] \<longrightarrow>
    snd (performOnce strerror ex c u req (Some f) onBody s) = s)"
proof -
  have "called f onBody s s" by (simp add: called_def)
  then show ?thesis
    unfolding performOnce_def Let_def
    by (auto simp: respond_called respond_redirect_quiet split: sum.splits prod.splits)
qed

lemma get_loop_called: "called f onBody s (snd (get_loop net c req (Some f) onBody n hop current s))"
proof (induction n arbitrary: hop current s)
  case (Suc n)
  have refl: "called f onBody s s" by (simp add: called_def)
  show ?case
  proof (cases "parseUrl current")
    case (Some u)
    let ?po = "performOnce (net_strerror net) (net_exchange net hop u
      (request_head u (req\<lparr>req_url := current\<rparr>))) c u (req\<lparr>req_url := current\<rparr>) (Some f) onBody s"
    have "called f onBody s (snd ?po)" and "redirectTo (fst ?po) \<noteq> [] \<Longrightarrow> snd ?po = s"
      using performOnce_called [of f onBody s "net_strerror net"] by blast+
    with Suc Some refl show ?thesis by (auto simp: Let_def case_prod_beta)
  qed (simp add: refl)
qed (simp add: called_def)

lemma get_called: "called f onBody s (snd (get net c req (Some f) onBody s))"
  unfolding get_def by (rule get_loop_called)

text \<open>A property of the state that the body calls keep, from what the headers call established.\<close>

lemma called_cases [consumes 1, case_names unchanged refused accepted]:
  assumes "called f onBody s t"
    and "t = s \<Longrightarrow> P" and "\<And>i. f s i = (False, t) \<Longrightarrow> P"
    and "\<And>i s1. f s i = (True, s1) \<Longrightarrow> (body_call onBody)\<^sup>*\<^sup>* s1 t \<Longrightarrow> P"
  shows P
  using assms unfolding called_def by (metis prod.collapse)

lemma body_calls_keep:
  assumes "(body_call onBody)\<^sup>*\<^sup>* s t" and "I s" and "\<And>s d. I s \<Longrightarrow> I (snd (onBody s d))"
  shows "I t"
  using assms by (induction rule: rtranclp_induct) (auto simp: body_call_def)


subsection \<open>Success means complete\<close>

lemma readHeaders_error: "readHeaders hs r = (Inl (e, m), r') \<Longrightarrow> e \<noteq> kOk"
proof (induction hs r arbitrary: e m r' rule: readHeaders.induct)
  case (1 hs r)
  obtain rc line r1 where rl: "readLine r = (rc, line, r1)" by (cases "readLine r") auto
  show ?case
  proof (cases "rc = kOk \<and> line \<noteq> []")
    case True
    note IH = 1(1,2) [OF rl [symmetric] refl]
    show ?thesis
    proof (cases "find_char (CHR '':'') line")
      case None
      with True 1(3) IH(1) show ?thesis by (simp add: readHeaders.simps [of hs r] rl)
    next
      case (Some colon)
      with True 1(3) IH(2) show ?thesis
        by (auto simp: readHeaders.simps [of hs r] rl split: if_split_asm)
    qed
  qed (use 1(3) in \<open>auto simp: readHeaders.simps [of hs r] rl split: if_split_asm\<close>)
qed

lemma openConnection_error:
  "openConnection strerror u t env tls = Inl (e, m, closed) \<Longrightarrow> e \<noteq> kOk"
  by (auto simp: openConnection_def split: sum.splits prod.splits option.splits if_split_asm)

text \<open>
  The claims a successful result makes about the sink: some response was accepted by the headers
  callback at \<open>s1\<close>, only body calls followed, and \<open>res_bytes\<close> bytes were appended after it.
\<close>

definition delivered :: "('s \<Rightarrow> bytes) \<Rightarrow> 's headers_fn \<Rightarrow> 's body_fn \<Rightarrow> result \<Rightarrow> 's \<Rightarrow> 's \<Rightarrow> bool" where
  "delivered view f onBody res s t \<longleftrightarrow>
     (\<exists>s1 ds. f s (res_response res) = (True, s1) \<and> (body_call onBody)\<^sup>*\<^sup>* s1 t \<and>
        view t = view s1 @ ds \<and> res_bytes res = int (length ds))"

context body_sink
begin

lemma respond_delivered:
  assumes "res_error (att_result (fst (respond u req (Some f) onBody hs info r s))) = kOk"
    and "redirectTo (fst (respond u req (Some f) onBody hs info r s)) = []"
  shows "delivered view f onBody (att_result (fst (respond u req (Some f) onBody hs info r s))) s
           (snd (respond u req (Some f) onBody hs info r s))"
proof -
  let ?i = "final_info u req hs info"
  have nr: "\<not> is_redirect (statusCode info)" "statusCode info < 400"
    and acc: "fst (f s ?i)"
    using assms by (auto simp: respond_def Let_def case_prod_beta final_info_def split: if_splits)
  obtain s1 where s1: "f s ?i = (True, s1)" using acc by (metis prod.collapse)
  define p where "p = (if headers_contains hs ''Transfer-Encoding'' ''chunked'' then pumpChunked onBody 0 r s1
          else pumpPlain onBody (contentLength hs) 0 r s1)"
  obtain rc n err r2 s2 where p: "p = (rc, n, err, r2, s2)" by (cases p) auto
  have e: "respond u req (Some f) onBody hs info r s =
    (\<lparr>att_result = \<lparr>res_error = rc, res_message = (if rc \<noteq> kOk then err else ''''),
        res_response = ?i, res_bytes = n\<rparr>, redirectTo = ''''\<rparr>, s2)"
    using respond_final [OF nr, of "Some f" s u req hs s1] s1 p by (simp add: run_headers_def p_def)
  have "rc = kOk" using assms(1) e by simp
  then have "\<exists>ds. view s2 = view s1 @ ds \<and> n = int (length ds)"
    using p pumpChunked_counts [where w = 0 and r = r and s = s1]
      pumpPlain_counts [where want = "contentLength hs" and w = 0 and r = r and s = s1]
    by (auto simp: p_def split: if_splits)
  moreover have "(body_call onBody)\<^sup>*\<^sup>* s1 s2"
    using p runs.pumpChunked_steps [where onBody = onBody and w = 0 and r = r and s = s1]
      runs.pumpPlain_steps [where onBody = onBody and want = "contentLength hs" and w = 0 and r = r and s = s1]
    by (auto simp: p_def split: if_splits)
  ultimately show ?thesis using s1 e by (auto simp: delivered_def)
qed

lemma performOnce_delivered:
  assumes "performOnce strerror ex c u req (Some f) onBody s = (att, t)"
    and "res_error (att_result att) = kOk" and "redirectTo att = []"
  shows "delivered view f onBody (att_result att) s t"
proof -
  have r: "respond u req (Some f) onBody hs info r s = (att, t) \<Longrightarrow> ?thesis" for hs info r
    using respond_delivered [of u req f hs info r s] assms(2,3) by simp
  show ?thesis
    using assms unfolding performOnce_def Let_def
    by (auto intro: r dest: openConnection_error readHeaders_error split: sum.splits prod.splits if_splits)
qed

lemma get_loop_delivered:
  assumes "get_loop net c req (Some f) onBody n hop current s = (res, t)" and "res_error res = kOk"
  shows "delivered view f onBody res s t"
  using assms
proof (induction n arbitrary: hop current s)
  case (Suc n)
  obtain u where u: "parseUrl current = Some u"
    using Suc.prems by (auto simp: new_result_def split: option.splits)
  let ?po = "performOnce (net_strerror net) (net_exchange net hop u
      (request_head u (req\<lparr>req_url := current\<rparr>))) c u (req\<lparr>req_url := current\<rparr>) (Some f) onBody s"
  obtain att s1 where po: "?po = (att, s1)" by fastforce
  have "\<not> (c \<and> net_canceled net hop)" using Suc.prems u by (auto simp: new_result_def)
  with Suc.prems u po have
    "(if redirectTo att = [] then (att_result att, s1)
      else get_loop net c req (Some f) onBody n (Suc hop) (redirectTo att) s1) = (res, t)"
    by (simp add: Let_def)
  moreover have "redirectTo att \<noteq> [] \<Longrightarrow> s1 = s"
    using performOnce_called [of f onBody s] po by (metis fst_conv snd_conv)
  ultimately show ?case
    using Suc.IH Suc.prems(2) performOnce_delivered [OF po] by (auto split: if_splits)
qed (auto simp: new_result_def)

lemma get_delivered:
  "get net c req (Some f) onBody s = (res, t) \<Longrightarrow> res_error res = kOk \<Longrightarrow> delivered view f onBody res s t"
  unfolding get_def by (rule get_loop_delivered)

end

end
