(* ===== verification/Binder_Status.thy ===== *)
theory Binder_Status
  imports Binder_Prelude
begin

text \<open>
  \<open>android::binder::Status\<close> (\<open>frameworks/native/libs/binder/Status.cpp\<close> and its header) and the
  \<open>status_t\<close> names of \<open>system/core/libutils/Errors.cpp\<close>: the value every binder method returns.
\<close>

datatype binder_exception =
    EX_NONE | EX_SECURITY | EX_BAD_PARCELABLE | EX_ILLEGAL_ARGUMENT | EX_NULL_POINTER
  | EX_ILLEGAL_STATE | EX_NETWORK_MAIN_THREAD | EX_UNSUPPORTED_OPERATION | EX_SERVICE_SPECIFIC
  | EX_PARCELABLE | EX_HAS_REPLY_HEADER | EX_TRANSACTION_FAILED

fun exception_value :: "binder_exception \<Rightarrow> int" where
  "exception_value EX_NONE = 0"
| "exception_value EX_SECURITY = -1"
| "exception_value EX_BAD_PARCELABLE = -2"
| "exception_value EX_ILLEGAL_ARGUMENT = -3"
| "exception_value EX_NULL_POINTER = -4"
| "exception_value EX_ILLEGAL_STATE = -5"
| "exception_value EX_NETWORK_MAIN_THREAD = -6"
| "exception_value EX_UNSUPPORTED_OPERATION = -7"
| "exception_value EX_SERVICE_SPECIFIC = -8"
| "exception_value EX_PARCELABLE = -9"
| "exception_value EX_HAS_REPLY_HEADER = -128"
| "exception_value EX_TRANSACTION_FAILED = -129"

definition OK :: int where "OK = 0"
definition UNKNOWN_ERROR :: int where "UNKNOWN_ERROR = -2147483648"
definition NO_MEMORY :: int where "NO_MEMORY = -12"
definition INVALID_OPERATION :: int where "INVALID_OPERATION = -38"
definition BAD_VALUE :: int where "BAD_VALUE = -22"
definition BAD_TYPE :: int where "BAD_TYPE = UNKNOWN_ERROR + 1"
definition NAME_NOT_FOUND :: int where "NAME_NOT_FOUND = -2"
definition PERMISSION_DENIED :: int where "PERMISSION_DENIED = -1"
definition NO_INIT :: int where "NO_INIT = -19"
definition ALREADY_EXISTS :: int where "ALREADY_EXISTS = -17"
definition DEAD_OBJECT :: int where "DEAD_OBJECT = -32"
definition FAILED_TRANSACTION :: int where "FAILED_TRANSACTION = UNKNOWN_ERROR + 2"
definition BAD_INDEX :: int where "BAD_INDEX = -75"
definition NOT_ENOUGH_DATA :: int where "NOT_ENOUGH_DATA = -61"
definition WOULD_BLOCK :: int where "WOULD_BLOCK = -11"
definition TIMED_OUT :: int where "TIMED_OUT = -110"
definition UNKNOWN_TRANSACTION :: int where "UNKNOWN_TRANSACTION = -74"
definition FDS_NOT_ALLOWED :: int where "FDS_NOT_ALLOWED = UNKNOWN_ERROR + 7"
definition UNEXPECTED_NULL :: int where "UNEXPECTED_NULL = UNKNOWN_ERROR + 8"

lemmas status_t_defs =
  OK_def UNKNOWN_ERROR_def NO_MEMORY_def INVALID_OPERATION_def BAD_VALUE_def BAD_TYPE_def
  NAME_NOT_FOUND_def PERMISSION_DENIED_def NO_INIT_def ALREADY_EXISTS_def DEAD_OBJECT_def
  FAILED_TRANSACTION_def BAD_INDEX_def NOT_ENOUGH_DATA_def WOULD_BLOCK_def TIMED_OUT_def
  UNKNOWN_TRANSACTION_def FDS_NOT_ALLOWED_def UNEXPECTED_NULL_def

definition statusToString :: "(int \<Rightarrow> string) \<Rightarrow> int \<Rightarrow> string" where
  "statusToString strerror s =
     (if s = OK then ''OK''
      else if s = UNKNOWN_ERROR then ''UNKNOWN_ERROR''
      else if s = NO_MEMORY then ''NO_MEMORY''
      else if s = INVALID_OPERATION then ''INVALID_OPERATION''
      else if s = BAD_VALUE then ''BAD_VALUE''
      else if s = BAD_TYPE then ''BAD_TYPE''
      else if s = NAME_NOT_FOUND then ''NAME_NOT_FOUND''
      else if s = PERMISSION_DENIED then ''PERMISSION_DENIED''
      else if s = NO_INIT then ''NO_INIT''
      else if s = ALREADY_EXISTS then ''ALREADY_EXISTS''
      else if s = DEAD_OBJECT then ''DEAD_OBJECT''
      else if s = FAILED_TRANSACTION then ''FAILED_TRANSACTION''
      else if s = BAD_INDEX then ''BAD_INDEX''
      else if s = NOT_ENOUGH_DATA then ''NOT_ENOUGH_DATA''
      else if s = WOULD_BLOCK then ''WOULD_BLOCK''
      else if s = TIMED_OUT then ''TIMED_OUT''
      else if s = UNKNOWN_TRANSACTION then ''UNKNOWN_TRANSACTION''
      else if s = FDS_NOT_ALLOWED then ''FDS_NOT_ALLOWED''
      else if s = UNEXPECTED_NULL then ''UNEXPECTED_NULL''
      else int_to_dec s @ '' ('' @ strerror (- s) @ '')'')"

text \<open>
  \<open>mException\<close> is an \<open>int32_t\<close>: a proxy may read any value from a reply.
\<close>

record status =
  mException :: int
  mErrorCode :: int
  mMessage :: string

text \<open>A \<open>String8\<close> made from a C string ends at the first NUL.\<close>

definition String8 :: "string \<Rightarrow> string" where
  "String8 s = takeWhile (\<lambda>c. c \<noteq> CHR 0x00) s"

definition status_ok :: status where
  "status_ok = \<lparr>mException = exception_value EX_NONE, mErrorCode = 0, mMessage = ''''\<rparr>"

definition fromExceptionCode :: "int \<Rightarrow> string \<Rightarrow> status" where
  "fromExceptionCode ex msg =
     (if ex = exception_value EX_TRANSACTION_FAILED
      then \<lparr>mException = ex, mErrorCode = FAILED_TRANSACTION, mMessage = msg\<rparr>
      else \<lparr>mException = ex, mErrorCode = OK, mMessage = msg\<rparr>)"

definition fromServiceSpecificError :: "int \<Rightarrow> string \<Rightarrow> status" where
  "fromServiceSpecificError code msg =
     \<lparr>mException = exception_value EX_SERVICE_SPECIFIC, mErrorCode = code, mMessage = msg\<rparr>"

definition setFromStatusT :: "int \<Rightarrow> status \<Rightarrow> status" where
  "setFromStatusT st s =
     s\<lparr>mException := (if st = OK then exception_value EX_NONE else exception_value EX_TRANSACTION_FAILED),
       mErrorCode := st, mMessage := ''''\<rparr>"

definition fromStatusT :: "int \<Rightarrow> status" where
  "fromStatusT st = setFromStatusT st status_ok"

definition setException :: "int \<Rightarrow> string \<Rightarrow> status \<Rightarrow> status" where
  "setException ex msg s =
     s\<lparr>mException := ex,
       mErrorCode := (if ex = exception_value EX_TRANSACTION_FAILED then FAILED_TRANSACTION else OK),
       mMessage := msg\<rparr>"

definition setServiceSpecificError :: "int \<Rightarrow> string \<Rightarrow> status \<Rightarrow> status" where
  "setServiceSpecificError code msg s =
     (setException (exception_value EX_SERVICE_SPECIFIC) msg s)\<lparr>mErrorCode := code\<rparr>"

definition transactionError :: "status \<Rightarrow> int" where
  "transactionError s = (if mException s = exception_value EX_TRANSACTION_FAILED then mErrorCode s else OK)"

definition serviceSpecificErrorCode :: "status \<Rightarrow> int" where
  "serviceSpecificErrorCode s = (if mException s = exception_value EX_SERVICE_SPECIFIC then mErrorCode s else 0)"

definition isOk :: "status \<Rightarrow> bool" where
  "isOk s \<longleftrightarrow> mException s = exception_value EX_NONE"

definition exceptionToString :: "int \<Rightarrow> string" where
  "exceptionToString ex =
     (if ex = exception_value EX_NONE then ''EX_NONE''
      else if ex = exception_value EX_SECURITY then ''EX_SECURITY''
      else if ex = exception_value EX_BAD_PARCELABLE then ''EX_BAD_PARCELABLE''
      else if ex = exception_value EX_ILLEGAL_ARGUMENT then ''EX_ILLEGAL_ARGUMENT''
      else if ex = exception_value EX_NULL_POINTER then ''EX_NULL_POINTER''
      else if ex = exception_value EX_ILLEGAL_STATE then ''EX_ILLEGAL_STATE''
      else if ex = exception_value EX_NETWORK_MAIN_THREAD then ''EX_NETWORK_MAIN_THREAD''
      else if ex = exception_value EX_UNSUPPORTED_OPERATION then ''EX_UNSUPPORTED_OPERATION''
      else if ex = exception_value EX_SERVICE_SPECIFIC then ''EX_SERVICE_SPECIFIC''
      else if ex = exception_value EX_PARCELABLE then ''EX_PARCELABLE''
      else if ex = exception_value EX_HAS_REPLY_HEADER then ''EX_HAS_REPLY_HEADER''
      else if ex = exception_value EX_TRANSACTION_FAILED then ''EX_TRANSACTION_FAILED''
      else int_to_dec ex)"

definition toString8 :: "(int \<Rightarrow> string) \<Rightarrow> status \<Rightarrow> string" where
  "toString8 strerror s =
     (if mException s = exception_value EX_NONE then ''No error''
      else ''Status('' @ int_to_dec (mException s) @ '', '' @ exceptionToString (mException s) @ ''): '' @
           [CHR 0x27] @
           (if mException s = exception_value EX_SERVICE_SPECIFIC then int_to_dec (mErrorCode s) @ '': ''
            else if mException s = exception_value EX_TRANSACTION_FAILED
            then statusToString strerror (mErrorCode s) @ '': ''
            else '''') @
           mMessage s @ [CHR 0x27])"

lemma isOk_simps [simp]:
  "isOk status_ok"
  "\<not> isOk (fromServiceSpecificError c m)"
  "isOk (fromStatusT st) \<longleftrightarrow> st = OK"
  "isOk (fromExceptionCode ex m) \<longleftrightarrow> ex = 0"
  by (auto simp: isOk_def status_ok_def fromServiceSpecificError_def fromStatusT_def setFromStatusT_def
      fromExceptionCode_def)

lemma serviceSpecificErrorCode_simps [simp]:
  "serviceSpecificErrorCode (fromServiceSpecificError c m) = c"
  "serviceSpecificErrorCode status_ok = 0"
  "mMessage (fromServiceSpecificError c m) = m"
  "mException (fromServiceSpecificError c m) = exception_value EX_SERVICE_SPECIFIC"
  by (auto simp: serviceSpecificErrorCode_def fromServiceSpecificError_def status_ok_def)

end
