(* ===== verification/Http_Service.thy ===== *)
theory Http_Service
  imports Http_Callbacks Binder_Status
begin

text \<open>
  The binder service \<open>http.service\<close> (\<open>service/http/HttpService.cpp\<close>): the request table with its
  cancel flags, and the body of a transfer written to the descriptor the caller passed in. Request
  objects are shared between the table and the running transfers, so they live in a store and the
  table maps ids to addresses.
\<close>

subsection \<open>Constants and helpers\<close>

definition kMaxStringResponse :: nat where "kMaxStringResponse = 1024 * 1024"
definition kProgressIntervalMs :: int where "kProgressIntervalMs = 150"
definition kProgressBytes :: int where "kProgressBytes = 256 * 1024"
definition kStaleRequestMs :: int where "kStaleRequestMs = 60 * 1000"

text \<open>The steady clock counts nanoseconds.\<close>

definition millisSince :: "int \<Rightarrow> int \<Rightarrow> int" where
  "millisSince now t = cdiv (now - t) 1000000"

text \<open>The open file behind a descriptor, and the \<open>errno\<close> of the thread that uses it.\<close>

record fd_file =
  fd_content :: bytes
  fd_offset :: nat
  fd_errno :: int

definition file_write :: "bytes \<Rightarrow> fd_file \<Rightarrow> fd_file" where
  "file_write d f = f\<lparr>fd_content := write_at (fd_offset f) d (fd_content f), fd_offset := fd_offset f + length d\<rparr>"

text \<open>
  The loop over \<open>write(2)\<close>: each turn takes the next result of the system call; when the list is
  used up the call writes all it is given.
\<close>

fun writeFully :: "write_result list \<Rightarrow> fd_file \<Rightarrow> bytes \<Rightarrow> bool \<times> write_result list \<times> fd_file" where
  "writeFully ws f [] = (True, ws, f)"
| "writeFully [] f d = (True, [], file_write d f)"
| "writeFully (WriteOk n # ws) f d =
     (if n > 0 then writeFully ws (file_write (take n d) f) (drop n d) else (False, ws, f))"
| "writeFully (WriteErr e # ws) f d =
     (if e = EINTR then writeFully ws (f\<lparr>fd_errno := e\<rparr>) d else (False, ws, f\<lparr>fd_errno := e\<rparr>))"

definition failure :: "int \<Rightarrow> string \<Rightarrow> status" where
  "failure code message = fromServiceSpecificError code (String8 message)"


subsection \<open>Request bookkeeping\<close>

record http_req =
  canceled :: bool
  running :: bool
  created :: int

record http_service =
  heap :: "nat \<Rightarrow> http_req"
  next_addr :: nat
  mRequests :: "int \<Rightarrow> nat option"
  mNextId :: int
  mActiveCount :: int

definition HttpService_init :: http_service where
  "HttpService_init = \<lparr>heap = (\<lambda>_. \<lparr>canceled = False, running = False, created = 0\<rparr>), next_addr = 0,
     mRequests = (\<lambda>_. None), mNextId = 1, mActiveCount = 0\<rparr>"

text \<open>\<open>mRequests.emplace(id, std::make_shared<Request>())\<close>, at an id that is not in the table.\<close>

definition emplace_request :: "int \<Rightarrow> int \<Rightarrow> http_service \<Rightarrow> http_service" where
  "emplace_request now i st =
     st\<lparr>heap := (heap st)(next_addr st := \<lparr>canceled = False, running = False, created = now\<rparr>),
        mRequests := (mRequests st)(i \<mapsto> next_addr st), next_addr := Suc (next_addr st)\<rparr>"

definition store_running :: "nat \<Rightarrow> http_service \<Rightarrow> http_service" where
  "store_running a st = st\<lparr>heap := (heap st)(a := (heap st a)\<lparr>running := True\<rparr>)\<rparr>"

definition store_canceled :: "nat \<Rightarrow> http_service \<Rightarrow> http_service" where
  "store_canceled a st = st\<lparr>heap := (heap st)(a := (heap st a)\<lparr>canceled := True\<rparr>)\<rparr>"

definition beginRequest :: "int \<Rightarrow> int \<Rightarrow> http_service \<Rightarrow> nat \<times> http_service" where
  "beginRequest now i st =
     (case mRequests st i of
        None \<Rightarrow> (next_addr st, store_running (next_addr st) (emplace_request now i st))
      | Some a \<Rightarrow> (a, store_running a st))"

definition endRequest :: "int \<Rightarrow> http_service \<Rightarrow> http_service" where
  "endRequest i st = st\<lparr>mRequests := (mRequests st)(i := None)\<rparr>"

definition newRequestId :: "http_service \<Rightarrow> int \<times> status \<times> http_service" where
  "newRequestId st = (mNextId st, status_ok, st\<lparr>mNextId := s32 (mNextId st + 1)\<rparr>)"

definition add_active :: "int \<Rightarrow> http_service \<Rightarrow> http_service" where
  "add_active d st = st\<lparr>mActiveCount := s32 (mActiveCount st + d)\<rparr>"

text \<open>The sweep reads the clock at each entry: \<open>now k\<close> is the reading made at the entry of id \<open>k\<close>.\<close>

definition stale :: "(int \<Rightarrow> int) \<Rightarrow> http_service \<Rightarrow> int \<Rightarrow> nat \<Rightarrow> bool" where
  "stale now st k a \<longleftrightarrow> \<not> running (heap st a) \<and> millisSince (now k) (created (heap st a)) > kStaleRequestMs"

definition sweep :: "(int \<Rightarrow> int) \<Rightarrow> http_service \<Rightarrow> http_service" where
  "sweep now st =
     st\<lparr>mRequests := (\<lambda>k. case mRequests st k of
                            None \<Rightarrow> None
                          | Some a \<Rightarrow> if stale now st k a then None else Some a)\<rparr>"

definition HttpService_cancel :: "(int \<Rightarrow> int) \<Rightarrow> int \<Rightarrow> http_service \<Rightarrow> status \<times> http_service" where
  "HttpService_cancel now i st =
     (status_ok,
      case mRequests st i of
        None \<Rightarrow> store_canceled (next_addr st) (emplace_request (now i) i (sweep now st))
      | Some a \<Rightarrow> store_canceled a st)"

definition getActiveRequestCount :: "http_service \<Rightarrow> int \<times> status" where
  "getActiveRequestCount st = (mActiveCount st, status_ok)"

definition HttpService_getString :: "network \<Rightarrow> string \<Rightarrow> http_service \<Rightarrow> (status \<times> string) \<times> http_service" where
  "HttpService_getString net u st =
     (let st1 = add_active 1 st;
          (res, body) = getString net u kMaxStringResponse;
          st2 = add_active (-1) st1
      in if res_error res \<noteq> kOk then ((failure (error_code (res_error res)) (res_message res), body), st2)
         else ((status_ok, body), st2))"


subsection \<open>Transfers\<close>

datatype http_event =
    OnResponseStart int int int int string
  | OnBytesReceived int int int

text \<open>
  The locals of \<open>fetchToFd\<close> that its callbacks capture, with the world they touch: the file, the
  results of the system calls to come, the clock (one reading per call) and the reports sent.
  \<open>written\<close> is an \<open>int64_t\<close> that counts up from 0 by the lengths of what was written.
\<close>

record transfer =
  tr_file :: fd_file
  tr_writes :: "write_result list"
  tr_seek_error :: "int option"
  tr_truncate_error :: "int option"
  tr_clock :: "nat \<Rightarrow> int"
  tr_ticks :: nat
  tr_total :: int
  tr_written :: nat
  tr_reportedAt :: int
  tr_lastReport :: int
  tr_writeError :: string
  tr_events :: "http_event list"

definition EINVAL :: int where "EINVAL = 22"

definition lseek_error :: "int \<Rightarrow> transfer \<Rightarrow> int option" where
  "lseek_error off t = (case tr_seek_error t of Some e \<Rightarrow> Some e | None \<Rightarrow> if off < 0 then Some EINVAL else None)"

definition report :: "http_event \<Rightarrow> transfer \<Rightarrow> transfer" where
  "report e t = t\<lparr>tr_events := tr_events t @ [e]\<rparr>"

definition fetch_onHeaders :: "(int \<Rightarrow> string) \<Rightarrow> int \<Rightarrow> int \<Rightarrow> bool \<Rightarrow> transfer headers_fn" where
  "fetch_onHeaders strerror requestId resume callback t info =
     (let t1 = t\<lparr>tr_total := totalBytes info\<rparr>
      in case lseek_error (startOffset info) t of
           Some e \<Rightarrow> (False, t1\<lparr>tr_writeError := ''lseek: '' @ strerror e\<rparr>)
         | None \<Rightarrow>
             (let t2 = t1\<lparr>tr_file := (tr_file t)\<lparr>fd_offset := nat (startOffset info)\<rparr>\<rparr>;
                  refused = (startOffset info = 0 \<and> resume > 0)
              in if refused \<and> tr_truncate_error t \<noteq> None
                 then (False, t2\<lparr>tr_writeError := ''ftruncate: '' @ strerror (the (tr_truncate_error t))\<rparr>)
                 else
                   (let t3 = (if refused then t2\<lparr>tr_file := (tr_file t2)\<lparr>fd_content := []\<rparr>\<rparr> else t2)
                    in (True, if callback
                              then report (OnResponseStart requestId (statusCode info) (startOffset info)
                                             (totalBytes info) (contentType info)) t3
                              else t3))))"

text \<open>Whether the second callback reports: by bytes, or else by the clock, which is then read once.\<close>

definition due :: "bool \<Rightarrow> transfer \<Rightarrow> bool \<times> transfer" where
  "due callback t =
     (if \<not> callback then (False, t)
      else if int (tr_written t) - tr_reportedAt t \<ge> kProgressBytes then (True, t)
      else (millisSince (tr_clock t (tr_ticks t)) (tr_lastReport t) \<ge> kProgressIntervalMs,
            t\<lparr>tr_ticks := Suc (tr_ticks t)\<rparr>))"

definition fetch_onBody :: "(int \<Rightarrow> string) \<Rightarrow> int \<Rightarrow> bool \<Rightarrow> transfer body_fn" where
  "fetch_onBody strerror requestId callback t d =
     (case writeFully (tr_writes t) (tr_file t) d of
        (ok, ws, f) \<Rightarrow>
          (let t1 = t\<lparr>tr_file := f, tr_writes := ws\<rparr>
           in if \<not> ok then (False, t1\<lparr>tr_writeError := ''write: '' @ strerror (fd_errno f)\<rparr>)
              else
                (case due callback (t1\<lparr>tr_written := tr_written t + length d\<rparr>) of
                   (now, t2) \<Rightarrow>
                     (True, if now
                            then (report (OnBytesReceived requestId (int (tr_written t2)) (tr_total t2)) t2)
                                   \<lparr>tr_reportedAt := int (tr_written t2), tr_lastReport := tr_clock t2 (tr_ticks t2),
                                    tr_ticks := Suc (tr_ticks t2)\<rparr>
                            else t2))))"

text \<open>
  The cancel flag is a captured atomic that nothing resets: a poll sees it set when it was set at the
  start of the transfer, or by a \<open>cancel\<close> since, which is what the network's polls record.
\<close>

definition flagged :: "bool \<Rightarrow> network \<Rightarrow> network" where
  "flagged c net =
     net\<lparr>net_canceled := (\<lambda>hop. c \<or> net_canceled net hop),
         net_exchange := (\<lambda>hop u q. let ex = net_exchange net hop u q in
           ex\<lparr>ex_recv := map (\<lambda>e. e\<lparr>raw_canceled := c \<or> raw_canceled e\<rparr>) (ex_recv ex)\<rparr>)\<rparr>"

definition ERROR_WRITE :: int where "ERROR_WRITE = -6"

text \<open>
  \<open>fetchToFd\<close> on the state of the service: the other binder threads do \<open>others\<close> to that state while
  the transfer runs. \<open>t\<close> holds the file, the clock and the pending results of the system calls,
  and collects the reports of this call; \<open>fd\<close> is the descriptor number.
\<close>

definition new_transfer :: "transfer \<Rightarrow> transfer" where
  "new_transfer t =
     t\<lparr>tr_total := -1, tr_written := 0, tr_reportedAt := 0, tr_lastReport := tr_clock t (tr_ticks t),
       tr_ticks := Suc (tr_ticks t), tr_writeError := '''', tr_events := []\<rparr>"

definition run_transfer :: "network \<Rightarrow> bool \<Rightarrow> int \<Rightarrow> string \<Rightarrow> int \<Rightarrow> bool \<Rightarrow> transfer \<Rightarrow> result \<times> transfer" where
  "run_transfer net flag requestId u resume callback t =
     get (flagged flag net) True (new_request u resume)
       (Some (fetch_onHeaders (net_strerror net) requestId resume callback))
       (fetch_onBody (net_strerror net) requestId callback) (new_transfer t)"

definition transfer_reply :: "int \<Rightarrow> bool \<Rightarrow> result \<Rightarrow> transfer \<Rightarrow> (status \<times> int) \<times> transfer" where
  "transfer_reply requestId callback res t =
     (if res_error res \<noteq> kOk then
        (let message = (if tr_writeError t = [] then res_message res else tr_writeError t);
             code = (if tr_writeError t = [] then error_code (res_error res) else ERROR_WRITE)
         in ((failure code message, 0), t))
      else
        ((status_ok, int (tr_written t)),
         if callback then report (OnBytesReceived requestId (int (tr_written t)) (tr_total t)) t else t))"

definition fetchToFd :: "network \<Rightarrow> (http_service \<Rightarrow> http_service) \<Rightarrow> int \<Rightarrow> int \<Rightarrow> string \<Rightarrow> int \<Rightarrow> int \<Rightarrow> bool \<Rightarrow>
    transfer \<Rightarrow> http_service \<Rightarrow> (status \<times> int) \<times> transfer \<times> http_service" where
  "fetchToFd net others now requestId u fd resume0 callback t st =
     (if fd < 0 then ((failure ERROR_WRITE ''no file descriptor to write to'', 0), t\<lparr>tr_events := []\<rparr>, st)
      else
        (let resume = (if resume0 < 0 then 0 else resume0);
             (a, st1) = beginRequest now requestId st;
             st2 = add_active 1 st1;
             (res, t1) = run_transfer net (canceled (heap st1 a)) requestId u resume callback t;
             st3 = endRequest requestId (add_active (-1) (others st2));
             (reply, t2) = transfer_reply requestId callback res t1
         in (reply, t2, st3)))"

text \<open>\<open>runService\<close>: registration failing ends the process with 1, otherwise it serves until killed.\<close>

definition HttpService_runService :: "int \<Rightarrow> int option" where
  "HttpService_runService addService_status = (if addService_status \<noteq> OK then Some 1 else None)"



subsection \<open>The file as a sink\<close>

definition good_write :: "write_result \<Rightarrow> bool" where
  "good_write w = (case w of WriteOk n \<Rightarrow> n > 0 | WriteErr e \<Rightarrow> e = EINTR)"

text \<open>What the file holds up to the offset.\<close>

definition fd_view :: "fd_file \<Rightarrow> bytes" where
  "fd_view f = take (fd_offset f) (pad_to (fd_offset f) (fd_content f))"

lemma fd_view_write: "fd_view (file_write d f) = fd_view f @ d"
  by (simp add: fd_view_def file_write_def write_at_def pad_to_def)

lemma fd_view_errno [simp]: "fd_view (f\<lparr>fd_errno := e\<rparr>) = fd_view f"
  by (simp add: fd_view_def)

lemma length_fd_view [simp]: "length (fd_view f) = fd_offset f"
  by (simp add: fd_view_def pad_to_def)

lemma writeFully_appends: "writeFully ws f d = (True, ws', f') \<Longrightarrow> fd_view f' = fd_view f @ d"
  by (induction ws f d rule: writeFully.induct) (auto simp: fd_view_write split: if_splits)

lemma writeFully_succeeds:
  "list_all good_write ws \<Longrightarrow> \<exists>ws' f'. writeFully ws f d = (True, ws', f') \<and> list_all good_write ws'"
  by (induction ws f d rule: writeFully.induct) (auto simp: good_write_def)

text \<open>Whatever happens, the file beyond the offset is left alone.\<close>

definition tail_kept :: "fd_file \<Rightarrow> fd_file \<Rightarrow> bool" where
  "tail_kept f g \<longleftrightarrow> fd_offset f \<le> fd_offset g \<and>
     drop (fd_offset g) (fd_content g) = drop (fd_offset g) (fd_content f) \<and>
     (fd_offset f \<le> length (fd_content f) \<longrightarrow> fd_offset g \<le> length (fd_content g))"

lemma tail_kept_refl: "tail_kept f f"
  by (simp add: tail_kept_def)

lemma tail_kept_trans:
  assumes "tail_kept f g" and "tail_kept g h"
  shows "tail_kept f h"
proof -
  have "drop (fd_offset h) (fd_content g) = drop (fd_offset h - fd_offset g) (drop (fd_offset g) (fd_content g))"
    using assms(2) by (simp add: tail_kept_def)
  also have "\<dots> = drop (fd_offset h) (fd_content f)" using assms by (simp add: tail_kept_def)
  finally show ?thesis using assms by (auto simp: tail_kept_def)
qed

lemma tail_kept_write: "tail_kept f (file_write d f)"
  by (auto simp: tail_kept_def file_write_def length_write_at write_at_def pad_to_def)

lemma tail_kept_errno: "tail_kept (f\<lparr>fd_errno := e\<rparr>) g = tail_kept f g" "tail_kept f (f\<lparr>fd_errno := e\<rparr>)"
  by (simp_all add: tail_kept_def)

lemma writeFully_tail: "writeFully ws f d = (ok, ws', f') \<Longrightarrow> tail_kept f f'"
proof (induction ws f d rule: writeFully.induct)
  case (3 n ws f c cs)
  then show ?case
    using tail_kept_trans [OF tail_kept_write [where f = f]] by (auto simp: tail_kept_refl split: if_splits)
qed (auto simp: tail_kept_refl tail_kept_write tail_kept_errno split: if_splits)

text \<open>The whole file, from its part up to the offset and what it held before.\<close>

lemma tail_kept_content:
  assumes "tail_kept f g" and "fd_offset f \<le> length (fd_content f)"
  shows "fd_content g = fd_view g @ drop (fd_offset g) (fd_content f)"
  using assms by (simp add: tail_kept_def fd_view_def pad_to_def) (metis append_take_drop_id)


subsection \<open>The body callback\<close>

lemma due_fields [simp]:
  "tr_file (snd (due cb t)) = tr_file t" "tr_writes (snd (due cb t)) = tr_writes t"
  "tr_written (snd (due cb t)) = tr_written t" "tr_total (snd (due cb t)) = tr_total t"
  "tr_events (snd (due cb t)) = tr_events t" "tr_writeError (snd (due cb t)) = tr_writeError t"
  by (simp_all add: due_def)

lemma report_fields [simp]:
  "tr_file (report e t) = tr_file t" "tr_writes (report e t) = tr_writes t"
  "tr_written (report e t) = tr_written t" "tr_total (report e t) = tr_total t"
  "tr_events (report e t) = tr_events t @ [e]" "tr_writeError (report e t) = tr_writeError t"
  by (simp_all add: report_def)

lemma fetch_onBody_fields:
  assumes "writeFully (tr_writes t) (tr_file t) d = (ok, ws, f)"
  shows "fst (fetch_onBody strerror i cb t d) = ok"
    "tr_file (snd (fetch_onBody strerror i cb t d)) = f"
    "tr_writes (snd (fetch_onBody strerror i cb t d)) = ws"
    "tr_written (snd (fetch_onBody strerror i cb t d)) = tr_written t + (if ok then length d else 0)"
    "tr_total (snd (fetch_onBody strerror i cb t d)) = tr_total t"
    "\<exists>es. tr_events (snd (fetch_onBody strerror i cb t d)) = tr_events t @ es \<and>
       set es \<subseteq> {OnBytesReceived i (int (tr_written t + length d)) (tr_total t)} \<and> length es \<le> 1"
  using assms by (auto simp: fetch_onBody_def Let_def case_prod_beta)

text \<open>
  The sink of a transfer, as the pumps see it: its view is the part of the file that this transfer
  wrote last, and it has room as long as the pending writes only stop short or are interrupted.
\<close>

definition tr_view :: "transfer \<Rightarrow> bytes" where
  "tr_view t = fd_view (tr_file t)"

interpretation fdsink: roomy_sink "fetch_onBody strerror i cb" tr_view
    "\<lambda>t n. list_all good_write (tr_writes t)" for strerror i cb
proof (unfold_locales, goal_cases)
  case (1 s d s')
  then show ?case
    by (cases "writeFully (tr_writes s) (tr_file s) d")
      (auto simp: fetch_onBody_def Let_def case_prod_beta tr_view_def writeFully_appends split: if_splits)
next
  case (2 s n d)
  then obtain ws f where w: "writeFully (tr_writes s) (tr_file s) d = (True, ws, f)" "list_all good_write ws"
    using writeFully_succeeds by blast
  show ?case
    using fetch_onBody_fields [OF w(1), of strerror i cb] w(2)
    by (intro exI [of _ "snd (fetch_onBody strerror i cb s d)"]) (simp add: prod_eq_iff)
qed

definition tr_done :: "transfer \<Rightarrow> bytes" where
  "tr_done t = drop (fd_offset (tr_file t) - tr_written t) (tr_view t)"


lemma writeFully_offset: "writeFully ws f d = (True, ws', f') \<Longrightarrow> fd_offset f' = fd_offset f + length d"
  using writeFully_appends [of ws f d ws' f'] by (metis length_append length_fd_view)

interpretation wrote: body_sink "fetch_onBody strerror i cb" tr_done for strerror i cb
proof (unfold_locales, goal_cases)
  case (1 s d s')
  obtain ok ws f where w: "writeFully (tr_writes s) (tr_file s) d = (ok, ws, f)" by (cases "writeFully (tr_writes s) (tr_file s) d") auto
  note fields = fetch_onBody_fields [OF w, of strerror i cb]
  have ok: "ok" using fields(1) 1 by simp
  have "fd_view f = fd_view (tr_file s) @ d" "fd_offset f = fd_offset (tr_file s) + length d"
    using w ok writeFully_appends [of "tr_writes s" "tr_file s" d ws f]
      writeFully_offset [of "tr_writes s" "tr_file s" d ws f] by simp_all
  then show ?case
    using fields 1 ok by (auto simp: tr_done_def tr_view_def)
qed

text \<open>What the callbacks of a transfer keep of its file and of its counters.\<close>

definition counters_ok :: "transfer \<Rightarrow> bool" where
  "counters_ok t \<longleftrightarrow> tr_written t \<le> fd_offset (tr_file t)"

lemma body_counters:
  assumes "counters_ok t"
  shows "counters_ok (snd (fetch_onBody strerror i cb t d))"
proof -
  obtain ok ws f where w: "writeFully (tr_writes t) (tr_file t) d = (ok, ws, f)" by (cases "writeFully (tr_writes t) (tr_file t) d") auto
  have "fd_offset (tr_file t) \<le> fd_offset f" using writeFully_tail [OF w] by (simp add: tail_kept_def)
  moreover have "ok \<Longrightarrow> fd_offset f = fd_offset (tr_file t) + length d" using w writeFully_offset [of "tr_writes t" "tr_file t" d ws f] by simp
  ultimately show ?thesis
    using assms fetch_onBody_fields [OF w, of strerror i cb] by (auto simp: counters_ok_def)
qed

lemma body_tail: "tail_kept (tr_file t) (tr_file (snd (fetch_onBody strerror i cb t d)))"
proof -
  obtain ok ws f where w: "writeFully (tr_writes t) (tr_file t) d = (ok, ws, f)" by (cases "writeFully (tr_writes t) (tr_file t) d") auto
  show ?thesis using writeFully_tail [OF w] fetch_onBody_fields(2) [OF w] by simp
qed

lemma body_calls_tail:
  assumes "(body_call (fetch_onBody strerror i cb))\<^sup>*\<^sup>* s t"
  shows "tail_kept (tr_file s) (tr_file t)"
  using assms
proof (rule body_calls_keep [where I = "\<lambda>t. tail_kept (tr_file s) (tr_file t)"])
  fix u :: transfer and d
  assume "tail_kept (tr_file s) (tr_file u)"
  then show "tail_kept (tr_file s) (tr_file (snd (fetch_onBody strerror i cb u d)))"
    using body_tail by (rule tail_kept_trans)
qed (rule tail_kept_refl)

text \<open>The file when the headers callback has accepted a response.\<close>

definition seek_file :: "int \<Rightarrow> int \<Rightarrow> fd_file \<Rightarrow> fd_file" where
  "seek_file resume start f =
     f\<lparr>fd_offset := nat start, fd_content := (if start = 0 \<and> resume > 0 then [] else fd_content f)\<rparr>"

lemma headers_accepted:
  assumes "fetch_onHeaders strerror i resume cb t info = (True, t1)"
  shows "0 \<le> startOffset info" "tr_file t1 = seek_file resume (startOffset info) (tr_file t)"
    "tr_total t1 = totalBytes info" "tr_written t1 = tr_written t" "tr_writes t1 = tr_writes t"
    "tr_events t1 = tr_events t @ (if cb then [OnResponseStart i (statusCode info) (startOffset info)
       (totalBytes info) (contentType info)] else [])"
  using assms
  by (auto simp: fetch_onHeaders_def lseek_error_def Let_def seek_file_def split: option.splits if_splits)

lemma headers_accepts:
  assumes "0 \<le> startOffset info" and "tr_seek_error t = None" and "tr_truncate_error t = None"
  shows "\<exists>t1. fetch_onHeaders strerror i resume cb t info = (True, t1)"
  using assms by (auto simp: fetch_onHeaders_def lseek_error_def Let_def)

lemma headers_refused:
  assumes "fetch_onHeaders strerror i resume cb t info = (False, t1)"
  shows "fd_content (tr_file t1) = fd_content (tr_file t)" "tr_events t1 = tr_events t" "tr_written t1 = tr_written t"
  using assms
  by (auto simp: fetch_onHeaders_def Let_def split: option.splits if_splits)

lemma new_transfer_fields [simp]:
  "tr_file (new_transfer t) = tr_file t" "tr_writes (new_transfer t) = tr_writes t"
  "tr_written (new_transfer t) = 0" "tr_events (new_transfer t) = []" "tr_total (new_transfer t) = -1"
  "tr_seek_error (new_transfer t) = tr_seek_error t" "tr_truncate_error (new_transfer t) = tr_truncate_error t"
  "tr_writeError (new_transfer t) = ''''"
  by (simp_all add: new_transfer_def)


subsection \<open>Successful transfers\<close>

text \<open>
  A transfer that succeeded: the response was accepted, what it delivered was written from its start
  offset on, and the count returned is the number of these bytes.
\<close>

lemma run_transfer_ok:
  assumes "run_transfer net flag i u resume cb t = (res, t1)" and "res_error res = kOk"
  shows "\<exists>s1 ds. fetch_onHeaders (net_strerror net) i resume cb (new_transfer t) (res_response res) = (True, s1) \<and>
    (body_call (fetch_onBody (net_strerror net) i cb))\<^sup>*\<^sup>* s1 t1 \<and>
    fd_view (tr_file t1) = fd_view (tr_file s1) @ ds \<and> tr_written t1 = length ds \<and> res_bytes res = int (length ds)"
proof -
  let ?f = "fetch_onHeaders (net_strerror net) i resume cb" and ?b = "fetch_onBody (net_strerror net) i cb"
  have g: "get (flagged flag net) True (new_request u resume) (Some ?f) ?b (new_transfer t) = (res, t1)"
    using assms(1) by (simp add: run_transfer_def)
  obtain s1 ds where s1: "?f (new_transfer t) (res_response res) = (True, s1)"
    and b: "(body_call ?b)\<^sup>*\<^sup>* s1 t1"
    and v: "tr_view t1 = tr_view s1 @ ds" and n: "res_bytes res = int (length ds)"
    using fdsink.get_delivered [OF g assms(2)] by (auto simp: delivered_def)
  obtain ds' where "tr_done t1 = tr_done s1 @ ds'" and n': "res_bytes res = int (length ds')"
    using wrote.get_delivered [OF g assms(2)] s1 by (auto simp: delivered_def)
  moreover have "tr_done s1 = []" using headers_accepted [OF s1] by (simp add: tr_done_def tr_view_def)
  moreover have "counters_ok t1"
    using headers_accepted [OF s1]
    by (intro body_calls_keep [OF b, where I = counters_ok]) (simp add: counters_ok_def, rule body_counters)
  ultimately have "tr_written t1 = length ds"
    using n by (auto simp: tr_done_def tr_view_def counters_ok_def)
  then show ?thesis using v n s1 b by (auto simp: tr_view_def)
qed

lemma run_transfer_file:
  assumes "run_transfer net flag i u resume cb t = (res, t1)" and "res_error res = kOk"
    and "nat (startOffset (res_response res)) \<le> length (fd_content (tr_file t))"
  shows "\<exists>ds. tr_written t1 = length ds \<and> 0 \<le> startOffset (res_response res) \<and>
    fd_content (tr_file t1) = write_at (nat (startOffset (res_response res))) ds
      (fd_content (seek_file resume (startOffset (res_response res)) (tr_file t)))"
proof -
  obtain s1 ds where s1: "fetch_onHeaders (net_strerror net) i resume cb (new_transfer t) (res_response res) = (True, s1)"
    and b: "(body_call (fetch_onBody (net_strerror net) i cb))\<^sup>*\<^sup>* s1 t1"
    and v: "fd_view (tr_file t1) = fd_view (tr_file s1) @ ds" and n: "tr_written t1 = length ds"
    using run_transfer_ok [OF assms(1,2)] by blast
  let ?g = "seek_file resume (startOffset (res_response res)) (tr_file t)"
  have g: "tr_file s1 = ?g" "0 \<le> startOffset (res_response res)" using headers_accepted [OF s1] by simp_all
  have le: "fd_offset ?g \<le> length (fd_content ?g)" using assms(3) by (auto simp: seek_file_def)
  have "fd_content (tr_file t1) = fd_view (tr_file t1) @ drop (fd_offset (tr_file t1)) (fd_content ?g)"
    using tail_kept_content [OF body_calls_tail [OF b]] le by (simp add: g)
  moreover have "fd_offset (tr_file t1) = nat (startOffset (res_response res)) + length ds"
    using v length_fd_view [of "tr_file t1"] by (simp add: g seek_file_def)
  ultimately show ?thesis
    using v n g by (intro exI [of _ ds]) (simp add: write_at_def fd_view_def seek_file_def)
qed

text \<open>Every reply of \<open>fetchToFd\<close> is the reply to its transfer.\<close>

lemma fetchToFd_transfer:
  assumes "0 \<le> fd"
  shows "fetchToFd net others now i u fd resume0 cb t st =
    (let (a, st1) = beginRequest now i st;
         (res, t1) = run_transfer net (canceled (heap st1 a)) i u (max 0 resume0) cb t;
         (reply, t2) = transfer_reply i cb res t1
     in (reply, t2, endRequest i (add_active (-1) (others (add_active 1 st1)))))"
  using assms by (simp add: fetchToFd_def Let_def max_def case_prod_beta)

lemma transfer_reply_ok:
  "isOk (fst (fst (transfer_reply i cb res t))) \<longleftrightarrow> res_error res = kOk"
  by (simp add: transfer_reply_def failure_def isOk_def status_ok_def fromServiceSpecificError_def Let_def)

lemma transfer_reply_file [simp]: "tr_file (snd (transfer_reply i cb res t)) = tr_file t"
  by (simp add: transfer_reply_def Let_def)

lemma flagged_False [simp]: "flagged False net = net"
  by (simp add: flagged_def)

text \<open>A request that is already cancelled when its transfer begins.\<close>

lemma run_transfer_canceled:
  assumes "parseUrl u = Some ur"
  shows "run_transfer net True i u resume cb t =
    (new_result\<lparr>res_error := kErrorCanceled, res_message := ''canceled''\<rparr>, new_transfer t)"
  using assms
  by (simp add: run_transfer_def get_def new_request_def flagged_def numeral_eq_Suc Let_def)

lemma beginRequest_known:
  assumes "mRequests st i = Some a"
  shows "beginRequest now i st = (a, store_running a st)"
  using assms by (simp add: beginRequest_def)

lemma canceled_known:
  "\<exists>a. mRequests (snd (HttpService_cancel now i st)) i = Some a \<and> canceled (heap (snd (HttpService_cancel now i st)) a)"
  by (auto simp: HttpService_cancel_def store_canceled_def emplace_request_def sweep_def split: option.splits)


text \<open>
  A final response with a length, delivered by a network that is not cancelled, to a file whose
  writes only stop short or are interrupted.
\<close>

definition good_sink :: "transfer \<Rightarrow> bool" where
  "good_sink t \<longleftrightarrow> list_all good_write (tr_writes t) \<and> tr_seek_error t = None \<and> tr_truncate_error t = None"

lemma run_transfer_body:
  assumes "parseUrl u = Some ur"
    and "answers (net_strerror net) (net_exchange net 0 ur (request_head ur (new_request u resume))) True ur
           (new_request u resume) (sl @ crlf @ render_headers hs @ body @ rest)"
    and "\<not> net_canceled net 0"
    and "status_line_ok sl code rsn" and "\<not> is_redirect code" and "code < 400"
    and "head_ok hs" and "contentLength (stored hs) = int (length body)"
    and "\<not> headers_contains (stored hs) ''Transfer-Encoding'' ''chunked''"
    and "body_extent (new_request u resume) (stored hs) code = (start, tot)" and "0 \<le> start"
    and "good_sink t"
  shows "\<exists>res t1. run_transfer net False i u resume cb t = (res, t1) \<and> res_error res = kOk \<and>
    startOffset (res_response res) = start \<and> res_bytes res = int (length body)
    \<and> fd_view (tr_file t1) = fd_view (seek_file resume start (tr_file t)) @ body"
proof -
  let ?req = "new_request u resume" and ?f = "fetch_onHeaders (net_strerror net) i resume cb"
    and ?b = "fetch_onBody (net_strerror net) i cb"
  let ?info = "new_response\<lparr>statusCode := code, reason := rsn\<rparr>"
  let ?final = "final_info ur ?req (stored hs) ?info"
  obtain r where r: "quiet r" "stream r = body @ rest"
    and po: "performOnce (net_strerror net) (net_exchange net 0 ur (request_head ur ?req)) True ur ?req (Some ?f) ?b
        (new_transfer t) = respond ur ?req (Some ?f) ?b (stored hs) ?info r (new_transfer t)"
    using performOnce_answers [OF assms(2,4,7), of "Some ?f" ?b "new_transfer t"] by (elim exE conjE)
  have fi: "startOffset ?final = start" using assms(10) by (simp add: final_info_def)
  obtain s1 where s1: "?f (new_transfer t) ?final = (True, s1)"
    using headers_accepts [of ?final "new_transfer t" "net_strerror net" i resume cb] fi assms(11,12) by (auto simp: good_sink_def)
  have fits: "list_all good_write (tr_writes s1)"
    using headers_accepted(5) [OF s1] assms(12) by (simp add: good_sink_def)
  have nr: "\<not> is_redirect (statusCode ?info)" "statusCode ?info < 400" using assms(5,6) by simp_all
  have rh: "run_headers (Some ?f) (new_transfer t) ?final = (True, s1)" using s1 by (simp add: run_headers_def)
  obtain t1 where re: "respond ur ?req (Some ?f) ?b (stored hs) ?info r (new_transfer t) =
      (\<lparr>att_result = \<lparr>res_error = kOk, res_message = '''', res_response = ?final,
         res_bytes = int (length body)\<rparr>, redirectTo = ''''\<rparr>, t1)"
    and v: "tr_view t1 = tr_view s1 @ body"
    using fdsink.respond_length [OF nr rh assms(9,8) r fits, of "net_strerror net" i cb] by (elim exE conjE)
  have "get net True ?req (Some ?f) ?b (new_transfer t) =
      (\<lparr>res_error = kOk, res_message = '''', res_response = ?final, res_bytes = int (length body)\<rparr>, t1)"
    using get_first_hop [OF _ _ _ po [unfolded re]] assms(1,3) by (simp add: new_request_def)
  then show ?thesis
    using v fi headers_accepted(2) [OF s1] by (simp add: run_transfer_def tr_view_def)
qed

lemma fetchToFd_body:
  assumes "parseUrl u = Some ur" and "0 \<le> fd" and "0 \<le> resume" and "mRequests st i = None"
    and "answers (net_strerror net) (net_exchange net 0 ur (request_head ur (new_request u resume))) True ur
           (new_request u resume) (sl @ crlf @ render_headers hs @ body @ rest)"
    and "\<not> net_canceled net 0"
    and "status_line_ok sl code rsn" and "\<not> is_redirect code" and "code < 400"
    and "head_ok hs" and "contentLength (stored hs) = int (length body)"
    and "\<not> headers_contains (stored hs) ''Transfer-Encoding'' ''chunked''"
    and "body_extent (new_request u resume) (stored hs) code = (start, tot)" and "0 \<le> start"
    and "nat start \<le> length (fd_content (tr_file t))" and "good_sink t"
  shows "\<exists>t' st'. fetchToFd net others now i u fd resume cb t st = ((status_ok, int (length body)), t', st') \<and>
    fd_content (tr_file t') = write_at (nat start) body (if start = 0 \<and> resume > 0 then [] else fd_content (tr_file t)) \<and>
    mRequests st' i = None"
proof -
  obtain res t1 where r: "run_transfer net False i u resume cb t = (res, t1)" and ok: "res_error res = kOk"
    and so: "startOffset (res_response res) = start" and n: "res_bytes res = int (length body)"
    and v: "fd_view (tr_file t1) = fd_view (seek_file resume start (tr_file t)) @ body"
    using run_transfer_body [OF assms(1,5-14,16), of i cb] by (elim exE conjE)
  obtain ds where w: "tr_written t1 = length ds"
    and c: "fd_content (tr_file t1) = write_at (nat start) ds (fd_content (seek_file resume start (tr_file t)))"
    using run_transfer_file [OF r ok] so assms(15) by auto
  have "tr_written t1 = length body" using run_transfer_ok [OF r ok] n by auto
  then have len: "length ds = length body" using w by simp
  have "fd_offset (tr_file t1) = nat start + length body"
    using v length_fd_view [of "tr_file t1"] by (simp add: seek_file_def)
  then have "take (nat start + length body) (fd_content (tr_file t1)) = fd_view (tr_file t1)"
    using c len by (simp add: fd_view_def pad_to_def length_write_at)
  then have "ds = body"
    using v c len assms(15) by (auto simp: write_at_def fd_view_def pad_to_def seek_file_def split: if_splits)
  then show ?thesis
    unfolding fetchToFd_transfer [OF assms(2)] beginRequest_def assms(4)
    using r ok w c assms(3)
    by (simp add: store_running_def emplace_request_def transfer_reply_def seek_file_def endRequest_def)
qed


text \<open>
  The reports of one transfer: at most one \<open>onResponseStart\<close>, first, then byte counts that never
  decrease and end at \<open>hi\<close> or below.
\<close>

fun counts_ok :: "int \<Rightarrow> int \<Rightarrow> int \<Rightarrow> int \<Rightarrow> http_event list \<Rightarrow> bool" where
  "counts_ok i tot lo hi [] \<longleftrightarrow> lo \<le> hi"
| "counts_ok i tot lo hi (OnBytesReceived j n tot' # es) \<longleftrightarrow>
     j = i \<and> tot' = tot \<and> lo \<le> n \<and> counts_ok i tot n hi es"
| "counts_ok i tot lo hi (OnResponseStart j c start tot' ty # es) \<longleftrightarrow> False"

definition reports_ok :: "int \<Rightarrow> int \<Rightarrow> int \<Rightarrow> http_event list \<Rightarrow> bool" where
  "reports_ok i tot hi es =
     (case es of
        OnResponseStart j c start tot' ty # rest \<Rightarrow> j = i \<and> tot' = tot \<and> counts_ok i tot 0 hi rest
      | _ \<Rightarrow> False)"

lemma counts_ok_snoc:
  "counts_ok i tot lo hi es \<Longrightarrow> hi \<le> n \<Longrightarrow> counts_ok i tot lo n (es @ [OnBytesReceived i n tot])"
  by (induction es arbitrary: lo rule: list.induct) (auto elim: counts_ok.elims)

lemma counts_ok_mono: "counts_ok i tot lo hi es \<Longrightarrow> hi \<le> n \<Longrightarrow> counts_ok i tot lo n es"
  by (induction i tot lo hi es rule: counts_ok.induct) auto

lemma reports_ok_snoc:
  "reports_ok i tot hi es \<Longrightarrow> hi \<le> n \<Longrightarrow> reports_ok i tot n (es @ [OnBytesReceived i n tot])"
  by (auto simp: reports_ok_def counts_ok_snoc split: list.splits http_event.splits)

lemma reports_ok_mono: "reports_ok i tot hi es \<Longrightarrow> hi \<le> n \<Longrightarrow> reports_ok i tot n es"
  by (auto simp: reports_ok_def counts_ok_mono split: list.splits http_event.splits)

lemma body_reports:
  assumes "reports_ok i (tr_total t) (int (tr_written t)) (tr_events t)"
  shows "reports_ok i (tr_total (snd (fetch_onBody strerror i cb t d)))
           (int (tr_written (snd (fetch_onBody strerror i cb t d)))) (tr_events (snd (fetch_onBody strerror i cb t d)))"
proof (cases "fst (writeFully (tr_writes t) (tr_file t) d)")
  case True
  have "reports_ok i (tr_total t) (int (tr_written t + length d))
      (tr_events t @ [OnBytesReceived i (int (tr_written t + length d)) (tr_total t)])"
    and "reports_ok i (tr_total t) (int (tr_written t + length d)) (tr_events t)"
    by (rule reports_ok_snoc [OF assms] reports_ok_mono [OF assms]; simp)+
  with True show ?thesis by (simp add: fetch_onBody_def Let_def case_prod_beta)
next
  case False
  with assms show ?thesis by (simp add: fetch_onBody_def Let_def case_prod_beta)
qed

lemma run_transfer_reports:
  assumes "run_transfer net flag i u resume True t = (res, t1)"
  shows "tr_events t1 = [] \<and> res_error res \<noteq> kOk \<or> reports_ok i (tr_total t1) (int (tr_written t1)) (tr_events t1)"
proof -
  let ?f = "fetch_onHeaders (net_strerror net) i resume True" and ?b = "fetch_onBody (net_strerror net) i True"
  have after_headers: ?thesis if "?f (new_transfer t) info = (True, s1)" and "(body_call ?b)\<^sup>*\<^sup>* s1 t1" for info s1
  proof -
    have "reports_ok i (tr_total t1) (int (tr_written t1)) (tr_events t1)"
      using that(2)
      by (rule body_calls_keep [where I = "\<lambda>t. reports_ok i (tr_total t) (int (tr_written t)) (tr_events t)"])
        (simp add: headers_accepted [OF that(1)] reports_ok_def, rule body_reports)
    then show ?thesis by simp
  qed
  show ?thesis
  proof (cases "res_error res = kOk")
    case True
    then show ?thesis using run_transfer_ok [OF assms] after_headers by blast
  next
    case False
    have "called ?f ?b (new_transfer t) t1"
      using get_called [of ?f ?b "new_transfer t" "flagged flag net" True "new_request u resume"] assms
      by (simp add: run_transfer_def)
    then show ?thesis
    proof (cases rule: called_cases)
      case (refused info)
      then show ?thesis using False headers_refused(2) [OF refused] by simp
    next
      case (accepted info s1)
      then show ?thesis using after_headers by blast
    qed (simp add: False)
  qed
qed


subsection \<open>Properties of transfers\<close>


text \<open>
  A request cancelled before its transfer begins is dead on arrival: \<open>fetchToFd\<close> fails with
  \<open>ERROR_CANCELED\<close>, writes nothing to the file, reports nothing, and forgets the request.
\<close>

theorem fetchToFd_dead_on_arrival:
  assumes "parseUrl u = Some ur" and "0 \<le> fd"
  shows "\<exists>t' st'. fetchToFd net others now i u fd resume0 cb t (snd (HttpService_cancel clk i st)) =
      ((failure (error_code kErrorCanceled) ''canceled'', 0), t', st') \<and>
    tr_file t' = tr_file t \<and> tr_events t' = [] \<and> mRequests st' i = None"
proof -
  let ?st = "snd (HttpService_cancel clk i st)"
  obtain a where a: "mRequests ?st i = Some a" "canceled (heap ?st a)" using canceled_known by blast
  have "canceled (heap (store_running a ?st) a)" using a(2) by (simp add: store_running_def)
  then show ?thesis
    unfolding fetchToFd_transfer [OF assms(2)] beginRequest_known [OF a(1)]
    by (simp add: run_transfer_canceled [OF assms(1)] transfer_reply_def endRequest_def)
qed

text \<open>
  Progress reports of a transfer: nothing before the one \<open>onResponseStart\<close>, then byte counts that
  never decrease, all with the same total; a successful call ends with the count it returns.
\<close>

theorem fetchToFd_reports:
  assumes "fetchToFd net others now i u fd resume0 True t st = ((stat, n), t', st')"
  shows "(tr_events t' = [] \<and> \<not> isOk stat) \<or>
    (\<exists>tot hi. reports_ok i tot hi (tr_events t') \<and>
       (isOk stat \<longrightarrow> hi = n \<and> last (tr_events t') = OnBytesReceived i n tot))"
proof (cases "0 \<le> fd")
  case True
  obtain a st1 where b: "beginRequest now i st = (a, st1)" by fastforce
  obtain res t1 where r: "run_transfer net (canceled (heap st1 a)) i u (max 0 resume0) True t = (res, t1)" by fastforce
  have e: "transfer_reply i True res t1 = ((stat, n), t')"
    using assms(1) unfolding fetchToFd_transfer [OF True] by (simp add: b r case_prod_beta prod_eq_iff)
  have ok: "isOk stat \<longleftrightarrow> res_error res = kOk" using transfer_reply_ok [of i True res t1] e by simp
  show ?thesis
    using run_transfer_reports [OF r] e ok
      reports_ok_snoc [of i "tr_total t1" "int (tr_written t1)" "tr_events t1" "int (tr_written t1)"]
    by (cases "res_error res = kOk") (auto simp: transfer_reply_def Let_def)
next
  case False
  then show ?thesis
    using assms by (auto simp: fetchToFd_def failure_def isOk_def fromServiceSpecificError_def)
qed


subsection \<open>A resumed transfer, end to end\<close>

text \<open>
  C32. A final response with a length, in whatever packets it arrives and however the file system cuts
  up the writes, is written whole at the offset the response belongs at: \<open>fetchToFd\<close> succeeds with its
  length. A file that was to be resumed is emptied first when the server starts over.
\<close>

theorem fetchToFd_writes_body:
  assumes "parseUrl u = Some ur" and "0 \<le> fd" and "0 \<le> resume" and "mRequests st i = None"
    and "answers (net_strerror net) (net_exchange net 0 ur (request_head ur (new_request u resume))) True ur
           (new_request u resume) (sl @ crlf @ render_headers hs @ body @ rest)"
    and "\<not> net_canceled net 0"
    and "status_line_ok sl code rsn" and "\<not> is_redirect code" and "code < 400"
    and "head_ok hs" and "contentLength (stored hs) = int (length body)"
    and "\<not> headers_contains (stored hs) ''Transfer-Encoding'' ''chunked''"
    and "body_extent (new_request u resume) (stored hs) code = (start, tot)" and "0 \<le> start"
    and "nat start \<le> length (fd_content (tr_file t))" and "good_sink t"
  shows "\<exists>t' st'. fetchToFd net others now i u fd resume cb t st = ((status_ok, int (length body)), t', st') \<and>
    fd_content (tr_file t') = write_at (nat start) body (if start = 0 \<and> resume > 0 then [] else fd_content (tr_file t)) \<and>
    mRequests st' i = None"
  using assms by (rule fetchToFd_body)

definition sample_packets :: "bytes list" where
  "sample_packets = [''HTTP/1.1 206 Partial '', ''Content'' @ crlf @ ''Content-Range: bytes 3-4/5'' @ crlf,
     ''Content-Length: 2'' @ crlf, crlf @ ''l'', ''o!'']"

definition sample_headers :: "(string \<times> string) list" where
  "sample_headers = [(''Content-Range'', ''bytes 3-4/5''), (''Content-Length'', ''2'')]"

definition sample_transfer :: transfer where
  "sample_transfer = \<lparr>tr_file = \<lparr>fd_content = ''hel'', fd_offset = 0, fd_errno = 0\<rparr>,
     tr_writes = [WriteErr EINTR, WriteOk 1], tr_seek_error = None, tr_truncate_error = None,
     tr_clock = (\<lambda>n. 100000000 * int n), tr_ticks = 0, tr_total = 0, tr_written = 0, tr_reportedAt = 0,
     tr_lastReport = 0, tr_writeError = '''', tr_events = []\<rparr>"

lemma sample_url: "parseUrl ''http://h/x'' = Some \<lparr>scheme = ''http'', host = ''h'', port = ''80'', target = ''/x''\<rparr>"
  by code_simp

lemma sample_answers:
  assumes "scheme ur = ''http''"
  shows "answers (net_strerror (packets_net (\<lambda>_. sample_packets)))
     (net_exchange (packets_net (\<lambda>_. sample_packets)) 0 ur q) True ur req
     (''HTTP/1.1 206 Partial Content'' @ crlf @ render_headers sample_headers @ ''lo'' @ ''!'')"
proof -
  have "''HTTP/1.1 206 Partial Content'' @ crlf @ render_headers sample_headers @ ''lo'' @ ''!'' = concat sample_packets"
    by (simp add: render_headers_def render_header_def crlf_def sample_packets_def sample_headers_def)
  then show ?thesis
    using packets_exchange_answers [of ur sample_packets "\<lambda>_. ''''" True req] assms
    by (simp add: packets_net_def sample_packets_def crlf_def)
qed

lemma sample_head:
  "status_line_ok ''HTTP/1.1 206 Partial Content'' 206 ''Partial Content''" "head_ok sample_headers"
  "contentLength (stored sample_headers) = int (length ''lo'')"
  "\<not> headers_contains (stored sample_headers) ''Transfer-Encoding'' ''chunked''"
  "body_extent (new_request u 3) (stored sample_headers) 206 = (3, 5)"
proof -
  have p: "parseStatusLine ''HTTP/1.1 206 Partial Content'' = (True, 206, ''Partial Content'')" by code_simp
  then show "status_line_ok ''HTTP/1.1 206 Partial Content'' 206 ''Partial Content''"
    by (simp add: status_line_ok_def kMaxLineLength_def lf_def)
  show "head_ok sample_headers"
    by (simp add: head_ok_def header_ok_def kMaxHeaderCount_def lf_def sample_headers_def) code_simp
  show "contentLength (stored sample_headers) = int (length ''lo'')" by code_simp
  show "\<not> headers_contains (stored sample_headers) ''Transfer-Encoding'' ''chunked''" by code_simp
  have "parseContentRange (headers_get (stored sample_headers) ''Content-Range'') = Some (3, 5)" by code_simp
  then show "body_extent (new_request u 3) (stored sample_headers) 206 = (3, 5)" by (simp add: body_extent_def)
qed

lemma sample_sink: "good_sink sample_transfer"
  by (simp add: good_sink_def sample_transfer_def good_write_def)

lemmas sample_facts = sample_answers sample_head sample_sink

lemma sample_side:
  "0 \<le> (7::int)" "0 \<le> (3::int)" "mRequests HttpService_init 1 = None"
  "\<not> net_canceled (packets_net ps) 0" "\<not> is_redirect 206" "206 < (400::int)"
  "nat 3 \<le> length (fd_content (tr_file sample_transfer))"
  "fd_content (tr_file sample_transfer) = ''hel''"
  by (simp_all add: HttpService_init_def packets_net_def is_redirect_def sample_transfer_def)

definition sample_fetch :: "(status \<times> int) \<times> transfer \<times> http_service" where
  "sample_fetch = fetchToFd (packets_net (\<lambda>_. sample_packets)) id 0 1 ''http://h/x'' 7 3 True sample_transfer HttpService_init"

theorem fetchToFd_writes_body_witness:
  "\<exists>t' st'. fetchToFd (packets_net (\<lambda>_. sample_packets)) id 0 1 ''http://h/x'' 7 3 True sample_transfer HttpService_init =
     ((status_ok, 2), t', st') \<and> fd_content (tr_file t') = ''hello'' \<and> mRequests st' 1 = None"
  using fetchToFd_writes_body [OF sample_url sample_side(1-3) sample_answers sample_side(4) sample_head(1)
      sample_side(5,6) sample_head(2-5) sample_side(2,7) sample_sink, of id 0 True]
  by (simp add: sample_side write_at_def pad_to_def)

lemma sample_fetch_ok:
  "\<exists>t' st'. sample_fetch = ((status_ok, 2), t', st')"
  using fetchToFd_body [OF sample_url sample_side(1-3) sample_answers sample_side(4) sample_head(1)
      sample_side(5,6) sample_head(2-5) sample_side(2,7) sample_sink, of id 0 True]
  by (auto simp: sample_fetch_def)


theorem fetchToFd_dead_on_arrival_witness:
  "\<exists>t' st'. fetchToFd (packets_net (\<lambda>_. sample_packets)) id 0 1 ''http://h/x'' 7 3 True sample_transfer
      (snd (HttpService_cancel (\<lambda>_. 0) 1 HttpService_init)) =
      ((failure (error_code kErrorCanceled) ''canceled'', 0), t', st') \<and>
    tr_file t' = tr_file sample_transfer \<and> tr_events t' = [] \<and> mRequests st' 1 = None"
  by (rule fetchToFd_dead_on_arrival [OF sample_url]) simp

theorem fetchToFd_reports_witness:
  "\<exists>tot hi. reports_ok 1 tot hi (tr_events (fst (snd sample_fetch))) \<and>
     hi = 2 \<and> last (tr_events (fst (snd sample_fetch))) = OnBytesReceived 1 2 tot"
proof -
  obtain t' st' where e: "sample_fetch = ((status_ok, 2), t', st')" using sample_fetch_ok by blast
  show ?thesis
    using fetchToFd_reports [OF e [unfolded sample_fetch_def]] unfolding e fst_conv snd_conv
    by simp
qed

end
