(* ===== verification/Http_Requests.thy ===== *)
theory Http_Requests
  imports Http_Service
begin

text \<open>
  The request table of \<open>http.service\<close> under interleaving: the binder threads that run \<open>fetchToFd\<close>
  and \<open>getString\<close>, the callers of \<open>newRequestId\<close> and \<open>cancel\<close>, and the clock. Each step is one
  critical section or one atomic access of \<open>service/http/HttpService.cpp\<close>.
\<close>

subsection \<open>Threads and steps\<close>

datatype phase = Begun | Active | Drained

text \<open>A binder thread inside \<open>fetchToFd\<close> (its id, its request object, how far it is), or inside \<open>getString\<close>.\<close>

datatype thread = Fetching int nat phase | GettingString phase

record world =
  svc :: http_service
  threads :: "nat \<Rightarrow> thread option"
  clock :: int

datatype action =
    ANewId | ABegin nat int | AActivate nat | ADeactivate nat | AEnd nat
  | AString nat | AStringEnd nat | ACancel int | ATick

definition serves :: "thread \<Rightarrow> int \<Rightarrow> bool" where
  "serves th i \<longleftrightarrow> (\<exists>a ph. th = Fetching i a ph)"

definition is_active :: "thread \<Rightarrow> bool" where
  "is_active th = (case th of Fetching _ _ ph \<Rightarrow> ph = Active | GettingString ph \<Rightarrow> ph = Active)"

fun set_phase :: "phase \<Rightarrow> thread \<Rightarrow> thread" where
  "set_phase ph (Fetching i a _) = Fetching i a ph"
| "set_phase ph (GettingString _) = GettingString ph"

fun phase_of :: "thread \<Rightarrow> phase" where
  "phase_of (Fetching i a ph) = ph"
| "phase_of (GettingString ph) = ph"

definition idle_world :: "int \<Rightarrow> world" where
  "idle_world now = \<lparr>svc = HttpService_init, threads = (\<lambda>_. None), clock = now\<rparr>"

text \<open>
  A transfer is begun under an id that no running transfer uses, as the ids of \<open>newRequestId\<close> give it.
  The clock readings of a step lie between the clock before and the clock after it.
\<close>

inductive http_step :: "world \<Rightarrow> action \<Rightarrow> world \<Rightarrow> bool" where
  new_id: "newRequestId (svc w) = (i, st, s') \<Longrightarrow> http_step w ANewId (w\<lparr>svc := s'\<rparr>)"
| begin_fetch: "threads w tid = None \<Longrightarrow> (\<And>th k. threads w k = Some th \<Longrightarrow> \<not> serves th i) \<Longrightarrow>
    clock w \<le> now \<Longrightarrow> beginRequest now i (svc w) = (a, s') \<Longrightarrow>
    http_step w (ABegin tid i) (w\<lparr>svc := s', threads := (threads w)(tid \<mapsto> Fetching i a Begun), clock := now\<rparr>)"
| activate: "threads w tid = Some th \<Longrightarrow> phase_of th = Begun \<Longrightarrow>
    http_step w (AActivate tid)
      (w\<lparr>svc := add_active 1 (svc w), threads := (threads w)(tid \<mapsto> set_phase Active th)\<rparr>)"
| deactivate: "threads w tid = Some th \<Longrightarrow> phase_of th = Active \<Longrightarrow>
    http_step w (ADeactivate tid)
      (w\<lparr>svc := add_active (-1) (svc w), threads := (threads w)(tid \<mapsto> set_phase Drained th)\<rparr>)"
| end_fetch: "threads w tid = Some (Fetching i a Drained) \<Longrightarrow>
    http_step w (AEnd tid) (w\<lparr>svc := endRequest i (svc w), threads := (threads w)(tid := None)\<rparr>)"
| begin_string: "threads w tid = None \<Longrightarrow>
    http_step w (AString tid) (w\<lparr>threads := (threads w)(tid \<mapsto> GettingString Begun)\<rparr>)"
| end_string: "threads w tid = Some (GettingString Drained) \<Longrightarrow>
    http_step w (AStringEnd tid) (w\<lparr>threads := (threads w)(tid := None)\<rparr>)"
| cancel: "(\<And>k. clock w \<le> now k \<and> now k \<le> c) \<Longrightarrow> HttpService_cancel now i (svc w) = (st, s') \<Longrightarrow>
    http_step w (ACancel i) (w\<lparr>svc := s', clock := c\<rparr>)"
| tick: "clock w \<le> c \<Longrightarrow> http_step w ATick (w\<lparr>clock := c\<rparr>)"

inductive http_run :: "world \<Rightarrow> action list \<Rightarrow> world \<Rightarrow> bool" where
  stop: "http_run w [] w"
| more: "http_step w act w1 \<Longrightarrow> http_run w1 acts w' \<Longrightarrow> http_run w (act # acts) w'"

inductive_cases http_runE: "http_run w (act # acts) w'"

definition reachable :: "world \<Rightarrow> bool" where
  "reachable w \<longleftrightarrow> (\<exists>now acts. http_run (idle_world now) acts w)"


subsection \<open>The table\<close>

text \<open>
  Every entry points to an allocated request, no request is shared by two ids, and every running
  transfer finds its own request in the table, marked running.
\<close>

fun owned :: "http_service \<Rightarrow> thread \<Rightarrow> bool" where
  "owned s (Fetching i a ph) \<longleftrightarrow> mRequests s i = Some a \<and> running (heap s a)"
| "owned s (GettingString ph) \<longleftrightarrow> True"

definition entries_ok :: "http_service \<Rightarrow> bool" where
  "entries_ok s \<longleftrightarrow> (\<forall>i a. mRequests s i = Some a \<longrightarrow> a < next_addr s) \<and>
     (\<forall>i j a. mRequests s i = Some a \<longrightarrow> mRequests s j = Some a \<longrightarrow> i = j)"

definition table_ok :: "world \<Rightarrow> bool" where
  "table_ok w \<longleftrightarrow> entries_ok (svc w) \<and>
     (\<forall>tid th. threads w tid = Some th \<longrightarrow> owned (svc w) th) \<and>
     (\<forall>tid tid' th th' i. threads w tid = Some th \<longrightarrow> threads w tid' = Some th' \<longrightarrow>
        serves th i \<longrightarrow> serves th' i \<longrightarrow> tid = tid')"

lemma set_phase_simps [simp]:
  "owned s (set_phase ph th) = owned s th" "serves (set_phase ph th) i = serves th i"
  "is_active (set_phase ph th) \<longleftrightarrow> ph = Active"
  by (cases th; simp add: serves_def is_active_def)+

lemma serves_simps [simp]: "serves (Fetching j a ph) i \<longleftrightarrow> j = i" "\<not> serves (GettingString ph) i"
  by (auto simp: serves_def)

lemmas service_defs = newRequestId_def beginRequest_def endRequest_def add_active_def store_running_def
  store_canceled_def emplace_request_def sweep_def stale_def HttpService_cancel_def

lemma entries_ok_init: "entries_ok HttpService_init"
  by (simp add: entries_ok_def HttpService_init_def)

lemma entries_ok_emplace:
  "entries_ok s \<Longrightarrow> mRequests s i = None \<Longrightarrow> entries_ok (emplace_request now i s)"
  by (auto simp: entries_ok_def emplace_request_def less_Suc_eq split: if_splits)

lemma entries_ok_simps [simp]:
  "entries_ok (store_running a s) = entries_ok s" "entries_ok (store_canceled a s) = entries_ok s"
  "entries_ok (add_active d s) = entries_ok s" "entries_ok (s\<lparr>mNextId := n\<rparr>) = entries_ok s"
  by (simp_all add: entries_ok_def store_running_def store_canceled_def add_active_def)

lemma entries_ok_shrink:
  "entries_ok s \<Longrightarrow> entries_ok (endRequest i s)" "entries_ok s \<Longrightarrow> entries_ok (sweep now s)"
  by (auto simp: entries_ok_def endRequest_def sweep_def split: option.splits if_splits)

lemma owned_simps [simp]:
  "owned (store_canceled a s) th = owned s th" "owned (add_active d s) th = owned s th"
  "owned (s\<lparr>mNextId := n\<rparr>) th = owned s th" "owned s th \<Longrightarrow> owned (store_running a s) th"
  "owned s th \<Longrightarrow> owned (sweep now s) th"
  by (cases th; auto simp: store_running_def store_canceled_def add_active_def sweep_def stale_def)+

lemma owned_emplace:
  "entries_ok s \<Longrightarrow> mRequests s i = None \<Longrightarrow> owned s th \<Longrightarrow> owned (emplace_request now i s) th"
  by (cases th) (auto simp: emplace_request_def entries_ok_def)

lemma owned_end: "owned s th \<Longrightarrow> \<not> serves th i \<Longrightarrow> owned (endRequest i s) th"
  by (cases th) (auto simp: endRequest_def)

lemma sweep_None: "mRequests s i = None \<Longrightarrow> mRequests (sweep now s) i = None"
  by (simp add: sweep_def)

lemma sweep_next [simp]: "next_addr (sweep now s) = next_addr s"
  by (simp add: sweep_def)

lemma begin_table:
  assumes "beginRequest now i s = (a, s')" and "entries_ok s"
  shows "entries_ok s'" "owned s' (Fetching i a ph)" "owned s th \<Longrightarrow> owned s' th"
  using assms entries_ok_emplace [of s i now] owned_emplace [of s i th now]
  by (auto simp: beginRequest_def split: option.splits)
    (auto simp: store_running_def emplace_request_def)

lemma cancel_table:
  assumes "HttpService_cancel now i s = (st, s')" and "entries_ok s"
  shows "entries_ok s'" "owned s th \<Longrightarrow> owned s' th"
  using assms entries_ok_emplace [of "sweep now s" i "now i"] owned_emplace [of "sweep now s" i th "now i"]
    entries_ok_shrink(2) [of s now] sweep_None [of s i now]
  by (auto simp: HttpService_cancel_def split: option.splits)

lemma table_ok_init: "table_ok (idle_world now)"
  by (simp add: table_ok_def idle_world_def entries_ok_init)

lemma table_ok_step:
  assumes "http_step w act w'" and ok: "table_ok w"
  shows "table_ok w'"
  using assms(1)
proof cases
  case (begin_fetch tid i now a s')
  then show ?thesis
    using ok begin_table [OF begin_fetch(6)] by (auto simp: table_ok_def)
next
  case (end_fetch tid i a)
  then show ?thesis
    using ok by (auto simp: table_ok_def entries_ok_shrink intro!: owned_end)
next
  case (cancel now c i st s')
  then show ?thesis using ok cancel_table [OF cancel(4)] by (auto simp: table_ok_def)
qed (use ok in \<open>auto simp: table_ok_def newRequestId_def\<close>)

lemma run_keeps:
  assumes "http_run w acts w'" and "I w" and "\<And>w act w'. http_step w act w' \<Longrightarrow> I w \<Longrightarrow> I w'"
  shows "I w'"
  using assms by (induction rule: http_run.induct) blast+

lemma table_ok_run: "http_run w acts w' \<Longrightarrow> table_ok w \<Longrightarrow> table_ok w'"
  by (erule run_keeps) (auto intro: table_ok_step)

lemma reachable_table: "reachable w \<Longrightarrow> table_ok w"
  using table_ok_run table_ok_init by (auto simp: reachable_def)


subsection \<open>Cancel flags are never taken back\<close>

definition flag_set :: "nat \<Rightarrow> world \<Rightarrow> bool" where
  "flag_set a w \<longleftrightarrow> a < next_addr (svc w) \<and> canceled (heap (svc w) a)"

lemma flag_set_step: "http_step w act w' \<Longrightarrow> flag_set a w \<Longrightarrow> flag_set a w'"
  by (erule http_step.cases) (auto simp: flag_set_def service_defs split: option.splits)

lemma flag_set_run: "http_run w acts w' \<Longrightarrow> flag_set a w \<Longrightarrow> flag_set a w'"
  by (erule run_keeps) (auto intro: flag_set_step)


subsection \<open>The number of running requests\<close>

definition active_threads :: "world \<Rightarrow> nat set" where
  "active_threads w = {tid. \<exists>th. threads w tid = Some th \<and> is_active th}"

definition count_ok :: "world \<Rightarrow> bool" where
  "count_ok w \<longleftrightarrow> finite (active_threads w) \<and> mActiveCount (svc w) = s32 (int (card (active_threads w)))"

lemma s32_add: "s32 (s32 x + d) = s32 (x + d)"
  "s32 (d + s32 x) = s32 (d + x)"
  unfolding s32_def by (simp_all add: mod_simps algebra_simps)

lemma is_active_phase: "is_active th \<longleftrightarrow> phase_of th = Active"
  by (cases th) (auto simp: is_active_def)

lemma active_update:
  "active_threads (w\<lparr>svc := s, threads := (threads w)(tid \<mapsto> th)\<rparr>) =
     (if is_active th then insert tid (active_threads w) else active_threads w - {tid})"
  "active_threads (w\<lparr>threads := (threads w)(tid \<mapsto> th)\<rparr>) =
     (if is_active th then insert tid (active_threads w) else active_threads w - {tid})"
  "active_threads (w\<lparr>svc := s, threads := (threads w)(tid := None)\<rparr>) = active_threads w - {tid}"
  "active_threads (w\<lparr>threads := (threads w)(tid := None)\<rparr>) = active_threads w - {tid}"
  "active_threads (w\<lparr>svc := s\<rparr>) = active_threads w" "active_threads (w\<lparr>clock := c\<rparr>) = active_threads w"
  "active_threads (w\<lparr>svc := s, clock := c\<rparr>) = active_threads w"
  "active_threads (w\<lparr>svc := s, threads := ths, clock := c\<rparr>) = active_threads (w\<lparr>svc := s, threads := ths\<rparr>)"
  by (auto simp: active_threads_def split: if_splits)

lemma not_active:
  "threads w tid = None \<Longrightarrow> tid \<notin> active_threads w"
  "threads w tid = Some th \<Longrightarrow> tid \<in> active_threads w \<longleftrightarrow> phase_of th = Active"
  by (auto simp: active_threads_def is_active_phase)

lemma count_ok_step:
  assumes "http_step w act w'" and "count_ok w"
  shows "count_ok w'"
  using assms(1)
proof cases
  case (activate tid th)
  then show ?thesis
    using assms(2) not_active(2) [OF activate(3)]
    by (auto simp: count_ok_def active_update add_active_def s32_add add.commute)
next
  case (deactivate tid th)
  then have "tid \<in> active_threads w" using not_active(2) by blast
  then have "int (card (active_threads w - {tid})) = int (card (active_threads w)) - 1"
    using assms(2) card_Suc_Diff1 [of "active_threads w" tid] by (simp add: count_ok_def)
  then show ?thesis
    using deactivate assms(2) s32_add(1) [of _ "-1"] by (auto simp: count_ok_def active_update add_active_def)
qed (use assms(2) in \<open>auto simp: count_ok_def active_update not_active is_active_def service_defs split: option.splits\<close>)

lemma count_ok_run: "http_run w acts w' \<Longrightarrow> count_ok w \<Longrightarrow> count_ok w'"
  by (erule run_keeps) (auto intro: count_ok_step)

lemma count_ok_init: "count_ok (idle_world now)"
  by (simp add: count_ok_def idle_world_def active_threads_def HttpService_init_def s32_def)



subsection \<open>Cancelling before the transfer begins\<close>

text \<open>An entry that is cancelled and not yet served, created at \<open>t\<close>.\<close>

definition pre_canceled :: "int \<Rightarrow> int \<Rightarrow> world \<Rightarrow> bool" where
  "pre_canceled i t w \<longleftrightarrow>
     (\<exists>a. mRequests (svc w) i = Some a \<and> a < next_addr (svc w) \<and> canceled (heap (svc w) a) \<and>
        t \<le> created (heap (svc w) a)) \<and>
     (\<forall>tid th. threads w tid = Some th \<longrightarrow> \<not> serves th i)"

definition kStaleRequestNs :: int where
  "kStaleRequestNs = kStaleRequestMs * 1000000"

lemma not_stale: "now \<le> t + kStaleRequestNs \<Longrightarrow> \<not> millisSince now t > kStaleRequestMs"
proof -
  assume "now \<le> t + kStaleRequestNs"
  then have "\<bar>now - t\<bar> div 1000000 \<le> 60000 \<or> now - t < 0"
    unfolding kStaleRequestNs_def kStaleRequestMs_def by linarith
  moreover have "0 \<le> \<bar>now - t\<bar> div 1000000" by simp
  ultimately show ?thesis
    by (auto simp: millisSince_def cdiv_def kStaleRequestMs_def sgn_if)
qed

lemma pre_canceled_cancel:
  assumes "mRequests (svc w) i = None" and "table_ok w" and "http_step w (ACancel i) w'"
    and "\<And>tid th. threads w tid = Some th \<Longrightarrow> \<not> serves th i"
  shows "pre_canceled i (clock w) w'"
  using assms(3)
proof cases
  case (cancel now c st s')
  then show ?thesis
    using assms(1,4) by (auto simp: pre_canceled_def service_defs)
qed

lemma pre_canceled_sweep:
  assumes "pre_canceled i t w" and "HttpService_cancel now j (svc w) = (st, s')"
    and "now i \<le> t + kStaleRequestNs"
  shows "pre_canceled i t (w\<lparr>svc := s', clock := c\<rparr>)"
proof -
  obtain a where a: "mRequests (svc w) i = Some a" "a < next_addr (svc w)" "canceled (heap (svc w) a)"
    "t \<le> created (heap (svc w) a)" and no: "\<And>tid th. threads w tid = Some th \<Longrightarrow> \<not> serves th i"
    using assms(1) by (auto simp: pre_canceled_def)
  have "\<not> stale now (svc w) i a"
    using not_stale [of "now i" "created (heap (svc w) a)"] assms(3) a(4) by (simp add: stale_def)
  then have "mRequests s' i = Some a \<and> a < next_addr s' \<and> canceled (heap s' a) \<and> t \<le> created (heap s' a)"
    using assms(2) a by (auto simp: service_defs split: option.splits)
  then show ?thesis using no by (auto simp: pre_canceled_def)
qed

lemma pre_canceled_step:
  assumes "http_step w act w'" and "pre_canceled i t w" and "\<And>tid. act \<noteq> ABegin tid i"
    and "clock w' \<le> t + kStaleRequestNs"
  shows "pre_canceled i t w'"
  using assms(1)
proof cases
  case (cancel now c j st s')
  have "now i \<le> t + kStaleRequestNs" using cancel assms(4) by (auto intro: order_trans [of _ c])
  then show ?thesis using pre_canceled_sweep [OF assms(2) cancel(4)] cancel by simp
next
  case (begin_fetch tid j now a s')
  then have "i \<noteq> j" using assms(3) by auto
  then show ?thesis
    using begin_fetch assms(2) by (auto simp: pre_canceled_def service_defs split: option.splits)
next
  case (end_fetch tid j a)
  then have "i \<noteq> j" using assms(2) unfolding pre_canceled_def by (metis serves_simps(1))
  then show ?thesis using end_fetch assms(2) by (auto simp: pre_canceled_def service_defs)
qed (use assms(2) in \<open>auto simp: pre_canceled_def service_defs\<close>)

lemma clock_step: "http_step w act w' \<Longrightarrow> clock w \<le> clock w'"
  by (erule http_step.cases) (auto intro: order_trans)

lemma clock_run: "http_run w acts w' \<Longrightarrow> clock w \<le> clock w'"
  by (induction rule: http_run.induct) (auto dest: clock_step)

lemma pre_canceled_run:
  "http_run w acts w' \<Longrightarrow> pre_canceled i t w \<Longrightarrow> \<forall>tid. ABegin tid i \<notin> set acts \<Longrightarrow>
   clock w' \<le> t + kStaleRequestNs \<Longrightarrow> pre_canceled i t w'"
proof (induction rule: http_run.induct)
  case (more w act w1 acts w')
  have "pre_canceled i t w1"
    using more.prems clock_run [OF more(2)] by (intro pre_canceled_step [OF more(1)]) auto
  with more show ?case by simp
qed simp

lemma begin_flagged:
  assumes "http_step w (ABegin tid i) w'" and "pre_canceled i t w"
  shows "\<exists>a. threads w' tid = Some (Fetching i a Begun) \<and> canceled (heap (svc w') a)"
  using assms(1)
proof cases
  case (begin_fetch now a s')
  then show ?thesis using assms(2) by (auto simp: pre_canceled_def service_defs)
qed



subsection \<open>Properties\<close>

text \<open>
  C17. A \<open>cancel\<close> of a running transfer is never lost: whatever other threads do before and after it,
  every later read of the flag by that transfer sees it set.
\<close>

theorem cancel_reaches_transfer:
  assumes "reachable w" and "threads w tid = Some (Fetching i a ph)"
    and "http_step w (ACancel i) w1" and "http_run w1 acts w2"
  shows "canceled (heap (svc w2) a)"
proof -
  have "mRequests (svc w) i = Some a" "a < next_addr (svc w)"
    using reachable_table [OF assms(1)] assms(2) by (force simp: table_ok_def entries_ok_def)+
  then have "flag_set a w1"
    by (cases rule: http_step.cases [OF assms(3)]) (auto simp: flag_set_def service_defs)
  then show ?thesis using flag_set_run [OF assms(4)] by (simp add: flag_set_def)
qed

text \<open>
  A \<open>cancel\<close> that comes before the transfer waits for it: for a minute, whatever the other threads
  do, including cancels of unknown ids that sweep the table, the transfer that begins under this id
  finds its flag set.
\<close>

theorem early_cancel_kept:
  assumes "reachable w" and "mRequests (svc w) i = None"
    and "http_step w (ACancel i) w1" and "http_run w1 acts w2" and "\<forall>tid. ABegin tid i \<notin> set acts"
    and "clock w2 \<le> clock w + kStaleRequestNs" and "http_step w2 (ABegin tid i) w3"
  shows "\<exists>a. threads w3 tid = Some (Fetching i a Begun) \<and> canceled (heap (svc w3) a)"
proof -
  have ok: "table_ok w" by (rule reachable_table [OF assms(1)])
  then have "\<not> serves th i" if "threads w k = Some th" for k th
    using that assms(2) table_ok_def [of w] by (cases th) (force simp: serves_def)+
  then have "pre_canceled i (clock w) w1" by (rule pre_canceled_cancel [OF assms(2) ok assms(3)])
  then have "pre_canceled i (clock w) w2" by (rule pre_canceled_run [OF assms(4) _ assms(5,6)])
  then show ?thesis by (rule begin_flagged [OF assms(7)])
qed

text \<open>
  \<open>getActiveRequestCount\<close> reports the number of binder threads between their increment and their
  decrement, at every moment (at 32 bits).
\<close>

theorem active_count_exact:
  assumes "reachable w"
  shows "getActiveRequestCount (svc w) = (s32 (int (card (active_threads w))), status_ok)"
  using assms count_ok_run [OF _ count_ok_init]
  by (auto simp: reachable_def count_ok_def getActiveRequestCount_def)

text \<open>A run of one transfer that is cancelled, and of one that was cancelled early.\<close>

definition begun_world :: world where
  "begun_world = \<lparr>svc = snd (beginRequest 0 1 HttpService_init),
     threads = (\<lambda>_. None)(0 \<mapsto> Fetching 1 0 Begun), clock = 0\<rparr>"

lemma begun_run: "http_run (idle_world 0) [ABegin 0 1] begun_world"
proof -
  have "http_step (idle_world 0) (ABegin 0 1) ((idle_world 0)\<lparr>svc := snd (beginRequest 0 1 (svc (idle_world 0))),
      threads := (threads (idle_world 0))(0 \<mapsto> Fetching 1 0 Begun), clock := 0\<rparr>)"
    by (rule http_step.begin_fetch) (simp_all add: idle_world_def beginRequest_def HttpService_init_def)
  then show ?thesis by (auto simp: idle_world_def begun_world_def intro: http_run.intros)
qed

theorem cancel_reaches_transfer_witness:
  "canceled (heap (snd (HttpService_cancel (\<lambda>_. 0) 1 (svc begun_world))) 0)"
proof -
  let ?w1 = "begun_world\<lparr>svc := snd (HttpService_cancel (\<lambda>_. 0) 1 (svc begun_world)), clock := 0\<rparr>"
  have r: "reachable begun_world" using begun_run by (auto simp: reachable_def)
  have t: "threads begun_world 0 = Some (Fetching 1 0 Begun)" by (simp add: begun_world_def)
  have c: "http_step begun_world (ACancel 1) ?w1"
    by (rule http_step.cancel [of _ "\<lambda>_. 0" _ _ "fst (HttpService_cancel (\<lambda>_. 0) 1 (svc begun_world))"])
      (simp_all add: begun_world_def)
  show ?thesis using cancel_reaches_transfer [OF r t c http_run.stop] by simp
qed

theorem early_cancel_kept_witness:
  "case beginRequest 5 1 (snd (HttpService_cancel (\<lambda>_. 0) 1 HttpService_init)) of
     (a, s) \<Rightarrow> canceled (heap s a)"
proof -
  let ?s1 = "snd (HttpService_cancel (\<lambda>_. 0) 1 HttpService_init)"
  let ?w1 = "(idle_world 0)\<lparr>svc := ?s1, clock := 0\<rparr>"
  have r: "reachable (idle_world 0)" by (auto simp: reachable_def intro: http_run.stop)
  have c: "http_step (idle_world 0) (ACancel 1) ?w1"
    by (rule http_step.cancel [of _ "\<lambda>_. 0" _ _ "fst (HttpService_cancel (\<lambda>_. 0) 1 HttpService_init)"])
      (simp_all add: idle_world_def)
  have b: "http_step ?w1 (ABegin 0 1) (?w1\<lparr>svc := snd (beginRequest 5 1 ?s1),
      threads := (threads ?w1)(0 \<mapsto> Fetching 1 (fst (beginRequest 5 1 ?s1)) Begun), clock := 5\<rparr>)"
    by (rule http_step.begin_fetch) (simp_all add: idle_world_def)
  have "mRequests (svc (idle_world 0)) 1 = None" by (simp add: idle_world_def HttpService_init_def)
  from early_cancel_kept [OF r this c http_run.stop _ _ b] show ?thesis
    by (simp add: idle_world_def kStaleRequestNs_def kStaleRequestMs_def case_prod_beta)
qed

theorem active_count_exact_witness:
  "getActiveRequestCount (svc begun_world) = (0, status_ok)"
proof -
  have "active_threads begun_world = {}" by (auto simp: active_threads_def begun_world_def is_active_def split: if_splits)
  moreover have "reachable begun_world" using begun_run by (auto simp: reachable_def)
  ultimately show ?thesis using active_count_exact [of begun_world] by (simp add: s32_def)
qed

end
