(* ===== verification/Download_Task.thy ===== *)
theory Download_Task
  imports Http_Service
begin

text \<open>
  One download of \<open>service/download/DownloadService.cpp\<close>: its task record, the directory and file
  helpers, the progress relay that stands between the http service and the client, the lookup of the
  http service, and the worker thread \<open>runTask\<close>. The http service is reached through the two calls
  the worker makes (\<open>newRequestId\<close> and \<open>fetchToFd\<close>), which are inputs of the model, as are the answers
  of the kernel.
\<close>

subsection \<open>Constants\<close>

definition STATE_PENDING :: int where "STATE_PENDING = 0"
definition STATE_RUNNING :: int where "STATE_RUNNING = 1"
definition STATE_COMPLETED :: int where "STATE_COMPLETED = 2"
definition STATE_FAILED :: int where "STATE_FAILED = 3"
definition STATE_CANCELED :: int where "STATE_CANCELED = 4"
definition STATE_UNKNOWN :: int where "STATE_UNKNOWN = -1"

definition ERROR_BAD_DESTINATION :: int where "ERROR_BAD_DESTINATION = -1"
definition ERROR_IO :: int where "ERROR_IO = -2"
definition ERROR_HTTP_SERVICE :: int where "ERROR_HTTP_SERVICE = -3"
definition ERROR_HTTP :: int where "ERROR_HTTP = -4"
definition ERROR_CANCELED :: int where "ERROR_CANCELED = -5"

lemmas state_defs = STATE_PENDING_def STATE_RUNNING_def STATE_COMPLETED_def STATE_FAILED_def
  STATE_CANCELED_def STATE_UNKNOWN_def

definition kClientIntervalMs :: int where "kClientIntervalMs = 200"
definition kHttpWaitMs :: int where "kHttpWaitMs = 10 * 1000"

definition isTerminal :: "int \<Rightarrow> bool" where
  "isTerminal s \<longleftrightarrow> s = STATE_COMPLETED \<or> s = STATE_FAILED \<or> s = STATE_CANCELED"

definition download_failure :: "int \<Rightarrow> string \<Rightarrow> status" where
  "download_failure code message = fromServiceSpecificError code (String8 message)"


subsection \<open>Files\<close>

datatype node = Regular bytes | Directory | Special

type_synonym files = "string \<Rightarrow> node option"

definition EEXIST :: int where "EEXIST = 17"
definition EISDIR :: int where "EISDIR = 21"
definition ENOENT :: int where "ENOENT = 2"

definition fileSize :: "files \<Rightarrow> string \<Rightarrow> int" where
  "fileSize fs path = (case fs path of Some (Regular b) \<Rightarrow> int (length b) | _ \<Rightarrow> 0)"

text \<open>
  \<open>mkdir(2)\<close>: \<open>mk path\<close> is the error with which the kernel refuses a path for reasons of its own
  (permissions, a missing parent, a full disk).
\<close>

definition mkdir :: "(string \<Rightarrow> int option) \<Rightarrow> string \<Rightarrow> files \<Rightarrow> int option \<times> files" where
  "mkdir mk path fs =
     (case mk path of
        Some e \<Rightarrow> (Some e, fs)
      | None \<Rightarrow> if fs path \<noteq> None then (Some EEXIST, fs) else (None, fs(path \<mapsto> Directory)))"

definition unlink :: "string \<Rightarrow> files \<Rightarrow> files" where
  "unlink path fs = (if fs path = Some Directory then fs else fs(path := None))"

lemma find_from_bounds: "find_from P pos xs = Some k \<Longrightarrow> pos \<le> k \<and> k < length xs"
  by (auto simp: find_from_def find_pos_Some)

definition make_prefix :: "(string \<Rightarrow> int option) \<Rightarrow> string \<Rightarrow> files \<Rightarrow> int option \<times> files" where
  "make_prefix mk built fs =
     (if built = [] then (None, fs)
      else case mkdir mk built fs of (err, fs1) \<Rightarrow> (if err = Some EEXIST then None else err, fs1))"

function ensure_loop :: "(string \<Rightarrow> int option) \<Rightarrow> string \<Rightarrow> nat \<Rightarrow> files \<Rightarrow> (string \<times> int) option \<times> files" where
  "ensure_loop mk dir pos fs =
     (if pos \<le> length dir then
        (case find_from (\<lambda>c. c = CHR ''/'') pos dir of
           None \<Rightarrow>
             (case make_prefix mk dir fs of
                (Some e, fs1) \<Rightarrow> (Some (dir, e), fs1)
              | (None, fs1) \<Rightarrow> (None, fs1))
         | Some k \<Rightarrow>
             (case make_prefix mk (substr dir 0 k) fs of
                (Some e, fs1) \<Rightarrow> (Some (substr dir 0 k, e), fs1)
              | (None, fs1) \<Rightarrow> ensure_loop mk dir (k + 1) fs1))
      else (None, fs))"
  by pat_completeness auto
termination
  by (relation "measure (\<lambda>(mk, dir, pos, fs). Suc (length dir) - pos)") (auto dest!: find_from_bounds)

declare ensure_loop.simps [simp del]

definition ensureParentDir :: "(int \<Rightarrow> string) \<Rightarrow> (string \<Rightarrow> int option) \<Rightarrow> string \<Rightarrow> files \<Rightarrow>
    string option \<times> files" where
  "ensureParentDir strerror mk path fs =
     (case rfind_char (CHR ''/'') path of
        None \<Rightarrow> (None, fs)
      | Some slash \<Rightarrow>
          if slash = 0 then (None, fs)
          else (case ensure_loop mk (substr path 0 slash) 0 fs of
                  (None, fs1) \<Rightarrow> (None, fs1)
                | (Some (built, e), fs1) \<Rightarrow>
                    (Some (''cannot create directory '' @ built @ '': '' @ strerror e), fs1)))"


subsection \<open>Tasks and the progress relay\<close>

record task =
  t_id :: int
  t_url :: string
  t_destPath :: string
  t_partPath :: string
  t_callback :: bool
  t_state :: int
  t_downloaded :: int
  t_total :: int
  t_resumedFrom :: int
  t_httpRequestId :: int
  t_canceled :: bool
  t_started :: int
  t_message :: string

datatype client_event =
    OnStarted int string int int
  | OnProgress int int int int int
  | OnCompleted int string int int
  | OnFailed int int string
  | OnCanceled int int

text \<open>The relay of one task, and what the worker and the relay touch together.\<close>

record job =
  j_task :: task
  j_files :: files
  j_events :: "client_event list"
  j_clock :: "nat \<Rightarrow> int"
  j_ticks :: nat
  j_lastBytes :: int
  j_lastReport :: int

definition clock_read :: "job \<Rightarrow> int \<times> job" where
  "clock_read j = (j_clock j (j_ticks j), j\<lparr>j_ticks := Suc (j_ticks j)\<rparr>)"

definition notify :: "client_event \<Rightarrow> job \<Rightarrow> job" where
  "notify e j = (if t_callback (j_task j) then j\<lparr>j_events := j_events j @ [e]\<rparr> else j)"

definition onResponseStart :: "int \<Rightarrow> int \<Rightarrow> job \<Rightarrow> job" where
  "onResponseStart start tot j =
     (let j1 = j\<lparr>j_task := (j_task j)\<lparr>t_resumedFrom := start, t_total := tot, t_downloaded := start\<rparr>\<rparr>;
          (now, j2) = clock_read j1;
          j3 = j2\<lparr>j_lastBytes := start, j_lastReport := now\<rparr>
      in notify (OnStarted (t_id (j_task j)) (t_url (j_task j)) tot start) j3)"

definition onBytesReceived :: "int \<Rightarrow> int \<Rightarrow> job \<Rightarrow> job" where
  "onBytesReceived received tot j =
     (let doneBytes = s64 (t_resumedFrom (j_task j) + received);
          j1 = j\<lparr>j_task := (j_task j)\<lparr>t_downloaded := doneBytes,
                                     t_total := (if tot \<ge> 0 then tot else t_total (j_task j))\<rparr>\<rparr>
      in if \<not> t_callback (j_task j) then j1
         else
           (let (now, j2) = clock_read j1;
                sinceMs = millisSince now (j_lastReport j2)
            in if sinceMs < kClientIntervalMs then j2
               else
                 (let bytesPerSecond = cdiv (s64 (s64 (doneBytes - j_lastBytes j2) * 1000)) sinceMs;
                      (now2, j3) = clock_read j2;
                      j4 = j3\<lparr>j_lastBytes := doneBytes, j_lastReport := now2\<rparr>;
                      knownTotal = t_total (j_task j4);
                      percent = (if knownTotal > 0 then s32 (cdiv (s64 (doneBytes * 100)) knownTotal) else -1)
                  in notify (OnProgress (t_id (j_task j)) doneBytes knownTotal percent bytesPerSecond) j4)))"

fun relay :: "http_event list \<Rightarrow> job \<Rightarrow> job" where
  "relay [] j = j"
| "relay (OnResponseStart i code start tot ty # es) j = relay es (onResponseStart start tot j)"
| "relay (OnBytesReceived i received tot # es) j = relay es (onBytesReceived received tot j)"


subsection \<open>Finding the http service\<close>

text \<open>
  The cached proxy, whether its binder is alive, and the answers of \<open>checkService\<close> in order; a proxy
  is a number here.
\<close>

function http_poll :: "(nat \<Rightarrow> nat option) \<Rightarrow> int \<Rightarrow> nat \<Rightarrow> nat option" where
  "http_poll answer waited k =
     (if waited < kHttpWaitMs then
        (case answer k of Some b \<Rightarrow> Some b | None \<Rightarrow> http_poll answer (waited + 250) (Suc k))
      else None)"
  by pat_completeness auto
termination
  by (relation "measure (\<lambda>(answer, waited, k). nat (kHttpWaitMs - waited))") auto

declare http_poll.simps [simp del]

definition httpService :: "(nat \<Rightarrow> bool) \<Rightarrow> (nat \<Rightarrow> nat option) \<Rightarrow> nat option \<Rightarrow> (string + nat) \<times> nat option" where
  "httpService alive answer mHttp =
     (let lookup = (case http_poll answer 0 0 of
                      Some b \<Rightarrow> (Inr b, Some b)
                    | None \<Rightarrow> (Inl ([CHR 0x27] @ ''http.service'' @ [CHR 0x27] @ '' is not registered -- the http service '' @
                                   ''is not running''), None))
      in case mHttp of
           Some b \<Rightarrow> if alive b then (Inr b, Some b) else lookup
         | None \<Rightarrow> lookup)"



subsection \<open>The worker thread\<close>

text \<open>
  What a run meets: the answers of the kernel and of the http service, whether a \<open>cancel\<close> of this
  download came in before each of the two tests of the flag, and how many of the progress reports of
  the transfer, which are oneway transactions served by another thread, were delivered before
  \<open>fetchToFd\<close> returned; the rest is delivered after the worker is through.
\<close>

record dl_env =
  e_strerror :: "int \<Rightarrow> string"
  e_mkdir :: "string \<Rightarrow> int option"
  e_open :: "int option"
  e_dup :: "int option"
  e_rename :: "int option"
  e_alive :: "nat \<Rightarrow> bool"
  e_answer :: "nat \<Rightarrow> nat option"
  e_newid :: "status \<times> int"
  e_fetch :: "int \<Rightarrow> string \<Rightarrow> bytes \<Rightarrow> int \<Rightarrow> (status \<times> int) \<times> bytes \<times> http_event list"
  e_cancel_first :: bool
  e_cancel_later :: bool
  e_relayed :: nat

definition set_task :: "(task \<Rightarrow> task) \<Rightarrow> job \<Rightarrow> job" where
  "set_task f j = j\<lparr>j_task := f (j_task j)\<rparr>"

definition finish :: "int \<Rightarrow> string \<Rightarrow> job \<Rightarrow> job" where
  "finish st message = set_task (\<lambda>t. t\<lparr>t_message := message, t_state := st\<rparr>)"

definition task_fail :: "int \<Rightarrow> string \<Rightarrow> job \<Rightarrow> job" where
  "task_fail code message j =
     (let part = t_partPath (j_task j);
          j1 = (if fileSize (j_files j) part = 0 then j\<lparr>j_files := unlink part (j_files j)\<rparr> else j)
      in notify (OnFailed (t_id (j_task j)) code message) (finish STATE_FAILED message j1))"

definition cancelDone :: "job \<Rightarrow> job" where
  "cancelDone j =
     notify (OnCanceled (t_id (j_task j)) (t_downloaded (j_task j))) (finish STATE_CANCELED ''canceled'' j)"

definition open_part :: "int option \<Rightarrow> string \<Rightarrow> files \<Rightarrow> int + files" where
  "open_part err path fs =
     (case err of
        Some e \<Rightarrow> Inl e
      | None \<Rightarrow> (case fs path of
                   Some Directory \<Rightarrow> Inl EISDIR
                 | None \<Rightarrow> Inr (fs(path \<mapsto> Regular []))
                 | Some _ \<Rightarrow> Inr fs))"

definition rename_file :: "int option \<Rightarrow> string \<Rightarrow> string \<Rightarrow> files \<Rightarrow> int + files" where
  "rename_file err from to fs =
     (case err of
        Some e \<Rightarrow> Inl e
      | None \<Rightarrow> (case fs from of
                   None \<Rightarrow> Inl ENOENT
                 | Some n \<Rightarrow> if fs to = Some Directory then Inl EISDIR else Inr (fs(from := None, to \<mapsto> n))))"

definition file_bytes :: "files \<Rightarrow> string \<Rightarrow> bytes" where
  "file_bytes fs path = (case fs path of Some (Regular b) \<Rightarrow> b | _ \<Rightarrow> [])"

definition put_bytes :: "string \<Rightarrow> bytes \<Rightarrow> files \<Rightarrow> files" where
  "put_bytes path b fs = (case fs path of Some (Regular _) \<Rightarrow> fs(path \<mapsto> Regular b) | _ \<Rightarrow> fs)"

text \<open>After a successful \<open>fetchToFd\<close>: the rename, and the report of completion.\<close>

definition conclude :: "dl_env \<Rightarrow> int \<Rightarrow> job \<Rightarrow> job" where
  "conclude env written j =
     (let j1 = set_task (\<lambda>t. t\<lparr>t_downloaded := s64 (t_resumedFrom t + written)\<rparr>) j;
          part = t_partPath (j_task j); dest = t_destPath (j_task j)
      in case rename_file (e_rename env) part dest (j_files j1) of
           Inl e \<Rightarrow>
             task_fail ERROR_IO (''rename '' @ part @ '' -> '' @ dest @ '' failed: '' @ e_strerror env e) j1
         | Inr fs \<Rightarrow>
             (let (now, j2) = clock_read (j1\<lparr>j_files := fs\<rparr>);
                  elapsed = millisSince now (t_started (j_task j2));
                  finalSize = fileSize fs dest;
                  j3 = set_task (\<lambda>t. t\<lparr>t_total := finalSize\<rparr>) j2
              in notify (OnCompleted (t_id (j_task j)) dest finalSize elapsed)
                   (finish STATE_COMPLETED ''completed'' j3)))"

text \<open>What the status of \<open>fetchToFd\<close> means for the download.\<close>

definition settle :: "dl_env \<Rightarrow> status \<Rightarrow> int \<Rightarrow> job \<Rightarrow> job" where
  "settle env stat written j =
     (if \<not> isOk stat then
        (if t_canceled (j_task j) \<or> serviceSpecificErrorCode stat = error_code kErrorCanceled then cancelDone j
         else if mException stat = exception_value EX_SERVICE_SPECIFIC then task_fail ERROR_HTTP (mMessage stat) j
         else task_fail ERROR_HTTP_SERVICE
                (''fetchToFd transaction failed: '' @ toString8 (e_strerror env) stat) j)
      else conclude env written j)"

text \<open>From the descriptor that is passed on to the end of the run.\<close>

definition transfer_task :: "dl_env \<Rightarrow> int \<Rightarrow> int \<Rightarrow> job \<Rightarrow> job" where
  "transfer_task env requestId resume j =
     (case e_dup env of
        Some e \<Rightarrow> task_fail ERROR_IO (''dup failed: '' @ e_strerror env e) j
      | None \<Rightarrow>
          (case e_fetch env requestId (t_url (j_task j)) (file_bytes (j_files j) (t_partPath (j_task j))) resume of
             ((stat, written), content, events) \<Rightarrow>
               (let j1 = j\<lparr>j_files := put_bytes (t_partPath (j_task j)) content (j_files j)\<rparr>;
                    j2 = relay (take (e_relayed env) events) j1;
                    j3 = set_task (\<lambda>t. t\<lparr>t_canceled := t_canceled t \<or> e_cancel_later env\<rparr>) j2;
                    j4 = settle env stat written j3
                in relay (drop (e_relayed env) events) j4)))"

text \<open>From the lookup of the http service on: a request id, the test of the cancel flag, the transfer.\<close>

definition hand_over :: "dl_env \<Rightarrow> nat option \<Rightarrow> int \<Rightarrow> job \<Rightarrow> job \<times> nat option" where
  "hand_over env mHttp resume j =
     (case httpService (e_alive env) (e_answer env) mHttp of
        (Inl err, mHttp1) \<Rightarrow> (task_fail ERROR_HTTP_SERVICE err j, mHttp1)
      | (Inr http, mHttp1) \<Rightarrow>
          (case e_newid env of
             (stat, requestId) \<Rightarrow>
               if \<not> isOk stat
               then (task_fail ERROR_HTTP_SERVICE
                       (''newRequestId failed: '' @ toString8 (e_strerror env) stat) j, mHttp1)
               else
                 (let j1 = set_task (\<lambda>t. t\<lparr>t_httpRequestId := requestId,
                             t_canceled := t_canceled t \<or> e_cancel_first env\<rparr>) j
                  in (if t_canceled (j_task j1) then cancelDone j1
                      else transfer_task env requestId resume j1, mHttp1))))"

definition runTask :: "dl_env \<Rightarrow> nat option \<Rightarrow> job \<Rightarrow> job \<times> nat option" where
  "runTask env mHttp j0 =
     (let (now, ja) = clock_read j0;
          j = set_task (\<lambda>t. t\<lparr>t_started := now, t_state := STATE_RUNNING\<rparr>) ja;
          part = t_partPath (j_task j)
      in case ensureParentDir (e_strerror env) (e_mkdir env) (t_destPath (j_task j)) (j_files j) of
           (Some err, fs) \<Rightarrow> (task_fail ERROR_BAD_DESTINATION err (j\<lparr>j_files := fs\<rparr>), mHttp)
         | (None, fs) \<Rightarrow>
             (let resume = fileSize fs part;
                  j1 = set_task (\<lambda>t. t\<lparr>t_downloaded := resume, t_resumedFrom := resume\<rparr>) (j\<lparr>j_files := fs\<rparr>)
              in case open_part (e_open env) part fs of
                   Inl e \<Rightarrow> (task_fail ERROR_IO (''cannot open '' @ part @ '': '' @ e_strerror env e) j1, mHttp)
                 | Inr fs1 \<Rightarrow> hand_over env mHttp resume (j1\<lparr>j_files := fs1\<rparr>)))"


subsection \<open>Directories\<close>

text \<open>What \<open>ensureParentDir\<close> may touch: directories on the way to the file, never the file itself.\<close>

lemma mkdir_other: "mkdir mk path fs = (err, fs') \<Longrightarrow> p \<noteq> path \<Longrightarrow> fs' p = fs p"
  by (auto simp: mkdir_def split: option.splits if_splits)

lemma make_prefix_other: "make_prefix mk path fs = (err, fs') \<Longrightarrow> p \<noteq> path \<Longrightarrow> fs' p = fs p"
  by (auto simp: make_prefix_def mkdir_other split: if_splits prod.splits)

lemma ensure_loop_files:
  "ensure_loop mk dir pos fs = (res, fs') \<Longrightarrow> length dir < length p \<Longrightarrow> fs' p = fs p"
proof (induction mk dir pos fs arbitrary: res fs' rule: ensure_loop.induct)
  case (1 mk dir pos fs)
  have ne: "p \<noteq> dir" "p \<noteq> substr dir 0 k" for k using 1(3) by (auto simp: substr_def)
  show ?case
  proof (cases "find_from (\<lambda>c. c = CHR ''/'') pos dir")
    case None
    with 1(2) ne show ?thesis
      by (auto simp: ensure_loop.simps [of mk dir pos fs] make_prefix_other split: if_splits prod.splits option.splits)
  next
    case (Some k)
    obtain err fs1 where m: "make_prefix mk (substr dir 0 k) fs = (err, fs1)" by fastforce
    have "fs1 p = fs p" using make_prefix_other [OF m] ne by blast
    moreover have "err = None \<Longrightarrow> pos \<le> length dir \<Longrightarrow> fs' p = fs1 p"
      using 1 Some m by (simp add: ensure_loop.simps [of mk dir pos fs])
    ultimately show ?thesis
      using 1(2) Some m by (auto simp: ensure_loop.simps [of mk dir pos fs] split: if_splits option.splits)
  qed
qed

lemma ensureParentDir_files:
  "ensureParentDir strerror mk path fs = (err, fs') \<Longrightarrow> length path \<le> length p \<Longrightarrow> fs' p = fs p"
  using ensure_loop_files [of mk _ 0 fs]
  by (fastforce simp: ensureParentDir_def rfind_char_Some substr_def split: option.splits if_splits prod.splits)


subsection \<open>What the relay and the callbacks touch\<close>

fun event_state :: "client_event \<Rightarrow> int" where
  "event_state (OnCompleted i p n ms) = STATE_COMPLETED"
| "event_state (OnFailed i c m) = STATE_FAILED"
| "event_state (OnCanceled i n) = STATE_CANCELED"
| "event_state (OnStarted i u tot r) = STATE_RUNNING"
| "event_state (OnProgress i n tot p r) = STATE_RUNNING"

definition finals :: "job \<Rightarrow> client_event list" where
  "finals j = filter (\<lambda>e. isTerminal (event_state e)) (j_events j)"

definition identity :: "task \<Rightarrow> int \<times> string \<times> string \<times> string \<times> bool" where
  "identity t = (t_id t, t_url t, t_destPath t, t_partPath t, t_callback t)"

lemma notify_fields [simp]:
  "j_task (notify e j) = j_task j" "j_files (notify e j) = j_files j"
  "finals (notify e j) = finals j @ (if t_callback (j_task j) \<and> isTerminal (event_state e) then [e] else [])"
  by (simp_all add: notify_def finals_def)

lemma clock_read_fields [simp]:
  "j_task (snd (clock_read j)) = j_task j" "j_files (snd (clock_read j)) = j_files j"
  "j_events (snd (clock_read j)) = j_events j" "finals (snd (clock_read j)) = finals j"
  by (simp_all add: clock_read_def finals_def)

lemma set_task_fields [simp]:
  "j_task (set_task f j) = f (j_task j)" "j_files (set_task f j) = j_files j" "finals (set_task f j) = finals j"
  by (simp_all add: set_task_def finals_def)

lemma finish_fields [simp]:
  "j_task (finish st m j) = (j_task j)\<lparr>t_message := m, t_state := st\<rparr>" "j_files (finish st m j) = j_files j"
  "finals (finish st m j) = finals j"
  by (simp_all add: finish_def)

lemma finals_update [simp]:
  "finals (j\<lparr>j_files := fs\<rparr>) = finals j" "finals (j\<lparr>j_task := t\<rparr>) = finals j"
  "finals (j\<lparr>j_lastBytes := a\<rparr>) = finals j" "finals (j\<lparr>j_lastReport := b\<rparr>) = finals j"
  by (simp_all add: finals_def)

lemma identity_update [simp]:
  "identity (t\<lparr>t_state := a\<rparr>) = identity t" "identity (t\<lparr>t_message := m\<rparr>) = identity t"
  "identity (t\<lparr>t_downloaded := a\<rparr>) = identity t" "identity (t\<lparr>t_total := a\<rparr>) = identity t"
  "identity (t\<lparr>t_resumedFrom := a\<rparr>) = identity t" "identity (t\<lparr>t_canceled := c\<rparr>) = identity t"
  "identity (t\<lparr>t_httpRequestId := a\<rparr>) = identity t" "identity (t\<lparr>t_started := a\<rparr>) = identity t"
  by (simp_all add: identity_def)

lemma not_terminal [simp]: "\<not> isTerminal STATE_RUNNING" "\<not> isTerminal STATE_PENDING"
  "isTerminal STATE_COMPLETED" "isTerminal STATE_FAILED" "isTerminal STATE_CANCELED"
  by (simp_all add: isTerminal_def state_defs)

text \<open>The relay only moves the counters, and never reports an end.\<close>

definition progressed :: "job \<Rightarrow> job \<Rightarrow> bool" where
  "progressed j j' \<longleftrightarrow> identity (j_task j') = identity (j_task j) \<and> t_state (j_task j') = t_state (j_task j) \<and>
     t_message (j_task j') = t_message (j_task j) \<and> t_canceled (j_task j') = t_canceled (j_task j) \<and>
     j_files j' = j_files j \<and> finals j' = finals j"

lemma onResponseStart_progressed: "progressed j (onResponseStart start tot j)"
  by (simp add: progressed_def onResponseStart_def Let_def case_prod_beta)

lemma onBytesReceived_progressed: "progressed j (onBytesReceived received tot j)"
  by (simp add: progressed_def onBytesReceived_def Let_def case_prod_beta)

lemma relay_progressed: "progressed j (relay es j)"
proof (induction es j rule: relay.induct)
  case (2 i code start tot ty es j)
  then show ?case using onResponseStart_progressed [of j start tot] by (simp add: progressed_def)
next
  case (3 i received tot es j)
  then show ?case using onBytesReceived_progressed [of j received tot] by (simp add: progressed_def)
qed (simp add: progressed_def)

lemma make_prefix_exists:
  assumes "make_prefix mk path fs = (None, fs')" and "mk path \<noteq> Some EEXIST" and "path \<noteq> []"
  shows "fs' path \<noteq> None"
  using assms by (auto simp: make_prefix_def mkdir_def split: option.splits if_splits prod.splits)

lemma make_prefix_keeps: "make_prefix mk path fs = (err, fs') \<Longrightarrow> fs p \<noteq> None \<Longrightarrow> fs' p \<noteq> None"
  by (auto simp: make_prefix_def mkdir_def split: option.splits if_splits prod.splits)

lemma ensure_loop_keeps: "ensure_loop mk dir pos fs = (res, fs') \<Longrightarrow> fs p \<noteq> None \<Longrightarrow> fs' p \<noteq> None"
proof (induction mk dir pos fs arbitrary: res fs' rule: ensure_loop.induct)
  case (1 mk dir pos fs)
  show ?case
  proof (cases "find_from (\<lambda>c. c = CHR ''/'') pos dir")
    case None
    obtain err fs1 where m: "make_prefix mk dir fs = (err, fs1)" by fastforce
    have "fs1 p \<noteq> None" using make_prefix_keeps [OF m] 1(3) by blast
    with 1(2,3) None m show ?thesis
      by (auto simp: ensure_loop.simps [of mk dir pos fs] split: if_splits option.splits)
  next
    case (Some k)
    obtain err fs1 where m: "make_prefix mk (substr dir 0 k) fs = (err, fs1)" by fastforce
    have "fs1 p \<noteq> None" using make_prefix_keeps [OF m] 1(3) by blast
    moreover have "err = None \<Longrightarrow> pos \<le> length dir \<Longrightarrow> fs' p \<noteq> None"
      using 1 Some m \<open>fs1 p \<noteq> None\<close> by (simp add: ensure_loop.simps [of mk dir pos fs])
    ultimately show ?thesis
      using 1(2,3) Some m by (auto simp: ensure_loop.simps [of mk dir pos fs] split: if_splits option.splits)
  qed
qed

lemma find_from_None:
  assumes "find_from P pos xs = None" and "pos \<le> k" and "k < length xs"
  shows "\<not> P (xs ! k)"
proof -
  have "xs ! k = drop pos xs ! (k - pos)" "k - pos < length (drop pos xs)" using assms(2,3) by simp_all
  then have "xs ! k \<in> set (drop pos xs)" by (metis nth_mem)
  then show ?thesis using assms(1) by (simp add: find_from_def find_pos_None)
qed

lemma find_from_first:
  assumes "find_from P pos xs = Some n" and "pos \<le> k" and "k < n"
  shows "\<not> P (xs ! k)"
proof -
  have n: "n - pos < length (drop pos xs)" "\<forall>x\<in>set (take (n - pos) (drop pos xs)). \<not> P x"
    using assms(1) by (auto simp: find_from_def find_pos_Some)
  have "xs ! k = take (n - pos) (drop pos xs) ! (k - pos)" "k - pos < length (take (n - pos) (drop pos xs))"
    using assms(2,3) n(1) by simp_all
  then have "xs ! k \<in> set (take (n - pos) (drop pos xs))" by (metis nth_mem)
  then show ?thesis using n(2) by blast
qed

text \<open>Success means that every directory named on the way exists.\<close>

lemma ensure_loop_exists:
  assumes "ensure_loop mk dir pos fs = (None, fs')" and "\<And>p. mk p \<noteq> Some EEXIST"
    and "pos \<le> k" and "k \<le> length dir" and "0 < k" and "k = length dir \<or> dir ! k = CHR ''/''"
  shows "fs' (take k dir) \<noteq> None"
  using assms
proof (induction mk dir pos fs arbitrary: fs' rule: ensure_loop.induct)
  case (1 mk dir pos fs)
  have ne: "take k dir \<noteq> []" using 1(5,6) by auto
  show ?case
  proof (cases "find_from (\<lambda>c. c = CHR ''/'') pos dir")
    case None
    then have "k = length dir" using find_from_None [OF None 1(4)] 1(5,7) by (cases "k < length dir") auto
    with None 1(2-5) ne make_prefix_exists [of mk dir fs fs'] show ?thesis
      by (auto simp: ensure_loop.simps [of mk dir pos fs] split: prod.splits option.splits)
  next
    case (Some n)
    obtain err fs1 where m: "make_prefix mk (substr dir 0 n) fs = (err, fs1)" by fastforce
    have n: "pos \<le> n" "n < length dir" using find_from_bounds [OF Some] by simp_all
    have e: "err = None" and r: "ensure_loop mk dir (n + 1) fs1 = (None, fs')"
      using 1(2) Some m n by (auto simp: ensure_loop.simps [of mk dir pos fs] split: option.splits)
    have "n \<le> k" using find_from_first [OF Some 1(4)] 1(7) n by (cases "k < n") auto
    show ?thesis
    proof (cases "n = k")
      case True
      then have "fs1 (take k dir) \<noteq> None"
        using make_prefix_exists [OF m [unfolded e]] 1(3) ne by (simp add: substr_def)
      then show ?thesis by (rule ensure_loop_keeps [OF r])
    next
      case False
      with \<open>n \<le> k\<close> show ?thesis
        using 1(1) [OF _ Some _ _ r 1(3) _ 1(5-7)] n m e by auto
    qed
  qed
qed

end
