(* ===== verification/Download_Run.thy ===== *)
theory Download_Run
  imports Download_Task
begin

text \<open>
  What a run of the worker thread of \<open>download.service\<close> does to the files and tells the client,
  whatever the kernel and the http service answer, and the download from end to end with the http
  service of this repository behind the two calls.
\<close>

subsection \<open>How a run ends\<close>

text \<open>
  A run ended between \<open>j\<close> and \<open>j'\<close>: the task is in a terminal state, the client was told once and
  told that state, and the final path holds something new only if the state is \<open>COMPLETED\<close>.
\<close>

definition ended :: "job \<Rightarrow> job \<Rightarrow> bool" where
  "ended j j' \<longleftrightarrow>
     isTerminal (t_state (j_task j')) \<and> identity (j_task j') = identity (j_task j) \<and>
     (if t_callback (j_task j)
      then (\<exists>e. finals j' = finals j @ [e] \<and> event_state e = t_state (j_task j'))
      else finals j' = finals j) \<and>
     (t_partPath (j_task j) \<noteq> t_destPath (j_task j) \<longrightarrow>
        (if t_state (j_task j') = STATE_COMPLETED
         then j_files j' (t_destPath (j_task j)) \<noteq> None \<and> j_files j' (t_partPath (j_task j)) = None
         else j_files j' (t_destPath (j_task j)) = j_files j (t_destPath (j_task j))))"

lemma identity_fields:
  assumes "identity t = identity t'"
  shows "t_callback t = t_callback t'" "t_partPath t = t_partPath t'" "t_destPath t = t_destPath t'"
    "t_id t = t_id t'" "t_url t = t_url t'"
  using assms by (simp_all add: identity_def)

lemma task_fail_fields [simp]:
  "j_task (task_fail code m j) = (j_task j)\<lparr>t_message := m, t_state := STATE_FAILED\<rparr>"
  "finals (task_fail code m j) = finals j @ (if t_callback (j_task j) then [OnFailed (t_id (j_task j)) code m] else [])"
  "j_files (task_fail code m j) =
     (if fileSize (j_files j) (t_partPath (j_task j)) = 0 then unlink (t_partPath (j_task j)) (j_files j) else j_files j)"
  by (simp_all add: task_fail_def Let_def)

lemma cancelDone_fields [simp]:
  "j_task (cancelDone j) = (j_task j)\<lparr>t_message := ''canceled'', t_state := STATE_CANCELED\<rparr>"
  "finals (cancelDone j) =
     finals j @ (if t_callback (j_task j) then [OnCanceled (t_id (j_task j)) (t_downloaded (j_task j))] else [])"
  "j_files (cancelDone j) = j_files j"
  by (simp_all add: cancelDone_def)

lemma states_distinct [simp]:
  "STATE_FAILED \<noteq> STATE_COMPLETED" "STATE_CANCELED \<noteq> STATE_COMPLETED" "STATE_FAILED \<noteq> STATE_CANCELED"
  "STATE_COMPLETED \<noteq> STATE_FAILED" "STATE_COMPLETED \<noteq> STATE_CANCELED" "STATE_CANCELED \<noteq> STATE_FAILED"
  by (simp_all add: state_defs)

lemma ended_fail: "ended j (task_fail code m j)"
  by (simp add: ended_def unlink_def)

lemma ended_cancel: "ended j (cancelDone j)"
  by (simp add: ended_def)

text \<open>Changes of the task, of the files off the final path, and of the relay, before and after the end.\<close>

lemma ended_before:
  assumes "ended j1 j'" and "identity (j_task j1) = identity (j_task j)" and "finals j1 = finals j"
    and "j_files j1 (t_destPath (j_task j)) = j_files j (t_destPath (j_task j))"
  shows "ended j j'"
  using assms(1) unfolding ended_def identity_fields [OF assms(2)] assms(2-4) .

lemma ended_after: "ended j j1 \<Longrightarrow> progressed j1 j' \<Longrightarrow> ended j j'"
  by (simp add: ended_def progressed_def)

lemma rename_file_other: "rename_file err from to fs = Inr fs' \<Longrightarrow> fs' = fs(from := None, to := fs from) \<and> fs from \<noteq> None"
  by (auto simp: rename_file_def split: option.splits if_splits)

lemma ended_conclude: "ended j (conclude env written j)"
proof -
  let ?j1 = "set_task (\<lambda>t. t\<lparr>t_downloaded := s64 (t_resumedFrom t + written)\<rparr>) j"
  show ?thesis
  proof (cases "rename_file (e_rename env) (t_partPath (j_task j)) (t_destPath (j_task j)) (j_files j)")
    case (Inl e)
    then show ?thesis
      by (simp add: conclude_def Let_def) (rule ended_before [OF ended_fail [where j = ?j1]]; simp)
  next
    case (Inr fs)
    then show ?thesis
      using rename_file_other [OF Inr]
      by (auto simp: conclude_def Let_def ended_def case_prod_beta)
  qed
qed

lemma put_bytes_other: "p \<noteq> path \<Longrightarrow> put_bytes path b fs p = fs p"
  by (simp add: put_bytes_def split: option.splits node.splits)

lemma ended_transfer:
  assumes "t_partPath (j_task j) \<noteq> t_destPath (j_task j)"
  shows "ended j (transfer_task env requestId resume j)"
proof (cases "e_dup env")
  case None
  obtain stat written content events where
    f: "e_fetch env requestId (t_url (j_task j)) (file_bytes (j_files j) (t_partPath (j_task j))) resume =
      ((stat, written), content, events)" by (metis prod.collapse)
  define j1 where "j1 = j\<lparr>j_files := put_bytes (t_partPath (j_task j)) content (j_files j)\<rparr>"
  define j2 where "j2 = relay (take (e_relayed env) events) j1"
  define j3 where "j3 = set_task (\<lambda>t. t\<lparr>t_canceled := t_canceled t \<or> e_cancel_later env\<rparr>) j2"
  have p: "progressed j1 j2" unfolding j2_def by (rule relay_progressed)
  have b: "ended j j'" if "ended j3 j'" for j'
    using that p assms
    by (elim ended_before) (auto simp: j3_def progressed_def j1_def put_bytes_other)
  have e: "ended j3 (settle env stat written j3)"
    by (simp add: settle_def ended_fail ended_cancel ended_conclude del: append_Cons)
  have "transfer_task env requestId resume j = relay (drop (e_relayed env) events) (settle env stat written j3)"
    using None by (simp add: transfer_task_def f Let_def j1_def j2_def j3_def)
  then show ?thesis using ended_after [OF b [OF e] relay_progressed] by simp
qed (simp add: transfer_task_def ended_fail)

lemma open_part_other: "open_part err path fs = Inr fs' \<Longrightarrow> p \<noteq> path \<Longrightarrow> fs' p = fs p"
  by (auto simp: open_part_def split: option.splits node.splits)

lemma ended_hand_over:
  assumes "t_partPath (j_task j) \<noteq> t_destPath (j_task j)"
  shows "ended j (fst (hand_over env mHttp resume j))"
proof -
  obtain found mHttp1 where h: "httpService (e_alive env) (e_answer env) mHttp = (found, mHttp1)" by fastforce
  obtain stat rid where n: "e_newid env = (stat, rid)" by fastforce
  define j1 where "j1 = set_task (\<lambda>t. t\<lparr>t_httpRequestId := rid, t_canceled := t_canceled t \<or> e_cancel_first env\<rparr>) j"
  have b: "ended j j'" if "ended j1 j'" for j'
    by (rule ended_before [OF that]) (simp_all add: j1_def)
  have "ended j1 (if t_canceled (j_task j1) then cancelDone j1 else transfer_task env rid resume j1)"
    using ended_transfer [of j1 env rid resume] assms ended_cancel [of j1]
    by (cases "t_canceled (j_task j1)") (simp_all, simp add: j1_def)
  from b [OF this] show ?thesis
    by (cases found) (simp_all add: hand_over_def h n ended_fail Let_def flip: j1_def)
qed

lemma ended_run:
  assumes "t_partPath (j_task j) = t_destPath (j_task j) @ ''.part''"
  shows "ended j (fst (runTask env mHttp j))"
proof -
  let ?dest = "t_destPath (j_task j)" and ?part = "t_partPath (j_task j)"
  define j0 where "j0 = set_task (\<lambda>t. t\<lparr>t_started := fst (clock_read j), t_state := STATE_RUNNING\<rparr>) (snd (clock_read j))"
  have j0: "j_files j0 = j_files j" "identity (j_task j0) = identity (j_task j)" "finals j0 = finals j"
    "t_destPath (j_task j0) = ?dest" "t_partPath (j_task j0) = ?part"
    by (simp_all add: j0_def)
  obtain err fs where d: "ensureParentDir (e_strerror env) (e_mkdir env) ?dest (j_files j) = (err, fs)" by fastforce
  have fs: "fs ?dest = j_files j ?dest" using ensureParentDir_files [OF d] by simp
  have b: "ended j j'" if "ended j1 j'" "identity (j_task j1) = identity (j_task j)" "finals j1 = finals j"
      "j_files j1 ?dest = j_files j ?dest" for j1 j'
    by (rule ended_before [OF that])
  have pd: "?part \<noteq> ?dest" using assms by simp
  show ?thesis
  proof (cases err)
    case (Some m)
    then have "fst (runTask env mHttp j) = task_fail ERROR_BAD_DESTINATION m (j0\<lparr>j_files := fs\<rparr>)"
      using d j0 by (simp add: runTask_def Let_def case_prod_beta j0_def)
    then show ?thesis using b [OF ended_fail] j0 fs by simp
  next
    case None
    define j1 where "j1 = set_task (\<lambda>t. t\<lparr>t_downloaded := fileSize fs ?part, t_resumedFrom := fileSize fs ?part\<rparr>)
      (j0\<lparr>j_files := fs\<rparr>)"
    show ?thesis
    proof (cases "open_part (e_open env) ?part fs")
      case (Inl e)
      then have "fst (runTask env mHttp j) =
          task_fail ERROR_IO (''cannot open '' @ ?part @ '': '' @ e_strerror env e) j1"
        using None d j0 by (simp add: runTask_def Let_def case_prod_beta j0_def j1_def)
      then show ?thesis using b [OF ended_fail [where j = j1]] j0 fs by (simp add: j1_def)
    next
      case (Inr fs1)
      have fs1: "fs1 ?dest = j_files j ?dest" using open_part_other [OF Inr] pd fs by simp
      have "fst (runTask env mHttp j) = fst (hand_over env mHttp (fileSize fs ?part) (j1\<lparr>j_files := fs1\<rparr>))"
        using None d Inr j0 by (simp add: runTask_def Let_def case_prod_beta j0_def j1_def)
      moreover have "ended (j1\<lparr>j_files := fs1\<rparr>) (fst (hand_over env mHttp (fileSize fs ?part) (j1\<lparr>j_files := fs1\<rparr>)))"
        using j0 pd by (intro ended_hand_over) (simp add: j1_def)
      ultimately show ?thesis using b j0 fs1 by (simp add: j1_def)
    qed
  qed
qed



subsection \<open>Runs that reach the transfer\<close>

text \<open>
  Everything before \<open>fetchToFd\<close> goes through: the directories, the \<open>.part\<close> file, the http service and
  the request id, and no cancel has come in.
\<close>

definition prepared :: "dl_env \<Rightarrow> nat option \<Rightarrow> job \<Rightarrow> bool" where
  "prepared env mHttp j \<longleftrightarrow>
     t_partPath (j_task j) = t_destPath (j_task j) @ ''.part'' \<and>
     fst (ensureParentDir (e_strerror env) (e_mkdir env) (t_destPath (j_task j)) (j_files j)) = None \<and>
     e_open env = None \<and> j_files j (t_partPath (j_task j)) \<notin> {Some Directory, Some Special} \<and>
     (\<exists>b. fst (httpService (e_alive env) (e_answer env) mHttp) = Inr b) \<and>
     isOk (fst (e_newid env)) \<and> \<not> t_canceled (j_task j) \<and> \<not> e_cancel_first env \<and> e_dup env = None"

text \<open>The call of \<open>fetchToFd\<close> such a run makes: on the bytes of the \<open>.part\<close> file, resuming at their end.\<close>

definition fetch_of :: "dl_env \<Rightarrow> job \<Rightarrow> (status \<times> int) \<times> bytes \<times> http_event list" where
  "fetch_of env j =
     (let b = file_bytes (j_files j) (t_partPath (j_task j))
      in e_fetch env (snd (e_newid env)) (t_url (j_task j)) b (int (length b)))"

lemma open_part_bytes:
  assumes "fs path \<notin> {Some Directory, Some Special}"
  shows "\<exists>fs1. open_part None path fs = Inr fs1 \<and> fs1 path = Some (Regular (file_bytes fs path)) \<and>
    (\<forall>p. p \<noteq> path \<longrightarrow> fs1 p = fs p) \<and> fileSize fs path = int (length (file_bytes fs path))"
proof (cases "fs path")
  case (Some n)
  with assms show ?thesis by (cases n) (simp_all add: open_part_def file_bytes_def fileSize_def)
qed (simp add: open_part_def file_bytes_def fileSize_def)

lemma prepared_transfer:
  assumes "prepared env mHttp j" and "fetch_of env j = ((stat, written), content, events)"
  shows "\<exists>j1. fst (runTask env mHttp j) = relay (drop (e_relayed env) events) (settle env stat written j1) \<and>
    identity (j_task j1) = identity (j_task j) \<and> finals j1 = finals j \<and>
    t_canceled (j_task j1) = e_cancel_later env \<and>
    j_files j1 (t_partPath (j_task j)) = Some (Regular content) \<and>
    j_files j1 (t_destPath (j_task j)) = j_files j (t_destPath (j_task j))"
proof -
  let ?dest = "t_destPath (j_task j)" and ?part = "t_partPath (j_task j)"
  obtain fs where d: "ensureParentDir (e_strerror env) (e_mkdir env) ?dest (j_files j) = (None, fs)"
    using assms(1) by (auto simp: prepared_def prod_eq_iff)
  have pl: "length ?dest \<le> length ?part" "?part \<noteq> ?dest" using assms(1) by (simp_all add: prepared_def)
  have fs: "fs ?dest = j_files j ?dest" "fs ?part = j_files j ?part"
    using ensureParentDir_files [OF d] pl by auto
  define b where "b = file_bytes (j_files j) ?part"
  have "fs ?part \<notin> {Some Directory, Some Special}" using assms(1) unfolding prepared_def fs(2) by blast
  moreover have "file_bytes fs ?part = b" "e_open env = None"
    using fs assms(1) by (simp_all add: b_def file_bytes_def prepared_def)
  ultimately obtain fs1 where o: "open_part (e_open env) ?part fs = Inr fs1"
    and fs1: "fs1 ?part = Some (Regular b)" "fs1 ?dest = j_files j ?dest" and r: "fileSize fs ?part = int (length b)"
    using open_part_bytes [of fs ?part] pl fs by auto
  define j1 where "j1 = set_task (\<lambda>t. t\<lparr>t_downloaded := int (length b), t_resumedFrom := int (length b)\<rparr>)
    ((set_task (\<lambda>t. t\<lparr>t_started := fst (clock_read j), t_state := STATE_RUNNING\<rparr>) (snd (clock_read j)))\<lparr>j_files := fs\<rparr>)
    \<lparr>j_files := fs1\<rparr>"
  have e1: "fst (runTask env mHttp j) = fst (hand_over env mHttp (int (length b)) j1)"
    using d o r by (simp add: runTask_def Let_def case_prod_beta j1_def)
  have j1: "identity (j_task j1) = identity (j_task j)" "finals j1 = finals j" "j_files j1 = fs1"
    "t_canceled (j_task j1) = t_canceled (j_task j)" "t_partPath (j_task j1) = ?part" "t_url (j_task j1) = t_url (j_task j)"
    by (simp_all add: j1_def)
  define j2 where "j2 = set_task (\<lambda>t. t\<lparr>t_httpRequestId := snd (e_newid env), t_canceled := t_canceled t \<or> e_cancel_first env\<rparr>) j1"
  have e2: "fst (hand_over env mHttp (int (length b)) j1) = transfer_task env (snd (e_newid env)) (int (length b)) j2"
    using assms(1) j1 by (auto simp: hand_over_def prepared_def case_prod_beta Let_def j2_def split: sum.splits)
  define j3 where "j3 = relay (take (e_relayed env) events) (j2\<lparr>j_files := put_bytes ?part content fs1\<rparr>)"
  have p: "progressed (j2\<lparr>j_files := put_bytes ?part content fs1\<rparr>) j3" unfolding j3_def by (rule relay_progressed)
  have "file_bytes fs1 ?part = b" using fs1 by (simp add: file_bytes_def)
  then have "transfer_task env (snd (e_newid env)) (int (length b)) j2 =
      relay (drop (e_relayed env) events) (settle env stat written
        (set_task (\<lambda>t. t\<lparr>t_canceled := t_canceled t \<or> e_cancel_later env\<rparr>) j3))"
    using assms j1 by (simp add: transfer_task_def prepared_def fetch_of_def Let_def b_def j2_def j3_def)
  then show ?thesis
    using p j1 fs1 pl assms(1) e1 e2
    by (intro exI [of _ "set_task (\<lambda>t. t\<lparr>t_canceled := t_canceled t \<or> e_cancel_later env\<rparr>) j3"])
      (simp add: progressed_def j2_def prepared_def put_bytes_def)
qed

lemma completed_run:
  assumes "prepared env mHttp j" and "fetch_of env j = ((stat, written), content, events)"
    and "isOk stat" and "e_rename env = None" and "j_files j (t_destPath (j_task j)) \<noteq> Some Directory"
  shows "\<exists>j' elapsed. fst (runTask env mHttp j) = j' \<and> t_state (j_task j') = STATE_COMPLETED \<and>
    j_files j' (t_destPath (j_task j)) = Some (Regular content) \<and> j_files j' (t_partPath (j_task j)) = None \<and>
    finals j' = finals j @ (if t_callback (j_task j)
      then [OnCompleted (t_id (j_task j)) (t_destPath (j_task j)) (int (length content)) elapsed] else [])"
proof -
  obtain j1 where e: "fst (runTask env mHttp j) = relay (drop (e_relayed env) events) (settle env stat written j1)"
    and j1: "identity (j_task j1) = identity (j_task j)" "finals j1 = finals j"
      "j_files j1 (t_partPath (j_task j)) = Some (Regular content)"
      "j_files j1 (t_destPath (j_task j)) = j_files j (t_destPath (j_task j))"
    using prepared_transfer [OF assms(1,2)] by (elim exE conjE)
  note id = identity_fields [OF j1(1)]
  have pd: "t_partPath (j_task j) \<noteq> t_destPath (j_task j)" using assms(1) by (simp add: prepared_def)
  let ?s = "settle env stat written j1"
  have p: "progressed ?s (relay (drop (e_relayed env) events) ?s)" by (rule relay_progressed)
  have "\<exists>elapsed. t_state (j_task ?s) = STATE_COMPLETED \<and>
    j_files ?s (t_destPath (j_task j)) = Some (Regular content) \<and> j_files ?s (t_partPath (j_task j)) = None \<and>
    finals ?s = finals j @ (if t_callback (j_task j)
      then [OnCompleted (t_id (j_task j)) (t_destPath (j_task j)) (int (length content)) elapsed] else [])"
    using assms(3-5) j1 id pd
    by (auto simp: settle_def conclude_def rename_file_def Let_def case_prod_beta fileSize_def)
  with p e show ?thesis by (auto simp: progressed_def)
qed

lemma failed_run:
  assumes "prepared env mHttp j" and "fetch_of env j = ((stat, written), content, events)" and "\<not> isOk stat"
  shows "\<exists>j'. fst (runTask env mHttp j) = j' \<and>
    t_state (j_task j') = (if e_cancel_later env \<or> serviceSpecificErrorCode stat = error_code kErrorCanceled
                           then STATE_CANCELED else STATE_FAILED) \<and>
    j_files j' (t_partPath (j_task j)) =
      (if t_state (j_task j') = STATE_FAILED \<and> content = [] then None else Some (Regular content)) \<and>
    j_files j' (t_destPath (j_task j)) = j_files j (t_destPath (j_task j))"
proof -
  obtain j1 where e: "fst (runTask env mHttp j) = relay (drop (e_relayed env) events) (settle env stat written j1)"
    and j1: "identity (j_task j1) = identity (j_task j)" "t_canceled (j_task j1) = e_cancel_later env"
      "j_files j1 (t_partPath (j_task j)) = Some (Regular content)"
      "j_files j1 (t_destPath (j_task j)) = j_files j (t_destPath (j_task j))"
    using prepared_transfer [OF assms(1,2)] by (elim exE conjE)
  note id = identity_fields [OF j1(1)]
  have pd: "t_partPath (j_task j) \<noteq> t_destPath (j_task j)" using assms(1) by (simp add: prepared_def)
  let ?s = "settle env stat written j1"
  have p: "progressed ?s (relay (drop (e_relayed env) events) ?s)" by (rule relay_progressed)
  have "t_state (j_task ?s) = (if e_cancel_later env \<or> serviceSpecificErrorCode stat = error_code kErrorCanceled
                           then STATE_CANCELED else STATE_FAILED) \<and>
    j_files ?s (t_partPath (j_task j)) =
      (if t_state (j_task ?s) = STATE_FAILED \<and> content = [] then None else Some (Regular content)) \<and>
    j_files ?s (t_destPath (j_task j)) = j_files j (t_destPath (j_task j))"
    using assms(3) j1 id pd by (simp add: settle_def unlink_def fileSize_def)
  with p e show ?thesis by (simp add: progressed_def)
qed


subsection \<open>The http service behind the call\<close>

text \<open>\<open>fetchToFd\<close> of the http service as the download service calls it: descriptor 7, an offset of 0, a relay.\<close>

definition service_fetch :: "network \<Rightarrow> (http_service \<Rightarrow> http_service) \<Rightarrow> int \<Rightarrow> transfer \<Rightarrow> http_service \<Rightarrow>
    int \<Rightarrow> string \<Rightarrow> bytes \<Rightarrow> int \<Rightarrow> (status \<times> int) \<times> bytes \<times> http_event list" where
  "service_fetch net others now t st rid u b resume =
     (case fetchToFd net others now rid u 7 resume True
             (t\<lparr>tr_file := \<lparr>fd_content = b, fd_offset = 0, fd_errno = 0\<rparr>\<rparr>) st of
        (reply, t', st') \<Rightarrow> (reply, fd_content (tr_file t'), tr_events t'))"

lemma service_fetch_body:
  assumes "parseUrl u = Some ur" and "mRequests st rid = None"
    and "answers (net_strerror net) (net_exchange net 0 ur (request_head ur (new_request u (int (length b))))) True ur
           (new_request u (int (length b))) (sl @ crlf @ render_headers hs @ body @ rest)"
    and "\<not> net_canceled net 0"
    and "status_line_ok sl code rsn" and "\<not> is_redirect code" and "code < 400"
    and "head_ok hs" and "contentLength (stored hs) = int (length body)"
    and "\<not> headers_contains (stored hs) ''Transfer-Encoding'' ''chunked''"
    and "body_extent (new_request u (int (length b))) (stored hs) code = (start, tot)"
    and "start = 0 \<or> start = int (length b)" and "good_sink t"
  shows "\<exists>events. service_fetch net others now t st rid u b (int (length b)) =
    ((status_ok, int (length body)), if start = 0 then body else b @ body, events)"
proof -
  let ?t = "t\<lparr>tr_file := \<lparr>fd_content = b, fd_offset = 0, fd_errno = 0\<rparr>\<rparr>"
  have g: "good_sink ?t" using assms(13) by (simp add: good_sink_def)
  have s: "0 \<le> start" "nat start \<le> length (fd_content (tr_file ?t))" using assms(12) by auto
  obtain t' st' where f: "fetchToFd net others now rid u 7 (int (length b)) True ?t st =
      ((status_ok, int (length body)), t', st')"
    and c: "fd_content (tr_file t') =
      write_at (nat start) body (if start = 0 \<and> int (length b) > 0 then [] else fd_content (tr_file ?t))"
    using fetchToFd_body [OF assms(1) _ _ assms(2-11) s g, of 7 others now True] by auto
  have "fd_content (tr_file t') = (if start = 0 then body else b @ body)"
    using c assms(12) by (auto simp: write_at_def pad_to_def)
  then show ?thesis using f by (simp add: service_fetch_def)
qed


subsection \<open>Properties\<close>

text \<open>
  C28. Whatever the kernel and the http service answer, a run of the worker ends in a terminal state
  and tells a client that listens exactly once, with the callback of that state.
\<close>

theorem runTask_one_outcome:
  assumes "t_partPath (j_task j) = t_destPath (j_task j) @ ''.part''"
  shows "isTerminal (t_state (j_task (fst (runTask env mHttp j)))) \<and>
    (t_callback (j_task j) \<longrightarrow>
      (\<exists>e. finals (fst (runTask env mHttp j)) = finals j @ [e] \<and>
           event_state e = t_state (j_task (fst (runTask env mHttp j)))))"
  using ended_run [OF assms] by (auto simp: ended_def)

text \<open>
  C16. The destination is only ever replaced by the rename of a completed download: a run that ends in
  another state leaves whatever was at the destination as it was.
\<close>

theorem runTask_dest_atomic:
  assumes "t_partPath (j_task j) = t_destPath (j_task j) @ ''.part''"
    and "t_state (j_task (fst (runTask env mHttp j))) \<noteq> STATE_COMPLETED"
  shows "j_files (fst (runTask env mHttp j)) (t_destPath (j_task j)) = j_files j (t_destPath (j_task j))"
  using ended_run [OF assms(1), of env mHttp] assms by (simp add: ended_def)

text \<open>
  When the transport reports success the bytes the \<open>.part\<close> file ends up with become the
  destination, the \<open>.part\<close> file is gone, and the client is told their number.
\<close>

theorem runTask_completes:
  assumes "prepared env mHttp j" and "fetch_of env j = ((stat, written), content, events)"
    and "isOk stat" and "e_rename env = None" and "j_files j (t_destPath (j_task j)) \<noteq> Some Directory"
  shows "\<exists>j' elapsed. fst (runTask env mHttp j) = j' \<and> t_state (j_task j') = STATE_COMPLETED \<and>
    j_files j' (t_destPath (j_task j)) = Some (Regular content) \<and> j_files j' (t_partPath (j_task j)) = None \<and>
    finals j' = finals j @ (if t_callback (j_task j)
      then [OnCompleted (t_id (j_task j)) (t_destPath (j_task j)) (int (length content)) elapsed] else [])"
  using assms by (rule completed_run)

text \<open>
  When the transport reports failure the download ends as cancelled if a cancel was asked for or
  reported, and as failed otherwise; the bytes received so far stay in the \<open>.part\<close> file for a later
  resume, and only an empty \<open>.part\<close> file of a failed download is removed.
\<close>

theorem runTask_keeps_part:
  assumes "prepared env mHttp j" and "fetch_of env j = ((stat, written), content, events)" and "\<not> isOk stat"
  shows "\<exists>j'. fst (runTask env mHttp j) = j' \<and>
    t_state (j_task j') = (if e_cancel_later env \<or> serviceSpecificErrorCode stat = error_code kErrorCanceled
                           then STATE_CANCELED else STATE_FAILED) \<and>
    j_files j' (t_partPath (j_task j)) =
      (if t_state (j_task j') = STATE_FAILED \<and> content = [] then None else Some (Regular content)) \<and>
    j_files j' (t_destPath (j_task j)) = j_files j (t_destPath (j_task j))"
  using assms by (rule failed_run)

text \<open>
  C1. A download from end to end: the \<open>.part\<close> file of an earlier attempt, the worker, \<open>fetchToFd\<close> of
  the http service and a server that answers with the rest of the resource, or with all of it, leave
  the whole resource at the destination.
\<close>

theorem download_end_to_end:
  assumes "prepared env mHttp j" and "e_rename env = None" and "j_files j (t_destPath (j_task j)) \<noteq> Some Directory"
    and "e_fetch env = service_fetch net others now t st"
    and "b = file_bytes (j_files j) (t_partPath (j_task j))"
    and "parseUrl (t_url (j_task j)) = Some ur" and "mRequests st (snd (e_newid env)) = None"
    and "answers (net_strerror net) (net_exchange net 0 ur (request_head ur (new_request (t_url (j_task j)) (int (length b)))))
           True ur (new_request (t_url (j_task j)) (int (length b))) (sl @ crlf @ render_headers hs @ body @ rest)"
    and "\<not> net_canceled net 0"
    and "status_line_ok sl code rsn" and "\<not> is_redirect code" and "code < 400"
    and "head_ok hs" and "contentLength (stored hs) = int (length body)"
    and "\<not> headers_contains (stored hs) ''Transfer-Encoding'' ''chunked''"
    and "body_extent (new_request (t_url (j_task j)) (int (length b))) (stored hs) code = (start, tot)"
    and "start = 0 \<or> start = int (length b)" and "good_sink t"
  shows "t_state (j_task (fst (runTask env mHttp j))) = STATE_COMPLETED \<and>
    j_files (fst (runTask env mHttp j)) (t_destPath (j_task j)) =
      Some (Regular (if start = 0 then body else b @ body))"
proof -
  obtain events where "fetch_of env j =
      ((status_ok, int (length body)), if start = 0 then body else b @ body, events)"
    using service_fetch_body [OF assms(6-18), of others now] assms(4,5)
    by (auto simp: fetch_of_def Let_def)
  from completed_run [OF assms(1) this _ assms(2,3)] show ?thesis by auto
qed



subsection \<open>A resumed download\<close>

definition sample_job :: job where
  "sample_job =
     \<lparr>j_task = \<lparr>t_id = 1, t_url = ''http://h/x'', t_destPath = ''/d/f'', t_partPath = ''/d/f.part'', t_callback = True,
        t_state = 0, t_downloaded = 0, t_total = -1, t_resumedFrom = 0, t_httpRequestId = -1, t_canceled = False,
        t_started = 0, t_message = ''''\<rparr>,
      j_files = (\<lambda>_. None)(''/d/f.part'' \<mapsto> Regular ''hel''), j_events = [], j_clock = (\<lambda>n. 1000000 * int n),
      j_ticks = 0, j_lastBytes = 0, j_lastReport = 0\<rparr>"

definition sample_env :: "(int \<Rightarrow> string \<Rightarrow> bytes \<Rightarrow> int \<Rightarrow> (status \<times> int) \<times> bytes \<times> http_event list) \<Rightarrow> dl_env" where
  "sample_env f =
     \<lparr>e_strerror = (\<lambda>_. ''''), e_mkdir = (\<lambda>_. None), e_open = None, e_dup = None, e_rename = None,
      e_alive = (\<lambda>_. True), e_answer = (\<lambda>_. Some 5), e_newid = (status_ok, 1), e_fetch = f,
      e_cancel_first = False, e_cancel_later = False, e_relayed = 1\<rparr>"

definition broken_fetch :: "int \<Rightarrow> string \<Rightarrow> bytes \<Rightarrow> int \<Rightarrow> (status \<times> int) \<times> bytes \<times> http_event list" where
  "broken_fetch rid u b resume =
     ((failure (error_code kErrorIo) ''connection reset'', 0), b @ ''l'', [OnResponseStart rid 206 3 5 ''''])"

lemma sample_prepared: "prepared (sample_env f) None sample_job"
proof -
  have "fst (ensureParentDir (\<lambda>_. '''') (\<lambda>_. None) ''/d/f'' ((\<lambda>_. None)(''/d/f.part'' \<mapsto> Regular ''hel''))) = None"
    by code_simp
  moreover have "fst (httpService (\<lambda>_. True) (\<lambda>_. Some 5) None) = Inr 5" by code_simp
  ultimately show ?thesis by (simp add: prepared_def sample_env_def sample_job_def)
qed

lemma sample_task:
  "t_partPath (j_task sample_job) = ''/d/f.part''" "t_destPath (j_task sample_job) = ''/d/f''"
  "t_url (j_task sample_job) = ''http://h/x''" "t_callback (j_task sample_job)" "t_id (j_task sample_job) = 1"
  "file_bytes (j_files sample_job) ''/d/f.part'' = ''hel''" "j_files sample_job ''/d/f'' = None" "finals sample_job = []"
  "t_partPath (j_task sample_job) = t_destPath (j_task sample_job) @ ''.part''"
  by (simp_all add: sample_job_def file_bytes_def finals_def)

lemma sample_broken:
  "fetch_of (sample_env broken_fetch) sample_job =
     ((failure (error_code kErrorIo) ''connection reset'', 0), ''hell'', [OnResponseStart 1 206 3 5 ''''])"
  by (simp add: fetch_of_def sample_task sample_env_def broken_fetch_def Let_def)

lemma sample_broken_status:
  "\<not> isOk (failure (error_code kErrorIo) m)" "serviceSpecificErrorCode (failure (error_code kErrorIo) m) \<noteq> error_code kErrorCanceled"
  by (simp_all add: failure_def serviceSpecificErrorCode_def fromServiceSpecificError_def isOk_def)

lemma sample_broken_run:
  "t_state (j_task (fst (runTask (sample_env broken_fetch) None sample_job))) = STATE_FAILED"
  using failed_run [OF sample_prepared sample_broken] sample_broken_status by (auto simp: sample_env_def)

theorem runTask_one_outcome_witness:
  "\<exists>e. finals (fst (runTask (sample_env broken_fetch) None sample_job)) = [e] \<and> event_state e = STATE_FAILED"
  using runTask_one_outcome [OF sample_task(9), of "sample_env broken_fetch" None]
  by (simp add: sample_task sample_broken_run)

theorem runTask_dest_atomic_witness:
  "j_files (fst (runTask (sample_env broken_fetch) None sample_job)) ''/d/f'' = None"
  using runTask_dest_atomic [OF sample_task(9), of "sample_env broken_fetch" None]
  by (simp add: sample_task sample_broken_run)

theorem runTask_completes_witness:
  "\<exists>j' elapsed. fst (runTask (sample_env (\<lambda>_ _ b _. ((status_ok, 2), b @ ''lo'', []))) None sample_job) = j' \<and>
     t_state (j_task j') = STATE_COMPLETED \<and> j_files j' ''/d/f'' = Some (Regular ''hello'') \<and>
     j_files j' ''/d/f.part'' = None \<and> finals j' = [OnCompleted 1 ''/d/f'' 5 elapsed]"
proof -
  let ?env = "sample_env (\<lambda>_ _ b _. ((status_ok, 2), b @ ''lo'', []))"
  have f: "fetch_of ?env sample_job = ((status_ok, 2), ''hello'', [])"
    by (simp add: fetch_of_def sample_task sample_env_def Let_def)
  show ?thesis
    using runTask_completes [OF sample_prepared f] by (simp add: sample_task sample_env_def)
qed

theorem runTask_keeps_part_witness:
  "\<exists>j'. fst (runTask (sample_env broken_fetch) None sample_job) = j' \<and> t_state (j_task j') = STATE_FAILED \<and>
     j_files j' ''/d/f.part'' = Some (Regular ''hell'') \<and> j_files j' ''/d/f'' = None"
  using runTask_keeps_part [OF sample_prepared sample_broken] sample_broken_status
  by (simp add: sample_task sample_env_def)

theorem download_end_to_end_witness:
  "j_files (fst (runTask (sample_env (service_fetch (packets_net (\<lambda>_. sample_packets)) id 0 sample_transfer HttpService_init))
     None sample_job)) ''/d/f'' = Some (Regular ''hello'')"
proof -
  let ?env = "sample_env (service_fetch (packets_net (\<lambda>_. sample_packets)) id 0 sample_transfer HttpService_init)"
  have len: "3 = int (length (file_bytes (j_files sample_job) (t_partPath (j_task sample_job))))" by (simp add: sample_task)
  have "t_state (j_task (fst (runTask ?env None sample_job))) = STATE_COMPLETED \<and>
      j_files (fst (runTask ?env None sample_job)) (t_destPath (j_task sample_job)) =
      Some (Regular (if (3::int) = 0 then ''lo'' else ''hel'' @ ''lo''))"
    by (rule download_end_to_end [OF sample_prepared _ _ _ _ _ _ sample_answers _ sample_head(1) _ _ sample_head(2-4)
          _ _ sample_sink, where ur = "\<lparr>scheme = ''http'', host = ''h'', port = ''80'', target = ''/x''\<rparr>"
            and st = HttpService_init and others = id and now = 0])
      (simp_all add: sample_task sample_env_def sample_url sample_side sample_head HttpService_init_def)
  then show ?thesis by (simp add: sample_task)
qed

end
