(* ===== verification/Download_Service.thy ===== *)
theory Download_Service
  imports Download_Run
begin

text \<open>
  The binder interface of \<open>download.service\<close> (\<open>service/download/DownloadService.cpp\<close>): the task
  table and its calls. Tasks are shared by the table, their worker and their relay; the table keeps
  every task it ever had, so a task is known by its id here.
\<close>

subsection \<open>The service\<close>

record download_service =
  mTasks :: "int \<Rightarrow> task option"
  mOrder :: "int list"
  mNextTask :: int
  mHttp :: "nat option"

definition DownloadService_init :: download_service where
  "DownloadService_init = \<lparr>mTasks = (\<lambda>_. None), mOrder = [], mNextTask = 1, mHttp = None\<rparr>"

definition findTask :: "int \<Rightarrow> download_service \<Rightarrow> task option" where
  "findTask i st = mTasks st i"

definition new_task :: "int \<Rightarrow> string \<Rightarrow> string \<Rightarrow> bool \<Rightarrow> task" where
  "new_task i u dest callback =
     \<lparr>t_id = i, t_url = u, t_destPath = dest, t_partPath = dest @ ''.part'', t_callback = callback,
      t_state = STATE_PENDING, t_downloaded = 0, t_total = -1, t_resumedFrom = 0, t_httpRequestId = -1,
      t_canceled = False, t_started = 0, t_message = ''''\<rparr>"

text \<open>The new task, if any, is the one whose worker thread starts.\<close>

definition enqueue :: "string \<Rightarrow> string \<Rightarrow> bool \<Rightarrow> download_service \<Rightarrow> (status \<times> int) \<times> download_service" where
  "enqueue u dest callback st =
     (if u = [] then ((download_failure ERROR_HTTP ''empty url'', -1), st)
      else if dest = [] \<or> last dest = CHR ''/''
      then ((download_failure ERROR_BAD_DESTINATION
               (''destPath must name a file: '' @ [CHR 0x22] @ dest @ [CHR 0x22]), -1), st)
      else
        (let i = mNextTask st
         in ((status_ok, i),
             st\<lparr>mNextTask := s32 (i + 1), mTasks := (mTasks st)(i \<mapsto> new_task i u dest callback),
                mOrder := mOrder st @ [i]\<rparr>)))"

text \<open>The second component: the request the http service is told to cancel.\<close>

definition DownloadService_cancel :: "(nat \<Rightarrow> bool) \<Rightarrow> (nat \<Rightarrow> nat option) \<Rightarrow> int \<Rightarrow> download_service \<Rightarrow>
    status \<times> int option \<times> download_service" where
  "DownloadService_cancel alive answer i st =
     (case findTask i st of
        None \<Rightarrow> (status_ok, None, st)
      | Some t \<Rightarrow>
          if isTerminal (t_state t) then (status_ok, None, st)
          else
            (let st1 = st\<lparr>mTasks := (mTasks st)(i \<mapsto> t\<lparr>t_canceled := True\<rparr>)\<rparr>
             in if t_httpRequestId t \<ge> 0 then
                  (case httpService alive answer (mHttp st1) of
                     (Inr b, h) \<Rightarrow> (status_ok, Some (t_httpRequestId t), st1\<lparr>mHttp := h\<rparr>)
                   | (Inl e, h) \<Rightarrow> (status_ok, None, st1\<lparr>mHttp := h\<rparr>))
                else (status_ok, None, st1)))"

definition getState :: "int \<Rightarrow> download_service \<Rightarrow> status \<times> int" where
  "getState i st = (status_ok, case findTask i st of None \<Rightarrow> STATE_UNKNOWN | Some t \<Rightarrow> t_state t)"

definition getDownloadedBytes :: "int \<Rightarrow> download_service \<Rightarrow> status \<times> int" where
  "getDownloadedBytes i st = (status_ok, case findTask i st of None \<Rightarrow> -1 | Some t \<Rightarrow> t_downloaded t)"

definition getDownloadIds :: "download_service \<Rightarrow> status \<times> int list" where
  "getDownloadIds st = (status_ok, mOrder st)"

definition kStateNames :: "string list" where
  "kStateNames = [''pending'', ''running'', ''completed'', ''failed'', ''canceled'']"

definition describe :: "int \<Rightarrow> download_service \<Rightarrow> status \<times> string" where
  "describe i st =
     (case findTask i st of
        None \<Rightarrow> (status_ok, ''#'' @ int_to_dec i @ '' unknown'')
      | Some t \<Rightarrow>
          (status_ok,
           ''#'' @ int_to_dec (t_id t) @ '' '' @
           (if t_state t \<ge> 0 \<and> t_state t \<le> 4 then kStateNames ! nat (t_state t) else ''unknown'') @ '' '' @
           int_to_dec (t_downloaded t) @ ''/'' @
           (if t_total t < 0 then ''?'' else int_to_dec (t_total t)) @
           '' bytes '' @ t_url t @ '' -> '' @ t_destPath t @
           (if t_message t \<noteq> [] then '' ('' @ t_message t @ '')'' else '''')))"

definition DownloadService_runService :: "int \<Rightarrow> int option" where
  "DownloadService_runService addService_status = (if addService_status \<noteq> OK then Some 1 else None)"


subsection \<open>The table\<close>

text \<open>
  The ids handed out so far are \<open>1, 2, \<dots>\<close> in order, every one of them and nothing else is in the table,
  under its own id, and writes to \<open>.part\<close> beside its destination.
\<close>

definition tasks_ok :: "download_service \<Rightarrow> bool" where
  "tasks_ok st \<longleftrightarrow> mOrder st = map int [1..<nat (mNextTask st)] \<and> 1 \<le> mNextTask st \<and>
     (\<forall>i. (mTasks st i \<noteq> None) = (i \<in> set (mOrder st))) \<and>
     (\<forall>i t. mTasks st i = Some t \<longrightarrow> t_id t = i \<and> t_partPath t = t_destPath t @ ''.part'' \<and> t_url t \<noteq> [] \<and>
        t_destPath t \<noteq> [])"

lemma tasks_ok_init: "tasks_ok DownloadService_init"
  by (simp add: tasks_ok_def DownloadService_init_def)

lemma tasks_ok_enqueue:
  assumes "tasks_ok st" and "mNextTask st < 2 ^ 31 - 1"
  shows "tasks_ok (snd (enqueue u dest callback st))"
proof -
  have n: "s32 (mNextTask st + 1) = mNextTask st + 1" using assms by (simp add: tasks_ok_def s32_id)
  have "nat (mNextTask st + 1) = Suc (nat (mNextTask st))" "1 \<le> nat (mNextTask st)"
    "int (nat (mNextTask st)) = mNextTask st"
    using assms(1) by (auto simp: tasks_ok_def)
  then show ?thesis
    using assms(1) n by (auto simp: enqueue_def tasks_ok_def Let_def new_task_def)
qed

lemma tasks_ok_cancel: "tasks_ok st \<Longrightarrow> tasks_ok (snd (snd (DownloadService_cancel alive answer i st)))"
  by (auto simp: DownloadService_cancel_def tasks_ok_def findTask_def Let_def
      split: option.splits prod.splits sum.splits if_splits)


subsection \<open>Properties\<close>

text \<open>
  An accepted \<open>enqueue\<close> gives an id no download had before, puts it last in \<open>getDownloadIds\<close>, starts
  the download as pending, leaves every other download alone, and keeps the table well-formed.
\<close>

theorem enqueue_fresh:
  assumes "tasks_ok st" and "mNextTask st < 2 ^ 31 - 1"
    and "enqueue u dest callback st = ((stat, i), st')" and "isOk stat"
  shows "findTask i st = None \<and> getDownloadIds st' = (status_ok, mOrder st @ [i]) \<and>
    getState i st' = (status_ok, STATE_PENDING) \<and> distinct (mOrder st') \<and>
    (\<forall>k. k \<noteq> i \<longrightarrow> findTask k st' = findTask k st) \<and> tasks_ok st'"
proof -
  have acc: "i = mNextTask st" "st' = st\<lparr>mNextTask := s32 (i + 1), mTasks := (mTasks st)(i \<mapsto> new_task i u dest callback),
      mOrder := mOrder st @ [i]\<rparr>"
    using assms(3,4) by (auto simp: enqueue_def download_failure_def Let_def split: if_splits)
  have ok: "tasks_ok st'" using tasks_ok_enqueue [OF assms(1,2), of u dest callback] assms(3) by simp
  then have "distinct (mOrder st')" by (simp add: tasks_ok_def distinct_map)
  moreover have "mTasks st i = None"
  proof -
    have "i \<notin> set (mOrder st)" using assms(1) acc(1) by (auto simp: tasks_ok_def)
    then show ?thesis using assms(1) unfolding tasks_ok_def by blast
  qed
  ultimately show ?thesis
    using ok acc by (simp add: findTask_def getDownloadIds_def getState_def new_task_def)
qed

theorem enqueue_fresh_witness:
  "case enqueue ''http://h/x'' ''/d/f'' True DownloadService_init of ((stat, i), st') \<Rightarrow>
     findTask i DownloadService_init = None \<and> getDownloadIds st' = (status_ok, [i]) \<and>
     getState i st' = (status_ok, STATE_PENDING)"
proof -
  obtain st' where e: "enqueue ''http://h/x'' ''/d/f'' True DownloadService_init = ((status_ok, 1), st')"
    by (simp add: enqueue_def DownloadService_init_def)
  show ?thesis
    using enqueue_fresh [OF tasks_ok_init _ e] e by (simp add: DownloadService_init_def)
qed

text \<open>
  \<open>cancel\<close> of an unknown or finished download changes nothing and reaches nobody; of any other it
  sets the flag of that task only, and passes the cancel on to the http service exactly when the
  worker has published its request id and the service can be found.
\<close>

theorem cancel_effect:
  "DownloadService_cancel alive answer i st =
     (status_ok,
      case findTask i st of
        None \<Rightarrow> None
      | Some t \<Rightarrow>
          if isTerminal (t_state t) \<or> t_httpRequestId t < 0 \<or>
             (\<exists>e. fst (httpService alive answer (mHttp st)) = Inl e)
          then None else Some (t_httpRequestId t),
      snd (snd (DownloadService_cancel alive answer i st))) \<and>
   (\<forall>k. findTask k (snd (snd (DownloadService_cancel alive answer i st))) =
      (case findTask k st of
         None \<Rightarrow> None
       | Some t \<Rightarrow> Some (if k = i \<and> \<not> isTerminal (t_state t) then t\<lparr>t_canceled := True\<rparr> else t)))"
  by (auto simp: DownloadService_cancel_def findTask_def Let_def
      split: option.splits prod.splits sum.splits)

end
