(* ===== verification/Download_Steps.thy ===== *)
theory Download_Steps
  imports Download_Service
begin

text \<open>
  The threads of \<open>download.service\<close> around one task, step by step: the worker and the callers of
  \<open>cancel\<close> (who must not both miss each other), and the worker and the callers of
  \<open>awaitCompletion\<close> (who must wake up).
\<close>

subsection \<open>Cancelling against the start of the transfer\<close>

text \<open>
  The worker from \<open>newRequestId\<close> on: it publishes the id, then reads the flag, then either ends as
  cancelled or is inside \<open>fetchToFd\<close>. A canceller stores the flag, then loads the id, then, if
  there is one, sends the cancel to the http service.
\<close>

datatype worker_pc = WHasId int | WPublished int | WFetching int | WCanceled

datatype canceller_pc = CStart | CFlagged | CLoaded int | CDone

record protocol =
  p_canceled :: bool
  p_requestId :: int
  p_sent :: "int set"
  p_worker :: worker_pc
  p_cancellers :: "nat \<Rightarrow> canceller_pc"

inductive protocol_step :: "protocol \<Rightarrow> protocol \<Rightarrow> bool" where
  publish: "p_worker p = WHasId r \<Longrightarrow> protocol_step p (p\<lparr>p_requestId := r, p_worker := WPublished r\<rparr>)"
| check: "p_worker p = WPublished r \<Longrightarrow>
    protocol_step p (p\<lparr>p_worker := (if p_canceled p then WCanceled else WFetching r)\<rparr>)"
| flag: "p_cancellers p k = CStart \<Longrightarrow>
    protocol_step p (p\<lparr>p_canceled := True, p_cancellers := (p_cancellers p)(k := CFlagged)\<rparr>)"
| load: "p_cancellers p k = CFlagged \<Longrightarrow>
    protocol_step p (p\<lparr>p_cancellers := (p_cancellers p)(k := CLoaded (p_requestId p))\<rparr>)"
| send: "p_cancellers p k = CLoaded r \<Longrightarrow>
    protocol_step p (p\<lparr>p_sent := (if r \<ge> 0 then insert r (p_sent p) else p_sent p),
                      p_cancellers := (p_cancellers p)(k := CDone)\<rparr>)"

inductive_cases protocol_stepE: "protocol_step p p'"

definition protocol_init :: "int \<Rightarrow> protocol" where
  "protocol_init r = \<lparr>p_canceled = False, p_requestId = -1, p_sent = {}, p_worker = WHasId r,
     p_cancellers = (\<lambda>_. CStart)\<rparr>"

text \<open>
  A canceller past its store has set the flag; one that loaded no id did so before the publication,
  so that the worker cannot be in the transfer; one that loaded an id will send it or has.
\<close>

definition protocol_ok :: "int \<Rightarrow> protocol \<Rightarrow> bool" where
  "protocol_ok r p \<longleftrightarrow>
     p_worker p \<in> {WHasId r, WPublished r, WFetching r, WCanceled} \<and>
     (p_requestId p = -1 \<or> p_requestId p = r) \<and>
     (p_worker p \<noteq> WHasId r \<longrightarrow> p_requestId p = r) \<and>
     (\<forall>k. p_cancellers p k \<noteq> CStart \<longrightarrow> p_canceled p) \<and>
     (\<forall>k l. p_cancellers p k = CLoaded l \<longrightarrow> l = r \<or> l = -1 \<and> p_worker p \<noteq> WFetching r) \<and>
     (\<forall>k. p_cancellers p k = CDone \<longrightarrow> r \<in> p_sent p \<or> p_worker p \<noteq> WFetching r)"

lemma protocol_ok_init: "protocol_ok r (protocol_init r)"
  by (simp add: protocol_ok_def protocol_init_def)

lemma protocol_ok_step:
  assumes "protocol_step p p'" and "protocol_ok r p" and "0 \<le> r"
  shows "protocol_ok r p'"
  using assms by (elim protocol_stepE) (auto simp: protocol_ok_def)

lemma protocol_ok_reach:
  assumes "protocol_step\<^sup>*\<^sup>* (protocol_init r) p" and "0 \<le> r"
  shows "protocol_ok r p"
  using assms(1)
  by (induction rule: rtranclp_induct) (auto intro: protocol_ok_init protocol_ok_step [OF _ _ assms(2)])




subsection \<open>Waiting for the end\<close>

text \<open>
  The end of a run against \<open>awaitCompletion\<close> without a timeout. The finisher takes the lock for the
  message only, then stores the state, then notifies. A waiter takes the lock, evaluates its
  predicate, and goes to sleep, releasing the lock; a notification makes the sleepers of that moment
  contend for the lock and evaluate again.
\<close>

datatype finisher_pc = FRunning | FLocked | FUnlocked | FStored | FNotified

datatype waiter_pc = AEntering | ALocked | AChecked | ASleeping | ANotified | AReturned int

record await_state =
  a_lock :: "nat option option"
  a_state :: int
  a_message :: string
  a_finisher :: finisher_pc
  a_waiters :: "nat \<Rightarrow> waiter_pc"

text \<open>The lock is free (\<open>None\<close>), held by the finisher (\<open>Some None\<close>) or by a waiter.\<close>

definition await_init :: await_state where
  "await_init = \<lparr>a_lock = None, a_state = STATE_RUNNING, a_message = '''', a_finisher = FRunning,
     a_waiters = (\<lambda>_. AEntering)\<rparr>"

inductive await_step :: "int \<Rightarrow> string \<Rightarrow> await_state \<Rightarrow> await_state \<Rightarrow> bool" for st m where
  finish_lock: "a_finisher w = FRunning \<Longrightarrow> a_lock w = None \<Longrightarrow>
    await_step st m w (w\<lparr>a_lock := Some None, a_message := m, a_finisher := FLocked\<rparr>)"
| finish_unlock: "a_finisher w = FLocked \<Longrightarrow>
    await_step st m w (w\<lparr>a_lock := None, a_finisher := FUnlocked\<rparr>)"
| finish_store: "a_finisher w = FUnlocked \<Longrightarrow>
    await_step st m w (w\<lparr>a_state := st, a_finisher := FStored\<rparr>)"
| finish_notify: "a_finisher w = FStored \<Longrightarrow>
    await_step st m w (w\<lparr>a_finisher := FNotified,
      a_waiters := (\<lambda>k. if a_waiters w k = ASleeping then ANotified else a_waiters w k)\<rparr>)"
| wait_lock: "a_waiters w k = AEntering \<or> a_waiters w k = ANotified \<Longrightarrow> a_lock w = None \<Longrightarrow>
    await_step st m w (w\<lparr>a_lock := Some (Some k), a_waiters := (a_waiters w)(k := ALocked)\<rparr>)"
| wait_done: "a_waiters w k = ALocked \<Longrightarrow> isTerminal (a_state w) \<Longrightarrow>
    await_step st m w (w\<lparr>a_lock := None, a_waiters := (a_waiters w)(k := AReturned (a_state w))\<rparr>)"
| wait_check: "a_waiters w k = ALocked \<Longrightarrow> \<not> isTerminal (a_state w) \<Longrightarrow>
    await_step st m w (w\<lparr>a_waiters := (a_waiters w)(k := AChecked)\<rparr>)"
| wait_sleep: "a_waiters w k = AChecked \<Longrightarrow>
    await_step st m w (w\<lparr>a_lock := None, a_waiters := (a_waiters w)(k := ASleeping)\<rparr>)"

inductive_cases await_stepE: "await_step st m w w'"

definition await_ok :: "int \<Rightarrow> string \<Rightarrow> await_state \<Rightarrow> bool" where
  "await_ok st m w \<longleftrightarrow>
     (a_state w = STATE_RUNNING \<and> a_finisher w \<notin> {FStored, FNotified} \<or> a_state w = st \<and> a_finisher w \<in> {FStored, FNotified}) \<and>
     (a_finisher w \<noteq> FRunning \<longrightarrow> a_message w = m) \<and>
     (\<forall>k s. a_waiters w k = AReturned s \<longrightarrow> s = st \<and> isTerminal s \<and> a_state w = st)"

lemma await_ok_init: "await_ok st m await_init"
  by (simp add: await_ok_def await_init_def)

lemma await_ok_step:
  assumes "await_step st m w w'" and "await_ok st m w"
  shows "await_ok st m w'"
  using assms by (elim await_stepE) (auto simp: await_ok_def)

lemma await_ok_reach: "(await_step st m)\<^sup>*\<^sup>* await_init w \<Longrightarrow> await_ok st m w"
  by (induction rule: rtranclp_induct) (auto intro: await_ok_init await_ok_step)

text \<open>
  \<open>awaitCompletion\<close> without a timeout returns only at a terminal state, the one the worker ended in,
  and whoever sees that state also sees the message that goes with it.
\<close>

theorem await_returns_final:
  assumes "(await_step st m)\<^sup>*\<^sup>* await_init w" and "a_waiters w k = AReturned s"
  shows "s = st \<and> isTerminal s \<and> a_message w = m"
proof -
  have ok: "await_ok st m w" by (rule await_ok_reach [OF assms(1)])
  then have s: "s = st" "isTerminal s" "a_state w = st" using assms(2) by (auto simp: await_ok_def)
  then have "a_finisher w \<noteq> FRunning" using ok by (auto simp: await_ok_def)
  then show ?thesis using ok s by (auto simp: await_ok_def)
qed

text \<open>The interleaving in which the state is stored and announced between the test and the sleep.\<close>

definition missed :: await_state where
  "missed = \<lparr>a_lock = None, a_state = STATE_COMPLETED, a_message = ''completed'', a_finisher = FNotified,
     a_waiters = (\<lambda>_. AEntering)(0 := ASleeping)\<rparr>"

lemma missed_reachable: "(await_step STATE_COMPLETED ''completed'')\<^sup>*\<^sup>* await_init missed"
proof -
  let ?s = "await_step STATE_COMPLETED ''completed''"
  define w1 where "w1 = await_init\<lparr>a_lock := Some None, a_message := ''completed'', a_finisher := FLocked\<rparr>"
  define w2 where "w2 = w1\<lparr>a_lock := None, a_finisher := FUnlocked\<rparr>"
  define w3 where "w3 = w2\<lparr>a_lock := Some (Some 0), a_waiters := (a_waiters w2)(0 := ALocked)\<rparr>"
  define w4 where "w4 = w3\<lparr>a_waiters := (a_waiters w3)(0 := AChecked)\<rparr>"
  define w5 where "w5 = w4\<lparr>a_state := STATE_COMPLETED, a_finisher := FStored\<rparr>"
  define w6 where "w6 = w5\<lparr>a_finisher := FNotified,
      a_waiters := (\<lambda>k. if a_waiters w5 k = ASleeping then ANotified else a_waiters w5 k)\<rparr>"
  define w7 where "w7 = w6\<lparr>a_lock := None, a_waiters := (a_waiters w6)(0 := ASleeping)\<rparr>"
  note defs = w7_def w6_def w5_def w4_def w3_def w2_def w1_def await_init_def
  have s1: "?s await_init w1" unfolding w1_def by (rule await_step.finish_lock) (simp_all add: defs)
  have s2: "?s w1 w2" unfolding w2_def by (rule await_step.finish_unlock) (simp_all add: defs)
  have s3: "?s w2 w3" unfolding w3_def by (rule await_step.wait_lock) (simp_all add: defs)
  have s4: "?s w3 w4" unfolding w4_def by (rule await_step.wait_check) (simp_all add: defs)
  have s5: "?s w4 w5" unfolding w5_def by (rule await_step.finish_store) (simp_all add: defs)
  have s6: "?s w5 w6" unfolding w6_def by (rule await_step.finish_notify) (simp_all add: defs)
  have s7: "?s w6 w7" unfolding w7_def by (rule await_step.wait_sleep) (simp_all add: defs)
  have "?s\<^sup>*\<^sup>* await_init w7"
    using chain_rtranclp [of ?s await_init "[w1, w2, w3, w4, w5, w6, w7]"] s1 s2 s3 s4 s5 s6 s7 by simp
  moreover have "w7 = missed" by (auto simp: defs missed_def fun_eq_iff)
  ultimately show ?thesis by simp
qed

lemma missed_stuck:
  assumes "(await_step STATE_COMPLETED ''completed'')\<^sup>*\<^sup>* missed w"
  shows "a_waiters w 0 = ASleeping \<and> a_finisher w = FNotified"
  using assms
proof (induction rule: rtranclp_induct)
  case (step w1 w2)
  then show ?case by (elim await_stepE) (auto split: if_splits intro!: gr0I)
qed (simp add: missed_def)

text \<open>
  C39. The wake-up can be lost: there is an interleaving after which the download is completed and
  announced while a caller of \<open>awaitCompletion\<close> sleeps, and nothing the service does wakes it again.
\<close>

theorem await_lost_wakeup:
  "\<exists>w. (await_step STATE_COMPLETED ''completed'')\<^sup>*\<^sup>* await_init w \<and> isTerminal (a_state w) \<and>
     \<not> (\<exists>w'. (await_step STATE_COMPLETED ''completed'')\<^sup>*\<^sup>* w w' \<and> a_waiters w' 0 \<noteq> ASleeping)"
  using missed_reachable missed_stuck by (intro exI [of _ missed]) (auto simp: missed_def)

theorem await_returns_final_witness:
  "\<exists>w. (await_step STATE_FAILED ''disk full'')\<^sup>*\<^sup>* await_init w \<and> a_waiters w 0 = AReturned STATE_FAILED \<and>
     a_message w = ''disk full''"
proof -
  let ?s = "await_step STATE_FAILED ''disk full''"
  define w1 where "w1 = await_init\<lparr>a_lock := Some None, a_message := ''disk full'', a_finisher := FLocked\<rparr>"
  define w2 where "w2 = w1\<lparr>a_lock := None, a_finisher := FUnlocked\<rparr>"
  define w3 where "w3 = w2\<lparr>a_state := STATE_FAILED, a_finisher := FStored\<rparr>"
  define w4 where "w4 = w3\<lparr>a_lock := Some (Some 0), a_waiters := (a_waiters w3)(0 := ALocked)\<rparr>"
  define w5 where "w5 = w4\<lparr>a_lock := None, a_waiters := (a_waiters w4)(0 := AReturned (a_state w4))\<rparr>"
  note defs = w5_def w4_def w3_def w2_def w1_def await_init_def
  have s1: "?s await_init w1" unfolding w1_def by (rule await_step.finish_lock) (simp_all add: defs)
  have s2: "?s w1 w2" unfolding w2_def by (rule await_step.finish_unlock) (simp_all add: defs)
  have s3: "?s w2 w3" unfolding w3_def by (rule await_step.finish_store) (simp_all add: defs)
  have s4: "?s w3 w4" unfolding w4_def by (rule await_step.wait_lock) (simp_all add: defs)
  have s5: "?s w4 w5" unfolding w5_def by (rule await_step.wait_done) (simp_all add: defs)
  have r: "?s\<^sup>*\<^sup>* await_init w5"
    using chain_rtranclp [of ?s await_init "[w1, w2, w3, w4, w5]"] s1 s2 s3 s4 s5 by simp
  have "a_waiters w5 0 = AReturned STATE_FAILED" by (simp add: defs)
  with r await_returns_final [OF r this] show ?thesis by blast
qed

end
