(* ===== verification/Download_Client.thy ===== *)
theory Download_Client
  imports Download_Service
begin

text \<open>
  The command line client (\<open>client/download.cpp\<close>): its arguments, the names it derives from the URL
  and from its working directory, the callback object that the download service calls back, and
  the exit code. What it prints is left out, except the progress bar, which is built in memory.
\<close>

subsection \<open>Paths and arguments\<close>

definition kDefaultUrl :: string where
  "kDefaultUrl = ''https://proof.ovh.net/files/10Mb.dat''"

text \<open>\<open>cwd\<close> is the result of \<open>getcwd\<close>.\<close>

definition absolutePath :: "string option \<Rightarrow> string \<Rightarrow> string" where
  "absolutePath cwd path =
     (if path \<noteq> [] \<and> hd path = CHR ''/'' then path
      else case cwd of None \<Rightarrow> path | Some d \<Rightarrow> d @ ''/'' @ path)"

definition fileNameFromUrl :: "string \<Rightarrow> string" where
  "fileNameFromUrl u =
     (let start = (case find_sub ''://'' u of None \<Rightarrow> 0 | Some k \<Rightarrow> k + 3);
          query = find_from (\<lambda>c. c = CHR ''?'' \<or> c = CHR ''#'') start u;
          path = (case query of None \<Rightarrow> substr_from u start | Some q \<Rightarrow> substr u start (q - start));
          name = (case rfind_char (CHR ''/'') path of None \<Rightarrow> '''' | Some k \<Rightarrow> substr_from path (k + 1))
      in if name = [] then ''download.bin'' else name)"

record options =
  opt_url :: string
  opt_destPath :: string
  opt_cancelAfterMs :: int
  opt_quiet :: bool

definition new_options :: options where
  "new_options = \<lparr>opt_url = '''', opt_destPath = '''', opt_cancelAfterMs = 0, opt_quiet = False\<rparr>"

fun parse_loop :: "string list \<Rightarrow> options \<Rightarrow> options option" where
  "parse_loop [] opts = Some opts"
| "parse_loop (arg # args) opts =
     (if arg = ''--quiet'' then parse_loop args (opts\<lparr>opt_quiet := True\<rparr>)
      else if is_prefix ''--cancel-after='' arg
      then parse_loop args (opts\<lparr>opt_cancelAfterMs := atoi (drop (length ''--cancel-after='') arg)\<rparr>)
      else if is_prefix ''--'' arg then None
      else if opt_url opts = [] then parse_loop args (opts\<lparr>opt_url := arg\<rparr>)
      else if opt_destPath opts = [] then parse_loop args (opts\<lparr>opt_destPath := arg\<rparr>)
      else None)"

definition parseArgs :: "string option \<Rightarrow> string list \<Rightarrow> options option" where
  "parseArgs cwd args =
     (case parse_loop args new_options of
        None \<Rightarrow> None
      | Some opts \<Rightarrow>
          (let u = (if opt_url opts = [] then kDefaultUrl else opt_url opts);
               dest = (if opt_destPath opts = [] then ''downloads/'' @ fileNameFromUrl u else opt_destPath opts)
           in Some (opts\<lparr>opt_url := u, opt_destPath := absolutePath cwd dest\<rparr>)))"


subsection \<open>The callback object\<close>

text \<open>
  The bar of \<open>onProgress\<close>: two \<open>memset\<close>s into a buffer of 41 bytes. The lengths are converted to
  \<open>size_t\<close>, so that a negative one is huge; \<open>None\<close> is a write outside the buffer.
\<close>

definition memset :: "nat \<Rightarrow> char \<Rightarrow> int \<Rightarrow> char list \<Rightarrow> char list option" where
  "memset at c len buf =
     (if 0 \<le> len \<and> at + nat len \<le> length buf
      then Some (take at buf @ replicate (nat len) c @ drop (at + nat len) buf) else None)"

definition progress_bar :: "int \<Rightarrow> string option" where
  "progress_bar percent =
     (let filled = (if percent < 0 then 0 else cdiv (s32 (percent * 40)) 100);
          bar = replicate 41 (CHR 0x00)
      in case memset 0 (CHR ''='') filled bar of
           None \<Rightarrow> None
         | Some bar1 \<Rightarrow>
             (case memset (nat filled) (CHR '' '') (40 - filled) bar1 of
                None \<Rightarrow> None
              | Some bar2 \<Rightarrow> Some (take 40 (bar2[40 := CHR 0x00]))))"

text \<open>\<open>cb_crashed\<close>: a write went outside the buffer.\<close>

record callback =
  cb_quiet :: bool
  cb_state :: int
  cb_crashed :: bool

definition new_callback :: "bool \<Rightarrow> callback" where
  "new_callback isQuiet = \<lparr>cb_quiet = isQuiet, cb_state = STATE_UNKNOWN, cb_crashed = False\<rparr>"

definition callback_settle :: "int \<Rightarrow> callback \<Rightarrow> callback" where
  "callback_settle st c = c\<lparr>cb_state := st\<rparr>"

fun callback_event :: "client_event \<Rightarrow> callback \<Rightarrow> callback" where
  "callback_event (OnStarted i u tot resumed) c = c"
| "callback_event (OnProgress i n tot percent rate) c =
     (if cb_quiet c then c else c\<lparr>cb_crashed := cb_crashed c \<or> progress_bar percent = None\<rparr>)"
| "callback_event (OnCompleted i path tot elapsed) c = callback_settle STATE_COMPLETED c"
| "callback_event (OnFailed i code message) c = callback_settle STATE_FAILED c"
| "callback_event (OnCanceled i n) c = callback_settle STATE_CANCELED c"

definition abandon :: "callback \<Rightarrow> callback" where
  "abandon c = callback_settle STATE_FAILED c"

text \<open>What reaches the client while it waits: callbacks and the death of the service.\<close>

datatype client_input = Called client_event | Died

fun callback_input :: "client_input \<Rightarrow> callback \<Rightarrow> callback" where
  "callback_input (Called e) c = callback_event e c"
| "callback_input Died c = abandon c"

text \<open>\<open>await\<close> returns the state once it is known; before that it waits.\<close>

definition callback_await :: "callback \<Rightarrow> int option" where
  "callback_await c = (if cb_state c \<noteq> STATE_UNKNOWN then Some (cb_state c) else None)"

text \<open>
  \<open>main\<close>: the exit code, or \<open>None\<close> while it waits. \<open>found\<close> is whether the service is registered, \<open>enq\<close>
  the reply to \<open>enqueue\<close>, \<open>inputs\<close> what arrived before \<open>await\<close> looked last.
\<close>

definition client_main :: "string option \<Rightarrow> string list \<Rightarrow> bool \<Rightarrow> (string \<Rightarrow> string \<Rightarrow> status \<times> int) \<Rightarrow>
    client_input list \<Rightarrow> int option" where
  "client_main cwd args found enq inputs =
     (case parseArgs cwd args of
        None \<Rightarrow> Some 2
      | Some opts \<Rightarrow>
          if \<not> found then Some 1
          else if \<not> isOk (fst (enq (opt_url opts) (opt_destPath opts))) then Some 1
          else map_option (\<lambda>st. if st = STATE_COMPLETED then 0 else 1)
                 (callback_await (fold callback_input inputs (new_callback (opt_quiet opts)))))"


subsection \<open>Facts\<close>

lemma memset_some:
  "memset at c len buf = Some b \<Longrightarrow> length b = length buf"
  by (auto simp: memset_def split: if_splits)

lemma cdiv_pos: "0 \<le> a \<Longrightarrow> 0 < b \<Longrightarrow> cdiv a b = a div b"
  by (cases "a = 0") (simp_all add: cdiv_def)

lemma progress_bar_ok:
  assumes "-1 \<le> percent" and "percent \<le> 100"
  shows "\<exists>n. n \<le> 40 \<and> int n = (if percent < 0 then 0 else percent * 40 div 100) \<and>
    progress_bar percent = Some (replicate n (CHR ''='') @ replicate (40 - n) (CHR '' ''))"
proof -
  define filled where "filled = (if percent < 0 then 0 else percent * 40 div 100)"
  have f: "0 \<le> filled" "filled \<le> 40" using assms by (auto simp: filled_def)
  have c: "(if percent < 0 then 0 else cdiv (s32 (percent * 40)) 100) = filled"
    using assms by (simp add: filled_def s32_id cdiv_pos)
  obtain n where n: "filled = int n" "n \<le> 40" using f by (metis nat_0_le nat_le_iff of_nat_numeral nonneg_int_cases of_nat_le_iff)
  have b1: "memset 0 (CHR ''='') filled (replicate 41 (CHR 0x00)) =
      Some (replicate n (CHR ''='') @ replicate (41 - n) (CHR 0x00))"
    using n by (simp add: memset_def)
  have b2: "memset (nat filled) (CHR '' '') (40 - filled) (replicate n (CHR ''='') @ replicate (41 - n) (CHR 0x00)) =
      Some (replicate n (CHR ''='') @ replicate (40 - n) (CHR '' '') @ [CHR 0x00])"
    using n by (simp add: memset_def nat_diff_distrib)
  have "progress_bar percent = Some (replicate n (CHR ''='') @ replicate (40 - n) (CHR '' ''))"
    unfolding progress_bar_def Let_def c b1 option.case b2 using n by simp
  then show ?thesis using n by (auto simp: filled_def)
qed

lemma progress_bar_overflow:
  assumes "103 \<le> percent" and "percent < 2 ^ 24"
  shows "progress_bar percent = None"
proof -
  have "41 \<le> percent * 40 div 100" using assms by auto
  then show ?thesis
    using assms by (auto simp: progress_bar_def Let_def s32_id cdiv_pos memset_def split: if_splits)
qed

text \<open>Inputs that settle the wait, and the state they settle it with.\<close>

definition settles :: "client_input \<Rightarrow> int option" where
  "settles x = (case x of
     Died \<Rightarrow> Some STATE_FAILED
   | Called e \<Rightarrow> if isTerminal (event_state e) then Some (event_state e) else None)"

lemma callback_input_state:
  "cb_state (callback_input x c) = (case settles x of None \<Rightarrow> cb_state c | Some st \<Rightarrow> st)"
proof (cases x)
  case (Called e)
  then show ?thesis by (cases e) (simp_all add: settles_def callback_settle_def)
qed (simp add: settles_def abandon_def callback_settle_def)

lemma fold_settled:
  assumes "List.map_filter settles inputs = [st]"
  shows "cb_state (fold callback_input inputs c) = st"
proof -
  have none: "List.map_filter settles xs = [] \<Longrightarrow> cb_state (fold callback_input xs c) = cb_state c" for xs c
    by (induction xs arbitrary: c) (auto simp: List.map_filter_simps callback_input_state split: option.splits)
  show ?thesis
    using assms
  proof (induction inputs arbitrary: c)
    case (Cons x xs)
    then show ?case
      by (cases "settles x") (auto simp: List.map_filter_simps callback_input_state none)
  qed (simp add: List.map_filter_simps)
qed

lemma prefix_trans: "is_prefix (a @ b) x \<Longrightarrow> is_prefix a x"
  by (induction a arbitrary: x) (auto elim: is_prefix.elims)

lemma rfind_char_rest: "rfind_char c xs = Some k \<Longrightarrow> c \<notin> set (drop (Suc k) xs)"
  by (simp add: rfind_char_Some)

lemma fileName_clean: "fileNameFromUrl u \<noteq> [] \<and> CHR ''/'' \<notin> set (fileNameFromUrl u)"
  by (auto simp: fileNameFromUrl_def Let_def substr_from_def split: option.splits dest: rfind_char_rest)

lemma absolutePath_abs:
  "cwd = Some d \<Longrightarrow> is_prefix ''/'' d \<Longrightarrow> is_prefix ''/'' (absolutePath cwd path)"
  by (cases path; cases d) (auto simp: absolutePath_def)

lemma absolutePath_last: "path \<noteq> [] \<Longrightarrow> absolutePath cwd path \<noteq> [] \<and> last (absolutePath cwd path) = last path"
  by (auto simp: absolutePath_def split: option.splits)


subsection \<open>Properties\<close>

text \<open>
  The file name taken from a URL is never empty and never leaves the directory it is put in: it has
  no slash. So a client started without a destination sends one that the service accepts.
\<close>

theorem default_destination_accepted:
  assumes "parseArgs cwd [u] = Some opts" and "\<not> is_prefix ''--'' u" and "u \<noteq> []"
  shows "CHR ''/'' \<notin> set (fileNameFromUrl u) \<and> opt_destPath opts = absolutePath cwd (''downloads/'' @ fileNameFromUrl u) \<and>
    isOk (fst (fst (enqueue (opt_url opts) (opt_destPath opts) True st)))"
proof -
  have p: "parse_loop [u] new_options = Some (new_options\<lparr>opt_url := u\<rparr>)"
    using assms prefix_trans [of "''--''" "''cancel-after=''" u]
    by (auto simp: new_options_def)
  then have "opt_url opts = u" using assms by (auto simp: parseArgs_def new_options_def Let_def)
  from p have d: "opt_destPath opts = absolutePath cwd (''downloads/'' @ fileNameFromUrl u)"
    using assms by (auto simp: parseArgs_def new_options_def Let_def)
  have f: "fileNameFromUrl u \<noteq> []" "CHR ''/'' \<notin> set (fileNameFromUrl u)" using fileName_clean by blast+
  have "last (opt_destPath opts) = last (fileNameFromUrl u)" "opt_destPath opts \<noteq> []"
    using absolutePath_last [of "''downloads/'' @ fileNameFromUrl u" cwd] f unfolding d by auto
  moreover have "last (fileNameFromUrl u) \<noteq> CHR ''/''" using f last_in_set by metis
  ultimately show ?thesis using d f assms \<open>opt_url opts = u\<close> by (simp add: enqueue_def Let_def)
qed

theorem default_destination_accepted_witness:
  "isOk (fst (fst (enqueue ''http://h/a/b.iso?x=1'' ''/home/me/downloads/b.iso'' True DownloadService_init)))"
proof -
  let ?u = "''http://h/a/b.iso?x=1''"
  have p: "parseArgs (Some ''/home/me'') [?u] =
      Some \<lparr>opt_url = ?u, opt_destPath = ''/home/me/downloads/b.iso'', opt_cancelAfterMs = 0, opt_quiet = False\<rparr>"
    by code_simp
  have "\<not> is_prefix ''--'' ?u" "?u \<noteq> []" by code_simp+
  from default_destination_accepted [OF p this, of DownloadService_init] show ?thesis
    unfolding options.simps by blast
qed

text \<open>
  The client exits with 0 exactly when the download completed: given one terminal callback, or the
  death of the service instead, its exit code tells which.
\<close>

theorem client_exit_code:
  assumes "parseArgs cwd args = Some opts" and "isOk (fst (enq (opt_url opts) (opt_destPath opts)))"
    and "List.map_filter settles inputs = [st]"
  shows "client_main cwd args True enq inputs = Some (if st = STATE_COMPLETED then 0 else 1)"
proof -
  have "isTerminal st" using assms(3)
    by (induction inputs) (auto simp: List.map_filter_simps settles_def split: client_input.splits if_splits option.splits)
  then have "st \<noteq> STATE_UNKNOWN" by (auto simp: isTerminal_def state_defs)
  then show ?thesis using assms fold_settled [OF assms(3)] by (simp add: client_main_def callback_await_def)
qed

theorem client_exit_code_witness:
  "client_main None [''http://h/x''] True (\<lambda>_ _. (status_ok, 1))
     [Called (OnStarted 1 ''http://h/x'' 5 0), Called (OnCompleted 1 ''/d/f'' 5 9)] = Some 0"
proof -
  have p: "parseArgs None [''http://h/x''] =
      Some \<lparr>opt_url = ''http://h/x'', opt_destPath = ''downloads/x'', opt_cancelAfterMs = 0, opt_quiet = False\<rparr>"
    by code_simp
  show ?thesis
    using client_exit_code [OF p, of "\<lambda>_ _. (status_ok, 1)"
        "[Called (OnStarted 1 ''http://h/x'' 5 0), Called (OnCompleted 1 ''/d/f'' 5 9)]" STATE_COMPLETED]
    by (simp add: List.map_filter_simps settles_def)
qed

text \<open>
  Progress that stays within the announced total is drawn safely: the relay sends a percentage from
  0 to 100, and the bar of 40 characters is filled in proportion, inside its buffer.
\<close>

theorem progress_within_total:
  assumes "0 \<le> t_resumedFrom (j_task j) + received" and "t_resumedFrom (j_task j) + received \<le> tot"
    and "0 < tot" and "tot < 2 ^ 56"
  shows "\<exists>es. j_events (onBytesReceived received tot j) = j_events j @ es \<and>
    list_all (\<lambda>e. \<exists>i n percent rate bar. e = OnProgress i n tot percent rate \<and> 0 \<le> percent \<and> percent \<le> 100 \<and>
      progress_bar percent = Some bar \<and> length bar = 40) es"
proof -
  define d where "d = t_resumedFrom (j_task j) + received"
  have d: "0 \<le> d" "d \<le> tot" using assms by (simp_all add: d_def)
  have s: "s64 d = d" "s64 (d * 100) = d * 100" using d assms(4) by (simp_all add: s64_id)
  define pc where "pc = d * 100 div tot"
  have pc: "0 \<le> pc" "pc \<le> 100"
  proof -
    show "0 \<le> pc" using d assms(3) by (simp add: pc_def pos_imp_zdiv_nonneg_iff)
    have "d * 100 \<le> tot * 100" using d by simp
    then have "pc \<le> tot * 100 div tot" unfolding pc_def using assms(3) by (rule zdiv_mono1)
    then show "pc \<le> 100" using assms(3) by simp
  qed
  have c: "s32 (cdiv (d * 100) tot) = pc" using d assms(3) pc by (simp add: cdiv_pos pc_def s32_id)
  obtain n where n: "n \<le> 40" "progress_bar pc = Some (replicate n (CHR ''='') @ replicate (40 - n) (CHR '' ''))"
    using progress_bar_ok [of pc] pc by auto
  have "\<exists>es. j_events (onBytesReceived received tot j) = j_events j @ es \<and>
      (es = [] \<or> (\<exists>i rate. es = [OnProgress i d tot pc rate]))"
    using assms(3) by (auto simp: onBytesReceived_def Let_def case_prod_beta notify_def d_def [symmetric] s c clock_read_def)
  then show ?thesis using n pc by fastforce
qed

text \<open>A job whose clock advances by a second at every reading.\<close>

definition slow_job :: job where
  "slow_job = sample_job\<lparr>j_clock := (\<lambda>n. 1000000000 * int n)\<rparr>"

theorem progress_within_total_witness:
  "\<exists>es. j_events (onBytesReceived 3 5 slow_job) = es \<and>
    list_all (\<lambda>e. \<exists>i n percent rate bar. e = OnProgress i n 5 percent rate \<and> 0 \<le> percent \<and> percent \<le> 100 \<and>
      progress_bar percent = Some bar \<and> length bar = 40) es"
  using progress_within_total [of slow_job 3 5] by (simp add: slow_job_def sample_job_def)

text \<open>
  Progress beyond the announced total overruns the client's buffer: a response whose
  \<open>Content-Range\<close> announces 5 bytes in all, starting at 3, while 10 bytes arrive, makes the relay send
  260 percent and the client write past the end of its bar.
\<close>

theorem progress_overruns_bar:
  "cb_crashed (fold callback_event
     (j_events (relay [OnResponseStart 1 206 3 5 '''', OnBytesReceived 1 10 5] slow_job)) (new_callback False))"
proof -
  have "j_events (relay [OnResponseStart 1 206 3 5 '''', OnBytesReceived 1 10 5] slow_job) =
      [OnStarted 1 ''http://h/x'' 5 3, OnProgress 1 13 5 260 10]"
    by code_simp
  moreover have "progress_bar 260 = None" by (rule progress_bar_overflow) simp_all
  ultimately show ?thesis by (simp add: new_callback_def)
qed

end
