(* ===== verification/Launcher.thy ===== *)
theory Launcher
  imports Download_Service
begin

text \<open>
  The launcher \<open>service_manager\<close> (\<open>service/main.cpp\<close>): how it finds and starts servicemanager, the
  http service and the download service, in this order, and how it takes them down again. The
  kernel's side is the set of children not yet reaped; the answers of \<open>fork\<close>, \<open>waitpid\<close>, \<open>wait\<close>
  and of the registry are inputs.
\<close>

subsection \<open>Finding the binaries\<close>

definition launcher_dir :: "string \<Rightarrow> string" where
  "launcher_dir self = (case rfind_char (CHR ''/'') self of None \<Rightarrow> ''.'' | Some k \<Rightarrow> substr self 0 k)"

fun first_binary :: "(string \<Rightarrow> bool) \<Rightarrow> (string \<Rightarrow> string option) \<Rightarrow> string list \<Rightarrow> string" where
  "first_binary isExecutable realpath [] = ''''"
| "first_binary isExecutable realpath (c # cs) =
     (if \<not> isExecutable c then first_binary isExecutable realpath cs
      else case realpath c of None \<Rightarrow> c | Some r \<Rightarrow> r)"

definition findBinary :: "string \<Rightarrow> (string \<Rightarrow> bool) \<Rightarrow> (string \<Rightarrow> string option) \<Rightarrow> string \<Rightarrow> string" where
  "findBinary self isExecutable realpath name =
     (let dir = launcher_dir self
      in first_binary isExecutable realpath
           [dir @ ''/'' @ name, dir @ ''/../bin/'' @ name, ''/usr/local/bin/'' @ name])"


subsection \<open>Children\<close>

datatype role = ServiceManager | Http | Download

datatype launch_event = Spawned role | Ready role

text \<open>The globals of the launcher; \<open>children\<close> and \<open>trace\<close> are the kernel's and the reader's view.\<close>

record launcher =
  sm_pid :: int
  http_pid :: int
  dl_pid :: int
  gOwnServiceManager :: bool
  children :: "int set"
  trace :: "launch_event list"

definition launcher_init :: launcher where
  "launcher_init = \<lparr>sm_pid = -1, http_pid = -1, dl_pid = -1, gOwnServiceManager = False, children = {}, trace = []\<rparr>"

fun pid_of :: "role \<Rightarrow> launcher \<Rightarrow> int" where
  "pid_of ServiceManager l = sm_pid l"
| "pid_of Http l = http_pid l"
| "pid_of Download l = dl_pid l"

fun set_pid :: "role \<Rightarrow> int \<Rightarrow> launcher \<Rightarrow> launcher" where
  "set_pid ServiceManager p l = l\<lparr>sm_pid := p\<rparr>"
| "set_pid Http p l = l\<lparr>http_pid := p\<rparr>"
| "set_pid Download p l = l\<lparr>dl_pid := p\<rparr>"

definition reap :: "int \<Rightarrow> launcher \<Rightarrow> launcher" where
  "reap p l = l\<lparr>children := children l - {p}\<rparr>"

text \<open>\<open>gChild.pid = spawn(...)\<close>: \<open>forked\<close> is the result of \<open>fork\<close>, negative when it fails.\<close>

definition spawn :: "role \<Rightarrow> int \<Rightarrow> launcher \<Rightarrow> launcher" where
  "spawn r forked l =
     (if forked < 0 then set_pid r (-1) l
      else set_pid r forked (l\<lparr>children := insert forked (children l), trace := trace l @ [Spawned r]\<rparr>))"

definition terminate :: "role \<Rightarrow> launcher \<Rightarrow> launcher" where
  "terminate r l = (if pid_of r l \<le> 0 then l else set_pid r (-1) (reap (pid_of r l) l))"

definition cleanup :: "launcher \<Rightarrow> launcher" where
  "cleanup l =
     (let l2 = terminate Http (terminate Download l)
      in if gOwnServiceManager l2 then terminate ServiceManager l2 else l2)"

definition onSignal :: "int \<Rightarrow> launcher \<Rightarrow> int \<times> launcher" where
  "onSignal sig l = (128 + sig, cleanup l)"

text \<open>
  The polling loops: in each turn whether the child is still alive, and whether it is up. When the
  answers run out the child stays alive and silent.
\<close>

datatype poll_outcome = PollDied | PollUp | PollTimedOut

fun poll_loop :: "nat \<Rightarrow> (bool \<times> bool) list \<Rightarrow> poll_outcome" where
  "poll_loop 0 polls = PollTimedOut"
| "poll_loop (Suc n) [] = PollTimedOut"
| "poll_loop (Suc n) ((alive, up) # polls) =
     (if \<not> alive then PollDied else if up then PollUp else poll_loop n polls)"

definition await_child :: "role \<Rightarrow> nat \<Rightarrow> (bool \<times> bool) list \<Rightarrow> launcher \<Rightarrow> bool \<times> launcher" where
  "await_child r n polls l =
     (case poll_loop n polls of
        PollDied \<Rightarrow> (False, set_pid r (-1) (reap (pid_of r l) l))
      | PollUp \<Rightarrow> (True, l\<lparr>trace := trace l @ [Ready r]\<rparr>)
      | PollTimedOut \<Rightarrow> (False, l))"

record launch_env =
  le_binder :: bool
  le_up :: bool
  le_sm_path :: string
  le_self :: string
  le_fork :: "role \<Rightarrow> int"
  le_polls :: "role \<Rightarrow> (bool \<times> bool) list"

definition ensureServiceManager :: "launch_env \<Rightarrow> launcher \<Rightarrow> bool \<times> launcher" where
  "ensureServiceManager env l =
     (if le_up env then (True, l\<lparr>trace := trace l @ [Ready ServiceManager]\<rparr>)
      else if le_sm_path env = [] then (False, l)
      else
        (let l1 = spawn ServiceManager (le_fork env ServiceManager) l
         in if sm_pid l1 < 0 then (False, l1)
            else await_child ServiceManager 20 (le_polls env ServiceManager) (l1\<lparr>gOwnServiceManager := True\<rparr>)))"

definition startService :: "launch_env \<Rightarrow> role \<Rightarrow> launcher \<Rightarrow> bool \<times> launcher" where
  "startService env r l =
     (if le_self env = [] then (False, l)
      else
        (let l1 = spawn r (le_fork env r) l
         in if pid_of r l1 < 0 then (False, l1) else await_child r 40 (le_polls env r) l1))"

text \<open>The results of \<open>wait\<close>: a child that exited, an interruption, or nothing to wait for.\<close>

datatype wait_result = Exited int | Interrupted | NoChildren

definition forget :: "int \<Rightarrow> launcher \<Rightarrow> launcher" where
  "forget p l =
     (let l1 = (if p = sm_pid l then l\<lparr>sm_pid := -1\<rparr> else l);
          l2 = (if p = http_pid l1 then l1\<lparr>http_pid := -1\<rparr> else l1)
      in if p = dl_pid l2 then l2\<lparr>dl_pid := -1\<rparr> else l2)"

text \<open>The watch: the exit code, or \<open>None\<close> while it blocks in \<open>wait\<close>.\<close>

fun watch :: "wait_result list \<Rightarrow> launcher \<Rightarrow> int option \<times> launcher" where
  "watch [] l = (None, l)"
| "watch (Interrupted # ws) l = watch ws l"
| "watch (NoChildren # ws) l = (Some 0, cleanup l)"
| "watch (Exited p # ws) l = (Some 1, cleanup (forget p (reap p l)))"

definition runManager :: "launch_env \<Rightarrow> wait_result list \<Rightarrow> launcher \<Rightarrow> int option \<times> launcher" where
  "runManager env waits l =
     (if \<not> le_binder env then (Some 1, l)
      else
        (case ensureServiceManager env l of
           (False, l1) \<Rightarrow> (Some 1, cleanup l1)
         | (True, l1) \<Rightarrow>
             (case startService env Http l1 of
                (False, l2) \<Rightarrow> (Some 1, cleanup l2)
              | (True, l2) \<Rightarrow>
                  (case startService env Download l2 of
                     (False, l3) \<Rightarrow> (Some 1, cleanup l3)
                   | (True, l3) \<Rightarrow> watch waits l3))))"

text \<open>\<open>execServiceManager\<close> returns only when it fails.\<close>

definition execServiceManager :: "string \<Rightarrow> int" where
  "execServiceManager path = (if path = [] then 1 else 127)"

definition launcher_main :: "launch_env \<Rightarrow> wait_result list \<Rightarrow> int \<Rightarrow> int \<Rightarrow> string list \<Rightarrow> int option" where
  "launcher_main env waits http_add dl_add args =
     (let mode = (case args of [] \<Rightarrow> ''all'' | m # _ \<Rightarrow> m)
      in if mode = ''all'' then fst (runManager env waits launcher_init)
         else if mode = ''http'' then HttpService_runService http_add
         else if mode = ''download'' then DownloadService_runService dl_add
         else if mode = ''servicemanager'' then Some (execServiceManager (le_sm_path env))
         else Some 2)"


subsection \<open>Every child is known\<close>

text \<open>
  Each unreaped child is the pid of one of the three, and of servicemanager only if it is ours; so a
  cleanup reaps them all.
\<close>

definition tracked :: "launcher \<Rightarrow> bool" where
  "tracked l \<longleftrightarrow>
     (\<forall>p\<in>children l. p > 0 \<and> (p = http_pid l \<or> p = dl_pid l \<or> gOwnServiceManager l \<and> p = sm_pid l))"

text \<open>Real pids are positive.\<close>

definition pids_ok :: "launch_env \<Rightarrow> bool" where
  "pids_ok env \<longleftrightarrow> (\<forall>r. le_fork env r \<noteq> 0)"

lemma cleanup_reaps: "tracked l \<Longrightarrow> children (cleanup l) = {}"
  by (auto simp: cleanup_def terminate_def reap_def tracked_def Let_def)

lemma tracked_trace [simp]: "tracked (l\<lparr>trace := t\<rparr>) = tracked l"
  by (simp add: tracked_def)

lemma await_child_tracked: "tracked l \<Longrightarrow> tracked (snd (await_child r n polls l))"
  by (cases r) (auto simp: await_child_def tracked_def reap_def split: poll_outcome.splits)

lemma ensure_tracked:
  assumes "tracked l" and "pids_ok env" and "sm_pid l = -1"
  shows "tracked (snd (ensureServiceManager env l))"
proof -
  let ?l1 = "spawn ServiceManager (le_fork env ServiceManager) l"
  have "le_fork env ServiceManager \<noteq> 0" using assms(2) by (simp add: pids_ok_def)
  then have "le_fork env ServiceManager < 0 \<Longrightarrow> tracked ?l1" "tracked (?l1\<lparr>gOwnServiceManager := True\<rparr>)"
    using assms(1,3) by (auto simp: spawn_def tracked_def)
  then show ?thesis
    using assms(1) await_child_tracked [of "?l1\<lparr>gOwnServiceManager := True\<rparr>"]
    by (auto simp: ensureServiceManager_def Let_def spawn_def)
qed

lemma start_tracked:
  assumes "tracked l" and "pids_ok env" and "pid_of r l = -1" and "r \<noteq> ServiceManager"
  shows "tracked (snd (startService env r l))"
proof -
  let ?l1 = "spawn r (le_fork env r) l"
  have "le_fork env r \<noteq> 0" using assms(2) by (simp add: pids_ok_def)
  then have "tracked ?l1" using assms by (cases r) (auto simp: spawn_def tracked_def)
  then show ?thesis
    using assms(1) await_child_tracked [of ?l1] by (simp add: startService_def Let_def)
qed

lemma start_others:
  "http_pid (snd (ensureServiceManager env l)) = http_pid l" "dl_pid (snd (ensureServiceManager env l)) = dl_pid l"
  "dl_pid (snd (startService env Http l)) = dl_pid l"
  by (auto simp: ensureServiceManager_def startService_def spawn_def await_child_def reap_def Let_def
      split: poll_outcome.splits)

lemma watch_reaps: "watch waits l = (Some code, l') \<Longrightarrow> tracked l \<Longrightarrow> children l' = {}"
proof (induction waits l rule: watch.induct)
  case (4 p ws l)
  have "tracked (forget p (reap p l))"
    using 4 by (auto simp: tracked_def forget_def reap_def Let_def)
  then show ?case using 4 by (auto simp: cleanup_reaps)
qed (auto simp: cleanup_reaps)

lemma tracked_init: "tracked launcher_init"
  by (simp add: tracked_def launcher_init_def)

text \<open>The launcher after each of its three starts, on the way to the watch.\<close>

lemma launch_tracked:
  assumes "pids_ok env"
  shows "tracked (snd (ensureServiceManager env launcher_init))"
    "tracked (snd (startService env Http (snd (ensureServiceManager env launcher_init))))"
    "tracked (snd (startService env Download (snd (startService env Http (snd (ensureServiceManager env launcher_init))))))"
proof -
  let ?l1 = "snd (ensureServiceManager env launcher_init)" and ?l2 = "snd (startService env Http (snd (ensureServiceManager env launcher_init)))"
  show 1: "tracked ?l1" by (rule ensure_tracked [OF tracked_init assms]) (simp add: launcher_init_def)
  show 2: "tracked ?l2" by (rule start_tracked [OF 1 assms]) (simp_all add: start_others launcher_init_def)
  show "tracked (snd (startService env Download ?l2))"
    by (rule start_tracked [OF 2 assms]) (simp_all add: start_others launcher_init_def)
qed


subsection \<open>Properties\<close>

text \<open>
  C40. The launcher leaves no process behind: whatever fails on the way up, and whichever child dies
  later, when \<open>runManager\<close> returns every process it started has been terminated and reaped.
\<close>

theorem runManager_no_orphans:
  assumes "pids_ok env" and "runManager env waits launcher_init = (Some code, l)"
  shows "children l = {}"
  using assms(2) launch_tracked [OF assms(1)]
  by (auto simp: runManager_def cleanup_reaps split: if_splits prod.splits bool.splits dest: watch_reaps)
    (simp add: launcher_init_def)

theorem runManager_no_orphans_witness:
  "children (snd (runManager \<lparr>le_binder = True, le_up = False, le_sm_path = ''/b/servicemanager'', le_self = ''/b/m'',
      le_fork = (\<lambda>r. case r of ServiceManager \<Rightarrow> 10 | Http \<Rightarrow> 11 | Download \<Rightarrow> -1),
      le_polls = (\<lambda>_. [(True, False), (True, True)])\<rparr> [] launcher_init)) = {}"
proof -
  let ?env = "\<lparr>le_binder = True, le_up = False, le_sm_path = ''/b/servicemanager'', le_self = ''/b/m'',
      le_fork = (\<lambda>r. case r of ServiceManager \<Rightarrow> 10 | Http \<Rightarrow> 11 | Download \<Rightarrow> -1),
      le_polls = (\<lambda>_. [(True, False), (True, True)])\<rparr>"
  have p: "pids_ok ?env" by (auto simp: pids_ok_def split: role.splits)
  have "fst (runManager ?env [] launcher_init) = Some 1"
    by (simp add: runManager_def ensureServiceManager_def startService_def spawn_def await_child_def Let_def
        numeral_eq_Suc launcher_init_def)
  then show ?thesis using runManager_no_orphans [OF p] by (metis prod.collapse)
qed

text \<open>A signal between two starts, or during the watch, also reaps every child.\<close>

lemma onSignal_no_orphans:
  assumes "pids_ok env"
  shows "children (snd (onSignal sig (snd (ensureServiceManager env launcher_init)))) = {}"
    "children (snd (onSignal sig (snd (startService env Http (snd (ensureServiceManager env launcher_init)))))) = {}"
    "children (snd (onSignal sig (snd (startService env Download
      (snd (startService env Http (snd (ensureServiceManager env launcher_init)))))))) = {}"
  using launch_tracked [OF assms] by (simp_all add: onSignal_def cleanup_reaps)

text \<open>No \<open>b\<close> comes before the first \<open>a\<close>.\<close>

fun precedes :: "'a \<Rightarrow> 'a \<Rightarrow> 'a list \<Rightarrow> bool" where
  "precedes a b [] \<longleftrightarrow> True"
| "precedes a b (e # es) \<longleftrightarrow> e = a \<or> e \<noteq> b \<and> precedes a b es"

lemma cleanup_trace [simp]: "trace (cleanup l) = trace l"
  by (simp add: cleanup_def terminate_def reap_def Let_def)

lemma watch_trace [simp]: "trace (snd (watch waits l)) = trace l"
  by (induction waits l rule: watch.induct) (simp_all add: forget_def reap_def Let_def)

lemma ensure_trace:
  "ensureServiceManager env l = (ok, l') \<Longrightarrow>
   \<exists>es. trace l' = trace l @ es \<and> set es \<subseteq> {Spawned ServiceManager, Ready ServiceManager} \<and>
     (ok \<longrightarrow> Ready ServiceManager \<in> set es)"
  by (auto simp: ensureServiceManager_def spawn_def await_child_def reap_def Let_def
      split: if_splits poll_outcome.splits)

lemma start_trace:
  "startService env r l = (ok, l') \<Longrightarrow>
   \<exists>es. trace l' = trace l @ es \<and> set es \<subseteq> {Spawned r, Ready r} \<and> (ok \<longrightarrow> Ready r \<in> set es)"
  by (cases r) (auto simp: startService_def spawn_def await_child_def reap_def Let_def
      split: if_splits poll_outcome.splits)

lemma precedes_append: "b \<notin> set es \<Longrightarrow> precedes a b (es @ fs) \<longleftrightarrow> a \<in> set es \<or> precedes a b fs"
  by (induction es) auto

lemma precedes_absent: "b \<notin> set es \<Longrightarrow> precedes a b es"
  by (induction es) auto

text \<open>
  The services come up in order: the http service is started only once servicemanager answers, and
  the download service only once the http service is registered.
\<close>

theorem start_order:
  "precedes (Ready ServiceManager) (Spawned Http) (trace (snd (runManager env waits launcher_init))) \<and>
   precedes (Ready Http) (Spawned Download) (trace (snd (runManager env waits launcher_init)))"
proof (cases "le_binder env")
  case True
  obtain ok1 l1 where 1: "ensureServiceManager env launcher_init = (ok1, l1)" by fastforce
  obtain ok2 l2 where 2: "startService env Http l1 = (ok2, l2)" by fastforce
  obtain ok3 l3 where 3: "startService env Download l2 = (ok3, l3)" by fastforce
  obtain e1 where e1: "trace l1 = e1" "set e1 \<subseteq> {Spawned ServiceManager, Ready ServiceManager}"
      "ok1 \<longrightarrow> Ready ServiceManager \<in> set e1"
    using ensure_trace [OF 1] by (auto simp: launcher_init_def)
  obtain e2 where e2: "trace l2 = e1 @ e2" "set e2 \<subseteq> {Spawned Http, Ready Http}" "ok2 \<longrightarrow> Ready Http \<in> set e2"
    using start_trace [OF 2] e1 by auto
  obtain e3 where e3: "trace l3 = e1 @ e2 @ e3" "set e3 \<subseteq> {Spawned Download, Ready Download}"
    using start_trace [OF 3] e2 by auto
  have t: "trace (snd (runManager env waits launcher_init)) =
      (if \<not> ok1 then e1 else if \<not> ok2 then e1 @ e2 else e1 @ e2 @ e3)"
    using True 1 2 3 e1 e2 e3 by (auto simp: runManager_def split: bool.splits)
  have a: "Spawned Http \<notin> set e1" "Spawned Download \<notin> set e1" "Spawned Download \<notin> set e2" "Spawned Http \<notin> set e3"
    using e1(2) e2(2) e3(2) by auto
  show ?thesis
    unfolding t using a e1(3) e2(3)
    by (auto simp: precedes_append precedes_absent)
qed (simp add: runManager_def launcher_init_def)

end
