(* ===== verification/Ordered_Map.thy ===== *)
theory Ordered_Map
  imports Binder_Prelude "HOL-Library.Char_ord" "HOL-Library.List_Lexorder"
begin

text \<open>
  \<open>std::map\<close> as the services use it: entries in ascending order of their keys, at most one for a key.
  Strings are ordered like \<open>std::string\<close>, by the codes of their characters. The interface the
  services rely on is the locale \<open>key_map\<close>.
\<close>

fun map_put :: "'k::linorder \<Rightarrow> 'v \<Rightarrow> ('k \<times> 'v) list \<Rightarrow> ('k \<times> 'v) list" where
  "map_put k v [] = [(k, v)]"
| "map_put k v ((k', v') # m) =
     (if k < k' then (k, v) # (k', v') # m
      else if k = k' then (k, v) # m
      else (k', v') # map_put k v m)"

definition map_erase :: "'k \<Rightarrow> ('k \<times> 'v) list \<Rightarrow> ('k \<times> 'v) list" where
  "map_erase k m = filter (\<lambda>(k', v). k' \<noteq> k) m"

definition map_ok :: "('k::linorder \<times> 'v) list \<Rightarrow> bool" where
  "map_ok m \<longleftrightarrow> sorted (map fst m) \<and> distinct (map fst m)"

lemma map_put_lookup:
  "map_ok m \<Longrightarrow> map_of (map_put k v m) = (map_of m)(k \<mapsto> v)"
proof (induction m)
  case (Cons e m)
  have "map_ok m" using Cons.prems by (simp add: map_ok_def)
  moreover have "map_of m k = None" if "k < fst e"
    using that Cons.prems by (force simp: map_ok_def map_of_eq_None_iff)
  ultimately show ?case using Cons.IH by (cases e) (auto simp: fun_eq_iff)
qed (auto simp: fun_eq_iff)

lemma map_put_keys: "set (map fst (map_put k v m)) = insert k (set (map fst m))"
  by (induction k v m rule: map_put.induct) (simp_all add: insert_commute)

lemma map_put_ok: "map_ok m \<Longrightarrow> map_ok (map_put k v m)"
proof (induction m)
  case (Cons e m)
  then show ?case
    using map_put_keys [of k v m] by (cases e) (auto simp: map_ok_def)
qed (simp add: map_ok_def)

lemma map_of_filter_key:
  "map_of (filter (\<lambda>(k, v). P k) m) = (\<lambda>k. if P k then map_of m k else None)"
  by (induction m) (auto simp: fun_eq_iff)

lemma map_erase_lookup: "map_of (map_erase k m) = (map_of m)(k := None)"
proof -
  have "(\<lambda>(k', v). k' \<noteq> k) = (\<lambda>(k', v::'b). (\<lambda>x. x \<noteq> k) k')" by (simp add: fun_eq_iff)
  then show ?thesis
    unfolding map_erase_def using map_of_filter_key [of "\<lambda>x. x \<noteq> k" m] by (auto simp: fun_eq_iff)
qed

lemma map_filter_ok: "map_ok m \<Longrightarrow> map_ok (filter P m)"
  by (induction m) (auto simp: map_ok_def)

lemma map_erase_ok: "map_ok m \<Longrightarrow> map_ok (map_erase k m)"
  unfolding map_erase_def by (rule map_filter_ok)

lemma map_of_Some_iff: "map_ok m \<Longrightarrow> map_of m k = Some v \<longleftrightarrow> (k, v) \<in> set m"
  by (simp add: map_ok_def)

lemma map_of_filter_value:
  "map_ok m \<Longrightarrow> map_of (filter (\<lambda>(k, v). P v) m) k =
     (case map_of m k of None \<Rightarrow> None | Some v \<Rightarrow> if P v then Some v else None)"
proof (induction m)
  case (Cons e m)
  have "map_ok m" and "fst e \<notin> fst ` set m" using Cons.prems by (auto simp: map_ok_def)
  then have "map_of m (fst e) = None" by (simp add: map_of_eq_None_iff)
  with Cons.IH [OF \<open>map_ok m\<close>] show ?case by (cases e) auto
qed simp

lemma map_of_values:
  "map_of (map (\<lambda>(k, v). (k, f v)) m) = (\<lambda>k. map_option f (map_of m k))"
  by (induction m) (auto simp: fun_eq_iff)

lemma map_values_ok: "map_ok (map (\<lambda>(k, v). (k, f v)) m) = map_ok m"
  by (simp add: map_ok_def comp_def case_prod_beta)


subsection \<open>The interface\<close>

locale key_map =
  fixes lookup :: "'m \<Rightarrow> 'k \<Rightarrow> 'v option" and put :: "'k \<Rightarrow> 'v \<Rightarrow> 'm \<Rightarrow> 'm" and erase :: "'k \<Rightarrow> 'm \<Rightarrow> 'm"
    and ok :: "'m \<Rightarrow> bool"
  assumes put_lookup: "ok m \<Longrightarrow> lookup (put k v m) = (lookup m)(k \<mapsto> v)"
    and erase_lookup: "ok m \<Longrightarrow> lookup (erase k m) = (lookup m)(k := None)"
    and put_ok: "ok m \<Longrightarrow> ok (put k v m)"
    and erase_ok: "ok m \<Longrightarrow> ok (erase k m)"
begin

lemma put_same: "ok m \<Longrightarrow> lookup (put k v m) k = Some v"
  by (simp add: put_lookup)

lemma put_other: "ok m \<Longrightarrow> k' \<noteq> k \<Longrightarrow> lookup (put k v m) k' = lookup m k'"
  by (simp add: put_lookup)

lemma put_put: "ok m \<Longrightarrow> lookup (put k v (put k w m)) = lookup (put k v m)"
  by (simp add: put_lookup put_ok)

lemma erase_put: "ok m \<Longrightarrow> lookup (erase k (put k v m)) = lookup (erase k m)"
  by (simp add: put_lookup erase_lookup put_ok erase_ok)

end

interpretation omap: key_map map_of map_put map_erase map_ok
  by unfold_locales (simp_all add: map_put_lookup map_erase_lookup map_put_ok map_erase_ok)

end
