(* ===== verification/Host_Compat.thy ===== *)
theory Host_Compat
  imports Binder_Prelude
begin

text \<open>
  The host replacements: the VINTF manifest (\<open>compat/vintf_stub.cpp\<close>), the permissive SELinux
  library (\<open>compat/selinux_stub.cpp\<close>) and the binderfs helper (\<open>tools/binderfs_ctl.cpp\<close>).
\<close>

subsection \<open>VINTF manifests\<close>

record manifest_instance =
  mi_package :: string
  mi_interface :: string
  mi_instance :: string
  mi_updatableViaApex :: "string option"

definition is_blank :: "char \<Rightarrow> bool" where
  "is_blank c \<longleftrightarrow> c = CHR '' '' \<or> c = CHR 0x09 \<or> c = cr \<or> c = lf"

definition vintf_trim :: "string \<Rightarrow> string" where
  "vintf_trim s = rev (dropWhile is_blank (rev (dropWhile is_blank s)))"

definition vintf_parseLine :: "string \<Rightarrow> manifest_instance option" where
  "vintf_parseLine line =
     (case find_char (CHR ''/'') line of
        None \<Rightarrow> None
      | Some slash \<Rightarrow>
          (let fqName = substr line 0 slash;
               rest = substr_from line (slash + 1);
               (apex, rest1) = (case find_char (CHR ''@'') rest of
                                  None \<Rightarrow> (None, rest)
                                | Some at \<Rightarrow> (Some (substr_from rest (at + 1)), substr rest 0 at))
           in case rfind_char (CHR ''.'') fqName of
                None \<Rightarrow> None
              | Some lastDot \<Rightarrow>
                  Some \<lparr>mi_package = substr fqName 0 lastDot, mi_interface = substr_from fqName (lastDot + 1),
                        mi_instance = rest1, mi_updatableViaApex = apex\<rparr>))"

text \<open>\<open>std::getline\<close>: the lines of a file, without a last empty one.\<close>

fun getlines :: "string \<Rightarrow> string \<Rightarrow> string list" where
  "getlines acc [] = (if acc = [] then [] else [rev acc])"
| "getlines acc (c # cs) = (if c = lf then rev acc # getlines [] cs else getlines (c # acc) cs)"

text \<open>\<open>content\<close> is what the file holds, \<open>None\<close> when it cannot be opened.\<close>

definition manifest_line :: "string \<Rightarrow> manifest_instance option" where
  "manifest_line line0 =
     (let line = vintf_trim line0
      in if line = [] \<or> hd line = CHR ''#'' then None else vintf_parseLine line)"

definition loadFrom :: "string option \<Rightarrow> manifest_instance list" where
  "loadFrom content =
     (case content of None \<Rightarrow> [] | Some text \<Rightarrow> List.map_filter manifest_line (getlines [] text))"

definition hasAidlInstance :: "manifest_instance list \<Rightarrow> string \<Rightarrow> string \<Rightarrow> string \<Rightarrow> bool" where
  "hasAidlInstance m package interface instance_name \<longleftrightarrow>
     list_ex (\<lambda>mi. mi_package mi = package \<and> mi_interface mi = interface \<and> mi_instance mi = instance_name) m"

definition getAidlInstances :: "manifest_instance list \<Rightarrow> string \<Rightarrow> string \<Rightarrow> string list" where
  "getAidlInstances m package interface =
     map mi_instance (filter (\<lambda>mi. mi_package mi = package \<and> mi_interface mi = interface) m)"

text \<open>The callback answers whether to stop, and updates what it captured.\<close>

fun forEachInstance :: "('s \<Rightarrow> manifest_instance \<Rightarrow> bool \<times> 's) \<Rightarrow> manifest_instance list \<Rightarrow> 's \<Rightarrow> 's" where
  "forEachInstance f [] s = s"
| "forEachInstance f (mi # m) s = (case f s mi of (stop, s1) \<Rightarrow> if stop then s1 else forEachInstance f m s1)"


subsection \<open>The permissive SELinux library\<close>

text \<open>What servicemanager uses of SELinux: contexts, labels and the access check.\<close>

record selinux =
  se_getcon :: "string option"
  se_getpidcon :: "int \<Rightarrow> string option"
  se_lookup :: "string \<Rightarrow> string option"
  se_check :: "string \<Rightarrow> string \<Rightarrow> string \<Rightarrow> string \<Rightarrow> int"

definition kPermissiveContext :: string where
  "kPermissiveContext = ''u:r:permissive:s0''"

definition selinux_check_access :: "string \<Rightarrow> string \<Rightarrow> string \<Rightarrow> string \<Rightarrow> int" where
  "selinux_check_access scon tcon tclass perm = 0"

definition getcon :: "string option" where
  "getcon = Some kPermissiveContext"

definition getpidcon :: "int \<Rightarrow> string option" where
  "getpidcon pid = Some kPermissiveContext"

definition selabel_lookup :: "string \<Rightarrow> string option" where
  "selabel_lookup key = Some kPermissiveContext"

definition selinux_stub :: selinux where
  "selinux_stub = \<lparr>se_getcon = getcon, se_getpidcon = getpidcon, se_lookup = selabel_lookup,
     se_check = selinux_check_access\<rparr>"


subsection \<open>binderfs\<close>

definition BINDERFS_MAX_NAME :: nat where "BINDERFS_MAX_NAME = 255"
definition BINDERFS_EEXIST :: int where "BINDERFS_EEXIST = 17"

text \<open>\<open>ctl name\<close>: the error of the \<open>BINDER_CTL_ADD\<close> ioctl, if any.\<close>

fun add_devices :: "(string \<Rightarrow> int option) \<Rightarrow> string list \<Rightarrow> nat \<times> string list" where
  "add_devices ctl [] = (0, [])"
| "add_devices ctl (name # names) =
     (case add_devices ctl names of
        (failures, added) \<Rightarrow>
          if length name > BINDERFS_MAX_NAME then (Suc failures, added)
          else (case ctl name of
                  None \<Rightarrow> (failures, name # added)
                | Some e \<Rightarrow> if e = BINDERFS_EEXIST then (failures, added) else (Suc failures, added)))"

definition binderfs_main :: "bool \<Rightarrow> (string \<Rightarrow> int option) \<Rightarrow> string list \<Rightarrow> int \<times> string list" where
  "binderfs_main control_opens ctl args =
     (case args of
        (mountPoint # name # names) \<Rightarrow>
          if \<not> control_opens then (1, [])
          else (case add_devices ctl (name # names) of
                  (failures, added) \<Rightarrow> (if failures = 0 then 0 else 1, added))
      | _ \<Rightarrow> (2, []))"


subsection \<open>Facts\<close>

text \<open>A manifest line for an instance, and what is read back from it.\<close>

definition render_instance :: "manifest_instance \<Rightarrow> string" where
  "render_instance mi = mi_package mi @ ''.'' @ mi_interface mi @ ''/'' @ mi_instance mi @
     (case mi_updatableViaApex mi of None \<Rightarrow> '''' | Some a \<Rightarrow> ''@'' @ a)"

definition instance_ok :: "manifest_instance \<Rightarrow> bool" where
  "instance_ok mi \<longleftrightarrow> CHR ''/'' \<notin> set (mi_package mi) \<and> CHR ''/'' \<notin> set (mi_interface mi) \<and>
     CHR ''.'' \<notin> set (mi_interface mi) \<and> CHR ''@'' \<notin> set (mi_instance mi)"

lemma parse_render:
  assumes "instance_ok mi"
  shows "vintf_parseLine (render_instance mi) = Some mi"
proof -
  let ?fq = "mi_package mi @ ''.'' @ mi_interface mi"
  let ?rest = "mi_instance mi @ (case mi_updatableViaApex mi of None \<Rightarrow> '''' | Some a \<Rightarrow> ''@'' @ a)"
  have r: "render_instance mi = ?fq @ CHR ''/'' # ?rest" by (simp add: render_instance_def)
  have s: "find_char (CHR ''/'') (?fq @ CHR ''/'' # ?rest) = Some (length ?fq)"
    using assms by (intro find_char_hit) (auto simp: instance_ok_def)
  have d: "rfind_char (CHR ''.'') ?fq = Some (length (mi_package mi))"
    using assms rfind_char_hit [of "CHR ''.''" "mi_interface mi" "mi_package mi"] by (simp add: instance_ok_def)
  have at: "find_char (CHR ''@'') (mi_instance mi @ CHR ''@'' # a) = Some (length (mi_instance mi))" for a
    using assms by (intro find_char_hit) (auto simp: instance_ok_def)
  have no: "find_char (CHR ''@'') (mi_instance mi) = None"
    using assms by (simp add: find_char_None instance_ok_def)
  have rest: "substr_from (?fq @ CHR ''/'' # ?rest) (length ?fq + 1) = ?rest" by (simp add: substr_from_def)
  have fq: "substr (?fq @ CHR ''/'' # ?rest) 0 (length ?fq) = ?fq" by (simp add: substr_def)
  show ?thesis
    unfolding r vintf_parseLine_def s option.case Let_def rest fq
    by (cases "mi_updatableViaApex mi") (use d no at in \<open>simp_all add: substr_def substr_from_def\<close>)
qed

lemma add_devices_ok:
  "add_devices ctl names = (failures, added) \<Longrightarrow>
   (failures = 0 \<longleftrightarrow> (\<forall>n\<in>set names. length n \<le> BINDERFS_MAX_NAME \<and> ctl n \<in> {None, Some BINDERFS_EEXIST}))"
  by (induction names arbitrary: failures added) (auto split: prod.splits option.splits if_splits)

end
