(* ===== verification/Service_Manager.thy ===== *)
theory Service_Manager
  imports Ordered_Map Host_Compat Binder_Status "HOL-Library.Word"
begin

unbundle bit_operations_syntax

text \<open>
  The context manager of the binder domain: \<open>Access.cpp\<close> and \<open>ServiceManager.cpp\<close> of
  \<open>frameworks/native/cmds/servicemanager\<close>. A binder is known by a number. The caller, SELinux, the
  manifests and what the driver answers about a binder are the environment of a call; the calls
  servicemanager makes to others are collected as events. It serves one transaction at a time, so
  every operation is a function on its state; a failed \<open>CHECK\<close> is \<open>None\<close>.
\<close>

subsection \<open>Access\<close>

record calling_context =
  ctx_debugPid :: int
  ctx_uid :: nat
  ctx_sid :: string

text \<open>What \<open>IPCThreadState\<close> says of the caller.\<close>

record caller =
  ipc_sid :: "string option"
  ipc_pid :: int
  ipc_uid :: nat

definition getPidcon :: "selinux \<Rightarrow> int \<Rightarrow> string" where
  "getPidcon se pid = (case se_getpidcon se pid of None \<Rightarrow> '''' | Some c \<Rightarrow> c)"

definition getCallingContext :: "selinux \<Rightarrow> caller \<Rightarrow> calling_context" where
  "getCallingContext se c =
     \<lparr>ctx_debugPid = ipc_pid c, ctx_uid = ipc_uid c,
      ctx_sid = (case ipc_sid c of Some s \<Rightarrow> s | None \<Rightarrow> getPidcon se (ipc_pid c))\<rparr>"

definition actionAllowed :: "selinux \<Rightarrow> calling_context \<Rightarrow> string \<Rightarrow> string \<Rightarrow> bool" where
  "actionAllowed se ctx tctx perm \<longleftrightarrow> se_check se (ctx_sid ctx) tctx ''service_manager'' perm = 0"

definition actionAllowedFromLookup :: "selinux \<Rightarrow> calling_context \<Rightarrow> string \<Rightarrow> string \<Rightarrow> bool" where
  "actionAllowedFromLookup se ctx name perm =
     (case se_lookup se name of None \<Rightarrow> False | Some tctx \<Rightarrow> actionAllowed se ctx tctx perm)"

definition canFind :: "selinux \<Rightarrow> calling_context \<Rightarrow> string \<Rightarrow> bool" where
  "canFind se ctx name = actionAllowedFromLookup se ctx name ''find''"

definition canAdd :: "selinux \<Rightarrow> calling_context \<Rightarrow> string \<Rightarrow> bool" where
  "canAdd se ctx name = actionAllowedFromLookup se ctx name ''add''"

text \<open>\<open>self\<close> is \<open>mThisProcessContext\<close>, read once by the constructor of \<open>Access\<close>.\<close>

definition canList :: "selinux \<Rightarrow> string \<Rightarrow> calling_context \<Rightarrow> bool" where
  "canList se self ctx = actionAllowed se ctx self ''list''"

definition AID_APP :: nat where "AID_APP = 10000"
definition AID_ISOLATED_START :: nat where "AID_ISOLATED_START = 90000"
definition AID_ISOLATED_END :: nat where "AID_ISOLATED_END = 99999"

definition multiuser_get_app_id :: "nat \<Rightarrow> nat" where
  "multiuser_get_app_id uid = uid mod 100000"

definition is_isolated :: "nat \<Rightarrow> bool" where
  "is_isolated uid \<longleftrightarrow> multiuser_get_app_id uid \<ge> AID_ISOLATED_START \<and> multiuser_get_app_id uid \<le> AID_ISOLATED_END"


subsection \<open>State and environment\<close>

record service =
  s_binder :: nat
  s_allowIsolated :: bool
  s_dumpPriority :: "32 word"
  s_hasClients :: bool
  s_guaranteeClient :: bool
  s_debugPid :: int

record service_manager =
  mNameToService :: "(string \<times> service) list"
  mNameToRegistrationCallback :: "(string \<times> nat list) list"
  mNameToClientCallback :: "(string \<times> nat list) list"

definition ServiceManager_init :: service_manager where
  "ServiceManager_init = \<lparr>mNameToService = [], mNameToRegistrationCallback = [], mNameToClientCallback = []\<rparr>"

datatype sm_event =
    OnRegistration nat string nat
  | OnClients nat nat bool
  | StartService string

text \<open>
  The environment of a call: SELinux and our own context, the caller, the two manifests (\<open>None\<close> when
  one is missing), and of each binder whether it is remote, whether its stability requires a VINTF
  declaration, whether \<open>linkToDeath\<close> succeeds, and its reference count in the driver.
\<close>

record sm_env =
  env_selinux :: selinux
  env_self :: string
  env_caller :: caller
  env_manifests :: "manifest_instance list option list"
  env_remote :: "nat \<Rightarrow> bool"
  env_vintf :: "nat \<Rightarrow> bool"
  env_link :: "nat \<Rightarrow> bool"
  env_refs :: "nat \<Rightarrow> int"

definition calling :: "sm_env \<Rightarrow> calling_context" where
  "calling env = getCallingContext (env_selinux env) (env_caller env)"

definition may_find :: "sm_env \<Rightarrow> string \<Rightarrow> bool" where
  "may_find env name = canFind (env_selinux env) (calling env) name"

definition may_add :: "sm_env \<Rightarrow> string \<Rightarrow> bool" where
  "may_add env name = canAdd (env_selinux env) (calling env) name"

definition may_list :: "sm_env \<Rightarrow> bool" where
  "may_list env = canList (env_selinux env) (env_self env) (calling env)"


subsection \<open>VINTF declarations\<close>

fun forEachManifest :: "(manifest_instance list \<Rightarrow> 's \<Rightarrow> bool \<times> 's) \<Rightarrow> manifest_instance list option list \<Rightarrow> 's \<Rightarrow>
    bool \<times> 's" where
  "forEachManifest f [] s = (False, s)"
| "forEachManifest f (None # ms) s = forEachManifest f ms s"
| "forEachManifest f (Some m # ms) s =
     (case f m s of (stop, s1) \<Rightarrow> if stop then (True, s1) else forEachManifest f ms s1)"

text \<open>\<open>AidlName::fill\<close>; \<open>rfind\<close> with a position looks no further than the first slash.\<close>

definition aidl_fill :: "string \<Rightarrow> (string \<times> string \<times> string) option" where
  "aidl_fill name =
     (case find_char (CHR ''/'') name of
        None \<Rightarrow> None
      | Some firstSlash \<Rightarrow>
          (case rfind_char (CHR ''.'') (take (Suc firstSlash) name) of
             None \<Rightarrow> None
           | Some lastDot \<Rightarrow>
               Some (substr name 0 lastDot, substr name (lastDot + 1) (firstSlash - lastDot - 1),
                     substr_from name (firstSlash + 1))))"

definition isVintfDeclared :: "manifest_instance list option list \<Rightarrow> string \<Rightarrow> bool" where
  "isVintfDeclared ms name =
     (case aidl_fill name of
        None \<Rightarrow> False
      | Some (package, iface, inst) \<Rightarrow>
          fst (forEachManifest (\<lambda>m s. (hasAidlInstance m package iface inst, s)) ms ()))"

definition apex_visitor :: "string \<Rightarrow> string \<Rightarrow> string \<Rightarrow> string option \<Rightarrow> manifest_instance \<Rightarrow> bool \<times> string option" where
  "apex_visitor package iface inst s mi =
     (if mi_package mi \<noteq> package then (True, s)
      else if mi_interface mi \<noteq> iface then (True, s)
      else if mi_instance mi \<noteq> inst then (True, s)
      else (False, mi_updatableViaApex mi))"

definition getVintfUpdatableApex :: "manifest_instance list option list \<Rightarrow> string \<Rightarrow> string option" where
  "getVintfUpdatableApex ms name =
     (case aidl_fill name of
        None \<Rightarrow> None
      | Some (package, iface, inst) \<Rightarrow>
          snd (forEachManifest (\<lambda>m s. (False, forEachInstance (apex_visitor package iface inst) m s)) ms None))"

definition getVintfInstances :: "manifest_instance list option list \<Rightarrow> string \<Rightarrow> string list" where
  "getVintfInstances ms interface =
     (case rfind_char (CHR ''.'') interface of
        None \<Rightarrow> []
      | Some lastDot \<Rightarrow>
          snd (forEachManifest
                 (\<lambda>m ret. (False, ret @ getAidlInstances m (substr interface 0 lastDot)
                                          (substr_from interface (lastDot + 1)))) ms []))"

definition meetsDeclarationRequirements :: "sm_env \<Rightarrow> nat \<Rightarrow> string \<Rightarrow> bool" where
  "meetsDeclarationRequirements env binder name =
     (if \<not> env_vintf env binder then True else isVintfDeclared (env_manifests env) name)"


subsection \<open>Finding and adding services\<close>

definition lookup_service :: "string \<Rightarrow> service_manager \<Rightarrow> service option" where
  "lookup_service name st = map_of (mNameToService st) name"

definition put_service :: "string \<Rightarrow> service \<Rightarrow> service_manager \<Rightarrow> service_manager" where
  "put_service name s st = st\<lparr>mNameToService := map_put name s (mNameToService st)\<rparr>"

definition tryGetService :: "sm_env \<Rightarrow> string \<Rightarrow> bool \<Rightarrow> service_manager \<Rightarrow>
    nat option \<times> sm_event list \<times> service_manager" where
  "tryGetService env name startIfNotFound st =
     (case lookup_service name st of
        Some s \<Rightarrow>
          if \<not> s_allowIsolated s \<and> is_isolated (ctx_uid (calling env)) then (None, [], st)
          else if \<not> may_find env name then (None, [], st)
          else (Some (s_binder s), [], put_service name (s\<lparr>s_guaranteeClient := True\<rparr>) st)
      | None \<Rightarrow>
          if \<not> may_find env name then (None, [], st)
          else (None, if startIfNotFound then [StartService name] else [], st))"

definition getService :: "sm_env \<Rightarrow> string \<Rightarrow> service_manager \<Rightarrow> (status \<times> nat option) \<times> sm_event list \<times> service_manager" where
  "getService env name st = (case tryGetService env name True st of (b, es, st1) \<Rightarrow> ((status_ok, b), es, st1))"

definition checkService :: "sm_env \<Rightarrow> string \<Rightarrow> service_manager \<Rightarrow> (status \<times> nat option) \<times> sm_event list \<times> service_manager" where
  "checkService env name st = (case tryGetService env name False st of (b, es, st1) \<Rightarrow> ((status_ok, b), es, st1))"

definition name_char :: "char \<Rightarrow> bool" where
  "name_char c \<longleftrightarrow> c = CHR ''_'' \<or> c = CHR ''-'' \<or> c = CHR ''.'' \<or> c = CHR ''/'' \<or>
     (CHR ''a'' \<le> c \<and> c \<le> CHR ''z'') \<or> (CHR ''A'' \<le> c \<and> c \<le> CHR ''Z'') \<or> (CHR ''0'' \<le> c \<and> c \<le> CHR ''9'')"

definition isValidServiceName :: "string \<Rightarrow> bool" where
  "isValidServiceName name \<longleftrightarrow> length name \<noteq> 0 \<and> \<not> length name > 127 \<and> list_all name_char name"

definition security :: status where "security = fromExceptionCode (exception_value EX_SECURITY) ''''"
definition illegal_argument :: status where "illegal_argument = fromExceptionCode (exception_value EX_ILLEGAL_ARGUMENT) ''''"
definition illegal_state :: status where "illegal_state = fromExceptionCode (exception_value EX_ILLEGAL_STATE) ''''"
definition null_pointer :: status where "null_pointer = fromExceptionCode (exception_value EX_NULL_POINTER) ''''"
definition unsupported :: status where "unsupported = fromExceptionCode (exception_value EX_UNSUPPORTED_OPERATION) ''''"

definition new_service :: "sm_env \<Rightarrow> nat \<Rightarrow> bool \<Rightarrow> 32 word \<Rightarrow> service" where
  "new_service env b allowIsolated dumpPriority =
     \<lparr>s_binder = b, s_allowIsolated = allowIsolated, s_dumpPriority = dumpPriority, s_hasClients = False,
      s_guaranteeClient = False, s_debugPid = ctx_debugPid (calling env)\<rparr>"

definition addService :: "sm_env \<Rightarrow> string \<Rightarrow> nat option \<Rightarrow> bool \<Rightarrow> 32 word \<Rightarrow> service_manager \<Rightarrow>
    status \<times> sm_event list \<times> service_manager" where
  "addService env name binder allowIsolated dumpPriority st =
     (if multiuser_get_app_id (ctx_uid (calling env)) \<ge> AID_APP then (security, [], st)
      else if \<not> may_add env name then (security, [], st)
      else case binder of
             None \<Rightarrow> (illegal_argument, [], st)
           | Some b \<Rightarrow>
               if \<not> isValidServiceName name then (illegal_argument, [], st)
               else if \<not> meetsDeclarationRequirements env b name then (illegal_argument, [], st)
               else if env_remote env b \<and> \<not> env_link env b then (illegal_state, [], st)
               else
                 (let s = new_service env b allowIsolated dumpPriority
                  in case map_of (mNameToRegistrationCallback st) name of
                       None \<Rightarrow> (status_ok, [], put_service name s st)
                     | Some cbs \<Rightarrow>
                         (status_ok, map (\<lambda>cb. OnRegistration cb name b) cbs,
                          put_service name (s\<lparr>s_guaranteeClient := cbs \<noteq> []\<rparr>) st)))"

definition listServices :: "sm_env \<Rightarrow> 32 word \<Rightarrow> service_manager \<Rightarrow> status \<times> string list" where
  "listServices env dumpPriority st =
     (if \<not> may_list env then (security, [])
      else (status_ok, map fst (filter (\<lambda>(n, s). s_dumpPriority s AND dumpPriority \<noteq> 0) (mNameToService st))))"

definition getServiceDebugInfo :: "sm_env \<Rightarrow> service_manager \<Rightarrow> status \<times> (string \<times> int) list" where
  "getServiceDebugInfo env st =
     (if \<not> may_list env then (security, [])
      else (status_ok, map (\<lambda>(n, s). (n, s_debugPid s)) (mNameToService st)))"


subsection \<open>Notifications\<close>

definition push_back :: "string \<Rightarrow> nat \<Rightarrow> (string \<times> nat list) list \<Rightarrow> (string \<times> nat list) list" where
  "push_back name cb m =
     map_put name ((case map_of m name of None \<Rightarrow> [] | Some cbs \<Rightarrow> cbs) @ [cb]) m"

definition registerForNotifications :: "sm_env \<Rightarrow> string \<Rightarrow> nat option \<Rightarrow> service_manager \<Rightarrow>
    status \<times> sm_event list \<times> service_manager" where
  "registerForNotifications env name callback st =
     (if \<not> may_find env name then (security, [], st)
      else if \<not> isValidServiceName name then (illegal_argument, [], st)
      else case callback of
             None \<Rightarrow> (null_pointer, [], st)
           | Some cb \<Rightarrow>
               if \<not> env_link env cb then (illegal_state, [], st)
               else (status_ok,
                     case lookup_service name st of
                       None \<Rightarrow> [] | Some s \<Rightarrow> [OnRegistration cb name (s_binder s)],
                     st\<lparr>mNameToRegistrationCallback := push_back name cb (mNameToRegistrationCallback st)\<rparr>))"

text \<open>\<open>removeRegistrationCallback\<close> and \<open>removeClientCallback\<close> at one entry: the entry goes when its list is empty.\<close>

definition remove_listener :: "nat \<Rightarrow> string \<Rightarrow> (string \<times> nat list) list \<Rightarrow> bool \<times> (string \<times> nat list) list" where
  "remove_listener who name m =
     (case map_of m name of
        None \<Rightarrow> (False, m)
      | Some cbs \<Rightarrow>
          (let rest = filter (\<lambda>cb. cb \<noteq> who) cbs
           in (who \<in> set cbs, if rest = [] then map_erase name m else map_put name rest m)))"

definition unregisterForNotifications :: "sm_env \<Rightarrow> string \<Rightarrow> nat option \<Rightarrow> service_manager \<Rightarrow> status \<times> service_manager" where
  "unregisterForNotifications env name callback st =
     (if \<not> may_find env name then (security, st)
      else case (case callback of
                   None \<Rightarrow> (False, mNameToRegistrationCallback st)
                 | Some cb \<Rightarrow> remove_listener cb name (mNameToRegistrationCallback st)) of
             (found, m) \<Rightarrow>
               (if \<not> found then illegal_state else status_ok, st\<lparr>mNameToRegistrationCallback := m\<rparr>))"

definition isDeclared :: "sm_env \<Rightarrow> string \<Rightarrow> status \<times> bool" where
  "isDeclared env name =
     (if \<not> may_find env name then (security, False) else (status_ok, isVintfDeclared (env_manifests env) name))"

definition getDeclaredInstances :: "sm_env \<Rightarrow> string \<Rightarrow> status \<times> string list" where
  "getDeclaredInstances env interface =
     (let allInstances = getVintfInstances (env_manifests env) interface;
          ret = filter (\<lambda>i. may_find env (interface @ ''/'' @ i)) allInstances
      in (if ret = [] \<and> allInstances \<noteq> [] then security else status_ok, ret))"

definition updatableViaApex :: "sm_env \<Rightarrow> string \<Rightarrow> status \<times> string option" where
  "updatableViaApex env name =
     (if \<not> may_find env name then (security, None) else (status_ok, getVintfUpdatableApex (env_manifests env) name))"

text \<open>The sweep of \<open>binderDied\<close> over one of the callback maps.\<close>

definition remove_from_all :: "nat \<Rightarrow> (string \<times> nat list) list \<Rightarrow> (string \<times> nat list) list" where
  "remove_from_all who m =
     filter (\<lambda>(n, cbs). cbs \<noteq> []) (map (\<lambda>(n, cbs). (n, filter (\<lambda>cb. cb \<noteq> who) cbs)) m)"

definition binderDied :: "nat \<Rightarrow> service_manager \<Rightarrow> service_manager" where
  "binderDied who st =
     \<lparr>mNameToService = filter (\<lambda>(n, s). s_binder s \<noteq> who) (mNameToService st),
      mNameToRegistrationCallback = remove_from_all who (mNameToRegistrationCallback st),
      mNameToClientCallback = remove_from_all who (mNameToClientCallback st)\<rparr>"


subsection \<open>Client callbacks\<close>

definition registerClientCallback :: "sm_env \<Rightarrow> string \<Rightarrow> nat option \<Rightarrow> nat option \<Rightarrow> service_manager \<Rightarrow> status \<times> service_manager" where
  "registerClientCallback env name service_binder callback st =
     (case callback of
        None \<Rightarrow> (null_pointer, st)
      | Some cb \<Rightarrow>
          if \<not> may_add env name then (security, st)
          else case lookup_service name st of
                 None \<Rightarrow> (illegal_argument, st)
               | Some s \<Rightarrow>
                   if s_debugPid s \<noteq> ipc_pid (env_caller env) then (unsupported, st)
                   else if Some (s_binder s) \<noteq> service_binder then (illegal_argument, st)
                   else if \<not> env_link env cb then (illegal_state, st)
                   else (status_ok, st\<lparr>mNameToClientCallback := push_back name cb (mNameToClientCallback st)\<rparr>))"

definition getNodeStrongRefCount :: "sm_env \<Rightarrow> service \<Rightarrow> int" where
  "getNodeStrongRefCount env s = (if \<not> env_remote env (s_binder s) then -1 else env_refs env (s_binder s))"

definition sendClientCallbackNotifications :: "string \<Rightarrow> bool \<Rightarrow> service_manager \<Rightarrow>
    (sm_event list \<times> service_manager) option" where
  "sendClientCallbackNotifications name has st =
     (case lookup_service name st of
        None \<Rightarrow> Some ([], st)
      | Some s \<Rightarrow>
          if has = s_hasClients s then None
          else case map_of (mNameToClientCallback st) name of
                 None \<Rightarrow> None
               | Some cbs \<Rightarrow>
                   Some (map (\<lambda>cb. OnClients cb (s_binder s) has) cbs,
                         put_service name (s\<lparr>s_hasClients := has\<rparr>) st))"

text \<open>The guarantee is honoured first, then cleared.\<close>

definition honour_guarantee :: "string \<Rightarrow> bool \<Rightarrow> service_manager \<Rightarrow> (sm_event list \<times> service_manager) option" where
  "honour_guarantee name has st =
     (case lookup_service name st of
        None \<Rightarrow> Some ([], st)
      | Some s \<Rightarrow>
          if \<not> s_guaranteeClient s then Some ([], st)
          else
            (case (if \<not> s_hasClients s \<and> \<not> has then sendClientCallbackNotifications name True st
                   else Some ([], st)) of
               None \<Rightarrow> None
             | Some (es, st1) \<Rightarrow>
                 (case lookup_service name st1 of
                    None \<Rightarrow> Some (es, st1)
                  | Some s1 \<Rightarrow> Some (es, put_service name (s1\<lparr>s_guaranteeClient := False\<rparr>) st1))))"

definition notify_change :: "string \<Rightarrow> bool \<Rightarrow> service_manager \<Rightarrow> (sm_event list \<times> service_manager) option" where
  "notify_change name has st =
     (case lookup_service name st of
        None \<Rightarrow> Some ([], st)
      | Some s \<Rightarrow>
          if has \<and> \<not> s_hasClients s then sendClientCallbackNotifications name True st
          else if \<not> has \<and> s_hasClients s then sendClientCallbackNotifications name False st
          else Some ([], st))"

definition handleServiceClientCallback :: "sm_env \<Rightarrow> string \<Rightarrow> bool \<Rightarrow> service_manager \<Rightarrow>
    (int \<times> sm_event list \<times> service_manager) option" where
  "handleServiceClientCallback env name isCalledOnInterval st =
     (case (lookup_service name st, map_of (mNameToClientCallback st) name) of
        (Some s, Some cbs) \<Rightarrow>
          (let count = getNodeStrongRefCount env s;
               has = (count > 1)
           in if count = -1 then Some (count, [], st)
              else case honour_guarantee name has st of
                     None \<Rightarrow> None
                   | Some (es1, st1) \<Rightarrow>
                       if \<not> isCalledOnInterval then Some (count, es1, st1)
                       else (case notify_change name has st1 of
                               None \<Rightarrow> None
                             | Some (es2, st2) \<Rightarrow> Some (count, es1 @ es2, st2)))
      | _ \<Rightarrow> Some (-1, [], st))"

fun handle_names :: "sm_env \<Rightarrow> string list \<Rightarrow> service_manager \<Rightarrow> (sm_event list \<times> service_manager) option" where
  "handle_names env [] st = Some ([], st)"
| "handle_names env (n # ns) st =
     (case handleServiceClientCallback env n True st of
        None \<Rightarrow> None
      | Some (c, es, st1) \<Rightarrow>
          (case handle_names env ns st1 of None \<Rightarrow> None | Some (es2, st2) \<Rightarrow> Some (es @ es2, st2)))"

definition handleClientCallbacks :: "sm_env \<Rightarrow> service_manager \<Rightarrow> (sm_event list \<times> service_manager) option" where
  "handleClientCallbacks env st = handle_names env (map fst (mNameToService st)) st"

definition tryUnregisterService :: "sm_env \<Rightarrow> string \<Rightarrow> nat option \<Rightarrow> service_manager \<Rightarrow>
    (status \<times> sm_event list \<times> service_manager) option" where
  "tryUnregisterService env name binder st =
     (case binder of
        None \<Rightarrow> Some (null_pointer, [], st)
      | Some b \<Rightarrow>
          if \<not> may_add env name then Some (security, [], st)
          else case lookup_service name st of
                 None \<Rightarrow> Some (illegal_state, [], st)
               | Some s \<Rightarrow>
                   if s_debugPid s \<noteq> ipc_pid (env_caller env) then Some (unsupported, [], st)
                   else if b \<noteq> s_binder s then Some (illegal_state, [], st)
                   else if s_guaranteeClient s then Some (illegal_state, [], st)
                   else case handleServiceClientCallback env name False st of
                          None \<Rightarrow> None
                        | Some (clients, es, st1) \<Rightarrow>
                            if clients < 0 \<or> clients > 2 then
                              (case lookup_service name st1 of
                                 None \<Rightarrow> Some (illegal_state, es, st1)
                               | Some s1 \<Rightarrow>
                                   Some (illegal_state, es, put_service name (s1\<lparr>s_guaranteeClient := True\<rparr>) st1))
                            else Some (status_ok, es, st1\<lparr>mNameToService := map_erase name (mNameToService st1)\<rparr>))"

text \<open>\<open>main\<close> of servicemanager: it registers itself before it serves anybody; failing to is only logged.\<close>

definition DUMP_FLAG_PRIORITY_DEFAULT :: "32 word" where "DUMP_FLAG_PRIORITY_DEFAULT = 8"

definition servicemanager_start :: "sm_env \<Rightarrow> nat \<Rightarrow> service_manager" where
  "servicemanager_start env self_binder =
     snd (snd (addService env ''manager'' (Some self_binder) False DUMP_FLAG_PRIORITY_DEFAULT ServiceManager_init))"

end
