(* ===== verification/Service_Manager_Props.thy ===== *)
theory Service_Manager_Props
  imports Service_Manager
begin

text \<open>
  What servicemanager guarantees: the well-formedness of its three maps under every operation, who
  gets which binder, that the \<open>CHECK\<close>s of the client callbacks hold, and what is left of a binder
  that died.
\<close>

subsection \<open>The invariant\<close>

definition callbacks_ok :: "(string \<times> nat list) list \<Rightarrow> bool" where
  "callbacks_ok m \<longleftrightarrow> map_ok m \<and> list_all (\<lambda>(n, cbs). cbs \<noteq> []) m"

definition sm_ok :: "service_manager \<Rightarrow> bool" where
  "sm_ok st \<longleftrightarrow> map_ok (mNameToService st) \<and> callbacks_ok (mNameToRegistrationCallback st) \<and>
     callbacks_ok (mNameToClientCallback st)"

lemma map_put_list_all: "list_all P m \<Longrightarrow> P (k, v) \<Longrightarrow> list_all P (map_put k v m)"
  by (induction k v m rule: map_put.induct) auto

lemma callbacks_ok_push: "callbacks_ok m \<Longrightarrow> callbacks_ok (push_back n cb m)"
  by (simp add: callbacks_ok_def push_back_def map_put_ok map_put_list_all)

lemma map_erase_list_all: "list_all P m \<Longrightarrow> list_all P (map_erase k m)"
  by (simp add: map_erase_def list_all_iff)

lemma callbacks_ok_remove: "callbacks_ok m \<Longrightarrow> callbacks_ok (snd (remove_listener who n m))"
  by (simp add: callbacks_ok_def remove_listener_def map_put_ok map_put_list_all map_erase_ok Let_def
      map_erase_list_all split: option.splits)

lemma callbacks_ok_remove_all: "callbacks_ok m \<Longrightarrow> callbacks_ok (remove_from_all who m)"
  by (auto simp: callbacks_ok_def remove_from_all_def map_values_ok list_all_iff intro: map_filter_ok)

lemma sm_ok_put [simp]: "sm_ok st \<Longrightarrow> sm_ok (put_service n s st)"
  by (simp add: sm_ok_def put_service_def map_put_ok)

lemma put_service_callbacks [simp]:
  "mNameToClientCallback (put_service n s st) = mNameToClientCallback st"
  "mNameToRegistrationCallback (put_service n s st) = mNameToRegistrationCallback st"
  by (simp_all add: put_service_def)

lemma lookup_put [simp]:
  assumes "sm_ok st"
  shows "lookup_service k (put_service n s st) = (if k = n then Some s else lookup_service k st)"
  using assms omap.put_lookup [of "mNameToService st" n s]
  by (simp add: lookup_service_def put_service_def sm_ok_def)

lemma sm_ok_init: "sm_ok ServiceManager_init"
  by (simp add: sm_ok_def ServiceManager_init_def callbacks_ok_def map_ok_def)

lemma sm_ok_get: "sm_ok st \<Longrightarrow> sm_ok (snd (snd (tryGetService env n b st)))"
  by (simp add: tryGetService_def split: option.splits)

lemma sm_ok_add: "sm_ok st \<Longrightarrow> sm_ok (snd (snd (addService env n b allow p st)))"
  by (simp add: addService_def Let_def split: option.splits)

lemma sm_ok_register: "sm_ok st \<Longrightarrow> sm_ok (snd (snd (registerForNotifications env n cb st)))"
  by (simp add: registerForNotifications_def sm_ok_def callbacks_ok_push split: option.splits)

lemma sm_ok_unregister: "sm_ok st \<Longrightarrow> sm_ok (snd (unregisterForNotifications env n cb st))"
  using callbacks_ok_remove [of "mNameToRegistrationCallback st"]
  by (auto simp: unregisterForNotifications_def sm_ok_def case_prod_beta split: option.splits)

lemma sm_ok_register_client: "sm_ok st \<Longrightarrow> sm_ok (snd (registerClientCallback env n b cb st))"
  by (simp add: registerClientCallback_def sm_ok_def callbacks_ok_push split: option.splits)

lemma sm_ok_died: "sm_ok st \<Longrightarrow> sm_ok (binderDied who st)"
  by (simp add: binderDied_def sm_ok_def callbacks_ok_remove_all map_filter_ok)


subsection \<open>Client callbacks never abort\<close>

text \<open>
  Sending is legal when the record differs and there are callbacks; it changes the record of that
  service and nothing else.
\<close>

lemma send_ok:
  assumes "sm_ok st" and "lookup_service n st = Some s" and "map_of (mNameToClientCallback st) n = Some cbs"
    and "s_hasClients s \<noteq> has"
  shows "sendClientCallbackNotifications n has st =
    Some (map (\<lambda>cb. OnClients cb (s_binder s) has) cbs, put_service n (s\<lparr>s_hasClients := has\<rparr>) st)"
  using assms by (auto simp: sendClientCallbackNotifications_def)

text \<open>Both stages of a check keep the maps and every name but this one.\<close>

definition registration :: "service \<Rightarrow> nat \<times> bool \<times> 32 word \<times> int" where
  "registration s = (s_binder s, s_allowIsolated s, s_dumpPriority s, s_debugPid s)"

lemma registration_update [simp]:
  "registration (s\<lparr>s_hasClients := h\<rparr>) = registration s" "registration (s\<lparr>s_guaranteeClient := g\<rparr>) = registration s"
  by (simp_all add: registration_def)

definition stage :: "string \<Rightarrow> service_manager \<Rightarrow> service_manager \<Rightarrow> bool" where
  "stage n st st' \<longleftrightarrow> sm_ok st' \<and> mNameToClientCallback st' = mNameToClientCallback st \<and>
     mNameToRegistrationCallback st' = mNameToRegistrationCallback st \<and>
     (\<forall>k. k \<noteq> n \<longrightarrow> lookup_service k st' = lookup_service k st) \<and>
     map_option registration (lookup_service n st') = map_option registration (lookup_service n st)"

lemma honour_guarantee_ok:
  assumes "sm_ok st" and "lookup_service n st = Some s" and "map_of (mNameToClientCallback st) n = Some cbs"
  shows "\<exists>es st'. honour_guarantee n has st = Some (es, st') \<and> stage n st st'"
  using assms send_ok [OF assms(1-3), of True]
  by (auto simp: honour_guarantee_def stage_def split: if_splits)

lemma notify_change_ok:
  assumes "sm_ok st" and "lookup_service n st = Some s" and "map_of (mNameToClientCallback st) n = Some cbs"
  shows "\<exists>es st'. notify_change n has st = Some (es, st') \<and> stage n st st'"
  using assms send_ok [OF assms(1-3), of True] send_ok [OF assms(1-3), of False]
  by (auto simp: notify_change_def stage_def)

lemma stage_trans: "stage n st st1 \<Longrightarrow> stage n st1 st2 \<Longrightarrow> stage n st st2"
  unfolding stage_def by (metis (no_types, lifting))

lemma stage_refl: "sm_ok st \<Longrightarrow> stage n st st"
  by (simp add: stage_def)

lemma handle_ok:
  assumes "sm_ok st"
  shows "\<exists>c es st'. handleServiceClientCallback env n interval st = Some (c, es, st') \<and> stage n st st'"
proof (cases "lookup_service n st")
  case None
  then show ?thesis using stage_refl [OF assms] by (simp add: handleServiceClientCallback_def)
next
  case (Some s)
  show ?thesis
  proof (cases "map_of (mNameToClientCallback st) n")
    case None
    then show ?thesis using stage_refl [OF assms] Some by (simp add: handleServiceClientCallback_def)
  next
    case cbs: (Some cbs)
    let ?has = "getNodeStrongRefCount env s > 1"
    obtain es1 st1 where h: "honour_guarantee n ?has st = Some (es1, st1)" "stage n st st1"
      using honour_guarantee_ok [OF assms Some cbs] by blast
    then obtain s1 where "sm_ok st1" "lookup_service n st1 = Some s1" "map_of (mNameToClientCallback st1) n = Some cbs"
      using Some cbs by (auto simp: stage_def)
    then obtain es2 st2 where n: "notify_change n ?has st1 = Some (es2, st2)" "stage n st1 st2"
      using notify_change_ok by blast
    show ?thesis
      using h n stage_trans [OF h(2) n(2)] stage_refl [OF assms] Some cbs
      by (auto simp: handleServiceClientCallback_def Let_def)
  qed
qed

lemma handle_names_ok:
  "sm_ok st \<Longrightarrow> \<exists>es st'. handle_names env ns st = Some (es, st') \<and> sm_ok st' \<and>
     (\<forall>k. map_option registration (lookup_service k st') = map_option registration (lookup_service k st))"
proof (induction ns arbitrary: st)
  case (Cons n ns)
  obtain c es st1 where h: "handleServiceClientCallback env n True st = Some (c, es, st1)" "stage n st st1"
    using handle_ok [OF Cons.prems] by blast
  have b: "map_option registration (lookup_service k st1) = map_option registration (lookup_service k st)" for k
    using h(2) by (cases "k = n") (auto simp: stage_def)
  have "sm_ok st1" using h(2) by (simp add: stage_def)
  then show ?case using Cons.IH h(1) b by fastforce
qed simp

lemma unregister_ok:
  assumes "sm_ok st"
  shows "\<exists>stat es st'. tryUnregisterService env n b st = Some (stat, es, st') \<and> sm_ok st'"
proof -
  obtain c es st1 where "handleServiceClientCallback env n False st = Some (c, es, st1)" "sm_ok st1"
    using handle_ok [OF assms, of env n False] by (auto simp: stage_def)
  moreover have "sm_ok (st1\<lparr>mNameToService := map_erase n (mNameToService st1)\<rparr>)"
    using \<open>sm_ok st1\<close> by (simp add: sm_ok_def map_erase_ok)
  ultimately show ?thesis
    using assms by (auto simp: tryUnregisterService_def split: option.splits)
qed


subsection \<open>Reachable states\<close>

text \<open>One transaction, one death notification, or one turn of the client callback timer.\<close>

inductive sm_step :: "service_manager \<Rightarrow> service_manager \<Rightarrow> bool" where
  get: "sm_step st (snd (snd (getService env n st)))"
| check: "sm_step st (snd (snd (checkService env n st)))"
| add: "sm_step st (snd (snd (addService env n b allow p st)))"
| register: "sm_step st (snd (snd (registerForNotifications env n cb st)))"
| unregister: "sm_step st (snd (unregisterForNotifications env n cb st))"
| register_client: "sm_step st (snd (registerClientCallback env n b cb st))"
| died: "sm_step st (binderDied who st)"
| try_unregister: "tryUnregisterService env n b st = Some (stat, es, st') \<Longrightarrow> sm_step st st'"
| timer: "handleClientCallbacks env st = Some (es, st') \<Longrightarrow> sm_step st st'"

inductive_cases sm_stepE: "sm_step st st'"

lemma sm_ok_step:
  assumes "sm_step st st'" and "sm_ok st"
  shows "sm_ok st'"
  using assms(1)
proof cases
  case (try_unregister env n b stat es)
  then show ?thesis using unregister_ok [OF assms(2), of env n b] by auto
next
  case (timer env es)
  then show ?thesis
    using handle_names_ok [OF assms(2), of env "map fst (mNameToService st)"] by (auto simp: handleClientCallbacks_def)
qed (use assms(2) in \<open>simp_all add: getService_def checkService_def case_prod_beta sm_ok_get sm_ok_add
      sm_ok_register sm_ok_unregister sm_ok_register_client sm_ok_died\<close>)

lemma sm_ok_reach: "sm_step\<^sup>*\<^sup>* ServiceManager_init st \<Longrightarrow> sm_ok st"
  by (induction rule: rtranclp_induct) (auto intro: sm_ok_init sm_ok_step)

text \<open>On the host, SELinux answers every question with yes.\<close>

lemma stub_allows:
  assumes "env_selinux env = selinux_stub"
  shows "may_find env n" "may_add env n" "may_list env"
  using assms by (simp_all add: may_find_def may_add_def may_list_def canFind_def canAdd_def canList_def
      actionAllowedFromLookup_def actionAllowed_def selinux_stub_def selabel_lookup_def selinux_check_access_def)


subsection \<open>Properties\<close>

text \<open>
  C5. servicemanager never aborts on its own bookkeeping: after any sequence of transactions, deaths and
  timer turns its maps are ordered and free of empty callback lists, and the next timer turn and the
  next unregistration pass every \<open>CHECK\<close>.
\<close>

theorem servicemanager_never_aborts:
  assumes "sm_step\<^sup>*\<^sup>* ServiceManager_init st"
  shows "sm_ok st \<and> handleClientCallbacks env st \<noteq> None \<and> tryUnregisterService env n b st \<noteq> None"
  using sm_ok_reach [OF assms] handle_names_ok [of st env "map fst (mNameToService st)"] unregister_ok [of st env n b]
  by (force simp: handleClientCallbacks_def)

text \<open>
  A service that was added is found: after a successful \<open>addService\<close> every caller that may find the
  name, and is not isolated or is welcome, gets exactly this binder; every other name is untouched,
  and exactly the callbacks registered for the name are told.
\<close>

theorem added_service_found:
  assumes "sm_ok st" and "addService env n binder allow p st = (stat, es, st')" and "isOk stat"
    and "may_find env2 n" and "allow \<or> \<not> is_isolated (ctx_uid (calling env2))"
  shows "\<exists>b. binder = Some b \<and> fst (checkService env2 n st') = (status_ok, Some b) \<and>
    es = map (\<lambda>cb. OnRegistration cb n b) (case map_of (mNameToRegistrationCallback st) n of None \<Rightarrow> [] | Some cbs \<Rightarrow> cbs) \<and>
    (\<forall>k. k \<noteq> n \<longrightarrow> lookup_service k st' = lookup_service k st)"
  using assms
  by (auto simp: addService_def security_def illegal_argument_def illegal_state_def Let_def new_service_def
      checkService_def tryGetService_def split: if_splits option.splits)

text \<open>
  C36. Only callers that may add get past \<open>addService\<close>: success means a system uid, permission for the
  name, a valid name and, where the binder requires one, a VINTF declaration; on any failure nothing
  changes and nobody is told.
\<close>

theorem addService_guarded:
  assumes "addService env n binder allow p st = (stat, es, st')"
  shows "(isOk stat \<and> multiuser_get_app_id (ctx_uid (calling env)) < AID_APP \<and> may_add env n \<and> isValidServiceName n \<and>
      (\<exists>b. binder = Some b \<and> (env_vintf env b \<longrightarrow> isVintfDeclared (env_manifests env) n))) \<or>
    (\<not> isOk stat \<and> st' = st \<and> es = [])"
  using assms
  by (auto simp: addService_def security_def illegal_argument_def illegal_state_def Let_def
      meetsDeclarationRequirements_def split: if_splits option.splits)

text \<open>
  Isolated processes get no service that does not allow them, and asking leaves no trace.
\<close>

theorem isolated_gets_nothing:
  assumes "lookup_service n st = Some s" and "\<not> s_allowIsolated s" and "is_isolated (ctx_uid (calling env))"
  shows "getService env n st = ((status_ok, None), [], st) \<and> checkService env n st = ((status_ok, None), [], st)"
  using assms by (simp add: getService_def checkService_def tryGetService_def)

lemma remove_from_all_lookup:
  assumes "callbacks_ok m"
  shows "map_of (remove_from_all who m) n =
    (case map_of m n of None \<Rightarrow> None
     | Some cbs \<Rightarrow> if filter (\<lambda>cb. cb \<noteq> who) cbs = [] then None else Some (filter (\<lambda>cb. cb \<noteq> who) cbs))"
proof -
  let ?m = "map (\<lambda>(n, cbs). (n, filter (\<lambda>cb. cb \<noteq> who) cbs)) m"
  have ok: "map_ok ?m" using assms by (simp add: callbacks_ok_def map_values_ok)
  have l: "map_of ?m n = map_option (filter (\<lambda>cb. cb \<noteq> who)) (map_of m n)" by (simp add: map_of_values)
  show ?thesis
    unfolding remove_from_all_def map_of_filter_value [OF ok] l by (simp split: option.splits)
qed

text \<open>
  The death of a binder leaves nothing of it behind: no name resolves to it and no callback list
  holds it, while every other service and every other callback, in its order, is kept.
\<close>

theorem binderDied_forgets:
  assumes "sm_ok st"
  shows "lookup_service n (binderDied who st) =
      (case lookup_service n st of None \<Rightarrow> None | Some s \<Rightarrow> if s_binder s = who then None else Some s) \<and>
    map_of (mNameToRegistrationCallback (binderDied who st)) n =
      (case map_of (mNameToRegistrationCallback st) n of None \<Rightarrow> None
       | Some cbs \<Rightarrow> if filter (\<lambda>cb. cb \<noteq> who) cbs = [] then None else Some (filter (\<lambda>cb. cb \<noteq> who) cbs)) \<and>
    map_of (mNameToClientCallback (binderDied who st)) n =
      (case map_of (mNameToClientCallback st) n of None \<Rightarrow> None
       | Some cbs \<Rightarrow> if filter (\<lambda>cb. cb \<noteq> who) cbs = [] then None else Some (filter (\<lambda>cb. cb \<noteq> who) cbs))"
proof -
  have ok: "map_ok (mNameToService st)" using assms by (simp add: sm_ok_def)
  have "lookup_service n (binderDied who st) =
      (case lookup_service n st of None \<Rightarrow> None | Some s \<Rightarrow> if s_binder s = who then None else Some s)"
    unfolding lookup_service_def binderDied_def service_manager.simps map_of_filter_value [OF ok]
    by (simp split: option.splits)
  then show ?thesis using assms by (simp add: binderDied_def remove_from_all_lookup sm_ok_def)
qed

text \<open>
  A service is unregistered only by its own process, for the registered binder, with no client
  promised, and when the driver counts no reference besides the two that servicemanager accounts
  for; then the name is free. Otherwise every registration stays.
\<close>

theorem tryUnregisterService_safe:
  assumes "sm_ok st" and "tryUnregisterService env n binder st = Some (stat, es, st')"
  shows "(isOk stat \<and> lookup_service n st' = None \<and>
      (\<exists>s. lookup_service n st = Some s \<and> binder = Some (s_binder s) \<and> s_debugPid s = ipc_pid (env_caller env) \<and>
         \<not> s_guaranteeClient s \<and> may_add env n \<and> 0 \<le> env_refs env (s_binder s) \<and> env_refs env (s_binder s) \<le> 2)) \<or>
    (\<not> isOk stat \<and>
      (\<forall>k. map_option registration (lookup_service k st') = map_option registration (lookup_service k st)))"
proof -
  obtain c es1 st1 where h: "handleServiceClientCallback env n False st = Some (c, es1, st1)" and s: "stage n st st1"
    using handle_ok [OF assms(1)] by blast
  have reg: "map_option registration (lookup_service k st1) = map_option registration (lookup_service k st)" for k
    using s by (cases "k = n") (auto simp: stage_def)
  have ok1: "sm_ok st1" using s by (simp add: stage_def)
  have c: "0 \<le> c \<Longrightarrow> lookup_service n st = Some x \<Longrightarrow> c = env_refs env (s_binder x)" for x
    using h by (auto simp: handleServiceClientCallback_def getNodeStrongRefCount_def Let_def
        split: option.splits if_splits)
  have e: "lookup_service n (st1\<lparr>mNameToService := map_erase n (mNameToService st1)\<rparr>) = None"
    using ok1 by (simp add: lookup_service_def sm_ok_def map_erase_lookup)
  have bad: "\<not> isOk null_pointer" "\<not> isOk security" "\<not> isOk illegal_state" "\<not> isOk unsupported"
    by (simp_all add: null_pointer_def security_def illegal_state_def unsupported_def)
  have p: "map_option registration (lookup_service k (put_service n (x\<lparr>s_guaranteeClient := True\<rparr>) st1)) =
      map_option registration (lookup_service k st)" if "lookup_service n st1 = Some x" for k x
    using that reg [of k] ok1 by auto
  show ?thesis
  proof (cases "\<exists>x. lookup_service n st = Some x \<and> binder = Some (s_binder x) \<and> may_add env n \<and>
      s_debugPid x = ipc_pid (env_caller env) \<and> \<not> s_guaranteeClient x")
    case True
    then obtain x where x: "lookup_service n st = Some x" "binder = Some (s_binder x)" "may_add env n"
      "s_debugPid x = ipc_pid (env_caller env)" "\<not> s_guaranteeClient x" by blast
    obtain x1 where x1: "lookup_service n st1 = Some x1" using reg [of n] x(1) by auto
    have t: "tryUnregisterService env n binder st =
        (if c < 0 \<or> c > 2 then Some (illegal_state, es1, put_service n (x1\<lparr>s_guaranteeClient := True\<rparr>) st1)
         else Some (status_ok, es1, st1\<lparr>mNameToService := map_erase n (mNameToService st1)\<rparr>))"
      using x x1 h by (simp add: tryUnregisterService_def)
    show ?thesis
    proof (cases "c < 0 \<or> c > 2")
      case True
      then show ?thesis using assms(2) t bad p [OF x1] by auto
    next
      case False
      then show ?thesis using assms(2) t e x c [OF _ x(1)] by auto
    qed
  next
    case False
    then have "\<not> isOk stat \<and> st' = st"
      using assms(2) bad unfolding tryUnregisterService_def by (auto split: option.splits if_splits)
    then show ?thesis by simp
  qed
qed

text \<open>
  \<open>updatableViaApex\<close> misses instances: the visitor asks to go on by returning true, which the
  manifest takes as a request to stop, so that an instance after one that does not match is declared
  but its APEX is not found, although it is when the instance comes first.
\<close>

theorem updatableViaApex_misses:
  "isVintfDeclared [Some (loadFrom (Some (''a.IFoo/default'' @ [lf] @ ''b.IBar/default@com.bar'' @ [lf])))] ''b.IBar/default'' \<and>
   getVintfUpdatableApex [Some (loadFrom (Some (''a.IFoo/default'' @ [lf] @ ''b.IBar/default@com.bar'' @ [lf])))] ''b.IBar/default'' = None \<and>
   getVintfUpdatableApex [Some (loadFrom (Some (''b.IBar/default@com.bar'' @ [lf] @ ''a.IFoo/default'' @ [lf])))] ''b.IBar/default'' =
     Some ''com.bar''"
  by code_simp

text \<open>A manifest line written for an instance is read back as that instance.\<close>

theorem manifest_line_roundtrip:
  assumes "instance_ok mi"
  shows "vintf_parseLine (render_instance mi) = Some mi"
  using assms by (rule parse_render)

theorem manifest_line_roundtrip_witness:
  "vintf_parseLine ''b.IBar/default@com.bar'' =
     Some \<lparr>mi_package = ''b'', mi_interface = ''IBar'', mi_instance = ''default'', mi_updatableViaApex = Some ''com.bar''\<rparr>"
  using manifest_line_roundtrip [of "\<lparr>mi_package = ''b'', mi_interface = ''IBar'', mi_instance = ''default'',
      mi_updatableViaApex = Some ''com.bar''\<rparr>"]
  by (simp add: instance_ok_def render_instance_def)


subsection \<open>A registry with the services of this project\<close>

definition host_env :: "nat \<Rightarrow> int \<Rightarrow> sm_env" where
  "host_env uid pid =
     \<lparr>env_selinux = selinux_stub, env_self = kPermissiveContext,
      env_caller = \<lparr>ipc_sid = None, ipc_pid = pid, ipc_uid = uid\<rparr>, env_manifests = [Some [], Some []],
      env_remote = (\<lambda>_. True), env_vintf = (\<lambda>_. False), env_link = (\<lambda>_. True), env_refs = (\<lambda>_. 2)\<rparr>"

lemma host_env_facts [simp]:
  "may_find (host_env uid pid) n" "may_add (host_env uid pid) n" "ctx_uid (calling (host_env uid pid)) = uid"
  "ctx_debugPid (calling (host_env uid pid)) = pid" "ipc_pid (env_caller (host_env uid pid)) = pid"
  using stub_allows [of "host_env uid pid"] by (simp_all add: host_env_def calling_def getCallingContext_def)

definition sample_registry :: service_manager where
  "sample_registry = snd (snd (addService (host_env 0 7) ''http.service'' (Some 3) False 8 ServiceManager_init))"

lemma valid_http: "isValidServiceName ''http.service''"
  by code_simp

lemma sample_add:
  "addService (host_env 0 7) ''http.service'' (Some 3) False 8 ServiceManager_init =
     (status_ok, [], put_service ''http.service'' (new_service (host_env 0 7) 3 False 8) ServiceManager_init)"
  using valid_http
  by (simp add: addService_def multiuser_get_app_id_def AID_APP_def meetsDeclarationRequirements_def
      host_env_def [of 0 7, THEN arg_cong [where f = env_vintf], simplified]
      host_env_def [of 0 7, THEN arg_cong [where f = env_link], simplified] ServiceManager_init_def)

lemma sample_registry_ok: "sm_ok sample_registry"
  unfolding sample_registry_def by (rule sm_ok_add [OF sm_ok_init])

lemma sample_lookup:
  "lookup_service ''http.service'' sample_registry = Some (new_service (host_env 0 7) 3 False 8)"
  by (simp add: sample_registry_def sample_add sm_ok_init)

theorem servicemanager_never_aborts_witness:
  "handleClientCallbacks (host_env 0 7) sample_registry \<noteq> None \<and>
   tryUnregisterService (host_env 0 7) ''http.service'' (Some 3) sample_registry \<noteq> None"
proof -
  have "sm_step\<^sup>*\<^sup>* ServiceManager_init sample_registry"
    unfolding sample_registry_def by (rule r_into_rtranclp) (rule sm_step.add)
  from servicemanager_never_aborts [OF this] show ?thesis by blast
qed

theorem added_service_found_witness:
  "fst (checkService (host_env 10123 50) ''http.service'' sample_registry) = (status_ok, Some 3)"
  using added_service_found [OF sm_ok_init sample_add, of "host_env 10123 50"]
  by (simp add: is_isolated_def multiuser_get_app_id_def AID_ISOLATED_START_def sample_registry_def sample_add)

theorem addService_guarded_witness:
  "isValidServiceName ''http.service'' \<and> multiuser_get_app_id 0 < AID_APP"
  using addService_guarded [OF sample_add] by simp

theorem isolated_gets_nothing_witness:
  "getService (host_env 99001 50) ''http.service'' sample_registry = ((status_ok, None), [], sample_registry)"
  using isolated_gets_nothing [OF sample_lookup, of "host_env 99001 50"]
  by (simp add: new_service_def is_isolated_def multiuser_get_app_id_def AID_ISOLATED_START_def AID_ISOLATED_END_def)

theorem binderDied_forgets_witness:
  "lookup_service ''http.service'' (binderDied 3 sample_registry) = None"
  using binderDied_forgets [OF sample_registry_ok, of "''http.service''" 3]
  by (simp add: sample_lookup new_service_def)

theorem tryUnregisterService_safe_witness:
  "\<exists>stat es st'. tryUnregisterService (host_env 0 8) ''http.service'' (Some 3) sample_registry = Some (stat, es, st') \<and>
     \<not> isOk stat \<and> map_option registration (lookup_service ''http.service'' st') = Some (3, False, 8, 7)"
proof -
  have t: "tryUnregisterService (host_env 0 8) ''http.service'' (Some 3) sample_registry = Some (unsupported, [], sample_registry)"
    by (simp add: tryUnregisterService_def sample_lookup new_service_def)
  show ?thesis
    using tryUnregisterService_safe [OF sample_registry_ok t] t
    by (auto simp: unsupported_def sample_lookup registration_def new_service_def)
qed

end
