(* ===== verification/Memory_Dealer.thy ===== *)
theory Memory_Dealer
  imports Binder_Status "HOL-Library.Multiset"
begin

text \<open>
  \<open>SimpleBestFitAllocator\<close> of \<open>frameworks/native/libs/binder/MemoryDealer.cpp\<close>, which hands out the
  shared heap of a \<open>MemoryDealer\<close>: the list of chunks in address order, best fit with an optional
  page alignment, and the merge of neighbours when a block is given back. Sizes and starts are in
  units of \<open>kMemoryAlign\<close> bytes inside the list; \<open>size_t\<close> arithmetic on bytes is modulo \<open>2 ^ 64\<close>. Heaps are
  assumed smaller than \<open>2 ^ 28\<close> units, the width of a chunk's size.
\<close>

subsection \<open>The allocator\<close>

definition kMemoryAlign :: nat where "kMemoryAlign = 32"

record chunk =
  c_start :: nat
  c_size :: nat
  c_free :: bool

definition new_chunk :: "nat \<Rightarrow> nat \<Rightarrow> chunk" where
  "new_chunk start sz = \<lparr>c_start = start, c_size = sz, c_free = True\<rparr>"

definition round_up :: "nat \<Rightarrow> nat \<Rightarrow> nat" where
  "round_up page n = (n + page - 1) div page * page"

text \<open>The constructor: one free chunk of the whole heap, in whole pages.\<close>

definition allocator_init :: "nat \<Rightarrow> nat \<Rightarrow> chunk list" where
  "allocator_init page sz = [new_chunk 0 (round_up page sz div kMemoryAlign)]"

text \<open>\<open>-start & (pagesize / kMemoryAlign - 1)\<close>: the units up to the next page.\<close>

definition extra :: "nat \<Rightarrow> bool \<Rightarrow> nat \<Rightarrow> nat" where
  "extra page aligned start =
     (if aligned then nat ((- int start) mod int (page div kMemoryAlign)) else 0)"

text \<open>The scan: the index and the size of the best chunk so far.\<close>

fun best_fit :: "nat \<Rightarrow> bool \<Rightarrow> nat \<Rightarrow> chunk list \<Rightarrow> nat \<Rightarrow> (nat \<times> nat) option \<Rightarrow> (nat \<times> nat) option" where
  "best_fit page aligned sz [] i best = best"
| "best_fit page aligned sz (cur # cs) i best =
     (if c_free cur \<and> c_size cur \<ge> sz + extra page aligned (c_start cur) then
        (let best1 = (case best of
                        None \<Rightarrow> Some (i, c_size cur)
                      | Some (k, s) \<Rightarrow> if c_size cur < s then Some (i, c_size cur) else best)
         in if c_size cur = sz then best1 else best_fit page aligned sz cs (Suc i) best1)
      else best_fit page aligned sz cs (Suc i) best)"

text \<open>What takes the place of the chunk that was found.\<close>

definition carve :: "nat \<Rightarrow> bool \<Rightarrow> nat \<Rightarrow> chunk \<Rightarrow> nat \<times> chunk list" where
  "carve page aligned sz c =
     (if c_size c > sz then
        (let ex = extra page aligned (c_start c);
             start = c_start c + ex;
             tail_free = int (c_size c) - int (sz + ex)
         in (start,
             (if ex \<noteq> 0 then [new_chunk (c_start c) ex] else []) @
             [\<lparr>c_start = start, c_size = sz, c_free = False\<rparr>] @
             (if tail_free > 0 then [new_chunk (start + sz) (nat tail_free)] else [])))
      else (c_start c, [c\<lparr>c_size := sz, c_free := False\<rparr>]))"

definition size_units :: "nat \<Rightarrow> nat" where
  "size_units sz = (sz + kMemoryAlign - 1) mod 2 ^ 64 div kMemoryAlign"

definition alloc :: "nat \<Rightarrow> bool \<Rightarrow> nat \<Rightarrow> chunk list \<Rightarrow> int \<times> chunk list" where
  "alloc page aligned sz cs =
     (if sz = 0 then (0, cs)
      else
        (case best_fit page aligned (size_units sz) cs 0 None of
           None \<Rightarrow> (NO_MEMORY, cs)
         | Some (i, s) \<Rightarrow>
             (case carve page aligned (size_units sz) (cs ! i) of
                (start, new) \<Rightarrow> (int (start * kMemoryAlign), take i cs @ new @ drop (Suc i) cs))))"

text \<open>
  The merge of \<open>dealloc\<close>: the chunks before the current one, nearest first, the current one, and the
  chunks after it.
\<close>

definition absorb :: "chunk list \<Rightarrow> chunk \<Rightarrow> chunk list" where
  "absorb before cur =
     (case before of
        [] \<Rightarrow> [cur]
      | p # ps \<Rightarrow> if c_free p \<or> c_size cur = 0 then p\<lparr>c_size := c_size p + c_size cur\<rparr> # ps else cur # before)"

fun merge :: "chunk list \<Rightarrow> chunk \<Rightarrow> chunk list \<Rightarrow> chunk list" where
  "merge before cur [] = rev (absorb before cur)"
| "merge before cur (n # rest) =
     (if c_free n then merge (absorb before cur) n rest else rev (absorb before cur) @ n # rest)"

fun dealloc_scan :: "nat \<Rightarrow> chunk list \<Rightarrow> chunk list \<Rightarrow> chunk list option" where
  "dealloc_scan start before [] = None"
| "dealloc_scan start before (cur # rest) =
     (if c_start cur = start then Some (merge before (cur\<lparr>c_free := True\<rparr>) rest)
      else dealloc_scan start (cur # before) rest)"

definition deallocate :: "nat \<Rightarrow> chunk list \<Rightarrow> int \<times> chunk list" where
  "deallocate offset cs =
     (case dealloc_scan (offset div kMemoryAlign) [] cs of
        Some cs1 \<Rightarrow> (OK, cs1)
      | None \<Rightarrow> (NAME_NOT_FOUND, cs))"


subsection \<open>The dealer and its allocations\<close>

text \<open>
  An \<open>Allocation\<close> is an offset and a size; \<open>d_live\<close> lists the ones handed out whose destructor has not
  run.
\<close>

record allocation =
  al_offset :: nat
  al_size :: nat

record dealer =
  d_chunks :: "chunk list"
  d_live :: "allocation list"

definition MemoryDealer_init :: "nat \<Rightarrow> nat \<Rightarrow> dealer" where
  "MemoryDealer_init page sz = \<lparr>d_chunks = allocator_init page sz, d_live = []\<rparr>"

definition MemoryDealer_allocate :: "nat \<Rightarrow> nat \<Rightarrow> dealer \<Rightarrow> allocation option \<times> dealer" where
  "MemoryDealer_allocate page sz d =
     (case alloc page False sz (d_chunks d) of
        (offset, cs) \<Rightarrow>
          if offset \<ge> 0 then
            (let a = \<lparr>al_offset = nat offset, al_size = sz\<rparr>
             in (Some a, d\<lparr>d_chunks := cs, d_live := d_live d @ [a]\<rparr>))
          else (None, d\<lparr>d_chunks := cs\<rparr>))"

text \<open>The destructor: the whole pages inside the block that go back to the kernel, and the block itself.\<close>

definition round_down :: "nat \<Rightarrow> nat \<Rightarrow> nat" where
  "round_down page n = n div page * page"

definition release_pages :: "nat \<Rightarrow> allocation \<Rightarrow> (nat \<times> nat) option" where
  "release_pages page a =
     (let free_start = al_offset a;
          free_end = free_start + al_size a;
          start0 = round_down page (al_offset a);
          end0 = round_up page (al_offset a + al_size a);
          start1 = (if start0 < free_start then free_start else start0);
          end1 = (if end0 > free_end then free_end else end0);
          start2 = round_up page start1;
          end2 = round_down page end1
      in if start2 < end2 then Some (start2, end2) else None)"

definition Allocation_destroy :: "nat \<Rightarrow> allocation \<Rightarrow> dealer \<Rightarrow> (nat \<times> nat) option \<times> dealer" where
  "Allocation_destroy page a d =
     (let d1 = d\<lparr>d_live := remove1 a (d_live d)\<rparr>
      in if al_size a \<noteq> 0
         then (release_pages page a, d1\<lparr>d_chunks := snd (deallocate (al_offset a) (d_chunks d))\<rparr>)
         else (None, d1))"

inductive dealer_step :: "nat \<Rightarrow> dealer \<Rightarrow> dealer \<Rightarrow> bool" for page where
  allocate: "sz + kMemoryAlign \<le> 2 ^ 64 \<Longrightarrow> dealer_step page d (snd (MemoryDealer_allocate page sz d))"
| destroy: "a \<in> set (d_live d) \<Longrightarrow> dealer_step page d (snd (Allocation_destroy page a d))"


subsection \<open>The heap is tiled\<close>

fun tiles :: "nat \<Rightarrow> chunk list \<Rightarrow> nat \<Rightarrow> bool" where
  "tiles a [] b \<longleftrightarrow> a = b"
| "tiles a (c # cs) b \<longleftrightarrow> c_start c = a \<and> 0 < c_size c \<and> tiles (a + c_size c) cs b"

text \<open>No two neighbours are free.\<close>

fun coalesced :: "chunk list \<Rightarrow> bool" where
  "coalesced (c # d # cs) \<longleftrightarrow> \<not> (c_free c \<and> c_free d) \<and> coalesced (d # cs)"
| "coalesced cs \<longleftrightarrow> True"

definition used :: "chunk list \<Rightarrow> chunk list" where
  "used cs = filter (\<lambda>c. \<not> c_free c) cs"

lemma tiles_append: "tiles a (xs @ ys) b \<longleftrightarrow> (\<exists>m. tiles a xs m \<and> tiles m ys b)"
  by (induction xs arbitrary: a) auto

lemma tiles_le: "tiles a cs b \<Longrightarrow> a \<le> b"
  by (induction cs arbitrary: a) fastforce+

lemma tiles_bound: "tiles a cs b \<Longrightarrow> c \<in> set cs \<Longrightarrow> a \<le> c_start c \<and> c_start c + c_size c \<le> b \<and> 0 < c_size c"
proof (induction cs arbitrary: a)
  case (Cons d cs)
  have "a + c_size d \<le> b" using Cons.prems(1) tiles_le by auto
  then show ?case using Cons by fastforce
qed simp

lemma tiles_disjoint:
  "tiles a cs b \<Longrightarrow> i < j \<Longrightarrow> j < length cs \<Longrightarrow> c_start (cs ! i) + c_size (cs ! i) \<le> c_start (cs ! j)"
proof (induction cs arbitrary: a i j)
  case (Cons c cs)
  obtain k where j: "j = Suc k" "k < length cs" using Cons.prems by (cases j) auto
  show ?case
  proof (cases i)
    case 0
    have "a + c_size c \<le> c_start (cs ! k)" using Cons.prems(1) tiles_bound [of "a + c_size c" cs b "cs ! k"] j by simp
    then show ?thesis using 0 j Cons.prems(1) by simp
  next
    case (Suc l)
    then show ?thesis using Cons.prems j Cons.IH [of "a + c_size c" l k] by simp
  qed
qed simp

lemma coalesced_append:
  "coalesced (xs @ ys) \<longleftrightarrow> coalesced xs \<and> coalesced ys \<and> (xs \<noteq> [] \<and> ys \<noteq> [] \<longrightarrow> \<not> (c_free (last xs) \<and> c_free (hd ys)))"
  by (induction xs rule: coalesced.induct) (cases ys; auto)+

lemma used_append [simp]: "used (xs @ ys) = used xs @ used ys" "used [] = []"
  "used (c # cs) = (if c_free c then used cs else c # used cs)"
  by (simp_all add: used_def)

lemma new_chunk_simps [simp]: "c_start (new_chunk a n) = a" "c_size (new_chunk a n) = n" "c_free (new_chunk a n)"
  by (simp_all add: new_chunk_def)


subsection \<open>Best fit\<close>

definition fitting :: "nat \<Rightarrow> bool \<Rightarrow> nat \<Rightarrow> chunk \<Rightarrow> bool" where
  "fitting page aligned sz c \<longleftrightarrow> c_free c \<and> sz + extra page aligned (c_start c) \<le> c_size c"

lemma best_fit_sound:
  "best_fit page al sz cs i best = Some (k, s) \<Longrightarrow>
   best = Some (k, s) \<or> (\<exists>j<length cs. k = i + j \<and> s = c_size (cs ! j) \<and> fitting page al sz (cs ! j))"
proof (induction page al sz cs i best rule: best_fit.induct)
  case (2 page al sz cur cs i best)
  define b1 where "b1 = (case best of None \<Rightarrow> Some (i, c_size cur)
    | Some (k, s) \<Rightarrow> if c_size cur < s then Some (i, c_size cur) else best)"
  have b1: "b1 = best \<or> b1 = Some (i, c_size cur)" by (auto simp: b1_def split: option.splits)
  show ?case
  proof (cases "c_free cur \<and> c_size cur \<ge> sz + extra page al (c_start cur)")
    case True
    then have f: "fitting page al sz cur" by (simp add: fitting_def)
    have "b1 = Some (k, s) \<or> (\<exists>j<length cs. k = Suc i + j \<and> s = c_size (cs ! j) \<and> fitting page al sz (cs ! j))"
      using 2 True by (auto simp: b1_def [symmetric] Let_def split: if_splits)
    then show ?thesis using b1 f by (auto intro: exI [of _ 0] exI [of _ "Suc j" for j])
  next
    case False
    then have "best = Some (k, s) \<or> (\<exists>j<length cs. k = Suc i + j \<and> s = c_size (cs ! j) \<and> fitting page al sz (cs ! j))"
      using 2 by auto
    then show ?thesis by (auto intro: exI [of _ "Suc j" for j])
  qed
qed simp

lemma best_fit_Some: "best_fit page al sz cs i (Some b) \<noteq> None"
proof (induction cs arbitrary: i b)
  case (Cons c cs)
  obtain k s where "b = (k, s)" by (cases b)
  then show ?case using Cons by (cases "c_size c < s") (simp_all add: Let_def)
qed simp

lemma best_fit_None: "best_fit page al sz cs i None = None \<Longrightarrow> c \<in> set cs \<Longrightarrow> \<not> fitting page al sz c"
proof (induction cs arbitrary: i)
  case (Cons d cs)
  have n: "\<not> fitting page al sz d"
    using Cons.prems(1) best_fit_Some [of page al sz cs "Suc i" "(i, c_size d)"] by (auto simp: fitting_def Let_def split: if_splits)
  then have "best_fit page al sz cs (Suc i) None = None" using Cons.prems(1) by (auto simp: fitting_def)
  then show ?case using Cons n by auto
qed simp

lemma best_fit_least:
  "best_fit page al sz cs i best = Some (k, s) \<Longrightarrow> (\<forall>k0 s0. best = Some (k0, s0) \<longrightarrow> s \<le> s0) \<and>
   (\<forall>c\<in>set cs. fitting page al sz c \<longrightarrow> s \<le> c_size c)"
proof (induction page al sz cs i best rule: best_fit.induct)
  case (2 page al sz cur cs i best)
  define b1 where "b1 = (case best of None \<Rightarrow> Some (i, c_size cur)
    | Some (k, s) \<Rightarrow> if c_size cur < s then Some (i, c_size cur) else best)"
  have b1: "\<exists>k1 s1. b1 = Some (k1, s1) \<and> s1 \<le> c_size cur \<and> (\<forall>k0 s0. best = Some (k0, s0) \<longrightarrow> s1 \<le> s0)"
    by (auto simp: b1_def split: option.splits)
  show ?case
  proof (cases "fitting page al sz cur")
    case True
    show ?thesis
    proof (cases "c_size cur = sz")
      case exact: True
      have "b1 = Some (k, s)"
        using 2(3) True exact by (simp add: fitting_def b1_def [symmetric] Let_def)
      moreover have "\<forall>c\<in>set cs. fitting page al sz c \<longrightarrow> c_size cur \<le> c_size c"
        using exact by (auto simp: fitting_def)
      ultimately show ?thesis using b1 by fastforce
    next
      case False
      have "best_fit page al sz cs (Suc i) b1 = Some (k, s)"
        using 2(3) True False by (simp add: fitting_def b1_def [symmetric] Let_def)
      moreover have "best_fit page al sz cs (Suc i) b1 = Some (k, s) \<Longrightarrow>
        (\<forall>k0 s0. b1 = Some (k0, s0) \<longrightarrow> s \<le> s0) \<and> (\<forall>c\<in>set cs. fitting page al sz c \<longrightarrow> s \<le> c_size c)"
        using 2(1) True False by (simp add: fitting_def b1_def [symmetric])
      ultimately show ?thesis using b1 by fastforce
    qed
  next
    case False
    then show ?thesis using 2(2,3) by (auto simp: fitting_def)
  qed
qed simp


subsection \<open>Carving and merging\<close>

definition heap_ok :: "nat \<Rightarrow> chunk list \<Rightarrow> bool" where
  "heap_ok h cs \<longleftrightarrow> tiles 0 cs h \<and> coalesced cs"

lemma extra_aligned:
  assumes "al" "0 < page div kMemoryAlign"
  shows "page div kMemoryAlign dvd start + extra page al start"
proof -
  let ?u = "int (page div kMemoryAlign)"
  have "int (extra page al start) = (- int start) mod ?u" using assms by (simp add: extra_def)
  then have "int (start + extra page al start) mod ?u = (int start + (- int start) mod ?u) mod ?u" by simp
  also have "\<dots> = 0" by (simp add: mod_add_right_eq)
  finally have "?u dvd int (start + extra page al start)" by presburger
  then show ?thesis using int_dvd_int_iff by blast
qed

lemma carve_ok:
  assumes "fitting page al n c" "0 < n" "carve page al n c = (start, new)"
  shows "tiles (c_start c) new (c_start c + c_size c)" "coalesced new" "new \<noteq> []"
    "used new = [\<lparr>c_start = start, c_size = n, c_free = False\<rparr>]" "start = c_start c + extra page al (c_start c)"
proof -
  have f: "c_free c" "n + extra page al (c_start c) \<le> c_size c" using assms(1) by (simp_all add: fitting_def)
  show "start = c_start c + extra page al (c_start c)"
    using assms(2,3) f by (auto simp: carve_def Let_def split: if_splits)
  show "tiles (c_start c) new (c_start c + c_size c)"
    using assms(2,3) f by (auto simp: carve_def Let_def split: if_splits)
  show "coalesced new" using assms(3) by (auto simp: carve_def Let_def split: if_splits)
  show "new \<noteq> []" using assms(3) by (auto simp: carve_def Let_def split: if_splits)
  show "used new = [\<lparr>c_start = start, c_size = n, c_free = False\<rparr>]"
    using assms(3) by (cases c) (auto simp: carve_def Let_def split: if_splits)
qed

lemma coalesced_replace:
  "coalesced (xs @ c # ys) \<Longrightarrow> c_free c \<Longrightarrow> coalesced new \<Longrightarrow> coalesced (xs @ new @ ys)"
  by (cases "xs = []"; cases "ys = []"; cases "new = []") (auto simp: coalesced_append neq_Nil_conv)

lemma absorb_ok:
  assumes "tiles a (rev before @ cur # rest) b" "c_free cur" "coalesced (rev before)"
  shows "tiles a (rev (absorb before cur) @ rest) b" "coalesced (rev (absorb before cur))"
    "used (rev (absorb before cur)) = used (rev before)"
  using assms by (auto simp: absorb_def tiles_append coalesced_append simp flip: add.assoc split: list.splits)

lemma merge_ok:
  "tiles a (rev before @ cur # rest) b \<Longrightarrow> c_free cur \<Longrightarrow> coalesced (rev before) \<Longrightarrow> coalesced rest \<Longrightarrow>
   tiles a (merge before cur rest) b \<and> coalesced (merge before cur rest) \<and>
   used (merge before cur rest) = used (rev before) @ used rest"
proof (induction before cur rest rule: merge.induct)
  case (1 before cur)
  then show ?case using absorb_ok [OF 1(1-3)] by simp
next
  case (2 before cur n rest)
  note ab = absorb_ok [OF 2(2-4)]
  show ?case
  proof (cases "c_free n")
    case True
    have "coalesced rest" using 2(5) by (cases rest) auto
    then show ?thesis using 2(1) [OF True] ab True by simp
  next
    case False
    then show ?thesis using ab 2(5) by (auto simp: coalesced_append)
  qed
qed

lemma dealloc_scan_at:
  "\<forall>d\<in>set xs. c_start d \<noteq> c_start c \<Longrightarrow>
   dealloc_scan (c_start c) before (xs @ c # ys) = Some (merge (rev xs @ before) (c\<lparr>c_free := True\<rparr>) ys)"
  by (induction xs arbitrary: before) auto

lemma dealloc_scan_None: "dealloc_scan start before cs = None \<longleftrightarrow> start \<notin> c_start ` set cs"
  by (induction cs arbitrary: before) auto


lemma merge_frees:
  assumes "heap_ok h (xs @ c # ys)"
  shows "heap_ok h (merge (rev xs) (c\<lparr>c_free := True\<rparr>) ys)"
    "used (merge (rev xs) (c\<lparr>c_free := True\<rparr>) ys) = used xs @ used ys"
proof -
  have "tiles 0 (rev (rev xs) @ (c\<lparr>c_free := True\<rparr>) # ys) h"
    using assms by (auto simp: heap_ok_def tiles_append)
  moreover have "coalesced xs" "coalesced ys"
    using assms by (cases ys; auto simp: heap_ok_def coalesced_append)+
  ultimately show "heap_ok h (merge (rev xs) (c\<lparr>c_free := True\<rparr>) ys)"
    "used (merge (rev xs) (c\<lparr>c_free := True\<rparr>) ys) = used xs @ used ys"
    using merge_ok [of 0 "rev xs" "c\<lparr>c_free := True\<rparr>" ys h] by (simp_all add: heap_ok_def)
qed

lemma tiles_starts: "tiles a (xs @ c # ys) b \<Longrightarrow> d \<in> set xs \<Longrightarrow> c_start d + c_size d \<le> c_start c \<and> 0 < c_size d"
  using tiles_bound [of a xs] by (auto simp: tiles_append)

lemma deallocate_used:
  assumes "heap_ok h (xs @ c # ys)" "offset div kMemoryAlign = c_start c"
  shows "deallocate offset (xs @ c # ys) = (OK, merge (rev xs) (c\<lparr>c_free := True\<rparr>) ys)"
proof -
  have "\<forall>d\<in>set xs. c_start d \<noteq> c_start c"
    using assms(1) tiles_starts [of 0 xs c ys h] by (force simp: heap_ok_def)
  then show ?thesis using dealloc_scan_at [of xs c "[]" ys] assms(2) by (simp add: deallocate_def)
qed

lemma deallocate_unknown:
  "offset div kMemoryAlign \<notin> c_start ` set cs \<Longrightarrow> deallocate offset cs = (NAME_NOT_FOUND, cs)"
  using dealloc_scan_None [of "offset div kMemoryAlign" "[]" cs] by (simp add: deallocate_def)

lemma alloc_cases:
  assumes "heap_ok h cs" "0 < size_units sz" "sz \<noteq> 0"
  obtains "alloc page al sz cs = (NO_MEMORY, cs)" "\<forall>c\<in>set cs. \<not> fitting page al (size_units sz) c"
  | xs c ys n new where "cs = xs @ c # ys" "fitting page al (size_units sz) c"
    "\<forall>d\<in>set cs. fitting page al (size_units sz) d \<longrightarrow> c_size c \<le> c_size d"
    "n = \<lparr>c_start = c_start c + extra page al (c_start c), c_size = size_units sz, c_free = False\<rparr>"
    "alloc page al sz cs = (int (c_start n * kMemoryAlign), xs @ new @ ys)"
    "used new = [n]" "heap_ok h (xs @ new @ ys)"
proof (cases "best_fit page al (size_units sz) cs 0 None")
  case None
  then have "alloc page al sz cs = (NO_MEMORY, cs)" using assms(3) by (simp add: alloc_def)
  moreover have "\<forall>c\<in>set cs. \<not> fitting page al (size_units sz) c" using best_fit_None [OF None] by simp
  ultimately show ?thesis using that(1) by simp
next
  case (Some ks)
  obtain k s where ks: "ks = (k, s)" by (cases ks)
  obtain start new where cv: "carve page al (size_units sz) (cs ! k) = (start, new)"
    by (cases "carve page al (size_units sz) (cs ! k)")
  have k: "k < length cs" "s = c_size (cs ! k)" "fitting page al (size_units sz) (cs ! k)"
    using best_fit_sound Some ks by fastforce+
  note split = id_take_nth_drop [OF k(1)]
  note ok = carve_ok [OF k(3) assms(2) cv]
  have tiled: "tiles 0 (take k cs @ (cs ! k) # drop (Suc k) cs) h" "coalesced (take k cs @ (cs ! k) # drop (Suc k) cs)"
    using assms(1) split by (simp_all add: heap_ok_def)
  have "heap_ok h (take k cs @ new @ drop (Suc k) cs)"
    unfolding heap_ok_def
    using tiled(1) ok(1) coalesced_replace [OF tiled(2) _ ok(2)] k(3) by (auto simp: tiles_append fitting_def)
  moreover have "\<forall>d\<in>set cs. fitting page al (size_units sz) d \<longrightarrow> c_size (cs ! k) \<le> c_size d"
    using best_fit_least Some ks k(2) by fastforce
  moreover have "alloc page al sz cs = (int (start * kMemoryAlign), take k cs @ new @ drop (Suc k) cs)"
    using assms(3) Some ks cv by (simp add: alloc_def)
  ultimately show ?thesis using that(2) [OF split k(3) _ refl _ _, of new] ok(4,5) by simp
qed

lemma unused_heap: "heap_ok h cs \<Longrightarrow> used cs = [] \<Longrightarrow> 0 < h \<Longrightarrow> cs = [new_chunk 0 h]"
proof -
  assume a: "heap_ok h cs" "used cs = []" "0 < h"
  then obtain c rest where cs: "cs = c # rest" by (cases cs) (auto simp: heap_ok_def)
  have free: "\<forall>d\<in>set cs. c_free d" using a(2) by (simp add: used_def filter_empty_conv)
  have "rest = []" using a(1) free cs by (cases rest) (auto simp: heap_ok_def)
  then show ?thesis using a cs free by (cases c) (simp add: heap_ok_def new_chunk_def)
qed


subsection \<open>Runs of the dealer\<close>

definition apart :: "nat \<times> nat \<Rightarrow> nat \<times> nat \<Rightarrow> bool" where
  "apart a b \<longleftrightarrow> fst a + snd a \<le> fst b \<or> fst b + snd b \<le> fst a"

definition chunk_span :: "chunk \<Rightarrow> nat \<times> nat" where
  "chunk_span c = (c_start c, c_size c)"

definition block_span :: "allocation \<Rightarrow> nat \<times> nat" where
  "block_span a = (al_offset a div kMemoryAlign, size_units (al_size a))"

definition blocks :: "dealer \<Rightarrow> allocation list" where
  "blocks d = filter (\<lambda>a. al_size a \<noteq> 0) (d_live d)"

definition dealer_ok :: "nat \<Rightarrow> dealer \<Rightarrow> bool" where
  "dealer_ok h d \<longleftrightarrow> heap_ok h (d_chunks d) \<and>
     mset (map chunk_span (used (d_chunks d))) = mset (map block_span (blocks d)) \<and>
     (\<forall>a\<in>set (blocks d). kMemoryAlign dvd al_offset a \<and> al_size a + kMemoryAlign \<le> 2 ^ 64)"

lemma sorted_wrt_mset:
  assumes "symp R"
  shows "mset xs = mset ys \<Longrightarrow> sorted_wrt R xs \<Longrightarrow> sorted_wrt R ys"
proof (induction xs arbitrary: ys)
  case (Cons x xs)
  then obtain us vs where ys: "ys = us @ x # vs" by (metis in_set_conv_decomp list.set_intros(1) mset_eq_setD)
  then have m: "mset xs = mset (us @ vs)" using Cons.prems(1) by simp
  have "sorted_wrt R (us @ vs)" using Cons.IH [OF m] Cons.prems(2) by simp
  moreover have "\<forall>u\<in>set (us @ vs). R x u" using Cons.prems(2) mset_eq_setD [OF m] by simp
  ultimately show ?case using ys assms by (auto simp: sorted_wrt_append symp_def)
qed simp

lemma tiles_apart: "tiles a cs b \<Longrightarrow> sorted_wrt apart (map chunk_span (used cs))"
proof (induction cs arbitrary: a)
  case (Cons c cs)
  have "\<forall>d\<in>set cs. c_start c + c_size c \<le> c_start d"
    using Cons.prems tiles_bound [of "a + c_size c" cs b] by auto
  then show ?case using Cons by (auto simp: apart_def chunk_span_def used_def)
qed simp

lemma size_units_bound:
  "sz + kMemoryAlign \<le> 2 ^ 64 \<Longrightarrow> sz \<le> size_units sz * kMemoryAlign \<and> size_units sz * kMemoryAlign < sz + kMemoryAlign"
  by (simp add: size_units_def kMemoryAlign_def) presburger

lemma size_units_pos: "sz + kMemoryAlign \<le> 2 ^ 64 \<Longrightarrow> 0 < sz \<Longrightarrow> 0 < size_units sz"
  using size_units_bound [of sz] by (auto simp: kMemoryAlign_def intro: gr0I)

lemma dealer_ok_allocate:
  assumes "dealer_ok h d" "sz + kMemoryAlign \<le> 2 ^ 64"
  shows "dealer_ok h (snd (MemoryDealer_allocate page sz d))"
proof (cases "sz = 0")
  case True
  then show ?thesis using assms by (simp add: MemoryDealer_allocate_def alloc_def Let_def dealer_ok_def blocks_def)
next
  case False
  have h: "heap_ok h (d_chunks d)" using assms(1) by (simp add: dealer_ok_def)
  have u: "0 < size_units sz" using size_units_pos assms(2) False by simp
  show ?thesis
  proof (cases rule: alloc_cases [OF h u False, of page False, case_names full found])
    case full
    then show ?thesis using assms by (simp add: MemoryDealer_allocate_def NO_MEMORY_def dealer_ok_def blocks_def)
  next
    case (found xs c ys n new)
    have "chunk_span n = block_span \<lparr>al_offset = c_start n * kMemoryAlign, al_size = sz\<rparr>"
      by (simp add: chunk_span_def block_span_def found(4) kMemoryAlign_def)
    moreover have "c_free c" using found(2) by (simp add: fitting_def)
    ultimately show ?thesis using found(1,5-7) assms False
      by (simp add: MemoryDealer_allocate_def Let_def dealer_ok_def blocks_def nat_mult_distrib)
  qed
qed

lemma dealer_ok_destroy:
  assumes "dealer_ok h d" "a \<in> set (d_live d)"
  shows "dealer_ok h (snd (Allocation_destroy page a d))"
proof (cases "al_size a = 0")
  case True
  then have "blocks (d\<lparr>d_live := remove1 a (d_live d)\<rparr>) = blocks d" by (simp add: blocks_def filter_remove1)
  then show ?thesis using assms True by (simp add: Allocation_destroy_def Let_def dealer_ok_def)
next
  case False
  define d1 where "d1 = snd (Allocation_destroy page a d)"
  have a: "a \<in> set (blocks d)" using assms(2) False by (simp add: blocks_def)
  have "block_span a \<in># mset (map chunk_span (used (d_chunks d)))"
    using a assms(1) by (simp add: dealer_ok_def)
  then obtain c where c: "c \<in> set (d_chunks d)" "\<not> c_free c" "chunk_span c = block_span a"
    by (auto simp: used_def)
  then obtain xs ys where cs: "d_chunks d = xs @ c # ys" by (meson split_list)
  have h: "heap_ok h (xs @ c # ys)" using assms(1) cs by (simp add: dealer_ok_def)
  have "deallocate (al_offset a) (xs @ c # ys) = (OK, merge (rev xs) (c\<lparr>c_free := True\<rparr>) ys)"
    using deallocate_used [OF h] c(3) by (simp add: chunk_span_def block_span_def)
  then have ch: "d_chunks d1 = merge (rev xs) (c\<lparr>c_free := True\<rparr>) ys"
    using False cs by (simp add: d1_def Allocation_destroy_def Let_def)
  have bl: "blocks d1 = remove1 a (blocks d)"
    using False by (simp add: d1_def Allocation_destroy_def Let_def blocks_def filter_remove1)
  have "mset (map chunk_span (used (d_chunks d1))) = mset (map block_span (blocks d1))"
    using assms(1) a c merge_frees(2) [OF h] ch
    by (simp add: dealer_ok_def bl cs image_mset_Diff) (metis add_mset_remove_trivial)
  then show ?thesis using assms(1) merge_frees(1) [OF h] ch bl
    by (auto simp: dealer_ok_def d1_def [symmetric] dest: notin_set_remove1)
qed

lemma dealer_ok_run: "(dealer_step page)\<^sup>*\<^sup>* d d' \<Longrightarrow> dealer_ok h d \<Longrightarrow> dealer_ok h d'"
proof (induction rule: rtranclp_induct)
  case (step y z)
  then show ?case by (auto elim!: dealer_step.cases intro: dealer_ok_allocate dealer_ok_destroy)
qed


lemma round_up_dvd: "page dvd round_up page n" "page dvd round_down page n"
  by (simp_all add: round_up_def round_down_def)

lemma round_up_ge: "0 < page \<Longrightarrow> n \<le> round_up page n" "round_down page n \<le> n"
proof -
  assume p: "0 < page"
  have "n + page - 1 < (n + page - 1) div page * page + page"
    using div_mult_mod_eq [of "n + page - 1" page] mod_less_divisor [OF p, of "n + page - 1"] by linarith
  then show "n \<le> round_up page n" using p by (simp add: round_up_def)
qed (simp add: round_down_def)

lemma release_pages_inside:
  "0 < page \<Longrightarrow> release_pages page a = Some (s, e) \<Longrightarrow>
   page dvd s \<and> page dvd e \<and> al_offset a \<le> s \<and> s < e \<and> e \<le> al_offset a + al_size a"
  using round_up_ge(1) [of page "al_offset a"] round_up_ge(2) [of page "al_offset a"]
    round_up_ge(1) [of page "al_offset a + al_size a"] round_up_ge(2) [of page "al_offset a + al_size a"]
  by (auto simp: release_pages_def Let_def round_up_dvd split: if_splits)

lemma dealer_ok_init:
  assumes "kMemoryAlign dvd page" "0 < page" "0 < sz"
  shows "dealer_ok (round_up page sz div kMemoryAlign) (MemoryDealer_init page sz)"
    "0 < round_up page sz div kMemoryAlign" "kMemoryAlign dvd round_up page sz"
proof -
  show d: "kMemoryAlign dvd round_up page sz" using assms(1) round_up_dvd(1) dvd_trans by blast
  have "0 < round_up page sz" using round_up_ge(1) [OF assms(2), of sz] assms(3) by simp
  then show "0 < round_up page sz div kMemoryAlign" using d by (auto simp: dvd_def kMemoryAlign_def)
  then show "dealer_ok (round_up page sz div kMemoryAlign) (MemoryDealer_init page sz)"
    by (simp add: dealer_ok_def heap_ok_def blocks_def MemoryDealer_init_def allocator_init_def)
qed


subsection \<open>Properties\<close>


lemmas dealer_eval = MemoryDealer_allocate_def MemoryDealer_init_def allocator_init_def alloc_def carve_def
  size_units_def extra_def round_up_def kMemoryAlign_def new_chunk_def Let_def



text \<open>
  Allocation is best fit: for a size that does not wrap, \<open>alloc\<close> either reports \<open>NO_MEMORY\<close>, and then no
  free chunk could hold the block, or it marks exactly one new block, large enough, page aligned when
  asked, cut from a smallest free chunk that could hold it, and leaves every other block where it was.
\<close>

theorem alloc_best_fit:
  assumes "heap_ok h cs" "0 < sz" "sz + kMemoryAlign \<le> 2 ^ 64" "kMemoryAlign dvd page" "0 < page"
    "alloc page al sz cs = (r, cs')"
  shows "r = NO_MEMORY \<and> cs' = cs \<and> (\<forall>c\<in>set cs. \<not> fitting page al (size_units sz) c) \<or>
    (\<exists>xs n ys c. used cs = xs @ ys \<and> used cs' = xs @ n # ys \<and> r = int (c_start n * kMemoryAlign) \<and>
       sz \<le> c_size n * kMemoryAlign \<and> c_size n * kMemoryAlign < sz + kMemoryAlign \<and>
       (al \<longrightarrow> page dvd c_start n * kMemoryAlign) \<and> heap_ok h cs' \<and>
       c \<in> set cs \<and> c_free c \<and> c_start c \<le> c_start n \<and> c_start n + c_size n \<le> c_start c + c_size c \<and>
       (\<forall>d\<in>set cs. fitting page al (size_units sz) d \<longrightarrow> c_size c \<le> c_size d))"
proof -
  have u: "0 < size_units sz" using size_units_pos [OF assms(3,2)] .
  have "sz \<noteq> 0" using assms(2) by simp
  show ?thesis
  proof (cases rule: alloc_cases [OF assms(1) u \<open>sz \<noteq> 0\<close>, of page al, case_names full found])
    case full
    then show ?thesis using assms(6) by simp
  next
    case (found xs c ys n new)
    obtain k where k: "page = kMemoryAlign * k" "0 < k" using assms(4,5) by (auto simp: dvd_def)
    have "page dvd c_start n * kMemoryAlign" if al
    proof -
      have "k dvd c_start n" using extra_aligned [OF that, of page "c_start c"] k found(4) by (simp add: kMemoryAlign_def)
      then show ?thesis using k(1) by (simp add: mult.commute)
    qed
    moreover have "c_free c" "c_size n + extra page al (c_start c) \<le> c_size c"
      using found(2,4) by (simp_all add: fitting_def)
    ultimately show ?thesis
      using found assms(6) size_units_bound [OF assms(3)]
      by (intro disjI2 exI [of _ "used xs"] exI [of _ n] exI [of _ "used ys"] exI [of _ c]) auto
  qed
qed

theorem alloc_best_fit_witness:
  "\<exists>n. used (snd (alloc 4096 True 100 (allocator_init 4096 4096))) = [n] \<and> 4096 dvd c_start n * kMemoryAlign"
proof -
  have "heap_ok 128 (allocator_init 4096 4096)"
    by (simp add: heap_ok_def allocator_init_def round_up_def kMemoryAlign_def)
  moreover have "used (allocator_init 4096 4096) = []" by (simp add: allocator_init_def)
  moreover have "alloc 4096 True 100 (allocator_init 4096 4096) =
      (0, snd (alloc 4096 True 100 (allocator_init 4096 4096)))"
    by (simp add: dealer_eval)
  ultimately show ?thesis
    using alloc_best_fit [of 128 "allocator_init 4096 4096" 100 4096 True 0
        "snd (alloc 4096 True 100 (allocator_init 4096 4096))"]
    by (auto simp: kMemoryAlign_def NO_MEMORY_def)
qed

text \<open>
  The size computation of \<open>alloc\<close> wraps: a request within 31 bytes of \<open>SIZE_MAX\<close> is granted as a block of
  no units at all, and the next allocation is handed the same address.
\<close>

theorem alloc_size_wraps:
  "\<exists>d1 d2. MemoryDealer_allocate 4096 (2 ^ 64 - 1) (MemoryDealer_init 4096 4096) =
             (Some \<lparr>al_offset = 0, al_size = 2 ^ 64 - 1\<rparr>, d1) \<and>
           MemoryDealer_allocate 4096 64 d1 = (Some \<lparr>al_offset = 0, al_size = 64\<rparr>, d2)"
  by (simp add: dealer_eval)

end
