(* ===== verification/Unicode.thy ===== *)
theory Unicode
  imports Binder_Prelude
begin

text \<open>
  The UTF conversions of \<open>system/core/libutils/Unicode.cpp\<close>, and those of \<open>String8\<close> and \<open>String16\<close> built on
  them. UTF-8 bytes, UTF-16 units and UTF-32 code points are natural numbers below \<open>2 ^ 8\<close>, \<open>2 ^ 16\<close> and
  \<open>2 ^ 32\<close>. \<open>None\<close> stands for a fatal log message or for a read past the end of the source.
\<close>

unbundle bit_operations_syntax

subsection \<open>Code points\<close>

definition kByteMask :: nat where "kByteMask = 0xBF"
definition kByteMark :: nat where "kByteMark = 0x80"
definition kUnicodeSurrogateStart :: nat where "kUnicodeSurrogateStart = 0xD800"
definition kUnicodeSurrogateEnd :: nat where "kUnicodeSurrogateEnd = 0xDFFF"
definition kUnicodeMaxCodepoint :: nat where "kUnicodeMaxCodepoint = 0x10FFFF"

definition kFirstByteMark :: "nat list" where
  "kFirstByteMark = [0, 0, 0xC0, 0xE0, 0xF0]"

definition utf32_codepoint_utf8_length :: "nat \<Rightarrow> nat" where
  "utf32_codepoint_utf8_length srcChar =
     (if srcChar < 0x80 then 1
      else if srcChar < 0x800 then 2
      else if srcChar < 0x10000 then
        (if srcChar < kUnicodeSurrogateStart \<or> srcChar > kUnicodeSurrogateEnd then 3 else 0)
      else if srcChar \<le> kUnicodeMaxCodepoint then 4
      else 0)"

text \<open>The switch that falls through: the bytes are written from the last to the first.\<close>

fun utf8_fall :: "nat \<Rightarrow> nat \<Rightarrow> nat \<Rightarrow> nat list \<Rightarrow> nat list" where
  "utf8_fall bytes 0 srcChar acc = acc"
| "utf8_fall bytes (Suc 0) srcChar acc = ((srcChar OR kFirstByteMark ! bytes) mod 256) # acc"
| "utf8_fall bytes (Suc (Suc k)) srcChar acc =
     utf8_fall bytes (Suc k) (drop_bit 6 srcChar) ((((srcChar OR kByteMark) AND kByteMask) mod 256) # acc)"

definition utf32_codepoint_to_utf8 :: "nat \<Rightarrow> nat \<Rightarrow> nat list" where
  "utf32_codepoint_to_utf8 srcChar bytes = utf8_fall bytes bytes srcChar []"

definition utf8_codepoint_len :: "nat \<Rightarrow> nat" where
  "utf8_codepoint_len ch = (drop_bit ((drop_bit 3 ch) AND 0x1e) 0xe5000000 AND 3) + 1"

definition utf8_shift_and_mask :: "nat \<Rightarrow> nat \<Rightarrow> nat" where
  "utf8_shift_and_mask codePoint byte = take_bit 32 (push_bit 6 codePoint) OR (0x3F AND byte)"

definition utf8_to_utf32_codepoint :: "nat list \<Rightarrow> nat \<Rightarrow> nat option" where
  "utf8_to_utf32_codepoint src len =
     (if length src < len then None
      else if len = 1 then Some (src ! 0)
      else if len = 2 then Some (utf8_shift_and_mask (src ! 0 AND 0x1f) (src ! 1))
      else if len = 3 then
        Some (utf8_shift_and_mask (utf8_shift_and_mask (src ! 0 AND 0x0f) (src ! 1)) (src ! 2))
      else if len = 4 then
        Some (utf8_shift_and_mask (utf8_shift_and_mask (utf8_shift_and_mask (src ! 0 AND 0x07) (src ! 1)) (src ! 2))
                (src ! 3))
      else Some 0xffff)"

lemma utf8_codepoint_len_pos: "0 < utf8_codepoint_len ch"
  by (simp add: utf8_codepoint_len_def)


subsection \<open>UTF-8 to UTF-16\<close>

function utf16_measure :: "nat list \<Rightarrow> nat \<Rightarrow> int" where
  "utf16_measure u8 measured =
     (if u8 = [] then int measured
      else
        (let len = utf8_codepoint_len (hd u8)
         in if len > length u8 then -1
            else case utf8_to_utf32_codepoint u8 len of
                   None \<Rightarrow> -1
                 | Some codepoint \<Rightarrow>
                     utf16_measure (drop len u8) (measured + 1 + (if codepoint > 0xFFFF then 1 else 0))))"
  by pat_completeness auto
termination
  by (relation "measure (\<lambda>(u8, m). length u8)") (auto simp: utf8_codepoint_len_pos)

declare utf16_measure.simps [simp del]

definition utf8_to_utf16_length :: "nat list \<Rightarrow> int" where
  "utf8_to_utf16_length u8 = utf16_measure u8 0"

function utf16_convert :: "nat list \<Rightarrow> nat \<Rightarrow> nat list option" where
  "utf16_convert u8 room =
     (if u8 = [] \<or> room = 0 then Some []
      else
        (let len = utf8_codepoint_len (hd u8)
         in case utf8_to_utf32_codepoint u8 len of
              None \<Rightarrow> None
            | Some codepoint \<Rightarrow>
                if codepoint \<le> 0xFFFF then map_option (Cons codepoint) (utf16_convert (drop len u8) (room - 1))
                else
                  (let c = codepoint - 0x10000
                   in if room = 1 then Some []
                      else map_option (\<lambda>us. (drop_bit 10 c + 0xD800) mod 65536 # ((c AND 0x3FF) + 0xDC00) mod 65536 # us)
                             (utf16_convert (drop len u8) (room - 2)))))"
  by pat_completeness auto
termination
  by (relation "measure (\<lambda>(u8, m). length u8)") (auto simp: utf8_codepoint_len_pos)

declare utf16_convert.simps [simp del]

definition utf8_to_utf16_no_null_terminator :: "nat list \<Rightarrow> nat \<Rightarrow> nat list option" where
  "utf8_to_utf16_no_null_terminator src dstLen =
     (if dstLen = 0 then Some []
      else if dstLen > 2 ^ 63 - 1 then None
      else utf16_convert src dstLen)"

text \<open>The units before the terminator.\<close>

definition utf8_to_utf16 :: "nat list \<Rightarrow> nat \<Rightarrow> nat list option" where
  "utf8_to_utf16 u8 u16len =
     (if u16len = 0 \<or> u16len > 2 ^ 63 - 1 then None else utf8_to_utf16_no_null_terminator u8 (u16len - 1))"


subsection \<open>UTF-16 to UTF-8\<close>

definition is_pair :: "nat \<Rightarrow> nat \<Rightarrow> bool" where
  "is_pair hi lo \<longleftrightarrow> hi AND 0xFC00 = 0xD800 \<and> lo AND 0xFC00 = 0xDC00"

fun utf8_measure :: "nat list \<Rightarrow> nat \<Rightarrow> int" where
  "utf8_measure [] ret = int ret"
| "utf8_measure [u] ret =
     (let char_len = utf32_codepoint_utf8_length u
      in if 2 ^ 63 - 1 - char_len < ret then -1 else int (ret + char_len))"
| "utf8_measure (u # v # us) ret =
     (if is_pair u v
      then (if 2 ^ 63 - 1 - 4 < ret then -1 else utf8_measure us (ret + 4))
      else
        (let char_len = utf32_codepoint_utf8_length u
         in if 2 ^ 63 - 1 - char_len < ret then -1 else utf8_measure (v # us) (ret + char_len)))"

definition utf16_to_utf8_length :: "nat list \<Rightarrow> int" where
  "utf16_to_utf8_length src = (if src = [] then -1 else utf8_measure src 0)"

definition put_codepoint :: "nat \<Rightarrow> nat \<Rightarrow> (nat \<Rightarrow> nat list option) \<Rightarrow> nat list option" where
  "put_codepoint utf32 room rest =
     (let len = utf32_codepoint_utf8_length utf32
      in if room < len then None
         else map_option (append (utf32_codepoint_to_utf8 utf32 len)) (rest (room - len)))"

fun utf8_convert :: "nat list \<Rightarrow> nat \<Rightarrow> nat list option" where
  "utf8_convert [] room = (if room < 1 then None else Some [])"
| "utf8_convert [u] room = put_codepoint u room (\<lambda>r. if r < 1 then None else Some [])"
| "utf8_convert (u # v # us) room =
     (if is_pair u v
      then put_codepoint ((push_bit 10 (u - 0xD800) OR (v - 0xDC00)) + 0x10000) room (utf8_convert us)
      else put_codepoint u room (utf8_convert (v # us)))"

text \<open>The bytes before the terminator; for an empty source nothing is written.\<close>

definition utf16_to_utf8 :: "nat list \<Rightarrow> nat \<Rightarrow> nat list option" where
  "utf16_to_utf8 src dst_len = (if src = [] then Some [] else utf8_convert src dst_len)"


subsection \<open>String8 and String16\<close>

text \<open>\<open>String16::allocFromUTF8\<close> and \<open>allocFromUTF16\<close> of \<open>String8.cpp\<close>, when the buffer can be allocated.\<close>

definition String16_from_utf8 :: "nat list \<Rightarrow> nat list option" where
  "String16_from_utf8 u8 =
     (if u8 = [] then Some []
      else
        (let u16len = utf8_to_utf16_length u8
         in if u16len < 0 then Some [] else utf8_to_utf16 u8 (nat u16len + 1)))"

definition String8_from_utf16 :: "nat list \<Rightarrow> nat list option" where
  "String8_from_utf16 u16 =
     (if u16 = [] then Some []
      else
        (let resultStrLen = utf16_to_utf8_length u16 + 1
         in if resultStrLen < 1 then Some [] else utf16_to_utf8 u16 (nat resultStrLen)))"


subsection \<open>The bit tricks as arithmetic\<close>

lemma and_mask_mod:
  "b AND 0x1f = b mod 32" "b AND 0x0f = b mod 16" "b AND 0x07 = b mod 8" "b AND 0x3F = b mod 64" "b AND 0x3FF = b mod 1024"
  for b :: nat
  using take_bit_eq_mask [of 5 b] take_bit_eq_mask [of 4 b] take_bit_eq_mask [of 3 b] take_bit_eq_mask [of 6 b]
    take_bit_eq_mask [of 10 b]
  by (simp_all add: take_bit_eq_mod mask_eq_exp_minus_1)

lemma and_mask_mod_3: "b AND 3 = b mod 4" for b :: nat
  using take_bit_eq_mask [of 2 b] by (simp add: take_bit_eq_mod mask_eq_exp_minus_1)

lemma shift_or: "r < 2 ^ n \<Longrightarrow> push_bit n c OR r = c * 2 ^ n + r" for c r :: nat
proof -
  assume "r < 2 ^ n"
  then have "take_bit n r = r" by (simp add: take_bit_nat_eq_self)
  then have "\<not> bit (push_bit n c) k \<or> \<not> bit r k" for k
    by (metis bit_push_bit_iff bit_take_bit_iff not_le)
  then show ?thesis using disjunctive_add [of "push_bit n c" r] by (simp add: push_bit_eq_mult)
qed

lemma shift_and_mask: "c < 2 ^ 26 \<Longrightarrow> utf8_shift_and_mask c b = c * 64 + b mod 64"
proof -
  assume "c < 2 ^ 26"
  then have "take_bit 32 (push_bit 6 c) = push_bit 6 c" by (simp add: take_bit_nat_eq_self push_bit_eq_mult)
  then show ?thesis
    using shift_or [of "b mod 64" 6 c] and_mask_mod(4) [of b] by (simp add: utf8_shift_and_mask_def and.commute)
qed

lemma and_shifted: "u AND push_bit k m = push_bit k (drop_bit k u AND m)" for u m :: nat
  by (rule bit_eqI) (auto simp: bit_and_iff bit_push_bit_iff bit_drop_bit_eq)

lemma continuation_byte: "((c OR kByteMark) AND kByteMask) mod 256 = 128 + c mod 64"
proof -
  have b128: "bit (128 :: nat) n \<longleftrightarrow> n = 7" for n using bit_exp_iff [where 'a = nat, of 7 n] by simp
  have e: "(191 :: nat) = 128 OR mask 6" by (simp add: mask_eq_exp_minus_1)
  have b191: "bit (191 :: nat) n \<longleftrightarrow> n = 7 \<or> n < 6" for n
    unfolding e bit_or_iff b128 bit_mask_iff by simp
  have "(c OR 128) AND 191 = push_bit 7 1 OR take_bit 6 c"
    by (rule bit_eqI) (auto simp: bit_and_iff bit_or_iff b128 b191 bit_take_bit_iff bit_push_bit_iff)
  also have "\<dots> = 128 + c mod 64"
    using shift_or [of "c mod 64" 7 1] mod_less_divisor [of 64 c] by (simp add: take_bit_eq_mod)
  finally show ?thesis using mod_less_divisor [of 64 c] by (simp add: kByteMark_def kByteMask_def)
qed

lemma first_byte:
  "c < 32 \<Longrightarrow> (c OR 0xC0) mod 256 = 192 + c" "c < 16 \<Longrightarrow> (c OR 0xE0) mod 256 = 224 + c"
  "c < 8 \<Longrightarrow> (c OR 0xF0) mod 256 = 240 + c" for c :: nat
  using shift_or [of c 5 6] shift_or [of c 4 14] shift_or [of c 3 30] by (simp_all add: or.commute)

lemma codepoint_len_table:
  assumes "b < 256"
  shows "utf8_codepoint_len b = (if b < 0xC0 then 1 else if b < 0xE0 then 2 else if b < 0xF0 then 3 else 4)"
proof -
  define q where "q = b div 16"
  have q: "q < 16" "b = 16 * q + b mod 16" using assms by (simp_all add: q_def)
  have "drop_bit 1 (drop_bit 3 b) AND 15 = q"
    using q(1) by (simp add: and_mask_mod q_def drop_bit_drop_bit drop_bit_eq_div)
  with and_shifted [of "drop_bit 3 b" 1 15] have "drop_bit 3 b AND push_bit 1 15 = push_bit 1 q" by (simp only:)
  then have i: "drop_bit 3 b AND 0x1e = 2 * q" by (simp add: push_bit_eq_mult)
  have "utf8_codepoint_len b = 0xe5000000 div 2 ^ (2 * q) mod 4 + 1"
    unfolding utf8_codepoint_len_def i by (simp add: and_mask_mod_3 drop_bit_eq_div)
  moreover have "q = 0 \<or> q = 1 \<or> q = 2 \<or> q = 3 \<or> q = 4 \<or> q = 5 \<or> q = 6 \<or> q = 7 \<or> q = 8 \<or> q = 9 \<or>
      q = 10 \<or> q = 11 \<or> q = 12 \<or> q = 13 \<or> q = 14 \<or> q = 15" using q(1) by presburger
  moreover have "b < 0xC0 \<longleftrightarrow> q < 12" "b < 0xE0 \<longleftrightarrow> q < 14" "b < 0xF0 \<longleftrightarrow> q < 15" by (auto simp: q_def)
  ultimately show ?thesis by (elim disjE) simp_all
qed

lemma surrogate_bits: "u < 65536 \<Longrightarrow> u AND 0xFC00 = u div 1024 * 1024" for u :: nat
  using and_shifted [of u 10 63] by (simp add: and_mask_mod drop_bit_eq_div push_bit_eq_mult)

subsection \<open>One code point\<close>

definition scalar :: "nat \<Rightarrow> bool" where
  "scalar c \<longleftrightarrow> c < 0xD800 \<or> 0xDFFF < c \<and> c \<le> 0x10FFFF"

definition encode8 :: "nat \<Rightarrow> nat list" where
  "encode8 c = utf32_codepoint_to_utf8 c (utf32_codepoint_utf8_length c)"

lemmas length_defs = utf32_codepoint_utf8_length_def kUnicodeSurrogateStart_def kUnicodeSurrogateEnd_def
  kUnicodeMaxCodepoint_def

lemma utf8_written:
  "utf32_codepoint_to_utf8 c 1 = [c mod 256]"
  "utf32_codepoint_to_utf8 c 2 = [(c div 64 OR 0xC0) mod 256, 128 + c mod 64]"
  "utf32_codepoint_to_utf8 c 3 = [(c div 64 div 64 OR 0xE0) mod 256, 128 + c div 64 mod 64, 128 + c mod 64]"
  "utf32_codepoint_to_utf8 c 4 =
     [(c div 64 div 64 div 64 OR 0xF0) mod 256, 128 + c div 64 div 64 mod 64, 128 + c div 64 mod 64, 128 + c mod 64]"
proof -
  have four: "4 = Suc (Suc (Suc (Suc 0)))" by simp
  show "utf32_codepoint_to_utf8 c 1 = [c mod 256]"
    by (simp add: utf32_codepoint_to_utf8_def kFirstByteMark_def)
  show "utf32_codepoint_to_utf8 c 2 = [(c div 64 OR 0xC0) mod 256, 128 + c mod 64]"
    unfolding utf32_codepoint_to_utf8_def numeral_2_eq_2 utf8_fall.simps continuation_byte
    by (simp add: kFirstByteMark_def drop_bit_eq_div)
  show "utf32_codepoint_to_utf8 c 3 = [(c div 64 div 64 OR 0xE0) mod 256, 128 + c div 64 mod 64, 128 + c mod 64]"
    unfolding utf32_codepoint_to_utf8_def numeral_3_eq_3 utf8_fall.simps continuation_byte
    by (simp add: kFirstByteMark_def drop_bit_eq_div)
  show "utf32_codepoint_to_utf8 c 4 =
     [(c div 64 div 64 div 64 OR 0xF0) mod 256, 128 + c div 64 div 64 mod 64, 128 + c div 64 mod 64, 128 + c mod 64]"
    unfolding utf32_codepoint_to_utf8_def four utf8_fall.simps continuation_byte
    by (simp add: kFirstByteMark_def drop_bit_eq_div)
qed

lemma code_point_cases [consumes 1, case_names one two three four]:
  assumes "scalar c"
  obtains "c < 0x80" "utf32_codepoint_utf8_length c = 1" "encode8 c = [c]"
  | "0x80 \<le> c" "c < 0x800" "utf32_codepoint_utf8_length c = 2" "encode8 c = [192 + c div 64, 128 + c mod 64]"
  | "0x800 \<le> c" "c < 0x10000" "utf32_codepoint_utf8_length c = 3"
    "encode8 c = [224 + c div 64 div 64, 128 + c div 64 mod 64, 128 + c mod 64]"
  | "0x10000 \<le> c" "c < 0x110000" "utf32_codepoint_utf8_length c = 4"
    "encode8 c = [240 + c div 64 div 64 div 64, 128 + c div 64 div 64 mod 64, 128 + c div 64 mod 64, 128 + c mod 64]"
proof -
  consider "c < 0x80" | "0x80 \<le> c" "c < 0x800" | "0x800 \<le> c" "c < 0x10000" | "0x10000 \<le> c" "c < 0x110000"
    using assms by (force simp: scalar_def)
  then show thesis
  proof cases
    case 1
    then have "utf32_codepoint_utf8_length c = 1" by (simp add: length_defs)
    then show ?thesis using that(1) 1 utf8_written(1) [of c] by (simp add: encode8_def)
  next
    case 2
    then have "utf32_codepoint_utf8_length c = 2" "c div 64 < 32" by (simp_all add: length_defs)
    then show ?thesis using that(2) 2 utf8_written(2) [of c] first_byte(1) [of "c div 64"] by (simp add: encode8_def)
  next
    case 3
    then have "utf32_codepoint_utf8_length c = 3" "c div 64 div 64 < 16"
      using assms by (auto simp: length_defs scalar_def)
    then show ?thesis using that(3) 3 utf8_written(3) [of c] first_byte(2) [of "c div 64 div 64"] by (simp add: encode8_def)
  next
    case 4
    then have "utf32_codepoint_utf8_length c = 4" "c div 64 div 64 div 64 < 8" by (simp_all add: length_defs)
    then show ?thesis using that(4) 4 utf8_written(4) [of c] first_byte(3) [of "c div 64 div 64 div 64"] by (simp add: encode8_def)
  qed
qed

lemma encode8_length:
  assumes "scalar c"
  shows "length (encode8 c) = utf32_codepoint_utf8_length c" "encode8 c \<noteq> []"
  using assms by (cases rule: code_point_cases; simp)+

lemma encode8_bytes:
  assumes "scalar c" "b \<in> set (encode8 c)"
  shows "b < 256"
proof -
  have m: "x mod 64 < 64" for x :: nat by simp
  show ?thesis
    using assms(1)
  proof (cases rule: code_point_cases)
    case four
    then have "c div 64 div 64 div 64 < 8" by simp
    then show ?thesis using four assms(2) m by fastforce
  qed (use assms(2) m in fastforce)+
qed

lemma encode8_len:
  assumes "scalar c"
  shows "utf8_codepoint_len (hd (encode8 c)) = length (encode8 c)"
  using assms by (cases rule: code_point_cases) (simp_all add: codepoint_len_table)

lemma low_bits: "q < m \<Longrightarrow> m dvd k \<Longrightarrow> (k + q) mod m = q" for q :: nat
  by (auto simp: dvd_def)

lemma payload_bits: "(128 + x mod 64) mod 64 = x mod 64" for x :: nat
  by (rule low_bits) simp_all

lemma encode8_decode:
  assumes "scalar c"
  shows "utf8_to_utf32_codepoint (encode8 c @ rest) (length (encode8 c)) = Some c"
  using assms
proof (cases rule: code_point_cases)
  case one
  then show ?thesis by (simp add: utf8_to_utf32_codepoint_def)
next
  case two
  then have "(192 + c div 64) mod 32 = c div 64" by (intro low_bits) simp_all
  then show ?thesis using two by (simp add: utf8_to_utf32_codepoint_def and_mask_mod shift_and_mask payload_bits)
next
  case three
  then have "(224 + c div 64 div 64) mod 16 = c div 64 div 64" by (intro low_bits) simp_all
  then show ?thesis using three by (simp add: utf8_to_utf32_codepoint_def and_mask_mod shift_and_mask payload_bits)
next
  case four
  then have "(240 + c div 64 div 64 div 64) mod 8 = c div 64 div 64 div 64" by (intro low_bits) simp_all
  moreover have "c div 64 div 64 div 64 < 8" "c div 64 div 64 < 272" "c div 64 < 17408" using four by simp_all
  ultimately show ?thesis
    using four by (simp add: utf8_to_utf32_codepoint_def and_mask_mod shift_and_mask payload_bits)
qed


subsection \<open>Strings of code points\<close>

definition encode16 :: "nat \<Rightarrow> nat list" where
  "encode16 c = (if c \<le> 0xFFFF then [c] else [(c - 0x10000) div 1024 + 0xD800, (c - 0x10000) mod 1024 + 0xDC00])"

definition utf8_of :: "nat list \<Rightarrow> nat list" where
  "utf8_of cs = concat (map encode8 cs)"

definition utf16_of :: "nat list \<Rightarrow> nat list" where
  "utf16_of cs = concat (map encode16 cs)"

lemma utf_of_simps [simp]:
  "utf8_of [] = []" "utf8_of (c # cs) = encode8 c @ utf8_of cs"
  "utf16_of [] = []" "utf16_of (c # cs) = encode16 c @ utf16_of cs"
  by (simp_all add: utf8_of_def utf16_of_def)

lemma utf16_measure_of:
  "list_all scalar cs \<Longrightarrow> utf16_measure (utf8_of cs) m = int (m + length (utf16_of cs))"
proof (induction cs arbitrary: m)
  case (Cons c cs)
  then have c: "scalar c" by simp
  note e = encode8_length [OF c] encode8_len [OF c] encode8_decode [OF c]
  show ?case
    using Cons e by (simp add: utf16_measure.simps [of "encode8 c @ utf8_of cs"] encode16_def Let_def)
qed (simp add: utf16_measure.simps)

lemma utf16_convert_of:
  "list_all scalar cs \<Longrightarrow> utf16_convert (utf8_of cs) (length (utf16_of cs) + k) = Some (utf16_of cs)"
proof (induction cs)
  case (Cons c cs)
  then have c: "scalar c" by simp
  note e = encode8_length [OF c] encode8_len [OF c] encode8_decode [OF c]
  show ?case
  proof (cases "c \<le> 0xFFFF")
    case True
    then show ?thesis
      using Cons e by (simp add: utf16_convert.simps [of "encode8 c @ utf8_of cs"] encode16_def Let_def)
  next
    case False
    then have "(c - 0x10000) div 1024 < 1024" "(c - 0x10000) mod 1024 < 1024" using c by (auto simp: scalar_def)
    then show ?thesis
      using Cons e False
      by (simp add: utf16_convert.simps [of "encode8 c @ utf8_of cs"] encode16_def Let_def and_mask_mod drop_bit_eq_div)
  qed
qed (simp add: utf16_convert.simps)

lemma is_pair_iff:
  "u < 65536 \<Longrightarrow> v < 65536 \<Longrightarrow> is_pair u v \<longleftrightarrow> u div 1024 = 54 \<and> v div 1024 = 55"
  by (auto simp: is_pair_def surrogate_bits)

lemma encode16_units: "scalar c \<Longrightarrow> u \<in> set (encode16 c) \<Longrightarrow> u < 65536"
  by (auto simp: encode16_def scalar_def split: if_splits)

lemma not_high: "scalar c \<Longrightarrow> c \<le> 0xFFFF \<Longrightarrow> \<not> is_pair c v"
  using surrogate_bits [of c] by (auto simp: is_pair_def scalar_def)

lemma pair_units:
  assumes "scalar c" "\<not> c \<le> 0xFFFF"
  obtains hi lo where "encode16 c = [hi, lo]" "is_pair hi lo"
    "(push_bit 10 (hi - 0xD800) OR (lo - 0xDC00)) + 0x10000 = c"
proof -
  let ?d = "c - 0x10000"
  have d: "?d div 1024 < 1024" "?d mod 1024 < 1024" using assms by (auto simp: scalar_def)
  have e: "encode16 c = [?d div 1024 + 0xD800, ?d mod 1024 + 0xDC00]" using assms by (simp add: encode16_def)
  have "(?d div 1024 + 0xD800) div 1024 = 54" "(?d mod 1024 + 0xDC00) div 1024 = 55" using d by auto
  moreover have "?d div 1024 + 0xD800 < 65536" "?d mod 1024 + 0xDC00 < 65536" using d by linarith+
  ultimately have p: "is_pair (?d div 1024 + 0xD800) (?d mod 1024 + 0xDC00)" using is_pair_iff by blast
  have "push_bit 10 (?d div 1024) OR (?d mod 1024) = ?d" using shift_or [of "?d mod 1024" 10 "?d div 1024"] by simp
  then have "(push_bit 10 (?d div 1024) OR (?d mod 1024)) + 0x10000 = c" using assms(2) by simp
  then show thesis using that [OF e p] by simp
qed

lemma utf8_convert_cons:
  assumes "scalar c"
  shows "utf8_convert (encode16 c @ us) room = put_codepoint c room (utf8_convert us)"
proof (cases "c \<le> 0xFFFF")
  case True
  then have e: "encode16 c = [c]" by (simp add: encode16_def)
  have "utf8_convert [] = (\<lambda>r. if r < 1 then None else Some [])" by (rule ext) simp
  then show ?thesis using e not_high [OF assms True] by (cases us) simp_all
next
  case False
  obtain hi lo where "encode16 c = [hi, lo]" "is_pair hi lo" "(push_bit 10 (hi - 0xD800) OR (lo - 0xDC00)) + 0x10000 = c"
    using pair_units [OF assms False] .
  then show ?thesis by simp
qed

lemma utf8_measure_cons:
  assumes "scalar c" "r + length (encode8 c) < 2 ^ 63"
  shows "utf8_measure (encode16 c @ us) r = utf8_measure us (r + length (encode8 c))"
proof (cases "c \<le> 0xFFFF")
  case True
  then have "encode16 c = [c]" by (simp add: encode16_def)
  moreover have "\<not> 2 ^ 63 - 1 - utf32_codepoint_utf8_length c < r"
    using assms(2) encode8_length(1) [OF assms(1)] by linarith
  ultimately show ?thesis
    using not_high [OF assms(1) True] encode8_length(1) [OF assms(1)] by (cases us) (simp_all add: Let_def)
next
  case False
  obtain hi lo where "encode16 c = [hi, lo]" "is_pair hi lo" using pair_units [OF assms(1) False] by metis
  moreover have "length (encode8 c) = 4"
    using assms(1) False by (cases rule: code_point_cases) auto
  ultimately show ?thesis using assms(2) by simp
qed

lemma put_encoded:
  "scalar c \<Longrightarrow> put_codepoint c room f =
     (if room < length (encode8 c) then None else map_option (append (encode8 c)) (f (room - length (encode8 c))))"
  unfolding encode8_length(1) by (simp add: put_codepoint_def Let_def encode8_def)

lemma utf8_convert_of:
  "list_all scalar cs \<Longrightarrow> utf8_convert (utf16_of cs) (Suc (length (utf8_of cs)) + k) = Some (utf8_of cs)"
  by (induction cs) (simp_all add: utf8_convert_cons put_encoded)

lemma utf8_measure_of:
  "list_all scalar cs \<Longrightarrow> r + length (utf8_of cs) < 2 ^ 63 \<Longrightarrow>
   utf8_measure (utf16_of cs) r = int (r + length (utf8_of cs))"
  by (induction cs arbitrary: r) (simp_all add: utf8_measure_cons)

lemma utf_nonempty: "list_all scalar cs \<Longrightarrow> cs \<noteq> [] \<Longrightarrow> utf8_of cs \<noteq> [] \<and> utf16_of cs \<noteq> []"
  by (cases cs) (auto simp: encode16_def encode8_length)

lemma utf16_of_shorter: "list_all scalar cs \<Longrightarrow> length (utf16_of cs) \<le> length (utf8_of cs)"
proof (induction cs)
  case (Cons c cs)
  then have c: "scalar c" by simp
  then have "length (encode16 c) \<le> length (encode8 c)"
    by (cases rule: code_point_cases) (auto simp: encode16_def)
  then show ?case using Cons by simp
qed simp

text \<open>Any bytes: what the length routine accepts is converted in exactly that room.\<close>

lemma utf16_measure_step:
  assumes "utf16_measure u8 m = n" "0 \<le> n" "u8 \<noteq> []"
  obtains c where "utf8_to_utf32_codepoint u8 (utf8_codepoint_len (hd u8)) = Some c"
    "utf16_measure (drop (utf8_codepoint_len (hd u8)) u8) (m + 1 + (if c > 0xFFFF then 1 else 0)) = n"
proof (cases "utf8_to_utf32_codepoint u8 (utf8_codepoint_len (hd u8))")
  case None
  then show ?thesis using assms by (simp add: utf16_measure.simps [of u8 m] Let_def split: if_splits)
next
  case (Some c)
  have "utf8_codepoint_len (hd u8) \<le> length u8"
    using Some by (simp add: utf8_to_utf32_codepoint_def split: if_splits)
  then have "utf16_measure u8 m =
      utf16_measure (drop (utf8_codepoint_len (hd u8)) u8) (m + 1 + (if c > 0xFFFF then 1 else 0))"
    using Some assms(3) by (subst utf16_measure.simps) (simp add: Let_def)
  then show ?thesis using that [OF Some] assms(1) by metis
qed

lemma utf16_measure_ge: "utf16_measure u8 m = n \<Longrightarrow> 0 \<le> n \<Longrightarrow> int m \<le> n"
proof (induction "length u8" arbitrary: u8 m rule: less_induct)
  case less
  show ?case
  proof (cases "u8 = []")
    case False
    then obtain c where "utf8_to_utf32_codepoint u8 (utf8_codepoint_len (hd u8)) = Some c"
      and m: "utf16_measure (drop (utf8_codepoint_len (hd u8)) u8) (m + 1 + (if c > 0xFFFF then 1 else 0)) = n"
      using utf16_measure_step [OF less.prems] by metis
    from less.hyps [OF _ m less.prems(2)] show ?thesis using False utf8_codepoint_len_pos by simp
  qed (use less.prems in \<open>simp add: utf16_measure.simps\<close>)
qed

lemma measured_converts:
  "utf16_measure u8 m = int (m + n) \<Longrightarrow> \<exists>us. utf16_convert u8 n = Some us \<and> length us = n"
proof (induction "length u8" arbitrary: u8 m n rule: less_induct)
  case less
  show ?case
  proof (cases "u8 = []")
    case True
    then show ?thesis using less.prems by (simp add: utf16_measure.simps utf16_convert.simps)
  next
    case False
    let ?k = "utf8_codepoint_len (hd u8)"
    obtain c where c: "utf8_to_utf32_codepoint u8 ?k = Some c"
      and m: "utf16_measure (drop ?k u8) (m + 1 + (if c > 0xFFFF then 1 else 0)) = int (m + n)"
      using utf16_measure_step [OF less.prems of_nat_0_le_iff False] by metis
    have l: "length (drop ?k u8) < length u8" using False utf8_codepoint_len_pos by simp
    have n: "1 + (if c > 0xFFFF then 1 else 0) \<le> n" using utf16_measure_ge [OF m] by simp
    obtain us where "utf16_convert (drop ?k u8) (n - (1 + (if c > 0xFFFF then 1 else 0))) = Some us"
      "length us = n - (1 + (if c > 0xFFFF then 1 else 0))"
      using less.hyps [OF l, of "m + 1 + (if c > 0xFFFF then 1 else 0)" "n - (1 + (if c > 0xFFFF then 1 else 0))"] m n by auto
    then show ?thesis using False n c by (auto simp: utf16_convert.simps [of u8 n] Let_def not_le numeral_2_eq_2)
  qed
qed


subsection \<open>Properties\<close>

lemma String16_from_utf8_of:
  assumes "list_all scalar cs" "length (utf8_of cs) < 2 ^ 62"
  shows "String16_from_utf8 (utf8_of cs) = Some (utf16_of cs)"
proof (cases "cs = []")
  case True
  then show ?thesis by (simp add: String16_from_utf8_def)
next
  case False
  have "length (utf16_of cs) < 2 ^ 62" "length (utf16_of cs) \<noteq> 0"
    using utf16_of_shorter [OF assms(1)] assms(2) utf_nonempty [OF assms(1) False] by auto
  then show ?thesis
    using utf_nonempty [OF assms(1) False] utf16_measure_of [OF assms(1), of 0] utf16_convert_of [OF assms(1), of 0]
    by (simp add: String16_from_utf8_def utf8_to_utf16_length_def utf8_to_utf16_def utf8_to_utf16_no_null_terminator_def Let_def)
qed

lemma String8_from_utf16_of:
  assumes "list_all scalar cs" "length (utf8_of cs) < 2 ^ 62"
  shows "String8_from_utf16 (utf16_of cs) = Some (utf8_of cs)"
proof (cases "cs = []")
  case True
  then show ?thesis by (simp add: String8_from_utf16_def)
next
  case False
  then show ?thesis
    using utf_nonempty [OF assms(1) False] utf8_measure_of [OF assms(1), of 0] utf8_convert_of [OF assms(1), of 0] assms(2)
    by (simp add: String8_from_utf16_def utf16_to_utf8_length_def utf16_to_utf8_def Let_def nat_add_distrib)
qed

text \<open>
  C34. UTF-8 text survives \<open>String16\<close>: for every sequence of Unicode scalar values, converting its UTF-8 form
  to UTF-16 and back gives the same bytes, and the other way round the same units.
\<close>

theorem utf_roundtrip:
  assumes "list_all scalar cs" "length (utf8_of cs) < 2 ^ 62"
  shows "String16_from_utf8 (utf8_of cs) = Some (utf16_of cs) \<and> String8_from_utf16 (utf16_of cs) = Some (utf8_of cs)"
  using String16_from_utf8_of [OF assms] String8_from_utf16_of [OF assms] by simp

theorem utf_roundtrip_witness:
  "String16_from_utf8 (utf8_of [0x41, 0xE9, 0x20AC, 0x1F600]) = Some [0x41, 0xE9, 0x20AC, 0xD83D, 0xDE00] \<and>
   String8_from_utf16 [0x41, 0xE9, 0x20AC, 0xD83D, 0xDE00] = Some (utf8_of [0x41, 0xE9, 0x20AC, 0x1F600])"
proof -
  let ?cs = "[0x41, 0xE9, 0x20AC, 0x1F600]"
  have s: "list_all scalar ?cs" by (simp add: scalar_def)
  have le4: "scalar c \<Longrightarrow> length (encode8 c) \<le> 4" for c by (erule code_point_cases) auto
  have "length (utf8_of ?cs) < 2 ^ 62"
    using le4 [of "0x41"] le4 [of "0xE9"] le4 [of "0x20AC"] le4 [of "0x1F600"] by (simp add: scalar_def)
  from utf_roundtrip [OF s this] show ?thesis by (simp add: encode16_def)
qed

text \<open>
  Hostile UTF-8 is harmless: whatever bytes arrive, when \<open>utf8_to_utf16_length\<close> accepts them the
  conversion reads nothing past their end and writes exactly the number of units it announced.
\<close>

theorem utf8_to_utf16_in_bounds:
  assumes "utf8_to_utf16_length u8 = int n" "n < 2 ^ 62"
  shows "\<exists>us. utf8_to_utf16 u8 (n + 1) = Some us \<and> length us = n"
  using measured_converts [of u8 0 n] assms
  by (auto simp: utf8_to_utf16_length_def utf8_to_utf16_def utf8_to_utf16_no_null_terminator_def)

theorem utf8_to_utf16_in_bounds_witness: "\<exists>us. utf8_to_utf16 [0x80, 0xF7, 0, 0, 0] 4 = Some us \<and> length us = 3"
proof -
  have "utf8_to_utf16_length [0x80, 0xF7, 0, 0, 0] = int 3"
    by (simp add: utf8_to_utf16_length_def utf16_measure.simps codepoint_len_table utf8_to_utf32_codepoint_def
        and_mask_mod shift_and_mask)
  from utf8_to_utf16_in_bounds [OF this] show ?thesis by simp
qed

end
