(* ===== verification/Parcel.thy ===== *)
theory Parcel
  imports Binder_Status Unicode
begin

text \<open>
  \<open>android::Parcel\<close> (\<open>frameworks/native/libs/binder/Parcel.cpp\<close>): the buffer with its capacity, growth and
  position, the binder objects in it and their references, and the writing of plain data, objects and
  descriptors. Parcels of the socket transport (\<open>isForRpc\<close>) are not modelled. Bytes are natural numbers
  below 256. An operation is \<open>None\<close> when it aborts the process, accesses memory outside the buffer or
  memory it has freed.
\<close>

subsection \<open>State\<close>

text \<open>
  What the parcel asks of its surroundings: \<open>e_alloc k n\<close> is what the call number \<open>k\<close>, to \<open>malloc\<close>, \<open>realloc\<close> or
  \<open>calloc\<close> for \<open>n\<close> bytes, returns (contents unspecified, \<open>None\<close> on failure); \<open>e_dup k fd\<close> what it returns when it
  is \<open>fcntl (fd, F_DUPFD_CLOEXEC)\<close>, a negative value being \<open>-errno\<close>; \<open>e_ashmem fd\<close> the size of the ashmem region
  behind a descriptor, at most 0 when there is none; \<open>e_proxy h\<close> whether \<open>getStrongProxyForHandle\<close> finds one.
\<close>

record parcel_env =
  e_alloc :: "nat \<Rightarrow> nat \<Rightarrow> nat list option"
  e_dup :: "nat \<Rightarrow> nat \<Rightarrow> int"
  e_ashmem :: "nat \<Rightarrow> int"
  e_proxy :: "nat \<Rightarrow> bool"

text \<open>References taken and dropped on a local binder or a handle, descriptors closed, borrowed data given back.\<close>

datatype ref_event =
    IncStrong nat | DecStrong nat | IncHandle nat | DecHandle nat | CloseFd nat | OwnerReleased

text \<open>
  \<open>p_alloc\<close> tells whether \<open>mData\<close> is not null, \<open>p_data\<close> has \<open>mDataCapacity\<close> bytes, \<open>p_objects\<close> the first
  \<open>mObjectsSize\<close> offsets, \<open>p_ocap\<close> is \<open>mObjectsCapacity\<close>, \<open>p_owner\<close> tells whether \<open>mOwner\<close> is set; \<open>p_calls\<close>
  counts the calls to the surroundings and \<open>p_log\<close> records the references.
\<close>

record parcel =
  p_error :: int
  p_alloc :: bool
  p_data :: "nat list"
  p_size :: nat
  p_pos :: nat
  p_objects :: "nat list"
  p_ocap :: nat
  p_hint :: nat
  p_sorted :: bool
  p_headerPresent :: bool
  p_headerPos :: nat
  p_fdsKnown :: bool
  p_hasFds :: bool
  p_allowFds :: bool
  p_owner :: bool
  p_ashmem :: nat
  p_calls :: nat
  p_log :: "ref_event list"

type_synonym 'a outcome = "('a \<times> parcel) option"

definition INT32_MAX :: nat where "INT32_MAX = 2 ^ 31 - 1"
definition SIZE_MAX :: nat where "SIZE_MAX = 2 ^ 64 - 1"

definition initState :: "parcel \<Rightarrow> parcel" where
  "initState p = p\<lparr>p_error := OK, p_alloc := False, p_data := [], p_size := 0, p_pos := 0, p_objects := [],
     p_ocap := 0, p_hint := 0, p_sorted := False, p_headerPresent := False, p_headerPos := 0, p_fdsKnown := True,
     p_hasFds := False, p_allowFds := True, p_owner := False, p_ashmem := 0\<rparr>"

definition new_parcel :: parcel where
  "new_parcel = \<lparr>p_error = OK, p_alloc = False, p_data = [], p_size = 0, p_pos = 0, p_objects = [],
     p_ocap = 0, p_hint = 0, p_sorted = False, p_headerPresent = False, p_headerPos = 0, p_fdsKnown = True,
     p_hasFds = False, p_allowFds = True, p_owner = False, p_ashmem = 0, p_calls = 0, p_log = []\<rparr>"

definition pad_size :: "nat \<Rightarrow> nat option" where
  "pad_size s = (if s > SIZE_MAX - 3 then None else Some ((s + 3) div 4 * 4))"

definition dataSize :: "parcel \<Rightarrow> nat" where
  "dataSize p = (if p_size p > p_pos p then p_size p else p_pos p)"

definition dataAvail :: "parcel \<Rightarrow> nat option" where
  "dataAvail p = (let r = dataSize p - p_pos p in if r > INT32_MAX then None else Some r)"

definition setDataPosition :: "nat \<Rightarrow> parcel \<Rightarrow> parcel option" where
  "setDataPosition pos p =
     (if pos > INT32_MAX then None else Some (p\<lparr>p_pos := pos, p_hint := 0, p_sorted := False\<rparr>))"

text \<open>Access to the buffer, with its bounds.\<close>

definition peek :: "nat \<Rightarrow> nat \<Rightarrow> parcel \<Rightarrow> nat list" where
  "peek off n p = take n (drop off (p_data p))"

definition poke :: "nat \<Rightarrow> nat list \<Rightarrow> parcel \<Rightarrow> parcel option" where
  "poke off bs p =
     (if off + length bs \<le> length (p_data p)
      then Some (p\<lparr>p_data := take off (p_data p) @ bs @ drop (off + length bs) (p_data p)\<rparr>)
      else None)"

text \<open>Little-endian integers of \<open>k\<close> bytes.\<close>

fun le_bytes :: "nat \<Rightarrow> nat \<Rightarrow> nat list" where
  "le_bytes 0 v = []"
| "le_bytes (Suc k) v = v mod 256 # le_bytes k (v div 256)"

fun le_val :: "nat list \<Rightarrow> nat" where
  "le_val [] = 0"
| "le_val (b # bs) = b + 256 * le_val bs"


subsection \<open>Objects in the buffer\<close>

text \<open>\<open>struct flat_binder_object\<close>: type, flags, the binder pointer or handle, and the cookie.\<close>

record flat_object =
  f_type :: nat
  f_flags :: nat
  f_binder :: nat
  f_cookie :: nat

definition flat_size :: nat where "flat_size = 24"

definition flat_bytes :: "flat_object \<Rightarrow> nat list" where
  "flat_bytes f = le_bytes 4 (f_type f) @ le_bytes 4 (f_flags f) @ le_bytes 8 (f_binder f) @ le_bytes 8 (f_cookie f)"

definition flat_at :: "nat \<Rightarrow> parcel \<Rightarrow> flat_object" where
  "flat_at off p = \<lparr>f_type = le_val (peek off 4 p), f_flags = le_val (peek (off + 4) 4 p),
     f_binder = le_val (peek (off + 8) 8 p), f_cookie = le_val (peek (off + 16) 8 p)\<rparr>"

definition BINDER_TYPE_BINDER :: nat where "BINDER_TYPE_BINDER = 0x73622a85"
definition BINDER_TYPE_HANDLE :: nat where "BINDER_TYPE_HANDLE = 0x73682a85"
definition BINDER_TYPE_FD :: nat where "BINDER_TYPE_FD = 0x66642a85"

definition f_handle :: "flat_object \<Rightarrow> nat" where
  "f_handle f = f_binder f mod 2 ^ 32"

definition acquire_object :: "parcel_env \<Rightarrow> flat_object \<Rightarrow> parcel \<Rightarrow> parcel" where
  "acquire_object env f p =
     (if f_type f = BINDER_TYPE_BINDER then
        (if f_binder f \<noteq> 0 then p\<lparr>p_log := p_log p @ [IncStrong (f_cookie f)]\<rparr> else p)
      else if f_type f = BINDER_TYPE_HANDLE then
        (if e_proxy env (f_handle f) then p\<lparr>p_log := p_log p @ [IncHandle (f_handle f)]\<rparr> else p)
      else if f_type f = BINDER_TYPE_FD then
        (if f_cookie f \<noteq> 0 \<and> e_ashmem env (f_handle f) > 0
         then p\<lparr>p_ashmem := p_ashmem p + nat (e_ashmem env (f_handle f))\<rparr> else p)
      else p)"

definition release_object :: "parcel_env \<Rightarrow> flat_object \<Rightarrow> parcel \<Rightarrow> parcel" where
  "release_object env f p =
     (if f_type f = BINDER_TYPE_BINDER then
        (if f_binder f \<noteq> 0 then p\<lparr>p_log := p_log p @ [DecStrong (f_cookie f)]\<rparr> else p)
      else if f_type f = BINDER_TYPE_HANDLE then
        (if e_proxy env (f_handle f) then p\<lparr>p_log := p_log p @ [DecHandle (f_handle f)]\<rparr> else p)
      else if f_type f = BINDER_TYPE_FD then
        (if f_cookie f \<noteq> 0
         then p\<lparr>p_ashmem := p_ashmem p - nat (e_ashmem env (f_handle f)),
                p_log := p_log p @ [CloseFd (f_handle f)]\<rparr> else p)
      else p)"

definition scanForFds :: "parcel \<Rightarrow> parcel" where
  "scanForFds p =
     p\<lparr>p_hasFds := list_ex (\<lambda>off. f_type (flat_at off p) = BINDER_TYPE_FD) (p_objects p), p_fdsKnown := True\<rparr>"

definition hasFileDescriptors :: "parcel \<Rightarrow> bool \<times> parcel" where
  "hasFileDescriptors p = (let p1 = (if p_fdsKnown p then p else scanForFds p) in (p_hasFds p1, p1))"

definition pushAllowFds :: "bool \<Rightarrow> parcel \<Rightarrow> bool \<times> parcel" where
  "pushAllowFds allow p = (p_allowFds p, if allow then p else p\<lparr>p_allowFds := False\<rparr>)"

definition restoreAllowFds :: "bool \<Rightarrow> parcel \<Rightarrow> parcel" where
  "restoreAllowFds lastValue p = p\<lparr>p_allowFds := lastValue\<rparr>"

text \<open>The loops run from the last object to the first.\<close>

definition releaseObjects :: "parcel_env \<Rightarrow> parcel \<Rightarrow> parcel" where
  "releaseObjects env p = fold (\<lambda>off q. release_object env (flat_at off p) q) (rev (p_objects p)) p"

definition acquireObjects :: "parcel_env \<Rightarrow> nat \<Rightarrow> parcel \<Rightarrow> parcel" where
  "acquireObjects env n p = fold (\<lambda>off q. acquire_object env (flat_at off p) q) (rev (take n (p_objects p))) p"

definition freeDataNoInit :: "parcel_env \<Rightarrow> parcel \<Rightarrow> parcel" where
  "freeDataNoInit env p = (if p_owner p then p\<lparr>p_log := p_log p @ [OwnerReleased]\<rparr> else releaseObjects env p)"

definition freeData :: "parcel_env \<Rightarrow> parcel \<Rightarrow> parcel" where
  "freeData env p = initState (freeDataNoInit env p)"


subsection \<open>Growth\<close>

text \<open>The objects that stay when the data shrinks: the loop of \<open>continueWrite\<close>, from the last one.\<close>

fun kept_objects :: "nat list \<Rightarrow> nat \<Rightarrow> nat \<Rightarrow> nat" where
  "kept_objects objs desired 0 = 0"
| "kept_objects objs desired (Suc n) = (if objs ! n < desired then Suc n else kept_objects objs desired n)"

definition objects_left :: "nat \<Rightarrow> parcel \<Rightarrow> nat" where
  "objects_left desired p =
     (if desired < p_size p
      then (if desired = 0 then 0 else kept_objects (p_objects p) desired (length (p_objects p)))
      else length (p_objects p))"

definition out_of_memory :: "parcel \<Rightarrow> int outcome" where
  "out_of_memory p = Some (NO_MEMORY, p\<lparr>p_error := NO_MEMORY\<rparr>)"

definition allocate :: "parcel_env \<Rightarrow> nat \<Rightarrow> parcel \<Rightarrow> nat list option \<times> parcel" where
  "allocate env n p = (e_alloc env (p_calls p) n, p\<lparr>p_calls := Suc (p_calls p)\<rparr>)"

text \<open>Borrowed data is copied before it is changed.\<close>

definition take_possession :: "parcel_env \<Rightarrow> nat \<Rightarrow> nat \<Rightarrow> parcel \<Rightarrow> int outcome" where
  "take_possession env desired n p =
     (case allocate env desired p of
        (None, p1) \<Rightarrow> out_of_memory p1
      | (Some fresh, p1) \<Rightarrow>
          (case (if n = 0 then (Some [], p1) else allocate env (8 * n) p1) of
             (None, p2) \<Rightarrow> out_of_memory p2
           | (Some _, p2) \<Rightarrow>
               (let p3 = acquireObjects env n p2;
                    k = (if p_size p < desired then p_size p else desired)
                in Some (OK, p3\<lparr>p_log := p_log p3 @ [OwnerReleased], p_owner := False, p_alloc := True,
                           p_data := take k (p_data p) @ drop k fresh, p_size := k,
                           p_objects := take n (p_objects p), p_ocap := n, p_hint := 0, p_sorted := False\<rparr>))))"

text \<open>Objects behind the new end are released, and their array is cut when \<open>realloc\<close> succeeds.\<close>

definition cut_objects :: "parcel_env \<Rightarrow> nat \<Rightarrow> parcel \<Rightarrow> parcel" where
  "cut_objects env n p =
     (if n = 0 then p\<lparr>p_ocap := 0\<rparr>
      else case allocate env (8 * n) p of (None, p1) \<Rightarrow> p1 | (Some _, p1) \<Rightarrow> p1\<lparr>p_ocap := n\<rparr>)"

definition drop_objects :: "parcel_env \<Rightarrow> nat \<Rightarrow> parcel \<Rightarrow> parcel" where
  "drop_objects env n p =
     (if n < length (p_objects p) then
        (let lost = drop n (p_objects p);
             p1 = fold (\<lambda>off q. release_object env (flat_at off p) q) lost
                    (if list_ex (\<lambda>off. f_type (flat_at off p) = BINDER_TYPE_FD) lost
                     then p\<lparr>p_fdsKnown := False\<rparr> else p)
         in (cut_objects env n p1)\<lparr>p_objects := take n (p_objects p), p_hint := 0, p_sorted := False\<rparr>)
      else p)"

definition continueWrite :: "parcel_env \<Rightarrow> nat \<Rightarrow> parcel \<Rightarrow> int outcome" where
  "continueWrite env desired p =
     (if desired > INT32_MAX then Some (BAD_VALUE, p)
      else
        (let n = objects_left desired p
         in if p_owner p then
              (if desired = 0 then Some (OK, freeData env p) else take_possession env desired n p)
            else if p_alloc p then
              (let p1 = drop_objects env n p
               in if desired > length (p_data p) then
                    (case allocate env desired p1 of
                       (None, p2) \<Rightarrow> out_of_memory p2
                     | (Some fresh, p2) \<Rightarrow> Some (OK, p2\<lparr>p_data := p_data p @ drop (length (p_data p)) fresh\<rparr>))
                  else
                    Some (OK, p1\<lparr>p_size := min (p_size p) desired, p_pos := min (p_pos p) desired\<rparr>))
            else
              (case allocate env desired p of
                 (None, p1) \<Rightarrow> out_of_memory p1
               | (Some fresh, p1) \<Rightarrow> Some (OK, p1\<lparr>p_alloc := True, p_data := fresh, p_size := 0, p_pos := 0\<rparr>))))"

definition growData :: "parcel_env \<Rightarrow> nat \<Rightarrow> parcel \<Rightarrow> int outcome" where
  "growData env len p =
     (if len > INT32_MAX then Some (BAD_VALUE, p)
      else if len > SIZE_MAX - p_size p then Some (NO_MEMORY, p)
      else if p_size p + len > SIZE_MAX div 3 then Some (NO_MEMORY, p)
      else
        (let newSize = (p_size p + len) * 3 div 2
         in if newSize \<le> p_size p then Some (NO_MEMORY, p) else continueWrite env (max newSize 128) p))"

text \<open>
  \<open>restartWrite\<close> releases the objects only after \<open>realloc\<close> gave the old buffer back, but reads them through
  \<open>mData\<close>, which still points to it.
\<close>

definition restart_state :: "parcel \<Rightarrow> parcel" where
  "restart_state p = p\<lparr>p_size := 0, p_pos := 0, p_objects := [], p_ocap := 0, p_hint := 0, p_sorted := False,
     p_hasFds := False, p_fdsKnown := True, p_allowFds := True\<rparr>"

definition restartWrite :: "parcel_env \<Rightarrow> nat \<Rightarrow> parcel \<Rightarrow> int outcome" where
  "restartWrite env desired p =
     (if desired > INT32_MAX then Some (BAD_VALUE, p)
      else if p_owner p then continueWrite env desired (freeData env p)
      else
        (case allocate env desired p of
           (None, p1) \<Rightarrow>
             if desired > length (p_data p) then out_of_memory p1
             else if desired = 0 then
               (if p_objects p \<noteq> [] then None
                else Some (OK, restart_state (p1\<lparr>p_alloc := False, p_data := []\<rparr>)))
             else Some (OK, restart_state (releaseObjects env p1))
         | (Some fresh, p1) \<Rightarrow>
             if p_objects p \<noteq> [] then None
             else Some (OK, restart_state (p1\<lparr>p_alloc := True,
                       p_data := take desired (p_data p) @ drop (length (p_data p)) fresh\<rparr>))))"

definition setDataSize :: "parcel_env \<Rightarrow> nat \<Rightarrow> parcel \<Rightarrow> int outcome" where
  "setDataSize env sz p =
     (if sz > INT32_MAX then Some (BAD_VALUE, p)
      else case continueWrite env sz p of
             None \<Rightarrow> None
           | Some (err, p1) \<Rightarrow> Some (err, if err = OK then p1\<lparr>p_size := sz\<rparr> else p1))"

definition setDataCapacity :: "parcel_env \<Rightarrow> nat \<Rightarrow> parcel \<Rightarrow> int outcome" where
  "setDataCapacity env sz p =
     (if sz > INT32_MAX then Some (BAD_VALUE, p)
      else if sz > length (p_data p) then continueWrite env sz p
      else Some (OK, p))"

definition setData :: "parcel_env \<Rightarrow> nat list \<Rightarrow> parcel \<Rightarrow> int outcome" where
  "setData env buffer p =
     (if length buffer > INT32_MAX then Some (BAD_VALUE, p)
      else case restartWrite env (length buffer) p of
             None \<Rightarrow> None
           | Some (err, p1) \<Rightarrow>
               if err \<noteq> OK then Some (err, p1)
               else (case poke 0 buffer p1 of
                       None \<Rightarrow> None
                     | Some p2 \<Rightarrow> Some (OK, p2\<lparr>p_size := length buffer, p_fdsKnown := False\<rparr>)))"


subsection \<open>Writing\<close>

definition finishWrite :: "nat \<Rightarrow> parcel \<Rightarrow> int \<times> parcel" where
  "finishWrite len p =
     (if len > INT32_MAX then (BAD_VALUE, p)
      else (let pos = p_pos p + len in (OK, p\<lparr>p_pos := pos, p_size := (if pos > p_size p then pos else p_size p)\<rparr>)))"

text \<open>The test for room before each write, with the growth and the jump back.\<close>

definition ensure_room :: "parcel_env \<Rightarrow> nat \<Rightarrow> parcel \<Rightarrow> int outcome" where
  "ensure_room env need p = (if p_pos p + need \<le> length (p_data p) then Some (OK, p) else growData env need p)"

definition writeAligned :: "parcel_env \<Rightarrow> nat \<Rightarrow> nat \<Rightarrow> parcel \<Rightarrow> int outcome" where
  "writeAligned env k v p =
     (case ensure_room env k p of
        None \<Rightarrow> None
      | Some (err, p1) \<Rightarrow>
          if err \<noteq> OK then Some (err, p1)
          else (case poke (p_pos p1) (le_bytes k v) p1 of None \<Rightarrow> None | Some p2 \<Rightarrow> Some (finishWrite k p2)))"

definition writeUnpadded :: "parcel_env \<Rightarrow> nat list \<Rightarrow> parcel \<Rightarrow> int outcome" where
  "writeUnpadded env bs p =
     (if length bs > INT32_MAX then Some (BAD_VALUE, p)
      else if (p_pos p + length bs) mod 2 ^ 64 < p_pos p then Some (BAD_VALUE, p)
      else case ensure_room env (length bs) p of
             None \<Rightarrow> None
           | Some (err, p1) \<Rightarrow>
               if err \<noteq> OK then Some (err, p1)
               else (case poke (p_pos p1) bs p1 of None \<Rightarrow> None | Some p2 \<Rightarrow> Some (finishWrite (length bs) p2)))"

text \<open>The offset of the space reserved, with its padding cleared; no offset for a null pointer.\<close>

definition writeInplace :: "parcel_env \<Rightarrow> nat \<Rightarrow> parcel \<Rightarrow> nat option outcome" where
  "writeInplace env len p =
     (if len > INT32_MAX then Some (None, p)
      else case pad_size len of
             None \<Rightarrow> None
           | Some padded \<Rightarrow>
               if (p_pos p + padded) mod 2 ^ 64 < p_pos p then Some (None, p)
               else (case ensure_room env padded p of
                       None \<Rightarrow> None
                     | Some (err, p1) \<Rightarrow>
                         if err \<noteq> OK then Some (None, p1)
                         else (case (if padded \<noteq> len then poke (p_pos p1 + len) (replicate (padded - len) 0) p1
                                     else Some p1) of
                                 None \<Rightarrow> None
                               | Some p2 \<Rightarrow> Some (if p_alloc p1 then Some (p_pos p1) else None, snd (finishWrite padded p2)))))"

definition parcel_write :: "parcel_env \<Rightarrow> nat list \<Rightarrow> parcel \<Rightarrow> int outcome" where
  "parcel_write env bs p =
     (if length bs > INT32_MAX then Some (BAD_VALUE, p)
      else case writeInplace env (length bs) p of
             None \<Rightarrow> None
           | Some (None, p1) \<Rightarrow> Some (p_error p1, p1)
           | Some (Some off, p1) \<Rightarrow> map_option (Pair OK) (poke off bs p1))"

definition u32 :: "int \<Rightarrow> nat" where "u32 v = nat (v mod 2 ^ 32)"
definition u64 :: "int \<Rightarrow> nat" where "u64 v = nat (v mod 2 ^ 64)"

definition writeInt32 :: "parcel_env \<Rightarrow> int \<Rightarrow> parcel \<Rightarrow> int outcome" where
  "writeInt32 env v = writeAligned env 4 (u32 v)"

definition writeInt64 :: "parcel_env \<Rightarrow> int \<Rightarrow> parcel \<Rightarrow> int outcome" where
  "writeInt64 env v = writeAligned env 8 (u64 v)"

definition writeBool :: "parcel_env \<Rightarrow> bool \<Rightarrow> parcel \<Rightarrow> int outcome" where
  "writeBool env b = writeInt32 env (if b then 1 else 0)"

definition writeChar :: "parcel_env \<Rightarrow> nat \<Rightarrow> parcel \<Rightarrow> int outcome" where
  "writeChar env c = writeInt32 env (int c)"

definition writeByte :: "parcel_env \<Rightarrow> int \<Rightarrow> parcel \<Rightarrow> int outcome" where
  "writeByte env b = writeInt32 env b"

text \<open>\<open>status = A; if (status != OK) return status; B\<close>.\<close>

definition and_then :: "int outcome \<Rightarrow> (parcel \<Rightarrow> int outcome) \<Rightarrow> int outcome" where
  "and_then a b =
     (case a of None \<Rightarrow> None | Some (st, p) \<Rightarrow> if st \<noteq> OK then Some (st, p) else b p)"

text \<open>\<open>val\<close> is \<open>None\<close> for a null pointer; it has \<open>len\<close> elements at least, or they are read out of bounds.\<close>

definition writeByteArray :: "parcel_env \<Rightarrow> nat \<Rightarrow> nat list option \<Rightarrow> parcel \<Rightarrow> int outcome" where
  "writeByteArray env len val p =
     (if len > INT32_MAX then Some (BAD_VALUE, p)
      else case val of
             None \<Rightarrow> writeInt32 env (-1) p
           | Some bs \<Rightarrow>
               if length bs < len then None
               else and_then (writeInt32 env (int len) p) (parcel_write env (take len bs)))"

definition writeInt32Array :: "parcel_env \<Rightarrow> nat \<Rightarrow> int list option \<Rightarrow> parcel \<Rightarrow> int outcome" where
  "writeInt32Array env len val p =
     (if len > INT32_MAX then Some (BAD_VALUE, p)
      else case val of
             None \<Rightarrow> writeInt32 env (-1) p
           | Some vs \<Rightarrow>
               if length vs < len then None
               else and_then (writeInt32 env (int len) p)
                      (parcel_write env (concat (map (\<lambda>v. le_bytes 4 (u32 v)) (take len vs)))))"

definition writeCString :: "parcel_env \<Rightarrow> nat list \<Rightarrow> parcel \<Rightarrow> int outcome" where
  "writeCString env str = parcel_write env (str @ [0])"

definition put_inplace :: "parcel_env \<Rightarrow> nat list \<Rightarrow> parcel \<Rightarrow> int outcome" where
  "put_inplace env bs p =
     (case writeInplace env (length bs) p of
        None \<Rightarrow> None
      | Some (None, p1) \<Rightarrow> Some (p_error p1, p1)
      | Some (Some off, p1) \<Rightarrow> map_option (Pair OK) (poke off bs p1))"

definition units16 :: "nat list \<Rightarrow> nat list" where
  "units16 us = concat (map (le_bytes 2) us)"

definition writeString8 :: "parcel_env \<Rightarrow> nat list option \<Rightarrow> parcel \<Rightarrow> int outcome" where
  "writeString8 env str p =
     (case str of
        None \<Rightarrow> writeInt32 env (-1) p
      | Some s \<Rightarrow> and_then (writeInt32 env (int (length s)) p) (put_inplace env (s @ [0])))"

definition writeString16 :: "parcel_env \<Rightarrow> nat list option \<Rightarrow> parcel \<Rightarrow> int outcome" where
  "writeString16 env str p =
     (case str of
        None \<Rightarrow> writeInt32 env (-1) p
      | Some s \<Rightarrow> and_then (writeInt32 env (int (length s)) p) (put_inplace env (units16 (s @ [0]))))"

definition writeUtf8AsUtf16 :: "parcel_env \<Rightarrow> nat list \<Rightarrow> parcel \<Rightarrow> int outcome" where
  "writeUtf8AsUtf16 env str p =
     (let utf16Len = utf8_to_utf16_length str
      in if utf16Len < 0 \<or> utf16Len > int INT32_MAX then Some (BAD_VALUE, p)
         else and_then (writeInt32 env utf16Len p)
           (\<lambda>p1. case writeInplace env ((nat utf16Len + 1) * 2) p1 of
                    None \<Rightarrow> None
                  | Some (None, p2) \<Rightarrow> Some (NO_MEMORY, p2)
                  | Some (Some off, p2) \<Rightarrow>
                      (case utf8_to_utf16 str (nat utf16Len + 1) of
                         None \<Rightarrow> None
                       | Some us \<Rightarrow> map_option (Pair OK) (poke off (units16 (us @ [0])) p2))))"



subsection \<open>Objects and descriptors\<close>

definition reserve_objects :: "parcel_env \<Rightarrow> nat \<Rightarrow> parcel \<Rightarrow> int outcome" where
  "reserve_objects env wanted p =
     (if wanted > SIZE_MAX - length (p_objects p) then Some (NO_MEMORY, p)
      else if length (p_objects p) + wanted > SIZE_MAX div 3 then Some (NO_MEMORY, p)
      else
        (let newSize = (length (p_objects p) + wanted) * 3 div 2
         in if newSize > SIZE_MAX div 8 then Some (NO_MEMORY, p)
            else case allocate env (8 * newSize) p of
                   (None, p1) \<Rightarrow> Some (NO_MEMORY, p1)
                 | (Some _, p1) \<Rightarrow> Some (OK, p1\<lparr>p_ocap := newSize\<rparr>)))"

definition put_object :: "parcel_env \<Rightarrow> flat_object \<Rightarrow> bool \<Rightarrow> parcel \<Rightarrow> int outcome" where
  "put_object env val nullMetaData p =
     (case poke (p_pos p) (flat_bytes val) p of
        None \<Rightarrow> None
      | Some p1 \<Rightarrow>
          if f_type val = BINDER_TYPE_FD \<and> \<not> p_allowFds p then Some (FDS_NOT_ALLOWED, p1)
          else
            (let p2 = (if f_type val = BINDER_TYPE_FD then p1\<lparr>p_hasFds := True, p_fdsKnown := True\<rparr> else p1);
                 p3 = (if nullMetaData \<or> f_binder val \<noteq> 0
                       then acquire_object env val (p2\<lparr>p_objects := p_objects p2 @ [p_pos p2]\<rparr>) else p2)
             in Some (finishWrite flat_size p3)))"

definition writeObject :: "parcel_env \<Rightarrow> flat_object \<Rightarrow> bool \<Rightarrow> parcel \<Rightarrow> int outcome" where
  "writeObject env val nullMetaData p =
     (let enoughData = p_pos p + flat_size \<le> length (p_data p);
          enoughObjects = length (p_objects p) < p_ocap p
      in and_then (if enoughData then Some (OK, p) else growData env flat_size p)
           (\<lambda>p1. and_then (if enoughObjects then Some (OK, p1) else reserve_objects env 2 p1)
                    (put_object env val nullMetaData)))"

definition writeFileDescriptor :: "parcel_env \<Rightarrow> int \<Rightarrow> bool \<Rightarrow> parcel \<Rightarrow> int outcome" where
  "writeFileDescriptor env fd takeOwnership =
     writeObject env \<lparr>f_type = BINDER_TYPE_FD, f_flags = 0x17f, f_binder = u32 fd,
                      f_cookie = (if takeOwnership then 1 else 0)\<rparr> True"

definition dup_then :: "parcel_env \<Rightarrow> int \<Rightarrow> (int \<Rightarrow> parcel \<Rightarrow> int outcome) \<Rightarrow> parcel \<Rightarrow> int outcome" where
  "dup_then env fd write_it p =
     (let dupFd = e_dup env (p_calls p) (u32 fd); p1 = p\<lparr>p_calls := Suc (p_calls p)\<rparr>
      in if dupFd < 0 then Some (dupFd, p1)
         else case write_it dupFd p1 of
                None \<Rightarrow> None
              | Some (err, p2) \<Rightarrow>
                  Some (err, if err \<noteq> OK then p2\<lparr>p_log := p_log p2 @ [CloseFd (nat dupFd)]\<rparr> else p2))"

definition writeDupFileDescriptor :: "parcel_env \<Rightarrow> int \<Rightarrow> parcel \<Rightarrow> int outcome" where
  "writeDupFileDescriptor env fd = dup_then env fd (\<lambda>d. writeFileDescriptor env d True)"

text \<open>The result of the leading \<open>writeInt32\<close> is not looked at.\<close>

definition writeParcelFileDescriptor :: "parcel_env \<Rightarrow> int \<Rightarrow> bool \<Rightarrow> parcel \<Rightarrow> int outcome" where
  "writeParcelFileDescriptor env fd takeOwnership p =
     (case writeInt32 env 0 p of None \<Rightarrow> None | Some (_, p1) \<Rightarrow> writeFileDescriptor env fd takeOwnership p1)"

definition writeDupParcelFileDescriptor :: "parcel_env \<Rightarrow> int \<Rightarrow> parcel \<Rightarrow> int outcome" where
  "writeDupParcelFileDescriptor env fd = dup_then env fd (\<lambda>d. writeParcelFileDescriptor env d True)"

text \<open>\<open>native_handle\<close>: descriptors and plain integers; \<open>version_ok\<close> is the test of its version.\<close>

record native_handle =
  nh_version_ok :: bool
  nh_fds :: "int list"
  nh_ints :: "int list"

fun write_dup_fds :: "parcel_env \<Rightarrow> int list \<Rightarrow> parcel \<Rightarrow> int outcome" where
  "write_dup_fds env [] p = Some (OK, p)"
| "write_dup_fds env (fd # fds) p = and_then (writeDupFileDescriptor env fd p) (write_dup_fds env fds)"

definition writeNativeHandle :: "parcel_env \<Rightarrow> native_handle option \<Rightarrow> parcel \<Rightarrow> int outcome" where
  "writeNativeHandle env handle p =
     (case handle of
        None \<Rightarrow> Some (BAD_TYPE, p)
      | Some h \<Rightarrow>
          if \<not> nh_version_ok h then Some (BAD_TYPE, p)
          else and_then (writeInt32 env (int (length (nh_fds h))) p)
            (\<lambda>p1. and_then (writeInt32 env (int (length (nh_ints h))) p1)
            (\<lambda>p2. and_then (write_dup_fds env (nh_fds h) p2)
            (parcel_write env (concat (map (\<lambda>v. le_bytes 4 (u32 v)) (nh_ints h)))))))"


subsection \<open>Appending another parcel\<close>

text \<open>The objects that lie in the range: the indices of the first and the last one, from 0, and their number.\<close>

definition in_range :: "nat \<Rightarrow> nat \<Rightarrow> nat \<Rightarrow> bool" where
  "in_range offset len off \<longleftrightarrow> off \<ge> offset \<and> off + flat_size \<le> offset + len"

definition range_objects :: "nat \<Rightarrow> nat \<Rightarrow> nat list \<Rightarrow> nat list" where
  "range_objects offset len objs =
     (case filter (\<lambda>i. in_range offset len (objs ! i)) [0..<length objs] of
        [] \<Rightarrow> []
      | i # is \<Rightarrow> map (\<lambda>k. objs ! k) [i..<Suc (last (i # is))])"

text \<open>
  One turn of the loop that appends and acquires; a descriptor is duplicated in place. \<open>err\<close> becomes
  \<open>FDS_NOT_ALLOWED\<close> when descriptors are refused, but the loop goes on.
\<close>

definition append_object :: "parcel_env \<Rightarrow> nat \<Rightarrow> nat \<Rightarrow> nat \<Rightarrow> int \<Rightarrow> parcel \<Rightarrow> int outcome" where
  "append_object env offset startPos obj err p =
     (let off = nat ((int obj - int offset + int startPos) mod 2 ^ 64)
      in if off + flat_size > length (p_data p) then None
         else
           (let flat = flat_at off p;
                p1 = acquire_object env flat (p\<lparr>p_objects := p_objects p @ [off]\<rparr>)
            in if f_type flat = BINDER_TYPE_FD then
                 (let p2 = p1\<lparr>p_calls := Suc (p_calls p1), p_hasFds := True, p_fdsKnown := True\<rparr>
                  in map_option (Pair (if p_allowFds p2 then err else FDS_NOT_ALLOWED))
                       (poke (off + 8) (le_bytes 4 (u32 (let d = e_dup env (p_calls p1) (f_handle flat) in if d < 0 then -1 else d))
                          @ peek (off + 12) 4 p2 @ le_bytes 8 1) p2))
               else Some (err, p1)))"

fun append_objects :: "parcel_env \<Rightarrow> nat \<Rightarrow> nat \<Rightarrow> nat list \<Rightarrow> int \<Rightarrow> parcel \<Rightarrow> int outcome" where
  "append_objects env offset startPos [] err p = Some (err, p)"
| "append_objects env offset startPos (obj # objs) err p =
     (case append_object env offset startPos obj err p of
        None \<Rightarrow> None
      | Some (err1, p1) \<Rightarrow> append_objects env offset startPos objs err1 p1)"

definition appendFrom :: "parcel_env \<Rightarrow> parcel \<Rightarrow> nat \<Rightarrow> nat \<Rightarrow> parcel \<Rightarrow> int outcome" where
  "appendFrom env q offset len p =
     (if len = 0 then Some (OK, p)
      else if len > INT32_MAX then Some (BAD_VALUE, p)
      else if offset > p_size q \<or> len > p_size q \<or> offset + len > p_size q then Some (BAD_VALUE, p)
      else
        (let objs = range_objects offset len (p_objects q)
         in and_then (if p_size p + len > length (p_data p) then growData env len p else Some (OK, p))
              (\<lambda>p1. case poke (p_pos p1) (peek offset len q) p1 of
                       None \<Rightarrow> None
                     | Some p2 \<Rightarrow>
                         (let p3 = p2\<lparr>p_pos := p_pos p2 + len, p_size := p_size p2 + len\<rparr>
                          in if objs = [] then Some (OK, p3)
                             else and_then (if p_ocap p3 < length (p_objects p3) + length objs
                                            then reserve_objects env (length objs) p3 else Some (OK, p3))
                                    (append_objects env offset (p_pos p) objs OK)))))"

fun memcmp :: "nat list \<Rightarrow> nat list \<Rightarrow> int" where
  "memcmp (a # as) (b # bs) = (if a = b then memcmp as bs else if a < b then -1 else 1)"
| "memcmp as bs = 0"

definition compareData :: "parcel \<Rightarrow> parcel \<Rightarrow> int" where
  "compareData p q =
     (if dataSize p \<noteq> dataSize q then (if dataSize p < dataSize q then -1 else 1)
      else memcmp (peek 0 (dataSize p) p) (peek 0 (dataSize q) q))"

end
