(* ===== verification/Parcel_Read.thy ===== *)
theory Parcel_Read
  imports Parcel
begin

text \<open>
  The reading half of \<open>Parcel.cpp\<close>: protection of objects against plain reads, integers, strings, objects and
  descriptors, the buffer received from the driver, and the templates \<open>writeData\<close> and \<open>readData\<close> of
  \<open>Parcel.h\<close> for nested vectors and nullable values. A read gives an error code (\<open>Inl\<close>) or a value (\<open>Inr\<close>) and moves
  the position; it is \<open>None\<close> when it aborts or accesses memory outside the buffer.
\<close>

type_synonym 'a reading = "((int + 'a) \<times> parcel) option"

definition read_then :: "'a reading \<Rightarrow> ('a \<Rightarrow> parcel \<Rightarrow> 'b reading) \<Rightarrow> 'b reading" where
  "read_then r f =
     (case r of
        None \<Rightarrow> None
      | Some (Inl err, p) \<Rightarrow> Some (Inl err, p)
      | Some (Inr v, p) \<Rightarrow> f v p)"

definition fetch :: "nat \<Rightarrow> nat \<Rightarrow> parcel \<Rightarrow> nat list option" where
  "fetch off n p = (if off + n \<le> length (p_data p) then Some (peek off n p) else None)"


subsection \<open>Protected data\<close>

text \<open>The quick check, from the last object to the first.\<close>

fun objects_sorted :: "nat list \<Rightarrow> nat \<Rightarrow> bool" where
  "objects_sorted objs 0 = True"
| "objects_sorted objs (Suc i) = (if objs ! i > objs ! Suc i then False else objects_sorted objs i)"

text \<open>Insertion sort: \<open>iter1 + 1\<close> walks down from \<open>iter0\<close>.\<close>

fun sift_down :: "nat list \<Rightarrow> nat \<Rightarrow> nat \<Rightarrow> nat list" where
  "sift_down objs 0 temp = objs[0 := temp]"
| "sift_down objs (Suc i) temp =
     (if objs ! i > temp then sift_down (objs[Suc i := objs ! i]) i temp else objs[Suc i := temp])"

definition sort_objects :: "nat list \<Rightarrow> nat list" where
  "sort_objects objs = fold (\<lambda>iter0 os. sift_down os iter0 (os ! iter0)) [1..<length objs] objs"

text \<open>The \<open>do ... while\<close> over the objects from the hint: the next hint, or \<open>None\<close> for an overlap.\<close>

function skip_objects :: "nat list \<Rightarrow> nat \<Rightarrow> nat \<Rightarrow> nat \<Rightarrow> nat option" where
  "skip_objects objs pos upperBound k =
     (if k < length objs \<and> upperBound > objs ! k
      then (if pos < objs ! k + flat_size then None else skip_objects objs pos upperBound (Suc k))
      else Some k)"
  by pat_completeness auto
termination
  by (relation "measure (\<lambda>(objs, pos, upperBound, k). length objs - k)") auto

declare skip_objects.simps [simp del]

definition check_objects :: "nat \<Rightarrow> parcel \<Rightarrow> int \<times> parcel" where
  "check_objects upperBound p =
     (case skip_objects (p_objects p) (p_pos p) upperBound (p_hint p) of
        None \<Rightarrow> (PERMISSION_DENIED, p)
      | Some k \<Rightarrow> (OK, p\<lparr>p_hint := k\<rparr>))"

definition validateReadData :: "nat \<Rightarrow> parcel \<Rightarrow> int \<times> parcel" where
  "validateReadData upperBound p =
     (if p_sorted p \<or> length (p_objects p) \<le> 1 then check_objects upperBound p
      else if objects_sorted (p_objects p) (length (p_objects p) - 1)
      then check_objects upperBound (p\<lparr>p_sorted := True\<rparr>)
      else check_objects upperBound (p\<lparr>p_objects := sort_objects (p_objects p), p_hint := 0, p_sorted := True\<rparr>))"

text \<open>The test before each plain read of \<open>n\<close> bytes; the position moves on also when it is denied.\<close>

definition permit :: "nat \<Rightarrow> parcel \<Rightarrow> int \<times> parcel" where
  "permit n p =
     (case (if p_objects p \<noteq> [] then validateReadData (p_pos p + n) p else (OK, p)) of
        (err, p1) \<Rightarrow> (err, p1\<lparr>p_pos := p_pos p1 + n\<rparr>))"


subsection \<open>Plain data\<close>

definition parcel_read :: "nat \<Rightarrow> parcel \<Rightarrow> nat list reading" where
  "parcel_read len p =
     (if len > INT32_MAX then Some (Inl BAD_VALUE, p)
      else case pad_size len of
             None \<Rightarrow> None
           | Some padded \<Rightarrow>
               if p_pos p + padded \<le> p_size p \<and> len \<le> padded then
                 (case permit padded p of
                    (err, p1) \<Rightarrow>
                      if err \<noteq> OK then Some (Inl err, p1)
                      else map_option (\<lambda>bs. (Inr bs, p1)) (fetch (p_pos p) len p))
               else Some (Inl NOT_ENOUGH_DATA, p))"

text \<open>The offset of the data, \<open>Inl\<close> for a null pointer.\<close>

definition readInplace :: "nat \<Rightarrow> parcel \<Rightarrow> nat reading" where
  "readInplace len p =
     (if len > INT32_MAX then Some (Inl BAD_VALUE, p)
      else case pad_size len of
             None \<Rightarrow> None
           | Some padded \<Rightarrow>
               if p_pos p + padded \<le> p_size p \<and> len \<le> padded then
                 (case permit padded p of
                    (err, p1) \<Rightarrow> Some (if err \<noteq> OK \<or> \<not> p_alloc p then Inl BAD_VALUE else Inr (p_pos p), p1))
               else Some (Inl BAD_VALUE, p))"

definition readAligned :: "nat \<Rightarrow> parcel \<Rightarrow> nat reading" where
  "readAligned k p =
     (if p_pos p + k \<le> p_size p then
        (case permit k p of
           (err, p1) \<Rightarrow>
             if err \<noteq> OK then Some (Inl err, p1)
             else map_option (\<lambda>bs. (Inr (le_val bs), p1)) (fetch (p_pos p) k p))
      else Some (Inl NOT_ENOUGH_DATA, p))"

definition signed :: "nat \<Rightarrow> nat \<Rightarrow> int" where
  "signed w v = (if v < 2 ^ (w - 1) then int v else int v - 2 ^ w)"

definition map_reading :: "('a \<Rightarrow> 'b) \<Rightarrow> 'a reading \<Rightarrow> 'b reading" where
  "map_reading f r = read_then r (\<lambda>v p. Some (Inr (f v), p))"

definition readInt32 :: "parcel \<Rightarrow> int reading" where
  "readInt32 p = map_reading (signed 32) (readAligned 4 p)"

definition readUint32 :: "parcel \<Rightarrow> nat reading" where
  "readUint32 p = readAligned 4 p"

definition readInt64 :: "parcel \<Rightarrow> int reading" where
  "readInt64 p = map_reading (signed 64) (readAligned 8 p)"

definition readUint64 :: "parcel \<Rightarrow> nat reading" where
  "readUint64 p = readAligned 8 p"

text \<open>\<open>T readAligned ()\<close>: an error reads as 0.\<close>

definition readInt32_or_0 :: "parcel \<Rightarrow> int outcome" where
  "readInt32_or_0 p =
     (case readInt32 p of None \<Rightarrow> None | Some (Inl _, p1) \<Rightarrow> Some (0, p1) | Some (Inr v, p1) \<Rightarrow> Some (v, p1))"

definition readBool :: "parcel \<Rightarrow> bool reading" where
  "readBool p = map_reading (\<lambda>v. v \<noteq> 0) (readInt32 p)"

definition readChar :: "parcel \<Rightarrow> nat reading" where
  "readChar p = map_reading (\<lambda>v. nat (v mod 2 ^ 16)) (readInt32 p)"

definition readByte :: "parcel \<Rightarrow> int reading" where
  "readByte p = map_reading (\<lambda>v. signed 8 (nat (v mod 2 ^ 8))) (readInt32 p)"


subsection \<open>Strings\<close>

definition readCString :: "parcel \<Rightarrow> nat list option outcome" where
  "readCString p =
     (if p_pos p < p_size p then
        (case fetch (p_pos p) (p_size p - p_pos p) p of
           None \<Rightarrow> None
         | Some bytes \<Rightarrow>
             if 0 \<in> set bytes then
               (let len = length (takeWhile (\<lambda>b. b \<noteq> 0) bytes)
                in case pad_size (len + 1) of
                     None \<Rightarrow> None
                   | Some padded \<Rightarrow> Some (Some (take len bytes), p\<lparr>p_pos := p_pos p + padded\<rparr>))
             else Some (None, p))
      else Some (None, p))"

fun units_of :: "nat list \<Rightarrow> nat list" where
  "units_of (a # b # bs) = (a + 256 * b) # units_of bs"
| "units_of bs = []"

text \<open>The common part of \<open>readString8Inplace\<close> and \<open>readString16Inplace\<close>: the bytes before a terminator of \<open>w\<close> zero bytes.\<close>

definition read_terminated :: "nat \<Rightarrow> parcel \<Rightarrow> nat list option outcome" where
  "read_terminated w p =
     (case readInt32_or_0 p of
        None \<Rightarrow> None
      | Some (len, p1) \<Rightarrow>
          if len \<ge> 0 \<and> len < int INT32_MAX then
            (case readInplace ((nat len + 1) * w) p1 of
               None \<Rightarrow> None
             | Some (Inl _, p2) \<Rightarrow> Some (None, p2)
             | Some (Inr off, p2) \<Rightarrow>
                 (case fetch off ((nat len + 1) * w) p2 of
                    None \<Rightarrow> None
                  | Some bytes \<Rightarrow>
                      Some (if list_all (\<lambda>b. b = 0) (drop (nat len * w) bytes) then Some (take (nat len * w) bytes)
                            else None, p2)))
          else Some (None, p1))"

definition readString8Inplace :: "parcel \<Rightarrow> nat list option outcome" where
  "readString8Inplace p = read_terminated 1 p"

definition readString16Inplace :: "parcel \<Rightarrow> nat list option outcome" where
  "readString16Inplace p = map_option (\<lambda>(bytes, p1). (map_option units_of bytes, p1)) (read_terminated 2 p)"

definition or_null :: "'a option outcome \<Rightarrow> 'a reading" where
  "or_null r =
     (case r of None \<Rightarrow> None
      | Some (None, p) \<Rightarrow> Some (Inl UNEXPECTED_NULL, p)
      | Some (Some v, p) \<Rightarrow> Some (Inr v, p))"

definition readString8 :: "parcel \<Rightarrow> nat list reading" where
  "readString8 p = or_null (readString8Inplace p)"

definition readString16 :: "parcel \<Rightarrow> nat list reading" where
  "readString16 p = or_null (readString16Inplace p)"

definition readUtf8FromUtf16 :: "parcel \<Rightarrow> nat list reading" where
  "readUtf8FromUtf16 p =
     read_then (or_null (readString16Inplace p))
       (\<lambda>src p1. if src = [] then Some (Inr [], p1)
                 else (let utf8Size = utf16_to_utf8_length src + 1
                       in if utf8Size < 1 then Some (Inl BAD_VALUE, p1)
                          else map_option (\<lambda>str. (Inr str, p1)) (utf16_to_utf8 src (nat utf8Size))))"


subsection \<open>Objects\<close>

function seek_forward :: "nat list \<Rightarrow> nat \<Rightarrow> nat \<Rightarrow> nat" where
  "seek_forward objs pos opos =
     (if opos < length objs - 1 \<and> objs ! opos < pos then seek_forward objs pos (Suc opos) else opos)"
  by pat_completeness auto
termination
  by (relation "measure (\<lambda>(objs, pos, opos). length objs - opos)") auto

declare seek_forward.simps [simp del]

fun seek_back :: "nat list \<Rightarrow> nat \<Rightarrow> nat \<Rightarrow> nat" where
  "seek_back objs pos 0 = 0"
| "seek_back objs pos (Suc opos) = (if objs ! Suc opos > pos then seek_back objs pos opos else Suc opos)"

definition find_object :: "nat list \<Rightarrow> nat \<Rightarrow> nat \<Rightarrow> nat option" where
  "find_object objs pos hint =
     (if objs = [] then None
      else
        (let opos = (if hint < length objs then seek_forward objs pos hint else length objs - 1)
         in if objs ! opos = pos then Some opos
            else
              (let opos = seek_back objs pos opos
               in if objs ! opos = pos then Some opos else None)))"

text \<open>The flat object at the position, \<open>None\<close> for a null pointer.\<close>

definition readObject :: "bool \<Rightarrow> parcel \<Rightarrow> flat_object option outcome" where
  "readObject nullMetaData p =
     (if p_pos p + flat_size \<le> p_size p then
        (if p_pos p + flat_size > length (p_data p) then None
         else
           (let obj = flat_at (p_pos p) p; p1 = p\<lparr>p_pos := p_pos p + flat_size\<rparr>
            in if \<not> nullMetaData \<and> f_cookie obj = 0 \<and> f_binder obj = 0 then Some (Some obj, p1)
               else (case find_object (p_objects p) (p_pos p) (p_hint p) of
                       Some opos \<Rightarrow> Some (Some obj, p1\<lparr>p_hint := opos + 1\<rparr>)
                     | None \<Rightarrow> Some (None, p1))))
      else Some (None, p))"

definition readFileDescriptor :: "parcel \<Rightarrow> int outcome" where
  "readFileDescriptor p =
     (case readObject True p of
        None \<Rightarrow> None
      | Some (obj, p1) \<Rightarrow>
          Some (case obj of
                  Some flat \<Rightarrow> if f_type flat = BINDER_TYPE_FD then signed 32 (f_handle flat) else BAD_TYPE
                | None \<Rightarrow> BAD_TYPE, p1))"

text \<open>\<open>readUniqueFileDescriptor\<close> duplicates what it read.\<close>

definition readUniqueFileDescriptor :: "parcel_env \<Rightarrow> parcel \<Rightarrow> int reading" where
  "readUniqueFileDescriptor env p =
     (case readFileDescriptor p of
        None \<Rightarrow> None
      | Some (got, p1) \<Rightarrow>
          if got = BAD_TYPE then Some (Inl BAD_TYPE, p1)
          else
            (let fd = e_dup env (p_calls p1) (u32 got); p2 = p1\<lparr>p_calls := Suc (p_calls p1)\<rparr>
             in Some (if fd < 0 then Inl BAD_VALUE else Inr fd, p2)))"

text \<open>
  The offsets received from the driver: how many of them are kept and whether the objects before a bad one
  are released. The object at an offset is read before its place in the buffer is known to be good.
\<close>

datatype offsets_verdict = Offsets_ok | Bad_offset | Bad_type | Out_of_buffer

fun check_offsets :: "parcel \<Rightarrow> nat \<Rightarrow> nat list \<Rightarrow> offsets_verdict" where
  "check_offsets p minOffset [] = Offsets_ok"
| "check_offsets p minOffset (offset # objs) =
     (if offset < minOffset then Bad_offset
      else if offset + flat_size > length (p_data p) then Out_of_buffer
      else if f_type (flat_at offset p) \<notin> {BINDER_TYPE_BINDER, BINDER_TYPE_HANDLE, BINDER_TYPE_FD} then Bad_type
      else check_offsets p (offset + flat_size) objs)"

definition ipcSetDataReference :: "parcel_env \<Rightarrow> nat list \<Rightarrow> nat list \<Rightarrow> parcel \<Rightarrow> parcel option" where
  "ipcSetDataReference env data objects p =
     (let p1 = (freeData env p)\<lparr>p_alloc := True, p_data := data, p_size := length data, p_objects := objects,
                 p_ocap := length objects, p_owner := True\<rparr>
      in case check_offsets p1 0 objects of
           Out_of_buffer \<Rightarrow> None
         | Offsets_ok \<Rightarrow> Some (scanForFds p1)
         | Bad_offset \<Rightarrow> Some (scanForFds (p1\<lparr>p_objects := []\<rparr>))
         | Bad_type \<Rightarrow> Some (scanForFds ((releaseObjects env p1)\<lparr>p_objects := []\<rparr>)))"


subsection \<open>Typed data\<close>

text \<open>
  The types the templates compose; an enum is its underlying type, \<open>float\<close> and \<open>double\<close> travel as the bits of
  \<open>TUint32\<close> and \<open>TUint64\<close>. Nullable stands for \<open>optional\<close>, \<open>unique_ptr\<close> and \<open>shared_ptr\<close>. \<open>Parcelable\<close>, binders and
  descriptors are not among them.
\<close>

datatype ptype =
    TBool | TInt8 | TUint8 | TChar16 | TInt32 | TUint32 | TInt64 | TUint64 | TString16 | TString
  | TVector ptype | TNullable ptype

datatype pvalue = VBool bool | VInt int | VStr "nat list" | VVec "pvalue list" | VOpt "pvalue option"

text \<open>\<open>is_pointer_equivalent_array_v\<close>, with \<open>sizeof(T)\<close>.\<close>

fun array_width :: "ptype \<Rightarrow> nat option" where
  "array_width TInt8 = Some 1"
| "array_width TUint8 = Some 1"
| "array_width TInt32 = Some 4"
| "array_width TUint32 = Some 4"
| "array_width TInt64 = Some 8"
| "array_width TUint64 = Some 8"
| "array_width _ = None"

fun is_signed :: "ptype \<Rightarrow> bool" where
  "is_signed TInt8 = True"
| "is_signed TInt32 = True"
| "is_signed TInt64 = True"
| "is_signed _ = False"

fun nullable :: "ptype \<Rightarrow> bool" where
  "nullable (TVector t) = True"
| "nullable TString16 = True"
| "nullable TString = True"
| "nullable _ = False"

fun int_of :: "pvalue \<Rightarrow> int" where
  "int_of (VBool b) = (if b then 1 else 0)"
| "int_of (VInt v) = v"
| "int_of _ = 0"

definition elem_bytes :: "nat \<Rightarrow> pvalue \<Rightarrow> nat list" where
  "elem_bytes w v = le_bytes w (nat (int_of v mod 2 ^ (8 * w)))"

fun write_each :: "('a \<Rightarrow> parcel \<Rightarrow> int outcome) \<Rightarrow> 'a list \<Rightarrow> parcel \<Rightarrow> int outcome" where
  "write_each w [] p = Some (OK, p)"
| "write_each w (v # vs) p = and_then (w v p) (write_each w vs)"

text \<open>A vector: the result of writing its size is not looked at.\<close>

definition write_vector :: "parcel_env \<Rightarrow> ptype \<Rightarrow> (pvalue \<Rightarrow> parcel \<Rightarrow> int outcome) \<Rightarrow> pvalue list \<Rightarrow> parcel \<Rightarrow> int outcome" where
  "write_vector env t w vs p =
     (if length vs > INT32_MAX then Some (BAD_VALUE, p)
      else case writeInt32 env (int (length vs)) p of
             None \<Rightarrow> None
           | Some (_, p1) \<Rightarrow>
               (case array_width t of
                  Some sz \<Rightarrow>
                    if length vs > SIZE_MAX div sz then Some (BAD_VALUE, p1)
                    else parcel_write env (concat (map (elem_bytes sz) vs)) p1
                | None \<Rightarrow>
                    if t = TBool \<or> t = TChar16 then
                      (case writeInplace env (4 * length vs) p1 of
                         None \<Rightarrow> None
                       | Some (None, p2) \<Rightarrow> Some (BAD_VALUE, p2)
                       | Some (Some off, p2) \<Rightarrow> map_option (Pair OK) (poke off (concat (map (elem_bytes 4) vs)) p2))
                    else write_each w vs p1))"

primrec writeData :: "parcel_env \<Rightarrow> ptype \<Rightarrow> pvalue \<Rightarrow> parcel \<Rightarrow> int outcome" where
  "writeData env TBool v p = writeInt32 env (int_of v) p"
| "writeData env TInt8 v p = writeByte env (int_of v) p"
| "writeData env TUint8 v p = writeByte env (signed 8 (nat (int_of v mod 2 ^ 8))) p"
| "writeData env TChar16 v p = writeChar env (nat (int_of v)) p"
| "writeData env TInt32 v p = writeInt32 env (int_of v) p"
| "writeData env TUint32 v p = writeAligned env 4 (u32 (int_of v)) p"
| "writeData env TInt64 v p = writeInt64 env (int_of v) p"
| "writeData env TUint64 v p = writeAligned env 8 (u64 (int_of v)) p"
| "writeData env TString16 v p = (case v of VStr s \<Rightarrow> writeString16 env (Some s) p | _ \<Rightarrow> None)"
| "writeData env TString v p = (case v of VStr s \<Rightarrow> writeUtf8AsUtf16 env s p | _ \<Rightarrow> None)"
| "writeData env (TVector t) v p = (case v of VVec vs \<Rightarrow> write_vector env t (writeData env t) vs p | _ \<Rightarrow> None)"
| "writeData env (TNullable t) v p =
     (case v of
        VOpt None \<Rightarrow> if nullable t then writeInt32 env (-1) p else None
      | VOpt (Some u) \<Rightarrow> if nullable t then writeData env t u p else None
      | _ \<Rightarrow> None)"

fun read_each :: "(parcel \<Rightarrow> 'a reading) \<Rightarrow> nat \<Rightarrow> parcel \<Rightarrow> 'a list reading" where
  "read_each r 0 p = Some (Inr [], p)"
| "read_each r (Suc n) p = read_then (r p) (\<lambda>v p1. map_reading (Cons v) (read_each r n p1))"

text \<open>\<open>n\<close> elements of \<open>w\<close> bytes.\<close>

fun split_elems :: "nat \<Rightarrow> nat \<Rightarrow> nat list \<Rightarrow> nat list" where
  "split_elems w 0 bs = []"
| "split_elems w (Suc n) bs = le_val (take w bs) # split_elems w n (drop w bs)"

definition elem_value :: "ptype \<Rightarrow> nat \<Rightarrow> nat \<Rightarrow> pvalue" where
  "elem_value t w x = VInt (if is_signed t then signed (8 * w) x else int x)"

definition read_array :: "nat \<Rightarrow> nat \<Rightarrow> (nat \<Rightarrow> pvalue) \<Rightarrow> parcel \<Rightarrow> pvalue list reading" where
  "read_array len sz f p =
     read_then (readInplace (len * sz) p)
       (\<lambda>off p1. map_option (\<lambda>bs. (Inr (map f (split_elems sz len bs)), p1)) (fetch off (len * sz) p1))"

definition read_vector :: "ptype \<Rightarrow> (parcel \<Rightarrow> pvalue reading) \<Rightarrow> parcel \<Rightarrow> pvalue list reading" where
  "read_vector t r p =
     read_then (readInt32 p)
       (\<lambda>len p1.
          if len < 0 then Some (Inl UNEXPECTED_NULL, p1)
          else case dataAvail p1 of
                 None \<Rightarrow> None
               | Some availableBytes \<Rightarrow>
                   if nat len > availableBytes then Some (Inl BAD_VALUE, p1)
                   else (case array_width t of
                           Some sz \<Rightarrow> read_array (nat len) sz (elem_value t sz) p1
                         | None \<Rightarrow>
                             if t = TBool then read_array (nat len) 4 (\<lambda>x. VBool (x \<noteq> 0)) p1
                             else if t = TChar16 then read_array (nat len) 4 (\<lambda>x. VInt (int (x mod 2 ^ 16))) p1
                             else read_each r (nat len) p1))"

primrec readData :: "ptype \<Rightarrow> parcel \<Rightarrow> pvalue reading" where
  "readData TBool p = map_reading VBool (readBool p)"
| "readData TInt8 p = map_reading VInt (readByte p)"
| "readData TUint8 p = map_reading (\<lambda>v. VInt (v mod 2 ^ 8)) (readByte p)"
| "readData TChar16 p = map_reading (\<lambda>c. VInt (int c)) (readChar p)"
| "readData TInt32 p = map_reading VInt (readInt32 p)"
| "readData TUint32 p = map_reading (\<lambda>v. VInt (int v)) (readUint32 p)"
| "readData TInt64 p = map_reading VInt (readInt64 p)"
| "readData TUint64 p = map_reading (\<lambda>v. VInt (int v)) (readUint64 p)"
| "readData TString16 p = map_reading VStr (readString16 p)"
| "readData TString p = map_reading VStr (readUtf8FromUtf16 p)"
| "readData (TVector t) p = map_reading VVec (read_vector t (readData t) p)"
| "readData (TNullable t) p =
     (if \<not> nullable t then None
      else read_then (readInt32 p)
             (\<lambda>peek p1. if peek = -1 then Some (Inr (VOpt None), p1)
                        else (case setDataPosition (p_pos p) p1 of
                                None \<Rightarrow> None
                              | Some p2 \<Rightarrow> map_reading (\<lambda>u. VOpt (Some u)) (readData t p2))))"

end
