(* ===== verification/Parcel_Codec.thy ===== *)
theory Parcel_Codec
  imports Parcel_Read
begin

text \<open>
  What a write appends and what a read takes back: the interface between a parcel and everything that
  stores data in one, its instances for the operations of \<open>Parcel\<close>, and by induction for every type that
  \<open>writeData\<close> and \<open>readData\<close> compose.
\<close>

subsection \<open>Bytes\<close>

lemma length_le_bytes [simp]: "length (le_bytes k v) = k"
  by (induction k v rule: le_bytes.induct) simp_all

lemma le_bytes_Nil [simp]: "le_bytes k v = [] \<longleftrightarrow> k = 0"
  by (cases k) simp_all

lemma le_bytes_byte: "b \<in> set (le_bytes k v) \<Longrightarrow> b < 256"
  by (induction k v rule: le_bytes.induct) auto

lemma le_bytes_2: "le_bytes 2 v = [v mod 256, v div 256 mod 256]"
  by (simp add: numeral_2_eq_2)

lemma le_bytes_add: "le_bytes (k + j) v = le_bytes k v @ le_bytes j (v div 256 ^ k)"
  by (induction k arbitrary: v) (simp_all add: div_mult2_eq)

lemma le_bytes_4: "le_bytes 4 v = le_bytes 2 v @ le_bytes 2 (v div 65536)"
  and le_bytes_8: "le_bytes 8 v = le_bytes 4 v @ le_bytes 4 (v div 4294967296)"
  using le_bytes_add [of 2 2 v] le_bytes_add [of 4 4 v] by simp_all

lemma le_val_le_bytes [simp]: "le_val (le_bytes k v) = v mod 256 ^ k"
proof (induction k v rule: le_bytes.induct)
  case (2 k v)
  then show ?case using mod_mult2_eq [of v 256 "256 ^ k"] by simp
qed simp

lemma le_val_4 [simp]: "v < 2 ^ 32 \<Longrightarrow> le_val (le_bytes 4 v) = v"
  and le_val_8 [simp]: "v < 2 ^ 64 \<Longrightarrow> le_val (le_bytes 8 v) = v"
  by simp_all

lemma u32_less [simp]: "u32 v < 4294967296" and u64_less [simp]: "u64 v < 18446744073709551616"
  by (simp_all add: u32_def u64_def nat_less_iff)

lemma signed_of_unsigned:
  assumes "- (2 ^ (w - 1)) \<le> v" "v < 2 ^ (w - 1)" "0 < w"
  shows "signed w (nat (v mod 2 ^ w)) = v"
proof -
  have d: "(2 :: int) ^ w = 2 * 2 ^ (w - 1)" using assms(3) by (cases w) simp_all
  show ?thesis
  proof (cases "0 \<le> v")
    case True
    then have "v mod 2 ^ w = v" using assms(2) d by simp
    with True assms(2) show ?thesis by (simp add: signed_def nat_less_iff)
  next
    case False
    then have "(v + 2 ^ w) mod 2 ^ w = v + 2 ^ w" using assms(1) d by (intro mod_pos_pos_trivial) simp_all
    then have "v mod 2 ^ w = v + 2 ^ w" by simp
    with False assms(1) d show ?thesis by (simp add: signed_def nat_less_iff)
  qed
qed

lemma signed_u32 [simp]: "- (2 ^ 31) \<le> v \<Longrightarrow> v < 2 ^ 31 \<Longrightarrow> signed 32 (u32 v) = v"
  and signed_u64 [simp]: "- (2 ^ 63) \<le> v \<Longrightarrow> v < 2 ^ 63 \<Longrightarrow> signed 64 (u64 v) = v"
  using signed_of_unsigned [of 32 v] signed_of_unsigned [of 64 v] by (simp_all add: u32_def u64_def)

lemma u32_nat [simp]: "n < 2 ^ 32 \<Longrightarrow> u32 (int n) = n"
  by (simp add: u32_def)

definition pad4 :: "nat list \<Rightarrow> nat list" where
  "pad4 bs = bs @ replicate ((length bs + 3) div 4 * 4 - length bs) 0"

lemma pad_size_eq: "n \<le> INT32_MAX + 1 \<Longrightarrow> pad_size n = Some ((n + 3) div 4 * 4)"
  by (simp add: pad_size_def SIZE_MAX_def INT32_MAX_def)

lemma pad_ge: "n \<le> (n + 3) div 4 * (4 :: nat)" by presburger

lemma length_pad4: "length (pad4 bs) = (length bs + 3) div 4 * 4"
  using pad_ge [of "length bs"] by (simp add: pad4_def)


subsection \<open>Appending\<close>

text \<open>\<open>malloc\<close> and \<open>realloc\<close> succeed and give the bytes they were asked for.\<close>

definition plentiful :: "parcel_env \<Rightarrow> bool" where
  "plentiful env \<longleftrightarrow> (\<forall>k n. \<exists>bs. e_alloc env k n = Some bs \<and> length bs = n)"

definition contents :: "parcel \<Rightarrow> nat list" where
  "contents p = take (p_size p) (p_data p)"

text \<open>A parcel being written at its end.\<close>

definition ready :: "parcel \<Rightarrow> bool" where
  "ready p \<longleftrightarrow> \<not> p_owner p \<and> p_pos p = p_size p \<and> p_size p \<le> length (p_data p) \<and>
     (p_alloc p \<or> p_data p = []) \<and> p_error p = OK"

definition fits :: "parcel \<Rightarrow> nat \<Rightarrow> bool" where
  "fits p n \<longleftrightarrow> (p_size p + n) * 3 div 2 \<le> INT32_MAX"

text \<open>Appending leaves everything but the bytes and the allocations alone.\<close>

definition frame :: "parcel \<Rightarrow> parcel" where
  "frame p = p\<lparr>p_alloc := False, p_data := [], p_size := 0, p_pos := 0, p_calls := 0\<rparr>"

definition wrote :: "parcel \<Rightarrow> nat list \<Rightarrow> parcel \<Rightarrow> bool" where
  "wrote p bs p' \<longleftrightarrow> ready p' \<and> contents p' = contents p @ bs \<and> p_size p' = p_size p + length bs \<and>
     p_alloc p' = (p_alloc p \<or> bs \<noteq> []) \<and> frame p' = frame p"

lemma frame_simps:
  "p_objects (frame p) = p_objects p" "p_log (frame p) = p_log p" "p_error (frame p) = p_error p"
  "p_owner (frame p) = p_owner p" "p_ocap (frame p) = p_ocap p" "p_allowFds (frame p) = p_allowFds p"
  "p_headerPresent (frame p) = p_headerPresent p" "p_headerPos (frame p) = p_headerPos p"
  by (simp_all add: frame_def)

lemma frame_fields:
  assumes "frame p' = frame p"
  shows "p_objects p' = p_objects p" "p_log p' = p_log p" "p_error p' = p_error p" "p_owner p' = p_owner p"
    "p_ocap p' = p_ocap p" "p_allowFds p' = p_allowFds p" "p_headerPresent p' = p_headerPresent p"
    "p_headerPos p' = p_headerPos p"
  using assms by (metis frame_simps)+

lemma wrote_ready: "wrote p bs p' \<Longrightarrow> ready p'"
  by (simp add: wrote_def)

lemma wrote_nil: "ready p \<Longrightarrow> wrote p [] p"
  by (simp add: wrote_def)

lemma wrote_trans: "wrote p as p1 \<Longrightarrow> wrote p1 bs p2 \<Longrightarrow> wrote p (as @ bs) p2"
  by (auto simp: wrote_def)

lemma fits_after: "fits p (n + m) \<Longrightarrow> wrote p bs p' \<Longrightarrow> length bs = n \<Longrightarrow> fits p' m"
  by (simp add: fits_def wrote_def add.assoc)

lemma fits_less: "fits p n \<Longrightarrow> m \<le> n \<Longrightarrow> fits p m"
  unfolding fits_def by (meson add_left_mono div_le_mono mult_le_mono1 order_trans)

lemma ensure_room_ready:
  assumes "plentiful env" "ready p" "fits p need"
  obtains p1 where "ensure_room env need p = Some (OK, p1)" "ready p1" "contents p1 = contents p"
    "p_pos p1 + need \<le> length (p_data p1)" "need > 0 \<Longrightarrow> p_alloc p1" "p_alloc p \<Longrightarrow> p_alloc p1"
    "p_size p1 = p_size p" "frame p1 = frame p" "p_alloc p1 \<Longrightarrow> p_alloc p \<or> need > 0"
proof (cases "p_pos p + need \<le> length (p_data p)")
  case True
  with assms have "need > 0 \<Longrightarrow> p_alloc p" by (auto simp: ready_def)
  then show ?thesis using that [of p] True assms(2) by (auto simp: ensure_room_def)
next
  case False
  define want where "want = max ((p_size p + need) * 3 div 2) 128"
  have n: "need > 0" using False assms(2) by (auto simp: ready_def)
  have small: "want \<le> INT32_MAX" "p_size p + need \<le> want" "p_size p < (p_size p + need) * 3 div 2"
    using assms(3) n by (auto simp: want_def fits_def INT32_MAX_def)
  have bnd: "p_size p + need \<le> INT32_MAX" using small by linarith
  have grow: "growData env need p = continueWrite env want p"
    using bnd small(3) by (auto simp: growData_def want_def SIZE_MAX_def INT32_MAX_def)
  obtain bs where bs: "e_alloc env (p_calls p) want = Some bs" "length bs = want"
    using assms(1) unfolding plentiful_def by blast
  have left: "objects_left want p = length (p_objects p)" using small(2) by (simp add: objects_left_def)
  show ?thesis
  proof (cases "p_alloc p")
    case True
    show ?thesis
    proof (cases "want > length (p_data p)")
      case big: True
      let ?p1 = "p\<lparr>p_calls := Suc (p_calls p), p_data := p_data p @ drop (length (p_data p)) bs\<rparr>"
      have "ensure_room env need p = Some (OK, ?p1)"
        using False True big left bs small(1) assms(2)
        by (simp add: ensure_room_def grow continueWrite_def Let_def drop_objects_def allocate_def ready_def)
      then show ?thesis
        using that [of ?p1] assms(2) bs(2) big small(2) True by (auto simp: ready_def contents_def frame_def)
    next
      case False
      with small(2) \<open>\<not> p_pos p + need \<le> length (p_data p)\<close> assms(2) show ?thesis by (auto simp: ready_def)
    qed
  next
    case fresh: False
    let ?p1 = "p\<lparr>p_calls := Suc (p_calls p), p_alloc := True, p_data := bs, p_size := 0, p_pos := 0\<rparr>"
    have z: "p_size p = 0" "p_pos p = 0" "p_data p = []" using fresh assms(2) by (auto simp: ready_def)
    have "ensure_room env need p = Some (OK, ?p1)"
      using False fresh left bs small(1) assms(2) n
      by (auto simp: ensure_room_def grow continueWrite_def Let_def allocate_def ready_def)
    then show ?thesis
      using that [of ?p1] assms(2) bs(2) small(2) z n by (auto simp: ready_def contents_def frame_def)
  qed
qed

text \<open>A write into the room reserved at the end, padded or not.\<close>

lemma appended:
  assumes "ready p1" "contents p1 = contents p" "p_size p1 = p_size p" "frame p1 = frame p"
    "p_pos p1 + length bs \<le> length (p_data p1)" "bs \<noteq> [] \<Longrightarrow> p_alloc p1" "p_alloc p1 \<Longrightarrow> p_alloc p \<or> bs \<noteq> []"
    "p_alloc p \<Longrightarrow> p_alloc p1"
  shows "wrote p bs (p1\<lparr>p_data := take (p_pos p1) (p_data p1) @ bs @ drop (p_pos p1 + length bs) (p_data p1),
    p_pos := p_pos p1 + length bs, p_size := p_size p1 + length bs\<rparr>)"
  (is "wrote p bs ?q")
proof -
  have "contents ?q = contents p1 @ bs" using assms(1,5) by (simp add: contents_def ready_def)
  moreover have "ready ?q" using assms(1,5,6) by (auto simp: ready_def)
  ultimately show ?thesis using assms by (auto simp: wrote_def frame_def)
qed

lemma finish_append: "ready p \<Longrightarrow> n \<le> INT32_MAX \<Longrightarrow>
  finishWrite n p = (OK, p\<lparr>p_pos := p_pos p + n, p_size := p_size p + n\<rparr>)"
  by (auto simp: finishWrite_def Let_def ready_def)

lemma fits_small: "fits p n \<Longrightarrow> n \<le> INT32_MAX" "fits p n \<Longrightarrow> p_size p + n \<le> INT32_MAX"
  by (simp_all add: fits_def)

lemma ready_poked: "ready p \<Longrightarrow> poke off bs p = Some p' \<Longrightarrow> ready p'"
  by (auto simp: ready_def poke_def split: if_splits)

lemma writeAligned_wrote:
  assumes "plentiful env" "ready p" "fits p k"
  shows "\<exists>p'. writeAligned env k v p = Some (OK, p') \<and> wrote p (le_bytes k v) p'"
proof -
  obtain p1 where p1: "ensure_room env k p = Some (OK, p1)" "ready p1" "contents p1 = contents p"
    "p_pos p1 + k \<le> length (p_data p1)" "k > 0 \<Longrightarrow> p_alloc p1" "p_alloc p \<Longrightarrow> p_alloc p1"
    "p_size p1 = p_size p" "frame p1 = frame p" "p_alloc p1 \<Longrightarrow> p_alloc p \<or> k > 0"
    using ensure_room_ready [OF assms] by metis
  then show ?thesis using appended [of p1 p "le_bytes k v"] fits_small(1) [OF assms(3)]
    by (auto simp: writeAligned_def poke_def finish_append ready_def)
qed

lemma poke_twice:
  assumes "off + length (as @ bs) \<le> length (p_data p)"
  shows "poke (off + length as) bs p = Some (p\<lparr>p_data := take (off + length as) (p_data p) @ bs
           @ drop (off + length (as @ bs)) (p_data p)\<rparr>)"
    and "poke off as (p\<lparr>p_data := take (off + length as) (p_data p) @ bs @ drop (off + length (as @ bs)) (p_data p),
           p_pos := x, p_size := y\<rparr>)
         = Some (p\<lparr>p_data := take off (p_data p) @ (as @ bs) @ drop (off + length (as @ bs)) (p_data p),
             p_pos := x, p_size := y\<rparr>)"
  using assms by (auto simp: poke_def add.assoc)

lemma writeInplace_put:
  assumes "plentiful env" "ready p" "fits p (length (pad4 bs))" "bs \<noteq> [] \<or> p_alloc p"
  obtains p1 p2 where "writeInplace env (length bs) p = Some (Some (p_pos p), p1)" "poke (p_pos p) bs p1 = Some p2"
    "wrote p (pad4 bs) p2"
proof -
  define zs where "zs = replicate ((length bs + 3) div 4 * 4 - length bs) (0 :: nat)"
  have pad: "pad4 bs = bs @ zs" by (simp add: pad4_def zs_def)
  have len: "length (pad4 bs) = (length bs + 3) div 4 * 4" by (rule length_pad4)
  have small: "length (pad4 bs) \<le> INT32_MAX" "length bs \<le> length (pad4 bs)"
    using fits_small(1) [OF assms(3)] by (auto simp: pad)
  have padsz: "pad_size (length bs) = Some (length (pad4 bs))" using small len by (simp add: pad_size_eq)
  obtain q where q: "ensure_room env (length (pad4 bs)) p = Some (OK, q)" "ready q" "contents q = contents p"
    "p_pos q + length (pad4 bs) \<le> length (p_data q)" "length (pad4 bs) > 0 \<Longrightarrow> p_alloc q" "p_alloc p \<Longrightarrow> p_alloc q"
    "p_size q = p_size p" "frame q = frame p" "p_alloc q \<Longrightarrow> p_alloc p \<or> length (pad4 bs) > 0"
    using ensure_room_ready [OF assms(1-3)] by metis
  have al: "p_alloc q" using q(5,6) assms(4) by (auto simp: pad)
  have pos: "p_pos q = p_pos p" using q(2,7) assms(2) by (simp add: ready_def)
  let ?d = "take (p_pos q + length bs) (p_data q) @ zs @ drop (p_pos q + length (bs @ zs)) (p_data q)"
  let ?p1 = "q\<lparr>p_data := ?d, p_pos := p_pos q + length (pad4 bs), p_size := p_size q + length (pad4 bs)\<rparr>"
  have zpoke: "(if length (pad4 bs) \<noteq> length bs then poke (p_pos q + length bs) zs q else Some q) = Some (q\<lparr>p_data := ?d\<rparr>)"
    using poke_twice(1) [of "p_pos q" bs zs q] q(4) by (cases zs) (simp_all add: pad)
  have rq: "ready (q\<lparr>p_data := ?d\<rparr>)" using q(2,4) al by (auto simp: ready_def pad)
  have fin: "finishWrite (length (pad4 bs)) (q\<lparr>p_data := ?d\<rparr>) = (OK, ?p1)"
    using finish_append [OF rq small(1)] by simp
  have z: "replicate (length (pad4 bs) - length bs) 0 = zs" by (simp add: zs_def len)
  have step: "(case (if length (pad4 bs) \<noteq> length bs
        then poke (p_pos q + length bs) (replicate (length (pad4 bs) - length bs) 0) q else Some q) of
      None \<Rightarrow> None
    | Some p2 \<Rightarrow> Some (if p_alloc q then Some (p_pos q) else None, snd (finishWrite (length (pad4 bs)) p2)))
    = Some (Some (p_pos p), ?p1)"
    unfolding z zpoke option.case fin snd_conv using al pos by simp
  have c: "(length bs > INT32_MAX) = False" "((p_pos p + length (pad4 bs)) mod 2 ^ 64 < p_pos p) = False"
    "(OK \<noteq> OK) = False"
    using small fits_small(2) [OF assms(3)] assms(2) by (simp_all add: ready_def INT32_MAX_def)
  have "writeInplace env (length bs) p = Some (Some (p_pos p), ?p1)"
    by (simp only: writeInplace_def c if_False padsz option.case q(1) prod.case step)
  moreover have "poke (p_pos p) bs ?p1 = Some (q\<lparr>p_data := take (p_pos q) (p_data q) @ pad4 bs
      @ drop (p_pos q + length (pad4 bs)) (p_data q), p_pos := p_pos q + length (pad4 bs), p_size := p_size q + length (pad4 bs)\<rparr>)"
    using poke_twice(2) [of "p_pos q" bs zs q] q(4) by (simp add: pad pos)
  moreover have "wrote p (pad4 bs) (q\<lparr>p_data := take (p_pos q) (p_data q) @ pad4 bs
      @ drop (p_pos q + length (pad4 bs)) (p_data q), p_pos := p_pos q + length (pad4 bs), p_size := p_size q + length (pad4 bs)\<rparr>)"
    using appended [OF q(2,3,7,8,4)] q(5,6,9) by auto
  ultimately show ?thesis using that by blast
qed

lemma put_inplace_wrote:
  assumes "plentiful env" "ready p" "fits p (length (pad4 bs))"
  shows "\<exists>p'. put_inplace env bs p = Some (OK, p') \<and> wrote p (pad4 bs) p'"
proof (cases "bs \<noteq> [] \<or> p_alloc p")
  case True
  from writeInplace_put [OF assms True] show ?thesis by (fastforce simp: put_inplace_def)
next
  case False
  with assms(2) have "put_inplace env bs p = Some (OK, p\<lparr>p_pos := p_pos p, p_size := p_size p\<rparr>)"
    by (auto simp: put_inplace_def writeInplace_def pad_size_def SIZE_MAX_def ready_def ensure_room_def finishWrite_def Let_def)
  with False assms(2) show ?thesis using wrote_nil [of p] by (simp add: pad4_def)
qed

lemma parcel_write_eq: "length bs \<le> INT32_MAX \<Longrightarrow> parcel_write env bs p = put_inplace env bs p"
  by (simp add: parcel_write_def put_inplace_def)

text \<open>Two writes in a row.\<close>

lemma wrote_then:
  assumes "\<exists>p1. a = Some (OK, p1) \<and> wrote p as p1" "\<And>p1. wrote p as p1 \<Longrightarrow> \<exists>p2. b p1 = Some (OK, p2) \<and> wrote p1 bs p2"
  shows "\<exists>p2. and_then a b = Some (OK, p2) \<and> wrote p (as @ bs) p2"
  using assms wrote_trans unfolding and_then_def by fastforce


subsection \<open>Taking back\<close>

text \<open>A parcel of plain data being read, with its position inside.\<close>

definition readable :: "parcel \<Rightarrow> bool" where
  "readable p \<longleftrightarrow> p_objects p = [] \<and> p_alloc p \<and> p_size p \<le> length (p_data p) \<and> p_size p \<le> INT32_MAX \<and>
     p_pos p \<le> p_size p"

definition ahead :: "parcel \<Rightarrow> nat list \<Rightarrow> bool" where
  "ahead p bs \<longleftrightarrow> readable p \<and> take (length bs) (drop (p_pos p) (contents p)) = bs"

definition advanced :: "parcel \<Rightarrow> nat \<Rightarrow> parcel \<Rightarrow> bool" where
  "advanced p n p' \<longleftrightarrow> (\<exists>h s. p' = p\<lparr>p_pos := p_pos p + n, p_hint := h, p_sorted := s\<rparr>)"

lemma advanced_trans: "advanced p n p1 \<Longrightarrow> advanced p1 m p2 \<Longrightarrow> advanced p (n + m) p2"
proof -
  assume "advanced p n p1" "advanced p1 m p2"
  then obtain h s where "p2 = p\<lparr>p_pos := p_pos p + (n + m), p_hint := h, p_sorted := s\<rparr>"
    by (fastforce simp: advanced_def add.assoc)
  then show ?thesis unfolding advanced_def by blast
qed

lemma advanced_pos: "advanced p n (p\<lparr>p_pos := p_pos p + n\<rparr>)"
proof -
  have "p\<lparr>p_pos := p_pos p + n\<rparr> = p\<lparr>p_pos := p_pos p + n, p_hint := p_hint p, p_sorted := p_sorted p\<rparr>" by simp
  then show ?thesis unfolding advanced_def by blast
qed

lemma ahead_room:
  assumes "ahead p bs"
  shows "p_pos p + length bs \<le> p_size p" "p_pos p + length bs \<le> length (p_data p)" "peek (p_pos p) (length bs) p = bs"
proof -
  have r: "readable p" and t: "take (length bs) (drop (p_pos p) (contents p)) = bs" using assms by (simp_all add: ahead_def)
  from t have "length bs \<le> length (contents p) - p_pos p" by (metis length_drop length_take min.cobounded1)
  with r show "p_pos p + length bs \<le> p_size p" by (auto simp: contents_def readable_def)
  with r show "p_pos p + length bs \<le> length (p_data p)" by (simp add: readable_def)
  then have "min (length bs) (p_size p - p_pos p) = length bs" using \<open>p_pos p + length bs \<le> p_size p\<close> by simp
  with t show "peek (p_pos p) (length bs) p = bs" by (simp add: peek_def contents_def drop_take)
qed

lemma ahead_split:
  assumes "ahead p (as @ bs)"
  shows "ahead p as" "advanced p (length as) p' \<Longrightarrow> ahead p' bs"
proof -
  have r: "readable p" and t: "take (length as + length bs) (drop (p_pos p) (contents p)) = as @ bs"
    using assms by (simp_all add: ahead_def)
  from t have "take (length as) (take (length as + length bs) (drop (p_pos p) (contents p))) = as" by simp
  with r show "ahead p as" by (simp add: ahead_def)
  assume adv: "advanced p (length as) p'"
  then have c: "contents p' = contents p" "p_pos p' = p_pos p + length as" by (auto simp: advanced_def contents_def)
  have "readable p'" using adv r ahead_room(1) [OF assms] by (auto simp: advanced_def readable_def)
  moreover from t have "drop (length as) (take (length as + length bs) (drop (p_pos p) (contents p))) = bs" by simp
  ultimately show "ahead p' bs" using c by (simp add: ahead_def drop_take add.commute)
qed

lemma ahead_permit: "ahead p bs \<Longrightarrow> permit n p = (OK, p\<lparr>p_pos := p_pos p + n\<rparr>)"
  by (simp add: permit_def ahead_def readable_def)

lemma readAligned_ahead:
  assumes "ahead p (le_bytes k v)"
  shows "readAligned k p = Some (Inr (v mod 256 ^ k), p\<lparr>p_pos := p_pos p + k\<rparr>)"
  using ahead_room [OF assms] ahead_permit [OF assms] by (simp add: readAligned_def fetch_def)

lemma readInplace_ahead:
  assumes "ahead p (pad4 bs)"
  shows "readInplace (length bs) p = Some (Inr (p_pos p), p\<lparr>p_pos := p_pos p + length (pad4 bs)\<rparr>)"
    and "fetch (p_pos p) (length bs) (p\<lparr>p_pos := x, p_hint := h, p_sorted := s\<rparr>) = Some bs"
proof -
  note room = ahead_room [OF assms]
  have l: "length bs \<le> length (pad4 bs)" using pad_ge [of "length bs"] by (simp add: length_pad4)
  have i: "length (pad4 bs) \<le> INT32_MAX" using room(1) assms by (auto simp: ahead_def readable_def)
  with l have "pad_size (length bs) = Some (length (pad4 bs))" by (simp add: pad_size_eq length_pad4)
  then show "readInplace (length bs) p = Some (Inr (p_pos p), p\<lparr>p_pos := p_pos p + length (pad4 bs)\<rparr>)"
    using room l i ahead_permit [OF assms] assms by (simp add: readInplace_def ahead_def readable_def)
  have "take (length bs) (peek (p_pos p) (length (pad4 bs)) p) = bs" using room(3) by (simp add: pad4_def)
  then have "peek (p_pos p) (length bs) p = bs" using l by (simp add: peek_def min_def)
  then show "fetch (p_pos p) (length bs) (p\<lparr>p_pos := x, p_hint := h, p_sorted := s\<rparr>) = Some bs"
    using room(2) l by (simp add: fetch_def peek_def)
qed

lemma read_then_simps [simp]:
  "read_then None f = None" "read_then (Some (Inl err, p)) f = Some (Inl err, p)" "read_then (Some (Inr v, p)) f = f v p"
  by (simp_all add: read_then_def)

lemma map_reading_simps [simp]:
  "map_reading g None = None" "map_reading g (Some (Inl err, p)) = Some (Inl err, p)"
  "map_reading g (Some (Inr v, p)) = Some (Inr (g v), p)"
  by (simp_all add: map_reading_def)


subsection \<open>Codecs\<close>

text \<open>
  What a pair of operations promises that stores values in a parcel: a valid value is appended as its
  encoding, and read back where its encoding lies ahead.
\<close>

locale codec =
  fixes wr :: "parcel_env \<Rightarrow> 'a \<Rightarrow> parcel \<Rightarrow> int outcome"
    and rd :: "parcel \<Rightarrow> 'a reading"
    and enc :: "'a \<Rightarrow> nat list"
    and valid :: "'a \<Rightarrow> bool"
  assumes writes: "valid v \<Longrightarrow> plentiful env \<Longrightarrow> ready p \<Longrightarrow> fits p (length (enc v)) \<Longrightarrow>
      \<exists>p'. wr env v p = Some (OK, p') \<and> wrote p (enc v) p'"
    and reads: "valid v \<Longrightarrow> ahead p (enc v) \<Longrightarrow> \<exists>p'. rd p = Some (Inr v, p') \<and> advanced p (length (enc v)) p'"
    and encodes: "valid v \<Longrightarrow> enc v \<noteq> []"
begin

lemma roundtrip:
  assumes "valid v" "plentiful env" "ready p" "p_objects p = []" "fits p (length (enc v))"
  shows "\<exists>p1 p2 p3. wr env v p = Some (OK, p1) \<and> contents p1 = contents p @ enc v \<and>
    setDataPosition (p_pos p) p1 = Some p2 \<and> rd p2 = Some (Inr v, p3) \<and> p_pos p3 = p_pos p1"
proof -
  from writes [OF assms(1,2,3,5)] obtain p1 where p1: "wr env v p = Some (OK, p1)" "wrote p (enc v) p1" by blast
  let ?p2 = "p1\<lparr>p_pos := p_pos p, p_hint := 0, p_sorted := False\<rparr>"
  have w: "ready p1" "contents p1 = contents p @ enc v" "p_size p1 = p_size p + length (enc v)" "p_alloc p1"
    "p_objects p1 = []"
    using p1(2) frame_fields(1) [of p1 p] assms(4) encodes [OF assms(1)] by (auto simp: wrote_def)
  have small: "p_size p1 \<le> INT32_MAX" using fits_small(2) [OF assms(5)] w(3) by simp
  have pos: "p_pos p = length (contents p)" using assms(3) by (simp add: ready_def contents_def)
  have "setDataPosition (p_pos p) p1 = Some ?p2"
    using assms(3) w(3) small by (simp add: setDataPosition_def ready_def)
  moreover have "ahead ?p2 (enc v)"
  proof -
    have "readable ?p2" using w small assms(3) by (auto simp: readable_def ready_def)
    moreover have "contents ?p2 = contents p @ enc v" using w(2) by (simp add: contents_def)
    ultimately show ?thesis by (simp add: ahead_def pos)
  qed
  from reads [OF assms(1) this] obtain p3 where "rd ?p2 = Some (Inr v, p3)" "advanced ?p2 (length (enc v)) p3" by blast
  moreover from this(2) have "p_pos p3 = p_pos p1" using w(1,3) assms(3) by (auto simp: advanced_def ready_def)
  ultimately show ?thesis using p1(1) w(2) by blast
qed

lemma writes_each:
  assumes "plentiful env"
  shows "list_all valid vs \<Longrightarrow> ready p \<Longrightarrow> fits p (length (concat (map enc vs))) \<Longrightarrow>
    \<exists>p'. write_each (wr env) vs p = Some (OK, p') \<and> wrote p (concat (map enc vs)) p'"
proof (induction vs arbitrary: p)
  case Nil
  then show ?case using wrote_nil by auto
next
  case (Cons v vs)
  have "\<exists>p2. and_then (wr env v p) (write_each (wr env) vs) = Some (OK, p2) \<and> wrote p (enc v @ concat (map enc vs)) p2"
  proof (rule wrote_then)
    show "\<exists>p1. wr env v p = Some (OK, p1) \<and> wrote p (enc v) p1"
      using Cons.prems assms fits_less [of p _ "length (enc v)"] by (intro writes) auto
    fix p1 assume w: "wrote p (enc v) p1"
    show "\<exists>p2. write_each (wr env) vs p1 = Some (OK, p2) \<and> wrote p1 (concat (map enc vs)) p2"
      using Cons.prems w fits_after [OF _ w refl] by (intro Cons.IH) (auto dest: wrote_ready)
  qed
  then show ?case by simp
qed

lemma reads_each:
  "list_all valid vs \<Longrightarrow> ahead p (concat (map enc vs)) \<Longrightarrow>
    \<exists>p'. read_each rd (length vs) p = Some (Inr vs, p') \<and> advanced p (length (concat (map enc vs))) p'"
proof (induction vs arbitrary: p)
  case Nil
  then show ?case using advanced_pos [of p 0] by simp
next
  case (Cons v vs)
  then have a: "ahead p (enc v @ concat (map enc vs))" and v: "valid v" "list_all valid vs" by simp_all
  from reads [OF v(1) ahead_split(1) [OF a]] obtain p1 where
    p1: "rd p = Some (Inr v, p1)" "advanced p (length (enc v)) p1" by blast
  from Cons.IH [OF v(2) ahead_split(2) [OF a p1(2)]] obtain p2 where
    "read_each rd (length vs) p1 = Some (Inr vs, p2)" "advanced p1 (length (concat (map enc vs))) p2" by blast
  with p1 show ?case using advanced_trans [OF p1(2)] by simp
qed

lemma count_le: "list_all valid vs \<Longrightarrow> length vs \<le> length (concat (map enc vs))"
proof (induction vs)
  case (Cons v vs)
  then show ?case using encodes [of v] by (cases "enc v") auto
qed simp

text \<open>Storing the values through an embedding.\<close>

lemma through:
  assumes "\<And>v. valid' v \<Longrightarrow> valid (f v) \<and> g (f v) = v"
  shows "codec (\<lambda>env v. wr env (f v)) (\<lambda>p. map_reading g (rd p)) (\<lambda>v. enc (f v)) valid'"
proof
  fix v p env assume "valid' v"
  then have v: "valid (f v)" "g (f v) = v" using assms by auto
  show "enc (f v) \<noteq> []" using encodes v by simp
  show "plentiful env \<Longrightarrow> ready p \<Longrightarrow> fits p (length (enc (f v))) \<Longrightarrow>
    \<exists>p'. wr env (f v) p = Some (OK, p') \<and> wrote p (enc (f v)) p'" using writes v by blast
  show "ahead p (enc (f v)) \<Longrightarrow> \<exists>p'. map_reading g (rd p) = Some (Inr v, p') \<and> advanced p (length (enc (f v))) p'"
    using reads [OF v(1)] v(2) by fastforce
qed

end

lemma advanced_aligned: "advanced p (length (le_bytes k v)) (p\<lparr>p_pos := p_pos p + k\<rparr>)"
  using advanced_pos [of p k] by simp

interpretation aligned4: codec "\<lambda>env. writeAligned env 4" "readAligned 4" "le_bytes 4" "\<lambda>v. v < 2 ^ 32"
  by unfold_locales (use writeAligned_wrote readAligned_ahead advanced_aligned in \<open>fastforce+\<close>)

interpretation aligned8: codec "\<lambda>env. writeAligned env 8" "readAligned 8" "le_bytes 8" "\<lambda>v. v < 2 ^ 64"
  by unfold_locales (use writeAligned_wrote readAligned_ahead advanced_aligned in \<open>fastforce+\<close>)

definition in_int :: "nat \<Rightarrow> int \<Rightarrow> bool" where
  "in_int w v \<longleftrightarrow> - (2 ^ (w - 1)) \<le> v \<and> v < 2 ^ (w - 1)"

interpretation int32: codec writeInt32 readInt32 "\<lambda>v. le_bytes 4 (u32 v)" "in_int 32"
  unfolding writeInt32_def readInt32_def by (rule aligned4.through) (simp add: in_int_def)

interpretation int64: codec writeInt64 readInt64 "\<lambda>v. le_bytes 8 (u64 v)" "in_int 64"
  unfolding writeInt64_def readInt64_def by (rule aligned8.through) (simp add: in_int_def)

interpretation bool: codec writeBool readBool "\<lambda>b. le_bytes 4 (if b then 1 else 0)" "\<lambda>_. True"
proof -
  have "codec (\<lambda>env b. writeInt32 env (if b then 1 else 0)) (\<lambda>p. map_reading (\<lambda>v. v \<noteq> 0) (readInt32 p))
      (\<lambda>b. le_bytes 4 (u32 (if b then 1 else 0))) (\<lambda>_. True)"
    by (rule int32.through) (simp add: in_int_def)
  moreover have "(\<lambda>b. le_bytes 4 (u32 (if b then 1 else 0))) = (\<lambda>b. le_bytes 4 (if b then 1 else 0))"
    by (auto simp: fun_eq_iff u32_def)
  ultimately show "codec writeBool readBool (\<lambda>b. le_bytes 4 (if b then 1 else 0)) (\<lambda>_. True)"
    by (simp only: writeBool_def [abs_def] readBool_def [abs_def])
qed

interpretation byte: codec writeByte readByte "\<lambda>v. le_bytes 4 (u32 v)" "in_int 8"
proof -
  have "signed 8 (nat (v mod 2 ^ 8)) = v" if "in_int 8 v" for v
    using that by (intro signed_of_unsigned) (simp_all add: in_int_def)
  then have "codec writeInt32 (\<lambda>p. map_reading (\<lambda>v. signed 8 (nat (v mod 2 ^ 8))) (readInt32 p)) (\<lambda>v. le_bytes 4 (u32 v)) (in_int 8)"
    by (intro int32.through [where f = "\<lambda>v. v"]) (auto simp: in_int_def)
  then show "codec writeByte readByte (\<lambda>v. le_bytes 4 (u32 v)) (in_int 8)"
    by (simp only: writeByte_def [abs_def] readByte_def [abs_def])
qed

interpretation char: codec writeChar readChar "\<lambda>c. le_bytes 4 (u32 (int c))" "\<lambda>c. c < 2 ^ 16"
proof -
  have "codec (\<lambda>env c. writeInt32 env (int c)) (\<lambda>p. map_reading (\<lambda>v. nat (v mod 2 ^ 16)) (readInt32 p))
      (\<lambda>c. le_bytes 4 (u32 (int c))) (\<lambda>c. c < 2 ^ 16)"
    by (rule int32.through) (simp add: in_int_def)
  then show "codec writeChar readChar (\<lambda>c. le_bytes 4 (u32 (int c))) (\<lambda>c. c < 2 ^ 16)"
    by (simp only: writeChar_def [abs_def] readChar_def [abs_def])
qed

end
