(* ===== verification/Parcel_Typed.thy ===== *)
theory Parcel_Typed
  imports Parcel_Codec
begin

text \<open>
  Codecs of strings and arrays, and by induction on the type the codec of everything that
  \<open>Parcel::writeData\<close> and \<open>Parcel::readData\<close> compose.
\<close>

subsection \<open>Strings\<close>

definition enc_len :: "nat \<Rightarrow> nat list" where
  "enc_len n = le_bytes 4 (u32 (int n))"

lemma length_enc_len [simp]: "length (enc_len n) = 4" "enc_len n \<noteq> []"
  by (simp_all add: enc_len_def)

lemma len_in_int: "n \<le> INT32_MAX \<Longrightarrow> in_int 32 (int n)"
  by (simp add: in_int_def INT32_MAX_def)

lemma read_len_ahead:
  assumes "ahead p (enc_len n)" "n \<le> INT32_MAX"
  shows "\<exists>p'. readInt32 p = Some (Inr (int n), p') \<and> advanced p 4 p'"
    "\<exists>p'. readInt32_or_0 p = Some (int n, p') \<and> advanced p 4 p'"
  using int32.reads [OF len_in_int [OF assms(2)]] assms(1) by (fastforce simp: enc_len_def readInt32_or_0_def)+

lemma write_len_wrote:
  assumes "plentiful env" "ready p" "fits p (4 + n)" "m \<le> INT32_MAX"
  shows "\<exists>p'. writeInt32 env (int m) p = Some (OK, p') \<and> wrote p (enc_len m) p'"
  using int32.writes [OF len_in_int [OF assms(4)] assms(1,2)] fits_less [OF assms(3)] by (simp add: enc_len_def)

lemma len_then_wrote:
  assumes "plentiful env" "ready p" "fits p (length (enc_len m @ bs))" "m \<le> INT32_MAX"
    "\<And>p1. wrote p (enc_len m) p1 \<Longrightarrow> ready p1 \<Longrightarrow> fits p1 (length bs) \<Longrightarrow> \<exists>p2. b p1 = Some (OK, p2) \<and> wrote p1 bs p2"
  shows "\<exists>p2. and_then (writeInt32 env (int m) p) b = Some (OK, p2) \<and> wrote p (enc_len m @ bs) p2"
proof (rule wrote_then)
  show "\<exists>p1. writeInt32 env (int m) p = Some (OK, p1) \<and> wrote p (enc_len m) p1"
    using write_len_wrote [OF assms(1,2) _ assms(4)] assms(3) by simp
  fix p1 assume w: "wrote p (enc_len m) p1"
  have "fits p1 (length bs)" using fits_after [OF _ w refl, of "length bs"] assms(3) by simp
  with w show "\<exists>p2. b p1 = Some (OK, p2) \<and> wrote p1 bs p2" by (intro assms(5) wrote_ready)
qed

lemma read_terminated_ahead:
  assumes "0 < w" "length bs = n * w" "n < INT32_MAX" "ahead p (enc_len n @ pad4 (bs @ replicate w 0))"
  shows "\<exists>p'. read_terminated w p = Some (Some bs, p') \<and>
    advanced p (length (enc_len n @ pad4 (bs @ replicate w 0))) p'"
proof -
  let ?bs = "bs @ replicate w 0"
  obtain p1 where p1: "readInt32_or_0 p = Some (int n, p1)" "advanced p 4 p1"
    using read_len_ahead(2) [OF ahead_split(1) [OF assms(4)]] assms(3) by auto
  have a: "ahead p1 (pad4 ?bs)" using ahead_split(2) [OF assms(4)] p1(2) by simp
  have len: "(n + 1) * w = length ?bs" using assms(2) by simp
  let ?p2 = "p1\<lparr>p_pos := p_pos p1 + length (pad4 ?bs)\<rparr>"
  have "fetch (p_pos p1) (length ?bs) ?p2 = Some ?bs"
    using readInplace_ahead(2) [OF a, where h = "p_hint p1" and s = "p_sorted p1"] by simp
  then have "read_terminated w p = Some (Some bs, ?p2)"
    using assms(2,3) unfolding read_terminated_def p1(1) option.case prod.case nat_int len readInplace_ahead(1) [OF a] sum.case
    by (simp add: list_all_iff)
  moreover have "advanced p (4 + length (pad4 ?bs)) ?p2" by (rule advanced_trans [OF p1(2) advanced_pos])
  ultimately show ?thesis by simp
qed

definition enc_string8 :: "nat list \<Rightarrow> nat list" where
  "enc_string8 s = enc_len (length s) @ pad4 (s @ [0])"

definition enc_string16 :: "nat list \<Rightarrow> nat list" where
  "enc_string16 s = enc_len (length s) @ pad4 (units16 (s @ [0]))"

lemma length_units16 [simp]: "length (units16 us) = 2 * length us"
  by (induction us) (simp_all add: units16_def)

lemma units16_append: "units16 (us @ vs) = units16 us @ units16 vs"
  by (simp add: units16_def)

lemma units16_zero: "units16 [0] = replicate 2 0"
  by (simp add: units16_def numeral_2_eq_2)

lemma units_of_units16 [simp]: "list_all (\<lambda>u. u < 2 ^ 16) us \<Longrightarrow> units_of (units16 us) = us"
proof (induction us)
  case (Cons u us)
  then have "u div 256 mod 256 = u div 256" by auto
  with Cons show ?case by (simp add: units16_def le_bytes_2)
qed (simp add: units16_def)

interpretation string8: codec "\<lambda>env s. writeString8 env (Some s)" readString8 enc_string8 "\<lambda>s. length s < INT32_MAX"
proof
  fix s :: "nat list" and p env assume s: "length s < INT32_MAX"
  show "enc_string8 s \<noteq> []" by (simp add: enc_string8_def)
  show "\<exists>p'. writeString8 env (Some s) p = Some (OK, p') \<and> wrote p (enc_string8 s) p'"
    if "plentiful env" "ready p" "fits p (length (enc_string8 s))"
    using len_then_wrote [OF that(1,2), of "length s" "pad4 (s @ [0])"] put_inplace_wrote [OF that(1)] that(3) s
    by (simp add: writeString8_def enc_string8_def)
  show "\<exists>p'. readString8 p = Some (Inr s, p') \<and> advanced p (length (enc_string8 s)) p'" if "ahead p (enc_string8 s)"
    using read_terminated_ahead [of 1 s "length s" p] s that
    by (auto simp: enc_string8_def readString8_def readString8Inplace_def or_null_def)
qed

lemma readString16_ahead:
  assumes "list_all (\<lambda>u. u < 2 ^ 16) s" "length s < INT32_MAX" "ahead p (enc_string16 s)"
  shows "\<exists>p'. readString16Inplace p = Some (Some s, p') \<and> advanced p (length (enc_string16 s)) p'"
  using read_terminated_ahead [of 2 "units16 s" "length s" p] assms
  by (auto simp: enc_string16_def readString16Inplace_def units16_append units16_zero)

definition valid_string16 :: "nat list \<Rightarrow> bool" where
  "valid_string16 s \<longleftrightarrow> list_all (\<lambda>u. u < 2 ^ 16) s \<and> length s < INT32_MAX"

interpretation string16: codec "\<lambda>env s. writeString16 env (Some s)" readString16 enc_string16 valid_string16
proof
  fix s :: "nat list" and p env assume s: "valid_string16 s"
  show "enc_string16 s \<noteq> []" by (simp add: enc_string16_def)
  show "\<exists>p'. writeString16 env (Some s) p = Some (OK, p') \<and> wrote p (enc_string16 s) p'"
    if "plentiful env" "ready p" "fits p (length (enc_string16 s))"
    using len_then_wrote [OF that(1,2), of "length s" "pad4 (units16 (s @ [0]))"] put_inplace_wrote [OF that(1)] that(3) s
    by (simp add: writeString16_def enc_string16_def valid_string16_def)
  show "\<exists>p'. readString16 p = Some (Inr s, p') \<and> advanced p (length (enc_string16 s)) p'" if "ahead p (enc_string16 s)"
    using readString16_ahead [of s p] s that by (auto simp: readString16_def or_null_def valid_string16_def)
qed

text \<open>A \<open>std::string\<close> of well-formed UTF-8.\<close>

definition valid_utf8 :: "nat list \<Rightarrow> bool" where
  "valid_utf8 s \<longleftrightarrow> (\<exists>cs. list_all scalar cs \<and> s = utf8_of cs) \<and> length s < INT32_MAX"

definition enc_string :: "nat list \<Rightarrow> nat list" where
  "enc_string s = (case String16_from_utf8 s of None \<Rightarrow> [] | Some us \<Rightarrow> enc_string16 us)"

lemma utf16_of_units: "list_all scalar cs \<Longrightarrow> list_all (\<lambda>u. u < 2 ^ 16) (utf16_of cs)"
  using encode16_units by (induction cs) (auto simp: list_all_iff)

lemma enc_string_of:
  assumes "list_all scalar cs" "length (utf8_of cs) < INT32_MAX"
  shows "enc_string (utf8_of cs) = enc_string16 (utf16_of cs)"
  using String16_from_utf8_of [OF assms(1)] assms(2) by (simp add: enc_string_def INT32_MAX_def)

lemma writeUtf8AsUtf16_wrote:
  assumes "list_all scalar cs" "length (utf8_of cs) < INT32_MAX" "plentiful env" "ready p"
    "fits p (length (enc_string16 (utf16_of cs)))"
  shows "\<exists>p'. writeUtf8AsUtf16 env (utf8_of cs) p = Some (OK, p') \<and> wrote p (enc_string16 (utf16_of cs)) p'"
proof -
  let ?us = "utf16_of cs" and ?n = "length (utf16_of cs)"
  have n: "utf8_to_utf16_length (utf8_of cs) = int ?n"
    using utf16_measure_of [OF assms(1), of 0] by (simp add: utf8_to_utf16_length_def)
  have small: "?n < INT32_MAX" using utf16_of_shorter [OF assms(1)] assms(2) by simp
  have conv: "utf8_to_utf16 (utf8_of cs) (?n + 1) = Some ?us"
    using utf16_convert_of [OF assms(1), of 0] small assms(1) utf16_of_shorter [OF assms(1)]
    by (cases cs) (auto simp: utf8_to_utf16_def utf8_to_utf16_no_null_terminator_def INT32_MAX_def utf16_convert.simps [of "[]"]
        encode16_def split: if_splits)
  have put: "\<exists>p2. (case writeInplace env ((?n + 1) * 2) p1 of
        None \<Rightarrow> None
      | Some (None, p2) \<Rightarrow> Some (NO_MEMORY, p2)
      | Some (Some off, p2) \<Rightarrow> map_option (Pair OK) (poke off (units16 (?us @ [0])) p2)) = Some (OK, p2) \<and>
      wrote p1 (pad4 (units16 (?us @ [0]))) p2"
    if "ready p1" "fits p1 (length (pad4 (units16 (?us @ [0]))))" for p1
  proof -
    have ne: "units16 (?us @ [0]) \<noteq> [] \<or> p_alloc p1" by (simp add: units16_def)
    from writeInplace_put [OF assms(3) that ne] obtain q q' where
      "writeInplace env (length (units16 (?us @ [0]))) p1 = Some (Some (p_pos p1), q)"
      "poke (p_pos p1) (units16 (?us @ [0])) q = Some q'" "wrote p1 (pad4 (units16 (?us @ [0]))) q'" by metis
    then show ?thesis by (simp add: mult.commute)
  qed
  have "\<exists>p2. and_then (writeInt32 env (int ?n) p) (\<lambda>p1. case writeInplace env ((?n + 1) * 2) p1 of
        None \<Rightarrow> None
      | Some (None, p2) \<Rightarrow> Some (NO_MEMORY, p2)
      | Some (Some off, p2) \<Rightarrow> map_option (Pair OK) (poke off (units16 (?us @ [0])) p2)) = Some (OK, p2) \<and>
      wrote p (enc_len ?n @ pad4 (units16 (?us @ [0]))) p2"
    using assms(3-5) small put by (intro len_then_wrote) (simp_all add: enc_string16_def)
  then show ?thesis using small unfolding writeUtf8AsUtf16_def n Let_def nat_int conv option.case enc_string16_def by simp
qed

lemma readUtf8FromUtf16_ahead:
  assumes "list_all scalar cs" "length (utf8_of cs) < INT32_MAX" "ahead p (enc_string16 (utf16_of cs))"
  shows "\<exists>p'. readUtf8FromUtf16 p = Some (Inr (utf8_of cs), p') \<and> advanced p (length (enc_string16 (utf16_of cs))) p'"
proof -
  have small: "length (utf16_of cs) < INT32_MAX" using utf16_of_shorter [OF assms(1)] assms(2) by simp
  from readString16_ahead [OF utf16_of_units [OF assms(1)] small assms(3)] obtain p' where
    p': "readString16Inplace p = Some (Some (utf16_of cs), p')" "advanced p (length (enc_string16 (utf16_of cs))) p'" by blast
  have "readUtf8FromUtf16 p = Some (Inr (utf8_of cs), p')"
  proof (cases "cs = []")
    case True
    with p'(1) show ?thesis by (simp add: readUtf8FromUtf16_def or_null_def)
  next
    case False
    with utf_nonempty [OF assms(1)] p'(1) utf8_measure_of [OF assms(1), of 0] assms(2)
      utf8_convert_of [OF assms(1), of 0]
    show ?thesis
      by (simp add: readUtf8FromUtf16_def or_null_def utf16_to_utf8_length_def utf16_to_utf8_def INT32_MAX_def Let_def nat_add_distrib)
  qed
  with p'(2) show ?thesis by blast
qed

interpretation utf8: codec writeUtf8AsUtf16 readUtf8FromUtf16 enc_string valid_utf8
proof
  fix s :: "nat list" and p env assume "valid_utf8 s"
  then obtain cs where cs: "list_all scalar cs" "s = utf8_of cs" "length (utf8_of cs) < INT32_MAX"
    by (auto simp: valid_utf8_def)
  note e = enc_string_of [OF cs(1,3)]
  show "enc_string s \<noteq> []" by (simp add: cs(2) e enc_string16_def)
  show "\<exists>p'. writeUtf8AsUtf16 env s p = Some (OK, p') \<and> wrote p (enc_string s) p'"
    if "plentiful env" "ready p" "fits p (length (enc_string s))"
    using writeUtf8AsUtf16_wrote [OF cs(1,3) that(1,2)] that(3) by (simp add: cs(2) e)
  show "\<exists>p'. readUtf8FromUtf16 p = Some (Inr s, p') \<and> advanced p (length (enc_string s)) p'" if "ahead p (enc_string s)"
    using readUtf8FromUtf16_ahead [OF cs(1,3)] that by (simp add: cs(2) e)
qed


subsection \<open>Every type\<close>

definition enc_elems :: "ptype \<Rightarrow> (pvalue \<Rightarrow> nat list) \<Rightarrow> pvalue list \<Rightarrow> nat list" where
  "enc_elems t f vs =
     (case array_width t of
        Some w \<Rightarrow> pad4 (concat (map (elem_bytes w) vs))
      | None \<Rightarrow> if t = TBool \<or> t = TChar16 then pad4 (concat (map (elem_bytes 4) vs)) else concat (map f vs))"

primrec enc_data :: "ptype \<Rightarrow> pvalue \<Rightarrow> nat list" where
  "enc_data TBool v = le_bytes 4 (u32 (int_of v))"
| "enc_data TInt8 v = le_bytes 4 (u32 (int_of v))"
| "enc_data TUint8 v = le_bytes 4 (u32 (signed 8 (nat (int_of v mod 2 ^ 8))))"
| "enc_data TChar16 v = le_bytes 4 (u32 (int (nat (int_of v))))"
| "enc_data TInt32 v = le_bytes 4 (u32 (int_of v))"
| "enc_data TUint32 v = le_bytes 4 (u32 (int_of v))"
| "enc_data TInt64 v = le_bytes 8 (u64 (int_of v))"
| "enc_data TUint64 v = le_bytes 8 (u64 (int_of v))"
| "enc_data TString16 v = (case v of VStr s \<Rightarrow> enc_string16 s | _ \<Rightarrow> [])"
| "enc_data TString v = (case v of VStr s \<Rightarrow> enc_string s | _ \<Rightarrow> [])"
| "enc_data (TVector t) v = (case v of VVec vs \<Rightarrow> enc_len (length vs) @ enc_elems t (enc_data t) vs | _ \<Rightarrow> [])"
| "enc_data (TNullable t) v =
     (case v of VOpt None \<Rightarrow> le_bytes 4 (u32 (-1)) | VOpt (Some u) \<Rightarrow> enc_data t u | _ \<Rightarrow> [])"

fun is_int :: "pvalue \<Rightarrow> (int \<Rightarrow> bool) \<Rightarrow> bool" where
  "is_int (VInt v) P = P v"
| "is_int _ P = False"

primrec valid_data :: "ptype \<Rightarrow> pvalue \<Rightarrow> bool" where
  "valid_data TBool v = (case v of VBool _ \<Rightarrow> True | _ \<Rightarrow> False)"
| "valid_data TInt8 v = is_int v (in_int 8)"
| "valid_data TUint8 v = is_int v (\<lambda>i. 0 \<le> i \<and> i < 2 ^ 8)"
| "valid_data TChar16 v = is_int v (\<lambda>i. 0 \<le> i \<and> i < 2 ^ 16)"
| "valid_data TInt32 v = is_int v (in_int 32)"
| "valid_data TUint32 v = is_int v (\<lambda>i. 0 \<le> i \<and> i < 2 ^ 32)"
| "valid_data TInt64 v = is_int v (in_int 64)"
| "valid_data TUint64 v = is_int v (\<lambda>i. 0 \<le> i \<and> i < 2 ^ 64)"
| "valid_data TString16 v = (case v of VStr s \<Rightarrow> valid_string16 s | _ \<Rightarrow> False)"
| "valid_data TString v = (case v of VStr s \<Rightarrow> valid_utf8 s | _ \<Rightarrow> False)"
| "valid_data (TVector t) v = (case v of VVec vs \<Rightarrow> length vs \<le> INT32_MAX \<and> list_all (valid_data t) vs | _ \<Rightarrow> False)"
| "valid_data (TNullable t) v =
     (nullable t \<and> (case v of VOpt None \<Rightarrow> True | VOpt (Some u) \<Rightarrow> valid_data t u | _ \<Rightarrow> False))"

lemma is_intE: "is_int v P \<Longrightarrow> (\<And>i. v = VInt i \<Longrightarrow> P i \<Longrightarrow> Q) \<Longrightarrow> Q"
  by (cases v) auto

lemma codec_eq:
  assumes "codec w r e v" "\<And>env x p. w' env x p = w env x p" "\<And>p. r' p = r p" "\<And>x. e' x = e x"
  shows "codec w' r' e' v"
proof -
  have "w' = w" "r' = r" "e' = e" using assms(2-4) by (auto simp: fun_eq_iff)
  with assms(1) show ?thesis by simp
qed

text \<open>The scalar types come through the codecs of the integers.\<close>

lemma scalar_codecs:
  "codec (\<lambda>env. writeData env TBool) (readData TBool) (enc_data TBool) (valid_data TBool)"
  "codec (\<lambda>env. writeData env TInt8) (readData TInt8) (enc_data TInt8) (valid_data TInt8)"
  "codec (\<lambda>env. writeData env TInt32) (readData TInt32) (enc_data TInt32) (valid_data TInt32)"
  "codec (\<lambda>env. writeData env TInt64) (readData TInt64) (enc_data TInt64) (valid_data TInt64)"
  "codec (\<lambda>env. writeData env TUint32) (readData TUint32) (enc_data TUint32) (valid_data TUint32)"
  "codec (\<lambda>env. writeData env TUint64) (readData TUint64) (enc_data TUint64) (valid_data TUint64)"
proof -
  have eq: "map_reading VBool (map_reading f r) = map_reading (\<lambda>v. VBool (f v)) r" for f and r :: "int reading"
    by (auto simp: map_reading_def read_then_def split: option.splits sum.splits)
  have "codec (\<lambda>env v. writeInt32 env (int_of v)) (\<lambda>p. map_reading (\<lambda>i. VBool (i \<noteq> 0)) (readInt32 p))
      (\<lambda>v. le_bytes 4 (u32 (int_of v))) (valid_data TBool)"
    by (rule int32.through) (auto simp: in_int_def split: pvalue.splits)
  then show "codec (\<lambda>env. writeData env TBool) (readData TBool) (enc_data TBool) (valid_data TBool)"
    by (rule codec_eq) (simp_all add: readBool_def eq)
  have "codec (\<lambda>env v. writeByte env (int_of v)) (\<lambda>p. map_reading VInt (readByte p))
      (\<lambda>v. le_bytes 4 (u32 (int_of v))) (valid_data TInt8)"
    by (rule byte.through) (auto elim: is_intE)
  then show "codec (\<lambda>env. writeData env TInt8) (readData TInt8) (enc_data TInt8) (valid_data TInt8)"
    by (rule codec_eq) simp_all
  have "codec (\<lambda>env v. writeInt32 env (int_of v)) (\<lambda>p. map_reading VInt (readInt32 p))
      (\<lambda>v. le_bytes 4 (u32 (int_of v))) (valid_data TInt32)"
    by (rule int32.through) (auto elim: is_intE)
  then show "codec (\<lambda>env. writeData env TInt32) (readData TInt32) (enc_data TInt32) (valid_data TInt32)"
    by (rule codec_eq) simp_all
  have "codec (\<lambda>env v. writeInt64 env (int_of v)) (\<lambda>p. map_reading VInt (readInt64 p))
      (\<lambda>v. le_bytes 8 (u64 (int_of v))) (valid_data TInt64)"
    by (rule int64.through) (auto elim: is_intE)
  then show "codec (\<lambda>env. writeData env TInt64) (readData TInt64) (enc_data TInt64) (valid_data TInt64)"
    by (rule codec_eq) simp_all
  have "codec (\<lambda>env v. writeAligned env 4 (u32 (int_of v))) (\<lambda>p. map_reading (\<lambda>v. VInt (int v)) (readAligned 4 p))
      (\<lambda>v. le_bytes 4 (u32 (int_of v))) (valid_data TUint32)"
    by (rule aligned4.through) (auto elim!: is_intE simp: u32_def)
  then show "codec (\<lambda>env. writeData env TUint32) (readData TUint32) (enc_data TUint32) (valid_data TUint32)"
    by (rule codec_eq) (simp_all add: readUint32_def)
  have "codec (\<lambda>env v. writeAligned env 8 (u64 (int_of v))) (\<lambda>p. map_reading (\<lambda>v. VInt (int v)) (readAligned 8 p))
      (\<lambda>v. le_bytes 8 (u64 (int_of v))) (valid_data TUint64)"
    by (rule aligned8.through) (auto elim!: is_intE simp: u64_def)
  then show "codec (\<lambda>env. writeData env TUint64) (readData TUint64) (enc_data TUint64) (valid_data TUint64)"
    by (rule codec_eq) (simp_all add: readUint64_def)
qed

lemma unsigned_of_signed: "0 \<le> i \<Longrightarrow> i < 2 ^ 8 \<Longrightarrow> in_int 8 (signed 8 (nat (i mod 2 ^ 8))) \<and> signed 8 (nat (i mod 2 ^ 8)) mod 2 ^ 8 = i"
  by (auto simp: in_int_def signed_def)

lemma small_codecs:
  "codec (\<lambda>env. writeData env TUint8) (readData TUint8) (enc_data TUint8) (valid_data TUint8)"
  "codec (\<lambda>env. writeData env TChar16) (readData TChar16) (enc_data TChar16) (valid_data TChar16)"
proof -
  have "codec (\<lambda>env v. writeByte env (signed 8 (nat (int_of v mod 2 ^ 8)))) (\<lambda>p. map_reading (\<lambda>v. VInt (v mod 2 ^ 8)) (readByte p))
      (\<lambda>v. le_bytes 4 (u32 (signed 8 (nat (int_of v mod 2 ^ 8))))) (valid_data TUint8)"
    by (rule byte.through) (use unsigned_of_signed in \<open>auto elim!: is_intE\<close>)
  then show "codec (\<lambda>env. writeData env TUint8) (readData TUint8) (enc_data TUint8) (valid_data TUint8)"
    by (rule codec_eq) simp_all
  have "codec (\<lambda>env v. writeChar env (nat (int_of v))) (\<lambda>p. map_reading (\<lambda>c. VInt (int c)) (readChar p))
      (\<lambda>v. le_bytes 4 (u32 (int (nat (int_of v))))) (valid_data TChar16)"
    by (rule char.through) (auto elim!: is_intE)
  then show "codec (\<lambda>env. writeData env TChar16) (readData TChar16) (enc_data TChar16) (valid_data TChar16)"
    by (rule codec_eq) simp_all
qed

text \<open>Arrays of fixed-width elements.\<close>

lemma length_elems: "length (concat (map (elem_bytes w) vs)) = w * length vs"
  by (induction vs) (simp_all add: elem_bytes_def)

lemma split_elems_concat:
  "split_elems w (length vs) (concat (map (elem_bytes w) vs) @ rest) = map (\<lambda>v. nat (int_of v mod 2 ^ (8 * w))) vs"
proof (induction vs)
  case (Cons v vs)
  have "int_of v mod 2 ^ (8 * w) < 2 ^ (8 * w)" by simp
  then have "nat (int_of v mod 2 ^ (8 * w)) < 2 ^ (8 * w)" by (simp add: nat_less_iff)
  also have "(2 :: nat) ^ (8 * w) = 256 ^ w" by (simp add: power_mult)
  finally show ?case using Cons by (simp add: elem_bytes_def)
qed simp

lemma read_array_ahead:
  assumes "ahead p (pad4 (concat (map (elem_bytes w) vs)))" "\<And>v. v \<in> set vs \<Longrightarrow> f (nat (int_of v mod 2 ^ (8 * w))) = v"
  shows "\<exists>p'. read_array (length vs) w f p = Some (Inr vs, p') \<and> advanced p (length (pad4 (concat (map (elem_bytes w) vs)))) p'"
proof -
  let ?bs = "concat (map (elem_bytes w) vs)"
  have l: "length vs * w = length ?bs" by (simp add: length_elems)
  let ?p' = "p\<lparr>p_pos := p_pos p + length (pad4 ?bs)\<rparr>"
  have "fetch (p_pos p) (length ?bs) ?p' = Some ?bs"
    using readInplace_ahead(2) [OF assms(1), where h = "p_hint p" and s = "p_sorted p"] by simp
  moreover have "map f (split_elems w (length vs) ?bs) = vs"
    using split_elems_concat [of w vs "[]"] assms(2) by (simp add: map_idI)
  ultimately have "read_array (length vs) w f p = Some (Inr vs, ?p')"
    unfolding read_array_def l readInplace_ahead(1) [OF assms(1)] read_then_simps by simp
  then show ?thesis using advanced_pos by blast
qed

text \<open>A valid element survives its width.\<close>

lemma elem_value_valid:
  assumes "array_width t = Some w" "valid_data t v"
  shows "elem_value t w (nat (int_of v mod 2 ^ (8 * w))) = v"
  using assms signed_of_unsigned [of 8] signed_of_unsigned [of 32] signed_of_unsigned [of 64]
  by (cases t) (auto elim!: is_intE simp: elem_value_def in_int_def)

lemma narrow_valid:
  "valid_data TBool v \<Longrightarrow> VBool (nat (int_of v mod 2 ^ (8 * 4)) \<noteq> 0) = v"
  "valid_data TChar16 v \<Longrightarrow> VInt (int (nat (int_of v mod 2 ^ (8 * 4)) mod 2 ^ 16)) = v"
  by (auto elim!: is_intE split: pvalue.splits simp: nat_mod_distrib)

lemma array_width_cases: "array_width t = Some w \<Longrightarrow> w = 1 \<or> w = 4 \<or> w = 8"
  by (cases t) auto

lemma write_elems_wrote:
  assumes c: "array_width t = None \<Longrightarrow> codec (\<lambda>env. writeData env t) (readData t) (enc_data t) (valid_data t)"
    and "plentiful env" "ready p" "list_all (valid_data t) vs" "length vs \<le> INT32_MAX"
    "fits p (length (enc_data (TVector t) (VVec vs)))"
  shows "\<exists>p'. write_vector env t (writeData env t) vs p = Some (OK, p') \<and> wrote p (enc_data (TVector t) (VVec vs)) p'"
proof -
  have f4: "fits p (4 + 0)" using fits_less [OF assms(6)] by simp
  obtain p1 where p1: "writeInt32 env (int (length vs)) p = Some (OK, p1)" "wrote p (enc_len (length vs)) p1"
    using write_len_wrote [OF assms(2,3) f4 assms(5)] by blast
  have r: "ready p1" "p_alloc p1" using p1(2) by (auto simp: wrote_def)
  have fits1: "fits p1 (length (enc_elems t (enc_data t) vs))"
    using fits_after [OF _ p1(2) refl, of "length (enc_elems t (enc_data t) vs)"] assms(6) by simp
  have "\<exists>p2. write_vector env t (writeData env t) vs p = Some (OK, p2) \<and> wrote p1 (enc_elems t (enc_data t) vs) p2"
  proof (cases "array_width t")
    case (Some w)
    let ?bs = "concat (map (elem_bytes w) vs)"
    have e: "enc_elems t (enc_data t) vs = pad4 ?bs" by (simp add: enc_elems_def Some)
    have "length ?bs \<le> INT32_MAX"
      using fits_small(1) [OF fits1] pad_ge [of "length ?bs"] by (simp add: e length_pad4)
    then have "parcel_write env ?bs p1 = put_inplace env ?bs p1" by (rule parcel_write_eq)
    moreover have "\<not> length vs > SIZE_MAX div w"
      using array_width_cases [OF Some] assms(5) by (auto simp: SIZE_MAX_def INT32_MAX_def)
    ultimately show ?thesis
      using put_inplace_wrote [OF assms(2) r(1), of ?bs] fits1 assms(5) p1(1) by (simp add: write_vector_def Some e)
  next
    case None
    show ?thesis
    proof (cases "t = TBool \<or> t = TChar16")
      case True
      let ?bs = "concat (map (elem_bytes 4) vs)"
      have e: "enc_elems t (enc_data t) vs = pad4 ?bs" using True by (simp add: enc_elems_def None)
      have f: "fits p1 (length (pad4 ?bs))" using fits1 by (simp add: e)
      have ne: "?bs \<noteq> [] \<or> p_alloc p1" using r(2) by simp
      from writeInplace_put [OF assms(2) r(1) f ne] obtain q q' where
        "writeInplace env (length ?bs) p1 = Some (Some (p_pos p1), q)" "poke (p_pos p1) ?bs q = Some q'"
        "wrote p1 (pad4 ?bs) q'" by metis
      with True assms(5) p1(1) show ?thesis by (simp add: write_vector_def None e length_elems)
    next
      case False
      have e: "enc_elems t (enc_data t) vs = concat (map (enc_data t) vs)" using False by (simp add: enc_elems_def None)
      from codec.writes_each [OF c [OF None] assms(2,4) r(1)] fits1 obtain p2 where
        "write_each (writeData env t) vs p1 = Some (OK, p2)" "wrote p1 (concat (map (enc_data t) vs)) p2" by (auto simp: e)
      with False assms(5) p1(1) show ?thesis by (simp add: write_vector_def None e)
    qed
  qed
  with wrote_trans [OF p1(2)] show ?thesis by auto
qed

lemma pad4_ge: "length bs \<le> length (pad4 bs)"
  by (simp add: pad4_def)

lemma elems_ge:
  assumes "array_width t = None \<Longrightarrow> codec (\<lambda>env. writeData env t) (readData t) (enc_data t) (valid_data t)"
    "list_all (valid_data t) vs"
  shows "length vs \<le> length (enc_elems t (enc_data t) vs)"
proof -
  have "length vs \<le> length (concat (map (elem_bytes w) vs))" if "0 < w" for w
    using that by (simp add: length_elems)
  then have "length vs \<le> length (pad4 (concat (map (elem_bytes w) vs)))" if "0 < w" for w
    using that pad4_ge order_trans by blast
  then show ?thesis
    using array_width_cases [of t] codec.count_le [OF assms] by (auto simp: enc_elems_def split: option.splits)
qed

lemma read_vector_ahead:
  assumes c: "array_width t = None \<Longrightarrow> codec (\<lambda>env. writeData env t) (readData t) (enc_data t) (valid_data t)"
    and "list_all (valid_data t) vs" "length vs \<le> INT32_MAX" "ahead p (enc_data (TVector t) (VVec vs))"
  shows "\<exists>p'. read_vector t (readData t) p = Some (Inr vs, p') \<and> advanced p (length (enc_data (TVector t) (VVec vs))) p'"
proof -
  let ?es = "enc_elems t (enc_data t) vs"
  have a0: "ahead p (enc_len (length vs) @ ?es)" using assms(4) by simp
  obtain p1 where p1: "readInt32 p = Some (Inr (int (length vs)), p1)" "advanced p 4 p1"
    using read_len_ahead(1) [OF ahead_split(1) [OF a0] assms(3)] by blast
  have a: "ahead p1 ?es" using ahead_split(2) [OF a0] p1(2) by simp
  have "dataAvail p1 = Some (p_size p1 - p_pos p1)" "length vs \<le> p_size p1 - p_pos p1"
    using a ahead_room(1) [OF a] elems_ge [OF c assms(2)] by (auto simp: dataAvail_def dataSize_def ahead_def readable_def Let_def)
  then have step: "read_vector t (readData t) p =
      (case array_width t of
         Some sz \<Rightarrow> read_array (length vs) sz (elem_value t sz) p1
       | None \<Rightarrow> if t = TBool then read_array (length vs) 4 (\<lambda>x. VBool (x \<noteq> 0)) p1
                 else if t = TChar16 then read_array (length vs) 4 (\<lambda>x. VInt (int (x mod 2 ^ 16))) p1
                 else read_each (readData t) (length vs) p1)"
    unfolding read_vector_def p1(1) read_then_simps nat_int by simp
  have v: "v \<in> set vs \<Longrightarrow> valid_data t v" for v using assms(2) by (simp add: list_all_iff)
  have "\<exists>p'. read_vector t (readData t) p = Some (Inr vs, p') \<and> advanced p1 (length ?es) p'"
  proof (cases "array_width t")
    case (Some w)
    then have "ahead p1 (pad4 (concat (map (elem_bytes w) vs)))" using a by (simp add: enc_elems_def)
    from read_array_ahead [OF this elem_value_valid [OF Some v]] show ?thesis
      unfolding step by (simp add: Some enc_elems_def)
  next
    case None
    show ?thesis
    proof (cases "t = TBool \<or> t = TChar16")
      case True
      then have "ahead p1 (pad4 (concat (map (elem_bytes 4) vs)))" using a by (auto simp: enc_elems_def)
      note array = read_array_ahead [OF this]
      from True show ?thesis
      proof
        assume t: "t = TBool"
        have "VBool (nat (int_of v mod 2 ^ (8 * 4)) \<noteq> 0) = v" if "v \<in> set vs" for v
          using narrow_valid(1) v [OF that] t by blast
        from array [of "\<lambda>x. VBool (x \<noteq> 0)", OF this] show ?thesis
          unfolding step by (simp add: t enc_elems_def)
      next
        assume t: "t = TChar16"
        have "VInt (int (nat (int_of v mod 2 ^ (8 * 4)) mod 2 ^ 16)) = v" if "v \<in> set vs" for v
          using narrow_valid(2) v [OF that] t by blast
        from array [of "\<lambda>x. VInt (int (x mod 2 ^ 16))", OF this] show ?thesis
          unfolding step by (simp add: t enc_elems_def)
      qed
    next
      case False
      with a have "ahead p1 (concat (map (enc_data t) vs))" by (simp add: enc_elems_def None)
      from codec.reads_each [OF c [OF None] assms(2) this] show ?thesis
        unfolding step using False by (simp add: None enc_elems_def)
    qed
  qed
  with advanced_trans [OF p1(2)] show ?thesis by fastforce
qed

text \<open>A nullable value starts with a length, which no null marker equals.\<close>

lemma nullable_prefix:
  assumes "nullable t" "valid_data t u"
  obtains n bs where "enc_data t u = enc_len n @ bs" "n \<le> INT32_MAX"
proof (cases t)
  case TString16
  with assms show ?thesis using that [of "length s" "pad4 (units16 (s @ [0]))" for s]
    by (auto simp: enc_string16_def valid_string16_def split: pvalue.splits)
next
  case TString
  with assms obtain cs where cs: "list_all scalar cs" "u = VStr (utf8_of cs)" "length (utf8_of cs) < INT32_MAX"
    by (auto simp: valid_utf8_def split: pvalue.splits)
  then have "enc_data t u = enc_len (length (utf16_of cs)) @ pad4 (units16 (utf16_of cs @ [0]))"
    by (simp add: TString enc_string_of enc_string16_def)
  moreover have "length (utf16_of cs) \<le> INT32_MAX" using utf16_of_shorter [OF cs(1)] cs(3) by simp
  ultimately show ?thesis by (rule that)
next
  case (TVector t')
  with assms obtain vs where "u = VVec vs" "length vs \<le> INT32_MAX" by (auto split: pvalue.splits)
  then show ?thesis using that TVector by simp
qed (use assms(1) in simp_all)

lemma nullable_codec:
  assumes "codec (\<lambda>env. writeData env t) (readData t) (enc_data t) (valid_data t)" "nullable t"
  shows "codec (\<lambda>env. writeData env (TNullable t)) (readData (TNullable t)) (enc_data (TNullable t)) (valid_data (TNullable t))"
proof
  fix v p env assume v: "valid_data (TNullable t) v"
  have null: "in_int 32 (-1)" by (simp add: in_int_def)
  consider "v = VOpt None" | u where "v = VOpt (Some u)" "valid_data t u"
    using v by (auto split: pvalue.splits option.splits)
  note cases = this
  show "enc_data (TNullable t) v \<noteq> []" using cases codec.encodes [OF assms(1)] by cases auto
  show "\<exists>p'. writeData env (TNullable t) v p = Some (OK, p') \<and> wrote p (enc_data (TNullable t) v) p'"
    if "plentiful env" "ready p" "fits p (length (enc_data (TNullable t) v))"
    using cases int32.writes [OF null that(1,2)] codec.writes [OF assms(1) _ that(1,2)] assms(2) that(3) by cases auto
  show "\<exists>p'. readData (TNullable t) p = Some (Inr v, p') \<and> advanced p (length (enc_data (TNullable t) v)) p'"
    if a: "ahead p (enc_data (TNullable t) v)"
    using cases
  proof cases
    case 1
    with a int32.reads [OF null] assms(2) show ?thesis by fastforce
  next
    case (2 u)
    obtain n bs where n: "enc_data t u = enc_len n @ bs" "n \<le> INT32_MAX" using nullable_prefix [OF assms(2) 2(2)] by metis
    have au: "ahead p (enc_data t u)" using a 2(1) by simp
    obtain p1 where p1: "readInt32 p = Some (Inr (int n), p1)" "advanced p 4 p1"
      using read_len_ahead(1) [OF ahead_split(1) n(2)] au n(1) by metis
    let ?p2 = "p1\<lparr>p_pos := p_pos p, p_hint := 0, p_sorted := False\<rparr>"
    have "setDataPosition (p_pos p) p1 = Some ?p2" using au by (auto simp: setDataPosition_def ahead_def readable_def)
    then have r: "readData (TNullable t) p = map_reading (\<lambda>u. VOpt (Some u)) (readData t ?p2)"
      using p1(1) assms(2) by simp
    obtain h s where e: "?p2 = p\<lparr>p_hint := h, p_sorted := s\<rparr>" using p1(2) by (auto simp: advanced_def)
    then have "ahead ?p2 (enc_data t u)" using au by (simp add: ahead_def readable_def contents_def)
    from codec.reads [OF assms(1) 2(2) this] obtain p3 where
      p3: "readData t ?p2 = Some (Inr u, p3)" "advanced ?p2 (length (enc_data t u)) p3" by blast
    then have "advanced p (length (enc_data t u)) p3" unfolding e by (auto simp: advanced_def)
    with p3(1) r 2(1) show ?thesis by simp
  qed
qed

lemma data_codec: "codec (\<lambda>env. writeData env t) (readData t) (enc_data t) (valid_data t)"
proof (induction t)
  case (TVector t)
  show ?case
  proof
    fix v p env assume "valid_data (TVector t) v"
    then obtain vs where v: "v = VVec vs" "length vs \<le> INT32_MAX" "list_all (valid_data t) vs"
      by (auto split: pvalue.splits)
    show "enc_data (TVector t) v \<noteq> []" by (simp add: v(1))
    show "\<exists>p'. writeData env (TVector t) v p = Some (OK, p') \<and> wrote p (enc_data (TVector t) v) p'"
      if "plentiful env" "ready p" "fits p (length (enc_data (TVector t) v))"
      using write_elems_wrote [OF TVector that(1,2) v(3,2)] that(3) by (simp add: v(1))
    show "\<exists>p'. readData (TVector t) p = Some (Inr v, p') \<and> advanced p (length (enc_data (TVector t) v)) p'"
      if "ahead p (enc_data (TVector t) v)"
      using read_vector_ahead [OF TVector v(3,2)] that by (fastforce simp: v(1))
  qed
next
  case (TNullable t)
  show ?case
  proof (cases "nullable t")
    case True
    with nullable_codec TNullable show ?thesis by blast
  qed (unfold_locales, simp_all)
next
  case TString16
  have "codec (\<lambda>env v. writeString16 env (Some (case v of VStr s \<Rightarrow> s | _ \<Rightarrow> []))) (\<lambda>p. map_reading VStr (readString16 p))
      (\<lambda>v. enc_string16 (case v of VStr s \<Rightarrow> s | _ \<Rightarrow> [])) (valid_data TString16)"
    by (rule string16.through) (auto split: pvalue.splits)
  then show ?case by (auto simp: codec_def split: pvalue.splits)
next
  case TString
  have "codec (\<lambda>env v. writeUtf8AsUtf16 env (case v of VStr s \<Rightarrow> s | _ \<Rightarrow> [])) (\<lambda>p. map_reading VStr (readUtf8FromUtf16 p))
      (\<lambda>v. enc_string (case v of VStr s \<Rightarrow> s | _ \<Rightarrow> [])) (valid_data TString)"
    by (rule utf8.through) (auto split: pvalue.splits)
  then show ?case by (auto simp: codec_def split: pvalue.splits)
qed (rule scalar_codecs small_codecs)+

interpretation data: codec "\<lambda>env. writeData env t" "readData t" "enc_data t" "valid_data t" for t
  by (rule data_codec)


subsection \<open>Integers in a sequence\<close>

definition enc_int :: "int \<Rightarrow> nat list" where
  "enc_int v = le_bytes 4 (u32 v)"

lemma length_enc_int [simp]: "length (enc_int v) = 4" "enc_int v \<noteq> []"
  by (simp_all add: enc_int_def)

lemma int_ahead: "in_int 32 v \<Longrightarrow> ahead p (enc_int v) \<Longrightarrow> \<exists>p'. readInt32 p = Some (Inr v, p') \<and> advanced p 4 p'"
  using int32.reads [of v p] by (simp add: enc_int_def)

lemma int_wrote:
  "in_int 32 v \<Longrightarrow> plentiful env \<Longrightarrow> ready p \<Longrightarrow> fits p 4 \<Longrightarrow> \<exists>p'. writeInt32 env v p = Some (OK, p') \<and> wrote p (enc_int v) p'"
  using int32.writes [of v env p] by (simp add: enc_int_def)

text \<open>A write followed by what is still to be written.\<close>

lemma wrote_rest:
  assumes "fits p (length (as @ bs))" "fits p (length as) \<Longrightarrow> \<exists>p1. a = Some (OK, p1) \<and> wrote p as p1"
    "\<And>p1. ready p1 \<Longrightarrow> fits p1 (length bs) \<Longrightarrow> \<exists>p2. b p1 = Some (OK, p2) \<and> wrote p1 bs p2"
  shows "\<exists>p2. and_then a b = Some (OK, p2) \<and> wrote p (as @ bs) p2"
  using assms fits_after [of p "length as" "length bs" as] fits_less [OF assms(1), of "length as"]
  by (intro wrote_then) (auto dest: wrote_ready)

lemma zero_in_int [simp]: "in_int 32 0"
  by (simp add: in_int_def)

end
