(* ===== verification/Parcel_Props.thy ===== *)
theory Parcel_Props
  imports Parcel_Typed "HOL-Library.Multiset"
begin

text \<open>
  Properties of parcels: typed data comes back as it was written, hostile data cannot make a reader leave the
  buffer, plain reads cannot touch binder objects, and every object written is released exactly once.
\<close>

subsection \<open>Typed data\<close>

text \<open>
  C3. What \<open>writeData\<close> appends at the end of a parcel, \<open>readData\<close> of the same type gives back, for every nesting
  of vectors and nullable values over booleans, integers, characters and strings; the bytes appended are
  exactly the encoding of the value, so nothing that \<open>malloc\<close> left in the buffer leaves the process.
\<close>

theorem readData_writeData:
  assumes "valid_data t v" "plentiful env" "ready p" "p_objects p = []" "fits p (length (enc_data t v))"
  shows "\<exists>p1 p2 p3. writeData env t v p = Some (OK, p1) \<and> contents p1 = contents p @ enc_data t v \<and>
    setDataPosition (p_pos p) p1 = Some p2 \<and> readData t p2 = Some (Inr v, p3) \<and> p_pos p3 = p_pos p1"
  using data.roundtrip [OF assms] .

definition plain_env :: parcel_env where
  "plain_env = \<lparr>e_alloc = \<lambda>k n. Some (replicate n 0xAA), e_dup = \<lambda>k fd. int (fd + k + 100),
     e_ashmem = \<lambda>fd. 0, e_proxy = \<lambda>h. True\<rparr>"

lemma plain_env_plentiful: "plentiful plain_env"
  by (simp add: plentiful_def plain_env_def)

lemma new_parcel_ready: "ready new_parcel" "p_objects new_parcel = []" "p_size new_parcel = 0"
  by (simp_all add: ready_def new_parcel_def)

lemma utf16_measure_cat: "utf16_measure [0x63, 0x61, 0x74] 0 = 3" "utf16_convert [0x63, 0x61, 0x74] 3 = Some [0x63, 0x61, 0x74]"
  by (simp_all add: utf16_measure.simps utf16_convert.simps codepoint_len_table utf8_to_utf32_codepoint_def)

theorem readData_writeData_witness:
  "let t = TVector (TNullable (TVector TInt64)); v = VVec [VOpt None, VOpt (Some (VVec [VInt 7, VInt (-1)])), VOpt (Some (VVec []))]
   in \<exists>p1 p2 p3. writeData plain_env t v new_parcel = Some (OK, p1) \<and> contents p1 = contents new_parcel @ enc_data t v \<and>
    setDataPosition (p_pos new_parcel) p1 = Some p2 \<and> readData t p2 = Some (Inr v, p3) \<and> p_pos p3 = p_pos p1"
proof -
  let ?t = "TVector (TNullable (TVector TInt64))"
  let ?v = "VVec [VOpt None, VOpt (Some (VVec [VInt 7, VInt (-1)])), VOpt (Some (VVec []))]"
  have v: "valid_data ?t ?v" by (simp add: INT32_MAX_def in_int_def)
  have "length (enc_data ?t ?v) = 32" by (simp add: enc_elems_def elem_bytes_def length_pad4 del: le_bytes.simps)
  then have "fits new_parcel (length (enc_data ?t ?v))" by (simp add: fits_def INT32_MAX_def new_parcel_ready)
  from readData_writeData [OF v plain_env_plentiful new_parcel_ready(1,2) this] show ?thesis by (simp only: Let_def)
qed


subsection \<open>Hostile data\<close>

text \<open>Bounds that every parcel keeps.\<close>

definition sane :: "parcel \<Rightarrow> bool" where
  "sane p \<longleftrightarrow> p_size p \<le> length (p_data p) \<and> length (p_data p) \<le> INT32_MAX \<and> p_pos p \<le> INT32_MAX"

definition same_buffer :: "parcel \<Rightarrow> parcel \<Rightarrow> bool" where
  "same_buffer p p' \<longleftrightarrow> p_data p' = p_data p \<and> p_size p' = p_size p \<and> p_alloc p' = p_alloc p"

text \<open>A read that stays inside: it gives an error or a value, and leaves a sane parcel over the same buffer.\<close>

definition safe :: "parcel \<Rightarrow> 'a reading \<Rightarrow> bool" where
  "safe p r \<longleftrightarrow> (\<exists>x p'. r = Some (x, p') \<and> sane p' \<and> same_buffer p p')"

lemma same_buffer_refl [simp]: "same_buffer p p"
  and same_buffer_trans: "same_buffer p q \<Longrightarrow> same_buffer q r \<Longrightarrow> same_buffer p r"
  by (auto simp: same_buffer_def)

lemma safe_then:
  assumes "safe p r" "\<And>v q. r = Some (Inr v, q) \<Longrightarrow> sane q \<Longrightarrow> same_buffer p q \<Longrightarrow> safe q (f v q)"
  shows "safe p (read_then r f)"
proof -
  from assms(1) obtain x q where q: "r = Some (x, q)" "sane q" "same_buffer p q" by (auto simp: safe_def)
  then show ?thesis
    using assms(2) [of _ q] same_buffer_trans [of p q] by (cases x) (auto simp: safe_def)
qed

lemma safe_map: "safe p r \<Longrightarrow> safe p (map_reading f r)"
  unfolding map_reading_def by (rule safe_then) (auto simp: safe_def)

lemma check_objects_frame: "check_objects n p = (err, p1) \<Longrightarrow> p_data p1 = p_data p \<and> p_size p1 = p_size p \<and>
    p_alloc p1 = p_alloc p \<and> p_pos p1 = p_pos p \<and> p_objects p1 = p_objects p"
  by (auto simp: check_objects_def split: option.splits)

lemma permit_frame: "permit n p = (err, p1) \<Longrightarrow> same_buffer p p1 \<and> p_pos p1 = p_pos p + n"
  by (auto simp: permit_def validateReadData_def same_buffer_def split: prod.splits if_splits dest!: check_objects_frame)

lemma readAligned_safe: "sane p \<Longrightarrow> safe p (readAligned k p)"
  by (auto simp: readAligned_def safe_def sane_def fetch_def same_buffer_def split: prod.splits dest!: permit_frame)

lemma readInplace_safe: "sane p \<Longrightarrow> safe p (readInplace len p)"
  by (auto simp: readInplace_def safe_def sane_def same_buffer_def pad_size_eq split: prod.splits if_splits dest!: permit_frame)

lemma readInplace_within:
  assumes "sane p" "readInplace len p = Some (Inr off, q)"
  shows "off + len \<le> length (p_data q)"
  using assms pad_ge [of len]
  by (auto simp: readInplace_def sane_def same_buffer_def pad_size_eq split: prod.splits if_splits dest!: permit_frame)

lemma readInt32_safe: "sane p \<Longrightarrow> safe p (readInt32 p)"
  by (simp add: readInt32_def safe_map readAligned_safe)

lemma readInt32_or_0_safe:
  assumes "sane p"
  shows "\<exists>n p1. readInt32_or_0 p = Some (n, p1) \<and> sane p1 \<and> same_buffer p p1"
proof -
  from readInt32_safe [OF assms] obtain x p1 where "readInt32 p = Some (x, p1)" "sane p1" "same_buffer p p1"
    by (auto simp: safe_def)
  then show ?thesis by (cases x) (auto simp: readInt32_or_0_def)
qed

lemma read_terminated_safe:
  assumes "sane p"
  shows "safe p (or_null (read_terminated w p))"
proof -
  from readInt32_or_0_safe [OF assms] obtain n p1 where
    p1: "readInt32_or_0 p = Some (n, p1)" "sane p1" "same_buffer p p1" by blast
  from readInplace_safe [OF p1(2), of "(nat n + 1) * w"] obtain x p2 where
    p2: "readInplace ((nat n + 1) * w) p1 = Some (x, p2)" "sane p2" "same_buffer p1 p2" by (auto simp: safe_def)
  show ?thesis
  proof (cases "n \<ge> 0 \<and> n < int INT32_MAX")
    case n: True
    show ?thesis
    proof (cases x)
      case (Inl err)
      with n p1(1) p2 same_buffer_trans [OF p1(3) p2(3)] show ?thesis by (simp add: safe_def or_null_def read_terminated_def)
    next
      case (Inr off)
      then have "fetch off ((nat n + 1) * w) p2 = Some (peek off ((nat n + 1) * w) p2)"
        using readInplace_within [OF p1(2)] p2(1) by (simp only: fetch_def if_True)
      with n Inr p1(1) p2 same_buffer_trans [OF p1(3) p2(3)] show ?thesis
        by (simp add: safe_def or_null_def read_terminated_def)
    qed
  next
    case False
    with p1 show ?thesis by (auto simp: safe_def or_null_def read_terminated_def)
  qed
qed

text \<open>Any UTF-16, lone surrogates included, fits the buffer that was measured for it.\<close>

lemma utf8_measure_ge: "utf8_measure us m = n \<Longrightarrow> 0 \<le> n \<Longrightarrow> int m \<le> n"
  by (induction us m rule: utf8_measure.induct) (force simp: Let_def split: if_splits)+

lemma surrogate_pair_len:
  assumes "is_pair u v" "u < 2 ^ 16" "v < 2 ^ 16"
  shows "utf32_codepoint_utf8_length ((push_bit 10 (u - 0xD800) OR (v - 0xDC00)) + 0x10000) = 4"
proof -
  from assms have uv: "u div 1024 = 54" "v div 1024 = 55" by (simp_all add: is_pair_iff)
  then have "v - 0xDC00 < 2 ^ 10" "u - 0xD800 < 2 ^ 10" by auto
  then have "push_bit 10 (u - 0xD800) OR (v - 0xDC00) < 2 ^ 20" by (subst shift_or) auto
  then show ?thesis by (simp add: length_defs)
qed

lemma put_codepoint_fits:
  assumes "\<exists>bs. rest room = Some bs"
  shows "\<exists>bs. put_codepoint c (utf32_codepoint_utf8_length c + room) rest = Some bs"
  using assms by (auto simp: put_codepoint_def Let_def)

lemma utf8_measured_converts:
  "list_all (\<lambda>u. u < 2 ^ 16) us \<Longrightarrow> utf8_measure us m = int (m + n) \<Longrightarrow> \<exists>bs. utf8_convert us (n + 1) = Some bs"
proof (induction us m arbitrary: n rule: utf8_measure.induct)
  case (2 u ret)
  then have "n = utf32_codepoint_utf8_length u" by (auto simp: Let_def split: if_splits)
  then show ?case using put_codepoint_fits [of "\<lambda>r. if r < 1 then None else Some []" 1 u] by simp
next
  case (3 u v us ret)
  show ?case
  proof (cases "is_pair u v")
    case True
    with "3.prems" have m: "utf8_measure us (ret + 4) = int (ret + n)" "\<not> 2 ^ 63 - 1 - 4 < ret" by (auto split: if_splits)
    with utf8_measure_ge [OF m(1)] have "ret + 4 \<le> ret + n" by linarith
    then obtain k where k: "n = 4 + k" using le_Suc_ex by auto
    have c: "\<exists>bs. utf8_convert us (k + 1) = Some bs"
      using "3.IH"(1) [OF True m(2), of k] "3.prems"(1) m(1) k by (simp add: add.assoc)
    show ?thesis
      using put_codepoint_fits [of "utf8_convert us" "k + 1", OF c, of "(push_bit 10 (u - 0xD800) OR (v - 0xDC00)) + 0x10000"]
        surrogate_pair_len [OF True] "3.prems"(1) by (simp add: True k add.assoc)
  next
    case False
    let ?l = "utf32_codepoint_utf8_length u"
    from False "3.prems" have m: "utf8_measure (v # us) (ret + ?l) = int (ret + n)" "\<not> 2 ^ 63 - 1 - ?l < ret"
      by (auto simp: Let_def split: if_splits)
    with utf8_measure_ge [OF m(1)] have "ret + ?l \<le> ret + n" by linarith
    then obtain k where k: "n = ?l + k" using le_Suc_ex by auto
    have c: "\<exists>bs. utf8_convert (v # us) (k + 1) = Some bs"
      using "3.IH"(2) [OF False refl m(2), of k] "3.prems"(1) m(1) k by (simp add: add.assoc)
    show ?thesis using put_codepoint_fits [of "utf8_convert (v # us)" "k + 1", OF c, of u] by (simp add: False k add.assoc)
  qed
qed simp

lemma units_of_units: "list_all (\<lambda>b. b < 256) bs \<Longrightarrow> list_all (\<lambda>u. u < 2 ^ 16) (units_of bs)"
  by (induction bs rule: units_of.induct) auto

lemma peek_bytes: "list_all (\<lambda>b. b < 256) (p_data p) \<Longrightarrow> list_all (\<lambda>b. b < 256) (peek off n p)"
  by (auto simp: peek_def list_all_iff dest!: in_set_takeD in_set_dropD)

lemma readString16_units:
  assumes "readString16Inplace p = Some (Some us, p')" "sane p" "list_all (\<lambda>b. b < 256) (p_data p)"
  shows "list_all (\<lambda>u. u < 2 ^ 16) us"
proof -
  from readInt32_or_0_safe [OF assms(2)] obtain n p1 where
    p1: "readInt32_or_0 p = Some (n, p1)" "sane p1" "same_buffer p p1" by blast
  from readInplace_safe [OF p1(2), of "(nat n + 1) * 2"] obtain x p2 where
    p2: "readInplace ((nat n + 1) * 2) p1 = Some (x, p2)" "same_buffer p1 p2" by (auto simp: safe_def)
  have "list_all (\<lambda>b. b < 256) (peek off k p2)" for off k
    using assms(3) p1(3) p2(2) by (intro peek_bytes) (simp add: same_buffer_def)
  then have "list_all (\<lambda>b. b < 256) (take m (peek off k p2))" for off k m
    by (auto simp: list_all_iff dest!: in_set_takeD)
  then show ?thesis
    using assms(1) p1(1) p2(1)
    by (auto simp: readString16Inplace_def read_terminated_def fetch_def intro!: units_of_units [simplified]
        split: sum.splits if_splits option.splits)
qed

lemma readString16_safe: "sane p \<Longrightarrow> safe p (or_null (readString16Inplace p))"
  using read_terminated_safe [of p 2]
  by (fastforce simp: safe_def or_null_def readString16Inplace_def split: option.splits)

lemma readUtf8_safe:
  assumes "sane p" "list_all (\<lambda>b. b < 256) (p_data p)"
  shows "safe p (readUtf8FromUtf16 p)"
  unfolding readUtf8FromUtf16_def
proof (rule safe_then [OF readString16_safe [OF assms(1)]])
  fix us q assume r: "or_null (readString16Inplace p) = Some (Inr us, q)" and q: "sane q" "same_buffer p q"
  then have u: "list_all (\<lambda>u. u < 2 ^ 16) us"
    using readString16_units [OF _ assms] by (auto simp: or_null_def split: option.splits)
  show "safe q (if us = [] then Some (Inr [], q)
      else let utf8Size = utf16_to_utf8_length us + 1
           in if utf8Size < 1 then Some (Inl BAD_VALUE, q)
              else map_option (\<lambda>str. (Inr str, q)) (utf16_to_utf8 us (nat utf8Size)))"
  proof (cases "us = [] \<or> utf16_to_utf8_length us + 1 < 1")
    case False
    define n where "n = nat (utf16_to_utf8_length us)"
    with False have "utf8_measure us 0 = int (0 + n)" "nat (utf16_to_utf8_length us + 1) = n + 1"
      by (auto simp: utf16_to_utf8_length_def)
    moreover from utf8_measured_converts [OF u this(1)] obtain bs where "utf8_convert us (n + 1) = Some bs" by blast
    ultimately show ?thesis using q(1) False by (simp add: safe_def utf16_to_utf8_def)
  qed (use q in \<open>auto simp: safe_def\<close>)
qed

lemma read_array_safe: "sane p \<Longrightarrow> safe p (read_array len w f p)"
  unfolding read_array_def
  by (rule safe_then [OF readInplace_safe]) (auto simp: safe_def fetch_def dest: readInplace_within)

lemma read_each_safe:
  assumes "\<And>q. sane q \<Longrightarrow> same_buffer p q \<Longrightarrow> safe q (r q)"
  shows "sane q \<Longrightarrow> same_buffer p q \<Longrightarrow> safe q (read_each r n q)"
proof (induction n arbitrary: q)
  case 0
  then show ?case by (simp add: safe_def)
next
  case (Suc n)
  show ?case unfolding read_each.simps
  proof (rule safe_then)
    show "safe q (r q)" using assms Suc.prems by blast
    fix v q' assume "sane q'" "same_buffer q q'"
    then show "safe q' (map_reading ((#) v) (read_each r n q'))"
      using Suc.IH Suc.prems(2) same_buffer_trans by (blast intro: safe_map)
  qed
qed

lemma read_vector_safe:
  assumes "\<And>q. sane q \<Longrightarrow> same_buffer p q \<Longrightarrow> safe q (r q)" "sane p"
  shows "safe p (read_vector t r p)"
  unfolding read_vector_def
proof (rule safe_then [OF readInt32_safe [OF assms(2)]])
  fix n q assume q: "sane q" "same_buffer p q"
  have "dataAvail q \<noteq> None" using q(1) by (auto simp: dataAvail_def dataSize_def sane_def Let_def)
  moreover have "safe q (read_each r k q)" for k by (rule read_each_safe [OF assms(1) q])
  moreover have "safe q (Some (Inl err, q))" for err using q(1) by (simp add: safe_def)
  ultimately show "safe q (if n < 0 then Some (Inl UNEXPECTED_NULL, q)
      else case dataAvail q of None \<Rightarrow> None
           | Some availableBytes \<Rightarrow>
               if nat n > availableBytes then Some (Inl BAD_VALUE, q)
               else (case array_width t of
                       Some sz \<Rightarrow> read_array (nat n) sz (elem_value t sz) q
                     | None \<Rightarrow> if t = TBool then read_array (nat n) 4 (\<lambda>x. VBool (x \<noteq> 0)) q
                               else if t = TChar16 then read_array (nat n) 4 (\<lambda>x. VInt (int (x mod 2 ^ 16))) q
                               else read_each r (nat n) q))"
    using read_array_safe [OF q(1)] by (auto split: option.split)
qed

text \<open>The types for which the templates are instantiated.\<close>

fun compiles :: "ptype \<Rightarrow> bool" where
  "compiles (TVector t) = compiles t"
| "compiles (TNullable t) = (nullable t \<and> compiles t)"
| "compiles _ = True"

lemmas scalar_reads = readBool_def readByte_def readChar_def readUint32_def readUint64_def readInt64_def readString16_def

lemma readData_stays:
  "compiles t \<Longrightarrow> sane p \<Longrightarrow> list_all (\<lambda>b. b < 256) (p_data p) \<Longrightarrow> safe p (readData t p)"
proof (induction t arbitrary: p)
  case (TVector t)
  have "safe q (readData t q)" if "sane q" "same_buffer p q" for q
    using TVector.IH TVector.prems that by (simp add: same_buffer_def)
  from read_vector_safe [OF this TVector.prems(2)] show ?case by (simp add: safe_map)
next
  case (TNullable t)
  show ?case
  proof (cases "nullable t")
    case True
    have step: "safe q (if peek = -1 then Some (Inr (VOpt None), q)
        else case setDataPosition (p_pos p) q of None \<Rightarrow> None
             | Some p2 \<Rightarrow> map_reading (\<lambda>u. VOpt (Some u)) (readData t p2))"
      if "sane q" "same_buffer p q" for peek q
    proof (cases "peek = -1")
      case False
      let ?q = "q\<lparr>p_pos := p_pos p, p_hint := 0, p_sorted := False\<rparr>"
      have "setDataPosition (p_pos p) q = Some ?q" using TNullable.prems(2) by (auto simp: setDataPosition_def sane_def)
      moreover have "sane ?q" using that TNullable.prems(2) by (simp add: sane_def)
      moreover have "list_all (\<lambda>b. b < 256) (p_data ?q)" using that TNullable.prems(3) by (simp add: same_buffer_def)
      ultimately have "safe ?q (readData t ?q)" using TNullable.IH TNullable.prems(1) by simp
      then have "safe q (map_reading (\<lambda>u. VOpt (Some u)) (readData t ?q))" by (intro safe_map) (simp add: safe_def same_buffer_def)
      with False \<open>setDataPosition (p_pos p) q = Some ?q\<close> show ?thesis by simp
    qed (use that in \<open>simp add: safe_def\<close>)
    have "safe p (read_then (readInt32 p) (\<lambda>peek q. if peek = -1 then Some (Inr (VOpt None), q)
        else case setDataPosition (p_pos p) q of None \<Rightarrow> None
             | Some p2 \<Rightarrow> map_reading (\<lambda>u. VOpt (Some u)) (readData t p2)))"
      by (rule safe_then [OF readInt32_safe [OF TNullable.prems(2)]]) (rule step)
    with True show ?thesis by simp
  qed (use TNullable.prems in simp)
qed (simp_all add: scalar_reads safe_map readInt32_safe readAligned_safe readString16_safe readUtf8_safe)

text \<open>
  C15. Whatever bytes and offsets a parcel holds, reading any type from it at any position accesses only the
  buffer, does not abort, and ends with an error code or a value; the buffer is unchanged.
\<close>

theorem readData_safe:
  assumes "compiles t" "p_size p \<le> length (p_data p)" "length (p_data p) \<le> INT32_MAX" "p_pos p \<le> INT32_MAX"
    "list_all (\<lambda>b. b < 256) (p_data p)"
  shows "\<exists>r p'. readData t p = Some (r, p') \<and> p_data p' = p_data p \<and> p_size p' = p_size p"
  using readData_stays [of t p] assms by (auto simp: sane_def safe_def same_buffer_def)

theorem readData_safe_witness:
  "\<exists>r p'. readData (TVector (TNullable TString)) (new_parcel\<lparr>p_alloc := True, p_data := [255, 255, 255, 127, 1, 0, 0, 0],
      p_size := 8, p_pos := 0, p_objects := [0, 4]\<rparr>) = Some (r, p') \<and>
    p_data p' = [255, 255, 255, 127, 1, 0, 0, 0] \<and> p_size p' = 8"
  using readData_safe [of "TVector (TNullable TString)" "new_parcel\<lparr>p_alloc := True, p_data := [255, 255, 255, 127, 1, 0, 0, 0],
      p_size := 8, p_pos := 0, p_objects := [0, 4]\<rparr>"]
  by (simp add: INT32_MAX_def)


subsection \<open>Protected objects\<close>

lemma objects_sorted_iff: "n < length objs \<Longrightarrow> objects_sorted objs n \<longleftrightarrow> sorted (take (Suc n) objs)"
proof (induction n)
  case 0
  then show ?case by (cases objs) simp_all
next
  case (Suc n)
  have "take (Suc (Suc n)) objs = take (Suc n) objs @ [objs ! Suc n]" "take (Suc n) objs = take n objs @ [objs ! n]"
    using Suc.prems by (simp_all add: take_Suc_conv_app_nth)
  moreover have "objects_sorted objs n \<longleftrightarrow> sorted (take (Suc n) objs)" using Suc by simp
  ultimately show ?case by (auto simp: sorted_append not_less dest: order_trans)
qed

lemma insort_snoc: "temp < x \<Longrightarrow> insort temp (xs @ [x]) = insort temp xs @ [x]" for x :: nat
  by (induction xs) auto

text \<open>One round of the insertion sort: the element at \<open>i\<close> joins the sorted prefix before it.\<close>

lemma sift_down_insort:
  "i < length objs \<Longrightarrow> sorted (take i objs) \<Longrightarrow>
    sift_down objs i temp = insort temp (take i objs) @ drop (Suc i) objs"
proof (induction objs i temp rule: sift_down.induct)
  case (1 objs temp)
  then show ?case by (cases objs) simp_all
next
  case (2 objs i temp)
  have t: "take (Suc i) objs = take i objs @ [objs ! i]" using "2.prems"(1) by (simp add: take_Suc_conv_app_nth)
  with "2.prems"(2) have s: "sorted (take i objs)" "\<forall>x\<in>set (take i objs). x \<le> objs ! i" by (simp_all add: sorted_append)
  show ?case
  proof (cases "objs ! i > temp")
    case True
    have "sift_down objs (Suc i) temp = insort temp (take i objs) @ drop (Suc i) (objs[Suc i := objs ! i])"
      using 2 True s(1) by simp
    also have "drop (Suc i) (objs[Suc i := objs ! i]) = objs ! i # drop (Suc (Suc i)) objs"
      using "2.prems"(1) by (simp add: drop_update_swap Cons_nth_drop_Suc [symmetric])
    also have "insort temp (take i objs) @ objs ! i # drop (Suc (Suc i)) objs = insort temp (take (Suc i) objs) @ drop (Suc (Suc i)) objs"
      using True by (simp add: t insort_snoc)
    finally show ?thesis .
  next
    case False
    have "insort temp (take (Suc i) objs) = take (Suc i) objs @ [temp]"
      using False s(2) unfolding t by (intro sorted_insort_is_snoc) (use "2.prems"(2) t in \<open>auto simp: sorted_append\<close>)
    with False "2.prems"(1) show ?thesis by (simp add: upd_conv_take_nth_drop)
  qed
qed

lemma sort_rounds:
  "n \<le> length objs \<Longrightarrow> fold (\<lambda>i os. sift_down os i (os ! i)) [1..<n] objs = sort (take n objs) @ drop n objs \<or> n = 0"
proof (induction n)
  case (Suc n)
  show ?case
  proof (cases "n = 0")
    case True
    then show ?thesis using Suc.prems by (cases objs) simp_all
  next
    case False
    let ?os = "sort (take n objs) @ drop n objs"
    have l: "length (sort (take n objs)) = n" using Suc.prems by simp
    have "fold (\<lambda>i os. sift_down os i (os ! i)) [1..<Suc n] objs = sift_down ?os n (?os ! n)"
      using Suc False by simp
    also have "\<dots> = insort (objs ! n) (sort (take n objs)) @ drop (Suc n) objs"
      using sift_down_insort [of n ?os "?os ! n"] Suc.prems l by (simp add: nth_append)
    also have "insort (objs ! n) (sort (take n objs)) = sort (take (Suc n) objs)"
    proof (rule properties_for_sort [symmetric])
      show "mset (insort (objs ! n) (sort (take n objs))) = mset (take (Suc n) objs)"
        using Suc.prems by (simp add: take_Suc_conv_app_nth)
      show "sorted (insort (objs ! n) (sort (take n objs)))" by (simp add: sorted_insort)
    qed
    finally show ?thesis by simp
  qed
qed simp

lemma sort_objects_eq: "sort_objects objs = sort objs"
  using sort_rounds [of "length objs" objs] by (auto simp: sort_objects_def)

text \<open>
  The in-place insertion sort over the object offsets sorts them.
\<close>

theorem sort_objects_sorts: "sort_objects objs = sort objs"
  by (rule sort_objects_eq)

text \<open>What the hint promises: the objects before it end at or before the position.\<close>

definition hint_ok :: "parcel \<Rightarrow> bool" where
  "hint_ok p \<longleftrightarrow> (p_sorted p \<longrightarrow> sorted (p_objects p)) \<and>
     (sorted (p_objects p) \<longrightarrow> (\<forall>i < p_hint p. i < length (p_objects p) \<longrightarrow> p_objects p ! i + flat_size \<le> p_pos p))"

definition untouched :: "nat \<Rightarrow> nat \<Rightarrow> nat list \<Rightarrow> bool" where
  "untouched from till objs \<longleftrightarrow> (\<forall>off \<in> set objs. off + flat_size \<le> from \<or> till \<le> off)"

lemma skip_objects_sound:
  "skip_objects objs pos upper k = Some n \<Longrightarrow> sorted objs \<Longrightarrow> (\<forall>i < k. i < length objs \<longrightarrow> objs ! i + flat_size \<le> pos) \<Longrightarrow>
    (\<forall>i < n. i < length objs \<longrightarrow> objs ! i + flat_size \<le> pos) \<and> (n < length objs \<longrightarrow> upper \<le> objs ! n)"
proof (induction objs pos upper k rule: skip_objects.induct)
  case (1 objs pos upper k)
  show ?case
  proof (cases "k < length objs \<and> upper > objs ! k")
    case True
    with "1.prems"(1) have pos: "\<not> pos < objs ! k + flat_size" and n: "skip_objects objs pos upper (Suc k) = Some n"
      by (simp_all add: skip_objects.simps [of objs pos upper k] split: if_splits)
    have "\<forall>i < Suc k. i < length objs \<longrightarrow> objs ! i + flat_size \<le> pos" using "1.prems"(3) pos by (auto simp: less_Suc_eq)
    from "1.IH" [OF True pos n "1.prems"(2) this] show ?thesis .
  next
    case False
    with "1.prems" have "n = k" by (simp add: skip_objects.simps [of objs pos upper k])
    with False "1.prems"(3) show ?thesis by auto
  qed
qed

lemma skipped_untouched:
  assumes "sorted objs" "\<forall>i < n. i < length objs \<longrightarrow> objs ! i + flat_size \<le> pos" "n < length objs \<longrightarrow> upper \<le> objs ! n"
  shows "untouched pos upper objs"
  unfolding untouched_def
proof
  fix off assume "off \<in> set objs"
  then obtain i where i: "i < length objs" "objs ! i = off" by (auto simp: in_set_conv_nth)
  show "off + flat_size \<le> pos \<or> upper \<le> off"
  proof (cases "i < n")
    case False
    then have "objs ! n \<le> objs ! i" using assms(1) i(1) by (intro sorted_nth_mono) simp_all
    with assms(3) i False show ?thesis by auto
  qed (use assms(2) i in auto)
qed

lemma check_objects_ok:
  assumes "check_objects upper p = (err, p')" "hint_ok p" "sorted (p_objects p)"
  shows "hint_ok p'" "err = OK \<Longrightarrow> untouched (p_pos p) upper (p_objects p)"
proof -
  have h: "\<forall>i < p_hint p. i < length (p_objects p) \<longrightarrow> p_objects p ! i + flat_size \<le> p_pos p"
    using assms(2,3) by (simp add: hint_ok_def)
  note sound = skip_objects_sound [OF _ assms(3) h]
  show "hint_ok p'" using assms sound by (auto simp: check_objects_def hint_ok_def split: option.splits)
  assume "err = OK"
  then obtain n where "skip_objects (p_objects p) (p_pos p) upper (p_hint p) = Some n"
    using assms(1) by (auto simp: check_objects_def OK_def PERMISSION_DENIED_def split: option.splits)
  from sound [OF this] skipped_untouched [OF assms(3)] show "untouched (p_pos p) upper (p_objects p)" by blast
qed

lemma untouched_cong: "set objs = set objs' \<Longrightarrow> untouched a b objs = untouched a b objs'"
  by (simp add: untouched_def)

lemma validate_ok:
  assumes "validateReadData upper p = (err, p')" "hint_ok p"
  shows "hint_ok p' \<and> mset (p_objects p') = mset (p_objects p) \<and> p_pos p' = p_pos p \<and>
    (err = OK \<longrightarrow> untouched (p_pos p) upper (p_objects p))"
proof -
  consider "p_sorted p \<or> length (p_objects p) \<le> 1"
    | "\<not> p_sorted p" "length (p_objects p) > 1" "sorted (p_objects p)"
    | "\<not> p_sorted p" "length (p_objects p) > 1" "\<not> sorted (p_objects p)" by linarith
  then show ?thesis
  proof cases
    case 1
    then have "sorted (p_objects p)" using assms(2)
      by (cases "p_objects p") (auto simp: hint_ok_def)
    with 1 assms check_objects_ok [OF _ assms(2)] check_objects_frame show ?thesis
      by (auto simp: validateReadData_def dest: check_objects_frame)
  next
    case 2
    then have "objects_sorted (p_objects p) (length (p_objects p) - 1)"
      using objects_sorted_iff [of "length (p_objects p) - 1" "p_objects p"] by simp
    with 2 assms have c: "check_objects upper (p\<lparr>p_sorted := True\<rparr>) = (err, p')" by (simp add: validateReadData_def)
    moreover have "hint_ok (p\<lparr>p_sorted := True\<rparr>)" using assms(2) 2 by (simp add: hint_ok_def)
    ultimately show ?thesis using check_objects_ok [OF c] check_objects_frame [OF c] 2(3) by simp
  next
    case 3
    then have "\<not> objects_sorted (p_objects p) (length (p_objects p) - 1)"
      using objects_sorted_iff [of "length (p_objects p) - 1" "p_objects p"] by simp
    let ?q = "p\<lparr>p_objects := sort (p_objects p), p_hint := 0, p_sorted := True\<rparr>"
    from \<open>\<not> objects_sorted _ _\<close> 3 assms have c: "check_objects upper ?q = (err, p')"
      by (simp add: validateReadData_def sort_objects_eq)
    have "hint_ok ?q" by (simp add: hint_ok_def)
    then show ?thesis using check_objects_ok [OF c] check_objects_frame [OF c]
        untouched_cong [of "sort (p_objects p)" "p_objects p"] by simp
  qed
qed

lemma permit_ok:
  assumes "permit n p = (err, p')" "hint_ok p"
  shows "hint_ok p' \<and> mset (p_objects p') = mset (p_objects p) \<and> (err = OK \<longrightarrow> untouched (p_pos p) (p_pos p + n) (p_objects p))"
proof (cases "p_objects p = []")
  case True
  with assms show ?thesis by (auto simp: permit_def hint_ok_def untouched_def)
next
  case False
  obtain e q where v: "validateReadData (p_pos p + n) p = (e, q)" by (cases "validateReadData (p_pos p + n) p")
  with False assms(1) have "err = e" "p' = q\<lparr>p_pos := p_pos q + n\<rparr>" by (simp_all add: permit_def)
  moreover have "hint_ok (q\<lparr>p_pos := p_pos q + n\<rparr>)" if "hint_ok q" using that by (fastforce simp: hint_ok_def)
  ultimately show ?thesis using validate_ok [OF v assms(2)] by simp
qed

text \<open>What a reader can do with a parcel: every other read is made of these.\<close>

inductive read_step :: "parcel \<Rightarrow> parcel \<Rightarrow> bool" where
  seek: "setDataPosition pos p = Some p' \<Longrightarrow> read_step p p'"
| bytes: "parcel_read n p = Some (r, p') \<Longrightarrow> read_step p p'"
| inplace: "readInplace n p = Some (r, p') \<Longrightarrow> read_step p p'"
| aligned: "readAligned n p = Some (r, p') \<Longrightarrow> read_step p p'"
| cstring: "readCString p = Some (c, p') \<Longrightarrow> read_step p p'"
| object: "readObject nullMetaData p = Some (obj, p') \<Longrightarrow> read_step p p'"

lemma find_object_at: "find_object objs pos hint = Some i \<Longrightarrow> i < length objs \<and> objs ! i = pos"
proof -
  have fwd: "k < length objs \<Longrightarrow> seek_forward objs pos k < length objs" for k
    by (induction objs pos k rule: seek_forward.induct) (subst seek_forward.simps, auto)
  have lt: "objs \<noteq> [] \<Longrightarrow> i \<le> length objs - Suc 0 \<Longrightarrow> i < length objs" by (cases objs) auto
  have bwd: "seek_back objs pos k \<le> k" for k by (induction k) auto
  assume "find_object objs pos hint = Some i"
  then show ?thesis
    using fwd [of hint] bwd [of "if hint < length objs then seek_forward objs pos hint else length objs - 1"]
    by (auto simp: find_object_def Let_def intro: lt split: if_splits)
qed

lemma hint_ok_moved: "hint_ok p \<Longrightarrow> p_pos p \<le> x \<Longrightarrow> hint_ok (p\<lparr>p_pos := x\<rparr>)"
  by (auto simp: hint_ok_def dest: order_trans)

lemma hint_ok_found:
  assumes "hint_ok p" "find_object (p_objects p) (p_pos p) (p_hint p) = Some i"
  shows "hint_ok (p\<lparr>p_pos := p_pos p + flat_size, p_hint := i + 1\<rparr>)"
proof -
  have i: "i < length (p_objects p)" "p_objects p ! i = p_pos p" using find_object_at [OF assms(2)] by simp_all
  have "p_objects p ! j + flat_size \<le> p_pos p + flat_size" if "j < i + 1" "sorted (p_objects p)" for j
    using sorted_nth_mono [OF that(2), of j i] that(1) i by simp
  with assms(1) show ?thesis by (simp add: hint_ok_def)
qed

lemma readObject_ok:
  assumes "readObject nullMetaData p = Some (obj, p')" "hint_ok p"
  shows "hint_ok p' \<and> p_objects p' = p_objects p"
  using assms hint_ok_moved [OF assms(2), of "p_pos p + flat_size"] hint_ok_found [OF assms(2)]
  by (auto simp: readObject_def Let_def split: if_splits option.splits)

lemma read_step_ok:
  assumes "read_step p p'" "hint_ok p"
  shows "hint_ok p' \<and> mset (p_objects p') = mset (p_objects p)"
  using assms
proof cases
  case (seek pos)
  then show ?thesis using assms(2) by (auto simp: setDataPosition_def hint_ok_def split: if_splits)
next
  case (bytes n r)
  then show ?thesis using assms(2)
    by (auto simp: parcel_read_def split: if_splits option.splits prod.splits dest!: permit_ok)
next
  case (inplace n r)
  then show ?thesis using assms(2)
    by (auto simp: readInplace_def split: if_splits option.splits prod.splits dest!: permit_ok)
next
  case (aligned n r)
  then show ?thesis using assms(2)
    by (auto simp: readAligned_def split: if_splits option.splits prod.splits dest!: permit_ok)
next
  case (cstring c)
  then show ?thesis using assms(2) hint_ok_moved [OF assms(2)]
    by (auto simp: readCString_def Let_def split: if_splits option.splits)
next
  case (object nullMetaData obj)
  then show ?thesis using readObject_ok [OF _ assms(2)] by simp
qed

lemma read_steps_ok:
  "read_step\<^sup>*\<^sup>* p p' \<Longrightarrow> hint_ok p \<Longrightarrow> hint_ok p' \<and> mset (p_objects p') = mset (p_objects p)"
  by (induction rule: rtranclp_induct) (auto dest: read_step_ok)

lemma released_hint: "hint_ok (release_object env f p) = hint_ok p" "p_sorted (release_object env f p) = p_sorted p"
    "p_hint (release_object env f p) = p_hint p"
  by (simp_all add: release_object_def hint_ok_def)

lemma releaseObjects_hint: "p_hint (releaseObjects env p) = p_hint p" "p_sorted (releaseObjects env p) = p_sorted p"
proof -
  have f: "p_hint (fold (\<lambda>off. release_object env (F off)) offs q) = p_hint q \<and>
      p_sorted (fold (\<lambda>off. release_object env (F off)) offs q) = p_sorted q" for F offs q
    by (induction offs arbitrary: q) (simp_all add: released_hint)
  show "p_hint (releaseObjects env p) = p_hint p" "p_sorted (releaseObjects env p) = p_sorted p"
    using f [of "\<lambda>off. flat_at off p" "rev (p_objects p)" p] by (simp_all add: releaseObjects_def)
qed

lemma received_hint_ok: "ipcSetDataReference env data objects p = Some q \<Longrightarrow> hint_ok q"
  by (auto simp: ipcSetDataReference_def Let_def hint_ok_def scanForFds_def freeData_def initState_def releaseObjects_hint
      split: offsets_verdict.splits)

text \<open>A read of \<open>n\<close> bytes, padding included, that hands plain data to its caller.\<close>

definition plain_read :: "nat \<Rightarrow> parcel \<Rightarrow> bool" where
  "plain_read n p \<longleftrightarrow>
     (\<exists>v p'. readAligned n p = Some (Inr v, p')) \<or>
     (\<exists>len. pad_size len = Some n \<and>
        ((\<exists>bs p'. parcel_read len p = Some (Inr bs, p')) \<or> (\<exists>off p'. readInplace len p = Some (Inr off, p'))))"


definition handle_message :: "nat list" where
  "handle_message = [7, 0, 0, 0] @ flat_bytes \<lparr>f_type = BINDER_TYPE_HANDLE, f_flags = 0, f_binder = 5, f_cookie = 0\<rparr> @ [9, 0, 0, 0]"

definition handle_parcel :: parcel where
  "handle_parcel = new_parcel\<lparr>p_alloc := True, p_data := handle_message, p_size := 32, p_objects := [4], p_ocap := 1,
     p_owner := True, p_hasFds := False\<rparr>"

lemma handle_message_list: "handle_message = [7, 0, 0, 0, 0x85, 0x2a, 0x68, 0x73, 0, 0, 0, 0, 5, 0, 0, 0, 0, 0, 0, 0,
    0, 0, 0, 0, 0, 0, 0, 0, 9, 0, 0, 0]"
  by (simp add: handle_message_def flat_bytes_def BINDER_TYPE_HANDLE_def le_bytes_8 le_bytes_4 le_bytes_2)

lemma handle_parcel_received: "ipcSetDataReference plain_env handle_message [4] new_parcel = Some handle_parcel"
  by (simp add: ipcSetDataReference_def handle_message_list handle_parcel_def freeData_def freeDataNoInit_def
      releaseObjects_def initState_def new_parcel_def scanForFds_def flat_at_def peek_def flat_size_def
      BINDER_TYPE_BINDER_def BINDER_TYPE_HANDLE_def BINDER_TYPE_FD_def)


lemma seek_forward_spec:
  "k < length objs \<Longrightarrow> r = seek_forward objs pos k \<Longrightarrow> r < length objs \<and> (r = length objs - 1 \<or> pos \<le> objs ! r)"
proof (induction objs pos k rule: seek_forward.induct)
  case (1 objs pos k)
  then show ?case by (cases "k < length objs - 1 \<and> objs ! k < pos") (auto simp: seek_forward.simps [of objs pos k])
qed

lemma seek_back_spec:
  "seek_back objs pos k \<le> k \<and> (\<forall>j. seek_back objs pos k < j \<and> j \<le> k \<longrightarrow> pos < objs ! j) \<and>
   (seek_back objs pos k = 0 \<or> objs ! seek_back objs pos k \<le> pos)"
proof (induction k)
  case (Suc k)
  then show ?case by (cases "objs ! Suc k > pos") (auto simp: le_Suc_eq)
qed simp

lemma find_object_complete:
  assumes "sorted objs" "pos \<in> set objs"
  shows "\<exists>i. find_object objs pos hint = Some i"
proof -
  from assms(2) obtain j where j: "j < length objs" "objs ! j = pos" by (auto simp: in_set_conv_nth)
  define r where "r = (if hint < length objs then seek_forward objs pos hint else length objs - 1)"
  have r: "r < length objs" "r = length objs - 1 \<or> pos \<le> objs ! r"
    using seek_forward_spec [of hint objs] j(1) by (auto simp: r_def)
  define m where "m = seek_back objs pos r"
  have m: "m \<le> r" "\<forall>i. m < i \<and> i \<le> r \<longrightarrow> pos < objs ! i" "m = 0 \<or> objs ! m \<le> pos"
    using seek_back_spec [of objs pos r] by (auto simp: m_def)
  have "objs ! m = pos" if "objs ! r \<noteq> pos"
  proof -
    have "objs ! j \<le> objs ! r" if "r = length objs - 1" using assms(1) j(1) that by (intro sorted_nth_mono) auto
    then have "j < r" using r that j sorted_nth_mono [OF assms(1), of r j] by (cases "j < r") force+
    then have "j \<le> m" using m(2) j(2) by (metis less_irrefl less_or_eq_imp_le not_le)
    then have "pos \<le> objs ! m" using sorted_nth_mono [OF assms(1), of j m] j m(1) r(1) by simp
    with m(3) \<open>j \<le> m\<close> j(2) show ?thesis by auto
  qed
  then show ?thesis using j(1) by (auto simp: find_object_def Let_def r_def [symmetric] m_def [symmetric])
qed

lemma check_offsets_sorted: "check_offsets p m objs = Offsets_ok \<Longrightarrow> sorted objs \<and> (\<forall>off \<in> set objs. m \<le> off \<and> off + flat_size \<le> length (p_data p))"
  by (induction objs arbitrary: m) (force split: if_splits)+

lemma validate_sorted: "validateReadData n p = (err, p') \<Longrightarrow> sorted (p_objects p) \<Longrightarrow> p_objects p' = p_objects p"
  by (auto simp: validateReadData_def sort_objects_eq sorted_sort_id split: if_splits dest!: check_objects_frame)

lemma permit_keeps:
  assumes "permit n p = (err, p')" "sorted (p_objects p)"
  shows "same_buffer p p' \<and> p_objects p' = p_objects p"
  using permit_frame [OF assms(1)] assms by (auto simp: permit_def split: if_splits prod.splits dest!: validate_sorted)

lemma read_step_keeps:
  assumes "read_step p p'" "sorted (p_objects p)"
  shows "same_buffer p p' \<and> p_objects p' = p_objects p"
  using assms
proof cases
  case (seek pos)
  then show ?thesis by (auto simp: setDataPosition_def same_buffer_def split: if_splits)
next
  case (cstring c)
  then show ?thesis by (auto simp: readCString_def same_buffer_def Let_def split: if_splits option.splits)
next
  case (object nullMetaData obj)
  then show ?thesis by (auto simp: readObject_def same_buffer_def Let_def split: if_splits option.splits)
qed (use assms(2) in \<open>auto simp: parcel_read_def readInplace_def readAligned_def split: if_splits option.splits prod.splits
    dest!: permit_keeps\<close>)

lemma read_steps_keep:
  "read_step\<^sup>*\<^sup>* p p' \<Longrightarrow> sorted (p_objects p) \<Longrightarrow> same_buffer p p' \<and> p_objects p' = p_objects p"
proof (induction rule: rtranclp_induct)
  case (step y z)
  then show ?case using read_step_keeps [of y z] same_buffer_trans by auto
qed simp

lemma releaseObjects_data: "p_data (releaseObjects env p) = p_data p \<and> p_size (releaseObjects env p) = p_size p"
proof -
  have "p_data (fold (\<lambda>off. release_object env (F off)) offs q) = p_data q \<and>
      p_size (fold (\<lambda>off. release_object env (F off)) offs q) = p_size q" for F offs q
    by (induction offs arbitrary: q) (simp_all add: release_object_def)
  from this [of "\<lambda>off. flat_at off p" "rev (p_objects p)" p] show ?thesis by (simp add: releaseObjects_def)
qed

lemma received_sorted:
  assumes "ipcSetDataReference env data objects p = Some q"
  shows "sorted (p_objects q)" "p_data q = data" "p_size q = length data"
  using assms check_offsets_sorted
  by (auto simp: ipcSetDataReference_def Let_def scanForFds_def releaseObjects_data split: offsets_verdict.splits)

text \<open>
  A binder cannot be forged from plain data: wherever a reader stands in a received parcel, \<open>readObject\<close>
  gives the object there exactly when the driver listed that offset, or when it is the null object and
  nulls are not in the list.
\<close>

theorem readObject_exact:
  assumes "ipcSetDataReference env data objects p0 = Some q" "read_step\<^sup>*\<^sup>* q p" "p_pos p + flat_size \<le> length data"
  shows "\<exists>p'. readObject nullMetaData p =
    Some (if p_pos p \<in> set (p_objects q) \<or> \<not> nullMetaData \<and> f_cookie (flat_at (p_pos p) q) = 0 \<and> f_binder (flat_at (p_pos p) q) = 0
          then Some (flat_at (p_pos p) q) else None, p')"
proof -
  note rec = received_sorted [OF assms(1)]
  have k: "p_data p = data" "p_size p = length data" "p_objects p = p_objects q"
    using read_steps_keep [OF assms(2) rec(1)] rec by (simp_all add: same_buffer_def)
  have f: "flat_at (p_pos p) p = flat_at (p_pos p) q" using k(1) rec(2) by (simp add: flat_at_def peek_def)
  have "(\<exists>i. find_object (p_objects q) (p_pos p) (p_hint p) = Some i) \<longleftrightarrow> p_pos p \<in> set (p_objects q)"
    using find_object_complete [OF rec(1)] find_object_at [of "p_objects q" "p_pos p" "p_hint p"] by (metis nth_mem)
  then show ?thesis using assms(3) k f by (auto simp: readObject_def Let_def split: option.splits)
qed

theorem readObject_exact_witness:
  "\<exists>p'. readObject True handle_parcel = Some (None, p')"
proof -
  have "\<exists>p'. readObject True handle_parcel =
    Some (if p_pos handle_parcel \<in> set (p_objects handle_parcel) \<or> \<not> True \<and> f_cookie (flat_at (p_pos handle_parcel) handle_parcel) = 0
            \<and> f_binder (flat_at (p_pos handle_parcel) handle_parcel) = 0
          then Some (flat_at (p_pos handle_parcel) handle_parcel) else None, p')"
    by (rule readObject_exact [OF handle_parcel_received rtranclp.rtrancl_refl])
      (simp add: handle_parcel_def new_parcel_def flat_size_def handle_message_list)
  then show ?thesis by (simp add: handle_parcel_def new_parcel_def)
qed

text \<open>
  \<open>readCString\<close> does not look at the object list: it hands out the bytes of a binder object as a string.
\<close>

theorem readCString_reads_objects:
  "\<exists>q p p'. ipcSetDataReference plain_env handle_message [4] new_parcel = Some q \<and> setDataPosition 4 q = Some p \<and>
     readAligned 4 p = Some (Inl PERMISSION_DENIED, p\<lparr>p_pos := 8\<rparr>) \<and>
     readCString p = Some (Some [0x85, 0x2a, 0x68, 0x73], p')"
  using handle_parcel_received
  by (simp add: handle_parcel_def new_parcel_def setDataPosition_def INT32_MAX_def readAligned_def permit_def validateReadData_def
      check_objects_def skip_objects.simps readCString_def fetch_def peek_def handle_message_list pad_size_def SIZE_MAX_def
      flat_size_def status_t_defs)

end
