(* ===== verification/Status_Parcel.thy ===== *)
theory Status_Parcel
  imports Parcel_Props
begin

text \<open>
  \<open>Status::writeToParcel\<close> and \<open>Status::readFromParcel\<close>: how the result of a binder call travels in its
  reply, as a client of the codecs of \<open>Parcel\<close>. The message is UTF-8 in the object and UTF-16 in the parcel.
\<close>

definition bytes_of :: "string \<Rightarrow> nat list" where
  "bytes_of s = map of_char s"

definition string_of :: "nat list \<Rightarrow> string" where
  "string_of bs = map char_of bs"

lemma string_of_bytes [simp]: "string_of (bytes_of s) = s"
  by (simp add: string_of_def bytes_of_def o_def map_idI)

definition writeToParcel :: "parcel_env \<Rightarrow> status \<Rightarrow> parcel \<Rightarrow> int outcome" where
  "writeToParcel env s p =
     (if mException s = exception_value EX_TRANSACTION_FAILED then Some (mErrorCode s, p)
      else and_then (writeInt32 env (mException s) p)
        (\<lambda>p1. if mException s = exception_value EX_NONE then Some (OK, p1)
              else case String16_from_utf8 (bytes_of (mMessage s)) of
                     None \<Rightarrow> None
                   | Some us \<Rightarrow>
                       and_then (writeString16 env (Some us) p1)
                         (\<lambda>p2. and_then (writeInt32 env 0 p2)
                         (\<lambda>p3. if mException s = exception_value EX_SERVICE_SPECIFIC then writeInt32 env (mErrorCode s) p3
                               else if mException s = exception_value EX_PARCELABLE then writeInt32 env 0 p3
                               else Some (OK, p3)))))"

type_synonym status_reading = "(int \<times> status \<times> parcel) option"

text \<open>\<open>setFromStatusT (status); return status;\<close>\<close>

definition fail_with :: "int \<Rightarrow> status \<Rightarrow> parcel \<Rightarrow> status_reading" where
  "fail_with st s p = Some (st, setFromStatusT st s, p)"

definition status_then :: "'a reading \<Rightarrow> status \<Rightarrow> ('a \<Rightarrow> parcel \<Rightarrow> status_reading) \<Rightarrow> status_reading" where
  "status_then r s f =
     (case r of None \<Rightarrow> None | Some (Inl err, p) \<Rightarrow> fail_with err s p | Some (Inr v, p) \<Rightarrow> f v p)"

text \<open>A header whose size includes its size field is jumped over, when it lies in the data.\<close>

definition skip_header :: "status \<Rightarrow> parcel \<Rightarrow> (parcel \<Rightarrow> status_reading) \<Rightarrow> status_reading" where
  "skip_header s p f =
     (case dataAvail p of
        None \<Rightarrow> None
      | Some header_avail \<Rightarrow>
          status_then (readInt32 p) s
            (\<lambda>header_size p1.
               if header_size < 0 \<or> nat header_size > header_avail then fail_with UNKNOWN_ERROR s p1
               else case setDataPosition (p_pos p + nat header_size) p1 of None \<Rightarrow> None | Some p2 \<Rightarrow> f p2))"

definition read_details :: "status \<Rightarrow> parcel \<Rightarrow> status_reading" where
  "read_details s p =
     (if mException s = exception_value EX_SERVICE_SPECIFIC
      then status_then (readInt32 p) s (\<lambda>code p1. Some (OK, s\<lparr>mErrorCode := code\<rparr>, p1))
      else if mException s = exception_value EX_PARCELABLE then skip_header s p (\<lambda>p1. Some (OK, s, p1))
      else Some (OK, s, p))"

definition read_remote :: "status \<Rightarrow> parcel \<Rightarrow> status_reading" where
  "read_remote s p =
     status_then (readString16 p) s
       (\<lambda>message p1.
          case String8_from_utf16 message of
            None \<Rightarrow> None
          | Some msg \<Rightarrow>
              (let s1 = s\<lparr>mMessage := string_of msg\<rparr>
               in status_then (readInt32 p1) s1
                    (\<lambda>remote_stack_trace_header_size p2.
                       case dataAvail p2 of
                         None \<Rightarrow> None
                       | Some avail \<Rightarrow>
                           if remote_stack_trace_header_size < 0 \<or> nat remote_stack_trace_header_size > avail
                           then fail_with UNKNOWN_ERROR s1 p2
                           else case setDataPosition (p_pos p2 + nat remote_stack_trace_header_size) p2 of
                                  None \<Rightarrow> None
                                | Some p3 \<Rightarrow> read_details s1 p3)))"

definition readFromParcel :: "status \<Rightarrow> parcel \<Rightarrow> status_reading" where
  "readFromParcel s p =
     status_then (readInt32 p) s
       (\<lambda>exception p1.
          if exception = exception_value EX_HAS_REPLY_HEADER
          then skip_header (s\<lparr>mException := exception\<rparr>) p1
                 (\<lambda>p2. Some (OK, s\<lparr>mException := exception_value EX_NONE\<rparr>, p2))
          else if exception = exception_value EX_NONE then Some (OK, s\<lparr>mException := exception\<rparr>, p1)
          else read_remote (s\<lparr>mException := exception\<rparr>) p1)"

definition writeNoException :: "parcel_env \<Rightarrow> parcel \<Rightarrow> int outcome" where
  "writeNoException env = writeToParcel env status_ok"

definition readExceptionCode :: "parcel \<Rightarrow> int outcome" where
  "readExceptionCode p = map_option (\<lambda>(st, s, p1). (mException s, p1)) (readFromParcel status_ok p)"

text \<open>Reading into a fresh \<open>Status\<close>, as the proxies do.\<close>

definition read_status :: "parcel \<Rightarrow> status reading" where
  "read_status p = map_option (\<lambda>(st, s, p1). (if st = OK then Inr s else Inl st, p1)) (readFromParcel status_ok p)"


subsection \<open>Round trip\<close>

text \<open>
  The values that \<open>ok\<close>, \<open>fromExceptionCode\<close> and \<open>fromServiceSpecificError\<close> make, other than the failed
  transaction, which is not sent in the parcel, the marker of a reply header, which is no exception, and
  \<open>EX_PARCELABLE\<close>, after which the reader is left before the header it should have skipped.
\<close>

definition valid_status :: "status \<Rightarrow> bool" where
  "valid_status s \<longleftrightarrow> in_int 32 (mException s) \<and> in_int 32 (mErrorCode s) \<and>
     mException s \<noteq> exception_value EX_TRANSACTION_FAILED \<and> mException s \<noteq> exception_value EX_HAS_REPLY_HEADER \<and>
     mException s \<noteq> exception_value EX_PARCELABLE \<and>
     (mException s = exception_value EX_SERVICE_SPECIFIC \<or> mErrorCode s = 0) \<and>
     (mException s = exception_value EX_NONE \<longrightarrow> mMessage s = []) \<and> valid_utf8 (bytes_of (mMessage s))"

definition enc_details :: "status \<Rightarrow> nat list" where
  "enc_details s =
     (if mException s = exception_value EX_SERVICE_SPECIFIC then enc_int (mErrorCode s)
      else if mException s = exception_value EX_PARCELABLE then enc_int 0 else [])"

definition enc_status :: "status \<Rightarrow> nat list" where
  "enc_status s =
     (if mException s = exception_value EX_NONE then enc_int 0
      else enc_int (mException s) @ enc_string (bytes_of (mMessage s)) @ enc_int 0 @ enc_details s)"

lemma writeToParcel_wrote:
  assumes "valid_status s" "plentiful env" "ready p" "fits p (length (enc_status s))"
  shows "\<exists>p'. writeToParcel env s p = Some (OK, p') \<and> wrote p (enc_status s) p'"
proof (cases "mException s = exception_value EX_NONE")
  case True
  then show ?thesis using assms int_wrote [of 0 env p] by (auto simp: writeToParcel_def enc_status_def and_then_def)
next
  case False
  from assms(1) obtain cs where cs: "list_all scalar cs" "bytes_of (mMessage s) = utf8_of cs" "length (utf8_of cs) < INT32_MAX"
    by (auto simp: valid_status_def valid_utf8_def)
  have conv: "String16_from_utf8 (bytes_of (mMessage s)) = Some (utf16_of cs)"
    using String16_from_utf8_of [OF cs(1)] cs(2,3) by (simp add: INT32_MAX_def)
  have enc: "enc_string (bytes_of (mMessage s)) = enc_string16 (utf16_of cs)" using enc_string_of [OF cs(1,3)] cs(2) by simp
  have v16: "valid_string16 (utf16_of cs)"
    using utf16_of_units [OF cs(1)] utf16_of_shorter [OF cs(1)] cs(3) by (simp add: valid_string16_def)
  have v: "in_int 32 (mException s)" "in_int 32 (mErrorCode s)" using assms(1) by (simp_all add: valid_status_def)
  have details: "\<exists>p2. (if mException s = exception_value EX_SERVICE_SPECIFIC then writeInt32 env (mErrorCode s) p1
        else if mException s = exception_value EX_PARCELABLE then writeInt32 env 0 p1 else Some (OK, p1)) = Some (OK, p2) \<and>
      wrote p1 (enc_details s) p2" if "ready p1" "fits p1 (length (enc_details s))" for p1
    using that int_wrote [OF v(2) assms(2), of p1] int_wrote [OF zero_in_int assms(2), of p1] wrote_nil [of p1]
    by (auto simp: enc_details_def split: if_splits)
  have str: "\<exists>p2. writeString16 env (Some (utf16_of cs)) p1 = Some (OK, p2) \<and> wrote p1 (enc_string16 (utf16_of cs)) p2"
    if "ready p1" "fits p1 (length (enc_string16 (utf16_of cs)))" for p1
    using string16.writes [OF v16 assms(2) that] .
  have f: "fits p (length (enc_int (mException s) @ enc_string16 (utf16_of cs) @ enc_int 0 @ enc_details s))"
    using assms(4) False by (simp add: enc_status_def enc)
  have "\<exists>p2. and_then (writeInt32 env (mException s) p)
      (\<lambda>p1. and_then (writeString16 env (Some (utf16_of cs)) p1)
         (\<lambda>p2. and_then (writeInt32 env 0 p2)
           (\<lambda>p3. if mException s = exception_value EX_SERVICE_SPECIFIC then writeInt32 env (mErrorCode s) p3
                  else if mException s = exception_value EX_PARCELABLE then writeInt32 env 0 p3 else Some (OK, p3))))
      = Some (OK, p2) \<and> wrote p (enc_int (mException s) @ enc_string16 (utf16_of cs) @ enc_int 0 @ enc_details s) p2"
    using assms(2,3) f v details str by (intro wrote_rest) (auto intro!: int_wrote)
  then show ?thesis using assms(1) False conv by (simp add: writeToParcel_def enc_status_def enc valid_status_def)
qed

lemma status_then_simps [simp]:
  "status_then (Some (Inr v, p)) s f = f v p" "status_then (Some (Inl err, p)) s f = fail_with err s p"
  by (simp_all add: status_then_def)

lemma avail_ahead: "ahead p bs \<Longrightarrow> \<exists>n. dataAvail p = Some n"
  by (auto simp: dataAvail_def dataSize_def ahead_def readable_def Let_def)

lemma seek_here:
  assumes "advanced p n q" "p_pos q \<le> INT32_MAX"
  shows "\<exists>q'. setDataPosition (p_pos q) q = Some q' \<and> advanced p n q'"
  using assms by (fastforce simp: advanced_def setDataPosition_def)

lemma advanced_small: "ahead p (as @ bs) \<Longrightarrow> advanced p (length as) q \<Longrightarrow> p_pos q \<le> INT32_MAX"
  using ahead_room(1) [of p "as @ bs"] by (auto simp: ahead_def readable_def advanced_def)

lemma readFromParcel_ahead:
  assumes "valid_status s" "ahead p (enc_status s)"
  shows "\<exists>p'. read_status p = Some (Inr s, p') \<and> advanced p (length (enc_status s)) p'"
proof (cases "mException s = exception_value EX_NONE")
  case True
  with assms(2) obtain p1 where "readInt32 p = Some (Inr 0, p1)" "advanced p 4 p1"
    using int_ahead [of 0 p] by (auto simp: enc_status_def)
  moreover have "status_ok\<lparr>mException := 0\<rparr> = s"
    using True assms(1) by (simp add: status_ok_def valid_status_def)
  ultimately show ?thesis using True by (simp add: read_status_def readFromParcel_def enc_status_def)
next
  case False
  let ?ex = "mException s"
  from assms(1) obtain cs where cs: "list_all scalar cs" "bytes_of (mMessage s) = utf8_of cs" "length (utf8_of cs) < INT32_MAX"
    by (auto simp: valid_status_def valid_utf8_def)
  have enc: "enc_string (bytes_of (mMessage s)) = enc_string16 (utf16_of cs)" using enc_string_of [OF cs(1,3)] cs(2) by simp
  have conv: "String8_from_utf16 (utf16_of cs) = Some (bytes_of (mMessage s))"
    using String8_from_utf16_of [OF cs(1)] cs(2,3) by (simp add: INT32_MAX_def)
  have v16: "valid_string16 (utf16_of cs)"
    using utf16_of_units [OF cs(1)] utf16_of_shorter [OF cs(1)] cs(3) by (simp add: valid_string16_def)
  have v: "in_int 32 ?ex" "in_int 32 (mErrorCode s)" using assms(1) by (simp_all add: valid_status_def)
  have a0: "ahead p (enc_int ?ex @ enc_string16 (utf16_of cs) @ enc_int 0 @ enc_details s)"
    using assms(2) False by (simp add: enc_status_def enc)
  obtain p1 where p1: "readInt32 p = Some (Inr ?ex, p1)" "advanced p 4 p1"
    using int_ahead [OF v(1) ahead_split(1) [OF a0]] by blast
  have a1: "ahead p1 (enc_string16 (utf16_of cs) @ enc_int 0 @ enc_details s)" using ahead_split(2) [OF a0] p1(2) by simp
  obtain p2 where p2: "readString16 p1 = Some (Inr (utf16_of cs), p2)" "advanced p1 (length (enc_string16 (utf16_of cs))) p2"
    using string16.reads [OF v16 ahead_split(1) [OF a1]] by blast
  have a2: "ahead p2 (enc_int 0 @ enc_details s)" using ahead_split(2) [OF a1 p2(2)] .
  obtain p3 where p3: "readInt32 p2 = Some (Inr 0, p3)" "advanced p2 4 p3"
    using int_ahead [OF zero_in_int ahead_split(1) [OF a2]] by blast
  obtain p4 where p4: "setDataPosition (p_pos p3) p3 = Some p4" "advanced p2 4 p4"
    using seek_here [OF p3(2)] advanced_small [OF a2] p3(2) by auto
  have a4: "ahead p3 (enc_details s)" "ahead p4 (enc_details s)" using ahead_split(2) [OF a2] p3(2) p4(2) by simp_all
  obtain n where n: "dataAvail p3 = Some n" using avail_ahead [OF a4(1)] by blast
  let ?s1 = "status_ok\<lparr>mException := ?ex, mMessage := mMessage s\<rparr>"
  have "\<exists>p5. read_details ?s1 p4 = Some (OK, s, p5) \<and> advanced p4 (length (enc_details s)) p5"
  proof (cases "?ex = exception_value EX_SERVICE_SPECIFIC")
    case True
    then obtain p5 where "readInt32 p4 = Some (Inr (mErrorCode s), p5)" "advanced p4 4 p5"
      using int_ahead [OF v(2)] a4(2) by (auto simp: enc_details_def)
    then show ?thesis using True by (simp add: read_details_def enc_details_def status_ok_def)
  next
    case False
    moreover have "?s1 = s" using False assms(1) by (simp add: status_ok_def valid_status_def)
    ultimately show ?thesis using assms(1) advanced_pos [of p4 0]
      by (simp add: read_details_def enc_details_def valid_status_def)
  qed
  then obtain p5 where p5: "read_details ?s1 p4 = Some (OK, s, p5)" "advanced p4 (length (enc_details s)) p5" by blast
  have "readFromParcel status_ok p = Some (OK, s, p5)"
    using assms(1) False p1(1) p2(1) p3(1) p4(1) p5(1) n conv
    by (simp add: readFromParcel_def read_remote_def valid_status_def Let_def)
  moreover have "advanced p (length (enc_status s)) p5"
    using advanced_trans [OF p1(2) advanced_trans [OF p2(2) advanced_trans [OF p4(2) p5(2)]]] False
    by (simp add: enc_status_def enc add.assoc)
  ultimately show ?thesis by (simp add: read_status_def)
qed

interpretation status: codec writeToParcel read_status enc_status valid_status
  by unfold_locales (use writeToParcel_wrote readFromParcel_ahead in \<open>auto simp: enc_status_def\<close>)

text \<open>
  C31. The result of a binder call survives the reply: a \<open>Status\<close> with an exception, its message in UTF-8 and,
  for a service-specific error, its code is read back equal from what \<open>writeToParcel\<close> wrote.
\<close>

theorem status_roundtrip:
  assumes "valid_status s" "plentiful env" "ready p" "p_objects p = []" "fits p (length (enc_status s))"
  shows "\<exists>p1 p2 p3. writeToParcel env s p = Some (OK, p1) \<and> setDataPosition (p_pos p) p1 = Some p2 \<and>
    readFromParcel status_ok p2 = Some (OK, s, p3)"
proof -
  from status.roundtrip [OF assms] obtain p1 p2 p3 where
    r: "writeToParcel env s p = Some (OK, p1)" "setDataPosition (p_pos p) p1 = Some p2" "read_status p2 = Some (Inr s, p3)"
    by blast
  then have "readFromParcel status_ok p2 = Some (OK, s, p3)" by (auto simp: read_status_def split: if_splits)
  with r(1,2) show ?thesis by blast
qed

theorem status_roundtrip_witness:
  "\<exists>p1 p2 p3. writeToParcel plain_env (fromServiceSpecificError 7 ''no'') new_parcel = Some (OK, p1) \<and>
    setDataPosition (p_pos new_parcel) p1 = Some p2 \<and>
    readFromParcel status_ok p2 = Some (OK, fromServiceSpecificError 7 ''no'', p3)"
proof -
  let ?s = "fromServiceSpecificError 7 ''no''"
  have cs: "list_all scalar [110, 111]" "bytes_of (mMessage ?s) = utf8_of [110, 111]"
    by (simp_all add: scalar_def fromServiceSpecificError_def bytes_of_def encode8_def length_defs utf8_written(1) [simplified])
  have small: "length (utf8_of [110, 111]) < INT32_MAX"
    unfolding cs(2) [symmetric] by (simp add: bytes_of_def fromServiceSpecificError_def INT32_MAX_def)
  have "valid_utf8 (bytes_of (mMessage ?s))" unfolding valid_utf8_def cs(2) using cs(1) small by blast
  then have v: "valid_status ?s" by (simp add: valid_status_def fromServiceSpecificError_def in_int_def)
  have "enc_string (bytes_of (mMessage ?s)) = enc_string16 [110, 111]"
    using enc_string_of [OF cs(1) small] cs(2) by (simp add: encode16_def)
  then have "length (enc_status ?s) = 24"
    by (simp add: enc_status_def fromServiceSpecificError_def enc_details_def enc_string16_def length_pad4)
  then have "fits new_parcel (length (enc_status ?s))" by (simp add: fits_def new_parcel_ready INT32_MAX_def)
  from status_roundtrip [OF v plain_env_plentiful new_parcel_ready(1,2) this] show ?thesis .
qed


subsection \<open>Hostile replies\<close>

definition status_safe :: "status_reading \<Rightarrow> bool" where
  "status_safe r \<longleftrightarrow> (\<exists>st s p. r = Some (st, s, p) \<and>
     (st \<noteq> OK \<longrightarrow> mException s = exception_value EX_TRANSACTION_FAILED \<and> mErrorCode s = st))"

lemma fail_with_safe: "status_safe (fail_with st s p)"
  by (simp add: status_safe_def fail_with_def setFromStatusT_def)

lemma status_then_safe:
  assumes "safe p r" "\<And>v q. r = Some (Inr v, q) \<Longrightarrow> sane q \<Longrightarrow> same_buffer p q \<Longrightarrow> status_safe (f v q)"
  shows "status_safe (status_then r s f)"
proof -
  from assms(1) obtain x q where q: "r = Some (x, q)" "sane q" "same_buffer p q" by (auto simp: safe_def)
  then show ?thesis using assms(2) [of _ q] fail_with_safe by (cases x) simp_all
qed

lemma sane_avail: "sane p \<Longrightarrow> \<exists>n. dataAvail p = Some n \<and> p_pos p + n \<le> INT32_MAX"
  by (auto simp: dataAvail_def dataSize_def sane_def Let_def)

lemma sane_seek: "sane p \<Longrightarrow> pos \<le> INT32_MAX \<Longrightarrow> \<exists>q. setDataPosition pos p = Some q \<and> sane q \<and> same_buffer p q"
  by (auto simp: setDataPosition_def sane_def same_buffer_def)

lemma skip_header_safe:
  assumes "sane p" "\<And>q. sane q \<Longrightarrow> same_buffer p q \<Longrightarrow> status_safe (f q)"
  shows "status_safe (skip_header s p f)"
proof -
  obtain n where n: "dataAvail p = Some n" "p_pos p + n \<le> INT32_MAX" using sane_avail [OF assms(1)] by blast
  have "status_safe (status_then (readInt32 p) s (\<lambda>header_size p1.
      if header_size < 0 \<or> nat header_size > n then fail_with UNKNOWN_ERROR s p1
      else case setDataPosition (p_pos p + nat header_size) p1 of None \<Rightarrow> None | Some p2 \<Rightarrow> f p2))"
  proof (rule status_then_safe [OF readInt32_safe [OF assms(1)]])
    fix h q assume q: "sane q" "same_buffer p q"
    show "status_safe (if h < 0 \<or> nat h > n then fail_with UNKNOWN_ERROR s q
        else case setDataPosition (p_pos p + nat h) q of None \<Rightarrow> None | Some p2 \<Rightarrow> f p2)"
    proof (cases "h < 0 \<or> nat h > n")
      case False
      then obtain q' where "setDataPosition (p_pos p + nat h) q = Some q'" "sane q'" "same_buffer q q'"
        using sane_seek [OF q(1), of "p_pos p + nat h"] n(2) by auto
      with False assms(2) same_buffer_trans [OF q(2)] show ?thesis by simp
    qed (simp add: fail_with_safe)
  qed
  then show ?thesis by (simp add: skip_header_def n(1))
qed

lemma read_details_safe: "sane p \<Longrightarrow> status_safe (read_details s p)"
  unfolding read_details_def
  by (auto intro!: skip_header_safe status_then_safe readInt32_safe) (simp_all add: status_safe_def)

lemma String8_from_units: "list_all (\<lambda>u. u < 2 ^ 16) us \<Longrightarrow> \<exists>bs. String8_from_utf16 us = Some bs"
proof (cases "us = [] \<or> utf16_to_utf8_length us + 1 < 1")
  case False
  assume u: "list_all (\<lambda>u. u < 2 ^ 16) us"
  define n where "n = nat (utf16_to_utf8_length us)"
  with False have "utf8_measure us 0 = int (0 + n)" "nat (utf16_to_utf8_length us + 1) = n + 1"
    by (auto simp: utf16_to_utf8_length_def)
  with utf8_measured_converts [OF u this(1)] False show ?thesis by (simp add: String8_from_utf16_def utf16_to_utf8_def)
qed (auto simp: String8_from_utf16_def)

lemma read_remote_safe:
  assumes "sane p" "list_all (\<lambda>b. b < 256) (p_data p)"
  shows "status_safe (read_remote s p)"
  unfolding read_remote_def readString16_def
proof (rule status_then_safe [OF readString16_safe [OF assms(1)]])
  fix us q assume r: "or_null (readString16Inplace p) = Some (Inr us, q)" and q: "sane q"
  then have "list_all (\<lambda>u. u < 2 ^ 16) us"
    using readString16_units [OF _ assms] by (auto simp: or_null_def split: option.splits)
  then obtain bs where bs: "String8_from_utf16 us = Some bs" using String8_from_units by blast
  let ?s1 = "s\<lparr>mMessage := string_of bs\<rparr>"
  have "status_safe (case dataAvail q' of None \<Rightarrow> None
      | Some avail \<Rightarrow> if h < 0 \<or> nat h > avail then fail_with UNKNOWN_ERROR ?s1 q'
          else case setDataPosition (p_pos q' + nat h) q' of None \<Rightarrow> None | Some p3 \<Rightarrow> read_details ?s1 p3)"
    if q': "sane q'" for h q'
  proof -
    obtain n where n: "dataAvail q' = Some n" "p_pos q' + n \<le> INT32_MAX" using sane_avail [OF q'] by blast
    show ?thesis
    proof (cases "h < 0 \<or> nat h > n")
      case False
      then obtain q'' where "setDataPosition (p_pos q' + nat h) q' = Some q''" "sane q''"
        using sane_seek [OF q', of "p_pos q' + nat h"] n(2) by auto
      with False n(1) show ?thesis by (simp add: read_details_safe)
    qed (auto simp: n(1) fail_with_safe)
  qed
  then have "status_safe (status_then (readInt32 q) ?s1 (\<lambda>h p2. case dataAvail p2 of None \<Rightarrow> None
      | Some avail \<Rightarrow> if h < 0 \<or> nat h > avail then fail_with UNKNOWN_ERROR ?s1 p2
          else case setDataPosition (p_pos p2 + nat h) p2 of None \<Rightarrow> None | Some p3 \<Rightarrow> read_details ?s1 p3))"
    by (intro status_then_safe [OF readInt32_safe [OF q]]) blast
  then show "status_safe (case String8_from_utf16 us of None \<Rightarrow> None
      | Some msg \<Rightarrow> let s1 = s\<lparr>mMessage := string_of msg\<rparr>
          in status_then (readInt32 q) s1 (\<lambda>h p2. case dataAvail p2 of None \<Rightarrow> None
              | Some avail \<Rightarrow> if h < 0 \<or> nat h > avail then fail_with UNKNOWN_ERROR s1 p2
                  else case setDataPosition (p_pos p2 + nat h) p2 of None \<Rightarrow> None | Some p3 \<Rightarrow> read_details s1 p3))"
    by (simp add: bs Let_def)
qed

text \<open>
  No reply can crash its reader: from any bytes, with any lengths and header sizes in them, \<open>readFromParcel\<close>
  returns, staying inside the buffer, and when it reports an error the \<open>Status\<close> says that the transaction
  failed with that error.
\<close>

theorem readFromParcel_total:
  assumes "p_size p \<le> length (p_data p)" "length (p_data p) \<le> INT32_MAX" "p_pos p \<le> INT32_MAX"
    "list_all (\<lambda>b. b < 256) (p_data p)"
  shows "\<exists>st s' p'. readFromParcel s p = Some (st, s', p') \<and>
    (st \<noteq> OK \<longrightarrow> mException s' = exception_value EX_TRANSACTION_FAILED \<and> mErrorCode s' = st)"
proof -
  have p: "sane p" using assms by (simp add: sane_def)
  have "status_safe (readFromParcel s p)" unfolding readFromParcel_def
  proof (rule status_then_safe [OF readInt32_safe [OF p]])
    fix e q assume q: "sane q" "same_buffer p q"
    then have "list_all (\<lambda>b. b < 256) (p_data q)" using assms(4) by (simp add: same_buffer_def)
    with q(1) read_remote_safe show "status_safe (if e = exception_value EX_HAS_REPLY_HEADER
        then skip_header (s\<lparr>mException := e\<rparr>) q (\<lambda>p2. Some (OK, s\<lparr>mException := exception_value EX_NONE\<rparr>, p2))
        else if e = exception_value EX_NONE then Some (OK, s\<lparr>mException := e\<rparr>, q)
        else read_remote (s\<lparr>mException := e\<rparr>) q)"
      by (auto intro!: skip_header_safe simp: status_safe_def [of "Some _"])
  qed
  then show ?thesis by (simp add: status_safe_def)
qed

theorem readFromParcel_total_witness:
  "\<exists>st s' p'. readFromParcel status_ok (new_parcel\<lparr>p_alloc := True, p_data := [128, 255, 255, 255, 255, 255, 255, 127], p_size := 8\<rparr>)
      = Some (st, s', p') \<and> (st \<noteq> OK \<longrightarrow> mException s' = exception_value EX_TRANSACTION_FAILED \<and> mErrorCode s' = st)"
  by (rule readFromParcel_total) (simp_all add: INT32_MAX_def new_parcel_def)

end
