(* ===== verification/Ipc_Thread.thy ===== *)
theory Ipc_Thread
  imports Parcel_Props
begin

text \<open>
  The state that \<open>IPCThreadState\<close> (\<open>frameworks/native/libs/binder/IPCThreadState.cpp\<close>) keeps for a thread about
  the call it serves: who called, on whose behalf, under which strict-mode policy; the tokens that save and
  restore it; and the header that carries it in a request (\<open>writeInterfaceToken\<close> and \<open>enforceInterface\<close> of
  \<open>Parcel.cpp\<close>). Integers are \<open>int\<close> within their width, \<open>uid_t\<close> being unsigned.
\<close>

unbundle bit_operations_syntax

record thread_state =
  mCallingPid :: int
  mCallingSid :: "string option"
  mCallingUid :: int
  mStrictModePolicy :: int
  mLastTransactionBinderFlags :: int
  mWorkSource :: int
  mPropagateWorkSource :: bool

definition as_int32 :: "int \<Rightarrow> int" where "as_int32 v = signed 32 (u32 v)"
definition as_int64 :: "int \<Rightarrow> int" where "as_int64 v = signed 64 (u64 v)"
definition uid_of :: "int \<Rightarrow> int" where "uid_of v = int (u32 v)"

definition kUnsetWorkSource :: int where "kUnsetWorkSource = -1"
definition kWorkSourcePropagatedBitIndex :: nat where "kWorkSourcePropagatedBitIndex = 32"

text \<open>\<open>IPCThreadState::IPCThreadState\<close>, for a process and its user.\<close>

definition clearCaller :: "int \<Rightarrow> int \<Rightarrow> thread_state \<Rightarrow> thread_state" where
  "clearCaller pid uid t = t\<lparr>mCallingPid := pid, mCallingSid := None, mCallingUid := uid\<rparr>"

definition new_thread_state :: "int \<Rightarrow> int \<Rightarrow> thread_state" where
  "new_thread_state pid uid =
     clearCaller pid uid \<lparr>mCallingPid = 0, mCallingSid = None, mCallingUid = 0, mStrictModePolicy = 0,
       mLastTransactionBinderFlags = 0, mWorkSource = kUnsetWorkSource, mPropagateWorkSource = False\<rparr>"

definition clearCallingIdentity :: "int \<Rightarrow> int \<Rightarrow> thread_state \<Rightarrow> int \<times> thread_state" where
  "clearCallingIdentity pid uid t = (as_int64 (push_bit 32 (mCallingUid t)) OR mCallingPid t, clearCaller pid uid t)"

definition restoreCallingIdentity :: "int \<Rightarrow> thread_state \<Rightarrow> thread_state" where
  "restoreCallingIdentity token t =
     t\<lparr>mCallingUid := uid_of (as_int32 (drop_bit 32 token)), mCallingSid := None, mCallingPid := as_int32 token\<rparr>"

definition setStrictModePolicy :: "int \<Rightarrow> thread_state \<Rightarrow> thread_state" where
  "setStrictModePolicy policy t = t\<lparr>mStrictModePolicy := policy\<rparr>"

definition setCallingWorkSourceUidWithoutPropagation :: "int \<Rightarrow> thread_state \<Rightarrow> int \<times> thread_state" where
  "setCallingWorkSourceUidWithoutPropagation uid t =
     (let propagatedBit = push_bit kWorkSourcePropagatedBitIndex (of_bool (mPropagateWorkSource t))
      in (propagatedBit OR mWorkSource t, t\<lparr>mWorkSource := as_int32 uid\<rparr>))"

definition setCallingWorkSourceUid :: "int \<Rightarrow> thread_state \<Rightarrow> int \<times> thread_state" where
  "setCallingWorkSourceUid uid t =
     (case setCallingWorkSourceUidWithoutPropagation uid t of (token, t1) \<Rightarrow> (token, t1\<lparr>mPropagateWorkSource := True\<rparr>))"

definition clearPropagateWorkSource :: "thread_state \<Rightarrow> thread_state" where
  "clearPropagateWorkSource t = t\<lparr>mPropagateWorkSource := False\<rparr>"

definition getCallingWorkSourceUid :: "thread_state \<Rightarrow> int" where
  "getCallingWorkSourceUid t = uid_of (mWorkSource t)"

definition clearCallingWorkSource :: "thread_state \<Rightarrow> int \<times> thread_state" where
  "clearCallingWorkSource t = setCallingWorkSourceUid (uid_of kUnsetWorkSource) t"

definition restoreCallingWorkSource :: "int \<Rightarrow> thread_state \<Rightarrow> thread_state" where
  "restoreCallingWorkSource token t =
     (let uid = uid_of (as_int32 token)
      in (snd (setCallingWorkSourceUidWithoutPropagation uid t))
           \<lparr>mPropagateWorkSource := (drop_bit kWorkSourcePropagatedBitIndex token) AND 1 = 1\<rparr>)"


subsection \<open>The header of a request\<close>

definition STRICT_MODE_PENALTY_GATHER :: int where "STRICT_MODE_PENALTY_GATHER = - (2 ^ 31)"

definition kHeader :: int where "kHeader = 0x53595354"

definition FLAG_ONEWAY :: int where "FLAG_ONEWAY = 1"

definition updateWorkSourceRequestHeaderPosition :: "parcel \<Rightarrow> parcel" where
  "updateWorkSourceRequestHeaderPosition p =
     (if p_headerPresent p then p else p\<lparr>p_headerPos := p_pos p, p_headerPresent := True\<rparr>)"

text \<open>A write whose result is not looked at.\<close>

definition regardless :: "int outcome \<Rightarrow> (parcel \<Rightarrow> 'a option) \<Rightarrow> 'a option" where
  "regardless a f = (case a of None \<Rightarrow> None | Some (_, p) \<Rightarrow> f p)"

definition writeInterfaceToken :: "parcel_env \<Rightarrow> thread_state \<Rightarrow> nat list \<Rightarrow> parcel \<Rightarrow> int outcome" where
  "writeInterfaceToken env t interface p =
     regardless (writeInt32 env (mStrictModePolicy t OR STRICT_MODE_PENALTY_GATHER) p)
       (\<lambda>p1. regardless (writeInt32 env (if mPropagateWorkSource t then as_int32 (getCallingWorkSourceUid t) else kUnsetWorkSource)
                          (updateWorkSourceRequestHeaderPosition p1))
       (\<lambda>p2. regardless (writeInt32 env kHeader p2)
       (writeString16 env (Some interface))))"

definition replaceCallingWorkSourceUid :: "parcel_env \<Rightarrow> int \<Rightarrow> parcel \<Rightarrow> bool outcome" where
  "replaceCallingWorkSourceUid env uid p =
     (if \<not> p_headerPresent p then Some (False, p)
      else case setDataPosition (p_headerPos p) p of
             None \<Rightarrow> None
           | Some p1 \<Rightarrow>
               (case writeInt32 env (as_int32 uid) p1 of
                  None \<Rightarrow> None
                | Some (err, p2) \<Rightarrow> map_option (\<lambda>p3. (err = OK, p3)) (setDataPosition (p_pos p) p2)))"

definition readCallingWorkSourceUid :: "parcel \<Rightarrow> int outcome" where
  "readCallingWorkSourceUid p =
     (if \<not> p_headerPresent p then Some (uid_of kUnsetWorkSource, p)
      else case setDataPosition (p_headerPos p) p of
             None \<Rightarrow> None
           | Some p1 \<Rightarrow>
               (case readInt32_or_0 p1 of
                  None \<Rightarrow> None
                | Some (v, p2) \<Rightarrow> map_option (Pair (uid_of v)) (setDataPosition (p_pos p) p2)))"

definition enforceInterface :: "nat list \<Rightarrow> thread_state \<Rightarrow> parcel \<Rightarrow> (bool \<times> thread_state \<times> parcel) option" where
  "enforceInterface interface t p =
     (case readInt32_or_0 p of
        None \<Rightarrow> None
      | Some (strictPolicy, p1) \<Rightarrow>
          (let t1 = setStrictModePolicy (if mLastTransactionBinderFlags t AND FLAG_ONEWAY \<noteq> 0 then 0 else strictPolicy) t
           in case readInt32_or_0 (updateWorkSourceRequestHeaderPosition p1) of
                None \<Rightarrow> None
              | Some (workSource, p2) \<Rightarrow>
                  (let t2 = snd (setCallingWorkSourceUidWithoutPropagation (uid_of workSource) t1)
                   in case readInt32_or_0 p2 of
                        None \<Rightarrow> None
                      | Some (header, p3) \<Rightarrow>
                          if header \<noteq> kHeader then Some (False, t2, p3)
                          else (case readString16Inplace p3 of
                                  None \<Rightarrow> None
                                | Some (str, p4) \<Rightarrow>
                                    Some ((case str of None \<Rightarrow> interface = [] | Some s \<Rightarrow> interface = s), t2, p4)))))"


subsection \<open>Tokens\<close>

lemma as_int32_id: "in_int 32 v \<Longrightarrow> as_int32 v = v"
  by (simp add: as_int32_def in_int_def)

lemma as_int32_uid_of: "as_int32 (uid_of v) = as_int32 v"
  by (simp add: as_int32_def uid_of_def u32_def)

lemma shift_or_int: "0 \<le> r \<Longrightarrow> r < 2 ^ n \<Longrightarrow> push_bit n c OR r = c * 2 ^ n + r" for c r :: int
proof -
  assume r: "0 \<le> r" "r < 2 ^ n"
  then have "take_bit n r = r" by (simp add: take_bit_int_eq_self)
  then have "\<not> bit (push_bit n c) k \<or> \<not> bit r k" for k by (metis bit_push_bit_iff bit_take_bit_iff not_le)
  then show ?thesis using disjunctive_add [of "push_bit n c" r] by (simp add: push_bit_eq_mult)
qed

lemma as_int32_mod: "as_int32 v = (let r = v mod 2 ^ 32 in if r < 2 ^ 31 then r else r - 2 ^ 32)"
  by (simp add: as_int32_def signed_def u32_def Let_def nat_less_iff)

lemma as_int32_cong: "v mod 2 ^ 32 = w mod 2 ^ 32 \<Longrightarrow> as_int32 v = as_int32 w"
  by (simp add: as_int32_mod)

lemma uid_of_as_int32: "0 \<le> v \<Longrightarrow> v < 2 ^ 32 \<Longrightarrow> uid_of (as_int32 v) = v"
  by (auto simp: as_int32_mod uid_of_def u32_def Let_def)

text \<open>
  \<open>clearCallingIdentity\<close> and \<open>restoreCallingIdentity\<close>: whatever the thread does in between, the token brings the
  calling process and user back; the security context is lost.
\<close>

theorem identity_restored:
  assumes "0 \<le> mCallingPid t" "mCallingPid t < 2 ^ 31" "0 \<le> mCallingUid t" "mCallingUid t < 2 ^ 32"
  shows "restoreCallingIdentity (fst (clearCallingIdentity pid uid t)) t' =
    t'\<lparr>mCallingPid := mCallingPid t, mCallingUid := mCallingUid t, mCallingSid := None\<rparr>"
proof -
  let ?c = "as_int32 (mCallingUid t)"
  have c: "as_int64 (push_bit 32 (mCallingUid t)) = push_bit 32 ?c"
    using assms(3,4) by (auto simp: as_int64_def as_int32_mod signed_def u64_def push_bit_eq_mult Let_def nat_less_iff)
  have tok: "fst (clearCallingIdentity pid uid t) = ?c * 2 ^ 32 + mCallingPid t"
    using shift_or_int [of "mCallingPid t" 32 ?c] assms(1,2) by (simp add: clearCallingIdentity_def c)
  have "drop_bit 32 (?c * 2 ^ 32 + mCallingPid t) = ?c" using assms(1,2) by (simp add: drop_bit_eq_div)
  moreover have "as_int32 ?c = ?c" by (auto simp: as_int32_mod Let_def)
  moreover have "as_int32 (?c * 2 ^ 32 + mCallingPid t) = mCallingPid t"
    using assms(1,2) by (simp add: as_int32_mod Let_def)
  ultimately show ?thesis using uid_of_as_int32 [OF assms(3,4)] by (simp add: restoreCallingIdentity_def tok)
qed

theorem identity_restored_witness:
  "restoreCallingIdentity (fst (clearCallingIdentity 1 0 ((new_thread_state 77 10001)))) (new_thread_state 1 0) =
    (new_thread_state 1 0)\<lparr>mCallingPid := 77, mCallingUid := 10001, mCallingSid := None\<rparr>"
  using identity_restored [of "new_thread_state 77 10001" 1 0 "new_thread_state 1 0"]
  by (simp add: new_thread_state_def clearCaller_def)

text \<open>
  \<open>setCallingWorkSourceUid\<close> and \<open>restoreCallingWorkSource\<close>: the work source comes back, but the flag that tells
  whether it is propagated comes back set whenever the work source was unset, because the negative uid is
  sign-extended over the bit that should carry the flag.
\<close>

theorem work_source_restored:
  assumes "in_int 32 (mWorkSource t)"
  shows "restoreCallingWorkSource (fst (setCallingWorkSourceUid uid t)) t' =
    t'\<lparr>mWorkSource := mWorkSource t, mPropagateWorkSource := mPropagateWorkSource t \<or> mWorkSource t < 0\<rparr>"
proof -
  let ?w = "mWorkSource t" and ?b = "of_bool (mPropagateWorkSource t) :: int"
  have tok: "fst (setCallingWorkSourceUid uid t) = push_bit 32 ?b OR ?w"
    by (simp add: setCallingWorkSourceUid_def setCallingWorkSourceUidWithoutPropagation_def Let_def
        kWorkSourcePropagatedBitIndex_def)
  have "as_int32 (push_bit 32 ?b OR ?w) = ?w"
  proof -
    have "take_bit 32 (push_bit 32 ?b OR ?w) = take_bit 32 ?w" by (simp add: take_bit_push_bit)
    then show ?thesis using as_int32_cong [of "push_bit 32 ?b OR ?w" ?w] as_int32_id [OF assms] by (simp add: take_bit_eq_mod)
  qed
  moreover have "drop_bit 32 (push_bit 32 ?b OR ?w) AND 1 = 1 \<longleftrightarrow> mPropagateWorkSource t \<or> ?w < 0"
  proof -
    have "?w < 0 \<Longrightarrow> ?w div 4294967296 = -1" using assms unfolding in_int_def by (intro int_div_pos_eq [where r = "?w + 4294967296"]) simp_all
    then have "drop_bit 32 ?w = (if ?w < 0 then -1 else 0)"
      using assms by (simp add: in_int_def drop_bit_eq_div div_pos_pos_trivial)
    then have "drop_bit 32 (push_bit 32 ?b OR ?w) = ?b OR (if ?w < 0 then -1 else 0)" by simp
    then show ?thesis by (cases "mPropagateWorkSource t") (auto simp: and_one_eq)
  qed
  moreover have "as_int32 (uid_of (as_int32 (push_bit 32 ?b OR ?w))) = as_int32 (push_bit 32 ?b OR ?w)"
    using calculation(1) as_int32_id [OF assms] by (simp add: as_int32_uid_of)
  ultimately show ?thesis
    by (simp add: restoreCallingWorkSource_def tok setCallingWorkSourceUidWithoutPropagation_def Let_def
        kWorkSourcePropagatedBitIndex_def)
qed

theorem work_source_restored_witness:
  "mPropagateWorkSource (restoreCallingWorkSource (fst (setCallingWorkSourceUid 10001 (new_thread_state 77 10001)))
     (new_thread_state 77 10001)) \<and> \<not> mPropagateWorkSource (new_thread_state 77 10001)"
  using work_source_restored [of "new_thread_state 77 10001" 10001 "new_thread_state 77 10001"]
  by (simp add: new_thread_state_def clearCaller_def kUnsetWorkSource_def in_int_def)


subsection \<open>Requests\<close>

definition enc_token :: "thread_state \<Rightarrow> nat list \<Rightarrow> nat list" where
  "enc_token t interface =
     enc_int (mStrictModePolicy t OR STRICT_MODE_PENALTY_GATHER) @
     enc_int (if mPropagateWorkSource t then as_int32 (getCallingWorkSourceUid t) else kUnsetWorkSource) @
     enc_int kHeader @ enc_string16 interface"

lemma gather_in_int: "in_int 32 v \<Longrightarrow> in_int 32 (v OR STRICT_MODE_PENALTY_GATHER)"
proof -
  assume v: "in_int 32 v"
  have g: "STRICT_MODE_PENALTY_GATHER = push_bit 31 (-1)" by (simp add: STRICT_MODE_PENALTY_GATHER_def push_bit_eq_mult)
  show ?thesis
  proof (cases "0 \<le> v")
    case True
    then show ?thesis using v shift_or_int [of v 31 "-1"] by (simp add: g or.commute in_int_def)
  next
    case False
    then have "v = push_bit 31 (-1) OR (v + 2 ^ 31)" using v shift_or_int [of "v + 2 ^ 31" 31 "-1"] by (simp add: in_int_def)
    then have "v OR push_bit 31 (-1) = v" by (metis or.assoc or.commute or.idem)
    with v show ?thesis by (simp add: g)
  qed
qed

lemma update_header:
  "ready (updateWorkSourceRequestHeaderPosition p) = ready p"
  "contents (updateWorkSourceRequestHeaderPosition p) = contents p"
  "p_size (updateWorkSourceRequestHeaderPosition p) = p_size p"
  "p_objects (updateWorkSourceRequestHeaderPosition p) = p_objects p"
  "ahead (updateWorkSourceRequestHeaderPosition p) bs = ahead p bs"
  by (simp_all add: updateWorkSourceRequestHeaderPosition_def ready_def contents_def ahead_def readable_def)

lemma wrote_step:
  assumes "wrote p as q" "fits p (length as + n)"
  shows "ready q" "contents q = contents p @ as" "p_objects q = p_objects p" "p_size q = p_size p + length as" "fits q n"
  using assms(1) frame_fields(1) [of q p] fits_after [OF assms(2,1)] by (simp_all add: wrote_def)

lemma regardless_Some [simp]: "regardless (Some (st, p)) f = f p"
  by (simp add: regardless_def)

lemma int_wrote_step:
  assumes "in_int 32 v" "plentiful env" "ready p" "fits p (4 + n)"
  shows "\<exists>q. writeInt32 env v p = Some (OK, q) \<and> ready q \<and> contents q = contents p @ enc_int v \<and>
    p_objects q = p_objects p \<and> p_size q = p_size p + 4 \<and> fits q n"
proof -
  from int_wrote [OF assms(1-3)] fits_less [OF assms(4), of 4] obtain q where
    q: "writeInt32 env v p = Some (OK, q)" "wrote p (enc_int v) q" by auto
  with wrote_step [OF q(2), of n] assms(4) show ?thesis by auto
qed

lemma sent_work_source:
  assumes "in_int 32 (mWorkSource t)"
  shows "(if mPropagateWorkSource t then as_int32 (getCallingWorkSourceUid t) else kUnsetWorkSource) =
      (if mPropagateWorkSource t then mWorkSource t else kUnsetWorkSource)"
    and "in_int 32 (if mPropagateWorkSource t then mWorkSource t else kUnsetWorkSource)"
proof -
  have "as_int32 (getCallingWorkSourceUid t) = mWorkSource t"
    using as_int32_id [OF assms] by (simp add: getCallingWorkSourceUid_def as_int32_uid_of)
  then show "(if mPropagateWorkSource t then as_int32 (getCallingWorkSourceUid t) else kUnsetWorkSource) =
      (if mPropagateWorkSource t then mWorkSource t else kUnsetWorkSource)" by simp
  show "in_int 32 (if mPropagateWorkSource t then mWorkSource t else kUnsetWorkSource)"
    using assms by (simp add: in_int_def kUnsetWorkSource_def)
qed

lemma writeInterfaceToken_wrote:
  assumes "in_int 32 (mStrictModePolicy t)" "in_int 32 (mWorkSource t)" "valid_string16 d" "plentiful env" "ready p"
    "fits p (length (enc_token t d))"
  shows "\<exists>q. writeInterfaceToken env t d p = Some (OK, q) \<and> ready q \<and> contents q = contents p @ enc_token t d \<and>
    p_objects q = p_objects p \<and> p_size q = p_size p + length (enc_token t d) \<and> p_alloc q"
proof -
  let ?n = "length (enc_string16 d)"
  let ?ws = "if mPropagateWorkSource t then mWorkSource t else kUnsetWorkSource"
  have k: "in_int 32 kHeader" by (simp add: in_int_def kHeader_def)
  have f: "fits p (4 + (4 + (4 + ?n)))" using assms(6) by (simp add: enc_token_def add.assoc)
  obtain p1 where p1: "writeInt32 env (mStrictModePolicy t OR STRICT_MODE_PENALTY_GATHER) p = Some (OK, p1)" "ready p1"
      "contents p1 = contents p @ enc_int (mStrictModePolicy t OR STRICT_MODE_PENALTY_GATHER)" "p_objects p1 = p_objects p"
      "p_size p1 = p_size p + 4" "fits p1 (4 + (4 + ?n))"
    using int_wrote_step [OF gather_in_int [OF assms(1)] assms(4,5) f] by blast
  let ?u = "updateWorkSourceRequestHeaderPosition p1"
  have u: "ready ?u" "fits ?u (4 + (4 + ?n))" using p1(2,6) by (simp_all add: update_header fits_def)
  obtain p2 where p2: "writeInt32 env ?ws ?u = Some (OK, p2)" "ready p2" "contents p2 = contents p1 @ enc_int ?ws"
      "p_objects p2 = p_objects p1" "p_size p2 = p_size p1 + 4" "fits p2 (4 + ?n)"
    using int_wrote_step [OF sent_work_source(2) [OF assms(2)] assms(4) u] by (auto simp: update_header)
  obtain p3 where p3: "writeInt32 env kHeader p2 = Some (OK, p3)" "ready p3" "contents p3 = contents p2 @ enc_int kHeader"
      "p_objects p3 = p_objects p2" "p_size p3 = p_size p2 + 4" "fits p3 ?n"
    using int_wrote_step [OF k assms(4) p2(2,6)] by blast
  obtain p4 where p4: "writeString16 env (Some d) p3 = Some (OK, p4)" "wrote p3 (enc_string16 d) p4"
    using string16.writes [OF assms(3,4) p3(2,6)] by blast
  have "writeInterfaceToken env t d p = Some (OK, p4)"
    using p1(1) p2(1) p3(1) p4(1) by (simp add: writeInterfaceToken_def sent_work_source(1) [OF assms(2)])
  moreover have "ready p4" "contents p4 = contents p3 @ enc_string16 d" "p_objects p4 = p_objects p3"
      "p_size p4 = p_size p3 + ?n" "p_alloc p4"
    using p4(2) frame_fields(1) [of p4 p3] string16.encodes [OF assms(3)] by (auto simp: wrote_def)
  ultimately show ?thesis
    using p1 p2 p3 by (simp add: enc_token_def sent_work_source(1) [OF assms(2)])
qed

lemma int_or_0_ahead:
  "in_int 32 v \<Longrightarrow> ahead p (enc_int v @ bs) \<Longrightarrow> \<exists>q. readInt32_or_0 p = Some (v, q) \<and> ahead q bs"
  using int_ahead [of v p] ahead_split [of p "enc_int v" bs] by (fastforce simp: readInt32_or_0_def)

lemma enforceInterface_ahead:
  assumes "in_int 32 (mStrictModePolicy t)" "in_int 32 (mWorkSource t)" "valid_string16 d" "ahead p (enc_token t d)"
  shows "\<exists>p'. enforceInterface d' r p = Some (d' = d,
    r\<lparr>mStrictModePolicy := (if mLastTransactionBinderFlags r AND FLAG_ONEWAY \<noteq> 0 then 0
         else mStrictModePolicy t OR STRICT_MODE_PENALTY_GATHER),
       mWorkSource := (if mPropagateWorkSource t then mWorkSource t else kUnsetWorkSource)\<rparr>, p')"
proof -
  let ?ws = "if mPropagateWorkSource t then mWorkSource t else kUnsetWorkSource"
  note ws = sent_work_source [OF assms(2)]
  have k: "in_int 32 kHeader" by (simp add: in_int_def kHeader_def)
  obtain p1 where p1: "readInt32_or_0 p = Some (mStrictModePolicy t OR STRICT_MODE_PENALTY_GATHER, p1)"
      "ahead p1 (enc_int ?ws @ enc_int kHeader @ enc_string16 d)"
    using int_or_0_ahead [OF gather_in_int [OF assms(1)], of p] assms(4) by (auto simp: enc_token_def ws(1))
  then have "ahead (updateWorkSourceRequestHeaderPosition p1) (enc_int ?ws @ enc_int kHeader @ enc_string16 d)"
    by (simp add: update_header)
  then obtain p2 where p2: "readInt32_or_0 (updateWorkSourceRequestHeaderPosition p1) = Some (?ws, p2)"
      "ahead p2 (enc_int kHeader @ enc_string16 d)" using int_or_0_ahead [OF ws(2)] by blast
  obtain p3 where p3: "readInt32_or_0 p2 = Some (kHeader, p3)" "ahead p3 (enc_string16 d)"
    using int_or_0_ahead [OF k p2(2)] by blast
  obtain p4 where p4: "readString16Inplace p3 = Some (Some d, p4)"
    using readString16_ahead [of d p3] assms(3) p3(2) by (auto simp: valid_string16_def)
  have "as_int32 (uid_of ?ws) = ?ws" using as_int32_id [OF ws(2)] by (simp add: as_int32_uid_of)
  then show ?thesis using p1(1) p2(1) p3(1) p4
    by (simp add: enforceInterface_def setStrictModePolicy_def setCallingWorkSourceUidWithoutPropagation_def Let_def)
qed

text \<open>
  A request is accepted by the interface it was written for and by no other, and the receiving thread takes
  over the sender's strict-mode policy, unless the call is one way, and its work source, if the sender
  propagates one.
\<close>

theorem interface_token_checked:
  assumes "in_int 32 (mStrictModePolicy t)" "in_int 32 (mWorkSource t)" "valid_string16 d" "plentiful env" "ready p"
    "p_objects p = []" "fits p (length (enc_token t d))"
  shows "\<exists>p1 p2 p3. writeInterfaceToken env t d p = Some (OK, p1) \<and> setDataPosition (p_pos p) p1 = Some p2 \<and>
    enforceInterface d' r p2 = Some (d' = d,
      r\<lparr>mStrictModePolicy := (if mLastTransactionBinderFlags r AND FLAG_ONEWAY \<noteq> 0 then 0
           else mStrictModePolicy t OR STRICT_MODE_PENALTY_GATHER),
         mWorkSource := (if mPropagateWorkSource t then mWorkSource t else kUnsetWorkSource)\<rparr>, p3)"
proof -
  obtain p1 where p1: "writeInterfaceToken env t d p = Some (OK, p1)" "ready p1" "contents p1 = contents p @ enc_token t d"
      "p_objects p1 = []" "p_size p1 = p_size p + length (enc_token t d)" "p_alloc p1"
    using writeInterfaceToken_wrote [OF assms(1-5,7)] assms(6) by auto
  let ?p2 = "p1\<lparr>p_pos := p_pos p, p_hint := 0, p_sorted := False\<rparr>"
  have small: "p_size p1 \<le> INT32_MAX" using fits_small(2) [OF assms(7)] p1(5) by simp
  then have seek: "setDataPosition (p_pos p) p1 = Some ?p2"
    using assms(5) p1(5) by (simp add: setDataPosition_def ready_def)
  have pos: "p_pos p = length (contents p)" using assms(5) by (simp add: ready_def contents_def)
  have "readable ?p2" using p1 small assms(5) by (auto simp: readable_def ready_def)
  moreover have "contents ?p2 = contents p @ enc_token t d" using p1(3) by (simp add: contents_def)
  ultimately have "ahead ?p2 (enc_token t d)" by (simp add: ahead_def pos)
  from enforceInterface_ahead [OF assms(1-3) this] p1(1) seek show ?thesis by blast
qed

theorem interface_token_checked_witness:
  "\<exists>p1 p2 p3. writeInterfaceToken plain_env (new_thread_state 7 1000) [73, 83] new_parcel = Some (OK, p1) \<and>
    setDataPosition 0 p1 = Some p2 \<and>
    enforceInterface [73] (new_thread_state 8 0) p2 = Some (False, (new_thread_state 8 0)\<lparr>mStrictModePolicy := - (2 ^ 31)\<rparr>, p3)"
proof -
  let ?t = "new_thread_state 7 1000"
  have v: "valid_string16 [73, 83]" by (simp add: valid_string16_def INT32_MAX_def)
  have "length (enc_token ?t [73, 83]) = 24" by (simp add: enc_token_def enc_string16_def length_pad4)
  then have "fits new_parcel (length (enc_token ?t [73, 83]))" by (simp add: fits_def new_parcel_ready INT32_MAX_def)
  moreover have "in_int 32 (mStrictModePolicy ?t)" "in_int 32 (mWorkSource ?t)"
    by (simp_all add: new_thread_state_def clearCaller_def kUnsetWorkSource_def in_int_def)
  moreover have "p_pos new_parcel = 0" by (simp add: new_parcel_def)
  ultimately show ?thesis
    using interface_token_checked [of ?t "[73, 83]" plain_env new_parcel "[73]" "new_thread_state 8 0"] v plain_env_plentiful
      new_parcel_ready(1,2)
    by (simp add: new_thread_state_def clearCaller_def FLAG_ONEWAY_def STRICT_MODE_PENALTY_GATHER_def)
qed

end
