(* ===== verification/Parcel_Refs.thy ===== *)
theory Parcel_Refs
  imports Parcel_Props
begin

text \<open>
  The life of the objects in a parcel that is written at its end: each is acquired when it is written and
  released exactly once when the parcel is freed, whatever allocations fail on the way. Then the ways in
  which the writing operations go wrong.
\<close>

subsection \<open>Writing at the end, with failures\<close>

text \<open>An allocation that succeeds gives the bytes it was asked for.\<close>

definition sound_env :: "parcel_env \<Rightarrow> bool" where
  "sound_env env \<longleftrightarrow> (\<forall>k n bs. e_alloc env k n = Some bs \<longrightarrow> length bs = n)"

definition tail :: "parcel \<Rightarrow> bool" where
  "tail p \<longleftrightarrow> \<not> p_owner p \<and> p_pos p = p_size p \<and> p_size p \<le> length (p_data p) \<and> (p_alloc p \<or> p_data p = [])"

text \<open>Some bytes may have been appended; objects and references are as before.\<close>

definition extends :: "parcel \<Rightarrow> parcel \<Rightarrow> bool" where
  "extends p p' \<longleftrightarrow> tail p' \<and> (\<exists>bs. contents p' = contents p @ bs) \<and> p_objects p' = p_objects p \<and> p_log p' = p_log p"

lemma extends_refl: "tail p \<Longrightarrow> extends p p"
  by (simp add: extends_def)

lemma extends_trans: "extends p q \<Longrightarrow> extends q r \<Longrightarrow> extends p r"
  by (auto simp: extends_def)

lemma extends_tail: "extends p q \<Longrightarrow> tail q"
  by (simp add: extends_def)

lemma continueWrite_extends:
  assumes "sound_env env" "tail p" "continueWrite env want p = Some (st, p1)" "p_size p \<le> want"
    "want > length (p_data p)"
  shows "extends p p1 \<and> p_size p1 = p_size p \<and> (st = OK \<longrightarrow> length (p_data p1) = want)"
proof -
  have left: "objects_left want p = length (p_objects p)" using assms(4) by (simp add: objects_left_def)
  have e: "e_alloc env (p_calls p) want = Some bs \<Longrightarrow> length bs = want" for bs using assms(1) by (simp add: sound_env_def)
  show ?thesis
  proof (cases "want > INT32_MAX \<or> e_alloc env (p_calls p) want = None")
    case True
    then show ?thesis using assms(2,3,5) left
      by (auto simp: continueWrite_def Let_def drop_objects_def allocate_def out_of_memory_def extends_def tail_def
          contents_def status_t_defs split: if_splits)
  next
    case False
    then obtain bs where "e_alloc env (p_calls p) want = Some bs" "length bs = want" using e by auto
    with False show ?thesis using assms(2,3,5) left
      by (auto simp: continueWrite_def Let_def drop_objects_def allocate_def extends_def tail_def contents_def split: if_splits)
  qed
qed

lemma growData_extends:
  assumes "sound_env env" "tail p" "growData env n p = Some (st, p1)" "p_pos p + n > length (p_data p)"
  shows "extends p p1 \<and> p_size p1 = p_size p \<and> (st = OK \<longrightarrow> p_pos p1 + n \<le> length (p_data p1))"
proof -
  let ?want = "max ((p_size p + n) * 3 div 2) 128"
  consider "p1 = p" "st \<noteq> OK" | "continueWrite env ?want p = Some (st, p1)"
    using assms(3) by (auto simp: growData_def Let_def status_t_defs split: if_splits)
  then show ?thesis
  proof cases
    case 1
    then show ?thesis using extends_refl [OF assms(2)] by simp
  next
    case 2
    have n: "p_size p + n \<le> ?want" "?want > length (p_data p)" using assms(2,4) by (auto simp: tail_def)
    have "extends p p1 \<and> p_size p1 = p_size p \<and> (st = OK \<longrightarrow> length (p_data p1) = ?want)"
      using n by (intro continueWrite_extends [OF assms(1,2) 2]) simp_all
    with n show ?thesis by (auto simp: extends_def tail_def)
  qed
qed

lemma ensure_room_extends:
  assumes "sound_env env" "tail p" "ensure_room env n p = Some (st, p1)"
  shows "extends p p1 \<and> p_size p1 = p_size p \<and> (st = OK \<longrightarrow> p_pos p1 + n \<le> length (p_data p1))"
  using assms growData_extends [OF assms(1,2)] extends_refl [OF assms(2)]
  by (auto simp: ensure_room_def split: if_splits)

lemma poke_past:
  assumes "poke off bs p = Some q" "p_size p \<le> off"
  shows "contents q = contents p" "p_size q = p_size p" "length (p_data q) = length (p_data p)"
    "p_objects q = p_objects p" "p_log q = p_log p"
  using assms by (auto simp: poke_def contents_def split: if_splits)

lemma poke_frame: "poke off bs p = Some q \<Longrightarrow> length (p_data q) = length (p_data p) \<and> p_pos q = p_pos p"
  by (auto simp: poke_def split: if_splits)

lemma poke_tail: "poke off bs p = Some q \<Longrightarrow> tail p \<Longrightarrow> tail q"
  by (auto simp: poke_def tail_def split: if_splits)

lemma finish_tail:
  assumes "tail p" "p_pos p + n \<le> length (p_data p)" "finishWrite n p = (st, q)"
  shows "extends p q"
proof -
  have "take (p_size p) (p_data p) @ drop (p_size p) (take (p_size p + n) (p_data p)) = take (p_size p + n) (p_data p)"
    by (metis append_take_drop_id le_add1 min.absorb1 take_take)
  then have "\<exists>bs. take (p_size p + n) (p_data p) = take (p_size p) (p_data p) @ bs" by metis
  then show ?thesis using assms by (auto simp: finishWrite_def extends_def tail_def contents_def Let_def split: if_splits)
qed

lemma poke_extends: "tail p \<Longrightarrow> poke off bs p = Some q \<Longrightarrow> p_size p \<le> off \<Longrightarrow> extends p q"
  using poke_past poke_tail by (auto simp: extends_def)

lemma append_extends:
  assumes "sound_env env" "tail p" "ensure_room env (length bs) p = Some (OK, p1)" "poke (p_pos p1) bs p1 = Some p2"
    "finishWrite (length bs) p2 = (st, q)"
  shows "extends p q"
proof -
  note room = ensure_room_extends [OF assms(1-3)]
  have p2: "extends p1 p2" using room assms(4) by (intro poke_extends) (auto simp: extends_def tail_def)
  have "p_pos p2 + length bs \<le> length (p_data p2)" using assms(4) by (auto simp: poke_def split: if_splits)
  then have "extends p2 q" using p2 assms(5) by (intro finish_tail) (auto dest: extends_tail)
  with room p2 show ?thesis by (blast intro: extends_trans)
qed

lemma writeAligned_extends:
  assumes "sound_env env" "tail p" "writeAligned env k v p = Some (st, q)"
  shows "extends p q"
  using assms(3) ensure_room_extends [OF assms(1,2)] append_extends [OF assms(1,2), of "le_bytes k v"]
  by (auto simp: writeAligned_def split: option.splits if_splits)

lemma writeUnpadded_extends:
  assumes "sound_env env" "tail p" "writeUnpadded env bs p = Some (st, q)"
  shows "extends p q"
  using assms(3) ensure_room_extends [OF assms(1,2)] append_extends [OF assms(1,2), of bs] extends_refl [OF assms(2)]
  by (auto simp: writeUnpadded_def split: option.splits if_splits)

lemma poke_within:
  assumes "extends p q" "tail p" "p_size p \<le> off" "poke off bs q = Some r"
  shows "extends p r"
proof -
  from assms(1) obtain cs where c: "contents q = contents p @ cs" by (auto simp: extends_def)
  have l: "length (contents p) = p_size p" "length (contents q) = p_size q"
    using assms(1,2) by (simp_all add: contents_def extends_def tail_def)
  have le: "p_size p \<le> p_size q" using c l by (metis length_append le_add1)
  have r: "p_size r = p_size q" "p_data r = take off (p_data q) @ bs @ drop (off + length bs) (p_data q)"
      "off + length bs \<le> length (p_data q)" "p_objects r = p_objects q" "p_log r = p_log q"
    using assms(4) by (auto simp: poke_def split: if_splits)
  have "take (p_size p) (contents r) = take (p_size p) (contents q)"
    using r assms(3) le by (simp add: contents_def min_def)
  also have "\<dots> = contents p" using c l(1) by simp
  finally have "contents r = contents p @ drop (p_size p) (contents r)" by (metis append_take_drop_id)
  then show ?thesis using assms(1) r poke_tail [OF assms(4)] unfolding extends_def by metis
qed

lemma writeInplace_extends:
  assumes "sound_env env" "tail p" "writeInplace env n p = Some (off, q)"
  shows "extends p q \<and> (\<forall>x. off = Some x \<longrightarrow> p_size p \<le> x)"
proof (cases "n > INT32_MAX")
  case True
  then show ?thesis using assms extends_refl by (auto simp: writeInplace_def)
next
  case False
  let ?m = "(n + 3) div 4 * 4"
  have pad: "pad_size n = Some ?m" "n \<le> ?m" using False pad_ge by (simp_all add: pad_size_eq)
  show ?thesis
  proof (cases "(p_pos p + ?m) mod 2 ^ 64 < p_pos p")
    case True
    then show ?thesis using assms False pad extends_refl by (auto simp: writeInplace_def)
  next
    case nowrap: False
    obtain st p1 where p1: "ensure_room env ?m p = Some (st, p1)"
      using assms(3) False nowrap pad by (auto simp: writeInplace_def split: option.splits)
    note room = ensure_room_extends [OF assms(1,2) p1]
    show ?thesis
    proof (cases "st = OK")
      case False
      then show ?thesis using assms(3) \<open>\<not> n > INT32_MAX\<close> nowrap pad p1 room by (auto simp: writeInplace_def)
    next
      case True
      define w where "w = (if ?m \<noteq> n then poke (p_pos p1 + n) (replicate (?m - n) 0) p1 else Some p1)"
      have c: "(n > INT32_MAX) = False" "((p_pos p + ?m) mod 2 ^ 64 < p_pos p) = False" "(OK \<noteq> OK) = False"
        using False nowrap by simp_all
      have "writeInplace env n p = (case w of None \<Rightarrow> None
          | Some p2 \<Rightarrow> Some (if p_alloc p1 then Some (p_pos p1) else None, snd (finishWrite ?m p2)))"
        by (simp only: writeInplace_def c if_False pad(1) option.case p1 prod.case True w_def)
      with assms(3) obtain p2 where w: "w = Some p2"
          and p2: "off = (if p_alloc p1 then Some (p_pos p1) else None)" "q = snd (finishWrite ?m p2)"
        by (cases w) auto
      have t1: "tail p1" "p_pos p1 = p_size p" using room by (auto simp: extends_def tail_def)
      have e2: "extends p1 p2" "length (p_data p2) = length (p_data p1)" "p_pos p2 = p_pos p1"
        using w extends_refl [OF t1(1)] poke_extends [OF t1(1)] t1(1)
        by (auto simp: w_def tail_def split: if_splits dest: poke_frame)
      have "extends p2 q"
        using e2 room True p2(2) finish_tail [of p2 ?m] by (cases "finishWrite ?m p2") (auto dest: extends_tail)
      with room e2(1) have "extends p q" by (blast intro: extends_trans)
      then show ?thesis using p2(1) t1(2) by auto
    qed
  qed
qed

lemma parcel_write_extends:
  assumes "sound_env env" "tail p" "parcel_write env bs p = Some (st, q)"
  shows "extends p q"
proof (cases "length bs > INT32_MAX")
  case True
  then show ?thesis using assms extends_refl by (auto simp: parcel_write_def)
next
  case False
  then obtain off p1 where p1: "writeInplace env (length bs) p = Some (off, p1)"
    using assms(3) by (auto simp: parcel_write_def split: option.splits)
  note w = writeInplace_extends [OF assms(1,2) p1]
  show ?thesis
  proof (cases off)
    case None
    then show ?thesis using assms(3) False p1 w by (auto simp: parcel_write_def)
  next
    case (Some x)
    then show ?thesis using assms(3) False p1 w poke_within [of p p1 x bs q] assms(2) by (auto simp: parcel_write_def)
  qed
qed


subsection \<open>Objects\<close>

definition acquired :: "parcel_env \<Rightarrow> flat_object \<Rightarrow> ref_event list" where
  "acquired env f =
     (if f_type f = BINDER_TYPE_BINDER \<and> f_binder f \<noteq> 0 then [IncStrong (f_cookie f)]
      else if f_type f = BINDER_TYPE_HANDLE \<and> e_proxy env (f_handle f) then [IncHandle (f_handle f)] else [])"

definition given_back :: "parcel_env \<Rightarrow> flat_object \<Rightarrow> ref_event list" where
  "given_back env f =
     (if f_type f = BINDER_TYPE_BINDER \<and> f_binder f \<noteq> 0 then [DecStrong (f_cookie f)]
      else if f_type f = BINDER_TYPE_HANDLE \<and> e_proxy env (f_handle f) then [DecHandle (f_handle f)]
      else if f_type f = BINDER_TYPE_FD \<and> f_cookie f \<noteq> 0 then [CloseFd (f_handle f)] else [])"

lemma acquire_log: "p_log (acquire_object env f p) = p_log p @ acquired env f"
  by (simp add: acquire_object_def acquired_def BINDER_TYPE_BINDER_def BINDER_TYPE_HANDLE_def BINDER_TYPE_FD_def)

lemma release_log: "p_log (release_object env f p) = p_log p @ given_back env f"
  by (simp add: release_object_def given_back_def BINDER_TYPE_BINDER_def BINDER_TYPE_HANDLE_def BINDER_TYPE_FD_def)

lemma releaseObjects_log:
  "p_log (releaseObjects env p) = p_log p @ concat (map (given_back env) (rev (map (\<lambda>off. flat_at off p) (p_objects p))))"
proof -
  have "p_log (fold (\<lambda>off. release_object env (F off)) offs q) = p_log q @ concat (map (given_back env) (map F offs))" for F offs q
    by (induction offs arbitrary: q) (simp_all add: release_log)
  from this [of "\<lambda>off. flat_at off p" "rev (p_objects p)" p] show ?thesis by (simp add: releaseObjects_def rev_map)
qed

definition valid_flat :: "flat_object \<Rightarrow> bool" where
  "valid_flat f \<longleftrightarrow> f_type f < 2 ^ 32 \<and> f_flags f < 2 ^ 32 \<and> f_binder f < 2 ^ 64 \<and> f_cookie f < 2 ^ 64"

lemma length_flat_bytes [simp]: "length (flat_bytes f) = flat_size"
  by (simp add: flat_bytes_def flat_size_def)

lemma flat_at_written:
  assumes "valid_flat f" "peek off flat_size p = flat_bytes f"
  shows "flat_at off p = f"
proof -
  have k: "peek (off + i) n p = take n (drop i (flat_bytes f))" if "i + n \<le> flat_size" for i n
    using that assms(2) [symmetric] by (simp add: peek_def drop_take min_def add.commute)
  have "peek off 4 p = le_bytes 4 (f_type f)" "peek (off + 4) 4 p = le_bytes 4 (f_flags f)"
    "peek (off + 8) 8 p = le_bytes 8 (f_binder f)" "peek (off + 16) 8 p = le_bytes 8 (f_cookie f)"
    using k [of 0 4] k [of 4 4] k [of 8 8] k [of 16 8] by (simp_all add: flat_size_def flat_bytes_def)
  with assms(1) show ?thesis by (simp add: flat_at_def valid_flat_def)
qed

lemma peek_contents: "off + n \<le> p_size p \<Longrightarrow> p_size p \<le> length (p_data p) \<Longrightarrow> peek off n p = take n (drop off (contents p))"
  by (simp add: peek_def contents_def drop_take min_def)

lemma flat_at_extends:
  assumes "off + flat_size \<le> p_size p" "tail p" "extends p q"
  shows "flat_at off q = flat_at off p"
proof -
  from assms(3) obtain bs where c: "contents q = contents p @ bs" by (auto simp: extends_def)
  have l: "length (contents p) = p_size p" "length (contents q) = p_size q"
    using assms by (simp_all add: contents_def extends_def tail_def)
  have le: "p_size p \<le> p_size q" using c l by (metis length_append le_add1)
  have "peek (off + i) n q = peek (off + i) n p" if "i + n \<le> flat_size" for i n
  proof -
    have "off + i + n \<le> p_size p" using that assms(1) by simp
    then show ?thesis using peek_contents [of "off + i" n p] peek_contents [of "off + i" n q] le assms(2,3) c l(1)
      by (simp add: extends_def tail_def)
  qed
  from this [of 0 4] this [of 4 4] this [of 8 8] this [of 16 8] show ?thesis by (simp add: flat_at_def flat_size_def)
qed

text \<open>The parcels a sender can build by writing at the end, with the objects that went in.\<close>

inductive built :: "parcel_env \<Rightarrow> flat_object list \<Rightarrow> parcel \<Rightarrow> bool" for env where
  fresh: "built env [] new_parcel"
| aligned: "built env fs p \<Longrightarrow> writeAligned env k v p = Some (st, p') \<Longrightarrow> built env fs p'"
| unpadded: "built env fs p \<Longrightarrow> writeUnpadded env bs p = Some (st, p') \<Longrightarrow> built env fs p'"
| bytes: "built env fs p \<Longrightarrow> parcel_write env bs p = Some (st, p') \<Longrightarrow> built env fs p'"
| object: "built env fs p \<Longrightarrow> valid_flat f \<Longrightarrow> nullMetaData \<or> f_binder f \<noteq> 0 \<Longrightarrow>
    writeObject env f nullMetaData p = Some (OK, p') \<Longrightarrow> built env (fs @ [f]) p'"
| null_object: "built env fs p \<Longrightarrow> f_binder f = 0 \<Longrightarrow> writeObject env f False p = Some (st, p') \<Longrightarrow> built env fs p'"
| refused: "built env fs p \<Longrightarrow> writeObject env f nullMetaData p = Some (st, p') \<Longrightarrow> st \<noteq> OK \<Longrightarrow> built env fs p'"

definition holds :: "parcel_env \<Rightarrow> flat_object list \<Rightarrow> parcel \<Rightarrow> bool" where
  "holds env fs p \<longleftrightarrow> tail p \<and> (\<forall>off \<in> set (p_objects p). off + flat_size \<le> p_size p) \<and>
     map (\<lambda>off. flat_at off p) (p_objects p) = fs \<and> p_log p = concat (map (acquired env) fs)"

lemma extends_size: "extends p q \<Longrightarrow> tail p \<Longrightarrow> p_size p \<le> p_size q"
proof -
  assume e: "extends p q" "tail p"
  then obtain bs where "contents q = contents p @ bs" by (auto simp: extends_def)
  moreover have "length (contents p) = p_size p" "length (contents q) = p_size q"
    using e by (simp_all add: contents_def extends_def tail_def)
  ultimately show ?thesis by (metis length_append le_add1)
qed

lemma holds_extends:
  assumes "holds env fs p" "extends p q"
  shows "holds env fs q"
proof -
  have t: "tail p" using assms(1) by (simp add: holds_def)
  have "map (\<lambda>off. flat_at off q) (p_objects p) = map (\<lambda>off. flat_at off p) (p_objects p)"
    using assms(1) flat_at_extends [OF _ t assms(2)] by (intro map_cong) (auto simp: holds_def)
  moreover have "\<forall>off \<in> set (p_objects p). off + flat_size \<le> p_size q"
    using assms(1) extends_size [OF assms(2) t] by (auto simp: holds_def)
  ultimately show ?thesis using assms by (auto simp: holds_def extends_def)
qed

lemma reserve_extends: "tail p \<Longrightarrow> reserve_objects env n p = Some (st, q) \<Longrightarrow> extends p q \<and> p_size q = p_size p \<and>
    length (p_data q) = length (p_data p) \<and> p_allowFds q = p_allowFds p"
  by (auto simp: reserve_objects_def allocate_def Let_def extends_def tail_def contents_def split: if_splits option.splits)

text \<open>The room for an object, in the data and in the list.\<close>

lemma writeObject_room:
  assumes "sound_env env" "tail p" "writeObject env f nullMetaData p = Some (st, p')"
  obtains "extends p p'" "st \<noteq> OK"
  | p1 where "extends p p1" "p_pos p1 + flat_size \<le> length (p_data p1)" "put_object env f nullMetaData p1 = Some (st, p')"
proof -
  define g where "g = (if p_pos p + flat_size \<le> length (p_data p) then Some (OK, p) else growData env flat_size p)"
  have w: "writeObject env f nullMetaData p = and_then g
      (\<lambda>p1. and_then (if length (p_objects p) < p_ocap p then Some (OK, p1) else reserve_objects env 2 p1)
              (put_object env f nullMetaData))"
    by (simp add: writeObject_def g_def)
  obtain s1 p1 where g: "g = Some (s1, p1)" using assms(3) by (cases g) (auto simp: w and_then_def)
  have e1: "extends p p1" "s1 = OK \<Longrightarrow> p_pos p1 + flat_size \<le> length (p_data p1)"
    using g growData_extends [OF assms(1,2), of flat_size] extends_refl [OF assms(2)]
    by (auto simp: g_def split: if_splits)
  show thesis
  proof (cases "s1 = OK")
    case False
    with assms(3) e1(1) that(1) show thesis by (auto simp: w g and_then_def)
  next
    case True
    define r where "r = (if length (p_objects p) < p_ocap p then Some (OK, p1) else reserve_objects env 2 p1)"
    obtain s2 p2 where r: "r = Some (s2, p2)" using assms(3) True by (cases r) (auto simp: w g and_then_def r_def)
    have e2: "extends p1 p2" "p_size p2 = p_size p1" "length (p_data p2) = length (p_data p1)"
      using r extends_refl [of p1] reserve_extends [of p1 env 2] extends_tail [OF e1(1)] by (auto simp: r_def split: if_splits)
    have "extends p p2" using e1(1) e2(1) by (rule extends_trans)
    moreover have "p_pos p2 + flat_size \<le> length (p_data p2)"
      using e1 e2 True by (auto simp: extends_def tail_def)
    moreover have "(if s2 \<noteq> OK then Some (s2, p2) else put_object env f nullMetaData p2) = Some (st, p')"
      using assms(3) True r by (simp add: w g and_then_def r_def [symmetric])
    ultimately show thesis using that by (cases "s2 = OK") auto
  qed
qed

lemma acquire_frame:
  "p_data (acquire_object env f p) = p_data p" "p_size (acquire_object env f p) = p_size p"
  "p_pos (acquire_object env f p) = p_pos p" "p_objects (acquire_object env f p) = p_objects p"
  "tail (acquire_object env f p) = tail p"
  by (simp_all add: acquire_object_def tail_def)

lemma finish_object:
  "tail p \<Longrightarrow> finishWrite flat_size p = (OK, p\<lparr>p_pos := p_pos p + flat_size, p_size := p_size p + flat_size\<rparr>)"
  by (simp add: finishWrite_def flat_size_def INT32_MAX_def tail_def Let_def)

lemma put_object_holds:
  assumes "holds env fs p" "p_pos p + flat_size \<le> length (p_data p)" "put_object env f nullMetaData p = Some (st, p')"
  shows "st \<noteq> OK \<Longrightarrow> holds env fs p'"
    and "nullMetaData \<or> f_binder f \<noteq> 0 \<Longrightarrow> valid_flat f \<Longrightarrow> st = OK \<Longrightarrow> holds env (fs @ [f]) p'"
    and "\<not> nullMetaData \<Longrightarrow> f_binder f = 0 \<Longrightarrow> holds env fs p'"
proof -
  have t: "tail p" using assms(1) by (simp add: holds_def)
  then have pos: "p_pos p = p_size p" by (simp add: tail_def)
  define d where "d = take (p_size p) (p_data p) @ flat_bytes f @ drop (p_size p + flat_size) (p_data p)"
  let ?p1 = "p\<lparr>p_data := d\<rparr>"
  have poke: "poke (p_size p) (flat_bytes f) p = Some ?p1" using assms(2) pos by (simp add: poke_def d_def)
  have e1: "extends p ?p1" using poke_extends [OF t poke] by simp
  have d: "length d = length (p_data p)" using assms(2) pos by (simp add: d_def)
  have pk: "take flat_size (drop (p_size p) d) = flat_bytes f" using t assms(2) by (simp add: d_def tail_def)
  have at: "flat_at (p_size p) q = f" if "valid_flat f" "p_data q = d" for q
    using that pk by (intro flat_at_written) (simp_all add: peek_def)
  let ?fd = "f_type f = BINDER_TYPE_FD"
  define p2 where "p2 = (if ?fd then ?p1\<lparr>p_hasFds := True, p_fdsKnown := True\<rparr> else ?p1)"
  have f2: "p_data p2 = d" "p_size p2 = p_size p" "p_pos p2 = p_size p" "p_objects p2 = p_objects p" "p_log p2 = p_log p"
    using pos by (simp_all add: p2_def)
  have put: "put_object env f nullMetaData p =
    (if ?fd \<and> \<not> p_allowFds p then Some (FDS_NOT_ALLOWED, ?p1)
     else Some (finishWrite flat_size (if nullMetaData \<or> f_binder f \<noteq> 0
            then acquire_object env f (p2\<lparr>p_objects := p_objects p @ [p_size p]\<rparr>) else p2)))"
    by (simp add: put_object_def pos poke Let_def p2_def)
  have t2: "tail p2" "tail (p2\<lparr>p_objects := os\<rparr>)" for os using t d by (auto simp: tail_def p2_def)
  have fin: "extends p (p2\<lparr>p_pos := p_pos p2 + flat_size, p_size := p_size p2 + flat_size\<rparr>)"
  proof -
    have "extends p p2" using e1 by (auto simp: extends_def tail_def contents_def p2_def)
    moreover have "extends p2 (p2\<lparr>p_pos := p_pos p2 + flat_size, p_size := p_size p2 + flat_size\<rparr>)"
      using finish_tail [OF t2(1) _ finish_object [OF t2(1)]] assms(2) d pos f2 by simp
    ultimately show ?thesis by (rule extends_trans)
  qed
  show "holds env fs p'" if "st \<noteq> OK"
  proof -
    have "p' = ?p1"
      using that assms(3) finish_object t2 acquire_frame(5) by (auto simp: put split: if_splits)
    with holds_extends [OF assms(1) e1] show ?thesis by simp
  qed
  show "holds env fs p'" if "\<not> nullMetaData" "f_binder f = 0"
    using that assms(3) [unfolded put] holds_extends [OF assms(1) e1] holds_extends [OF assms(1) fin] finish_object [OF t2(1)]
    by (auto split: if_splits)
  show "holds env (fs @ [f]) p'" if l: "nullMetaData \<or> f_binder f \<noteq> 0" "valid_flat f" "st = OK"
  proof -
    let ?q = "acquire_object env f (p2\<lparr>p_objects := p_objects p @ [p_size p]\<rparr>)"
    let ?e = "p2\<lparr>p_pos := p_pos p2 + flat_size, p_size := p_size p2 + flat_size\<rparr>"
    have p': "p' = ?q\<lparr>p_pos := p_pos ?q + flat_size, p_size := p_size ?q + flat_size\<rparr>"
      using l assms(3) finish_object [of ?q] t2 acquire_frame(5)
      by (auto simp: put FDS_NOT_ALLOWED_def OK_def UNKNOWN_ERROR_def split: if_splits)
    have he: "holds env fs ?e" by (rule holds_extends [OF assms(1) fin])
    have data: "p_data p' = d" "p_size p' = p_size p + flat_size" "p_objects p' = p_objects p @ [p_size p]"
        "p_log p' = p_log p @ acquired env f"
      by (simp_all add: p' acquire_frame acquire_log f2)
    have tq: "tail ?q" using t2(2) acquire_frame(5) by blast
    have "extends ?q p'" unfolding p'
      by (rule finish_tail [OF tq _ finish_object [OF tq]]) (use assms(2) d pos f2 in \<open>simp add: acquire_frame\<close>)
    then have "tail p'" by (rule extends_tail)
    have "flat_at off p' = flat_at off ?e" for off using data(1) f2 by (simp add: flat_at_def peek_def)
    with \<open>tail p'\<close> show ?thesis using he data f2 at [OF l(2) data(1)] assms(1) by (auto simp: holds_def)
  qed
qed

lemma built_holds: "built env fs p \<Longrightarrow> sound_env env \<Longrightarrow> holds env fs p"
proof (induction rule: built.induct)
  case fresh
  then show ?case by (simp add: holds_def tail_def new_parcel_def)
next
  case (aligned fs p k v st p')
  then show ?case using writeAligned_extends holds_extends by (blast intro: holds_def [THEN iffD1, THEN conjunct1])
next
  case (unpadded fs p bs st p')
  then show ?case using writeUnpadded_extends holds_extends by (blast intro: holds_def [THEN iffD1, THEN conjunct1])
next
  case (bytes fs p bs st p')
  then show ?case using parcel_write_extends holds_extends by (blast intro: holds_def [THEN iffD1, THEN conjunct1])
next
  case (object fs p f nullMetaData p')
  then have h: "holds env fs p" "tail p" by (simp_all add: holds_def)
  from object.prems h(2) object.hyps(4) show ?case
    by (cases rule: writeObject_room) (use put_object_holds(2) holds_extends [OF h(1)] object.hyps in blast)+
next
  case (null_object fs p f st p')
  then have h: "holds env fs p" "tail p" by (simp_all add: holds_def)
  from null_object.prems h(2) null_object.hyps(3) show ?case
    by (cases rule: writeObject_room) (use put_object_holds(3) holds_extends [OF h(1)] null_object.hyps in blast)+
next
  case (refused fs p f nullMetaData st p')
  then have h: "holds env fs p" "tail p" by (simp_all add: holds_def)
  from refused.prems h(2) refused.hyps(2) show ?case
    by (cases rule: writeObject_room) (use put_object_holds(1) holds_extends [OF h(1)] refused.hyps in blast)+
qed


definition local_binder :: flat_object where
  "local_binder = \<lparr>f_type = BINDER_TYPE_BINDER, f_flags = 0x100, f_binder = 16, f_cookie = 32\<rparr>"

lemma local_binder_written: "\<exists>p. writeObject plain_env local_binder False new_parcel = Some (OK, p)"
proof -
  have len: "length (flat_bytes local_binder) = 24" by (simp add: flat_size_def)
  show ?thesis
    by (simp add: writeObject_def Let_def new_parcel_def flat_size_def growData_def INT32_MAX_def SIZE_MAX_def continueWrite_def
        objects_left_def allocate_def plain_env_def and_then_def reserve_objects_def put_object_def poke_def len
        finishWrite_def acquire_object_def local_binder_def BINDER_TYPE_BINDER_def BINDER_TYPE_FD_def OK_def)
qed



subsection \<open>Where writing goes wrong\<close>


text \<open>
  A string that does not fit is dropped without an error: \<open>writeString8\<close> appends the length of a string of
  \<open>INT32_MAX\<close> bytes or more, drops its bytes and returns \<open>NO_ERROR\<close>, because \<open>writeInplace\<close> refuses without
  setting \<open>mError\<close>.
\<close>

theorem long_string_dropped:
  assumes "plentiful env" "ready p" "fits p 4" "length s \<ge> INT32_MAX"
  shows "\<exists>p'. writeString8 env (Some s) p = Some (OK, p') \<and> contents p' = contents p @ le_bytes 4 (u32 (int (length s)))"
proof -
  from writeAligned_wrote [OF assms(1-3), of "u32 (int (length s))"] obtain p' where
    p': "writeInt32 env (int (length s)) p = Some (OK, p')" "wrote p (le_bytes 4 (u32 (int (length s)))) p'"
    unfolding writeInt32_def by blast
  have "put_inplace env (s @ [0]) p' = Some (OK, p')"
    using assms(4) wrote_ready [OF p'(2)] by (simp add: put_inplace_def writeInplace_def ready_def)
  with p' show ?thesis by (simp add: writeString8_def and_then_def wrote_def)
qed

theorem long_string_dropped_witness:
  "\<exists>p'. writeString8 plain_env (Some (replicate INT32_MAX 65)) new_parcel = Some (OK, p') \<and>
     contents p' = contents new_parcel @ le_bytes 4 (u32 (int INT32_MAX))"
  using long_string_dropped [OF plain_env_plentiful new_parcel_ready(1), of "replicate INT32_MAX 65"]
  by (simp add: fits_def new_parcel_ready INT32_MAX_def)

end
