(* ===== verification/Binder_Objects.thy ===== *)
theory Binder_Objects
  imports Parcel_Refs
begin

text \<open>
  Binder references in parcels: the stability a binder carries (\<open>Stability.cpp\<close>), how a reference is flattened
  into a \<open>flat_binder_object\<close> and back (\<open>flattenBinder\<close>, \<open>unflattenBinder\<close> of \<open>Parcel.cpp\<close>). Binders of the socket
  transport are refused by the code and appear only as such.
\<close>

unbundle bit_operations_syntax

subsection \<open>Stability\<close>

definition UNDECLARED :: nat where "UNDECLARED = 0"
definition VENDOR :: nat where "VENDOR = 3"
definition SYSTEM :: nat where "SYSTEM = 12"
definition VINTF :: nat where "VINTF = 63"

definition kBinderWireFormatOldest :: nat where "kBinderWireFormatOldest = 1"
definition kBinderWireFormatVersion :: nat where "kBinderWireFormatVersion = 1"

text \<open>A category in its 32-bit representation: the version in the first byte, the level in the last.\<close>

definition version_of :: "nat \<Rightarrow> nat" where "version_of repr = repr mod 2 ^ 8"
definition level_of :: "nat \<Rightarrow> nat" where "level_of repr = repr div 2 ^ 24 mod 2 ^ 8"

definition currentFromLevel :: "nat \<Rightarrow> nat" where
  "currentFromLevel level = kBinderWireFormatVersion + level * 2 ^ 24"

definition getLocalLevel :: nat where "getLocalLevel = SYSTEM"

definition isDeclaredLevel :: "nat \<Rightarrow> bool" where
  "isDeclaredLevel stability \<longleftrightarrow> stability = VENDOR \<or> stability = SYSTEM \<or> stability = VINTF"

definition check_stability :: "nat \<Rightarrow> nat \<Rightarrow> bool" where
  "check_stability provided required \<longleftrightarrow>
     (if level_of provided \<noteq> UNDECLARED \<and> \<not> isDeclaredLevel (level_of provided) then False
      else level_of provided AND required = required)"

text \<open>An \<open>IBinder\<close>: a local object, a proxy of the driver or of a socket, or neither.\<close>

record local_object =
  lo_weakrefs :: nat
  lo_pointer :: nat
  lo_policy :: nat
  lo_priority :: nat
  lo_requestingSid :: bool
  lo_inheritRt :: bool

datatype binder_kind = Local local_object | Proxy nat | RpcProxy | Other

record ibinder =
  ib_kind :: binder_kind
  ib_stability :: nat

definition getCategory :: "ibinder option \<Rightarrow> nat" where
  "getCategory bdr = (case bdr of None \<Rightarrow> currentFromLevel UNDECLARED | Some b \<Rightarrow> ib_stability b)"

definition setRepr :: "ibinder option \<Rightarrow> nat \<Rightarrow> bool \<Rightarrow> int \<times> ibinder option" where
  "setRepr bdr representation allowDowngrade =
     (if version_of representation < kBinderWireFormatOldest then (BAD_TYPE, bdr)
      else case bdr of
             None \<Rightarrow> (if level_of representation = UNDECLARED then OK else BAD_TYPE, None)
           | Some b \<Rightarrow>
               if \<not> isDeclaredLevel (level_of representation) then (BAD_TYPE, bdr)
               else if ib_stability b = representation then (OK, bdr)
               else
                 (let isAllowedDowngrade = allowDowngrade \<and> check_stability (ib_stability b) (level_of representation)
                  in if ib_stability b \<noteq> 0 \<and> \<not> isAllowedDowngrade then (BAD_TYPE, bdr)
                     else (OK, Some (b\<lparr>ib_stability := representation\<rparr>))))"

definition tryMarkCompilationUnit :: "ibinder option \<Rightarrow> ibinder option" where
  "tryMarkCompilationUnit bdr = snd (setRepr bdr (currentFromLevel getLocalLevel) False)"

text \<open>The marks abort when \<open>setRepr\<close> refuses.\<close>

definition mark_level :: "nat \<Rightarrow> bool \<Rightarrow> ibinder option \<Rightarrow> ibinder option option" where
  "mark_level level allowDowngrade bdr =
     (case setRepr bdr (currentFromLevel level) allowDowngrade of (st, b) \<Rightarrow> if st = OK then Some b else None)"

definition markCompilationUnit :: "ibinder option \<Rightarrow> ibinder option option" where
  "markCompilationUnit = mark_level getLocalLevel False"

definition markVintf :: "ibinder option \<Rightarrow> ibinder option option" where
  "markVintf = mark_level VINTF False"

definition markVndk :: "ibinder option \<Rightarrow> ibinder option option" where
  "markVndk = mark_level VENDOR False"

definition forceDowngradeToStability :: "nat \<Rightarrow> ibinder option \<Rightarrow> ibinder option option" where
  "forceDowngradeToStability level bdr =
     (case bdr of
        Some b \<Rightarrow> (case ib_kind b of Local _ \<Rightarrow> mark_level level True bdr | _ \<Rightarrow> None)
      | None \<Rightarrow> None)"

definition requiresVintfDeclaration :: "ibinder option \<Rightarrow> bool" where
  "requiresVintfDeclaration bdr = check_stability (getCategory bdr) VINTF"


subsection \<open>Flattening\<close>

definition FLAT_BINDER_FLAG_ACCEPTS_FDS :: nat where "FLAT_BINDER_FLAG_ACCEPTS_FDS = 0x100"
definition FLAT_BINDER_FLAG_INHERIT_RT :: nat where "FLAT_BINDER_FLAG_INHERIT_RT = 0x800"
definition FLAT_BINDER_FLAG_TXN_SECURITY_CTX :: nat where "FLAT_BINDER_FLAG_TXN_SECURITY_CTX = 0x1000"

definition schedPolicyMask :: "nat \<Rightarrow> nat \<Rightarrow> nat" where
  "schedPolicyMask policy priority = (priority AND 0xff) OR push_bit 9 (policy AND 3)"

definition flat_of :: "bool \<Rightarrow> ibinder option \<Rightarrow> int + flat_object" where
  "flat_of backgroundSchedulingDisabled bdr =
     (let schedBits = (if backgroundSchedulingDisabled then 0 else schedPolicyMask 0 19)
      in case bdr of
           None \<Rightarrow> Inr \<lparr>f_type = BINDER_TYPE_BINDER, f_flags = FLAT_BINDER_FLAG_ACCEPTS_FDS OR schedBits, f_binder = 0, f_cookie = 0\<rparr>
         | Some b \<Rightarrow>
             (case ib_kind b of
                Local l \<Rightarrow>
                  (let schedBits = (if lo_policy l \<noteq> 0 \<or> lo_priority l \<noteq> 0 then schedPolicyMask (lo_policy l) (lo_priority l) else schedBits);
                       flags = (FLAT_BINDER_FLAG_ACCEPTS_FDS OR (if lo_requestingSid l then FLAT_BINDER_FLAG_TXN_SECURITY_CTX else 0))
                                 OR (if lo_inheritRt l then FLAT_BINDER_FLAG_INHERIT_RT else 0)
                   in Inr \<lparr>f_type = BINDER_TYPE_BINDER, f_flags = flags OR schedBits, f_binder = lo_weakrefs l, f_cookie = lo_pointer l\<rparr>)
              | Proxy handle \<Rightarrow>
                  Inr \<lparr>f_type = BINDER_TYPE_HANDLE, f_flags = FLAT_BINDER_FLAG_ACCEPTS_FDS OR schedBits, f_binder = handle, f_cookie = 0\<rparr>
              | RpcProxy \<Rightarrow> Inl INVALID_OPERATION
              | Other \<Rightarrow>
                  Inr \<lparr>f_type = BINDER_TYPE_HANDLE, f_flags = FLAT_BINDER_FLAG_ACCEPTS_FDS OR schedBits, f_binder = 0, f_cookie = 0\<rparr>))"

text \<open>The stability of a binder that is neither local nor a proxy is read through a null pointer.\<close>

definition finishFlattenBinder :: "parcel_env \<Rightarrow> ibinder option \<Rightarrow> parcel \<Rightarrow> (int \<times> ibinder option \<times> parcel) option" where
  "finishFlattenBinder env bdr p =
     (if map_option ib_kind bdr = Some Other then None
      else
        (let b = tryMarkCompilationUnit bdr
         in map_option (\<lambda>(st, p1). (st, b, p1)) (writeInt32 env (signed 32 (getCategory b)) p)))"

text \<open>\<open>flattenBinder\<close> may mark the bdr, which it also returns.\<close>

definition flattenBinder :: "parcel_env \<Rightarrow> bool \<Rightarrow> ibinder option \<Rightarrow> parcel \<Rightarrow> (int \<times> ibinder option \<times> parcel) option" where
  "flattenBinder env backgroundSchedulingDisabled bdr p =
     (case flat_of backgroundSchedulingDisabled bdr of
        Inl err \<Rightarrow> Some (err, bdr, p)
      | Inr obj \<Rightarrow>
          (case writeObject env obj False p of
             None \<Rightarrow> None
           | Some (st, p1) \<Rightarrow> if st \<noteq> OK then Some (st, bdr, p1) else finishFlattenBinder env bdr p1))"

definition finishUnflattenBinder :: "ibinder option \<Rightarrow> parcel \<Rightarrow> ibinder option reading" where
  "finishUnflattenBinder bdr p =
     read_then (readUint32 p)
       (\<lambda>stability p1.
          case setRepr bdr stability False of (st, b) \<Rightarrow> Some (if st \<noteq> OK then Inl st else Inr b, p1))"

text \<open>
  \<open>existing cookie\<close> is the local object at an address, \<open>proxy_for handle\<close> what \<open>getStrongProxyForHandle\<close> finds.
\<close>

definition unflattenBinder :: "(nat \<Rightarrow> ibinder option) \<Rightarrow> (nat \<Rightarrow> ibinder option) \<Rightarrow> parcel \<Rightarrow> ibinder option reading" where
  "unflattenBinder existing proxy_for p =
     (case readObject False p of
        None \<Rightarrow> None
      | Some (None, p1) \<Rightarrow> Some (Inl BAD_TYPE, p1)
      | Some (Some flat, p1) \<Rightarrow>
          if f_type flat = BINDER_TYPE_BINDER then finishUnflattenBinder (existing (f_cookie flat)) p1
          else if f_type flat = BINDER_TYPE_HANDLE then finishUnflattenBinder (proxy_for (f_handle flat)) p1
          else Some (Inl BAD_TYPE, p1))"

definition readStrongBinder :: "(nat \<Rightarrow> ibinder option) \<Rightarrow> (nat \<Rightarrow> ibinder option) \<Rightarrow> parcel \<Rightarrow> ibinder option reading" where
  "readStrongBinder existing proxy_for p =
     read_then (unflattenBinder existing proxy_for p)
       (\<lambda>b p1. Some (if b = None then Inl UNEXPECTED_NULL else Inr b, p1))"


subsection \<open>Stability is never raised\<close>

text \<open>Anything that sets the stability of a binder: marks, downgrades and references read from parcels.\<close>

inductive stability_step :: "ibinder \<Rightarrow> ibinder \<Rightarrow> bool" where
  "setRepr (Some b) representation allowDowngrade = (st, Some b') \<Longrightarrow> stability_step b b'"

definition settled :: "ibinder \<Rightarrow> bool" where
  "settled b \<longleftrightarrow> ib_stability b = 0 \<or>
     version_of (ib_stability b) \<ge> kBinderWireFormatOldest \<and> isDeclaredLevel (level_of (ib_stability b))"

definition within_level :: "ibinder \<Rightarrow> ibinder \<Rightarrow> bool" where
  "within_level b b' \<longleftrightarrow> ib_stability b' \<noteq> 0 \<and>
     level_of (ib_stability b) AND level_of (ib_stability b') = level_of (ib_stability b')"

lemma settled_step: "stability_step b b' \<Longrightarrow> settled b \<Longrightarrow> settled b'"
  by (auto elim!: stability_step.cases simp: setRepr_def settled_def Let_def split: if_splits)

lemma declared_nonzero: "isDeclaredLevel (level_of r) \<Longrightarrow> r \<noteq> 0"
  by (auto simp: isDeclaredLevel_def level_of_def VENDOR_def SYSTEM_def VINTF_def)

lemma within_step: "stability_step b b' \<Longrightarrow> ib_stability b \<noteq> 0 \<Longrightarrow> within_level b b'"
  using declared_nonzero
  by (auto elim!: stability_step.cases simp: setRepr_def within_level_def check_stability_def Let_def split: if_splits)

lemma within_trans: "within_level a b \<Longrightarrow> within_level b c \<Longrightarrow> within_level a c"
  by (metis and.assoc within_level_def)

text \<open>
  C35. Whatever marks, downgrades and parcels do to a binder in whatever order, its stability is unset or a
  declared level of a supported version, and once set it never gains a level: the interfaces that may use
  the binder only shrink.
\<close>

theorem stability_never_raised:
  assumes "stability_step\<^sup>*\<^sup>* b b'" "settled b"
  shows "settled b' \<and> (ib_stability b \<noteq> 0 \<longrightarrow> ib_stability b' \<noteq> 0 \<and>
    level_of (ib_stability b) AND level_of (ib_stability b') = level_of (ib_stability b'))"
proof -
  have "settled b' \<and> (ib_stability b \<noteq> 0 \<longrightarrow> within_level b b')"
    using assms
  proof (induction rule: rtranclp_induct)
    case base
    then show ?case by (simp add: within_level_def)
  next
    case (step y z)
    then have y: "settled y" "ib_stability b \<noteq> 0 \<longrightarrow> within_level b y" by simp_all
    then have "ib_stability b \<noteq> 0 \<longrightarrow> within_level y z" using within_step [OF step.hyps(2)] by (simp add: within_level_def)
    with y settled_step [OF step.hyps(2)] within_trans show ?case by blast
  qed
  then show ?thesis by (simp add: within_level_def)
qed

theorem stability_never_raised_witness:
  "\<exists>b'. forceDowngradeToStability SYSTEM (Some \<lparr>ib_kind = Local \<lparr>lo_weakrefs = 16, lo_pointer = 32, lo_policy = 0, lo_priority = 0,
      lo_requestingSid = False, lo_inheritRt = False\<rparr>, ib_stability = currentFromLevel VINTF\<rparr>) = Some (Some b') \<and>
    settled b' \<and> VINTF AND level_of (ib_stability b') = level_of (ib_stability b')"
proof -
  let ?b = "\<lparr>ib_kind = Local \<lparr>lo_weakrefs = 16, lo_pointer = 32, lo_policy = 0, lo_priority = 0,
      lo_requestingSid = False, lo_inheritRt = False\<rparr>, ib_stability = currentFromLevel VINTF\<rparr>"
  let ?b' = "?b\<lparr>ib_stability := currentFromLevel SYSTEM\<rparr>"
  note defs = version_of_def level_of_def currentFromLevel_def kBinderWireFormatVersion_def kBinderWireFormatOldest_def
    isDeclaredLevel_def VENDOR_def SYSTEM_def VINTF_def UNDECLARED_def
  have s: "setRepr (Some ?b) (currentFromLevel SYSTEM) True = (OK, Some ?b')"
    by (simp add: setRepr_def check_stability_def defs Let_def)
  have "stability_step ?b ?b'" using stability_step.intros [OF s] by simp
  moreover have "settled ?b" by (simp add: settled_def defs)
  ultimately have "settled ?b' \<and> (ib_stability ?b \<noteq> 0 \<longrightarrow> ib_stability ?b' \<noteq> 0 \<and>
      level_of (ib_stability ?b) AND level_of (ib_stability ?b') = level_of (ib_stability ?b'))"
    by (intro stability_never_raised) auto
  moreover have "level_of (ib_stability ?b) = VINTF" "ib_stability ?b \<noteq> 0" by (simp_all add: defs)
  ultimately show ?thesis using s by (auto simp: forceDowngradeToStability_def mark_level_def)
qed


subsection \<open>References come back\<close>

lemma acquire_more:
  "p_owner (acquire_object env f p) = p_owner p" "p_alloc (acquire_object env f p) = p_alloc p"
  "p_error (acquire_object env f p) = p_error p"
  by (simp_all add: acquire_object_def)

lemma writeObject_wrote:
  assumes "plentiful env" "ready p" "fits p flat_size" "p_objects p = []" "f_type f \<noteq> BINDER_TYPE_FD"
  shows "\<exists>q. writeObject env f False p = Some (OK, q) \<and> ready q \<and> p_alloc q \<and> contents q = contents p @ flat_bytes f \<and>
    p_size q = p_size p + flat_size \<and> p_objects q = (if f_binder f \<noteq> 0 then [p_size p] else [])"
proof -
  have need: "0 < flat_size" by (simp add: flat_size_def)
  obtain p1 where p1: "ensure_room env flat_size p = Some (OK, p1)" "ready p1" "contents p1 = contents p"
      "p_pos p1 + flat_size \<le> length (p_data p1)" "p_alloc p1" "p_size p1 = p_size p" "frame p1 = frame p"
    using ensure_room_ready [OF assms(1-3)] need by metis
  note fr = frame_fields [OF p1(7)]
  define r where "r = (if 0 < p_ocap p then Some (OK, p1) else reserve_objects env 2 p1)"
  have "\<exists>p2. r = Some (OK, p2) \<and> (\<exists>k c. p2 = p1\<lparr>p_calls := k, p_ocap := c\<rparr>)"
  proof (cases "0 < p_ocap p")
    case True
    moreover have "p1 = p1\<lparr>p_calls := p_calls p1, p_ocap := p_ocap p1\<rparr>" by simp
    ultimately show ?thesis unfolding r_def by (metis (full_types))
  next
    case False
    obtain bs where "e_alloc env (p_calls p1) 24 = Some bs" using assms(1) unfolding plentiful_def by blast
    then show ?thesis using False fr(1) assms(4)
      by (auto simp: r_def reserve_objects_def allocate_def Let_def SIZE_MAX_def)
  qed
  then obtain p2 k c where p2: "r = Some (OK, p2)" "p2 = p1\<lparr>p_calls := k, p_ocap := c\<rparr>" by blast
  have w: "writeObject env f False p = put_object env f False p2"
    using p1(1) p2(1) assms(4) by (auto simp: writeObject_def and_then_def ensure_room_def r_def Let_def split: if_splits)
  have h: "ready p2" "tail p2" "p_size p2 = p_size p" "p_pos p2 = p_size p" "p_objects p2 = []" "contents p2 = contents p"
      "p_pos p2 + flat_size \<le> length (p_data p2)" "p_alloc p2"
    using p1 fr(1) assms(4) unfolding p2(2) by (auto simp: ready_def tail_def contents_def)
  let ?d = "take (p_size p) (p_data p2) @ flat_bytes f @ drop (p_size p + flat_size) (p_data p2)"
  let ?os = "if f_binder f \<noteq> 0 then [p_size p] else []"
  have poke: "poke (p_size p) (flat_bytes f) p2 = Some (p2\<lparr>p_data := ?d\<rparr>)" using h(4,7) by (simp add: poke_def)
  define q0 where "q0 = (if f_binder f \<noteq> 0 then acquire_object env f (p2\<lparr>p_data := ?d, p_objects := [p_size p]\<rparr>) else p2\<lparr>p_data := ?d\<rparr>)"
  have q0: "p_data q0 = ?d" "p_size q0 = p_size p" "p_pos q0 = p_size p" "p_objects q0 = ?os" "p_owner q0 = p_owner p2"
      "p_alloc q0" "p_error q0 = p_error p2"
    using h by (simp_all add: q0_def acquire_frame acquire_more)
  have "put_object env f False p2 = Some (finishWrite flat_size q0)"
    using assms(5) h by (simp add: put_object_def poke q0_def)
  moreover have "finishWrite flat_size q0 = (OK, q0\<lparr>p_pos := p_size p + flat_size, p_size := p_size p + flat_size\<rparr>)"
    using q0 by (simp add: finishWrite_def flat_size_def INT32_MAX_def Let_def)
  moreover have "take (p_size p + flat_size) ?d = contents p @ flat_bytes f"
    using h(3,4,6,7) assms(2) by (simp add: contents_def ready_def)
  moreover have "contents (q0\<lparr>p_pos := p_size p + flat_size, p_size := p_size p + flat_size\<rparr>) = contents p @ flat_bytes f"
    using calculation(3) q0(1) by (simp add: contents_def)
  moreover have "length ?d = length (p_data p2)" using h(4,7) by simp
  then have "ready (q0\<lparr>p_pos := p_size p + flat_size, p_size := p_size p + flat_size\<rparr>)"
    using q0 h(1,4,7) by (simp add: ready_def del: length_append)
  ultimately show ?thesis using w q0 by simp
qed

lemma or_less: "a < 2 ^ n \<Longrightarrow> b < 2 ^ n \<Longrightarrow> a OR b < 2 ^ n" for a b :: nat
  by (metis take_bit_nat_eq_self take_bit_nat_less_exp take_bit_or)

lemma schedPolicyMask_less: "schedPolicyMask policy priority < 2 ^ 16"
proof -
  have "priority AND 0xff = priority mod 256"
    using take_bit_eq_mask [of 8 priority] by (simp add: take_bit_eq_mod mask_eq_exp_minus_1)
  then have "priority AND 0xff < 2 ^ 16" using mod_less_divisor [of 256 priority] by simp
  moreover have "push_bit 9 (policy AND 3) < 2 ^ 16"
    using mod_less_divisor [of 4 policy] by (simp add: push_bit_eq_mult and_mask_mod_3)
  ultimately show ?thesis unfolding schedPolicyMask_def by (rule or_less)
qed

text \<open>A binder that can be sent, with addresses in range.\<close>

definition sendable :: "ibinder option \<Rightarrow> bool" where
  "sendable bdr \<longleftrightarrow>
     (case bdr of
        None \<Rightarrow> True
      | Some b \<Rightarrow> settled b \<and> ib_stability b < 2 ^ 32 \<and>
          (case ib_kind b of
             Local l \<Rightarrow> 0 < lo_weakrefs l \<and> lo_weakrefs l < 2 ^ 64 \<and> 0 < lo_pointer l \<and> lo_pointer l < 2 ^ 64
           | Proxy h \<Rightarrow> h < 2 ^ 32
           | _ \<Rightarrow> False))"

text \<open>The tables of the receiver lead to the binder that was sent.\<close>

definition leads_to :: "(nat \<Rightarrow> ibinder option) \<Rightarrow> (nat \<Rightarrow> ibinder option) \<Rightarrow> ibinder option \<Rightarrow> bool" where
  "leads_to existing proxy_for bdr \<longleftrightarrow> existing 0 = None \<and>
     (case bdr of
        None \<Rightarrow> True
      | Some b \<Rightarrow> (case ib_kind b of Local l \<Rightarrow> existing (lo_pointer l) = bdr | Proxy h \<Rightarrow> proxy_for h = bdr | _ \<Rightarrow> False))"

lemmas stability_defs = version_of_def level_of_def currentFromLevel_def kBinderWireFormatVersion_def
  kBinderWireFormatOldest_def isDeclaredLevel_def VENDOR_def SYSTEM_def VINTF_def UNDECLARED_def getLocalLevel_def

lemma tryMark_sendable:
  assumes "sendable bdr"
  shows "setRepr (tryMarkCompilationUnit bdr) (getCategory (tryMarkCompilationUnit bdr)) False = (OK, tryMarkCompilationUnit bdr)"
    "getCategory (tryMarkCompilationUnit bdr) < 2 ^ 32" "map_option ib_kind (tryMarkCompilationUnit bdr) = map_option ib_kind bdr"
proof -
  have cur: "version_of (currentFromLevel SYSTEM) = 1" "level_of (currentFromLevel SYSTEM) = SYSTEM" "isDeclaredLevel SYSTEM"
      "currentFromLevel SYSTEM < 2 ^ 32"
    by (simp_all add: stability_defs)
  have m: "tryMarkCompilationUnit bdr = (case bdr of None \<Rightarrow> None
      | Some b \<Rightarrow> Some (if ib_stability b = 0 then b\<lparr>ib_stability := currentFromLevel SYSTEM\<rparr> else b))"
    using cur by (auto simp: tryMarkCompilationUnit_def setRepr_def Let_def getLocalLevel_def kBinderWireFormatOldest_def split: option.splits)
  show "setRepr (tryMarkCompilationUnit bdr) (getCategory (tryMarkCompilationUnit bdr)) False = (OK, tryMarkCompilationUnit bdr)"
    using assms cur unfolding m
    by (auto simp: setRepr_def getCategory_def sendable_def settled_def kBinderWireFormatOldest_def split: option.splits)
      (simp_all add: stability_defs)
  show "getCategory (tryMarkCompilationUnit bdr) < 2 ^ 32"
    using assms cur(4) unfolding m by (auto simp: getCategory_def sendable_def split: option.splits) (simp add: stability_defs)
  show "map_option ib_kind (tryMarkCompilationUnit bdr) = map_option ib_kind bdr" unfolding m by (simp split: option.splits)
qed

lemma flat_of_sendable:
  assumes "sendable bdr" "leads_to existing proxy_for (tryMarkCompilationUnit bdr)"
  obtains f where "flat_of bg bdr = Inr f" "valid_flat f" "f_type f \<noteq> BINDER_TYPE_FD"
    "f_binder f \<noteq> 0 \<or> f_cookie f = 0"
    "(if f_type f = BINDER_TYPE_BINDER then existing (f_cookie f) else proxy_for (f_handle f)) = tryMarkCompilationUnit bdr"
    "f_type f = BINDER_TYPE_BINDER \<or> f_type f = BINDER_TYPE_HANDLE"
proof -
  note mark = tryMark_sendable(3) [OF assms(1)]
  have c: "FLAT_BINDER_FLAG_ACCEPTS_FDS < 2 ^ 16" "FLAT_BINDER_FLAG_TXN_SECURITY_CTX < 2 ^ 16" "FLAT_BINDER_FLAG_INHERIT_RT < 2 ^ 16"
    by (simp_all add: FLAT_BINDER_FLAG_ACCEPTS_FDS_def FLAT_BINDER_FLAG_INHERIT_RT_def FLAT_BINDER_FLAG_TXN_SECURITY_CTX_def)
  have small: "m < 2 ^ 16 \<Longrightarrow> m < 2 ^ 32" for m :: nat by simp
  note flat_simps = flat_of_def valid_flat_def Let_def BINDER_TYPE_BINDER_def BINDER_TYPE_HANDLE_def BINDER_TYPE_FD_def f_handle_def
  show thesis
  proof (cases bdr)
    case None
    then have "tryMarkCompilationUnit bdr = None" using mark by simp
    moreover have "FLAT_BINDER_FLAG_ACCEPTS_FDS OR (if bg then 0 else schedPolicyMask 0 19) < 2 ^ 32"
      by (rule small) (use c schedPolicyMask_less in \<open>intro or_less; auto\<close>)
    ultimately show thesis using that assms(2) None by (simp add: flat_simps leads_to_def)
  next
    case (Some b)
    then obtain b1 where b1: "tryMarkCompilationUnit bdr = Some b1" "ib_kind b1 = ib_kind b" using mark by auto
    consider l where "ib_kind b = Local l" | h where "ib_kind b = Proxy h" "h < 2 ^ 32"
      using assms(1) Some by (auto simp: sendable_def split: binder_kind.splits)
    then show thesis
    proof cases
      case (1 l)
      have "((FLAT_BINDER_FLAG_ACCEPTS_FDS OR (if lo_requestingSid l then FLAT_BINDER_FLAG_TXN_SECURITY_CTX else 0)) OR (if lo_inheritRt l then FLAT_BINDER_FLAG_INHERIT_RT else 0)) OR
          (if lo_policy l \<noteq> 0 \<or> lo_priority l \<noteq> 0 then schedPolicyMask (lo_policy l) (lo_priority l)
           else if bg then 0 else schedPolicyMask 0 19) < 2 ^ 32"
        by (rule small) (use c schedPolicyMask_less in \<open>intro or_less; auto\<close>)
      then show thesis using that assms 1 Some b1 by (simp add: flat_simps leads_to_def sendable_def)
    next
      case (2 h)
      have "FLAT_BINDER_FLAG_ACCEPTS_FDS OR (if bg then 0 else schedPolicyMask 0 19) < 2 ^ 32"
        by (rule small) (use c schedPolicyMask_less in \<open>intro or_less; auto\<close>)
      then show thesis using that assms 2 Some b1 by (simp add: flat_simps leads_to_def sendable_def)
    qed
  qed
qed

lemma readObject_here:
  assumes "p_objects p = (if f_binder f \<noteq> 0 then [p_pos p] else [])" "f_binder f \<noteq> 0 \<or> f_cookie f = 0"
    "p_pos p + flat_size \<le> p_size p" "p_size p \<le> length (p_data p)" "flat_at (p_pos p) p = f"
  shows "\<exists>h. readObject False p = Some (Some f, p\<lparr>p_pos := p_pos p + flat_size, p_hint := h\<rparr>) \<and> (f_binder f \<noteq> 0 \<longrightarrow> h = 1)"
proof (cases "f_binder f = 0")
  case True
  then have "readObject False p = Some (Some f, p\<lparr>p_pos := p_pos p + flat_size, p_hint := p_hint p\<rparr>)"
    using assms by (simp add: readObject_def Let_def)
  with True show ?thesis by blast
next
  case False
  then have "find_object (p_objects p) (p_pos p) (p_hint p) = Some 0"
    using assms(1) by (auto simp: find_object_def Let_def seek_forward.simps [of "[p_pos p]"])
  then have "readObject False p = Some (Some f, p\<lparr>p_pos := p_pos p + flat_size, p_hint := 1\<rparr>)"
    using assms False by (simp add: readObject_def Let_def)
  then show ?thesis by blast
qed

text \<open>
  C22. A binder reference written with \<open>flattenBinder\<close> and read with \<open>unflattenBinder\<close> in the same process is the
  same binder, null included, marked with the stability of this library when it had none.
\<close>

theorem binder_roundtrip:
  assumes "sendable b" "leads_to existing proxy_for (tryMarkCompilationUnit b)" "plentiful env" "ready p" "p_objects p = []"
    "fits p (flat_size + 4)"
  shows "\<exists>p1 p2 p3. flattenBinder env bg b p = Some (OK, tryMarkCompilationUnit b, p1) \<and>
    setDataPosition (p_pos p) p1 = Some p2 \<and> unflattenBinder existing proxy_for p2 = Some (Inr (tryMarkCompilationUnit b), p3)"
proof -
  let ?m = "tryMarkCompilationUnit b"
  note mark = tryMark_sendable [OF assms(1)]
  obtain f where f: "flat_of bg b = Inr f" "valid_flat f" "f_type f \<noteq> BINDER_TYPE_FD" "f_binder f \<noteq> 0 \<or> f_cookie f = 0"
      "(if f_type f = BINDER_TYPE_BINDER then existing (f_cookie f) else proxy_for (f_handle f)) = ?m"
      "f_type f = BINDER_TYPE_BINDER \<or> f_type f = BINDER_TYPE_HANDLE"
    using flat_of_sendable [OF assms(1,2)] by metis
  obtain q where q: "writeObject env f False p = Some (OK, q)" "ready q" "p_alloc q" "contents q = contents p @ flat_bytes f"
      "p_size q = p_size p + flat_size" "p_objects q = (if f_binder f \<noteq> 0 then [p_size p] else [])"
    using writeObject_wrote [OF assms(3,4) _ assms(5) f(3)] fits_less [OF assms(6), of flat_size] by auto
  have fq: "fits q 4" using assms(6) q(5) by (simp add: fits_def add.assoc)
  have s32: "u32 (signed 32 (getCategory ?m)) = getCategory ?m" using mark(2) by (auto simp: u32_def signed_def)
  obtain p1 where p1: "writeInt32 env (signed 32 (getCategory ?m)) q = Some (OK, p1)" "wrote q (le_bytes 4 (getCategory ?m)) p1"
    using writeAligned_wrote [OF assms(3) q(2) fq, of "getCategory ?m"] by (auto simp: writeInt32_def s32)
  have k: "map_option ib_kind b \<noteq> Some Other" using assms(1) by (auto simp: sendable_def)
  have flat: "flattenBinder env bg b p = Some (OK, ?m, p1)"
    using f(1) q(1) k p1(1) by (simp add: flattenBinder_def finishFlattenBinder_def Let_def)
  have w: "ready p1" "contents p1 = contents p @ flat_bytes f @ le_bytes 4 (getCategory ?m)" "p_alloc p1"
      "p_size p1 = p_size p + flat_size + 4" "p_objects p1 = (if f_binder f \<noteq> 0 then [p_size p] else [])"
    using p1(2) q frame_fields(1) [of p1 q] by (auto simp: wrote_def)
  let ?p2 = "p1\<lparr>p_pos := p_size p, p_hint := 0, p_sorted := False\<rparr>"
  have small: "p_size p1 \<le> INT32_MAX" using fits_small(2) [OF assms(6)] w(4) by simp
  have pos: "p_pos p = p_size p" "length (contents p) = p_size p" "p_size p1 \<le> length (p_data p1)"
    using assms(4) w(1) by (simp_all add: ready_def contents_def)
  have seek: "setDataPosition (p_pos p) p1 = Some ?p2" using small w(4) pos by (simp add: setDataPosition_def)
  have "peek (p_size p) flat_size ?p2 = flat_bytes f"
    using peek_contents [of "p_size p" flat_size p1] w(2,4) pos by (simp add: peek_def)
  then have at: "flat_at (p_size p) ?p2 = f" using flat_at_written [OF f(2)] by blast
  have "\<exists>h. readObject False ?p2 = Some (Some f, ?p2\<lparr>p_pos := p_pos ?p2 + flat_size, p_hint := h\<rparr>) \<and> (f_binder f \<noteq> 0 \<longrightarrow> h = 1)"
    by (rule readObject_here) (use f(4) w(4,5) pos at in simp_all)
  then obtain h where h: "readObject False ?p2 = Some (Some f, ?p2\<lparr>p_pos := p_size p + flat_size, p_hint := h\<rparr>)" "f_binder f \<noteq> 0 \<longrightarrow> h = 1"
    by auto
  let ?p3 = "?p2\<lparr>p_pos := p_size p + flat_size, p_hint := h\<rparr>"
  have "peek (p_size p + flat_size) 4 p1 = le_bytes 4 (getCategory ?m)"
    using peek_contents [of "p_size p + flat_size" 4 p1] w(2,4) pos by simp
  then have pk: "fetch (p_size p + flat_size) 4 ?p3 = Some (le_bytes 4 (getCategory ?m))"
    using w(4) pos by (simp add: fetch_def peek_def)
  have "permit 4 ?p3 = (OK, ?p3\<lparr>p_pos := p_size p + flat_size + 4, p_hint := h\<rparr>)"
    using h(2) w(5) by (auto simp: permit_def validateReadData_def check_objects_def skip_objects.simps)
  then have "readUint32 ?p3 = Some (Inr (getCategory ?m), ?p3\<lparr>p_pos := p_size p + flat_size + 4, p_hint := h\<rparr>)"
    using w(4) pos mark(2) pk by (simp add: readUint32_def readAligned_def)
  then have "finishUnflattenBinder ?m ?p3 = Some (Inr ?m, ?p3\<lparr>p_pos := p_size p + flat_size + 4, p_hint := h\<rparr>)"
    using mark(1) by (simp add: finishUnflattenBinder_def)
  then have "unflattenBinder existing proxy_for ?p2 = Some (Inr ?m, ?p3\<lparr>p_pos := p_size p + flat_size + 4, p_hint := h\<rparr>)"
    using h(1) f(5,6) by (auto simp: unflattenBinder_def split: if_splits)
  with flat seek show ?thesis by blast
qed

theorem binder_roundtrip_witness:
  "\<exists>p1 p2 p3. flattenBinder plain_env False (Some \<lparr>ib_kind = Proxy 3, ib_stability = currentFromLevel VINTF\<rparr>) new_parcel
      = Some (OK, Some \<lparr>ib_kind = Proxy 3, ib_stability = currentFromLevel VINTF\<rparr>, p1) \<and>
    setDataPosition 0 p1 = Some p2 \<and>
    unflattenBinder (\<lambda>c. None) (\<lambda>h. if h = 3 then Some \<lparr>ib_kind = Proxy 3, ib_stability = currentFromLevel VINTF\<rparr> else None) p2
      = Some (Inr (Some \<lparr>ib_kind = Proxy 3, ib_stability = currentFromLevel VINTF\<rparr>), p3)"
proof -
  let ?b = "Some \<lparr>ib_kind = Proxy 3, ib_stability = currentFromLevel VINTF\<rparr>"
  have m: "tryMarkCompilationUnit ?b = ?b" by (simp add: tryMarkCompilationUnit_def setRepr_def stability_defs Let_def)
  have "sendable ?b" by (simp add: sendable_def settled_def stability_defs)
  moreover have "leads_to (\<lambda>c. None) (\<lambda>h. if h = 3 then ?b else None) (tryMarkCompilationUnit ?b)"
    by (simp add: m leads_to_def)
  moreover have "fits new_parcel (flat_size + 4)" by (simp add: fits_def new_parcel_ready flat_size_def INT32_MAX_def)
  ultimately show ?thesis
    using binder_roundtrip [of ?b "\<lambda>c. None" "\<lambda>h. if h = 3 then ?b else None" plain_env new_parcel False]
      plain_env_plentiful new_parcel_ready(1,2) by (simp add: m) (simp add: new_parcel_def)
qed

end
