(* ===== verification/Ipc_Driver.thy ===== *)
theory Ipc_Driver
  imports Ipc_Thread Binder_Objects
begin

text \<open>
  The half of \<open>IPCThreadState\<close> (\<open>frameworks/native/libs/binder/IPCThreadState.cpp\<close>) that talks to the driver:
  commands queued in \<open>mOut\<close> and received in \<open>mIn\<close>, the exchange with the driver, references that wait for
  it, and the commands about handles. The two parcels are lists of commands: each one is written and read
  whole. What the driver answers to each \<open>ioctl\<close> is a script.
\<close>

subsection \<open>The driver's protocol\<close>

text \<open>
  \<open>struct binder_transaction_data\<close>: \<open>td_buffer\<close> is the address of the data and names it when it is freed,
  \<open>td_data\<close> and \<open>td_offsets\<close> are its contents.
\<close>

record transaction_data =
  td_target :: nat
  td_cookie :: nat
  td_code :: nat
  td_flags :: nat
  td_sender_pid :: int
  td_sender_euid :: int
  td_buffer :: nat
  td_data :: "nat list"
  td_offsets :: "nat list"

definition TF_ONE_WAY :: nat where "TF_ONE_WAY = 0x01"
definition TF_STATUS_CODE :: nat where "TF_STATUS_CODE = 0x08"
definition TF_ACCEPT_FDS :: nat where "TF_ACCEPT_FDS = 0x10"
definition TF_CLEAR_BUF :: nat where "TF_CLEAR_BUF = 0x20"

datatype driver_command =
    BC_TRANSACTION transaction_data
  | BC_REPLY transaction_data
  | BC_ACQUIRE_RESULT int
  | BC_FREE_BUFFER nat
  | BC_INCREFS int
  | BC_ACQUIRE int
  | BC_RELEASE int
  | BC_DECREFS int
  | BC_INCREFS_DONE nat nat
  | BC_ACQUIRE_DONE nat nat
  | BC_REGISTER_LOOPER
  | BC_ENTER_LOOPER
  | BC_EXIT_LOOPER
  | BC_REQUEST_DEATH_NOTIFICATION int nat
  | BC_CLEAR_DEATH_NOTIFICATION int nat
  | BC_DEAD_BINDER_DONE nat

datatype driver_return =
    BR_ERROR int
  | BR_OK
  | BR_TRANSACTION_SEC_CTX transaction_data "string option"
  | BR_TRANSACTION transaction_data
  | BR_REPLY transaction_data
  | BR_ACQUIRE_RESULT int
  | BR_DEAD_REPLY
  | BR_TRANSACTION_COMPLETE
  | BR_INCREFS nat nat
  | BR_ACQUIRE nat nat
  | BR_RELEASE nat nat
  | BR_DECREFS nat nat
  | BR_ATTEMPT_ACQUIRE nat nat
  | BR_NOOP
  | BR_SPAWN_LOOPER
  | BR_FINISHED
  | BR_DEAD_BINDER nat
  | BR_CLEAR_DEATH_NOTIFICATION_DONE nat
  | BR_FAILED_REPLY
  | BR_FROZEN_REPLY
  | BR_ONEWAY_SPAM_SUSPECT
  | BR_UNKNOWN nat

text \<open>The bytes a command takes in \<open>mOut\<close>.\<close>

fun command_size :: "driver_command \<Rightarrow> nat" where
  "command_size (BC_TRANSACTION tr) = 4 + 64"
| "command_size (BC_REPLY tr) = 4 + 64"
| "command_size (BC_ACQUIRE_RESULT res) = 4 + 4"
| "command_size (BC_FREE_BUFFER buffer) = 4 + 8"
| "command_size (BC_INCREFS handle) = 4 + 4"
| "command_size (BC_ACQUIRE handle) = 4 + 4"
| "command_size (BC_RELEASE handle) = 4 + 4"
| "command_size (BC_DECREFS handle) = 4 + 4"
| "command_size (BC_INCREFS_DONE refs obj) = 4 + 8 + 8"
| "command_size (BC_ACQUIRE_DONE refs obj) = 4 + 8 + 8"
| "command_size BC_REGISTER_LOOPER = 4"
| "command_size BC_ENTER_LOOPER = 4"
| "command_size BC_EXIT_LOOPER = 4"
| "command_size (BC_REQUEST_DEATH_NOTIFICATION handle proxy) = 4 + 4 + 8"
| "command_size (BC_CLEAR_DEATH_NOTIFICATION handle proxy) = 4 + 4 + 8"
| "command_size (BC_DEAD_BINDER_DONE proxy) = 4 + 8"

text \<open>
  One \<open>ioctl (BINDER_WRITE_READ)\<close>: interrupted by a signal (\<open>EINTR\<close>); another error number; the descriptor found closed by another thread afterwards;
  or success, with the bytes consumed of the commands written and the commands read.
\<close>

datatype ioctl_result =
    Ioctl_interrupted
  | Ioctl_fails nat
  | Ioctl_closed
  | Ioctl_done nat "driver_return list"

definition EBADF :: int where "EBADF = 9"
definition ECONNREFUSED :: int where "ECONNREFUSED = 111"


subsection \<open>State\<close>

text \<open>
  What happens outside the thread: references taken and dropped on local objects, proxies and their weak
  counters, threads started, recipients told about a death, descriptors closed, transactions handed to
  their object, and calls and replies received from the driver.
\<close>

datatype ipc_event =
    Inc_strong nat
  | Dec_strong nat
  | Inc_weak nat
  | Dec_weak nat
  | Attempt_strong nat bool
  | Spawn_thread bool
  | Binder_died nat
  | Close_fd nat
  | Serving transaction_data
  | Received_call transaction_data
  | Received_reply nat

record obituary =
  ob_recipient :: nat
  ob_cookie :: nat
  ob_flags :: nat

record bp_binder =
  bp_handle :: int
  bp_rpc :: bool
  bp_stability :: nat
  mAlive :: bool
  mObitsSent :: bool
  mObituaries :: "obituary list option"
  mDescriptorCache :: "nat list"

datatype call_restriction = Restriction_none | Error_if_not_oneway | Fatal_if_not_oneway

record process_state =
  mDriverFD :: int
  mMaxThreads :: nat
  mExecutingThreadsCount :: nat
  mWaitingForThreads :: nat
  mStarvationStartTimeMs :: int
  mThreadPoolStarted :: bool

text \<open>
  An \<open>IPCThreadState\<close> with the process it belongs to; \<open>mServingStackPointer\<close> is 0 for null. \<open>ipc_script\<close> is what
  the driver is going to answer, \<open>ipc_sent\<close> the commands it has consumed, \<open>ipc_events\<close> what happened outside,
  \<open>ipc_held\<close> the buffers that reply parcels of the thread refer to.
\<close>

record ipc_state =
  ipc_thread :: thread_state
  mIn :: "driver_return list"
  mOut :: "driver_command list"
  mLastError :: int
  mServingStackPointer :: nat
  mIsLooper :: bool
  mIsFlushing :: bool
  mCallRestriction :: call_restriction
  mPendingStrongDerefs :: "nat list"
  mPendingWeakDerefs :: "nat list"
  mPostWriteStrongDerefs :: "nat list"
  mPostWriteWeakDerefs :: "nat list"
  mProcess :: process_state
  ipc_proxies :: "nat \<Rightarrow> bp_binder"
  ipc_script :: "ioctl_result list"
  ipc_sent :: "driver_command list"
  ipc_events :: "ipc_event list"
  ipc_held :: "nat list"

text \<open>
  How an operation ends: it returns, aborts the process, waits for the driver for ever, or does not end
  within the steps it was given.
\<close>

datatype 'a run = Returns 'a ipc_state | Aborts | Blocks | Unfinished

definition and_run :: "'a run \<Rightarrow> ('a \<Rightarrow> ipc_state \<Rightarrow> 'b run) \<Rightarrow> 'b run" where
  "and_run r f = (case r of Returns a s \<Rightarrow> f a s | Aborts \<Rightarrow> Aborts | Blocks \<Rightarrow> Blocks | Unfinished \<Rightarrow> Unfinished)"

definition emit :: "ipc_event list \<Rightarrow> ipc_state \<Rightarrow> ipc_state" where
  "emit evs s = s\<lparr>ipc_events := ipc_events s @ evs\<rparr>"

definition put_command :: "driver_command \<Rightarrow> ipc_state \<Rightarrow> ipc_state" where
  "put_command c s = s\<lparr>mOut := mOut s @ [c]\<rparr>"

definition out_size :: "ipc_state \<Rightarrow> nat" where
  "out_size s = sum_list (map command_size (mOut s))"


subsection \<open>Talking to the driver\<close>

definition processPostWriteDerefs :: "ipc_state \<Rightarrow> ipc_state" where
  "processPostWriteDerefs s =
     (emit (map Dec_weak (mPostWriteWeakDerefs s) @ map Dec_strong (mPostWriteStrongDerefs s)) s)
       \<lparr>mPostWriteWeakDerefs := [], mPostWriteStrongDerefs := []\<rparr>"

text \<open>The loop around \<open>ioctl\<close>, which is repeated when a signal interrupts it; then the results are taken.\<close>

definition take_results :: "bool \<Rightarrow> nat \<Rightarrow> driver_return list \<Rightarrow> ipc_state \<Rightarrow> int run" where
  "take_results reading write_consumed cmds s =
     (if write_consumed > 0 \<and> write_consumed < out_size s then Aborts
      else
        (let s1 = (if write_consumed > 0
                   then processPostWriteDerefs (s\<lparr>ipc_sent := ipc_sent s @ mOut s, mOut := []\<rparr>) else s)
         in Returns OK (if reading \<and> cmds \<noteq> [] then s1\<lparr>mIn := cmds\<rparr> else s1)))"

fun ioctl_loop :: "bool \<Rightarrow> ioctl_result list \<Rightarrow> ipc_state \<Rightarrow> int run" where
  "ioctl_loop reading [] s = Blocks"
| "ioctl_loop reading (Ioctl_interrupted # rest) s = ioctl_loop reading rest s"
| "ioctl_loop reading (Ioctl_fails e # rest) s = Returns (- int e) (s\<lparr>ipc_script := rest\<rparr>)"
| "ioctl_loop reading (Ioctl_closed # rest) s =
     Returns (- EBADF) (s\<lparr>ipc_script := rest, mProcess := (mProcess s)\<lparr>mDriverFD := -1\<rparr>\<rparr>)"
| "ioctl_loop reading (Ioctl_done consumed cmds # rest) s =
     take_results reading consumed cmds (s\<lparr>ipc_script := rest\<rparr>)"

definition talkWithDriver :: "bool \<Rightarrow> ipc_state \<Rightarrow> int run" where
  "talkWithDriver doReceive s =
     (if mDriverFD (mProcess s) < 0 then Returns (- EBADF) s
      else
        (let needRead = (mIn s = []);
             outAvail = (if \<not> doReceive \<or> needRead then out_size s else 0);
             reading = (doReceive \<and> needRead)
         in if outAvail = 0 \<and> \<not> reading then Returns OK s
            else ioctl_loop reading (ipc_script s) s))"

definition flushCommands :: "ipc_state \<Rightarrow> unit run" where
  "flushCommands s =
     (if mDriverFD (mProcess s) < 0 then Returns () s
      else and_run (talkWithDriver False s)
             (\<lambda>_ s1. if out_size s1 > 0 then and_run (talkWithDriver False s1) (\<lambda>_ s2. Returns () s2)
                     else Returns () s1))"

definition flushIfNeeded :: "ipc_state \<Rightarrow> bool run" where
  "flushIfNeeded s =
     (if mIsLooper s \<or> mServingStackPointer s \<noteq> 0 \<or> mIsFlushing s then Returns False s
      else and_run (flushCommands (s\<lparr>mIsFlushing := True\<rparr>))
             (\<lambda>_ s1. Returns True (s1\<lparr>mIsFlushing := False\<rparr>)))"


subsection \<open>References and death notifications\<close>

definition incStrongHandle :: "int \<Rightarrow> nat \<Rightarrow> ipc_state \<Rightarrow> unit run" where
  "incStrongHandle handle proxy s =
     and_run (flushIfNeeded (put_command (BC_ACQUIRE handle) s))
       (\<lambda>flushed s1. Returns ()
          (if flushed then s1
           else (emit [Inc_strong proxy] s1)\<lparr>mPostWriteStrongDerefs := mPostWriteStrongDerefs s1 @ [proxy]\<rparr>))"

definition decStrongHandle :: "int \<Rightarrow> ipc_state \<Rightarrow> unit run" where
  "decStrongHandle handle s = and_run (flushIfNeeded (put_command (BC_RELEASE handle) s)) (\<lambda>_ s1. Returns () s1)"

definition incWeakHandle :: "int \<Rightarrow> nat \<Rightarrow> ipc_state \<Rightarrow> unit run" where
  "incWeakHandle handle proxy s =
     and_run (flushIfNeeded (put_command (BC_INCREFS handle) s))
       (\<lambda>flushed s1. Returns ()
          (if flushed then s1
           else (emit [Inc_weak proxy] s1)\<lparr>mPostWriteWeakDerefs := mPostWriteWeakDerefs s1 @ [proxy]\<rparr>))"

definition decWeakHandle :: "int \<Rightarrow> ipc_state \<Rightarrow> unit run" where
  "decWeakHandle handle s = and_run (flushIfNeeded (put_command (BC_DECREFS handle) s)) (\<lambda>_ s1. Returns () s1)"

definition requestDeathNotification :: "int \<Rightarrow> nat \<Rightarrow> ipc_state \<Rightarrow> ipc_state" where
  "requestDeathNotification handle proxy = put_command (BC_REQUEST_DEATH_NOTIFICATION handle proxy)"

definition clearDeathNotification :: "int \<Rightarrow> nat \<Rightarrow> ipc_state \<Rightarrow> ipc_state" where
  "clearDeathNotification handle proxy = put_command (BC_CLEAR_DEATH_NOTIFICATION handle proxy)"

text \<open>The descriptors of a received parcel, from the last to the first.\<close>

definition closeFileDescriptors :: "parcel \<Rightarrow> ipc_event list" where
  "closeFileDescriptors p =
     map (\<lambda>off. Close_fd (f_handle (flat_at off p)))
       (filter (\<lambda>off. f_type (flat_at off p) = BINDER_TYPE_FD) (rev (p_objects p)))"

definition freeBuffer :: "parcel option \<Rightarrow> nat \<Rightarrow> ipc_state \<Rightarrow> unit run" where
  "freeBuffer parcel data s =
     and_run (flushIfNeeded
        (put_command (BC_FREE_BUFFER data)
          (emit (case parcel of None \<Rightarrow> [] | Some p \<Rightarrow> closeFileDescriptors p) s)))
       (\<lambda>_ s1. Returns () s1)"


subsection \<open>Sending\<close>

definition is_one_way :: "nat \<Rightarrow> bool" where
  "is_one_way flags \<longleftrightarrow> flags AND TF_ONE_WAY \<noteq> 0"

text \<open>
  \<open>writeTransactionData\<close> builds the data of a call or a reply; \<open>statusBuffer\<close> tells whether the error of a bad
  parcel may be sent in its place.
\<close>

definition transaction_of :: "nat \<Rightarrow> int \<Rightarrow> nat \<Rightarrow> parcel \<Rightarrow> transaction_data" where
  "transaction_of binderFlags handle code data =
     \<lparr>td_target = u32 handle, td_cookie = 0, td_code = code, td_flags = binderFlags, td_sender_pid = 0,
      td_sender_euid = 0, td_buffer = 0, td_data = take (dataSize data) (p_data data), td_offsets = p_objects data\<rparr>"

definition status_of :: "nat \<Rightarrow> int \<Rightarrow> nat \<Rightarrow> int \<Rightarrow> transaction_data" where
  "status_of binderFlags handle code err =
     \<lparr>td_target = u32 handle, td_cookie = 0, td_code = code, td_flags = binderFlags OR TF_STATUS_CODE,
      td_sender_pid = 0, td_sender_euid = 0, td_buffer = 0, td_data = le_bytes 4 (u32 err), td_offsets = []\<rparr>"

definition writeTransactionData ::
    "(transaction_data \<Rightarrow> driver_command) \<Rightarrow> nat \<Rightarrow> int \<Rightarrow> nat \<Rightarrow> parcel \<Rightarrow> bool \<Rightarrow> ipc_state \<Rightarrow> int \<times> ipc_state" where
  "writeTransactionData cmd binderFlags handle code data statusBuffer s =
     (if p_error data = OK then (OK, put_command (cmd (transaction_of binderFlags handle code data)) s)
      else if statusBuffer then (OK, put_command (cmd (status_of binderFlags handle code (p_error data))) s)
      else (p_error data, s\<lparr>mLastError := p_error data\<rparr>))"

end
