(* ===== verification/Bp_Binder.thy ===== *)
theory Bp_Binder
  imports Ipc_Driver
begin

text \<open>
  The proxy's side of a remote object, \<open>BpBinder\<close> (\<open>frameworks/native/libs/binder/BpBinder.cpp\<close>): links to death and
  obituaries, and the references a proxy keeps at the driver. Proxies are named by their address; a death
  recipient is named by its address too, 0 being null.
\<close>

definition set_proxy :: "nat \<Rightarrow> (bp_binder \<Rightarrow> bp_binder) \<Rightarrow> ipc_state \<Rightarrow> ipc_state" where
  "set_proxy p f s = s\<lparr>ipc_proxies := (ipc_proxies s)(p := f (ipc_proxies s p))\<rparr>"

definition BpBinder_init :: "int \<Rightarrow> bp_binder" where
  "BpBinder_init handle = \<lparr>bp_handle = handle, bp_rpc = False, bp_stability = 0, mAlive = True, mObitsSent = False,
     mObituaries = None, mDescriptorCache = []\<rparr>"

subsection \<open>Death notifications\<close>

definition linkToDeath :: "nat \<Rightarrow> nat \<Rightarrow> nat \<Rightarrow> nat \<Rightarrow> ipc_state \<Rightarrow> int run" where
  "linkToDeath p recipient cookie flags s =
     (let b = ipc_proxies s p; ob = \<lparr>ob_recipient = recipient, ob_cookie = cookie, ob_flags = flags\<rparr>
      in if bp_rpc b then Returns UNKNOWN_TRANSACTION s
         else if recipient = 0 then Aborts
         else if mObitsSent b then Returns DEAD_OBJECT s
         else
           (case mObituaries b of
              Some obits \<Rightarrow> Returns OK (set_proxy p (\<lambda>b. b\<lparr>mObituaries := Some (obits @ [ob])\<rparr>) s)
            | None \<Rightarrow>
                and_run (flushCommands (requestDeathNotification (bp_handle b) p (emit [Inc_weak p] s)))
                  (\<lambda>_ s1. Returns OK (set_proxy p (\<lambda>b. b\<lparr>mObituaries := Some [ob]\<rparr>) s1))))"

definition obituary_matches :: "nat \<Rightarrow> nat \<Rightarrow> nat \<Rightarrow> obituary \<Rightarrow> bool" where
  "obituary_matches recipient cookie flags ob \<longleftrightarrow>
     (ob_recipient ob = recipient \<or> recipient = 0 \<and> ob_cookie ob = cookie) \<and> ob_flags ob = flags"

text \<open>The first obituary that matches, taken out of the list.\<close>

fun take_obituary :: "(obituary \<Rightarrow> bool) \<Rightarrow> obituary list \<Rightarrow> (obituary \<times> obituary list) option" where
  "take_obituary P [] = None"
| "take_obituary P (ob # obs) =
     (if P ob then Some (ob, obs) else map_option (\<lambda>(found, rest). (found, ob # rest)) (take_obituary P obs))"

definition unlinkToDeath :: "nat \<Rightarrow> nat \<Rightarrow> nat \<Rightarrow> nat \<Rightarrow> ipc_state \<Rightarrow> (int \<times> nat option) run" where
  "unlinkToDeath p recipient cookie flags s =
     (let b = ipc_proxies s p
      in if bp_rpc b then Returns (UNKNOWN_TRANSACTION, None) s
         else if mObitsSent b then Returns (DEAD_OBJECT, None) s
         else
           (case take_obituary (obituary_matches recipient cookie flags) (case mObituaries b of None \<Rightarrow> [] | Some l \<Rightarrow> l) of
              None \<Rightarrow> Returns (NAME_NOT_FOUND, None) s
            | Some (ob, rest) \<Rightarrow>
                if rest = [] then
                  and_run (flushCommands (clearDeathNotification (bp_handle b) p s))
                    (\<lambda>_ s1. Returns (OK, Some (ob_recipient ob)) (set_proxy p (\<lambda>b. b\<lparr>mObituaries := None\<rparr>) s1))
                else Returns (OK, Some (ob_recipient ob)) (set_proxy p (\<lambda>b. b\<lparr>mObituaries := Some rest\<rparr>) s)))"

text \<open>\<open>promotable\<close> tells which recipients still live.\<close>

definition reportOneDeath :: "(nat \<Rightarrow> bool) \<Rightarrow> obituary \<Rightarrow> ipc_event list" where
  "reportOneDeath promotable ob = (if promotable (ob_recipient ob) then [Binder_died (ob_recipient ob)] else [])"

definition sendObituary :: "(nat \<Rightarrow> bool) \<Rightarrow> nat \<Rightarrow> ipc_state \<Rightarrow> unit run" where
  "sendObituary promotable p s =
     (let b = ipc_proxies s p; s1 = set_proxy p (\<lambda>b. b\<lparr>mAlive := False\<rparr>) s
      in if bp_rpc b then Aborts
         else if mObitsSent b then Returns () s1
         else
           (case mObituaries b of
              None \<Rightarrow> Returns () (set_proxy p (\<lambda>b. b\<lparr>mObitsSent := True\<rparr>) s1)
            | Some obits \<Rightarrow>
                and_run (flushCommands (clearDeathNotification (bp_handle b) p s1))
                  (\<lambda>_ s2. Returns ()
                     (emit (concat (map (reportOneDeath promotable) obits))
                        (set_proxy p (\<lambda>b. b\<lparr>mObituaries := None, mObitsSent := True\<rparr>) s2)))))"


subsection \<open>References at the driver\<close>

definition onFirstRef :: "nat \<Rightarrow> ipc_state \<Rightarrow> unit run" where
  "onFirstRef p s =
     (if bp_rpc (ipc_proxies s p) then Returns () s else incStrongHandle (bp_handle (ipc_proxies s p)) p s)"

text \<open>For a proxy of the driver; the socket transport, which is told instead, is not modelled.\<close>

definition onLastStrongRef :: "nat \<Rightarrow> ipc_state \<Rightarrow> unit run" where
  "onLastStrongRef p s =
     (let b = ipc_proxies s p
      in and_run (decStrongHandle (bp_handle b) s)
           (\<lambda>_ s1. Returns ()
              (case mObituaries b of
                 None \<Rightarrow> s1
               | Some _ \<Rightarrow> set_proxy p (\<lambda>b. b\<lparr>mObituaries := None\<rparr>) (clearDeathNotification (bp_handle b) p s1))))"

text \<open>The driver is not asked: \<open>attemptIncStrongHandle\<close> is built without \<open>BC_ATTEMPT_ACQUIRE\<close>.\<close>

definition attemptIncStrongHandle :: "int \<Rightarrow> int" where
  "attemptIncStrongHandle handle = INVALID_OPERATION"

definition onIncStrongAttempted :: "bp_binder \<Rightarrow> bool" where
  "onIncStrongAttempted b \<longleftrightarrow> (if bp_rpc b then False else attemptIncStrongHandle (bp_handle b) = OK)"


subsection \<open>What flushing leaves alone\<close>

lemma and_run_simps [simp]:
  "and_run (Returns a s) f = f a s"
  "and_run Aborts f = Aborts"
  "and_run Blocks f = Blocks"
  "and_run Unfinished f = Unfinished"
  by (simp_all add: and_run_def)

lemma and_run_Returns: "and_run r f = Returns b s' \<longleftrightarrow> (\<exists>a s. r = Returns a s \<and> f a s = Returns b s')"
  by (cases r) auto

text \<open>The commands a thread has issued, in order: those the driver has and those still queued.\<close>

definition issued :: "ipc_state \<Rightarrow> driver_command list" where
  "issued s = ipc_sent s @ mOut s"

text \<open>
  What an exchange with the driver does to the thread: commands move from \<open>mOut\<close> to the driver, references that
  waited for that are dropped, and commands may arrive. Everything else stays.
\<close>

definition steady :: "ipc_state \<Rightarrow> driver_command list \<times> ipc_state \<times> nat \<times> nat" where
  "steady s =
     (issued s,
      s\<lparr>mIn := [], mOut := [], mPostWriteStrongDerefs := [], mPostWriteWeakDerefs := [],
        mProcess := (mProcess s)\<lparr>mDriverFD := 0\<rparr>, ipc_script := [], ipc_sent := [], ipc_events := []\<rparr>,
      mExecutingThreadsCount (mProcess s), mMaxThreads (mProcess s))"

definition dropping :: "ipc_event \<Rightarrow> bool" where
  "dropping e \<longleftrightarrow> (\<exists>x. e = Dec_weak x \<or> e = Dec_strong x)"

definition exchanged :: "ipc_state \<Rightarrow> ipc_state \<Rightarrow> bool" where
  "exchanged s s' \<longleftrightarrow>
     steady s' = steady s \<and>
     (length (ipc_script s') < length (ipc_script s) \<or> ipc_script s' = ipc_script s \<and> mIn s' = mIn s) \<and>
     (\<exists>cmds. ipc_sent s' = ipc_sent s @ cmds) \<and>
     (\<exists>evs. ipc_events s' = ipc_events s @ evs \<and> list_all dropping evs)"

lemma exchanged_refl [simp]: "exchanged s s"
  by (auto simp: exchanged_def)

lemma exchanged_trans:
  assumes "exchanged s s1" "exchanged s1 s2"
  shows "exchanged s s2"
proof -
  obtain evs evs2 where "ipc_events s1 = ipc_events s @ evs" "list_all dropping evs"
      "ipc_events s2 = ipc_events s1 @ evs2" "list_all dropping evs2"
    using assms by (auto simp: exchanged_def)
  then have "ipc_events s2 = ipc_events s @ (evs @ evs2) \<and> list_all dropping (evs @ evs2)"
    by simp
  moreover have "\<exists>cmds. ipc_sent s2 = ipc_sent s @ cmds" "steady s2 = steady s"
      "length (ipc_script s2) < length (ipc_script s) \<or> ipc_script s2 = ipc_script s \<and> mIn s2 = mIn s"
    using assms by (auto simp: exchanged_def)
  ultimately show ?thesis
    unfolding exchanged_def by blast
qed

lemma dropping_derefs: "list_all dropping (map Dec_weak ws @ map Dec_strong ss)"
  by (auto simp: dropping_def list_all_iff)

lemma exchanged_facts:
  assumes "exchanged s s'"
  shows "issued s' = issued s" "ipc_thread s' = ipc_thread s" "ipc_proxies s' = ipc_proxies s"
    "ipc_held s' = ipc_held s" "mServingStackPointer s' = mServingStackPointer s" "mIsLooper s' = mIsLooper s"
    "mIsFlushing s' = mIsFlushing s" "mLastError s' = mLastError s" "mCallRestriction s' = mCallRestriction s"
    "mPendingStrongDerefs s' = mPendingStrongDerefs s" "mPendingWeakDerefs s' = mPendingWeakDerefs s"
    "mExecutingThreadsCount (mProcess s') = mExecutingThreadsCount (mProcess s)"
    "length (ipc_script s') < length (ipc_script s) \<or> ipc_script s' = ipc_script s \<and> mIn s' = mIn s"
    "\<exists>cmds. ipc_sent s' = ipc_sent s @ cmds"
    "\<exists>evs. ipc_events s' = ipc_events s @ evs \<and> list_all dropping evs"
  using assms unfolding exchanged_def steady_def by (cases s; cases s'; simp)+

lemma take_results_steady:
  assumes "take_results reading n cmds s = Returns e s'"
  shows "steady s' = steady s" "ipc_script s' = ipc_script s" "\<exists>cmds. ipc_sent s' = ipc_sent s @ cmds"
    "\<exists>evs. ipc_events s' = ipc_events s @ evs \<and> list_all dropping evs"
  using assms dropping_derefs
  by (auto simp: take_results_def Let_def processPostWriteDerefs_def emit_def steady_def issued_def split: if_splits)

text \<open>The driver's script grows shorter with every exchange.\<close>

lemma ioctl_loop_exchanged:
  "ioctl_loop reading script s = Returns e s' \<Longrightarrow> length script \<le> length (ipc_script s) \<Longrightarrow>
   exchanged s s' \<and> length (ipc_script s') < length script"
proof (induction reading script s rule: ioctl_loop.induct)
  case (5 reading consumed cmds rest s)
  have "steady (s\<lparr>ipc_script := rest\<rparr>) = steady s"
    by (simp add: steady_def issued_def)
  then show ?case
    using take_results_steady [of reading consumed cmds "s\<lparr>ipc_script := rest\<rparr>" e s'] "5.prems"
    by (simp add: exchanged_def)
qed (auto simp: exchanged_def steady_def issued_def)

lemma talkWithDriver_exchanged: "talkWithDriver r s = Returns e s' \<Longrightarrow> exchanged s s'"
  by (auto simp: talkWithDriver_def Let_def dest: ioctl_loop_exchanged split: if_splits)

text \<open>A thread that has read all its commands waits for the driver.\<close>

lemma talkWithDriver_reads:
  "talkWithDriver True s = Returns e s' \<Longrightarrow> mIn s = [] \<Longrightarrow> e \<ge> OK \<Longrightarrow> length (ipc_script s') < length (ipc_script s)"
  by (auto simp: talkWithDriver_def Let_def OK_def EBADF_def dest: ioctl_loop_exchanged split: if_splits)

lemma flushCommands_exchanged:
  assumes "flushCommands s = Returns u s'"
  shows "exchanged s s'"
proof (cases "mDriverFD (mProcess s) < 0")
  case False
  then obtain e s1 where s1: "talkWithDriver False s = Returns e s1"
      and rest: "s' = s1 \<or> (\<exists>e2. talkWithDriver False s1 = Returns e2 s')"
    using assms by (auto simp: flushCommands_def and_run_Returns split: if_splits)
  show ?thesis
    using rest talkWithDriver_exchanged [OF s1] by (auto intro: exchanged_trans talkWithDriver_exchanged)
qed (use assms in \<open>simp add: flushCommands_def\<close>)

lemma flushIfNeeded_exchanged:
  assumes "flushIfNeeded s = Returns b s'"
  shows "exchanged s s'"
proof (cases "mIsLooper s \<or> mServingStackPointer s \<noteq> 0 \<or> mIsFlushing s")
  case True
  then show ?thesis
    using assms by (simp add: flushIfNeeded_def)
next
  case False
  then obtain s1 where s1: "flushCommands (s\<lparr>mIsFlushing := True\<rparr>) = Returns () s1" "s' = s1\<lparr>mIsFlushing := False\<rparr>"
    using assms by (auto simp: flushIfNeeded_def and_run_Returns)
  then show ?thesis
    using flushCommands_exchanged [OF s1(1)] False by (cases s; cases s1) (auto simp: exchanged_def steady_def issued_def)
qed

end
