(* ===== verification/Ipc_Loop.thy ===== *)
theory Ipc_Loop
  imports Bp_Binder
begin

text \<open>
  The half of \<open>IPCThreadState\<close> (\<open>frameworks/native/libs/binder/IPCThreadState.cpp\<close>) that runs commands of the driver:
  \<open>executeCommand\<close> with the transactions it hands to local objects, \<open>waitForResponse\<close>, which runs commands while a
  call is under way, \<open>transact\<close>, and the loops of pool threads. The functions call each other: an object that
  serves a transaction may make calls, and while these wait it may be called again. They are given a number
  of steps and are \<open>Unfinished\<close> when it does not suffice.
\<close>

subsection \<open>The code of local objects\<close>

text \<open>A reply parcel, with the driver's buffer it refers to.\<close>

type_synonym reply_parcel = "parcel \<times> nat option"

datatype handle_op =
    Handle_inc_strong int nat
  | Handle_dec_strong int
  | Handle_inc_weak int nat
  | Handle_dec_weak int

text \<open>
  What \<open>onTransact\<close> of a local object does to the thread that runs it: it may read and change what the thread
  knows of its caller, take and drop references on handles, make calls (to a handle, with a code, a
  parcel, a reply parcel or none, and flags) and go on with their results, destroy a reply parcel that
  refers to a buffer, and finish with a status and a reply.
\<close>

datatype prog =
    Finish int parcel
  | Touch "thread_state \<Rightarrow> thread_state \<times> prog"
  | Reference handle_op prog
  | Transact int nat parcel bool nat "int \<times> reply_parcel option \<Rightarrow> prog"
  | Discard parcel nat prog

text \<open>
  The surroundings of the thread: those of its parcels; whether \<open>attemptIncStrong\<close> succeeds on a weak counter, and
  which death recipients still live, after the events so far; the clock; the code of the object at an
  address and its extension; whether background scheduling is disabled; the process and the address of \<open>the_context_object\<close>, if one is set.
\<close>

record ipc_env =
  ie_parcel :: parcel_env
  ie_promote :: "nat \<Rightarrow> nat \<Rightarrow> bool"
  ie_recipient :: "nat \<Rightarrow> nat \<Rightarrow> bool"
  ie_uptime :: "nat \<Rightarrow> int"
  ie_onTransact :: "nat \<Rightarrow> nat \<Rightarrow> parcel \<Rightarrow> nat \<Rightarrow> prog"
  ie_extension :: "nat \<Rightarrow> ibinder option"
  ie_noBackground :: bool
  ie_pid :: int
  ie_context :: "nat option"

definition PING_TRANSACTION :: nat where "PING_TRANSACTION = 0x5f504e47"
definition EXTENSION_TRANSACTION :: nat where "EXTENSION_TRANSACTION = 0x5f455854"
definition DEBUG_PID_TRANSACTION :: nat where "DEBUG_PID_TRANSACTION = 0x5f504944"

text \<open>\<open>reply->setDataPosition (0)\<close> when the object has finished.\<close>

primrec rewind :: "prog \<Rightarrow> prog" where
  "rewind (Finish err reply) = Finish err (reply\<lparr>p_pos := 0, p_hint := 0, p_sorted := False\<rparr>)"
| "rewind (Touch f) = Touch (\<lambda>t. map_prod id rewind (f t))"
| "rewind (Reference r p) = Reference r (rewind p)"
| "rewind (Transact handle code data reply flags k) = Transact handle code data reply flags (\<lambda>r. rewind (k r))"
| "rewind (Discard reply buffer p) = Discard reply buffer (rewind p)"

text \<open>
  \<open>BBinder::transact\<close>; \<open>None\<close> when writing the reply aborts.
\<close>

definition BBinder_transact :: "ipc_env \<Rightarrow> nat \<Rightarrow> nat \<Rightarrow> parcel \<Rightarrow> nat \<Rightarrow> prog option" where
  "BBinder_transact env obj code data flags =
     map_option rewind
       (if code = PING_TRANSACTION then Some (Finish OK new_parcel)
        else if code = EXTENSION_TRANSACTION
        then map_option (\<lambda>(err, _, reply). Finish err reply)
               (flattenBinder (ie_parcel env) (ie_noBackground env) (ie_extension env obj) new_parcel)
        else if code = DEBUG_PID_TRANSACTION
        then map_option (\<lambda>(err, reply). Finish err reply) (writeInt32 (ie_parcel env) (ie_pid env) new_parcel)
        else Some (ie_onTransact env obj code (data\<lparr>p_pos := 0, p_hint := 0, p_sorted := False\<rparr>) flags))"


subsection \<open>Commands that need no call\<close>

text \<open>References of the driver on local objects, and the small commands of \<open>executeCommand\<close>.\<close>

definition run_reference :: "handle_op \<Rightarrow> ipc_state \<Rightarrow> unit run" where
  "run_reference op s =
     (case op of
        Handle_inc_strong handle proxy \<Rightarrow> incStrongHandle handle proxy s
      | Handle_dec_strong handle \<Rightarrow> decStrongHandle handle s
      | Handle_inc_weak handle proxy \<Rightarrow> incWeakHandle handle proxy s
      | Handle_dec_weak handle \<Rightarrow> decWeakHandle handle s)"

definition spawnPooledThread :: "bool \<Rightarrow> ipc_state \<Rightarrow> ipc_state" where
  "spawnPooledThread isMain s = (if mThreadPoolStarted (mProcess s) then emit [Spawn_thread isMain] s else s)"

text \<open>\<open>if (result != NO_ERROR) mLastError = result; return result;\<close>\<close>

definition end_command :: "int \<Rightarrow> ipc_state \<Rightarrow> int run" where
  "end_command result s = Returns result (if result \<noteq> OK then s\<lparr>mLastError := result\<rparr> else s)"

definition small_command :: "ipc_env \<Rightarrow> driver_return \<Rightarrow> ipc_state \<Rightarrow> int run" where
  "small_command env cmd s =
     (case cmd of
        BR_ERROR e \<Rightarrow> end_command e s
      | BR_OK \<Rightarrow> end_command OK s
      | BR_ACQUIRE refs obj \<Rightarrow> end_command OK (put_command (BC_ACQUIRE_DONE refs obj) (emit [Inc_strong obj] s))
      | BR_RELEASE refs obj \<Rightarrow> end_command OK (s\<lparr>mPendingStrongDerefs := mPendingStrongDerefs s @ [obj]\<rparr>)
      | BR_INCREFS refs obj \<Rightarrow> end_command OK (put_command (BC_INCREFS_DONE refs obj) (emit [Inc_weak refs] s))
      | BR_DECREFS refs obj \<Rightarrow> end_command OK (s\<lparr>mPendingWeakDerefs := mPendingWeakDerefs s @ [refs]\<rparr>)
      | BR_ATTEMPT_ACQUIRE refs obj \<Rightarrow>
          (let success = ie_promote env (length (ipc_events s)) refs
           in end_command OK (put_command (BC_ACQUIRE_RESULT (of_bool success)) (emit [Attempt_strong refs success] s)))
      | BR_DEAD_BINDER proxy \<Rightarrow>
          and_run (sendObituary (ie_recipient env (length (ipc_events s))) proxy s)
            (\<lambda>_ s1. end_command OK (put_command (BC_DEAD_BINDER_DONE proxy) s1))
      | BR_CLEAR_DEATH_NOTIFICATION_DONE proxy \<Rightarrow> end_command OK (emit [Dec_weak proxy] s)
      | BR_FINISHED \<Rightarrow> end_command TIMED_OUT s
      | BR_NOOP \<Rightarrow> end_command OK s
      | BR_SPAWN_LOOPER \<Rightarrow> end_command OK (spawnPooledThread False s)
      | _ \<Rightarrow> end_command UNKNOWN_ERROR s)"

text \<open>
  Around a transaction: the thread takes over the caller's identity, and puts its own back. The work source is
  reset, since only \<open>enforceInterface\<close> sets it.
\<close>

definition take_identity :: "transaction_data \<Rightarrow> string option \<Rightarrow> thread_state \<Rightarrow> thread_state" where
  "take_identity tr secctx t =
     (clearPropagateWorkSource (snd (clearCallingWorkSource t)))
       \<lparr>mCallingPid := td_sender_pid tr, mCallingSid := secctx, mCallingUid := td_sender_euid tr,
        mLastTransactionBinderFlags := as_int32 (int (td_flags tr))\<rparr>"

definition begin_transaction :: "transaction_data \<Rightarrow> string option \<Rightarrow> ipc_state \<Rightarrow> ipc_state" where
  "begin_transaction tr secctx s =
     (emit [Received_call tr] s)
       \<lparr>mServingStackPointer := Suc (mServingStackPointer s), ipc_thread := take_identity tr secctx (ipc_thread s)\<rparr>"

definition end_transaction :: "ipc_state \<Rightarrow> ipc_state \<Rightarrow> ipc_state" where
  "end_transaction orig s =
     s\<lparr>mServingStackPointer := mServingStackPointer orig,
       ipc_thread := (ipc_thread s)
         \<lparr>mCallingPid := mCallingPid (ipc_thread orig), mCallingSid := mCallingSid (ipc_thread orig),
          mCallingUid := mCallingUid (ipc_thread orig), mStrictModePolicy := mStrictModePolicy (ipc_thread orig),
          mLastTransactionBinderFlags := mLastTransactionBinderFlags (ipc_thread orig),
          mWorkSource := mWorkSource (ipc_thread orig),
          mPropagateWorkSource := mPropagateWorkSource (ipc_thread orig)\<rparr>\<rparr>"

text \<open>
  The object a transaction is for serves it, \<open>run\<close> being how its code is run. There is only a weak reference on
  it, so a strong one is tried for first; a transaction without target is for \<open>the_context_object\<close>.
\<close>

definition serve_call ::
    "ipc_env \<Rightarrow> (prog \<Rightarrow> ipc_state \<Rightarrow> (int \<times> parcel) run) \<Rightarrow> transaction_data \<Rightarrow> parcel \<Rightarrow> ipc_state \<Rightarrow> (int \<times> parcel) run" where
  "serve_call env run tr buffer s =
     (let object_transact = (\<lambda>obj s. case BBinder_transact env obj (td_code tr) buffer (td_flags tr) of
                               None \<Rightarrow> Aborts
                             | Some p \<Rightarrow> run p (emit [Serving tr] s))
      in if td_target tr \<noteq> 0 then
           (let promoted = ie_promote env (length (ipc_events s)) (td_target tr);
                s1 = emit [Attempt_strong (td_target tr) promoted] s
            in if promoted then
                 and_run (object_transact (td_cookie tr) s1)
                   (\<lambda>r s2. Returns r (emit [Dec_strong (td_cookie tr)] s2))
               else Returns (UNKNOWN_TRANSACTION, new_parcel) s1)
         else
           (case ie_context env of
              None \<Rightarrow> Aborts
            | Some obj \<Rightarrow> object_transact obj s))"


subsection \<open>Replies\<close>

text \<open>What \<open>waitForResponse\<close> leaves behind: its result, the reply parcel and \<open>acquireResult\<close>, when they were asked for.\<close>

type_synonym response = "int \<times> reply_parcel option \<times> int option"

definition set_error :: "int \<Rightarrow> reply_parcel \<Rightarrow> reply_parcel" where
  "set_error err r = (case r of (p, b) \<Rightarrow> (p\<lparr>p_error := err\<rparr>, b))"

definition finish_response :: "int \<Rightarrow> reply_parcel option \<Rightarrow> int option \<Rightarrow> ipc_state \<Rightarrow> response run" where
  "finish_response err reply acquireResult s =
     (if err \<noteq> OK then Returns (err, map_option (set_error err) reply, map_option (\<lambda>_. err) acquireResult)
                         (s\<lparr>mLastError := err\<rparr>)
      else Returns (err, reply, acquireResult) s)"

definition status_in :: "transaction_data \<Rightarrow> int" where
  "status_in tr = signed 32 (le_val (take 4 (td_data tr)))"

text \<open>\<open>BR_REPLY\<close>: \<open>Inl\<close> when the wait is over, \<open>Inr\<close> when it goes on.\<close>

definition take_reply ::
    "ipc_env \<Rightarrow> transaction_data \<Rightarrow> reply_parcel option \<Rightarrow> ipc_state \<Rightarrow> ((int \<times> reply_parcel option) option) run" where
  "take_reply env tr reply s =
     (let s0 = emit [Received_reply (td_buffer tr)] s
      in case reply of
           None \<Rightarrow> and_run (freeBuffer None (td_buffer tr) s0) (\<lambda>_ s1. Returns None s1)
         | Some (p, _) \<Rightarrow>
             if td_flags tr AND TF_STATUS_CODE = 0 then
               (case ipcSetDataReference (ie_parcel env) (td_data tr) (td_offsets tr) p of
                  None \<Rightarrow> Aborts
                | Some p1 \<Rightarrow>
                    Returns (Some (OK, Some (p1, Some (td_buffer tr)))) (s0\<lparr>ipc_held := ipc_held s0 @ [td_buffer tr]\<rparr>))
             else
               and_run (freeBuffer None (td_buffer tr) s0)
                 (\<lambda>_ s1. Returns (Some (status_in tr, reply)) s1))"

text \<open>\<open>sendReply\<close>, \<open>wait\<close> being \<open>waitForResponse (nullptr, nullptr)\<close>.\<close>

definition sendReply :: "(ipc_state \<Rightarrow> response run) \<Rightarrow> parcel \<Rightarrow> nat \<Rightarrow> ipc_state \<Rightarrow> int run" where
  "sendReply wait reply flags s =
     (case writeTransactionData BC_REPLY flags (-1) 0 reply True s of
        (err, s1) \<Rightarrow> if err < OK then Returns err s1 else and_run (wait s1) (\<lambda>(err, _, _) s2. Returns err s2))"

text \<open>A reply parcel is destroyed: its buffer goes back to the driver.\<close>

definition discard_reply :: "parcel \<Rightarrow> nat \<Rightarrow> ipc_state \<Rightarrow> unit run" where
  "discard_reply p buffer s =
     (if buffer \<in> set (ipc_held s) then freeBuffer (Some p) buffer (s\<lparr>ipc_held := remove1 buffer (ipc_held s)\<rparr>)
      else Returns () s)"


subsection \<open>The functions that call each other\<close>

function (sequential)
    waitForResponse :: "ipc_env \<Rightarrow> nat \<Rightarrow> reply_parcel option \<Rightarrow> int option \<Rightarrow> ipc_state \<Rightarrow> response run"
and executeCommand :: "ipc_env \<Rightarrow> nat \<Rightarrow> driver_return \<Rightarrow> ipc_state \<Rightarrow> int run"
and run_transaction :: "ipc_env \<Rightarrow> nat \<Rightarrow> transaction_data \<Rightarrow> string option \<Rightarrow> ipc_state \<Rightarrow> int run"
and run_prog :: "ipc_env \<Rightarrow> nat \<Rightarrow> prog \<Rightarrow> ipc_state \<Rightarrow> (int \<times> parcel) run"
and transact :: "ipc_env \<Rightarrow> nat \<Rightarrow> int \<Rightarrow> nat \<Rightarrow> parcel \<Rightarrow> reply_parcel option \<Rightarrow> nat \<Rightarrow> ipc_state \<Rightarrow>
                 (int \<times> reply_parcel option) run" where
  "waitForResponse env 0 reply acquireResult s = Unfinished"
| "waitForResponse env (Suc n) reply acquireResult s =
     and_run (talkWithDriver True s)
       (\<lambda>err s1.
          if err < OK then finish_response err reply acquireResult s1
          else
            (case mIn s1 of
               [] \<Rightarrow> waitForResponse env n reply acquireResult s1
             | cmd # rest \<Rightarrow>
                 (let s2 = s1\<lparr>mIn := rest\<rparr>;
                      completed = (if reply = None \<and> acquireResult = None
                                   then finish_response OK reply acquireResult s2
                                   else waitForResponse env n reply acquireResult s2)
                  in case cmd of
                       BR_ONEWAY_SPAM_SUSPECT \<Rightarrow> completed
                     | BR_TRANSACTION_COMPLETE \<Rightarrow> completed
                     | BR_DEAD_REPLY \<Rightarrow> finish_response DEAD_OBJECT reply acquireResult s2
                     | BR_FAILED_REPLY \<Rightarrow> finish_response FAILED_TRANSACTION reply acquireResult s2
                     | BR_FROZEN_REPLY \<Rightarrow> finish_response FAILED_TRANSACTION reply acquireResult s2
                     | BR_ACQUIRE_RESULT r \<Rightarrow>
                         if acquireResult = None then waitForResponse env n reply acquireResult s2
                         else finish_response OK reply (Some (if r \<noteq> 0 then OK else INVALID_OPERATION)) s2
                     | BR_REPLY tr \<Rightarrow>
                         and_run (take_reply env tr reply s2)
                           (\<lambda>got s3. case got of
                              None \<Rightarrow> waitForResponse env n reply acquireResult s3
                            | Some (err, reply1) \<Rightarrow> finish_response err reply1 acquireResult s3)
                     | _ \<Rightarrow>
                         and_run (executeCommand env n cmd s2)
                           (\<lambda>err s3. if err \<noteq> OK then finish_response err reply acquireResult s3
                                      else waitForResponse env n reply acquireResult s3))))"
| "executeCommand env 0 cmd s = Unfinished"
| "executeCommand env (Suc n) cmd s =
     (case cmd of
        BR_TRANSACTION_SEC_CTX tr secctx \<Rightarrow> run_transaction env n tr secctx s
      | BR_TRANSACTION tr \<Rightarrow> run_transaction env n tr None s
      | _ \<Rightarrow> small_command env cmd s)"
| "run_transaction env 0 tr secctx s = Unfinished"
| "run_transaction env (Suc n) tr secctx s =
     (case ipcSetDataReference (ie_parcel env) (td_data tr) (td_offsets tr) new_parcel of
        None \<Rightarrow> Aborts
      | Some buffer \<Rightarrow>
          and_run (serve_call env (run_prog env n) tr buffer (begin_transaction tr secctx s))
            (\<lambda>(error, reply) s1.
               and_run
                 (if is_one_way (td_flags tr) then Returns OK s1
                  else sendReply (waitForResponse env n None None)
                         (if error < OK then reply\<lparr>p_error := error\<rparr> else reply) (td_flags tr AND TF_CLEAR_BUF) s1)
                 (\<lambda>_ s2.
                    and_run (freeBuffer (Some buffer) (td_buffer tr) (end_transaction s s2))
                      (\<lambda>_ s3. end_command OK s3))))"
| "run_prog env 0 p s = Unfinished"
| "run_prog env (Suc n) p s =
     (case p of
        Finish err reply \<Rightarrow> Returns (err, reply) s
      | Touch f \<Rightarrow> (case f (ipc_thread s) of (t, p1) \<Rightarrow> run_prog env n p1 (s\<lparr>ipc_thread := t\<rparr>))
      | Reference op p1 \<Rightarrow> and_run (run_reference op s) (\<lambda>_ s1. run_prog env n p1 s1)
      | Transact handle code data reply flags k \<Rightarrow>
          and_run (transact env n handle code data (if reply then Some (new_parcel, None) else None) flags s)
            (\<lambda>r s1. run_prog env n (k r) s1)
      | Discard reply buffer p1 \<Rightarrow> and_run (discard_reply reply buffer s) (\<lambda>_ s1. run_prog env n p1 s1))"
| "transact env 0 handle code data reply flags s = Unfinished"
| "transact env (Suc n) handle code data reply flags s =
     (case writeTransactionData BC_TRANSACTION (flags OR TF_ACCEPT_FDS) handle code data False s of
        (err, s1) \<Rightarrow>
          if err \<noteq> OK then Returns (err, map_option (set_error err) reply) (s1\<lparr>mLastError := err\<rparr>)
          else if \<not> is_one_way flags then
            (if mCallRestriction s1 = Fatal_if_not_oneway then Aborts
             else and_run (waitForResponse env n (Some (case reply of None \<Rightarrow> (new_parcel, None) | Some r \<Rightarrow> r)) None s1)
                    (\<lambda>(err, got, _) s2.
                       case reply of
                         Some _ \<Rightarrow> Returns (err, got) s2
                       | None \<Rightarrow>
                           (case got of
                              Some (p, Some buffer) \<Rightarrow> and_run (discard_reply p buffer s2) (\<lambda>_ s3. Returns (err, None) s3)
                            | _ \<Rightarrow> Returns (err, None) s2)))
          else and_run (waitForResponse env n None None s1) (\<lambda>(err, _, _) s2. Returns (err, reply) s2))"
  by pat_completeness auto
termination
  by (relation "measure (\<lambda>x. case x of
        Inl (Inl (_, n, _)) \<Rightarrow> n
      | Inl (Inr (_, n, _)) \<Rightarrow> n
      | Inr (Inl (_, n, _)) \<Rightarrow> n
      | Inr (Inr (Inl (_, n, _))) \<Rightarrow> n
      | Inr (Inr (Inr (_, n, _))) \<Rightarrow> n)") auto

end
