(* ===== verification/Ipc_Pool.thy ===== *)
theory Ipc_Pool
  imports Ipc_Loop
begin

text \<open>
  The loops around \<open>executeCommand\<close> (\<open>IPCThreadState.cpp\<close>): pool threads and polled commands, references dropped
  when the incoming queue is empty, the count of executing threads, and \<open>BpBinder::transact\<close> (\<open>BpBinder.cpp\<close>), which
  sends a call when the proxy is alive and stable enough.
\<close>

subsection \<open>Pool threads\<close>

text \<open>
  The order in which pending references are dropped: all weak ones before each strong one. That a destructor
  may add to the lists while they are worked off is not modelled.
\<close>

fun pending_events :: "nat list \<Rightarrow> nat list \<Rightarrow> ipc_event list" where
  "pending_events (w # weak) strong = Dec_weak w # pending_events weak strong"
| "pending_events [] (obj # strong) = Dec_strong obj # pending_events [] strong"
| "pending_events [] [] = []"

definition processPendingDerefs :: "ipc_state \<Rightarrow> ipc_state" where
  "processPendingDerefs s =
     (if mIn s = [] then
        (emit (pending_events (mPendingWeakDerefs s) (mPendingStrongDerefs s)) s)
          \<lparr>mPendingWeakDerefs := [], mPendingStrongDerefs := []\<rparr>
      else s)"

definition start_executing :: "ipc_env \<Rightarrow> ipc_state \<Rightarrow> ipc_state" where
  "start_executing env s =
     (let pr = mProcess s; count = Suc (mExecutingThreadsCount pr)
      in s\<lparr>mProcess := pr\<lparr>mExecutingThreadsCount := count,
             mStarvationStartTimeMs :=
               (if count \<ge> mMaxThreads pr \<and> mStarvationStartTimeMs pr = 0
                then ie_uptime env (length (ipc_events s)) else mStarvationStartTimeMs pr)\<rparr>\<rparr>)"

definition stop_executing :: "ipc_state \<Rightarrow> ipc_state" where
  "stop_executing s =
     (let pr = mProcess s; count = mExecutingThreadsCount pr - 1
      in s\<lparr>mProcess := pr\<lparr>mExecutingThreadsCount := count,
             mStarvationStartTimeMs :=
               (if count < mMaxThreads pr \<and> mStarvationStartTimeMs pr \<noteq> 0 then 0 else mStarvationStartTimeMs pr)\<rparr>\<rparr>)"

definition getAndExecuteCommand :: "ipc_env \<Rightarrow> nat \<Rightarrow> ipc_state \<Rightarrow> int run" where
  "getAndExecuteCommand env n s =
     and_run (talkWithDriver True s)
       (\<lambda>result s1.
          if result \<ge> OK then
            (case mIn s1 of
               [] \<Rightarrow> Returns result s1
             | cmd # rest \<Rightarrow>
                 and_run (executeCommand env n cmd (start_executing env (s1\<lparr>mIn := rest\<rparr>)))
                   (\<lambda>result s2. Returns result (stop_executing s2)))
          else Returns result s1)"

fun pool_loop :: "ipc_env \<Rightarrow> nat \<Rightarrow> bool \<Rightarrow> ipc_state \<Rightarrow> unit run" where
  "pool_loop env 0 isMain s = Unfinished"
| "pool_loop env (Suc n) isMain s =
     and_run (getAndExecuteCommand env n (processPendingDerefs s))
       (\<lambda>result s1.
          if result < OK \<and> result \<noteq> TIMED_OUT \<and> result \<noteq> - ECONNREFUSED \<and> result \<noteq> - EBADF then Aborts
          else if result = TIMED_OUT \<and> \<not> isMain then Returns () s1
          else if result \<noteq> - ECONNREFUSED \<and> result \<noteq> - EBADF then pool_loop env n isMain s1
          else Returns () s1)"

definition joinThreadPool :: "ipc_env \<Rightarrow> nat \<Rightarrow> bool \<Rightarrow> ipc_state \<Rightarrow> unit run" where
  "joinThreadPool env n isMain s =
     and_run (pool_loop env n isMain
                ((put_command (if isMain then BC_ENTER_LOOPER else BC_REGISTER_LOOPER) s)\<lparr>mIsLooper := True\<rparr>))
       (\<lambda>_ s1. and_run (talkWithDriver False ((put_command BC_EXIT_LOOPER s1)\<lparr>mIsLooper := False\<rparr>))
                 (\<lambda>_ s2. Returns () s2))"

definition setupPolling :: "ipc_state \<Rightarrow> (int \<times> int) run" where
  "setupPolling s =
     (if mDriverFD (mProcess s) < 0 then Returns (- EBADF, -1) s
      else and_run (flushCommands (put_command BC_ENTER_LOOPER s))
             (\<lambda>_ s1. Returns (0, mDriverFD (mProcess s1)) s1))"

fun polled_loop :: "ipc_env \<Rightarrow> nat \<Rightarrow> ipc_state \<Rightarrow> int run" where
  "polled_loop env 0 s = Unfinished"
| "polled_loop env (Suc n) s =
     and_run (getAndExecuteCommand env n s)
       (\<lambda>result s1. if mIn s1 \<noteq> [] then polled_loop env n s1 else Returns result s1)"

definition handlePolledCommands :: "ipc_env \<Rightarrow> nat \<Rightarrow> ipc_state \<Rightarrow> int run" where
  "handlePolledCommands env n s =
     and_run (polled_loop env n s)
       (\<lambda>result s1. and_run (flushCommands (processPendingDerefs s1)) (\<lambda>_ s2. Returns result s2))"

definition stopProcess :: "ipc_state \<Rightarrow> unit run" where
  "stopProcess s =
     and_run (flushCommands s)
       (\<lambda>_ s1. Returns () (emit [Close_fd (nat (mDriverFD (mProcess s1)))] s1
                 \<lparr>mProcess := (mProcess s1)\<lparr>mDriverFD := -1\<rparr>\<rparr>))"


subsection \<open>Calls through a proxy\<close>

definition FLAG_PRIVATE_VENDOR :: nat where "FLAG_PRIVATE_VENDOR = 0x10000000"
definition FIRST_CALL_TRANSACTION :: nat where "FIRST_CALL_TRANSACTION = 1"
definition LAST_CALL_TRANSACTION :: nat where "LAST_CALL_TRANSACTION = 0x00ffffff"
definition INTERFACE_TRANSACTION :: nat where "INTERFACE_TRANSACTION = 0x5f4e5446"

text \<open>\<open>flags & ~FLAG_PRIVATE_VENDOR\<close> on 32 bits.\<close>

definition kernel_flags :: "nat \<Rightarrow> nat" where
  "kernel_flags flags = flags AND 0xefffffff"

text \<open>The end of \<open>BpBinder::transact\<close>, for a proxy of the driver: a dead object is remembered.\<close>

definition send_call :: "ipc_env \<Rightarrow> nat \<Rightarrow> nat \<Rightarrow> nat \<Rightarrow> parcel \<Rightarrow> reply_parcel option \<Rightarrow> nat \<Rightarrow> ipc_state \<Rightarrow>
    (int \<times> reply_parcel option) run" where
  "send_call env n p code data reply flags s =
     and_run (transact env n (bp_handle (ipc_proxies s p)) code data reply (kernel_flags flags) s)
       (\<lambda>(st, got) s1. Returns (st, got) (if st = DEAD_OBJECT then set_proxy p (\<lambda>b. b\<lparr>mAlive := False\<rparr>) s1 else s1))"

text \<open>The descriptor, asked for with a call of its own when it is not known yet; the reply parcel is then destroyed.\<close>

definition getInterfaceDescriptor :: "ipc_env \<Rightarrow> nat \<Rightarrow> nat \<Rightarrow> ipc_state \<Rightarrow> nat list run" where
  "getInterfaceDescriptor env n p s =
     (if mDescriptorCache (ipc_proxies s p) \<noteq> [] then Returns (mDescriptorCache (ipc_proxies s p)) s
      else
        and_run (if mAlive (ipc_proxies s p)
                 then send_call env n p INTERFACE_TRANSACTION new_parcel (Some (new_parcel, None)) 0 s
                 else Returns (DEAD_OBJECT, Some (new_parcel, None)) s)
          (\<lambda>(err, got) s1.
             case got of
               Some (r, buffer) \<Rightarrow>
                 (case (if err = OK then readString16 r else Some (Inr [], r)) of
                    None \<Rightarrow> Aborts
                  | Some (res, _) \<Rightarrow>
                      (let name = (case res of Inl _ \<Rightarrow> [] | Inr str \<Rightarrow> str);
                           s2 = (if err = OK \<and> mDescriptorCache (ipc_proxies s1 p) = []
                                 then set_proxy p (\<lambda>b. b\<lparr>mDescriptorCache := name\<rparr>) s1 else s1)
                       in and_run (case buffer of None \<Rightarrow> Returns () s2 | Some a \<Rightarrow> discard_reply r a s2)
                            (\<lambda>_ s3. Returns (mDescriptorCache (ipc_proxies s3 p)) s3)))
             | None \<Rightarrow> Returns (mDescriptorCache (ipc_proxies s1 p)) s1))"

text \<open>A refused call asks for the descriptor, to log it.\<close>

definition BpBinder_transact :: "ipc_env \<Rightarrow> nat \<Rightarrow> nat \<Rightarrow> nat \<Rightarrow> parcel \<Rightarrow> reply_parcel option \<Rightarrow> nat \<Rightarrow> ipc_state \<Rightarrow>
    (int \<times> reply_parcel option) run" where
  "BpBinder_transact env n p code data reply flags s =
     (let b = ipc_proxies s p
      in if \<not> mAlive b then Returns (DEAD_OBJECT, reply) s
         else if FIRST_CALL_TRANSACTION \<le> code \<and> code \<le> LAST_CALL_TRANSACTION \<and>
                 \<not> check_stability (bp_stability b)
                     (if flags AND FLAG_PRIVATE_VENDOR \<noteq> 0 then VENDOR else getLocalLevel) then
           and_run (getInterfaceDescriptor env n p s) (\<lambda>_ s1. Returns (BAD_TYPE, reply) s1)
         else send_call env n p code data reply flags s)"

end
