(* ===== verification/Ipc_Props.thy ===== *)
theory Ipc_Props
  imports Ipc_Pool
begin

text \<open>
  What holds of every run of the thread, whatever the driver answers, the local objects do and however deep
  calls nest: the thread's identity is its own again after each transaction, every call that wants a reply
  gets one, buffers go back to the driver, dead proxies stay dead, and the functions end.
\<close>

subsection \<open>Relations that every run keeps\<close>

text \<open>
  \<open>Q\<close> relates the states before and after a command, a call or a wait, \<open>R\<close> those before and after a piece of an
  object's code, which may also change what the thread knows of its caller.
\<close>

text \<open>Events that are no message from the driver, and commands that neither answer a call nor give a buffer back.\<close>

fun neutral :: "ipc_event \<Rightarrow> bool" where
  "neutral (Received_call tr) = False"
| "neutral (Received_reply buffer) = False"
| "neutral _ = True"

fun plain :: "driver_command \<Rightarrow> bool" where
  "plain (BC_REPLY tr) = False"
| "plain (BC_FREE_BUFFER buffer) = False"
| "plain _ = True"

locale run_relation =
  fixes Q R :: "ipc_state \<Rightarrow> ipc_state \<Rightarrow> bool"
  assumes Q_refl: "Q s s"
    and Q_trans: "Q s s1 \<Longrightarrow> Q s1 s2 \<Longrightarrow> Q s s2"
    and R_refl: "R s s"
    and R_trans: "R s s1 \<Longrightarrow> R s1 s2 \<Longrightarrow> R s s2"
    and Q_R: "Q s s1 \<Longrightarrow> R s s1"
    and exchange: "exchanged s s1 \<Longrightarrow> Q s s1"
    and input: "mIn s = cmd # cmds \<Longrightarrow> Q s (s\<lparr>mIn := cmds\<rparr>)"
    and last_error: "Q s (s\<lparr>mLastError := e\<rparr>)"
    and call: "Q s (put_command (BC_TRANSACTION tr) s)"
    and touch: "R s (s\<lparr>ipc_thread := t\<rparr>)"
    and reference: "run_reference op s = Returns u s1 \<Longrightarrow> Q s s1"
    and small: "small_command env cmd s = Returns e s1 \<Longrightarrow> Q s s1"
    and reply: "take_reply env tr r s = Returns got s1 \<Longrightarrow> Q s s1"
    and discard: "discard_reply p b s = Returns u s1 \<Longrightarrow> Q s s1"
    and transaction:
      "R (emit before (begin_transaction tr secctx s)) s3 \<Longrightarrow> list_all neutral before \<Longrightarrow> list_all neutral after \<Longrightarrow>
       (if is_one_way (td_flags tr) then s4 = emit after s3
        else \<exists>td. Q (put_command (BC_REPLY td) (emit after s3)) s4) \<Longrightarrow>
       freeBuffer (Some buffer) (td_buffer tr) (end_transaction s s4) = Returns u s5 \<Longrightarrow> Q s s5"
begin

lemma finish_keeps: "finish_response err r a s = Returns x s1 \<Longrightarrow> Q s s1"
  using last_error Q_refl by (auto simp: finish_response_def split: if_splits)

lemma talk_keeps: "talkWithDriver r s = Returns e s1 \<Longrightarrow> Q s s1"
  by (rule exchange) (rule talkWithDriver_exchanged)

lemma wait_keeps:
  assumes exec: "\<And>cmd s e s1. executeCommand env n cmd s = Returns e s1 \<Longrightarrow> Q s s1"
    and wait: "\<And>r a s x s1. waitForResponse env n r a s = Returns x s1 \<Longrightarrow> Q s s1"
    and run: "waitForResponse env (Suc n) r a s = Returns x s'"
  shows "Q s s'"
proof -
  obtain err s1 where talk: "talkWithDriver True s = Returns err s1"
    using run by (auto simp: and_run_Returns)
  have "Q s1 s'"
  proof (cases "err < OK \<or> mIn s1 = []")
    case True
    then show ?thesis
      using run talk wait finish_keeps by (auto split: if_splits)
  next
    case False
    then obtain cmd rest where cmd: "mIn s1 = cmd # rest"
      by (cases "mIn s1") auto
    have "Q (s1\<lparr>mIn := rest\<rparr>) s'"
      using run talk False cmd
      by (cases cmd)
        (auto simp: and_run_Returns Let_def dest!: finish_keeps wait exec reply intro: Q_trans split: if_splits option.splits)
    then show ?thesis
      using input [OF cmd] Q_trans by blast
  qed
  then show ?thesis
    using talk_keeps [OF talk] Q_trans by blast
qed

lemma prog_keeps:
  assumes call: "\<And>h c d r f s x s1. transact env n h c d r f s = Returns x s1 \<Longrightarrow> Q s s1"
    and prog: "\<And>p s x s1. run_prog env n p s = Returns x s1 \<Longrightarrow> R s s1"
    and run: "run_prog env (Suc n) p s = Returns x s'"
  shows "R s s'"
proof (cases p)
  case (Touch f)
  then obtain t p1 where "f (ipc_thread s) = (t, p1)" "run_prog env n p1 (s\<lparr>ipc_thread := t\<rparr>) = Returns x s'"
    using run by (auto split: prod.splits)
  then show ?thesis
    using prog touch R_trans by blast
next
  case (Transact h c d r f k)
  then show ?thesis
    using run by (auto simp: and_run_Returns dest!: call prog Q_R intro: R_trans)
qed (use run in \<open>auto simp: and_run_Returns R_refl dest!: reference discard prog Q_R intro: R_trans\<close>)

lemma transact_keeps:
  assumes wait: "\<And>r a s x s1. waitForResponse env n r a s = Returns x s1 \<Longrightarrow> Q s s1"
    and run: "transact env (Suc n) h c d r f s = Returns x s'"
  shows "Q s s'"
proof (cases "p_error d = OK")
  case True
  define s1 where "s1 = put_command (BC_TRANSACTION (transaction_of (f OR TF_ACCEPT_FDS) h c d)) s"
  have sent: "writeTransactionData BC_TRANSACTION (f OR TF_ACCEPT_FDS) h c d False s = (OK, s1)"
    by (simp add: writeTransactionData_def True s1_def)
  have "Q s1 s'"
    using run
    by (auto simp: sent and_run_Returns dest!: wait discard intro: Q_trans split: if_splits option.splits)
  then show ?thesis
    using call Q_trans unfolding s1_def by blast
next
  case False
  then have "s' = s\<lparr>mLastError := p_error d\<rparr>"
    using run by (auto simp: writeTransactionData_def)
  then show ?thesis
    using last_error by simp
qed

lemma serve_keeps:
  assumes prog: "\<And>p s x s1. run p s = Returns x s1 \<Longrightarrow> R s s1"
    and served: "serve_call env run tr buffer s = Returns x s2"
  obtains before after s1 where "R (emit before s) s1" "list_all neutral before" "list_all neutral after" "s2 = emit after s1"
proof (cases "td_target tr = 0")
  case True
  then obtain p where "run p (emit [Serving tr] s) = Returns x s2"
    using served by (auto simp: serve_call_def split: option.splits)
  then show ?thesis
    using that [of "[Serving tr]" s2 "[]"] prog by (simp add: emit_def)
next
  case False
  define ok where "ok = ie_promote env (length (ipc_events s)) (td_target tr)"
  let ?attempt = "Attempt_strong (td_target tr) ok"
  show ?thesis
  proof (cases ok)
    case True
    then obtain p s1 where "run p (emit [?attempt, Serving tr] s) = Returns x s1" "s2 = emit [Dec_strong (td_cookie tr)] s1"
      using served False
      by (auto simp: serve_call_def ok_def emit_def and_run_Returns Let_def split: option.splits)
    then show ?thesis
      using that [of "[?attempt, Serving tr]" s1 "[Dec_strong (td_cookie tr)]"] prog by simp
  next
    case no: False
    then have "s2 = emit [] (emit [?attempt] s)"
      using served False by (simp add: serve_call_def ok_def emit_def)
    then show ?thesis
      using that [of "[?attempt]" "emit [?attempt] s" "[]"] R_refl by simp
  qed
qed

lemma sendReply_issues:
  assumes wait: "\<And>s x s1. wait s = Returns x s1 \<Longrightarrow> Q s s1"
    and run: "sendReply wait d fl s = Returns x s'"
  shows "\<exists>td. Q (put_command (BC_REPLY td) s) s'"
proof -
  obtain td where "writeTransactionData BC_REPLY fl (-1) 0 d True s = (OK, put_command (BC_REPLY td) s)"
    by (cases "p_error d = OK") (auto simp: writeTransactionData_def)
  then obtain y where "wait (put_command (BC_REPLY td) s) = Returns y s'"
    using run by (auto simp: sendReply_def and_run_Returns)
  then show ?thesis
    using wait by blast
qed

lemma transaction_keeps:
  assumes prog: "\<And>p s x s1. run_prog env n p s = Returns x s1 \<Longrightarrow> R s s1"
    and wait: "\<And>r a s x s1. waitForResponse env n r a s = Returns x s1 \<Longrightarrow> Q s s1"
    and run: "run_transaction env (Suc n) tr secctx s = Returns x s'"
  shows "Q s s'"
proof -
  obtain buffer where buffer: "ipcSetDataReference (ie_parcel env) (td_data tr) (td_offsets tr) new_parcel = Some buffer"
    using run by (cases "ipcSetDataReference (ie_parcel env) (td_data tr) (td_offsets tr) new_parcel") auto
  obtain error rep s1 y s2 where
      served: "serve_call env (run_prog env n) tr buffer (begin_transaction tr secctx s) = Returns (error, rep) s1"
    and sent: "(if is_one_way (td_flags tr) then Returns OK s1
                else sendReply (waitForResponse env n None None)
                       (if error < OK then rep\<lparr>p_error := error\<rparr> else rep) (td_flags tr AND TF_CLEAR_BUF) s1)
               = Returns y s2"
    and freed: "freeBuffer (Some buffer) (td_buffer tr) (end_transaction s s2) = Returns () s'"
    using run by (auto simp: buffer and_run_Returns end_command_def)
  obtain before after s0 where s0: "R (emit before (begin_transaction tr secctx s)) s0"
      "list_all neutral before" "list_all neutral after" "s1 = emit after s0"
    by (rule serve_keeps [OF _ served]) (auto dest: prog)
  have "if is_one_way (td_flags tr) then s2 = emit after s0 else \<exists>td. Q (put_command (BC_REPLY td) (emit after s0)) s2"
    using sent sendReply_issues [OF wait] s0(4) by (auto split: if_splits)
  then show ?thesis
    using transaction [OF s0(1-3) _ freed] by blast
qed

lemma all_keep:
  "(\<forall>r a s x s'. waitForResponse env n r a s = Returns x s' \<longrightarrow> Q s s') \<and>
   (\<forall>cmd s e s'. executeCommand env n cmd s = Returns e s' \<longrightarrow> Q s s') \<and>
   (\<forall>tr c s e s'. run_transaction env n tr c s = Returns e s' \<longrightarrow> Q s s') \<and>
   (\<forall>p s x s'. run_prog env n p s = Returns x s' \<longrightarrow> R s s') \<and>
   (\<forall>h c d r f s x s'. transact env n h c d r f s = Returns x s' \<longrightarrow> Q s s')"
proof (induction n)
  case (Suc n)
  note tail = Suc [THEN conjunct2] Suc [THEN conjunct2, THEN conjunct2] Suc [THEN conjunct2, THEN conjunct2, THEN conjunct2]
  note wait = Suc [THEN conjunct1, rule_format]
    and exec = tail(1) [THEN conjunct1, rule_format]
    and trans = tail(2) [THEN conjunct1, rule_format]
    and prog = tail(3) [THEN conjunct1, rule_format]
    and call = tail(3) [THEN conjunct2, rule_format]
  have "executeCommand env (Suc n) cmd s = Returns e s' \<Longrightarrow> Q s s'" for cmd s e s'
    by (cases cmd) (auto dest: trans small)
  moreover have "waitForResponse env (Suc n) r a s = Returns x s' \<Longrightarrow> Q s s'" for r a s x s'
    by (rule wait_keeps [of env n]) (erule exec wait | assumption)+
  moreover have "run_transaction env (Suc n) tr c s = Returns e s' \<Longrightarrow> Q s s'" for tr c s e s'
    by (rule transaction_keeps [of env n]) (erule prog wait | assumption)+
  moreover have "run_prog env (Suc n) p s = Returns x s' \<Longrightarrow> R s s'" for p s x s'
    by (rule prog_keeps [of env n]) (erule call prog | assumption)+
  moreover have "transact env (Suc n) h c d r f s = Returns x s' \<Longrightarrow> Q s s'" for h c d r f s x s'
    by (rule transact_keeps [of env n]) (erule wait | assumption)+
  ultimately show ?case
    by (intro conjI allI impI)
qed simp

lemma executeCommand_keeps: "executeCommand env n cmd s = Returns e s' \<Longrightarrow> Q s s'"
  by (rule all_keep [THEN conjunct2, THEN conjunct1, rule_format])

lemma waitForResponse_keeps: "waitForResponse env n r a s = Returns x s' \<Longrightarrow> Q s s'"
  by (rule all_keep [THEN conjunct1, rule_format])

lemma transact_keep: "transact env n h c d r f s = Returns x s' \<Longrightarrow> Q s s'"
  by (rule all_keep [THEN conjunct2, THEN conjunct2, THEN conjunct2, THEN conjunct2, rule_format])

end


subsection \<open>The steps a run is made of\<close>

text \<open>
  A relation is kept by every run when the single steps keep it: commands queued, events, references and
  proxies written down, replies taken or refused, and a transaction around a run of its object.
\<close>

locale step_relation =
  fixes Q R :: "ipc_state \<Rightarrow> ipc_state \<Rightarrow> bool"
  assumes step_refl: "Q s s"
    and step_trans: "Q s s1 \<Longrightarrow> Q s1 s2 \<Longrightarrow> Q s s2"
    and code_refl: "R s s"
    and code_trans: "R s s1 \<Longrightarrow> R s1 s2 \<Longrightarrow> R s s2"
    and step_code: "Q s s1 \<Longrightarrow> R s s1"
    and step_exchange: "exchanged s s1 \<Longrightarrow> Q s s1"
    and step_input: "mIn s = cmd # cmds \<Longrightarrow> Q s (s\<lparr>mIn := cmds\<rparr>)"
    and step_error: "Q s (s\<lparr>mLastError := e\<rparr>)"
    and step_touch: "R s (s\<lparr>ipc_thread := t\<rparr>)"
    and step_put: "plain c \<Longrightarrow> Q s (put_command c s)"
    and step_emit: "list_all neutral evs \<Longrightarrow> Q s (emit evs s)"
    and step_waiting: "Q s (s\<lparr>mPostWriteStrongDerefs := ds\<rparr>)" "Q s (s\<lparr>mPostWriteWeakDerefs := ds\<rparr>)"
        "Q s (s\<lparr>mPendingStrongDerefs := ds\<rparr>)" "Q s (s\<lparr>mPendingWeakDerefs := ds\<rparr>)"
    and step_proxy: "(\<And>b. mAlive (f b) \<Longrightarrow> mAlive b) \<Longrightarrow> Q s (set_proxy p f s)"
    and step_refused: "Q s (put_command (BC_FREE_BUFFER b) (emit [Received_reply b] s))"
    and step_taken: "Q s ((emit [Received_reply b] s)\<lparr>ipc_held := ipc_held s @ [b]\<rparr>)"
    and step_given: "b \<in> set (ipc_held s) \<Longrightarrow> Q s (put_command (BC_FREE_BUFFER b) (s\<lparr>ipc_held := remove1 b (ipc_held s)\<rparr>))"
    and step_transaction:
      "R (emit before (begin_transaction tr secctx s)) s3 \<Longrightarrow> list_all neutral before \<Longrightarrow> list_all neutral after \<Longrightarrow>
       (if is_one_way (td_flags tr) then s4 = emit after s3
        else \<exists>td. Q (put_command (BC_REPLY td) (emit after s3)) s4) \<Longrightarrow>
       Q s (put_command (BC_FREE_BUFFER (td_buffer tr)) (end_transaction s s4))"
begin

lemma flushed_keeps: "plain c \<Longrightarrow> flushIfNeeded (put_command c s) = Returns b s1 \<Longrightarrow> Q s s1"
  by (rule step_trans [OF step_put step_exchange]) (auto intro: flushIfNeeded_exchanged)

lemma reference_keeps: "run_reference op s = Returns u s1 \<Longrightarrow> Q s s1"
proof (cases op)
  case (Handle_inc_strong h p)
  assume "run_reference op s = Returns u s1"
  then obtain b s2 where "flushIfNeeded (put_command (BC_ACQUIRE h) s) = Returns b s2"
      and s1: "s1 = s2 \<or> s1 = (emit [Inc_strong p] s2)\<lparr>mPostWriteStrongDerefs := mPostWriteStrongDerefs s2 @ [p]\<rparr>"
    by (auto simp: run_reference_def Handle_inc_strong incStrongHandle_def and_run_Returns split: if_splits)
  then have "Q s s2"
    by (rule_tac flushed_keeps) simp_all
  then show "Q s s1"
    using s1 by (auto intro: step_trans [OF _ step_trans [OF step_emit step_waiting(1)]])
next
  case (Handle_inc_weak h p)
  assume "run_reference op s = Returns u s1"
  then obtain b s2 where "flushIfNeeded (put_command (BC_INCREFS h) s) = Returns b s2"
      and s1: "s1 = s2 \<or> s1 = (emit [Inc_weak p] s2)\<lparr>mPostWriteWeakDerefs := mPostWriteWeakDerefs s2 @ [p]\<rparr>"
    by (auto simp: run_reference_def Handle_inc_weak incWeakHandle_def and_run_Returns split: if_splits)
  then have "Q s s2"
    by (rule_tac flushed_keeps) simp_all
  then show "Q s s1"
    using s1 by (auto intro: step_trans [OF _ step_trans [OF step_emit step_waiting(2)]])
qed (auto simp: run_reference_def decStrongHandle_def decWeakHandle_def and_run_Returns
      intro: flushed_keeps [rotated])

lemma obituary_keeps:
  assumes "sendObituary ok p s = Returns u s1"
  shows "Q s s1"
proof -
  let ?b = "ipc_proxies s p" and ?s = "set_proxy p (\<lambda>b. b\<lparr>mAlive := False\<rparr>) s"
  have dead: "Q s ?s"
    by (rule step_proxy) simp
  show ?thesis
  proof (cases "mObitsSent ?b \<or> mObituaries ?b = None")
    case True
    then have "s1 = ?s \<or> s1 = set_proxy p (\<lambda>b. b\<lparr>mObitsSent := True\<rparr>) ?s"
      using assms by (auto simp: sendObituary_def Let_def split: if_splits)
    then show ?thesis
      using dead by (auto intro!: step_trans [OF dead step_proxy])
  next
    case False
    then obtain obits u s2 where s2: "flushCommands (clearDeathNotification (bp_handle ?b) p ?s) = Returns u s2"
        and s1: "s1 = emit (concat (map (reportOneDeath ok) obits))
                   (set_proxy p (\<lambda>b. b\<lparr>mObituaries := None, mObitsSent := True\<rparr>) s2)"
      using assms by (auto simp: sendObituary_def Let_def and_run_Returns split: if_splits)
    have "Q ?s (clearDeathNotification (bp_handle ?b) p ?s)"
      unfolding clearDeathNotification_def by (rule step_put) simp
    then have "Q ?s s2"
      using step_exchange [OF flushCommands_exchanged [OF s2]] step_trans by blast
    moreover have "list_all neutral (concat (map (reportOneDeath ok) obits))"
      by (auto simp: list_all_iff reportOneDeath_def)
    then have "Q s2 s1"
      unfolding s1 by (rule_tac step_trans [OF step_proxy step_emit]) simp_all
    ultimately show ?thesis
      using dead step_trans by blast
  qed
qed

lemma emit_put_keeps: "list_all neutral evs \<Longrightarrow> plain c \<Longrightarrow> Q s (put_command c (emit evs s))"
  by (rule step_trans [OF step_emit step_put])

lemma end_command_keeps: "Q s s1 \<Longrightarrow> end_command e s1 = Returns x s2 \<Longrightarrow> Q s s2"
  by (auto simp: end_command_def intro: step_trans [OF _ step_error])

lemma small_keeps:
  assumes run: "small_command env cmd s = Returns e s1"
  shows "Q s s1"
proof (cases cmd)
  case (BR_DEAD_BINDER p)
  then obtain u s2 where s2: "sendObituary (ie_recipient env (length (ipc_events s))) p s = Returns u s2"
      and s1: "end_command OK (put_command (BC_DEAD_BINDER_DONE p) s2) = Returns e s1"
    using run by (auto simp: small_command_def and_run_Returns)
  have "Q s (put_command (BC_DEAD_BINDER_DONE p) s2)"
    by (rule step_trans [OF obituary_keeps [OF s2] step_put]) simp
  then show ?thesis
    using s1 by (rule end_command_keeps)
qed (use run in \<open>auto simp: small_command_def spawnPooledThread_def Let_def
      intro!: step_refl step_waiting step_emit emit_put_keeps elim!: end_command_keeps [rotated]\<close>)

lemma freeBuffer_exchanged:
  assumes "freeBuffer pa b s = Returns u s1"
  obtains evs where "list_all neutral evs" "exchanged (put_command (BC_FREE_BUFFER b) (emit evs s)) s1"
proof -
  have "list_all neutral (case pa of None \<Rightarrow> [] | Some p \<Rightarrow> closeFileDescriptors p)"
    by (auto simp: closeFileDescriptors_def list_all_iff split: option.split)
  then show ?thesis
    using assms that by (auto simp: freeBuffer_def and_run_Returns dest!: flushIfNeeded_exchanged)
qed

lemma reply_keeps:
  assumes run: "take_reply env tr r s = Returns got s1"
  shows "Q s s1"
proof -
  have freed: "Q s s2" if "freeBuffer None (td_buffer tr) (emit [Received_reply (td_buffer tr)] s) = Returns u s2" for u s2
  proof -
    have "flushIfNeeded (put_command (BC_FREE_BUFFER (td_buffer tr)) (emit [Received_reply (td_buffer tr)] s)) = Returns True s2 \<or>
          flushIfNeeded (put_command (BC_FREE_BUFFER (td_buffer tr)) (emit [Received_reply (td_buffer tr)] s)) = Returns False s2"
      using that by (auto simp: freeBuffer_def and_run_Returns emit_def)
    then show ?thesis
      using step_trans [OF step_refused step_exchange [OF flushIfNeeded_exchanged]] by blast
  qed
  show ?thesis
  proof (cases r)
    case None
    then show ?thesis
      using run freed by (auto simp: take_reply_def and_run_Returns)
  next
    case (Some pb)
    then show ?thesis
      using run freed step_taken
      by (cases pb) (auto simp: take_reply_def and_run_Returns Let_def emit_def split: if_splits option.splits)
  qed
qed

lemma discard_keeps:
  assumes run: "discard_reply p b s = Returns u s1"
  shows "Q s s1"
proof (cases "b \<in> set (ipc_held s)")
  case True
  let ?s = "s\<lparr>ipc_held := remove1 b (ipc_held s)\<rparr>"
  obtain evs where evs: "list_all neutral evs" and s1: "exchanged (put_command (BC_FREE_BUFFER b) (emit evs ?s)) s1"
    using run True freeBuffer_exchanged [of "Some p" b ?s u s1] by (auto simp: discard_reply_def)
  have "put_command (BC_FREE_BUFFER b) (emit evs ?s)
      = put_command (BC_FREE_BUFFER b) ((emit evs s)\<lparr>ipc_held := remove1 b (ipc_held (emit evs s))\<rparr>)"
    by (cases s) (simp add: emit_def)
  moreover have "Q (emit evs s) \<dots>"
    by (rule step_given) (simp add: emit_def True)
  ultimately have "Q s (put_command (BC_FREE_BUFFER b) (emit evs ?s))"
    using step_trans [OF step_emit [OF evs]] by metis
  then show ?thesis
    using step_exchange [OF s1] step_trans by blast
qed (use run step_refl in \<open>simp add: discard_reply_def\<close>)

lemma transaction_step:
  assumes served: "R (emit before (begin_transaction tr secctx s)) s3" "list_all neutral before" "list_all neutral after"
    and sent: "if is_one_way (td_flags tr) then s4 = emit after s3 else \<exists>td. Q (put_command (BC_REPLY td) (emit after s3)) s4"
    and freed: "freeBuffer (Some buffer) (td_buffer tr) (end_transaction s s4) = Returns u s5"
  shows "Q s s5"
proof -
  obtain evs where evs: "list_all neutral evs"
      and s5: "exchanged (put_command (BC_FREE_BUFFER (td_buffer tr)) (emit evs (end_transaction s s4))) s5"
    using freeBuffer_exchanged [OF freed] by blast
  have "Q s (put_command (BC_FREE_BUFFER (td_buffer tr)) (end_transaction s s4))"
    by (rule step_transaction [OF served sent])
  moreover have "put_command c (emit evs t) = emit evs (put_command c t)" for c t
    by (simp add: put_command_def emit_def)
  ultimately have "Q s (put_command (BC_FREE_BUFFER (td_buffer tr)) (emit evs (end_transaction s s4)))"
    using step_emit [OF evs] step_trans by simp
  then show ?thesis
    using step_exchange [OF s5] step_trans by blast
qed

end

sublocale step_relation \<subseteq> run_relation Q R
proof
  show "Q s (put_command (BC_TRANSACTION tr) s)" for s tr
    by (rule step_put) simp
qed (fact step_refl step_trans code_refl code_trans step_code step_exchange step_input step_error step_touch
    reference_keeps small_keeps reply_keeps discard_keeps transaction_step)+

end
