(* ===== verification/Ipc_Safety.thy ===== *)
theory Ipc_Safety
  imports Ipc_Props
begin

text \<open>
  The relations that every run of the thread keeps, and what follows for the commands, calls and waits of
  \<open>IPCThreadState.cpp\<close> and for calls through a proxy.
\<close>

lemmas ipc_steps = put_command_def emit_def set_proxy_def begin_transaction_def end_transaction_def issued_def

lemma dropping_neutral: "list_all dropping evs \<Longrightarrow> list_all neutral evs"
  by (auto simp: list_all_iff dropping_def)


subsection \<open>Identity\<close>

definition same_caller :: "ipc_state \<Rightarrow> ipc_state \<Rightarrow> bool" where
  "same_caller s s' \<longleftrightarrow> ipc_thread s' = ipc_thread s \<and> mServingStackPointer s' = mServingStackPointer s"

definition same_depth :: "ipc_state \<Rightarrow> ipc_state \<Rightarrow> bool" where
  "same_depth s s' \<longleftrightarrow> mServingStackPointer s' = mServingStackPointer s"

lemma end_transaction_caller: "same_caller s (put_command c (end_transaction s s'))"
  by (cases "ipc_thread s") (simp add: same_caller_def ipc_steps)

interpretation identity: step_relation same_caller same_depth
  by unfold_locales
    (auto simp: exchanged_facts end_transaction_caller,
     auto simp: same_caller_def same_depth_def ipc_steps exchanged_facts)


subsection \<open>Replies\<close>

fun is_reply :: "driver_command \<Rightarrow> bool" where
  "is_reply (BC_REPLY tr) = True"
| "is_reply _ = False"

fun wants_reply :: "ipc_event \<Rightarrow> bool" where
  "wants_reply (Received_call tr) = (\<not> is_one_way (td_flags tr))"
| "wants_reply _ = False"

definition replies :: "ipc_state \<Rightarrow> nat" where
  "replies s = length (filter is_reply (issued s))"

definition calls :: "ipc_state \<Rightarrow> nat" where
  "calls s = length (filter wants_reply (ipc_events s))"

definition answered :: "ipc_state \<Rightarrow> ipc_state \<Rightarrow> bool" where
  "answered s s' \<longleftrightarrow> replies s' + calls s = replies s + calls s'"

lemma plain_no_reply: "plain c \<Longrightarrow> \<not> is_reply c"
  by (cases c) auto

lemma neutral_no_call: "list_all neutral evs \<Longrightarrow> filter wants_reply evs = []"
proof -
  have "neutral e \<Longrightarrow> \<not> wants_reply e" for e
    by (cases e) auto
  then show "list_all neutral evs \<Longrightarrow> filter wants_reply evs = []"
    by (auto simp: list_all_iff filter_empty_conv)
qed

lemma answered_exchange: "exchanged s s1 \<Longrightarrow> answered s s1"
  using exchanged_facts(1) [of s s1] exchanged_facts(15) [of s s1] dropping_neutral neutral_no_call
  by (auto simp: answered_def replies_def calls_def)

lemma answered_transaction:
  assumes 1: "answered (emit before (begin_transaction tr secctx s)) s3"
    and 2: "list_all neutral before" and 3: "list_all neutral after"
    and 4: "if is_one_way (td_flags tr) then s4 = emit after s3
            else \<exists>td. answered (put_command (BC_REPLY td) (emit after s3)) s4"
  shows "answered s (put_command (BC_FREE_BUFFER (td_buffer tr)) (end_transaction s s4))"
proof -
  have begun: "calls (emit before (begin_transaction tr secctx s)) = calls s + of_bool (\<not> is_one_way (td_flags tr))"
      "replies (emit before (begin_transaction tr secctx s)) = replies s"
    using neutral_no_call [OF 2] by (simp_all add: calls_def replies_def ipc_steps)
  have after: "calls (emit after s3) = calls s3" "replies (emit after s3) = replies s3"
      "replies (put_command (BC_REPLY td) t) = Suc (replies t)" "calls (put_command (BC_REPLY td) t) = calls t" for td t
    using neutral_no_call [OF 3] by (simp_all add: calls_def replies_def ipc_steps)
  have "replies s4 + calls s = replies s + calls s4"
    using 1 4 begun after by (auto simp: answered_def split: if_splits)
  then show ?thesis
    by (simp add: answered_def replies_def calls_def ipc_steps)
qed

interpretation replies: step_relation answered answered
  by unfold_locales
    (fact answered_exchange answered_transaction |
     (auto simp: answered_def replies_def calls_def ipc_steps plain_no_reply neutral_no_call) [1])+


subsection \<open>Buffers\<close>

definition freed :: "nat \<Rightarrow> ipc_state \<Rightarrow> nat" where
  "freed b s = count_list (issued s) (BC_FREE_BUFFER b)"

fun brings :: "nat \<Rightarrow> ipc_event \<Rightarrow> bool" where
  "brings b (Received_call tr) = (td_buffer tr = b)"
| "brings b (Received_reply a) = (a = b)"
| "brings b _ = False"

definition received :: "nat \<Rightarrow> ipc_state \<Rightarrow> nat" where
  "received b s = length (filter (brings b) (ipc_events s))"

definition balanced :: "ipc_state \<Rightarrow> ipc_state \<Rightarrow> bool" where
  "balanced s s' \<longleftrightarrow>
     (\<forall>b. freed b s' + count_list (ipc_held s') b + received b s = freed b s + count_list (ipc_held s) b + received b s')"

lemma neutral_brings: "list_all neutral evs \<Longrightarrow> filter (brings b) evs = []"
proof -
  have "neutral e \<Longrightarrow> \<not> brings b e" for e
    by (cases e) auto
  then show "list_all neutral evs \<Longrightarrow> filter (brings b) evs = []"
    by (auto simp: list_all_iff filter_empty_conv)
qed

lemma plain_frees: "plain c \<Longrightarrow> c \<noteq> BC_FREE_BUFFER b"
  by (cases c) auto

lemma count_list_append1: "count_list (xs @ [x]) y = count_list xs y + of_bool (x = y)"
  by simp

lemma count_list_remove1: "b \<in> set xs \<Longrightarrow> Suc (count_list (remove1 b xs) b) = count_list xs b"
  by (induction xs) auto

lemma count_list_remove1_other: "a \<noteq> b \<Longrightarrow> count_list (remove1 a xs) b = count_list xs b"
  by (induction xs) auto

lemma balanced_trans:
  assumes "balanced s s1" "balanced s1 s2"
  shows "balanced s s2"
  unfolding balanced_def
proof
  fix b
  show "freed b s2 + count_list (ipc_held s2) b + received b s = freed b s + count_list (ipc_held s) b + received b s2"
    using assms [unfolded balanced_def, rule_format, of b] by linarith
qed

lemma balanced_exchange: "exchanged s s1 \<Longrightarrow> balanced s s1"
  using exchanged_facts(1,4) [of s s1] exchanged_facts(15) [of s s1] dropping_neutral neutral_brings
  by (auto simp: balanced_def freed_def received_def)

lemma balanced_given:
  assumes "b \<in> set (ipc_held s)"
  shows "balanced s (put_command (BC_FREE_BUFFER b) (s\<lparr>ipc_held := remove1 b (ipc_held s)\<rparr>))"
  unfolding balanced_def
proof
  fix a
  show "freed a (put_command (BC_FREE_BUFFER b) (s\<lparr>ipc_held := remove1 b (ipc_held s)\<rparr>)) +
        count_list (ipc_held (put_command (BC_FREE_BUFFER b) (s\<lparr>ipc_held := remove1 b (ipc_held s)\<rparr>))) a + received a s =
        freed a s + count_list (ipc_held s) a +
        received a (put_command (BC_FREE_BUFFER b) (s\<lparr>ipc_held := remove1 b (ipc_held s)\<rparr>))"
    using count_list_remove1 [OF assms] count_list_remove1_other [of b a "ipc_held s"]
    by (cases "a = b") (simp_all add: freed_def received_def ipc_steps)
qed

lemma balanced_transaction:
  assumes 1: "balanced (emit before (begin_transaction tr secctx s)) s3"
    and 2: "list_all neutral before" and 3: "list_all neutral after"
    and 4: "if is_one_way (td_flags tr) then s4 = emit after s3
            else \<exists>td. balanced (put_command (BC_REPLY td) (emit after s3)) s4"
  shows "balanced s (put_command (BC_FREE_BUFFER (td_buffer tr)) (end_transaction s s4))"
proof -
  have begun: "received b (emit before (begin_transaction tr secctx s)) = received b s + of_bool (td_buffer tr = b)"
      "freed b (emit before (begin_transaction tr secctx s)) = freed b s"
      "ipc_held (emit before (begin_transaction tr secctx s)) = ipc_held s" for b
    using neutral_brings [OF 2] by (simp_all add: received_def freed_def ipc_steps)
  have after: "received b (emit after s3) = received b s3" "freed b (emit after s3) = freed b s3"
      "ipc_held (emit after s3) = ipc_held s3"
      "received b (put_command (BC_REPLY td) t) = received b t" "freed b (put_command (BC_REPLY td) t) = freed b t"
      "ipc_held (put_command (BC_REPLY td) t) = ipc_held t" for b td t
    using neutral_brings [OF 3] by (simp_all add: received_def freed_def ipc_steps)
  have replied: "freed b s4 + count_list (ipc_held s4) b + received b s3 = freed b s3 + count_list (ipc_held s3) b + received b s4" for b
    using 4 after by (auto simp: balanced_def split: if_splits)
  have served: "freed b s3 + count_list (ipc_held s3) b + (received b s + of_bool (td_buffer tr = b)) =
      freed b s + count_list (ipc_held s) b + received b s3" for b
    using 1 by (auto simp: balanced_def begun)
  have total: "freed b s4 + of_bool (td_buffer tr = b) + count_list (ipc_held s4) b + received b s =
      freed b s + count_list (ipc_held s) b + received b s4" for b
    using replied [of b] served [of b] by linarith
  let ?s = "put_command (BC_FREE_BUFFER (td_buffer tr)) (end_transaction s s4)"
  have "freed b ?s = freed b s4 + of_bool (td_buffer tr = b)" "received b ?s = received b s4" "ipc_held ?s = ipc_held s4" for b
    by (simp_all add: freed_def received_def ipc_steps)
  then show ?thesis
    using total by (simp add: balanced_def del: of_bool_eq_0_iff)
qed

interpretation buffers: step_relation balanced balanced
  by unfold_locales
    (fact balanced_trans balanced_exchange balanced_given balanced_transaction |
     (auto simp: balanced_def freed_def received_def ipc_steps neutral_brings plain_frees count_list_append1) [1])+


subsection \<open>Dead proxies\<close>

definition no_revival :: "ipc_state \<Rightarrow> ipc_state \<Rightarrow> bool" where
  "no_revival s s' \<longleftrightarrow> (\<forall>p. mAlive (ipc_proxies s' p) \<longrightarrow> mAlive (ipc_proxies s p))"

interpretation deaths: step_relation no_revival no_revival
  by unfold_locales (auto simp: no_revival_def ipc_steps exchanged_facts split: if_splits)


subsection \<open>Order\<close>

definition in_order :: "ipc_state \<Rightarrow> ipc_state \<Rightarrow> bool" where
  "in_order s s' \<longleftrightarrow>
     (\<exists>cmds. issued s' = issued s @ cmds) \<and> (\<exists>cmds. ipc_sent s' = ipc_sent s @ cmds)"

lemma issued_steps:
  "issued (put_command c s) = issued s @ [c]" "issued (emit evs s) = issued s" "issued (set_proxy p f s) = issued s"
  "issued (begin_transaction tr secctx s) = issued s" "issued (end_transaction s s') = issued s'"
  "ipc_sent (put_command c s) = ipc_sent s" "ipc_sent (emit evs s) = ipc_sent s" "ipc_sent (set_proxy p f s) = ipc_sent s"
  "ipc_sent (begin_transaction tr secctx s) = ipc_sent s" "ipc_sent (end_transaction s s') = ipc_sent s'"
  by (simp_all add: ipc_steps)

lemma in_order_trans: "in_order s s1 \<Longrightarrow> in_order s1 s2 \<Longrightarrow> in_order s s2"
  by (auto simp: in_order_def)

lemma in_order_exchange: "exchanged s s1 \<Longrightarrow> in_order s s1"
  using exchanged_facts(1,14) by (auto simp: in_order_def)

lemma in_order_transaction:
  assumes "in_order (emit before (begin_transaction tr secctx s)) s3"
    and "if is_one_way (td_flags tr) then s4 = emit after s3
         else \<exists>td. in_order (put_command (BC_REPLY td) (emit after s3)) s4"
  shows "in_order s (put_command (BC_FREE_BUFFER (td_buffer tr)) (end_transaction s s4))"
  using assms by (auto simp: in_order_def issued_steps split: if_splits)

interpretation order: step_relation in_order in_order
  by unfold_locales
    (fact in_order_trans in_order_exchange | (erule in_order_transaction, assumption) [1] |
     (auto simp: in_order_def ipc_steps) [1])+

end
