(* ===== verification/Ipc_Termination.thy ===== *)
theory Ipc_Termination
  imports Ipc_Safety
begin

text \<open>
  The functions of the thread end: whatever the driver answers, the local objects do and however deep calls
  nest, there is a number of steps that suffices, and more steps change nothing. A driver that has no answer
  left makes the thread wait for ever, which is an outcome of its own.
\<close>

subsection \<open>Outcomes that do not depend on the number of steps\<close>

definition stabilises :: "(nat \<Rightarrow> 'a run) \<Rightarrow> bool" where
  "stabilises g \<longleftrightarrow> (\<exists>n x. x \<noteq> Unfinished \<and> (\<forall>m\<ge>n. g m = x))"

lemma stabilises_const: "x \<noteq> Unfinished \<Longrightarrow> stabilises (\<lambda>_. x)"
  by (auto simp: stabilises_def)

lemma stabilises_Suc: "stabilises (\<lambda>n. g (Suc n)) \<Longrightarrow> stabilises g"
  unfolding stabilises_def by (metis Suc_le_D Suc_le_mono)

lemma stabilises_and:
  assumes g: "stabilises g" and f: "\<And>n a s. g n = Returns a s \<Longrightarrow> stabilises (\<lambda>n. f n a s)"
  shows "stabilises (\<lambda>n. and_run (g n) (f n))"
proof -
  obtain n x where x: "x \<noteq> Unfinished" "\<And>m. m \<ge> n \<Longrightarrow> g m = x"
    using g by (auto simp: stabilises_def)
  show ?thesis
  proof (cases x)
    case (Returns a s)
    then obtain k y where y: "y \<noteq> Unfinished" "\<And>m. m \<ge> k \<Longrightarrow> f m a s = y"
      using f [of n a s] x(2) [of n] by (auto simp: stabilises_def)
    then have "\<forall>m \<ge> max n k. and_run (g m) (f m) = y"
      using x(2) Returns by simp
    then show ?thesis
      using y(1) unfolding stabilises_def by blast
  next
    case Aborts
    then have "\<forall>m \<ge> n. and_run (g m) (f m) = Aborts"
      using x(2) by simp
    then show ?thesis
      unfolding stabilises_def by blast
  next
    case Blocks
    then have "\<forall>m \<ge> n. and_run (g m) (f m) = Blocks"
      using x(2) by simp
    then show ?thesis
      unfolding stabilises_def by blast
  qed (use x(1) in simp)
qed

lemma stabilises_if:
  "(c \<Longrightarrow> stabilises f) \<Longrightarrow> (\<not> c \<Longrightarrow> stabilises g) \<Longrightarrow> stabilises (\<lambda>n. if c then f n else g n)"
  by (cases c) simp_all

lemma stabilises_case:
  "(c = None \<Longrightarrow> stabilises f) \<Longrightarrow> (\<And>x. c = Some x \<Longrightarrow> stabilises (\<lambda>n. g n x)) \<Longrightarrow>
   stabilises (\<lambda>n. case c of None \<Rightarrow> f n | Some x \<Rightarrow> g n x)"
  by (cases c) simp_all

lemmas stabilises_and_const = stabilises_and [where g = "\<lambda>_. r" for r, OF stabilises_const]

lemma and_run_Unfinished: "and_run r f = Unfinished \<longleftrightarrow> r = Unfinished \<or> (\<exists>a s. r = Returns a s \<and> f a s = Unfinished)"
  by (cases r) auto

lemma ioctl_loop_finished: "ioctl_loop reading script s \<noteq> Unfinished"
  by (induction reading script s rule: ioctl_loop.induct) (auto simp: take_results_def Let_def)

lemma finished [simp]:
  "talkWithDriver r s \<noteq> Unfinished" "flushCommands s \<noteq> Unfinished" "flushIfNeeded s \<noteq> Unfinished"
  "freeBuffer p b s \<noteq> Unfinished" "run_reference op s \<noteq> Unfinished" "discard_reply q b s \<noteq> Unfinished"
  "end_command e s \<noteq> Unfinished" "finish_response e r' a s \<noteq> Unfinished"
proof -
  show talk: "talkWithDriver r s \<noteq> Unfinished" for r s
    by (simp add: talkWithDriver_def Let_def ioctl_loop_finished)
  show flush: "flushCommands s \<noteq> Unfinished" for s
    by (auto simp: flushCommands_def talk and_run_Unfinished split: if_splits)
  show needed: "flushIfNeeded s \<noteq> Unfinished" for s
    by (auto simp: flushIfNeeded_def flush and_run_Unfinished split: if_splits)
  show free: "freeBuffer p b s \<noteq> Unfinished" for p b s
    by (auto simp: freeBuffer_def needed and_run_Unfinished)
  show "run_reference op s \<noteq> Unfinished"
    by (auto simp: run_reference_def incStrongHandle_def decStrongHandle_def incWeakHandle_def decWeakHandle_def needed and_run_Unfinished
        split: handle_op.splits)
  show "discard_reply q b s \<noteq> Unfinished"
    by (simp add: discard_reply_def free)
qed (simp_all add: end_command_def finish_response_def)

lemma small_command_finished [simp]: "small_command env cmd s \<noteq> Unfinished"
  by (cases cmd)
    (auto simp: small_command_def sendObituary_def Let_def and_run_Unfinished split: option.splits if_splits)

lemma take_reply_finished [simp]: "take_reply env tr r s \<noteq> Unfinished"
  by (auto simp: take_reply_def Let_def and_run_Unfinished split: option.splits if_splits)


subsection \<open>What is left to be done\<close>

text \<open>The answers the driver still has and the commands not yet run, in lexicographic order.\<close>

definition no_more :: "ipc_state \<Rightarrow> ipc_state \<Rightarrow> bool" where
  "no_more s s' \<longleftrightarrow>
     length (ipc_script s') < length (ipc_script s) \<or>
     length (ipc_script s') = length (ipc_script s) \<and> length (mIn s') \<le> length (mIn s)"

definition fewer :: "ipc_state \<Rightarrow> ipc_state \<Rightarrow> bool" where
  "fewer s s' \<longleftrightarrow>
     length (ipc_script s') < length (ipc_script s) \<or>
     length (ipc_script s') = length (ipc_script s) \<and> length (mIn s') < length (mIn s)"

lemma no_more_refl [simp]: "no_more s s"
  by (simp add: no_more_def)

lemma no_more_trans: "no_more s s1 \<Longrightarrow> no_more s1 s2 \<Longrightarrow> no_more s s2"
  by (auto simp: no_more_def)

lemma fewer_no_more: "fewer s s1 \<Longrightarrow> no_more s1 s2 \<Longrightarrow> fewer s s2"
  by (auto simp: no_more_def fewer_def)

lemma no_more_fewer: "no_more s s1 \<Longrightarrow> fewer s1 s2 \<Longrightarrow> fewer s s2"
  by (auto simp: no_more_def fewer_def)

lemma no_more_steps [simp]:
  "no_more s (put_command c s') = no_more s s'" "no_more s (emit evs s') = no_more s s'"
  "no_more s (begin_transaction tr secctx s') = no_more s s'" "no_more s (end_transaction t s') = no_more s s'"
  "no_more (put_command c s) s' = no_more s s'" "no_more (emit evs s) s' = no_more s s'"
  "no_more (begin_transaction tr secctx s) s' = no_more s s'" "no_more s (s'\<lparr>ipc_thread := t1\<rparr>) = no_more s s'"
  by (simp_all add: no_more_def ipc_steps)

lemma no_more_exchange: "exchanged s s1 \<Longrightarrow> no_more s s1"
  using exchanged_facts(13) [of s s1] by (auto simp: no_more_def)

lemma no_more_transaction:
  assumes "no_more (emit before (begin_transaction tr secctx s)) s3"
    and "if is_one_way (td_flags tr) then s4 = emit after s3
         else \<exists>td. no_more (put_command (BC_REPLY td) (emit after s3)) s4"
  shows "no_more s (put_command (BC_FREE_BUFFER (td_buffer tr)) (end_transaction s s4))"
  using assms no_more_trans by (auto split: if_splits)

interpretation shrinks: step_relation no_more no_more
  by unfold_locales
    (fact no_more_trans no_more_exchange | (erule no_more_transaction, assumption) [1] |
     (auto simp: no_more_def ipc_steps) [1])+


subsection \<open>Every function ends\<close>

definition waits_end :: "ipc_env \<Rightarrow> ipc_state \<Rightarrow> bool" where
  "waits_end env s \<longleftrightarrow> (\<forall>s' r a. no_more s s' \<longrightarrow> stabilises (\<lambda>n. waitForResponse env n r a s'))"

lemma waits_endD: "waits_end env s \<Longrightarrow> no_more s s' \<Longrightarrow> stabilises (\<lambda>n. waitForResponse env n r a s')"
  by (simp add: waits_end_def)

lemma transact_ends:
  assumes waits: "waits_end env s" and le: "no_more s s'"
  shows "stabilises (\<lambda>n. transact env n h c d r f s')"
proof (rule stabilises_Suc)
  obtain err s1 where sent: "writeTransactionData BC_TRANSACTION (f OR TF_ACCEPT_FDS) h c d False s' = (err, s1)"
    by (cases "writeTransactionData BC_TRANSACTION (f OR TF_ACCEPT_FDS) h c d False s'")
  have "err = OK \<Longrightarrow> no_more s s1"
    using sent le by (auto simp: writeTransactionData_def split: if_splits)
  then show "stabilises (\<lambda>n. transact env (Suc n) h c d r f s')"
    by (cases "err = OK"; cases "is_one_way f"; cases "mCallRestriction s1 = Fatal_if_not_oneway"; cases r)
      (auto simp: sent and_run_Unfinished intro!: stabilises_const stabilises_and waits_endD [OF waits]
        split: option.splits)
qed

lemma prog_ends:
  assumes waits: "waits_end env s"
  shows "no_more s s' \<Longrightarrow> stabilises (\<lambda>n. run_prog env n p s')"
proof (induction p arbitrary: s')
  case (Finish e r)
  then show ?case
    by (intro stabilises_Suc [of "\<lambda>n. run_prog env n (Finish e r) s'"]) (simp add: stabilises_const)
next
  case (Touch f)
  obtain t p1 where f: "f (ipc_thread s') = (t, p1)"
    by (cases "f (ipc_thread s')")
  have "stabilises (\<lambda>n. run_prog env n p1 (s'\<lparr>ipc_thread := t\<rparr>))"
    using Touch.IH [OF rangeI [of f "ipc_thread s'"], of p1] Touch.prems by (simp add: f)
  then show ?case
    by (intro stabilises_Suc [of "\<lambda>n. run_prog env n (Touch f) s'"]) (simp add: f)
next
  case (Reference op p)
  have "stabilises (\<lambda>n. and_run (run_reference op s') (\<lambda>_. run_prog env n p))"
    by (rule stabilises_and_const [OF finished(5)])
      (auto intro: Reference.IH no_more_trans [OF Reference.prems] dest: shrinks.reference)
  then show ?case
    by (intro stabilises_Suc [of "\<lambda>n. run_prog env n (Reference op p) s'"]) simp
next
  case (Transact h c d r f k)
  have "stabilises (\<lambda>n. and_run (transact env n h c d (if r then Some (new_parcel, None) else None) f s')
           (\<lambda>x. run_prog env n (k x)))"
    by (rule stabilises_and [OF transact_ends [OF waits Transact.prems]])
      (auto intro!: Transact.IH no_more_trans [OF Transact.prems] dest: shrinks.transact_keep)
  then show ?case
    by (intro stabilises_Suc [of "\<lambda>n. run_prog env n (Transact h c d r f k) s'"]) simp
next
  case (Discard q b p)
  have "stabilises (\<lambda>n. and_run (discard_reply q b s') (\<lambda>_. run_prog env n p))"
    by (rule stabilises_and_const [OF finished(6)])
      (auto intro: Discard.IH no_more_trans [OF Discard.prems] dest: shrinks.discard)
  then show ?case
    by (intro stabilises_Suc [of "\<lambda>n. run_prog env n (Discard q b p) s'"]) simp
qed

lemma serve_ends:
  assumes waits: "waits_end env s" and le: "no_more s s'"
  shows "stabilises (\<lambda>n. serve_call env (run_prog env n) tr buffer s')"
  unfolding serve_call_def Let_def
  by (intro stabilises_if stabilises_case stabilises_and stabilises_const prog_ends [OF waits])
    (simp_all add: le)

lemma serve_shrinks:
  assumes "serve_call env (run_prog env n) tr buffer s = Returns x s1"
  shows "no_more s s1"
proof -
  obtain before after s0 where "no_more (emit before s) s0" "s1 = emit after s0"
    by (rule shrinks.serve_keeps [OF _ assms]) (auto dest: shrinks.all_keep [THEN conjunct2, THEN conjunct2, THEN conjunct2, THEN conjunct1, rule_format])
  then show ?thesis
    by simp
qed

lemma transaction_ends:
  assumes waits: "waits_end env s" and le: "no_more s s'"
  shows "stabilises (\<lambda>n. run_transaction env n tr secctx s')"
proof (rule stabilises_Suc)
  show "stabilises (\<lambda>n. run_transaction env (Suc n) tr secctx s')"
  proof (cases "ipcSetDataReference (ie_parcel env) (td_data tr) (td_offsets tr) new_parcel")
    case (Some buffer)
    have "stabilises (\<lambda>n. serve_call env (run_prog env n) tr buffer (begin_transaction tr secctx s'))"
      by (rule serve_ends [OF waits]) (simp add: le)
    moreover have "stabilises (\<lambda>n. sendReply (waitForResponse env n None None) rep fl s1)" if "no_more s s1" for rep fl s1
    proof -
      have "no_more s s2" if "writeTransactionData BC_REPLY fl (-1) 0 rep True s1 = (e, s2)" for e s2
        using that \<open>no_more s s1\<close> by (auto simp: writeTransactionData_def split: if_splits)
      then show ?thesis
        by (cases "writeTransactionData BC_REPLY fl (-1) 0 rep True s1")
          (auto simp: sendReply_def intro!: stabilises_if stabilises_const stabilises_and waits_endD [OF waits])
    qed
    moreover have "no_more s s1"
      if "serve_call env (run_prog env n) tr buffer (begin_transaction tr secctx s') = Returns x s1" for n x s1
      using no_more_trans [OF le, of s1] serve_shrinks [OF that] by simp
    ultimately show ?thesis
      unfolding run_transaction.simps Some option.case
      by (auto intro!: stabilises_if stabilises_and stabilises_const simp: and_run_Unfinished)
  qed (simp add: stabilises_const)
qed

lemma command_ends:
  assumes waits: "waits_end env s" and le: "no_more s s'"
  shows "stabilises (\<lambda>n. executeCommand env n cmd s')"
  by (rule stabilises_Suc) (cases cmd, auto intro: stabilises_const transaction_ends [OF waits le])

text \<open>Well-founded induction over what is left: a wait runs a command only after taking it from the queue.\<close>

lemma talk_then_less:
  assumes "talkWithDriver True s = Returns err s1" "err \<ge> OK"
  shows "mIn s1 = [] \<Longrightarrow> fewer s s1" "mIn s1 = cmd # rest \<Longrightarrow> fewer s (s1\<lparr>mIn := rest\<rparr>)"
proof -
  have "length (ipc_script s1) < length (ipc_script s) \<or> ipc_script s1 = ipc_script s \<and> mIn s1 = mIn s \<and> mIn s \<noteq> []"
    using exchanged_facts(13) [OF talkWithDriver_exchanged [OF assms(1)]] talkWithDriver_reads [OF assms(1) _ assms(2)] by auto
  then show "mIn s1 = [] \<Longrightarrow> fewer s s1" "mIn s1 = cmd # rest \<Longrightarrow> fewer s (s1\<lparr>mIn := rest\<rparr>)"
    by (auto simp: fewer_def dest: arg_cong [where f = length])
qed

lemma wait_ends_if:
  assumes less: "\<And>s' r a. fewer s s' \<Longrightarrow> stabilises (\<lambda>n. waitForResponse env n r a s')"
  shows "stabilises (\<lambda>n. waitForResponse env n r a s)"
proof (rule stabilises_Suc, unfold waitForResponse.simps, rule stabilises_and_const, goal_cases)
  case (2 n err s1)
  note talk = 2
  have finish: "stabilises (\<lambda>_. finish_response e r' a' t)" for e r' a' t
    by (rule stabilises_const) simp
  show ?case
  proof (cases "err < OK")
    case False
    then have ok: "err \<ge> OK"
      by simp
    show ?thesis
    proof (cases "mIn s1")
      case Nil
      then show ?thesis
        using less [OF talk_then_less(1) [OF talk ok Nil]] False by simp
    next
      case (Cons cmd rest)
      define s2 where "s2 = s1\<lparr>mIn := rest\<rparr>"
      have s2: "fewer s s2"
        unfolding s2_def by (rule talk_then_less(2) [OF talk ok Cons])
      have "waits_end env s2"
        unfolding waits_end_def using less fewer_no_more [OF s2] by blast
      then have exec: "stabilises (\<lambda>n. executeCommand env n c s2)" for c
        by (rule command_ends) simp
      have again: "stabilises (\<lambda>n. waitForResponse env n r' a' s3)" if "no_more s2 s3" for r' a' s3
        using less fewer_no_more [OF s2 that] by blast
      have run: "stabilises (\<lambda>n. and_run (executeCommand env n c s2)
                           (\<lambda>err s3. if err \<noteq> OK then finish_response err r a s3 else waitForResponse env n r a s3))" for c
        by (rule stabilises_and [OF exec]) (auto intro!: stabilises_if finish again dest: shrinks.executeCommand_keeps)
      have reply: "stabilises (\<lambda>n. and_run (take_reply env tr r s2)
                           (\<lambda>got s3. case got of
                              None \<Rightarrow> waitForResponse env n r a s3
                            | Some (err, r1) \<Rightarrow> finish_response err r1 a s3))" for tr
        by (rule stabilises_and_const) (auto intro!: stabilises_case finish again dest: shrinks.reply)
      show ?thesis
        unfolding Cons list.case Let_def s2_def [symmetric]
        using False
        by (cases cmd; simp only: driver_return.case if_False)
          (intro stabilises_if run reply finish again no_more_refl)+
    qed
  qed (simp add: finish)
qed simp

lemma wait_ends: "stabilises (\<lambda>n. waitForResponse env n r a s)"
proof -
  have "wf (inv_image (less_than <*lex*> less_than) (\<lambda>s. (length (ipc_script s), length (mIn s))))"
    by (intro wf_inv_image wf_lex_prod wf_less_than)
  then show ?thesis
  proof (induction s arbitrary: r a rule: wf_induct_rule)
    case (less s)
    show ?case
    proof (rule wait_ends_if)
      fix s' r a
      assume "fewer s s'"
      then show "stabilises (\<lambda>n. waitForResponse env n r a s')"
        by (intro less.IH) (auto simp: fewer_def)
    qed
  qed
qed

lemma waits_end_all: "waits_end env s"
  by (simp add: waits_end_def wait_ends)


subsection \<open>Pool threads\<close>

lemma talk_fails_less:
  assumes "talkWithDriver True s = Returns err s1" "err < OK" "err \<noteq> - EBADF"
  shows "fewer s s1"
  using assms by (auto simp: talkWithDriver_def Let_def fewer_def dest: ioctl_loop_exchanged split: if_splits)

lemma executing_left:
  "ipc_script (start_executing env s) = ipc_script s" "mIn (start_executing env s) = mIn s"
  "ipc_script (stop_executing s) = ipc_script s" "mIn (stop_executing s) = mIn s"
  "ipc_script (processPendingDerefs s) = ipc_script s" "mIn (processPendingDerefs s) = mIn s"
  by (simp_all add: start_executing_def stop_executing_def processPendingDerefs_def emit_def Let_def)

lemma getAndExecuteCommand_less:
  assumes run: "getAndExecuteCommand env n s = Returns e s'" and "e \<noteq> - EBADF"
  shows "fewer s s'"
proof -
  obtain err s1 where talk: "talkWithDriver True s = Returns err s1"
    using run by (auto simp: getAndExecuteCommand_def and_run_Returns)
  show ?thesis
  proof (cases "err < OK")
    case True
    then have "e = err" "s' = s1"
      using run talk by (simp_all add: getAndExecuteCommand_def)
    then show ?thesis
      using talk_fails_less [OF talk True] assms(2) by simp
  next
    case False
    then have ok: "err \<ge> OK"
      by simp
    show ?thesis
    proof (cases "mIn s1")
      case Nil
      then show ?thesis
        using run talk ok talk_then_less(1) [OF talk ok Nil] by (simp add: getAndExecuteCommand_def)
    next
      case (Cons cmd rest)
      then obtain s2 where s2: "executeCommand env n cmd (start_executing env (s1\<lparr>mIn := rest\<rparr>)) = Returns e s2"
          and s': "s' = stop_executing s2"
        using run talk ok by (auto simp: getAndExecuteCommand_def and_run_Returns)
      have "no_more (s1\<lparr>mIn := rest\<rparr>) s'"
        using shrinks.executeCommand_keeps [OF s2] by (simp add: s' no_more_def executing_left)
      then show ?thesis
        using talk_then_less(2) [OF talk ok Cons] fewer_no_more by blast
    qed
  qed
qed

lemma getAndExecuteCommand_ends: "stabilises (\<lambda>n. getAndExecuteCommand env n s)"
  unfolding getAndExecuteCommand_def
proof (rule stabilises_and_const, goal_cases)
  case (2 n err s1)
  show ?case
    by (cases "mIn s1")
      (auto intro!: stabilises_if stabilises_const stabilises_and command_ends [OF waits_end_all no_more_refl])
qed simp

lemma pool_loop_ends: "stabilises (\<lambda>n. pool_loop env n isMain s)"
proof -
  have "wf (inv_image (less_than <*lex*> less_than) (\<lambda>s. (length (ipc_script s), length (mIn s))))"
    by (intro wf_inv_image wf_lex_prod wf_less_than)
  then show ?thesis
  proof (induction s rule: wf_induct_rule)
    case (less s)
    show ?case
    proof (rule stabilises_Suc, unfold pool_loop.simps, rule stabilises_and [OF getAndExecuteCommand_ends], goal_cases)
      case (1 n result s1)
      have "result \<noteq> - EBADF \<Longrightarrow> fewer s s1"
        using getAndExecuteCommand_less [OF 1] by (simp add: fewer_def executing_left)
      then have "result \<noteq> - EBADF \<Longrightarrow> stabilises (\<lambda>n. pool_loop env n isMain s1)"
        by (intro less.IH) (auto simp: fewer_def)
      then show ?case
        by (intro stabilises_if stabilises_const) simp_all
    qed
  qed
qed

lemma joinThreadPool_ends: "stabilises (\<lambda>n. joinThreadPool env n isMain s)"
  unfolding joinThreadPool_def
  by (rule stabilises_and [OF pool_loop_ends]) (simp add: stabilises_const and_run_Unfinished)

end
