(* ===== verification/Ipc_Theorems.thy ===== *)
theory Ipc_Theorems
  imports Ipc_Termination
begin

text \<open>
  The properties of the thread (\<open>IPCThreadState.cpp\<close>, \<open>BpBinder.cpp\<close>), from the relations that every run keeps, and
  a run with a nested call to show them at work.
\<close>

subsection \<open>A thread at work\<close>

text \<open>
  A pool thread is handed a call from process 100, user 10007. The object clears its calling identity and makes
  a call of its own; while that waits, a one-way call from user 10008 arrives and is served; then the reply
  comes in, is discarded, and the object finishes.
\<close>

definition sample_call :: "nat \<Rightarrow> nat \<Rightarrow> int \<Rightarrow> nat \<Rightarrow> transaction_data" where
  "sample_call code flags uid buffer =
     \<lparr>td_target = 0, td_cookie = 0, td_code = code, td_flags = flags, td_sender_pid = 100, td_sender_euid = uid,
      td_buffer = buffer, td_data = [], td_offsets = []\<rparr>"

definition sample_object :: "nat \<Rightarrow> nat \<Rightarrow> parcel \<Rightarrow> nat \<Rightarrow> prog" where
  "sample_object obj code data flags =
     (if code = 1 then
        Touch (\<lambda>t. (snd (clearCallingIdentity 50 1000 t),
          Transact 3 2 new_parcel True 0
            (\<lambda>(err, reply). case reply of
               Some (p, Some buffer) \<Rightarrow> Discard p buffer (Finish OK new_parcel)
             | _ \<Rightarrow> Finish err new_parcel)))
      else Finish OK new_parcel)"

definition sample_ipc_env :: ipc_env where
  "sample_ipc_env = \<lparr>ie_parcel = plain_env, ie_promote = \<lambda>k r. True, ie_recipient = \<lambda>k r. True, ie_uptime = \<lambda>k. 1,
     ie_onTransact = sample_object, ie_extension = \<lambda>obj. None, ie_noBackground = False, ie_pid = 50, ie_context = Some 8\<rparr>"

definition sample_ipc :: ipc_state where
  "sample_ipc = \<lparr>ipc_thread = new_thread_state 50 1000, mIn = [], mOut = [], mLastError = 0, mServingStackPointer = 0,
     mIsLooper = True, mIsFlushing = False, mCallRestriction = Restriction_none,
     mPendingStrongDerefs = [], mPendingWeakDerefs = [], mPostWriteStrongDerefs = [], mPostWriteWeakDerefs = [],
     mProcess = \<lparr>mDriverFD = 3, mMaxThreads = 15, mExecutingThreadsCount = 1, mWaitingForThreads = 0,
       mStarvationStartTimeMs = 0, mThreadPoolStarted = True\<rparr>,
     ipc_proxies = \<lambda>p. (BpBinder_init 3)\<lparr>mAlive := False\<rparr>,
     ipc_script = [Ioctl_done 68 [BR_TRANSACTION_COMPLETE, BR_TRANSACTION (sample_call 5 1 10008 72), BR_REPLY (sample_call 0 0 0 73)],
                   Ioctl_interrupted, Ioctl_done 200 [BR_TRANSACTION_COMPLETE]],
     ipc_sent = [], ipc_events = [], ipc_held = []\<rparr>"

definition steps12 :: nat where
  "steps12 = Suc (Suc (Suc (Suc (Suc (Suc (Suc (Suc (Suc (Suc (Suc (Suc 0)))))))))))"

lemmas sample_defs = sample_call_def sample_object_def sample_ipc_env_def sample_ipc_def plain_env_def new_parcel_def
  BpBinder_init_def new_thread_state_def

lemmas sample_run = ipc_steps ipcSetDataReference_def freeData_def freeDataNoInit_def releaseObjects_def initState_def
  scanForFds_def serve_call_def BBinder_transact_def PING_TRANSACTION_def EXTENSION_TRANSACTION_def DEBUG_PID_TRANSACTION_def
  sendReply_def writeTransactionData_def transaction_of_def talkWithDriver_def take_results_def processPostWriteDerefs_def
  out_size_def is_one_way_def TF_ONE_WAY_def TF_STATUS_CODE_def TF_ACCEPT_FDS_def TF_CLEAR_BUF_def take_identity_def
  take_reply_def finish_response_def freeBuffer_def flushIfNeeded_def closeFileDescriptors_def discard_reply_def end_command_def
  clearCallingIdentity_def clearCaller_def OK_def

abbreviation sample_command :: driver_return where
  "sample_command \<equiv> BR_TRANSACTION (sample_call 1 0 10007 71)"

lemma sample_returns: "\<exists>s. executeCommand sample_ipc_env steps12 sample_command sample_ipc = Returns OK s"
  by (simp add: steps12_def sample_defs sample_run)


subsection \<open>Properties\<close>

text \<open>
  C9. Whatever command of the driver a thread runs, and whatever the objects it serves and the calls they make do on
  the way, afterwards the thread knows the same caller (process, security context, user), strict-mode policy,
  flags and work source as before, and serves the same transaction.
\<close>

theorem caller_restored:
  assumes "executeCommand env n cmd s = Returns e s'"
  shows "ipc_thread s' = ipc_thread s \<and> mServingStackPointer s' = mServingStackPointer s"
  using identity.executeCommand_keeps [OF assms] by (simp add: same_caller_def)

theorem caller_restored_witness:
  "\<exists>s. executeCommand sample_ipc_env steps12 sample_command sample_ipc = Returns OK s \<and>
     mCallingUid (ipc_thread s) = 1000"
proof -
  obtain s where s: "executeCommand sample_ipc_env steps12 sample_command sample_ipc = Returns OK s"
    using sample_returns by blast
  then show ?thesis
    using caller_restored [OF s] by (simp add: sample_defs clearCaller_def)
qed

text \<open>
  C2. Every call that wants a reply gets exactly one: while a command runs, the thread issues as many replies as it
  received calls that are not one-way, those it received while it waited included; whether the object serves the
  call, refuses it or is gone makes no difference. Commands reach the driver in the order they were issued.
\<close>

theorem calls_answered:
  assumes "executeCommand env n cmd s = Returns e s'"
  shows "replies s' + calls s = replies s + calls s' \<and>
    (\<exists>cmds. ipc_sent s' @ mOut s' = (ipc_sent s @ mOut s) @ cmds) \<and> (\<exists>cmds. ipc_sent s' = ipc_sent s @ cmds)"
  using replies.executeCommand_keeps [OF assms] order.executeCommand_keeps [OF assms]
  by (simp add: answered_def in_order_def issued_def)

theorem calls_answered_witness:
  "\<exists>s. executeCommand sample_ipc_env steps12 sample_command sample_ipc = Returns OK s \<and> replies s = 1 \<and> calls s = 1"
proof -
  obtain s where s: "executeCommand sample_ipc_env steps12 sample_command sample_ipc = Returns OK s" and "calls s = 1"
    using sample_returns by (auto simp: steps12_def sample_defs sample_run calls_def)
  then show ?thesis
    using calls_answered [OF s] by (simp add: replies_def calls_def issued_def sample_ipc_def)
qed

text \<open>
  C13. Buffers of the driver are neither lost nor given back twice: after a command, each buffer was given back as
  many times as it was received since, but for those that reply parcels of the thread still hold.
\<close>

theorem buffers_given_back:
  assumes "executeCommand env n cmd s = Returns e s'"
  shows "freed b s' + count_list (ipc_held s') b + received b s = freed b s + count_list (ipc_held s) b + received b s'"
  using buffers.executeCommand_keeps [OF assms] by (simp add: balanced_def)

theorem buffers_given_back_witness:
  "\<exists>s. executeCommand sample_ipc_env steps12 sample_command sample_ipc = Returns OK s \<and>
     freed 71 s = 1 \<and> freed 72 s = 1 \<and> freed 73 s = 1"
proof -
  obtain s where s: "executeCommand sample_ipc_env steps12 sample_command sample_ipc = Returns OK s"
      and "ipc_held s = []" "received 71 s = 1" "received 72 s = 1" "received 73 s = 1"
    using sample_returns by (auto simp: steps12_def sample_defs sample_run received_def)
  moreover have "freed b sample_ipc = 0" "received b sample_ipc = 0" "ipc_held sample_ipc = []" for b
    by (simp_all add: freed_def received_def issued_def sample_ipc_def)
  ultimately show ?thesis
    using buffers_given_back [OF s, of 71] buffers_given_back [OF s, of 72] buffers_given_back [OF s, of 73] by simp
qed

text \<open>
  A proxy that has died never comes back to life: once a call through it has failed with \<open>DEAD_OBJECT\<close>, or it was not
  alive before, no command the thread runs changes that, and later calls through it fail at once, without a
  word to the driver.
\<close>

theorem dead_stays_dead:
  assumes "BpBinder_transact env n p code data reply flags s = Returns (DEAD_OBJECT, got) s1"
    and "executeCommand env m cmd s1 = Returns e s2"
  shows "BpBinder_transact env k p code' data' reply' flags' s2 = Returns (DEAD_OBJECT, reply') s2"
proof -
  have "\<not> mAlive (ipc_proxies s1 p)"
    using assms(1) by (auto simp: BpBinder_transact_def send_call_def and_run_Returns set_proxy_def Let_def
        BAD_TYPE_def DEAD_OBJECT_def UNKNOWN_ERROR_def split: if_splits)
  then have "\<not> mAlive (ipc_proxies s2 p)"
    using deaths.executeCommand_keeps [OF assms(2)] by (auto simp: no_revival_def)
  then show ?thesis
    by (simp add: BpBinder_transact_def Let_def)
qed

theorem dead_stays_dead_witness:
  "\<exists>s. executeCommand sample_ipc_env steps12 sample_command sample_ipc = Returns OK s \<and>
     BpBinder_transact sample_ipc_env 1 4 7 new_parcel None 0 s = Returns (DEAD_OBJECT, None) s"
proof -
  have "BpBinder_transact sample_ipc_env 1 4 7 new_parcel None 0 sample_ipc = Returns (DEAD_OBJECT, None) sample_ipc"
    by (simp add: BpBinder_transact_def sample_ipc_def)
  then show ?thesis
    using sample_returns dead_stays_dead by blast
qed



end
