(* ===== verification/Ipc_Data.thy ===== *)
theory Ipc_Data
  imports Ipc_Theorems
begin

text \<open>
  Data across a call (\<open>Parcel.cpp\<close>, \<open>IPCThreadState.cpp\<close>, \<open>Binder.cpp\<close>): what the caller writes the object reads, what the
  object replies the caller reads, and an error of the object is the caller's error. The driver copies the data
  and the flags of a transaction, nothing more is asked of it.
\<close>

subsection \<open>Sent and received parcels\<close>

text \<open>A parcel that was written from the start is sent with exactly its contents.\<close>

lemma sent_data:
  assumes "wrote new_parcel bs p"
  shows "writeTransactionData cmd flags handle code p sb s = (OK, put_command (cmd (transaction_of flags handle code p)) s)"
    "td_data (transaction_of flags handle code p) = bs" "td_offsets (transaction_of flags handle code p) = []"
proof -
  have p: "ready p" "contents p = bs" "p_objects p = []"
    using assms frame_fields(1) [of p new_parcel] by (auto simp: wrote_def new_parcel_def contents_def)
  then show "writeTransactionData cmd flags handle code p sb s = (OK, put_command (cmd (transaction_of flags handle code p)) s)"
    by (simp add: writeTransactionData_def ready_def)
  show "td_data (transaction_of flags handle code p) = bs" "td_offsets (transaction_of flags handle code p) = []"
    using p by (auto simp: transaction_of_def dataSize_def ready_def contents_def)
qed

text \<open>A parcel that refers to received data without objects is ready to be read from the start.\<close>

lemma received_data:
  assumes "length bs \<le> INT32_MAX"
  obtains q where "ipcSetDataReference env bs [] p = Some q" "p_pos q = 0" "\<And>h so. ahead (q\<lparr>p_pos := 0, p_hint := h, p_sorted := so\<rparr>) bs" "ahead q bs"
proof -
  define q where "q = scanForFds ((freeData env p)\<lparr>p_alloc := True, p_data := bs, p_size := length bs, p_objects := [], p_ocap := 0, p_owner := True\<rparr>)"
  have "ipcSetDataReference env bs [] p = Some q"
    by (simp add: ipcSetDataReference_def q_def)
  moreover have "p_pos q = 0" "ahead (q\<lparr>p_pos := 0, p_hint := h, p_sorted := so\<rparr>) bs" "ahead q bs" for h so
    using assms by (simp_all add: q_def scanForFds_def freeData_def initState_def ahead_def readable_def contents_def)
  ultimately show ?thesis
    using that by blast
qed

lemma fits_length: "fits new_parcel n \<Longrightarrow> n \<le> INT32_MAX"
  by (simp add: fits_def new_parcel_def INT32_MAX_def)

lemma written_data:
  assumes "valid_data t v" "plentiful penv" "fits new_parcel (length (enc_data t v))"
  obtains p where "writeData penv t v new_parcel = Some (OK, p)" "wrote new_parcel (enc_data t v) p"
  using data.writes [OF assms(1,2) new_parcel_ready(1) assms(3)] by blast

text \<open>A thread with unread commands does not talk to the driver.\<close>

lemma talk_with_input: "0 \<le> mDriverFD (mProcess s) \<Longrightarrow> mIn s \<noteq> [] \<Longrightarrow> talkWithDriver True s = Returns OK s"
  by (simp add: talkWithDriver_def Let_def)


subsection \<open>Properties\<close>

text \<open>
  C19. Arguments reach the object: data of any type the parcel knows, written by the caller, is what the object's
  \<open>onTransact\<close> reads from the parcel it is given, when the driver delivers the transaction with the data it was
  sent with.
\<close>

theorem call_carries_data:
  assumes "valid_data t v" "plentiful penv" "fits new_parcel (length (enc_data t v))"
    and "code \<notin> {PING_TRANSACTION, EXTENSION_TRANSACTION, DEBUG_PID_TRANSACTION}"
  shows "\<exists>p td. writeData penv t v new_parcel = Some (OK, p) \<and>
    writeTransactionData BC_TRANSACTION flags handle code p False s = (OK, put_command (BC_TRANSACTION td) s) \<and>
    (\<forall>tr. td_data tr = td_data td \<and> td_offsets tr = td_offsets td \<longrightarrow>
       (\<exists>buffer d d'. ipcSetDataReference (ie_parcel env) (td_data tr) (td_offsets tr) new_parcel = Some buffer \<and>
          BBinder_transact env obj code buffer (td_flags tr) = Some (rewind (ie_onTransact env obj code d (td_flags tr))) \<and>
          readData t d = Some (Inr v, d')))"
proof -
  obtain p where p: "writeData penv t v new_parcel = Some (OK, p)" and w: "wrote new_parcel (enc_data t v) p"
    by (rule written_data [OF assms(1-3)])
  obtain buffer where buffer: "ipcSetDataReference (ie_parcel env) (enc_data t v) [] new_parcel = Some buffer"
      and ahead: "ahead (buffer\<lparr>p_pos := 0, p_hint := 0, p_sorted := False\<rparr>) (enc_data t v)"
    using received_data [OF fits_length [OF assms(3)]] by metis
  have "BBinder_transact env obj code buffer f
      = Some (rewind (ie_onTransact env obj code (buffer\<lparr>p_pos := 0, p_hint := 0, p_sorted := False\<rparr>) f))" for f
    using assms(4) by (simp add: BBinder_transact_def)
  moreover obtain d' where "readData t (buffer\<lparr>p_pos := 0, p_hint := 0, p_sorted := False\<rparr>) = Some (Inr v, d')"
    using data.reads [OF assms(1) ahead] by blast
  ultimately show ?thesis
    using p sent_data [OF w] buffer by (intro exI [of _ p] exI [of _ "transaction_of flags handle code p"]) auto
qed

text \<open>
  C20. Results reach the caller: data written to the reply by the object is what the caller of \<open>transact\<close> reads from its
  reply parcel, which refers to the driver's buffer until it is destroyed.
\<close>

theorem reply_carries_data:
  assumes "valid_data t v" "plentiful penv" "fits new_parcel (length (enc_data t v))"
  shows "\<exists>p td. writeData penv t v new_parcel = Some (OK, p) \<and>
    writeTransactionData BC_REPLY flags (-1) 0 p True s0 = (OK, put_command (BC_REPLY td) s0) \<and>
    (\<forall>tr s rest. td_data tr = td_data td \<and> td_offsets tr = td_offsets td \<and> td_flags tr AND TF_STATUS_CODE = 0 \<and>
       0 \<le> mDriverFD (mProcess s) \<and> mIn s = BR_REPLY tr # rest \<longrightarrow>
       (\<exists>r r' s1. waitForResponse env (Suc n) (Some (reply, b)) None s = Returns (OK, Some (r, Some (td_buffer tr)), None) s1 \<and>
          td_buffer tr \<in> set (ipc_held s1) \<and> readData t r = Some (Inr v, r')))"
proof -
  obtain p where p: "writeData penv t v new_parcel = Some (OK, p)" and w: "wrote new_parcel (enc_data t v) p"
    by (rule written_data [OF assms])
  obtain r where r: "ipcSetDataReference (ie_parcel env) (enc_data t v) [] reply = Some r" and ahead: "ahead r (enc_data t v)"
    using received_data [OF fits_length [OF assms(3)]] by metis
  obtain r' where "readData t r = Some (Inr v, r')"
    using data.reads [OF assms(1) ahead] by blast
  moreover have "waitForResponse env (Suc n) (Some (reply, b)) None s = Returns (OK, Some (r, Some (td_buffer tr)), None)
      (s\<lparr>mIn := rest, ipc_events := ipc_events s @ [Received_reply (td_buffer tr)], ipc_held := ipc_held s @ [td_buffer tr]\<rparr>)"
    if "td_data tr = enc_data t v" "td_offsets tr = []" "td_flags tr AND TF_STATUS_CODE = 0"
      "0 \<le> mDriverFD (mProcess s)" "mIn s = BR_REPLY tr # rest" for tr s rest
    using that r by (simp add: talk_with_input take_reply_def emit_def finish_response_def)
  ultimately show ?thesis
    using p sent_data [OF w] by (intro exI [of _ p] exI [of _ "transaction_of flags (-1) 0 p"]) auto
qed

lemma status_flag: "(flags OR TF_STATUS_CODE) AND TF_STATUS_CODE = TF_STATUS_CODE"
  by (simp add: bit_eq_iff bit_simps) blast



text \<open>Sample data: a vector of integers.\<close>

lemma sample_data:
  "valid_data (TVector TInt64) (VVec [VInt 7, VInt (-1)])"
  "fits new_parcel (length (enc_data (TVector TInt64) (VVec [VInt 7, VInt (-1)])))"
proof -
  have "length (enc_data (TVector TInt64) (VVec [VInt 7, VInt (-1)])) = 20"
    by (simp add: enc_elems_def elem_bytes_def length_pad4 del: le_bytes.simps)
  then show "fits new_parcel (length (enc_data (TVector TInt64) (VVec [VInt 7, VInt (-1)])))"
    by (simp add: fits_def INT32_MAX_def new_parcel_ready)
qed (simp add: INT32_MAX_def in_int_def)

theorem call_carries_data_witness:
  "\<exists>p td buffer d d'. writeData plain_env (TVector TInt64) (VVec [VInt 7, VInt (-1)]) new_parcel = Some (OK, p) \<and>
     writeTransactionData BC_TRANSACTION 0 3 1 p False sample_ipc = (OK, put_command (BC_TRANSACTION td) sample_ipc) \<and>
     ipcSetDataReference plain_env (td_data td) (td_offsets td) new_parcel = Some buffer \<and>
     BBinder_transact sample_ipc_env 5 1 buffer (td_flags td) = Some (rewind (sample_object 5 1 d (td_flags td))) \<and>
     readData (TVector TInt64) d = Some (Inr (VVec [VInt 7, VInt (-1)]), d')"
proof -
  have code: "1 \<notin> {PING_TRANSACTION, EXTENSION_TRANSACTION, DEBUG_PID_TRANSACTION}"
    by (simp add: PING_TRANSACTION_def EXTENSION_TRANSACTION_def DEBUG_PID_TRANSACTION_def)
  have env: "ie_parcel sample_ipc_env = plain_env" "ie_onTransact sample_ipc_env = sample_object"
    by (simp_all add: sample_ipc_env_def)
  show ?thesis
    using call_carries_data [OF sample_data(1) plain_env_plentiful sample_data(2) code, of 0 3 sample_ipc sample_ipc_env 5]
    unfolding env by (elim exE conjE) (drule spec, drule mp, rule conjI, rule refl, rule refl, elim exE conjE, intro exI conjI, assumption+)
qed

theorem reply_carries_data_witness:
  "\<exists>tr r r' s1. waitForResponse sample_ipc_env 1 (Some (new_parcel, None)) None (sample_ipc\<lparr>mIn := [BR_REPLY tr]\<rparr>)
       = Returns (OK, Some (r, Some (td_buffer tr)), None) s1 \<and>
     readData (TVector TInt64) r = Some (Inr (VVec [VInt 7, VInt (-1)]), r')"
proof -
  obtain td :: transaction_data where td: "\<forall>tr s rest. td_data tr = td_data td \<and> td_offsets tr = td_offsets td \<and> td_flags tr AND TF_STATUS_CODE = 0 \<and>
       0 \<le> mDriverFD (mProcess s) \<and> mIn s = BR_REPLY tr # rest \<longrightarrow>
       (\<exists>r r' s1. waitForResponse sample_ipc_env (Suc 0) (Some (new_parcel, None)) None s
             = Returns (OK, Some (r, Some (td_buffer tr)), None) s1 \<and>
          td_buffer tr \<in> set (ipc_held s1) \<and> readData (TVector TInt64) r = Some (Inr (VVec [VInt 7, VInt (-1)]), r'))"
    using reply_carries_data [OF sample_data(1) plain_env_plentiful sample_data(2), of 0 sample_ipc sample_ipc_env 0 new_parcel None]
    by (elim exE conjE) (rule that)
  define tr where "tr = td\<lparr>td_flags := 0\<rparr>"
  have "td_data tr = td_data td \<and> td_offsets tr = td_offsets td \<and> td_flags tr AND TF_STATUS_CODE = 0 \<and>
      0 \<le> mDriverFD (mProcess (sample_ipc\<lparr>mIn := [BR_REPLY tr]\<rparr>)) \<and> mIn (sample_ipc\<lparr>mIn := [BR_REPLY tr]\<rparr>) = BR_REPLY tr # []"
    by (simp add: tr_def sample_ipc_def)
  then show ?thesis
    using td unfolding One_nat_def by blast
qed


end
