(* ===== verification/Bp_Death.thy ===== *)
theory Bp_Death
  imports Ipc_Theorems
begin

text \<open>
  Death notifications (\<open>BpBinder.cpp\<close>): what the driver is asked for agrees with the recipients that are linked, and
  obituaries are sent once.
\<close>

subsection \<open>What the driver was asked for\<close>

fun deathly :: "driver_command \<Rightarrow> bool" where
  "deathly (BC_REQUEST_DEATH_NOTIFICATION handle p) = True"
| "deathly (BC_CLEAR_DEATH_NOTIFICATION handle p) = True"
| "deathly _ = False"

text \<open>
  Following the commands about a proxy: whether the driver watches it, \<open>None\<close> after a request while it was
  watched already, a clear while it was not, or a command with the wrong handle.
\<close>

definition watch_command :: "nat \<Rightarrow> int \<Rightarrow> driver_command \<Rightarrow> bool option \<Rightarrow> bool option" where
  "watch_command p handle c w =
     (case c of
        BC_REQUEST_DEATH_NOTIFICATION h q \<Rightarrow> if q \<noteq> p then w else if w = Some False \<and> h = handle then Some True else None
      | BC_CLEAR_DEATH_NOTIFICATION h q \<Rightarrow> if q \<noteq> p then w else if w = Some True \<and> h = handle then Some False else None
      | _ \<Rightarrow> w)"

definition watched :: "nat \<Rightarrow> int \<Rightarrow> driver_command list \<Rightarrow> bool option" where
  "watched p handle cmds = fold (watch_command p handle) cmds (Some False)"

definition death_view :: "ipc_state \<Rightarrow> driver_command list \<times> (nat \<Rightarrow> obituary list option \<times> bool \<times> bool \<times> int)" where
  "death_view s =
     (filter deathly (issued s),
      \<lambda>p. let b = ipc_proxies s p in (mObituaries b, mObitsSent b, bp_rpc b, bp_handle b))"

text \<open>
  The driver watches a proxy exactly while recipients are linked to it, and no recipient is linked once the
  obituaries were sent.
\<close>

definition death_ok :: "nat \<Rightarrow> ipc_state \<Rightarrow> bool" where
  "death_ok p s \<longleftrightarrow>
     (let b = ipc_proxies s p
      in \<not> bp_rpc b \<and> watched p (bp_handle b) (issued s) = Some (mObituaries b \<noteq> None) \<and>
         (mObitsSent b \<longrightarrow> mObituaries b = None))"

definition death_kept :: "ipc_state \<Rightarrow> ipc_state \<Rightarrow> bool" where
  "death_kept s s' \<longleftrightarrow>
     (\<forall>p. death_ok p s \<longrightarrow> death_ok p s') \<and>
     (\<forall>p. mObitsSent (ipc_proxies s p) \<longrightarrow> mObitsSent (ipc_proxies s' p)) \<and>
     (\<forall>p. bp_rpc (ipc_proxies s' p) = bp_rpc (ipc_proxies s p) \<and> bp_handle (ipc_proxies s' p) = bp_handle (ipc_proxies s p))"

lemma watch_other: "\<not> deathly c \<Longrightarrow> watch_command p h c = id"
  by (cases c) (auto simp: watch_command_def)

lemma watched_deathly: "watched p h cmds = watched p h (filter deathly cmds)"
proof -
  have "fold (watch_command p h) cmds w = fold (watch_command p h) (filter deathly cmds) w" for w
    by (induction cmds arbitrary: w) (auto simp: watch_other)
  then show ?thesis
    by (simp add: watched_def)
qed

lemma watched_snoc: "watched p h (cmds @ [c]) = watch_command p h c (watched p h cmds)"
  by (simp add: watched_def)

lemma same_view:
  assumes "death_view s' = death_view s"
  shows "death_kept s s'"
proof -
  have cmds: "filter deathly (issued s') = filter deathly (issued s)"
    and fields: "mObituaries (ipc_proxies s' p) = mObituaries (ipc_proxies s p)"
      "mObitsSent (ipc_proxies s' p) = mObitsSent (ipc_proxies s p)" "bp_rpc (ipc_proxies s' p) = bp_rpc (ipc_proxies s p)"
      "bp_handle (ipc_proxies s' p) = bp_handle (ipc_proxies s p)" for p
    using assms by (auto simp: death_view_def fun_eq_iff Let_def)
  have "watched p h (issued s') = watched p h (issued s)" for p h
    using watched_deathly [of p h "issued s'"] watched_deathly [of p h "issued s"] cmds by simp
  then show ?thesis
    by (simp add: death_kept_def death_ok_def Let_def fields)
qed

lemma view_steps [simp]:
  "death_view (emit evs s) = death_view s"
  "\<not> deathly c \<Longrightarrow> death_view (put_command c s) = death_view s"
  "death_view (begin_transaction tr secctx s) = death_view s"
  "death_view (end_transaction t s) = death_view s"
  "death_view (s\<lparr>mIn := cmds\<rparr>) = death_view s"
  "death_view (s\<lparr>mLastError := e\<rparr>) = death_view s"
  "death_view (s\<lparr>ipc_thread := t1\<rparr>) = death_view s"
  "death_view (s\<lparr>mPostWriteStrongDerefs := ds\<rparr>) = death_view s"
  "death_view (s\<lparr>mPostWriteWeakDerefs := ds\<rparr>) = death_view s"
  "death_view (s\<lparr>mPendingStrongDerefs := ds\<rparr>) = death_view s"
  "death_view (s\<lparr>mPendingWeakDerefs := ds\<rparr>) = death_view s"
  "death_view (s\<lparr>ipc_held := bs\<rparr>) = death_view s"
  by (simp_all add: death_view_def ipc_steps)

lemma view_exchanged: "exchanged s s' \<Longrightarrow> death_view s' = death_view s"
  using exchanged_facts [of s s'] by (simp add: death_view_def)

lemma view_flush: "flushIfNeeded s = Returns b s' \<Longrightarrow> death_view s' = death_view s"
  by (rule view_exchanged) (rule flushIfNeeded_exchanged)

lemma view_free: "freeBuffer p b s = Returns u s' \<Longrightarrow> death_view s' = death_view s"
  by (auto simp: freeBuffer_def and_run_Returns dest!: view_flush)

lemma view_reference: "run_reference op s = Returns u s' \<Longrightarrow> death_view s' = death_view s"
  by (cases op)
    (auto simp: run_reference_def incStrongHandle_def decStrongHandle_def incWeakHandle_def decWeakHandle_def
      and_run_Returns dest!: view_flush)

lemma view_reply: "take_reply env tr r s = Returns got s' \<Longrightarrow> death_view s' = death_view s"
  by (auto simp: take_reply_def Let_def and_run_Returns dest!: view_free split: option.splits if_splits)

lemma view_discard: "discard_reply p b s = Returns u s' \<Longrightarrow> death_view s' = death_view s"
  by (auto simp: discard_reply_def dest!: view_free split: if_splits)

lemma kept_refl: "death_kept s s"
  by (simp add: death_kept_def)

lemma kept_trans: "death_kept s s1 \<Longrightarrow> death_kept s1 s2 \<Longrightarrow> death_kept s s2"
  by (auto simp: death_kept_def)



subsection \<open>Operations\<close>

lemma kept_at:
  assumes cmds: "issued s' = issued s @ cmds" "\<And>q h. q \<noteq> p \<Longrightarrow> fold (watch_command q h) cmds = id"
    and others: "\<And>q. q \<noteq> p \<Longrightarrow> ipc_proxies s' q = ipc_proxies s q"
    and here: "death_ok p s \<Longrightarrow> death_ok p s'" "mObitsSent (ipc_proxies s p) \<Longrightarrow> mObitsSent (ipc_proxies s' p)"
      "bp_rpc (ipc_proxies s' p) = bp_rpc (ipc_proxies s p)" "bp_handle (ipc_proxies s' p) = bp_handle (ipc_proxies s p)"
  shows "death_kept s s'"
proof -
  have "death_ok q s'" if "death_ok q s" for q
    using that here(1) others [of q] by (cases "q = p") (simp_all add: death_ok_def cmds watched_def)
  moreover have "mObitsSent (ipc_proxies s' q)" if "mObitsSent (ipc_proxies s q)" for q
    using that here(2) others [of q] by (cases "q = p") auto
  moreover have "bp_rpc (ipc_proxies s' q) = bp_rpc (ipc_proxies s q)" "bp_handle (ipc_proxies s' q) = bp_handle (ipc_proxies s q)" for q
    using here(3,4) others [of q] by (cases "q = p"; simp)+
  ultimately show ?thesis
    by (simp add: death_kept_def)
qed

text \<open>A request or a clear for the proxy, with the list of recipients made or dropped.\<close>

lemma told_driver:
  assumes issued: "issued s' = issued s @ [c]"
    and others: "\<And>q. q \<noteq> p \<Longrightarrow> ipc_proxies s' q = ipc_proxies s q"
    and fields: "bp_rpc (ipc_proxies s' p) = bp_rpc (ipc_proxies s p)" "bp_handle (ipc_proxies s' p) = bp_handle (ipc_proxies s p)"
    and sent: "mObitsSent (ipc_proxies s p) \<Longrightarrow> mObitsSent (ipc_proxies s' p)"
    and change: "c = BC_REQUEST_DEATH_NOTIFICATION (bp_handle (ipc_proxies s p)) p \<and> mObituaries (ipc_proxies s p) = None \<and>
          mObituaries (ipc_proxies s' p) \<noteq> None \<and> \<not> mObitsSent (ipc_proxies s' p) \<or>
        c = BC_CLEAR_DEATH_NOTIFICATION (bp_handle (ipc_proxies s p)) p \<and> mObituaries (ipc_proxies s p) \<noteq> None \<and>
          mObituaries (ipc_proxies s' p) = None"
  shows "death_kept s s'"
proof (rule kept_at [OF issued _ others _ sent fields])
  show "fold (watch_command q h) [c] = id" if "q \<noteq> p" for q h
    using change that by (auto simp: watch_command_def fun_eq_iff)
  show "death_ok p s'" if "death_ok p s"
    using that change fields by (auto simp: death_ok_def issued watched_snoc watch_command_def Let_def)
qed

lemma kept_fields:
  assumes "issued s' = issued s" "\<And>q. q \<noteq> p \<Longrightarrow> ipc_proxies s' q = ipc_proxies s q"
    and "bp_rpc (ipc_proxies s' p) = bp_rpc (ipc_proxies s p)" "bp_handle (ipc_proxies s' p) = bp_handle (ipc_proxies s p)"
    and "mObituaries (ipc_proxies s' p) = None \<longleftrightarrow> mObituaries (ipc_proxies s p) = None"
    and "mObitsSent (ipc_proxies s p) \<Longrightarrow> mObitsSent (ipc_proxies s' p)"
    and "mObitsSent (ipc_proxies s' p) \<Longrightarrow> mObitsSent (ipc_proxies s p) \<or> mObituaries (ipc_proxies s p) = None"
  shows "death_kept s s'"
  by (rule kept_at [where cmds = "[]" and p = p]) (use assms in \<open>auto simp: death_ok_def Let_def\<close>)

lemma flushed_facts:
  assumes "flushCommands (put_command c s) = Returns u s'"
  shows "issued s' = issued s @ [c]" "ipc_proxies s' = ipc_proxies s"
  using exchanged_facts(1,3) [OF flushCommands_exchanged [OF assms]] by (simp_all add: issued_def put_command_def)

lemma proxy_facts [simp]:
  "issued (set_proxy p f s) = issued s" "issued (emit evs s) = issued s" "ipc_proxies (emit evs s) = ipc_proxies s"
  "ipc_proxies (set_proxy p f s) q = (if q = p then f (ipc_proxies s p) else ipc_proxies s q)"
  by (simp_all add: ipc_steps)

lemma link_kept:
  assumes "linkToDeath p r cookie flags s = Returns e s'"
  shows "death_kept s s'"
proof (cases "mObituaries (ipc_proxies s p)")
  case None
  show ?thesis
  proof (cases "s' = s")
    case False
    then obtain s1 where s1: "flushCommands (put_command (BC_REQUEST_DEATH_NOTIFICATION (bp_handle (ipc_proxies s p)) p)
            (emit [Inc_weak p] s)) = Returns () s1" and sent: "\<not> mObitsSent (ipc_proxies s p)"
        and s': "s' = set_proxy p (\<lambda>b. b\<lparr>mObituaries := Some [\<lparr>ob_recipient = r, ob_cookie = cookie, ob_flags = flags\<rparr>]\<rparr>) s1"
      using assms None
      by (auto simp: linkToDeath_def requestDeathNotification_def Let_def and_run_Returns split: if_splits)
    show ?thesis
      by (rule told_driver [where p = p]) (use flushed_facts [OF s1] None sent in \<open>simp_all add: s'\<close>)
  qed (simp add: kept_refl)
next
  case (Some obits)
  then show ?thesis
    using assms by (intro kept_fields [where p = p]) (auto simp: linkToDeath_def Let_def split: if_splits)
qed

lemma unlink_kept:
  assumes "unlinkToDeath p r cookie flags s = Returns e s'"
  shows "death_kept s s'"
proof (cases "s' = s")
  case False
  let ?b = "ipc_proxies s p"
  obtain ob rest obits where found: "take_obituary (obituary_matches r cookie flags) obits = Some (ob, rest)"
      and obits: "mObituaries ?b = Some obits" and sent: "\<not> mObitsSent ?b" and
      run: "(if rest = [] then and_run (flushCommands (clearDeathNotification (bp_handle ?b) p s))
               (\<lambda>_ s1. Returns (OK, Some (ob_recipient ob)) (set_proxy p (\<lambda>b. b\<lparr>mObituaries := None\<rparr>) s1))
             else Returns (OK, Some (ob_recipient ob)) (set_proxy p (\<lambda>b. b\<lparr>mObituaries := Some rest\<rparr>) s)) = Returns e s'"
    using assms False by (auto simp: unlinkToDeath_def Let_def split: if_splits option.splits)
  show ?thesis
  proof (cases "rest = []")
    case True
    then obtain s1 where s1: "flushCommands (put_command (BC_CLEAR_DEATH_NOTIFICATION (bp_handle ?b) p) s) = Returns () s1"
        and s': "s' = set_proxy p (\<lambda>b. b\<lparr>mObituaries := None\<rparr>) s1"
      using run by (auto simp: clearDeathNotification_def and_run_Returns)
    show ?thesis
      by (rule told_driver [where p = p]) (use flushed_facts [OF s1] obits sent in \<open>simp_all add: s'\<close>)
  next
    case False
    then show ?thesis
      using run obits by (intro kept_fields [where p = p]) auto
  qed
qed (simp add: kept_refl)

lemma obituary_kept:
  assumes "sendObituary promotable p s = Returns u s'"
  shows "death_kept s s'"
proof (cases "mObituaries (ipc_proxies s p)")
  case None
  then show ?thesis
    using assms by (intro kept_fields [where p = p]) (auto simp: sendObituary_def Let_def split: if_splits)
next
  case (Some obits)
  let ?s = "set_proxy p (\<lambda>b. b\<lparr>mAlive := False\<rparr>) s"
  show ?thesis
  proof (cases "mObitsSent (ipc_proxies s p)")
    case True
    then show ?thesis
      using assms by (intro kept_fields [where p = p]) (auto simp: sendObituary_def Let_def split: if_splits)
  next
    case False
    then obtain s1 where s1: "flushCommands (put_command (BC_CLEAR_DEATH_NOTIFICATION (bp_handle (ipc_proxies s p)) p) ?s) = Returns () s1"
        and s': "s' = emit (concat (map (reportOneDeath promotable) obits))
                   (set_proxy p (\<lambda>b. b\<lparr>mObituaries := None, mObitsSent := True\<rparr>) s1)"
      using assms Some by (auto simp: sendObituary_def clearDeathNotification_def Let_def and_run_Returns split: if_splits)
    show ?thesis
      by (rule told_driver [where p = p]) (use flushed_facts [OF s1] Some in \<open>simp_all add: s'\<close>)
  qed
qed

lemma last_strong_kept:
  assumes "onLastStrongRef p s = Returns u s'"
  shows "death_kept s s'"
proof -
  let ?b = "ipc_proxies s p"
  obtain s1 where s1: "decStrongHandle (bp_handle ?b) s = Returns () s1"
      and s': "s' = (case mObituaries ?b of None \<Rightarrow> s1
               | Some _ \<Rightarrow> set_proxy p (\<lambda>b. b\<lparr>mObituaries := None\<rparr>) (clearDeathNotification (bp_handle ?b) p s1))"
    using assms by (auto simp: onLastStrongRef_def Let_def and_run_Returns)
  have view: "death_view s1 = death_view s"
    using view_reference [of "Handle_dec_strong (bp_handle ?b)" s "()" s1] s1 by (simp add: run_reference_def)
  have "mObituaries (ipc_proxies s1 p) = mObituaries ?b" "bp_handle (ipc_proxies s1 p) = bp_handle ?b"
    using view by (auto simp: death_view_def fun_eq_iff Let_def)
  note same = this
  have "death_kept s1 s'"
  proof (cases "mObituaries ?b")
    case (Some obits)
    have put: "issued (put_command c s1) = issued s1 @ [c]" "ipc_proxies (put_command c s1) = ipc_proxies s1" for c
      by (simp_all add: issued_def put_command_def)
    show ?thesis
      by (rule told_driver [where p = p]) (use Some same in \<open>simp_all add: s' clearDeathNotification_def put\<close>)
  qed (simp add: s' kept_refl)
  then show ?thesis
    using same_view [OF view] kept_trans by blast
qed

lemma small_kept:
  assumes run: "small_command env cmd s = Returns e s'"
  shows "death_kept s s'"
proof (cases "\<exists>p. cmd = BR_DEAD_BINDER p")
  case True
  then obtain p s1 where s1: "sendObituary (ie_recipient env (length (ipc_events s))) p s = Returns () s1"
      and s': "end_command OK (put_command (BC_DEAD_BINDER_DONE p) s1) = Returns e s'"
    using run by (auto simp: small_command_def and_run_Returns)
  have "death_view s' = death_view s1"
    using s' by (auto simp: end_command_def)
  then show ?thesis
    using obituary_kept [OF s1] same_view kept_trans by blast
next
  case False
  then have "death_view s' = death_view s"
    using run
    by (cases cmd) (auto simp: small_command_def end_command_def spawnPooledThread_def Let_def split: if_splits)
  then show ?thesis
    by (rule same_view)
qed

lemma transaction_kept:
  assumes "death_kept (emit before (begin_transaction tr secctx s)) s3"
    and "if is_one_way (td_flags tr) then s4 = emit after s3 else \<exists>td. death_kept (put_command (BC_REPLY td) (emit after s3)) s4"
    and "freeBuffer (Some buffer) (td_buffer tr) (end_transaction s s4) = Returns u s5"
  shows "death_kept s s5"
proof -
  have "death_kept s s3"
    by (rule kept_trans [OF same_view assms(1)]) simp
  moreover have "death_kept s3 s4"
  proof (cases "is_one_way (td_flags tr)")
    case False
    then obtain td where td: "death_kept (put_command (BC_REPLY td) (emit after s3)) s4"
      using assms(2) by auto
    show ?thesis
      by (rule kept_trans [OF same_view td]) simp
  qed (use assms(2) in \<open>simp add: same_view\<close>)
  moreover have "death_kept s4 s5"
    using view_free [OF assms(3)] by (intro same_view) simp
  ultimately show ?thesis
    using kept_trans by blast
qed

interpretation obituaries: run_relation death_kept death_kept
  by unfold_locales
    (assumption | fact kept_refl kept_trans small_kept | (erule transaction_kept, assumption+) [1] |
     (rule same_view, erule view_exchanged view_reference view_reply view_discard) [1] | (rule same_view, (simp; fail)) [1])+



subsection \<open>Properties\<close>

text \<open>What a thread does that matters for death notifications, in any order.\<close>

inductive death_step :: "ipc_env \<Rightarrow> ipc_state \<Rightarrow> ipc_state \<Rightarrow> bool" for env where
  Link: "linkToDeath p r cookie flags s = Returns e s' \<Longrightarrow> death_step env s s'"
| Unlink: "unlinkToDeath p r cookie flags s = Returns x s' \<Longrightarrow> death_step env s s'"
| Last_ref: "onLastStrongRef p s = Returns u s' \<Longrightarrow> death_step env s s'"
| Command: "executeCommand env n cmd s = Returns e s' \<Longrightarrow> death_step env s s'"
| Call: "transact env n h code data reply flags s = Returns y s' \<Longrightarrow> death_step env s s'"

lemma death_step_kept: "death_step env s s' \<Longrightarrow> death_kept s s'"
  by (induction rule: death_step.induct)
    (erule link_kept unlink_kept last_strong_kept obituaries.executeCommand_keeps obituaries.transact_keep)+

lemma death_steps_kept: "(death_step env)\<^sup>*\<^sup>* s s' \<Longrightarrow> death_kept s s'"
  by (induction rule: rtranclp_induct) (auto intro: kept_refl kept_trans death_step_kept)


definition died :: "ipc_event \<Rightarrow> bool" where
  "died e \<longleftrightarrow> (\<exists>r. e = Binder_died r)"

definition recipients :: "nat \<Rightarrow> ipc_state \<Rightarrow> nat list" where
  "recipients p s = map ob_recipient (case mObituaries (ipc_proxies s p) of None \<Rightarrow> [] | Some obits \<Rightarrow> obits)"

lemma report_all: "filter died (concat (map (reportOneDeath promotable) obits)) = map Binder_died (filter promotable (map ob_recipient obits))"
  by (induction obits) (auto simp: reportOneDeath_def died_def)

lemma exchange_quiet:
  assumes "exchanged s s'"
  shows "filter died (ipc_events s') = filter died (ipc_events s)"
  using exchanged_facts(15) [OF assms] by (auto simp: filter_empty_conv list_all_iff dropping_def died_def)

lemma obituary_events:
  assumes "sendObituary promotable p s = Returns () s'" "\<not> mObitsSent (ipc_proxies s p)"
  shows "filter died (ipc_events s') = filter died (ipc_events s) @ map Binder_died (filter promotable (recipients p s))"
    "mObitsSent (ipc_proxies s' p)"
proof -
  let ?s = "set_proxy p (\<lambda>b. b\<lparr>mAlive := False\<rparr>) s"
  have s: "ipc_events ?s = ipc_events s"
    by (simp add: set_proxy_def)
  have "(filter died (ipc_events s') = filter died (ipc_events s) @ map Binder_died (filter promotable (recipients p s)))
    \<and> mObitsSent (ipc_proxies s' p)"
  proof (cases "mObituaries (ipc_proxies s p)")
    case None
    then show ?thesis
      using assms by (auto simp: sendObituary_def Let_def recipients_def set_proxy_def split: if_splits)
  next
    case (Some obits)
    then obtain s1 where s1: "flushCommands (put_command (BC_CLEAR_DEATH_NOTIFICATION (bp_handle (ipc_proxies s p)) p) ?s) = Returns () s1"
        and s': "s' = emit (concat (map (reportOneDeath promotable) obits))
                   (set_proxy p (\<lambda>b. b\<lparr>mObituaries := None, mObitsSent := True\<rparr>) s1)"
      using assms by (auto simp: sendObituary_def clearDeathNotification_def Let_def and_run_Returns split: if_splits)
    have "filter died (ipc_events s1) = filter died (ipc_events s)"
      using exchange_quiet [OF flushCommands_exchanged [OF s1]] s by (simp add: put_command_def)
    then show ?thesis
      by (simp add: s' emit_def set_proxy_def report_all recipients_def Some)
  qed
  then show "filter died (ipc_events s') = filter died (ipc_events s) @ map Binder_died (filter promotable (recipients p s))"
    "mObitsSent (ipc_proxies s' p)"
    by blast+
qed

text \<open>
  C29. A death is reported once, in the order of the links, to every linked recipient that still lives; whatever
  happens later, linking and unlinking are refused with \<open>DEAD_OBJECT\<close> and a second notice of the death reports
  nothing.
\<close>

theorem obituaries_sent_once:
  assumes "sendObituary promotable p s = Returns () s1" "\<not> mObitsSent (ipc_proxies s p)" "(death_step env)\<^sup>*\<^sup>* s1 s2" "r \<noteq> 0"
  shows "filter died (ipc_events s1) = filter died (ipc_events s) @ map Binder_died (filter promotable (recipients p s)) \<and>
    linkToDeath p r cookie flags s2 = Returns DEAD_OBJECT s2 \<and>
    unlinkToDeath p r cookie flags s2 = Returns (DEAD_OBJECT, None) s2 \<and>
    (\<exists>s3. sendObituary promotable' p s2 = Returns () s3 \<and> ipc_events s3 = ipc_events s2)"
proof -
  have "\<not> bp_rpc (ipc_proxies s p)"
    using assms(1) by (auto simp: sendObituary_def Let_def)
  then have "\<not> bp_rpc (ipc_proxies s2 p)" "mObitsSent (ipc_proxies s2 p)"
    using obituary_kept [OF assms(1)] death_steps_kept [OF assms(3)] obituary_events(2) [OF assms(1,2)]
    by (simp_all add: death_kept_def)
  then show ?thesis
    using obituary_events(1) [OF assms(1,2)] assms(4)
    by (simp add: linkToDeath_def unlinkToDeath_def sendObituary_def Let_def set_proxy_def)
qed


text \<open>Recipient 9 is linked to the proxy at 4, whose death is then reported.\<close>

definition death_sample :: ipc_state where
  "death_sample = sample_ipc\<lparr>ipc_proxies := \<lambda>_. BpBinder_init 3, ipc_script := [Ioctl_done 16 [], Ioctl_done 16 []]\<rparr>"

lemma death_sample_runs:
  "\<exists>s s1. linkToDeath 4 9 0 0 death_sample = Returns OK s \<and> mObituaries (ipc_proxies s 4) \<noteq> None \<and> recipients 4 s = [9] \<and>
     \<not> mObitsSent (ipc_proxies s 4) \<and> filter died (ipc_events s) = [] \<and> sendObituary (\<lambda>r. True) 4 s = Returns () s1"
  by (simp add: death_sample_def sample_ipc_def linkToDeath_def sendObituary_def BpBinder_init_def requestDeathNotification_def
      clearDeathNotification_def put_command_def emit_def set_proxy_def flushCommands_def talkWithDriver_def take_results_def
      processPostWriteDerefs_def out_size_def recipients_def died_def Let_def)


theorem obituaries_sent_once_witness:
  "\<exists>s s1. sendObituary (\<lambda>r. True) 4 s = Returns () s1 \<and> filter died (ipc_events s1) = [Binder_died 9] \<and>
     linkToDeath 4 9 0 0 s1 = Returns DEAD_OBJECT s1"
proof -
  obtain s s1 where s: "recipients 4 s = [9]" "\<not> mObitsSent (ipc_proxies s 4)" "filter died (ipc_events s) = []"
      "sendObituary (\<lambda>r. True) 4 s = Returns () s1"
    using death_sample_runs by blast
  then show ?thesis
    using obituaries_sent_once [OF s(4,2) rtranclp.rtrancl_refl [of "death_step sample_ipc_env"], of 9 0 0 "\<lambda>r. True"] by auto
qed

end
