(* ===== verification/Process_State.thy ===== *)
theory Process_State
  imports Ipc_Pool "HOL-Library.Word"
begin

text \<open>
  The proxies of a process: the handle table of \<open>ProcessState\<close> (\<open>frameworks/native/libs/binder/ProcessState.cpp\<close>),
  creation and destruction of proxies and their count by user (\<open>BpBinder.cpp\<close>), and the settings of the thread
  pool. A proxy is named by its address.
\<close>

unbundle bit_operations_syntax

subsection \<open>State\<close>

text \<open>
  Where the reference counts of a proxy stand: strong references exist; only weak ones; or none, so that its
  destructor is going to run.
\<close>

datatype proxy_life = Held | Weak_only | Doomed

record proxy_info =
  pi_handle :: int
  mTrackedUid :: int
  pi_life :: proxy_life

record handle_entry =
  he_binder :: "nat option"
  he_refs :: "nat option"

text \<open>\<open>limit_calls\<close> are the calls of \<open>sLimitCallback\<close>, \<open>ps_proxies\<close> the proxies whose destructor has not run.\<close>

record proxy_space =
  mHandleToObject :: "handle_entry list"
  sTrackingMap :: "int \<Rightarrow> 32 word option"
  sCountByUidEnabled :: bool
  sLimitCallback :: bool
  sBinderProxyThrottleCreate :: bool
  sBinderProxyCountHighWatermark :: "32 word"
  sBinderProxyCountLowWatermark :: "32 word"
  limit_calls :: "int list"
  ps_proxies :: "nat \<Rightarrow> proxy_info option"

definition new_proxy_space :: proxy_space where
  "new_proxy_space = \<lparr>mHandleToObject = [], sTrackingMap = Map.empty, sCountByUidEnabled = False, sLimitCallback = False,
     sBinderProxyThrottleCreate = False, sBinderProxyCountHighWatermark = 2500, sBinderProxyCountLowWatermark = 2000,
     limit_calls = [], ps_proxies = Map.empty\<rparr>"

definition LIMIT_REACHED_MASK :: "32 word" where "LIMIT_REACHED_MASK = 0x80000000"
definition COUNTING_VALUE_MASK :: "32 word" where "COUNTING_VALUE_MASK = 0x7FFFFFFF"

definition set_life :: "nat \<Rightarrow> proxy_life \<Rightarrow> proxy_space \<Rightarrow> proxy_space" where
  "set_life p life ps = ps\<lparr>ps_proxies := (ps_proxies ps)(p := map_option (pi_life_update (\<lambda>_. life)) (ps_proxies ps p))\<rparr>"


subsection \<open>Proxies counted by user\<close>

text \<open>\<open>sTrackingMap[uid]\<close>, which is 0 when there was no entry.\<close>

definition tracked_value :: "int \<Rightarrow> proxy_space \<Rightarrow> 32 word" where
  "tracked_value uid ps = (case sTrackingMap ps uid of None \<Rightarrow> 0 | Some v \<Rightarrow> v)"

definition set_tracked :: "int \<Rightarrow> 32 word option \<Rightarrow> proxy_space \<Rightarrow> proxy_space" where
  "set_tracked uid v ps = ps\<lparr>sTrackingMap := (sTrackingMap ps)(uid := v)\<rparr>"

text \<open>The part of \<open>BpBinder::create\<close> that counts; whether the proxy may be made.\<close>

definition track_create :: "int \<Rightarrow> proxy_space \<Rightarrow> bool \<times> proxy_space" where
  "track_create uid ps =
     (let v = tracked_value uid ps
      in if v AND LIMIT_REACHED_MASK \<noteq> 0 then
           (if sBinderProxyThrottleCreate ps then (False, set_tracked uid (Some v) ps)
            else (True, set_tracked uid (Some (v + 1)) ps))
         else if v AND COUNTING_VALUE_MASK \<ge> sBinderProxyCountHighWatermark ps then
           (let reached = v OR LIMIT_REACHED_MASK;
                ps1 = (if sLimitCallback ps then ps\<lparr>limit_calls := limit_calls ps @ [uid]\<rparr> else ps)
            in if sBinderProxyThrottleCreate ps then (False, set_tracked uid (Some reached) ps1)
               else (True, set_tracked uid (Some (reached + 1)) ps1))
         else (True, set_tracked uid (Some (v + 1)) ps))"

text \<open>The part of the destructor that counts.\<close>

definition track_destroy :: "int \<Rightarrow> proxy_space \<Rightarrow> proxy_space" where
  "track_destroy uid ps =
     (if uid \<ge> 0 then
        (let v = tracked_value uid ps
         in if v AND COUNTING_VALUE_MASK = 0 then set_tracked uid (Some v) ps
            else
              (let v1 = (if v AND LIMIT_REACHED_MASK \<noteq> 0 \<and> v AND COUNTING_VALUE_MASK \<le> sBinderProxyCountLowWatermark ps
                         then v AND NOT LIMIT_REACHED_MASK else v);
                   v2 = v1 - 1
               in set_tracked uid (if v2 = 0 then None else Some v2) ps))
      else ps)"

definition getBinderProxyCount :: "int \<Rightarrow> proxy_space \<Rightarrow> 32 word" where
  "getBinderProxyCount uid ps = (case sTrackingMap ps uid of None \<Rightarrow> 0 | Some v \<Rightarrow> v AND COUNTING_VALUE_MASK)"

text \<open>The two vectors as a map; their order is that of an unordered map.\<close>

definition getCountByUid :: "proxy_space \<Rightarrow> int \<Rightarrow> 32 word option" where
  "getCountByUid ps uid = map_option (\<lambda>v. v AND COUNTING_VALUE_MASK) (sTrackingMap ps uid)"

definition setCountByUidEnabled :: "bool \<Rightarrow> proxy_space \<Rightarrow> proxy_space" where
  "setCountByUidEnabled enable ps = ps\<lparr>sCountByUidEnabled := enable\<rparr>"

definition setLimitCallback :: "bool \<Rightarrow> proxy_space \<Rightarrow> proxy_space" where
  "setLimitCallback cb ps = ps\<lparr>sLimitCallback := cb\<rparr>"

definition setBinderProxyCountWatermarks :: "32 word \<Rightarrow> 32 word \<Rightarrow> proxy_space \<Rightarrow> proxy_space" where
  "setBinderProxyCountWatermarks high low ps =
     ps\<lparr>sBinderProxyCountHighWatermark := high, sBinderProxyCountLowWatermark := low\<rparr>"


subsection \<open>The handle table\<close>

definition empty_entry :: handle_entry where
  "empty_entry = \<lparr>he_binder = None, he_refs = None\<rparr>"

text \<open>
  The table with an entry for the handle: \<open>None\<close> when \<open>Vector::insertAt\<close> aborts, since the new size overflows,
  \<open>Some None\<close> when there is no entry. \<open>room\<close> tells to which sizes the vector can grow.
\<close>

definition lookupHandleLocked :: "(nat \<Rightarrow> bool) \<Rightarrow> int \<Rightarrow> handle_entry list \<Rightarrow> handle_entry list option option" where
  "lookupHandleLocked room handle t =
     (let N = length t
      in if 0 \<le> handle \<and> nat handle < N then Some (Some t)
         else if handle = -1 \<and> N = 0 then Some None
         else if handle < 0 \<or> handle = 0x7fffffff then None
         else if room (nat handle + 1) then Some (Some (t @ replicate (nat handle + 1 - N) empty_entry))
         else Some None)"

text \<open>\<open>BpBinder::create\<close>; a proxy that is made is at the address \<open>fresh\<close>.\<close>

definition BpBinder_create :: "nat \<Rightarrow> int \<Rightarrow> proxy_space \<Rightarrow> ipc_state \<Rightarrow> (nat option \<times> proxy_space) run" where
  "BpBinder_create fresh handle ps s =
     (let trackedUid = (if sCountByUidEnabled ps then as_int32 (mCallingUid (ipc_thread s)) else -1);
          (allowed, ps1) = (if sCountByUidEnabled ps then track_create trackedUid ps else (True, ps))
      in if \<not> allowed then Returns (None, ps1) s
         else
           and_run (incWeakHandle handle fresh (set_proxy fresh (\<lambda>_. BpBinder_init handle) s))
             (\<lambda>_ s1. and_run (onFirstRef fresh s1)
                (\<lambda>_ s2. Returns
                   (Some fresh,
                    ps1\<lparr>ps_proxies := (ps_proxies ps1)
                      (fresh := Some \<lparr>pi_handle = handle, mTrackedUid = trackedUid, pi_life = Held\<rparr>)\<rparr>) s2)))"

text \<open>The first reference to the context manager: a ping without call restriction makes sure that it is there.\<close>

definition ping_context :: "ipc_env \<Rightarrow> nat \<Rightarrow> ipc_state \<Rightarrow> int run" where
  "ping_context env n s =
     and_run (transact env n 0 PING_TRANSACTION new_parcel None 0 (s\<lparr>mCallRestriction := Restriction_none\<rparr>))
       (\<lambda>(status, _) s1. Returns status (s1\<lparr>mCallRestriction := mCallRestriction s\<rparr>))"

text \<open>\<open>attemptIncWeak\<close> fails on a proxy without references.\<close>

definition attemptIncWeak_ok :: "nat \<Rightarrow> proxy_space \<Rightarrow> bool" where
  "attemptIncWeak_ok p ps \<longleftrightarrow> (case ps_proxies ps p of None \<Rightarrow> False | Some i \<Rightarrow> pi_life i \<noteq> Doomed)"

text \<open>\<open>force_set\<close>: a strong reference, the first one again when there were only weak ones.\<close>

definition force_set :: "nat \<Rightarrow> proxy_space \<Rightarrow> ipc_state \<Rightarrow> (nat option \<times> proxy_space) run" where
  "force_set p ps s =
     and_run (if map_option pi_life (ps_proxies ps p) = Some Weak_only then onFirstRef p s else Returns () s)
       (\<lambda>_ s1. Returns (Some p, set_life p Held ps) s1)"

definition make_proxy :: "ipc_env \<Rightarrow> nat \<Rightarrow> nat \<Rightarrow> int \<Rightarrow> proxy_space \<Rightarrow> ipc_state \<Rightarrow> (nat option \<times> proxy_space) run" where
  "make_proxy env n fresh handle ps s =
     and_run (if handle = 0 then ping_context env n s else Returns OK s)
       (\<lambda>status s1.
          if status = DEAD_OBJECT then Returns (None, ps) s1
          else
            and_run (BpBinder_create fresh handle ps s1)
              (\<lambda>(b, ps1) s2. Returns
                 (b, ps1\<lparr>mHandleToObject := (mHandleToObject ps1)[nat handle :=
                       \<lparr>he_binder = b, he_refs = (if b = None then he_refs (mHandleToObject ps1 ! nat handle) else b)\<rparr>]\<rparr>) s2))"

definition getStrongProxyForHandle ::
    "(nat \<Rightarrow> bool) \<Rightarrow> ipc_env \<Rightarrow> nat \<Rightarrow> nat \<Rightarrow> int \<Rightarrow> proxy_space \<Rightarrow> ipc_state \<Rightarrow> (nat option \<times> proxy_space) run" where
  "getStrongProxyForHandle room env n fresh handle ps s =
     (case lookupHandleLocked room handle (mHandleToObject ps) of
        None \<Rightarrow> Aborts
      | Some None \<Rightarrow> Returns (None, ps) s
      | Some (Some t) \<Rightarrow>
          (let ps1 = ps\<lparr>mHandleToObject := t\<rparr>
           in case he_binder (t ! nat handle) of
                Some b \<Rightarrow> if attemptIncWeak_ok b ps1 then force_set b ps1 s else make_proxy env n fresh handle ps1 s
              | None \<Rightarrow> make_proxy env n fresh handle ps1 s))"

definition expungeHandle :: "(nat \<Rightarrow> bool) \<Rightarrow> int \<Rightarrow> nat \<Rightarrow> proxy_space \<Rightarrow> proxy_space option" where
  "expungeHandle room handle b ps =
     map_option (\<lambda>found. case found of
         None \<Rightarrow> ps
       | Some t \<Rightarrow> ps\<lparr>mHandleToObject :=
           (if he_binder (t ! nat handle) = Some b then t[nat handle := (t ! nat handle)\<lparr>he_binder := None\<rparr>] else t)\<rparr>)
       (lookupHandleLocked room handle (mHandleToObject ps))"

text \<open>The destructor of a proxy of the driver.\<close>

definition BpBinder_destroy :: "(nat \<Rightarrow> bool) \<Rightarrow> nat \<Rightarrow> proxy_info \<Rightarrow> proxy_space \<Rightarrow> ipc_state \<Rightarrow> proxy_space run" where
  "BpBinder_destroy room p i ps s =
     (case expungeHandle room (pi_handle i) p (track_destroy (mTrackedUid i) ps) of
        None \<Rightarrow> Aborts
      | Some ps1 \<Rightarrow>
          and_run (decWeakHandle (pi_handle i) s)
            (\<lambda>_ s1. Returns (ps1\<lparr>ps_proxies := (ps_proxies ps1)(p := None)\<rparr>) s1))"

text \<open>The context manager's proxy is marked with the stability of this process.\<close>

definition getContextObject ::
    "(nat \<Rightarrow> bool) \<Rightarrow> ipc_env \<Rightarrow> nat \<Rightarrow> nat \<Rightarrow> proxy_space \<Rightarrow> ipc_state \<Rightarrow> (nat option \<times> proxy_space) run" where
  "getContextObject room env n fresh ps s =
     and_run (getStrongProxyForHandle room env n fresh 0 ps s)
       (\<lambda>(b, ps1) s1.
          case b of
            None \<Rightarrow> Returns (None, ps1) s1
          | Some p \<Rightarrow>
              (case markCompilationUnit (Some \<lparr>ib_kind = Proxy 0, ib_stability = bp_stability (ipc_proxies s1 p)\<rparr>) of
                 Some (Some marked) \<Rightarrow> Returns (Some p, ps1) (set_proxy p (\<lambda>b. b\<lparr>bp_stability := ib_stability marked\<rparr>) s1)
               | _ \<Rightarrow> Aborts))"


subsection \<open>The thread pool and the driver\<close>

definition startThreadPool :: "ipc_state \<Rightarrow> ipc_state" where
  "startThreadPool s =
     (if mThreadPoolStarted (mProcess s) then s
      else spawnPooledThread True (s\<lparr>mProcess := (mProcess s)\<lparr>mThreadPoolStarted := True\<rparr>\<rparr>))"

text \<open>\<open>answer\<close> is what the \<open>ioctl\<close> of the driver says: an error number, or success.\<close>

definition setThreadPoolMaxThreadCount :: "nat option \<Rightarrow> nat \<Rightarrow> ipc_state \<Rightarrow> int run" where
  "setThreadPoolMaxThreadCount answer maxThreads s =
     (if mThreadPoolStarted (mProcess s) \<and> maxThreads < mMaxThreads (mProcess s) then Aborts
      else
        (case answer of
           None \<Rightarrow> Returns OK (s\<lparr>mProcess := (mProcess s)\<lparr>mMaxThreads := maxThreads\<rparr>\<rparr>)
         | Some err \<Rightarrow> Returns (- int err) s))"

definition becomeContextManager :: "bool \<Rightarrow> int \<Rightarrow> int \<Rightarrow> bool" where
  "becomeContextManager hasSelinux ext legacy \<longleftrightarrow>
     (let result = (if hasSelinux then ext else -1) in (if result \<noteq> 0 then legacy else result) = 0)"

text \<open>
  The answers of the driver are a script of nodes, each a pointer and a cookie, \<open>None\<close> being an error; a null
  pointer ends it. \<open>buf\<close> is what has been written so far, if a buffer was given.
\<close>

definition put_reference :: "nat \<Rightarrow> nat \<Rightarrow> nat list option \<Rightarrow> nat list option" where
  "put_reference buf_count x buf = map_option (\<lambda>l. if length l < buf_count then l @ [x] else l) buf"

fun getKernelReferences :: "nat \<Rightarrow> (nat \<times> nat) option list \<Rightarrow> nat list option \<Rightarrow> nat \<Rightarrow> (int \<times> nat list option) option" where
  "getKernelReferences buf_count [] buf counted = None"
| "getKernelReferences buf_count (None # infos) buf counted = Some (-1, buf)"
| "getKernelReferences buf_count (Some (ptr, cookie) # infos) buf counted =
     (if ptr = 0 then Some (int counted, buf)
      else getKernelReferences buf_count infos
             (put_reference buf_count cookie (put_reference buf_count ptr buf)) (counted + 2))"

end
