(* ===== verification/Process_Table.thy ===== *)
theory Process_Table
  imports Process_State
begin

text \<open>
  The handle table (\<open>ProcessState.cpp\<close>) implements a directory of live proxies: at most one for each handle, found
  again as long as it has references. Proxies lose their references and are destroyed at any time in between,
  by whatever thread.
\<close>

subsection \<open>The directory\<close>

datatype proxy_event = Got int "nat option" | Let_go nat | Elsewhere

text \<open>What a table of proxies promises: the proxy it knows for a handle is the one it gives.\<close>

inductive directory_step :: "proxy_event \<Rightarrow> (int \<Rightarrow> nat option) \<Rightarrow> (int \<Rightarrow> nat option) \<Rightarrow> bool" where
  known: "m h = Some b \<Longrightarrow> directory_step (Got h (Some b)) m m"
| none: "m h = None \<Longrightarrow> directory_step (Got h None) m m"
| new: "m h = None \<Longrightarrow> b \<notin> ran m \<Longrightarrow> directory_step (Got h (Some b)) m (m(h := Some b))"
| let_go: "m' = (\<lambda>h. if m h = Some b then None else m h) \<Longrightarrow> directory_step (Let_go b) m m'"
| elsewhere: "directory_step Elsewhere m m"

inductive_cases directory_stepE: "directory_step e m m'"

text \<open>A labelled run of a step relation.\<close>

inductive runs :: "('e \<Rightarrow> 's \<Rightarrow> 's \<Rightarrow> bool) \<Rightarrow> 'e list \<Rightarrow> 's \<Rightarrow> 's \<Rightarrow> bool" for step where
  stop: "runs step [] s s"
| go: "step e s s1 \<Longrightarrow> runs step es s1 s2 \<Longrightarrow> runs step (e # es) s s2"

inductive_cases runsE: "runs step es s s'"

locale directory =
  fixes step :: "proxy_event \<Rightarrow> 's \<Rightarrow> 's \<Rightarrow> bool"
    and ok :: "'s \<Rightarrow> bool"
    and known :: "'s \<Rightarrow> int \<Rightarrow> nat option"
  assumes step_ok: "ok s \<Longrightarrow> step e s s' \<Longrightarrow> ok s'"
    and step_known: "ok s \<Longrightarrow> step e s s' \<Longrightarrow> directory_step e (known s) (known s')"
begin

lemma run_ok: "runs step es s s' \<Longrightarrow> ok s \<Longrightarrow> ok s'"
  by (induction rule: runs.induct) (auto intro: step_ok)

lemma run_refines: "runs step es s s' \<Longrightarrow> ok s \<Longrightarrow> runs directory_step es (known s) (known s')"
  by (induction rule: runs.induct) (auto intro: runs.intros step_ok step_known)

lemma got_known: "ok s \<Longrightarrow> step (Got h (Some b)) s s' \<Longrightarrow> known s' h = Some b"
  using step_known by (fastforce elim: directory_stepE)

lemma kept: "ok s \<Longrightarrow> step e s s' \<Longrightarrow> known s h = Some b \<Longrightarrow> e \<noteq> Let_go b \<Longrightarrow> known s' h = Some b"
  by (drule step_known) (auto elim!: directory_stepE split: if_splits)

lemma run_kept: "runs step es s s' \<Longrightarrow> ok s \<Longrightarrow> known s h = Some b \<Longrightarrow> Let_go b \<notin> set es \<Longrightarrow> known s' h = Some b"
  by (induction rule: runs.induct) (auto intro: step_ok dest: kept)

text \<open>One handle, one proxy: as long as a proxy is not let go, its handle gives it again.\<close>

lemma same_proxy:
  assumes "ok s" "step (Got h (Some b)) s s1" "runs step es s1 s2" "Let_go b \<notin> set es" "step (Got h r) s2 s3"
  shows "r = Some b"
proof -
  have "known s2 h = Some b" "ok s2"
    using assms got_known step_ok run_kept run_ok by blast+
  then show ?thesis
    using step_known [OF _ assms(5)] by (auto elim: directory_stepE)
qed

end


subsection \<open>The table's steps\<close>

text \<open>
  The operations on the table, by a thread in the state \<open>s\<close>, which other threads may have changed in between: a
  lookup, with the memory allocator giving an address that is not in use; the last strong and the last weak
  reference going away; the destructor; settings.
\<close>

type_synonym process = "proxy_space \<times> ipc_state"

inductive proxy_step :: "(nat \<Rightarrow> bool) \<Rightarrow> ipc_env \<Rightarrow> proxy_event \<Rightarrow> process \<Rightarrow> process \<Rightarrow> bool" for room env where
  Get: "getStrongProxyForHandle room env n fresh h ps s = Returns (r, ps') s' \<Longrightarrow> ps_proxies ps fresh = None \<Longrightarrow>
        card (dom (ps_proxies ps)) < 2 ^ 31 - 1 \<Longrightarrow> proxy_step room env (Got h r) (ps, s) (ps', s')"
| Last_strong: "ps_proxies ps p = Some i \<Longrightarrow> pi_life i = Held \<Longrightarrow> onLastStrongRef p s = Returns () s' \<Longrightarrow>
        proxy_step room env Elsewhere (ps, s) (set_life p Weak_only ps, s')"
| Last_weak: "ps_proxies ps p = Some i \<Longrightarrow> pi_life i = Weak_only \<Longrightarrow>
        proxy_step room env (Let_go p) (ps, s) (set_life p Doomed ps, s)"
| Destroy: "ps_proxies ps p = Some i \<Longrightarrow> pi_life i = Doomed \<Longrightarrow> BpBinder_destroy room p i ps s = Returns ps' s' \<Longrightarrow>
        proxy_step room env Elsewhere (ps, s) (ps', s')"
| Enable: "proxy_step room env Elsewhere (ps, s) (setCountByUidEnabled enable ps, s)"
| Watermarks: "proxy_step room env Elsewhere (ps, s) (setBinderProxyCountWatermarks high low ps, s)"
| Callback: "proxy_step room env Elsewhere (ps, s) (setLimitCallback cb ps, s)"
| Thread: "proxy_step room env Elsewhere (ps, s) (ps, s')"

inductive_cases proxy_stepE: "proxy_step room env e st st'"

definition entry_at :: "proxy_space \<Rightarrow> int \<Rightarrow> nat option" where
  "entry_at ps h = (if 0 \<le> h \<and> nat h < length (mHandleToObject ps) then he_binder (mHandleToObject ps ! nat h) else None)"

definition live :: "proxy_space \<Rightarrow> nat \<Rightarrow> bool" where
  "live ps b \<longleftrightarrow> attemptIncWeak_ok b ps"

text \<open>The directory a table stands for: entries whose proxy still has references.\<close>

definition live_proxies :: "proxy_space \<Rightarrow> int \<Rightarrow> nat option" where
  "live_proxies ps h = (case entry_at ps h of None \<Rightarrow> None | Some b \<Rightarrow> if live ps b then Some b else None)"

text \<open>
  Entries point to proxies of their handle that are not destroyed; a proxy with references is in its entry.
\<close>

definition handles_ok :: "proxy_space \<Rightarrow> bool" where
  "handles_ok ps \<longleftrightarrow>
     (\<forall>h b. entry_at ps h = Some b \<longrightarrow> (\<exists>i. ps_proxies ps b = Some i \<and> pi_handle i = h)) \<and>
     (\<forall>b i. ps_proxies ps b = Some i \<longrightarrow> pi_life i \<noteq> Doomed \<longrightarrow> entry_at ps (pi_handle i) = Some b)"


subsection \<open>What the operations do to the table\<close>

lemma track_fields [simp]:
  "mHandleToObject (snd (track_create uid ps)) = mHandleToObject ps"
  "ps_proxies (snd (track_create uid ps)) = ps_proxies ps"
  "mHandleToObject (track_destroy uid ps) = mHandleToObject ps"
  "ps_proxies (track_destroy uid ps) = ps_proxies ps"
  by (simp_all add: track_create_def track_destroy_def set_tracked_def Let_def)

lemma entry_at_cong:
  "mHandleToObject ps' = mHandleToObject ps \<Longrightarrow> entry_at ps' = entry_at ps"
  by (simp add: entry_at_def fun_eq_iff)

lemma entry_at_proxies [simp]: "entry_at (ps\<lparr>ps_proxies := m\<rparr>) = entry_at ps"
  by (rule entry_at_cong) simp

lemma live_cong: "ps_proxies ps' = ps_proxies ps \<Longrightarrow> live ps' = live ps"
  by (simp add: live_def attemptIncWeak_ok_def fun_eq_iff)

lemma entry_at_updated:
  "0 \<le> h \<Longrightarrow> nat h < length t \<Longrightarrow> entry_at (ps\<lparr>mHandleToObject := t\<rparr>) h = he_binder (t ! nat h)"
  by (simp add: entry_at_def)

lemma lookup_entries:
  assumes "lookupHandleLocked room h (mHandleToObject ps) = Some (Some t)"
  shows "0 \<le> h" "nat h < length t" "entry_at (ps\<lparr>mHandleToObject := t\<rparr>) = entry_at ps" "he_binder (t ! nat h) = entry_at ps h"
proof -
  have t: "0 \<le> h \<and> (nat h < length (mHandleToObject ps) \<and> t = mHandleToObject ps \<or>
           nat h \<ge> length (mHandleToObject ps) \<and>
           t = mHandleToObject ps @ replicate (nat h + 1 - length (mHandleToObject ps)) empty_entry)"
    using assms by (auto simp: lookupHandleLocked_def Let_def split: if_splits)
  then show "0 \<le> h" "nat h < length t"
    by auto
  have "entry_at (ps\<lparr>mHandleToObject := t\<rparr>) k = entry_at ps k" for k
    using t by (auto simp: entry_at_def nth_append empty_entry_def)
  then show "entry_at (ps\<lparr>mHandleToObject := t\<rparr>) = entry_at ps"
    by blast
  then show "he_binder (t ! nat h) = entry_at ps h"
    using \<open>0 \<le> h\<close> \<open>nat h < length t\<close> by (metis entry_at_updated)
qed

lemma entry_at_set:
  "0 \<le> h \<Longrightarrow> nat h < length (mHandleToObject ps) \<Longrightarrow>
   entry_at (ps\<lparr>mHandleToObject := (mHandleToObject ps)[nat h := e]\<rparr>) = (entry_at ps)(h := he_binder e)"
  by (auto simp: entry_at_def fun_eq_iff nth_list_update)

lemma create_cases:
  assumes "BpBinder_create fresh h ps s = Returns (b, ps') s'"
  obtains "b = None" "mHandleToObject ps' = mHandleToObject ps" "ps_proxies ps' = ps_proxies ps"
  | i where "b = Some fresh" "mHandleToObject ps' = mHandleToObject ps" "ps_proxies ps' = (ps_proxies ps)(fresh := Some i)"
      "pi_handle i = h" "pi_life i = Held"
proof -
  define uid where "uid = (if sCountByUidEnabled ps then as_int32 (mCallingUid (ipc_thread s)) else -1)"
  obtain ok ps1 where ps1: "(if sCountByUidEnabled ps then track_create uid ps else (True, ps)) = (ok, ps1)"
    by (meson surj_pair)
  then have "mHandleToObject ps1 = mHandleToObject ps" "ps_proxies ps1 = ps_proxies ps"
    using track_fields(1,2) [of uid ps] by (cases "sCountByUidEnabled ps"; simp)+
  then show ?thesis
    using assms that ps1 unfolding BpBinder_create_def uid_def [symmetric]
    by (auto simp: and_run_Returns split: if_splits)
qed

lemma make_cases:
  assumes "make_proxy env n fresh h ps s = Returns (r, ps') s'" and "0 \<le> h" "nat h < length (mHandleToObject ps)"
  obtains "r = None" "entry_at ps' = entry_at ps \<or> entry_at ps' = (entry_at ps)(h := None)" "ps_proxies ps' = ps_proxies ps"
  | i where "r = Some fresh" "entry_at ps' = (entry_at ps)(h := Some fresh)"
      "ps_proxies ps' = (ps_proxies ps)(fresh := Some i)" "pi_handle i = h" "pi_life i = Held"
proof (cases "r = None \<and> ps' = ps")
  case True
  then show ?thesis
    using that(1) by simp
next
  case False
  then obtain s1 ps1 where made: "BpBinder_create fresh h ps s1 = Returns (r, ps1) s'"
      and ps1: "ps' = ps1\<lparr>mHandleToObject := (mHandleToObject ps1)[nat h :=
                  \<lparr>he_binder = r, he_refs = (if r = None then he_refs (mHandleToObject ps1 ! nat h) else r)\<rparr>]\<rparr>"
    using assms(1) by (fastforce simp: make_proxy_def and_run_Returns split: if_splits)
  define e where "e = \<lparr>he_binder = r, he_refs = (if r = None then he_refs (mHandleToObject ps1 ! nat h) else r)\<rparr>"
  have e: "he_binder e = r" and ps': "ps' = ps1\<lparr>mHandleToObject := (mHandleToObject ps1)[nat h := e]\<rparr>"
    using ps1 by (simp_all add: e_def)
  from made show ?thesis
  proof (cases rule: create_cases)
    case 1
    then have "entry_at ps' = (entry_at ps)(h := None)"
      using entry_at_set [of h ps1 e] entry_at_cong [of ps1 ps] assms(2,3) e ps' by simp
    then show ?thesis
      using that(1) 1 ps' by simp
  next
    case (2 i)
    then have "entry_at ps' = (entry_at ps)(h := Some fresh)"
      using entry_at_set [of h ps1 e] entry_at_cong [of ps1 ps] assms(2,3) e ps' by simp
    then show ?thesis
      using that(2) [of i] 2 ps' by simp
  qed
qed

lemma get_cases:
  assumes "getStrongProxyForHandle room env n fresh h ps s = Returns (r, ps') s'"
  obtains (null) "r = None" "live_proxies ps h = None" "ps_proxies ps' = ps_proxies ps"
      "entry_at ps' = entry_at ps \<or> entry_at ps' = (entry_at ps)(h := None)"
  | (found) b where "r = Some b" "live_proxies ps h = Some b" "entry_at ps' = entry_at ps"
      "ps_proxies ps' = ps_proxies (set_life b Held ps)"
  | (made) i where "r = Some fresh" "live_proxies ps h = None" "entry_at ps' = (entry_at ps)(h := Some fresh)"
      "ps_proxies ps' = (ps_proxies ps)(fresh := Some i)" "pi_handle i = h" "pi_life i = Held"
proof (cases "lookupHandleLocked room h (mHandleToObject ps)")
  case None
  then show ?thesis
    using assms by (simp add: getStrongProxyForHandle_def)
next
  case (Some found)
  show ?thesis
  proof (cases found)
    case None
    then have "r = None" "ps' = ps"
      using assms Some by (simp_all add: getStrongProxyForHandle_def)
    moreover have "live_proxies ps h = None"
      using Some None by (auto simp: lookupHandleLocked_def live_proxies_def entry_at_def Let_def split: if_splits)
    ultimately show ?thesis
      using null by simp
  next
    case (Some t)
    note t = \<open>lookupHandleLocked room h (mHandleToObject ps) = Some found\<close> [unfolded Some]
    note entries = lookup_entries [OF t]
    define ps1 where "ps1 = ps\<lparr>mHandleToObject := t\<rparr>"
    have ps1: "ps_proxies ps1 = ps_proxies ps" "entry_at ps1 = entry_at ps" "attemptIncWeak_ok b ps1 = live ps b" for b
      using entries(3) by (simp_all add: ps1_def live_def attemptIncWeak_ok_def)
    show ?thesis
    proof (cases "live_proxies ps h")
      case (Some b)
      then have "he_binder (t ! nat h) = Some b" "live ps b"
        by (auto simp: entries(4) live_proxies_def split: option.splits if_splits)
      then have "force_set b ps1 s = Returns (r, ps') s'"
        using assms t ps1(3) by (simp add: getStrongProxyForHandle_def ps1_def)
      then have "r = Some b" "ps' = set_life b Held ps1"
        by (auto simp: force_set_def and_run_Returns)
      then show ?thesis
        using found [of b] Some ps1 by (simp add: set_life_def)
    next
      case None
      have "make_proxy env n fresh h ps1 s = Returns (r, ps') s'"
        using assms t None ps1(3) entries(4)
        by (auto simp: getStrongProxyForHandle_def ps1_def live_proxies_def split: option.splits if_splits)
      then show ?thesis
        by (rule make_cases) (use entries None ps1 null made in \<open>auto simp: ps1_def\<close>)
    qed
  qed
qed

lemma destroy_cases:
  assumes "BpBinder_destroy room p i ps s = Returns ps' s'"
  shows "ps_proxies ps' = (ps_proxies ps)(p := None)"
    "entry_at ps' = (if entry_at ps (pi_handle i) = Some p then (entry_at ps)(pi_handle i := None) else entry_at ps)"
proof -
  define ps0 where "ps0 = track_destroy (mTrackedUid i) ps"
  have ps0: "mHandleToObject ps0 = mHandleToObject ps" "ps_proxies ps0 = ps_proxies ps" "entry_at ps0 = entry_at ps"
    using entry_at_cong [of ps0 ps] by (simp_all add: ps0_def)
  obtain ps1 where ps1: "expungeHandle room (pi_handle i) p ps0 = Some ps1"
      and ps': "ps' = ps1\<lparr>ps_proxies := (ps_proxies ps1)(p := None)\<rparr>"
    using assms by (auto simp: BpBinder_destroy_def ps0_def and_run_Returns split: option.splits)
  obtain found where found: "lookupHandleLocked room (pi_handle i) (mHandleToObject ps0) = Some found"
    using ps1 by (auto simp: expungeHandle_def)
  have "ps_proxies ps1 = ps_proxies ps \<and>
    entry_at ps1 = (if entry_at ps (pi_handle i) = Some p then (entry_at ps)(pi_handle i := None) else entry_at ps)"
  proof (cases found)
    case None
    then have "entry_at ps (pi_handle i) = None"
      using found ps0(1) by (auto simp: lookupHandleLocked_def entry_at_def Let_def split: if_splits)
    then show ?thesis
      using None ps1 found ps0 by (simp add: expungeHandle_def)
  next
    case (Some t)
    note entries = lookup_entries [OF found [unfolded Some]]
    have "entry_at (ps0\<lparr>mHandleToObject := t[nat (pi_handle i) := e]\<rparr>) = (entry_at ps)(pi_handle i := he_binder e)" for e
      using entry_at_set [of "pi_handle i" "ps0\<lparr>mHandleToObject := t\<rparr>" e] entries ps0 by simp
    then show ?thesis
      using Some ps1 found ps0 entries(3,4) by (auto simp: expungeHandle_def)
  qed
  then show "ps_proxies ps' = (ps_proxies ps)(p := None)"
    "entry_at ps' = (if entry_at ps (pi_handle i) = Some p then (entry_at ps)(pi_handle i := None) else entry_at ps)"
    using ps' by simp_all
qed


subsection \<open>The table implements the directory\<close>

lemma handles_okD:
  assumes "handles_ok ps"
  shows "entry_at ps h = Some b \<Longrightarrow> \<exists>i. ps_proxies ps b = Some i \<and> pi_handle i = h"
    "ps_proxies ps b = Some i \<Longrightarrow> pi_life i \<noteq> Doomed \<Longrightarrow> entry_at ps (pi_handle i) = Some b"
  using assms by (auto simp: handles_ok_def)

lemma live_proxies_iff:
  assumes "handles_ok ps"
  shows "live_proxies ps h = Some b \<longleftrightarrow> (\<exists>i. ps_proxies ps b = Some i \<and> pi_handle i = h \<and> pi_life i \<noteq> Doomed)"
  using handles_okD [OF assms]
  by (fastforce simp: live_proxies_def live_def attemptIncWeak_ok_def split: option.splits if_splits)

lemma live_proxies_None:
  assumes "handles_ok ps" "live_proxies ps h = None" "ps_proxies ps b = Some i" "pi_life i \<noteq> Doomed"
  shows "pi_handle i \<noteq> h"
  using live_proxies_iff [OF assms(1), of h b] assms by auto

lemma handles_ok_life:
  assumes ok: "handles_ok ps" and same: "entry_at ps' = entry_at ps"
    and life: "ps_proxies ps' = ps_proxies (set_life b l ps)"
    and here: "l = Doomed \<or> live_proxies ps h = Some b"
  shows "handles_ok ps'"
proof -
  have "l = Doomed \<or> (\<forall>i. ps_proxies ps b = Some i \<longrightarrow> entry_at ps (pi_handle i) = Some b)"
    using here live_proxies_iff [OF ok, of h b] handles_okD(2) [OF ok] by auto
  then show ?thesis
    using handles_okD [OF ok] same life unfolding handles_ok_def set_life_def by (fastforce split: if_splits)
qed

lemma handles_ok_get:
  assumes ok: "handles_ok ps" and get: "getStrongProxyForHandle room env n fresh h ps s = Returns (r, ps') s'"
    and fresh: "ps_proxies ps fresh = None"
  shows "handles_ok ps'"
  using get
proof (cases rule: get_cases)
  case null
  then show ?thesis
    using handles_okD [OF ok] live_proxies_None [OF ok null(2)] unfolding handles_ok_def
    by (auto split: if_splits)
next
  case (found b)
  then show ?thesis
    using handles_ok_life [OF ok] by blast
next
  case (made i)
  have "entry_at ps k \<noteq> Some fresh" for k
    using handles_okD(1) [OF ok, of k fresh] fresh by auto
  then show ?thesis
    using made handles_okD [OF ok] live_proxies_None [OF ok made(2)] fresh unfolding handles_ok_def
    by (auto split: if_splits)
qed

lemma handles_ok_destroy:
  assumes ok: "handles_ok ps" and p: "ps_proxies ps p = Some i" "pi_life i = Doomed"
    and run: "BpBinder_destroy room p i ps s = Returns ps' s'"
  shows "handles_ok ps'"
proof -
  have "k \<noteq> pi_handle i \<Longrightarrow> entry_at ps k \<noteq> Some p" for k
    using handles_okD(1) [OF ok, of k p] p by auto
  then have "entry_at ps' k = Some b \<Longrightarrow> b \<noteq> p \<and> entry_at ps k = Some b" for k b
    unfolding destroy_cases [OF run] by (cases "k = pi_handle i") (auto split: if_splits)
  moreover have "entry_at ps' (pi_handle j) = Some b" if "ps_proxies ps' b = Some j" "pi_life j \<noteq> Doomed" for b j
  proof -
    have b: "b \<noteq> p" "entry_at ps (pi_handle j) = Some b"
      using that handles_okD(2) [OF ok] unfolding destroy_cases [OF run] by (auto split: if_splits)
    then show ?thesis
      unfolding destroy_cases [OF run] by auto
  qed
  ultimately show ?thesis
    using handles_okD(1) [OF ok] unfolding handles_ok_def destroy_cases(1) [OF run] by fastforce
qed

definition process_ok :: "process \<Rightarrow> bool" where
  "process_ok st \<longleftrightarrow> handles_ok (fst st)"

definition directory_of :: "process \<Rightarrow> int \<Rightarrow> nat option" where
  "directory_of st = live_proxies (fst st)"

lemma live_proxies_eqI:
  assumes "handles_ok ps" "\<And>h b. m h = Some b \<longleftrightarrow> (\<exists>i. ps_proxies ps b = Some i \<and> pi_handle i = h \<and> pi_life i \<noteq> Doomed)"
  shows "live_proxies ps = m"
  using live_proxies_iff [OF assms(1)] assms(2) by (metis ext not_None_eq)

lemma settings_fields [simp]:
  "entry_at (setCountByUidEnabled e ps) = entry_at ps" "ps_proxies (setCountByUidEnabled e ps) = ps_proxies ps"
  "entry_at (setBinderProxyCountWatermarks high low ps) = entry_at ps"
  "ps_proxies (setBinderProxyCountWatermarks high low ps) = ps_proxies ps"
  "entry_at (setLimitCallback cb ps) = entry_at ps" "ps_proxies (setLimitCallback cb ps) = ps_proxies ps"
  "entry_at (set_life p l ps) = entry_at ps"
  by (simp_all add: setCountByUidEnabled_def setBinderProxyCountWatermarks_def setLimitCallback_def set_life_def
      entry_at_def fun_eq_iff)

lemma process_ok_step: "process_ok st \<Longrightarrow> proxy_step room env e st st' \<Longrightarrow> process_ok st'"
proof (erule proxy_stepE, goal_cases)
  case (2 ps p i s s')
  then have "live_proxies ps (pi_handle i) = Some p"
    by (simp add: process_ok_def live_proxies_iff)
  then show ?case
    using 2 handles_ok_life [of ps "set_life p Weak_only ps" p Weak_only "pi_handle i"] by (simp add: process_ok_def)
next
  case (3 ps p i s)
  then show ?case
    using handles_ok_life [of ps "set_life p Doomed ps" p Doomed] by (simp add: process_ok_def)
qed (auto simp: process_ok_def handles_ok_def [of "setCountByUidEnabled _ _"] handles_ok_def [of "setBinderProxyCountWatermarks _ _ _"]
      handles_ok_def [of "setLimitCallback _ _"] dest: handles_okD intro: handles_ok_get handles_ok_destroy)



lemma directory_get:
  assumes ok: "handles_ok ps" and get: "getStrongProxyForHandle room env n fresh h ps s = Returns (r, ps') s'"
    and fresh: "ps_proxies ps fresh = None"
  shows "directory_step (Got h r) (live_proxies ps) (live_proxies ps')"
proof -
  note ok' = handles_ok_get [OF assms]
  note now = live_proxies_iff [OF ok]
  show ?thesis
    using get
  proof (cases rule: get_cases)
    case null
    then have "live_proxies ps' = live_proxies ps"
      by (intro live_proxies_eqI [OF ok']) (simp add: now)
    then show ?thesis
      using null by (auto intro: directory_step.intros)
  next
    case (found b)
    then have "live_proxies ps' = live_proxies ps"
      using now [of h b] by (intro live_proxies_eqI [OF ok']) (auto simp: now set_life_def)
    then show ?thesis
      using found by (auto intro: directory_step.intros)
  next
    case (made i)
    then have "live_proxies ps' = (live_proxies ps)(h := Some fresh)"
      using live_proxies_None [OF ok made(2)] fresh
      by (intro live_proxies_eqI [OF ok']) (auto simp: now)
    moreover have "fresh \<notin> ran (live_proxies ps)"
      using fresh by (auto simp: ran_def now)
    ultimately show ?thesis
      using made by (auto intro: directory_step.intros)
  qed
qed

lemma live_proxies_same:
  assumes "handles_ok ps" "handles_ok ps'"
    and "\<And>b h. (\<exists>j. ps_proxies ps' b = Some j \<and> pi_handle j = h \<and> pi_life j \<noteq> Doomed)
            \<longleftrightarrow> (\<exists>j. ps_proxies ps b = Some j \<and> pi_handle j = h \<and> pi_life j \<noteq> Doomed)"
  shows "live_proxies ps' = live_proxies ps"
  by (rule live_proxies_eqI [OF assms(2)]) (simp only: live_proxies_iff [OF assms(1)] assms(3))

lemma live_proxies_settings [simp]:
  "live_proxies (setCountByUidEnabled e ps) = live_proxies ps"
  "live_proxies (setBinderProxyCountWatermarks high low ps) = live_proxies ps"
  "live_proxies (setLimitCallback cb ps) = live_proxies ps"
  by (simp_all add: live_proxies_def live_def attemptIncWeak_ok_def fun_eq_iff split: option.split)

lemma directory_let_go:
  assumes ok: "handles_ok ps"
  shows "directory_step (Let_go p) (live_proxies ps) (live_proxies (set_life p Doomed ps))"
proof (rule directory_step.let_go)
  have "handles_ok (set_life p Doomed ps)"
    by (rule handles_ok_life [OF ok, where b = p and l = Doomed]) simp_all
  note after = this
  have one: "pi_life j = Doomed" if "ps_proxies ps p = Some i" "ps_proxies ps b = Some j" "pi_handle j = pi_handle i"
      "pi_life i \<noteq> Doomed" "b \<noteq> p" for b i j
    using handles_okD(2) [OF ok that(1,4)] handles_okD(2) [OF ok that(2)] that(3,5) by auto
  show "live_proxies (set_life p Doomed ps) = (\<lambda>h. if live_proxies ps h = Some p then None else live_proxies ps h)"
    by (rule live_proxies_eqI [OF after])
      (auto simp: live_proxies_iff [OF ok] set_life_def intro: one split: if_splits)
qed

lemma directory_process:
  assumes ok: "process_ok st" and step: "proxy_step room env e st st'"
  shows "directory_step e (directory_of st) (directory_of st')"
  using step
proof cases
  case (Get n fresh h ps s r ps' s')
  then show ?thesis
    using directory_get ok by (auto simp: directory_of_def process_ok_def)
next
  case (Last_weak ps p i s)
  then show ?thesis
    using directory_let_go ok by (auto simp: directory_of_def process_ok_def)
next
  case (Last_strong ps p i s s')
  have "live_proxies (fst st') = live_proxies (fst st)"
    by (rule live_proxies_same)
      (use ok process_ok_step [OF ok step] Last_strong in \<open>auto simp: process_ok_def set_life_def\<close>)
  then show ?thesis
    by (simp add: Last_strong directory_of_def directory_step.elsewhere)
next
  case (Destroy ps p i s ps' s')
  have "live_proxies (fst st') = live_proxies (fst st)"
    by (rule live_proxies_same)
      (use ok process_ok_step [OF ok step] Destroy in \<open>auto simp: process_ok_def destroy_cases(1)\<close>)
  then show ?thesis
    by (simp add: Destroy directory_of_def directory_step.elsewhere)
qed (auto simp: directory_of_def intro: directory_step.intros)

interpretation handles: directory "proxy_step room env" process_ok directory_of for room env
  by unfold_locales (fact process_ok_step directory_process)+

end
