(* ===== verification/Proxy_Count.thy ===== *)
theory Proxy_Count
  imports Process_Table Ipc_Theorems
begin

text \<open>
  The count of proxies by user (\<open>BpBinder.cpp\<close>) is exact, whatever the limit does, and the properties of the handle
  table.
\<close>

subsection \<open>The count and the flag in one word\<close>

lemma counting_value: "unat (v AND COUNTING_VALUE_MASK) = unat v mod 2 ^ 31"
proof -
  have "v AND COUNTING_VALUE_MASK = take_bit 31 v"
    by (simp add: COUNTING_VALUE_MASK_def take_bit_eq_mask mask_eq_exp_minus_1)
  then show ?thesis
    by (simp only: unsigned_take_bit_eq) (simp only: take_bit_eq_mod)
qed

lemma limit_mask: "LIMIT_REACHED_MASK = 2 ^ 31" "NOT LIMIT_REACHED_MASK = COUNTING_VALUE_MASK" "unat LIMIT_REACHED_MASK = 2 ^ 31"
  by (simp_all add: LIMIT_REACHED_MASK_def COUNTING_VALUE_MASK_def)

lemma unat_less_32: "unat (v :: 32 word) < 2 ^ 32"
  using unsigned_less [of v, where ?'a = nat] by simp

lemma limit_reached: "v AND LIMIT_REACHED_MASK \<noteq> 0 \<longleftrightarrow> 2 ^ 31 \<le> unat v"
proof -
  have "odd (unat v div 2 ^ 31) \<longleftrightarrow> 2 ^ 31 \<le> unat v"
    using unat_less_32 [of v] by (auto simp: div_if)
  moreover have "bit v 31 \<longleftrightarrow> odd (unat v div 2 ^ 31)"
    using bit_unsigned_iff [of v 31, where ?'a = nat] bit_iff_odd [of "unat v" 31] by simp
  ultimately show ?thesis
    unfolding limit_mask(1) and_exp_eq_0_iff_not_bit by simp
qed

lemma set_limit:
  assumes "unat v < 2 ^ 31"
  shows "unat (v OR LIMIT_REACHED_MASK) = unat v + 2 ^ 31"
proof -
  have "v AND LIMIT_REACHED_MASK = 0"
    using limit_reached [of v] assms by simp
  then have "v OR LIMIT_REACHED_MASK = v + LIMIT_REACHED_MASK"
    by (simp add: disjunctive_add_eq_or)
  then show ?thesis
    using assms by (simp add: unat_word_ariths limit_mask(3))
qed

lemma count_up:
  assumes "unat (v :: 32 word) mod 2 ^ 31 < 2 ^ 31 - 1"
  shows "unat (v + 1) mod 2 ^ 31 = Suc (unat v mod 2 ^ 31)"
proof -
  have "unat v \<noteq> 2 ^ 32 - 1"
    using assms by auto
  then have "unat (v + 1) = Suc (unat v)"
    using unat_less_32 [of v] by (simp add: unat_word_ariths)
  then show ?thesis
    using assms by (simp add: mod_Suc)
qed

lemma count_down:
  assumes "0 < unat (v :: 32 word) mod 2 ^ 31"
  shows "unat (v - 1) mod 2 ^ 31 = unat v mod 2 ^ 31 - 1"
proof -
  have v: "v \<noteq> 0"
    using assms by auto
  then have "Suc (unat (v - 1)) = unat v"
    using assms by (cases "unat v") (auto simp: unat_minus_one)
  then show ?thesis
    using assms by (metis diff_Suc_1 mod_Suc not_less_zero)
qed


subsection \<open>The count\<close>

definition tracked_proxies :: "int \<Rightarrow> proxy_space \<Rightarrow> nat set" where
  "tracked_proxies uid ps = {p. \<exists>i. ps_proxies ps p = Some i \<and> mTrackedUid i = uid}"

definition count_of :: "int \<Rightarrow> proxy_space \<Rightarrow> nat" where
  "count_of uid ps = unat (tracked_value uid ps) mod 2 ^ 31"

definition tally_ok :: "process \<Rightarrow> bool" where
  "tally_ok st \<longleftrightarrow>
     finite (dom (ps_proxies (fst st))) \<and> (\<forall>uid\<ge>0. count_of uid (fst st) = card (tracked_proxies uid (fst st)))"

lemma set_tracked_value: "tracked_value uid (set_tracked uid' v ps) = (if uid = uid' then case v of None \<Rightarrow> 0 | Some w \<Rightarrow> w else tracked_value uid ps)"
  by (simp add: tracked_value_def set_tracked_def)

lemma track_create_count:
  assumes "track_create uid ps = (allowed, ps')" "count_of uid ps < 2 ^ 31 - 1"
  shows "count_of k ps' = (if allowed \<and> k = uid then Suc (count_of k ps) else count_of k ps)"
proof (cases "k = uid")
  case False
  then show ?thesis
    using assms(1) by (auto simp: track_create_def Let_def count_of_def set_tracked_value tracked_value_def set_tracked_def split: if_splits)
next
  case True
  define v where "v = tracked_value uid ps"
  have up: "unat (v + 1) mod 2 ^ 31 = Suc (unat v mod 2 ^ 31)"
    using assms(2) by (intro count_up) (simp add: count_of_def v_def)
  have set: "unat (v OR LIMIT_REACHED_MASK) mod 2 ^ 31 = unat v mod 2 ^ 31" if "v AND LIMIT_REACHED_MASK = 0"
    using that limit_reached [of v] set_limit [of v] by simp
  then have "unat ((v OR LIMIT_REACHED_MASK) + 1) mod 2 ^ 31 = Suc (unat v mod 2 ^ 31)" if "v AND LIMIT_REACHED_MASK = 0"
    using that assms(2) count_up [of "v OR LIMIT_REACHED_MASK"] by (simp add: count_of_def v_def)
  then show ?thesis
    using assms(1) True up set unfolding track_create_def Let_def v_def [symmetric]
    by (auto simp: count_of_def set_tracked_value simp flip: v_def split: if_splits)
qed

lemma track_destroy_count:
  assumes "uid \<ge> 0 \<Longrightarrow> 0 < count_of uid ps"
  shows "count_of k (track_destroy uid ps) = (if k = uid \<and> uid \<ge> 0 then count_of k ps - 1 else count_of k ps)"
proof (cases "k = uid \<and> uid \<ge> 0")
  case False
  then show ?thesis
    by (auto simp: track_destroy_def Let_def count_of_def set_tracked_value)
next
  case True
  define v where "v = tracked_value uid ps"
  have pos: "0 < unat v mod 2 ^ 31"
    using assms True by (simp add: count_of_def v_def)
  define v1 where "v1 = (if v AND LIMIT_REACHED_MASK \<noteq> 0 \<and> v AND COUNTING_VALUE_MASK \<le> sBinderProxyCountLowWatermark ps
                         then v AND NOT LIMIT_REACHED_MASK else v)"
  have "unat v1 mod 2 ^ 31 = unat v mod 2 ^ 31"
    by (simp add: v1_def limit_mask(2) counting_value)
  then have "unat (v1 - 1) mod 2 ^ 31 = unat v mod 2 ^ 31 - 1"
    using count_down [of v1] pos by simp
  moreover have "v AND COUNTING_VALUE_MASK \<noteq> 0"
    using pos counting_value [of v] by auto
  ultimately show ?thesis
    using True unfolding track_destroy_def Let_def v_def [symmetric] v1_def [symmetric]
    by (auto simp: count_of_def set_tracked_value simp flip: v_def)
qed

text \<open>What a lookup does to the proxies and their counts: nothing, or one more proxy, counted.\<close>

definition counted_step :: "nat \<Rightarrow> proxy_space \<Rightarrow> proxy_space \<Rightarrow> bool" where
  "counted_step fresh ps ps' \<longleftrightarrow>
     dom (ps_proxies ps') = dom (ps_proxies ps) \<and> (\<forall>uid. tracked_proxies uid ps' = tracked_proxies uid ps) \<and>
       (\<forall>uid\<ge>0. count_of uid ps' = count_of uid ps) \<or>
     (\<exists>i. ps_proxies ps' = (ps_proxies ps)(fresh := Some i) \<and>
       (\<forall>uid\<ge>0. count_of uid ps' = (if uid = mTrackedUid i then Suc (count_of uid ps) else count_of uid ps)))"

lemma count_of_cong: "sTrackingMap ps1 = sTrackingMap ps \<Longrightarrow> count_of uid ps1 = count_of uid ps"
  by (simp add: count_of_def tracked_value_def)

lemma tracked_proxies_cong: "ps_proxies ps1 = ps_proxies ps \<Longrightarrow> tracked_proxies uid ps1 = tracked_proxies uid ps"
  by (simp add: tracked_proxies_def)

lemma set_life_counts [simp]:
  "dom (ps_proxies (set_life p l ps)) = dom (ps_proxies ps)"
  "tracked_proxies uid (set_life p l ps) = tracked_proxies uid ps"
  "count_of uid (set_life p l ps) = count_of uid ps"
  by (auto simp: set_life_def tracked_proxies_def count_of_def tracked_value_def split: if_splits)

lemma counted_cong:
  assumes "counted_step fresh ps ps1" "ps_proxies ps2 = ps_proxies ps1" "sTrackingMap ps2 = sTrackingMap ps1"
  shows "counted_step fresh ps ps2"
  using assms(1) unfolding counted_step_def count_of_cong [OF assms(3)] tracked_proxies_cong [OF assms(2)] assms(2) .

lemma counted_from:
  assumes "counted_step fresh ps1 ps2" "ps_proxies ps1 = ps_proxies ps" "sTrackingMap ps1 = sTrackingMap ps"
  shows "counted_step fresh ps ps2"
  using assms(1) unfolding counted_step_def count_of_cong [OF assms(3)] tracked_proxies_cong [OF assms(2)] assms(2) .

lemma counted_refl: "counted_step fresh ps ps"
  by (simp add: counted_step_def)

lemma life_counted: "counted_step fresh ps (set_life p l ps)"
  unfolding counted_step_def set_life_counts by simp

lemma create_counted:
  assumes run: "BpBinder_create fresh h ps s = Returns (b, ps') s'" and small: "\<And>uid. uid \<ge> 0 \<Longrightarrow> count_of uid ps < 2 ^ 31 - 1"
  shows "counted_step fresh ps ps'"
proof -
  define uid where "uid = (if sCountByUidEnabled ps then as_int32 (mCallingUid (ipc_thread s)) else -1)"
  obtain ok ps1 where ps1: "(if sCountByUidEnabled ps then track_create uid ps else (True, ps)) = (ok, ps1)"
    by (meson surj_pair)
  have same: "ps_proxies ps1 = ps_proxies ps"
    using ps1 track_fields(2) [of uid ps] by (cases "sCountByUidEnabled ps") simp_all
  have "count_of k ps1 = (if ok \<and> k = uid then Suc (count_of k ps) else count_of k ps)" if "k \<ge> 0" for k
  proof (cases "sCountByUidEnabled ps \<and> uid \<ge> 0")
    case True
    then show ?thesis
      using track_create_count [of uid ps ok ps1 k] small ps1 by simp
  next
    case False
    then have "k \<noteq> uid"
      using that by (auto simp: uid_def)
    then show ?thesis
      using ps1 by (auto simp: track_create_def Let_def count_of_def set_tracked_value tracked_value_def set_tracked_def split: if_splits)
  qed
  moreover have "\<not> ok \<and> ps' = ps1 \<or>
      ok \<and> ps' = ps1\<lparr>ps_proxies := (ps_proxies ps1)(fresh := Some \<lparr>pi_handle = h, mTrackedUid = uid, pi_life = Held\<rparr>)\<rparr>"
    using run ps1 unfolding BpBinder_create_def uid_def [symmetric] by (auto simp: and_run_Returns split: if_splits)
  ultimately show ?thesis
    using same by (fastforce simp: counted_step_def tracked_proxies_def count_of_def tracked_value_def)
qed

lemma make_counted:
  assumes run: "make_proxy env n fresh h ps s = Returns (r, ps') s'" and small: "\<And>uid. uid \<ge> 0 \<Longrightarrow> count_of uid ps < 2 ^ 31 - 1"
  shows "counted_step fresh ps ps'"
proof (cases "ps' = ps")
  case False
  then obtain s1 ps1 t where made: "BpBinder_create fresh h ps s1 = Returns (r, ps1) s'" and ps': "ps' = ps1\<lparr>mHandleToObject := t\<rparr>"
    using run by (fastforce simp: make_proxy_def and_run_Returns split: if_splits)
  show ?thesis
    by (rule counted_cong [OF create_counted [OF made small]]) (simp_all add: ps')
qed (simp add: counted_refl)

lemma get_counted:
  assumes run: "getStrongProxyForHandle room env n fresh h ps s = Returns (r, ps') s'"
    and small: "\<And>uid. uid \<ge> 0 \<Longrightarrow> count_of uid ps < 2 ^ 31 - 1"
  shows "counted_step fresh ps ps'"
proof -
  have force: "force_set b ps1 s = Returns (r, ps') s' \<Longrightarrow> counted_step fresh ps1 ps'" for b ps1
    by (auto simp: force_set_def and_run_Returns intro: life_counted)
  consider "ps' = ps" | t b where "force_set b (ps\<lparr>mHandleToObject := t\<rparr>) s = Returns (r, ps') s'"
    | t where "make_proxy env n fresh h (ps\<lparr>mHandleToObject := t\<rparr>) s = Returns (r, ps') s'"
    using run by (auto simp: getStrongProxyForHandle_def Let_def split: option.splits if_splits)
  then show ?thesis
  proof cases
    case (2 t b)
    then show ?thesis
      by (rule counted_from [OF force]) simp_all
  next
    case (3 t)
    then show ?thesis
      by (rule counted_from [OF make_counted]) (use small in \<open>simp_all add: count_of_def tracked_value_def\<close>)
  qed (simp add: counted_refl)
qed

lemma tracked_finite: "finite (dom (ps_proxies ps)) \<Longrightarrow> finite (tracked_proxies uid ps)"
  by (rule finite_subset [of _ "dom (ps_proxies ps)"]) (auto simp: tracked_proxies_def)

lemma tracked_le: "finite (dom (ps_proxies ps)) \<Longrightarrow> card (tracked_proxies uid ps) \<le> card (dom (ps_proxies ps))"
  by (rule card_mono) (auto simp: tracked_proxies_def)

lemma tally_ok_get:
  assumes ok: "tally_ok (ps, s)" and fresh: "ps_proxies ps fresh = None" and few: "card (dom (ps_proxies ps)) < 2 ^ 31 - 1"
    and run: "getStrongProxyForHandle room env n fresh h ps s = Returns (r, ps') s'"
  shows "tally_ok (ps', s')"
proof -
  have fin: "finite (dom (ps_proxies ps))" and now: "\<And>uid. uid \<ge> 0 \<Longrightarrow> count_of uid ps = card (tracked_proxies uid ps)"
    using ok by (auto simp: tally_ok_def)
  have "count_of uid ps < 2 ^ 31 - 1" if "uid \<ge> 0" for uid
    using now [OF that] tracked_le [OF fin, of uid] few by simp
  then have step: "counted_step fresh ps ps'"
    by (rule get_counted [OF run])
  have new: "tracked_proxies uid ps' = (if uid = mTrackedUid i then insert fresh (tracked_proxies uid ps) else tracked_proxies uid ps)"
    if "ps_proxies ps' = (ps_proxies ps)(fresh := Some i)" for i uid
    using that fresh by (auto simp: tracked_proxies_def split: if_splits)
  have "fresh \<notin> tracked_proxies uid ps" for uid
    using fresh by (simp add: tracked_proxies_def)
  with step now new fin tracked_finite [OF fin] show ?thesis
    by (auto simp: counted_step_def tally_ok_def)
qed

lemma tally_ok_destroy:
  assumes ok: "tally_ok (ps, s)" and p: "ps_proxies ps p = Some i" and run: "BpBinder_destroy room p i ps s = Returns ps' s'"
  shows "tally_ok (ps', s')"
proof -
  have fin: "finite (dom (ps_proxies ps))" and now: "\<And>uid. uid \<ge> 0 \<Longrightarrow> count_of uid ps = card (tracked_proxies uid ps)"
    using ok by (auto simp: tally_ok_def)
  have here: "p \<in> tracked_proxies (mTrackedUid i) ps"
    using p by (simp add: tracked_proxies_def)
  then have pos: "mTrackedUid i \<ge> 0 \<Longrightarrow> 0 < count_of (mTrackedUid i) ps"
    using now tracked_finite [OF fin] by (auto simp: card_gt_0_iff)
  have map: "sTrackingMap ps' = sTrackingMap (track_destroy (mTrackedUid i) ps)"
    using run by (auto simp: BpBinder_destroy_def expungeHandle_def and_run_Returns split: option.splits)
  have "tracked_proxies uid ps' = tracked_proxies uid ps - {p}" for uid
    unfolding tracked_proxies_def destroy_cases(1) [OF run] by auto
  moreover have "p \<notin> tracked_proxies uid ps" if "uid \<noteq> mTrackedUid i" for uid
    using that p by (simp add: tracked_proxies_def)
  ultimately have "card (tracked_proxies uid ps') = (if uid = mTrackedUid i then card (tracked_proxies uid ps) - 1 else card (tracked_proxies uid ps))" for uid
    using here tracked_finite [OF fin] by simp
  then show ?thesis
    using fin now track_destroy_count [of "mTrackedUid i" ps, OF pos] unfolding tally_ok_def fst_conv destroy_cases(1) [OF run]
    by (simp add: count_of_cong [OF map])
qed

lemma settings_counts [simp]:
  "tracked_proxies uid (setCountByUidEnabled e ps) = tracked_proxies uid ps"
  "count_of uid (setCountByUidEnabled e ps) = count_of uid ps"
  "tracked_proxies uid (setBinderProxyCountWatermarks high low ps) = tracked_proxies uid ps"
  "count_of uid (setBinderProxyCountWatermarks high low ps) = count_of uid ps"
  "tracked_proxies uid (setLimitCallback cb ps) = tracked_proxies uid ps"
  "count_of uid (setLimitCallback cb ps) = count_of uid ps"
  by (simp_all add: tracked_proxies_def count_of_def tracked_value_def setCountByUidEnabled_def
      setBinderProxyCountWatermarks_def setLimitCallback_def)

lemma tally_ok_step: "tally_ok st \<Longrightarrow> proxy_step room env e st st' \<Longrightarrow> tally_ok st'"
proof (erule proxy_stepE, goal_cases)
  case (1 n fresh h ps s r ps' s')
  then show ?case
    using tally_ok_get [of ps s fresh room env n h r ps' s'] by simp
next
  case (4 ps p i s ps' s')
  then show ?case
    using tally_ok_destroy [of ps s p i room ps' s'] by simp
qed (simp_all add: tally_ok_def)

lemma tally_ok_run: "runs (proxy_step room env) es st st' \<Longrightarrow> tally_ok st \<Longrightarrow> tally_ok st'"
  by (induction rule: runs.induct) (auto intro: tally_ok_step)

lemma new_space_ok: "process_ok (new_proxy_space, s)" "tally_ok (new_proxy_space, s)" "directory_of (new_proxy_space, s) = Map.empty"
  by (simp_all add: process_ok_def handles_ok_def new_proxy_space_def entry_at_def tally_ok_def count_of_def tracked_value_def
      tracked_proxies_def directory_of_def live_proxies_def fun_eq_iff)



subsection \<open>Properties\<close>

text \<open>
  C6. The handle table implements a directory with at most one live proxy for each handle: every run of lookups,
  reference drops, destructors and settings, interleaved in any way, is a run of the directory, in which a
  lookup gives the proxy that is known, or a new one that becomes known, or none, and only the last reference
  going away makes a proxy unknown.
\<close>

theorem handle_table_refines:
  assumes "runs (proxy_step room env) es (new_proxy_space, s) st"
  shows "runs directory_step es Map.empty (live_proxies (fst st))"
  using handles.run_refines [OF assms new_space_ok(1)] by (simp add: new_space_ok(3)) (simp add: directory_of_def)

text \<open>
  As long as a proxy has references, its handle gives that proxy and no other, whatever happens in between, and
  the proxy handed out belongs to the handle and is held.
\<close>

theorem same_proxy_while_referenced:
  assumes start: "runs (proxy_step room env) es (new_proxy_space, s) st"
    and first: "proxy_step room env (Got h (Some b)) st st1"
    and between: "runs (proxy_step room env) es' st1 st2" "Let_go b \<notin> set es'"
    and again: "proxy_step room env (Got h r) st2 st3"
  shows "r = Some b \<and> (\<exists>i. ps_proxies (fst st3) b = Some i \<and> pi_handle i = h \<and> pi_life i = Held)"
proof -
  have ok: "process_ok st"
    using handles.run_ok [OF start new_space_ok(1)] .
  have r: "r = Some b"
    by (rule handles.same_proxy [OF ok first between again])
  have ok2: "process_ok st2"
    by (rule handles.run_ok [OF between(1) process_ok_step [OF ok first]])
  from again show ?thesis
  proof cases
    case (Get n fresh ps s0 ps' s')
    from Get(3) show ?thesis
    proof (cases rule: get_cases)
      case (found b')
      then have "\<exists>i. ps_proxies ps b = Some i \<and> pi_handle i = h"
        using live_proxies_iff [of ps h b] ok2 Get r by (auto simp: process_ok_def)
      then show ?thesis
        using found Get r by (auto simp: set_life_def)
    qed (use r Get in auto)
  qed
qed

text \<open>
  The number of proxies reported for a user is the number of proxies made for that user while counting was on and
  not destroyed yet, whatever watermarks, limits and callbacks were set and however counting was switched.
\<close>

theorem proxies_counted:
  assumes "runs (proxy_step room env) es (new_proxy_space, s) st" "uid \<ge> 0"
  shows "unat (getBinderProxyCount uid (fst st)) = card (tracked_proxies uid (fst st))"
  using tally_ok_run [OF assms(1) new_space_ok(2)] assms(2) counting_value
  by (auto simp: tally_ok_def count_of_def tracked_value_def getBinderProxyCount_def split: option.splits)



subsection \<open>A run\<close>

text \<open>Counting is switched on, handle 1 is looked up, its last strong reference goes away, and it is looked up again.\<close>

definition sample_space :: proxy_space where
  "sample_space = setCountByUidEnabled True new_proxy_space"

abbreviation sample_step :: "proxy_event \<Rightarrow> process \<Rightarrow> process \<Rightarrow> bool" where
  "sample_step \<equiv> proxy_step (\<lambda>n. n < 4096) sample_ipc_env"

lemmas sample_table = getStrongProxyForHandle_def lookupHandleLocked_def make_proxy_def BpBinder_create_def force_set_def
  attemptIncWeak_ok_def track_create_def tracked_value_def set_tracked_def sample_space_def setCountByUidEnabled_def
  new_proxy_space_def LIMIT_REACHED_MASK_def COUNTING_VALUE_MASK_def empty_entry_def incWeakHandle_def onFirstRef_def
  incStrongHandle_def flushIfNeeded_def set_proxy_def put_command_def emit_def set_life_def

lemma sample_first:
  "\<exists>ps s. getStrongProxyForHandle (\<lambda>n. n < 4096) sample_ipc_env 0 7 1 sample_space sample_ipc = Returns (Some 7, ps) s \<and>
     mIsLooper s \<and> ps_proxies ps = [7 \<mapsto> \<lparr>pi_handle = 1, mTrackedUid = 1000, pi_life = Held\<rparr>] \<and>
     map he_binder (mHandleToObject ps) = [None, Some 7]"
  by (simp add: sample_table sample_defs DEAD_OBJECT_def UNKNOWN_ERROR_def OK_def numeral_2_eq_2 clearCaller_def as_int32_id in_int_def Let_def)

lemma looper_references:
  assumes "mIsLooper s"
  shows "\<exists>s'. onFirstRef p s = Returns () s'" "\<exists>s'. onLastStrongRef p s = Returns () s' \<and> mIsLooper s'"
  using assms
  by (auto simp: onFirstRef_def onLastStrongRef_def incStrongHandle_def decStrongHandle_def flushIfNeeded_def put_command_def
      clearDeathNotification_def set_proxy_def Let_def split: option.splits)

lemma sample_runs:
  "\<exists>st1 st2 st3. sample_step Elsewhere (new_proxy_space, sample_ipc) (sample_space, sample_ipc) \<and>
     sample_step (Got 1 (Some 7)) (sample_space, sample_ipc) st1 \<and> sample_step Elsewhere st1 st2 \<and>
     sample_step (Got 1 (Some 7)) st2 st3 \<and> tracked_proxies 1000 (fst st3) = {7}"
proof -
  let ?room = "\<lambda>n. n < (4096 :: nat)"
  have enable: "sample_step Elsewhere (new_proxy_space, sample_ipc) (sample_space, sample_ipc)"
    unfolding sample_space_def by (rule proxy_step.Enable)
  obtain ps s where get: "getStrongProxyForHandle ?room sample_ipc_env 0 7 1 sample_space sample_ipc = Returns (Some 7, ps) s"
      and s: "mIsLooper s" and ps: "ps_proxies ps = [7 \<mapsto> \<lparr>pi_handle = 1, mTrackedUid = 1000, pi_life = Held\<rparr>]"
      and table: "map he_binder (mHandleToObject ps) = [None, Some 7]"
    using sample_first by (elim exE conjE)
  have first: "sample_step (Got 1 (Some 7)) (sample_space, sample_ipc) (ps, s)"
    by (rule proxy_step.Get [OF get]) (simp_all add: sample_space_def setCountByUidEnabled_def new_proxy_space_def)
  obtain s1 where s1: "onLastStrongRef 7 s = Returns () s1" "mIsLooper s1"
    using looper_references(2) [OF s] by blast
  define ps1 where "ps1 = set_life 7 Weak_only ps"
  have drop: "sample_step Elsewhere (ps, s) (ps1, s1)"
    unfolding ps1_def by (rule proxy_step.Last_strong [OF _ _ s1(1)], subst ps, rule fun_upd_same, simp)
  obtain s2 where s2: "onFirstRef 7 s1 = Returns () s2"
    using looper_references(1) [OF s1(2)] by blast
  have ps1: "ps_proxies ps1 = [7 \<mapsto> \<lparr>pi_handle = 1, mTrackedUid = 1000, pi_life = Weak_only\<rparr>]"
    and entry: "length (mHandleToObject ps1) = 2" "he_binder (mHandleToObject ps1 ! 1) = Some 7"
    using ps table by (auto simp: ps1_def set_life_def map_eq_Cons_conv)
  have get2: "getStrongProxyForHandle ?room sample_ipc_env 0 8 1 ps1 s1 = Returns (Some 7, set_life 7 Held ps1) s2"
    using entry s2 by (simp add: getStrongProxyForHandle_def lookupHandleLocked_def force_set_def attemptIncWeak_ok_def ps1)
  have second: "sample_step (Got 1 (Some 7)) (ps1, s1) (set_life 7 Held ps1, s2)"
    by (rule proxy_step.Get [OF get2]) (simp_all add: ps1)
  have "tracked_proxies 1000 (set_life 7 Held ps1) = {7}"
    unfolding set_life_counts by (auto simp: tracked_proxies_def ps1 split: if_splits)
  with enable first drop second show ?thesis
    by (intro exI [of _ "(ps, s)"] exI [of _ "(ps1, s1)"] exI [of _ "(set_life 7 Held ps1, s2)"]) simp
qed

theorem handle_table_refines_witness:
  "\<exists>st. runs sample_step [Elsewhere, Got 1 (Some 7)] (new_proxy_space, sample_ipc) st \<and>
     runs directory_step [Elsewhere, Got 1 (Some 7)] Map.empty (live_proxies (fst st))"
  using sample_runs handle_table_refines by (fast intro: runs.intros)

theorem same_proxy_while_referenced_witness:
  "\<exists>st st1 st2 st3. runs sample_step [Elsewhere] (new_proxy_space, sample_ipc) st \<and> sample_step (Got 1 (Some 7)) st st1 \<and>
     runs sample_step [Elsewhere] st1 st2 \<and> sample_step (Got 1 (Some 7)) st2 st3 \<and>
     (\<exists>i. ps_proxies (fst st3) 7 = Some i \<and> pi_handle i = 1 \<and> pi_life i = Held)"
proof -
  obtain st1 st2 st3 where steps: "sample_step Elsewhere (new_proxy_space, sample_ipc) (sample_space, sample_ipc)"
      "sample_step (Got 1 (Some 7)) (sample_space, sample_ipc) st1" "sample_step Elsewhere st1 st2" "sample_step (Got 1 (Some 7)) st2 st3"
    using sample_runs by blast
  have runs: "runs sample_step [Elsewhere] (new_proxy_space, sample_ipc) (sample_space, sample_ipc)" "runs sample_step [Elsewhere] st1 st2"
    using steps by (auto intro: runs.intros)
  have "\<exists>i. ps_proxies (fst st3) 7 = Some i \<and> pi_handle i = 1 \<and> pi_life i = Held"
    using same_proxy_while_referenced [OF runs(1) steps(2) runs(2) _ steps(4)] by simp
  then show ?thesis
    using runs steps by blast
qed

theorem proxies_counted_witness:
  "\<exists>st. runs sample_step [Elsewhere, Got 1 (Some 7), Elsewhere, Got 1 (Some 7)] (new_proxy_space, sample_ipc) st \<and>
     unat (getBinderProxyCount 1000 (fst st)) = 1"
proof -
  obtain st1 st2 st3 where steps: "sample_step Elsewhere (new_proxy_space, sample_ipc) (sample_space, sample_ipc)"
      "sample_step (Got 1 (Some 7)) (sample_space, sample_ipc) st1" "sample_step Elsewhere st1 st2" "sample_step (Got 1 (Some 7)) st2 st3"
      and one: "tracked_proxies 1000 (fst st3) = {7}"
    using sample_runs by blast
  have run: "runs sample_step [Elsewhere, Got 1 (Some 7), Elsewhere, Got 1 (Some 7)] (new_proxy_space, sample_ipc) st3"
    by (rule runs.intros steps)+
  have "unat (getBinderProxyCount 1000 (fst st3)) = 1"
    using proxies_counted [OF run, of 1000] one by simp
  then show ?thesis
    using run by blast
qed

end
