(* ===== verification/Ref_Base.thy ===== *)
theory Ref_Base
  imports Binder_Prelude "HOL-Library.Multiset"
begin

text \<open>
  Reference counting (\<open>system/core/libutils/RefBase.cpp\<close>), one object used by any number of threads. Operations are
  broken up into their atomic accesses to \<open>mStrong\<close> and \<open>mWeak\<close>, which threads interleave in any way. A user is
  a reference that somebody holds, or one with an operation under way on it.
\<close>

unbundle bit_operations_syntax

definition INITIAL_STRONG_VALUE :: int where "INITIAL_STRONG_VALUE = 2 ^ 28"
definition MAX_COUNT :: int where "MAX_COUNT = 0xfffff"

definition BAD_STRONG :: "int \<Rightarrow> bool" where
  "BAD_STRONG c \<longleftrightarrow> c = 0 \<or> c AND NOT (MAX_COUNT OR INITIAL_STRONG_VALUE) \<noteq> 0"

definition BAD_WEAK :: "int \<Rightarrow> bool" where
  "BAD_WEAK c \<longleftrightarrow> c = 0 \<or> c AND NOT MAX_COUNT \<noteq> 0"

text \<open>\<open>OBJECT_LIFETIME_STRONG\<close> and \<open>OBJECT_LIFETIME_WEAK\<close>, set when the object is constructed.\<close>

datatype lifetime = LIFETIME_STRONG | LIFETIME_WEAK

text \<open>The counts, whether the object and its \<open>weakref_impl\<close> still exist, and how often they were deleted.\<close>

record weakref_impl =
  mStrong :: int
  mWeak :: int
  base_live :: bool
  impl_live :: bool
  base_deleted :: nat
  impl_deleted :: nat

definition new_impl :: weakref_impl where
  "new_impl = \<lparr>mStrong = INITIAL_STRONG_VALUE, mWeak = 0, base_live = True, impl_live = True, base_deleted = 0, impl_deleted = 0\<rparr>"

text \<open>What a thread that takes a further reference holds already: the new object, a strong or a weak reference.\<close>

datatype source = From_creator | From_strong | From_weak

text \<open>
  Users. Each operation is named after the access it makes next: \<open>incStrong\<close> (\<open>Inc_weak_part\<close>, \<open>Inc_strong\<close>,
  \<open>Inc_fix\<close>), \<open>incWeak\<close>, \<open>decStrong\<close> (\<open>Dec_strong\<close>, \<open>Dec_last\<close>, then as \<open>decWeak\<close>), \<open>decWeak\<close> (\<open>Dec_weak\<close>, \<open>Dec_final\<close>),
  \<open>attemptIncStrong\<close> (\<open>Try_weak\<close> to \<open>Try_undo\<close>, with \<open>curCount\<close>) and \<open>forceIncStrong\<close>.
\<close>

datatype ref_user =
    Creator
  | Holds_strong
  | Holds_weak
  | Inc_weak_part source
  | Inc_strong source
  | Inc_fix source
  | Inc_weak source
  | Dec_strong
  | Dec_last
  | Dec_weak
  | Dec_final
  | Try_weak
  | Try_load
  | Try_cas int
  | Try_hard int
  | Try_first int
  | Try_ask
  | Try_grab
  | Try_extra
  | Try_fix
  | Try_undo
  | Force_weak
  | Force_strong
  | Force_fix
  | Force_call

definition users_of :: "source \<Rightarrow> ref_user list" where
  "users_of src = (case src of From_creator \<Rightarrow> [] | From_strong \<Rightarrow> [Holds_strong] | From_weak \<Rightarrow> [Holds_weak])"

text \<open>\<open>decWeak\<close>: \<open>next\<close> is what the thread is when others still hold references.\<close>

definition dec_weak :: "ref_user list \<Rightarrow> weakref_impl \<Rightarrow> (ref_user list \<times> weakref_impl) option" where
  "dec_weak after r =
     (let c = mWeak r; r1 = r\<lparr>mWeak := c - 1\<rparr>
      in if BAD_WEAK c then None else Some (if c \<noteq> 1 then after else Dec_final # after, r1))"

text \<open>\<open>delete this\<close> with lifetime strong, and \<open>delete mBase\<close> with lifetime weak: the destructor of \<open>RefBase\<close>.\<close>

definition destroy :: "lifetime \<Rightarrow> weakref_impl \<Rightarrow> weakref_impl option" where
  "destroy life r =
     (let r1 = r\<lparr>base_live := False, base_deleted := Suc (base_deleted r)\<rparr>
      in if \<not> base_live r then None
         else case life of
                LIFETIME_WEAK \<Rightarrow>
                  Some (if mWeak r = 0 then r1\<lparr>impl_live := False, impl_deleted := Suc (impl_deleted r)\<rparr> else r1)
              | LIFETIME_STRONG \<Rightarrow> if mStrong r = INITIAL_STRONG_VALUE then None else Some r1)"

text \<open>
  The accesses of \<open>attemptIncStrong\<close>. \<open>choice\<close> is what the thread cannot foresee: whether \<open>compare_exchange_weak\<close>
  goes through when the value is the expected one, and whether \<open>onIncStrongAttempted\<close> agrees.
\<close>

definition try_step :: "lifetime \<Rightarrow> bool \<Rightarrow> ref_user \<Rightarrow> weakref_impl \<Rightarrow> (ref_user list \<times> weakref_impl) option" where
  "try_step life choice u r =
     (case u of
        Try_weak \<Rightarrow> Some ([Try_load], r\<lparr>mWeak := mWeak r + 1\<rparr>)
      | Try_load \<Rightarrow>
          (let c = mStrong r in Some ([if c > 0 \<and> c \<noteq> INITIAL_STRONG_VALUE then Try_cas c else Try_hard c], r))
      | Try_cas c \<Rightarrow>
          if choice \<and> mStrong r = c then Some ([Holds_strong, Holds_weak], r\<lparr>mStrong := c + 1\<rparr>)
          else (let c1 = mStrong r in Some ([if c1 > 0 \<and> c1 \<noteq> INITIAL_STRONG_VALUE then Try_cas c1 else Try_hard c1], r))
      | Try_hard c \<Rightarrow>
          Some ([case life of LIFETIME_STRONG \<Rightarrow> if c \<le> 0 then Try_undo else Try_first c | LIFETIME_WEAK \<Rightarrow> Try_ask], r)
      | Try_first c \<Rightarrow>
          if choice \<and> mStrong r = c
          then Some (if c = INITIAL_STRONG_VALUE then [Try_fix] else [Holds_strong, Holds_weak], r\<lparr>mStrong := c + 1\<rparr>)
          else Some ([if mStrong r > 0 then Try_first (mStrong r) else Try_undo], r)
      | Try_ask \<Rightarrow> if base_live r then Some ([if choice then Try_grab else Try_undo], r) else None
      | Try_grab \<Rightarrow>
          (let c = mStrong r
           in Some (if c = INITIAL_STRONG_VALUE then [Try_fix] else if c \<noteq> 0 then [Try_extra] else [Holds_strong, Holds_weak],
                    r\<lparr>mStrong := c + 1\<rparr>))
      | Try_extra \<Rightarrow> if base_live r then Some ([Holds_strong, Holds_weak], r) else None
      | Try_fix \<Rightarrow> Some ([Holds_strong, Holds_weak], r\<lparr>mStrong := mStrong r - INITIAL_STRONG_VALUE\<rparr>)
      | Try_undo \<Rightarrow> dec_weak [Holds_weak] r
      | _ \<Rightarrow> Some ([u], r))"

text \<open>One atomic access. \<open>None\<close> is an access to memory that was deleted, or an abort.\<close>

definition user_step :: "lifetime \<Rightarrow> bool \<Rightarrow> ref_user \<Rightarrow> weakref_impl \<Rightarrow> (ref_user list \<times> weakref_impl) option" where
  "user_step life choice u r =
     (if \<not> impl_live r then None
      else
        (case u of
           Inc_weak_part src \<Rightarrow> Some ([Inc_strong src], r\<lparr>mWeak := mWeak r + 1\<rparr>)
         | Inc_strong src \<Rightarrow>
             Some (if mStrong r \<noteq> INITIAL_STRONG_VALUE then Holds_strong # users_of src else [Inc_fix src],
                   r\<lparr>mStrong := mStrong r + 1\<rparr>)
         | Inc_fix src \<Rightarrow>
             if base_live r then Some (Holds_strong # users_of src, r\<lparr>mStrong := mStrong r - INITIAL_STRONG_VALUE\<rparr>) else None
         | Inc_weak src \<Rightarrow> Some (Holds_weak # users_of src, r\<lparr>mWeak := mWeak r + 1\<rparr>)
         | Dec_strong \<Rightarrow>
             (let c = mStrong r; r1 = r\<lparr>mStrong := c - 1\<rparr>
              in if BAD_STRONG c then None else Some ([if c = 1 then Dec_last else Dec_weak], r1))
         | Dec_last \<Rightarrow>
             if \<not> base_live r then None
             else (case life of
                     LIFETIME_STRONG \<Rightarrow> map_option (\<lambda>r1. ([Dec_weak], r1)) (destroy life r)
                   | LIFETIME_WEAK \<Rightarrow> Some ([Dec_weak], r))
         | Dec_weak \<Rightarrow> dec_weak [] r
         | Dec_final \<Rightarrow>
             (case life of
                LIFETIME_STRONG \<Rightarrow>
                  Some ([], if mStrong r = INITIAL_STRONG_VALUE then r
                            else r\<lparr>impl_live := False, impl_deleted := Suc (impl_deleted r)\<rparr>)
              | LIFETIME_WEAK \<Rightarrow> map_option (\<lambda>r1. ([], r1)) (destroy life r))
         | Force_weak \<Rightarrow> Some ([Force_strong], r\<lparr>mWeak := mWeak r + 1\<rparr>)
         | Force_strong \<Rightarrow>
             (let c = mStrong r
              in Some (if c = INITIAL_STRONG_VALUE then [Force_fix] else if c = 0 then [Force_call] else [Holds_strong, Holds_weak],
                       r\<lparr>mStrong := c + 1\<rparr>))
         | Force_fix \<Rightarrow> Some ([Force_call], r\<lparr>mStrong := mStrong r - INITIAL_STRONG_VALUE\<rparr>)
         | Force_call \<Rightarrow> if base_live r then Some ([Holds_strong, Holds_weak], r) else None
         | _ \<Rightarrow> try_step life choice u r))"

text \<open>
  What a holder may start: the creator takes the first strong reference (\<open>sp::make\<close>); further references are taken
  from ones that are held; a weak reference is promoted, or forced when the object's lifetime is extended.
\<close>

definition starts :: "lifetime \<Rightarrow> ref_user \<Rightarrow> ref_user list" where
  "starts life u =
     (case u of
        Creator \<Rightarrow> [Inc_weak_part From_creator]
      | Holds_strong \<Rightarrow> [Inc_weak_part From_strong, Inc_weak From_strong, Dec_strong]
      | Holds_weak \<Rightarrow> [Inc_weak From_weak, Dec_weak, Try_weak] @ (if life = LIFETIME_WEAK then [Force_weak] else [])
      | _ \<Rightarrow> [])"

text \<open>\<open>attemptIncWeak\<close>: the loop, \<open>seen\<close> being the values other threads leave behind when the exchange fails.\<close>

fun attemptIncWeak :: "int \<Rightarrow> int list \<Rightarrow> bool \<times> int" where
  "attemptIncWeak cur [] = (if cur > 0 then (True, cur + 1) else (False, cur))"
| "attemptIncWeak cur (c # seen) = (if cur > 0 then attemptIncWeak c seen else (False, cur))"


subsection \<open>Interleavings\<close>

type_synonym ref_state = "ref_user multiset \<times> weakref_impl"

text \<open>The references a user has, or will have when its operation is done.\<close>

fun references_of :: "ref_user \<Rightarrow> int" where
  "references_of (Inc_weak_part src) = (if src = From_creator then 1 else 2)"
| "references_of (Inc_strong src) = (if src = From_creator then 1 else 2)"
| "references_of (Inc_fix src) = (if src = From_creator then 1 else 2)"
| "references_of (Inc_weak src) = 2"
| "references_of Try_weak = 2"
| "references_of Try_load = 2"
| "references_of (Try_cas c) = 2"
| "references_of (Try_hard c) = 2"
| "references_of (Try_first c) = 2"
| "references_of Try_ask = 2"
| "references_of Try_grab = 2"
| "references_of Try_extra = 2"
| "references_of Try_fix = 2"
| "references_of Try_undo = 2"
| "references_of Force_weak = 2"
| "references_of Force_strong = 2"
| "references_of Force_fix = 2"
| "references_of Force_call = 2"
| "references_of _ = 1"

definition total :: "(ref_user \<Rightarrow> int) \<Rightarrow> ref_user multiset \<Rightarrow> int" where
  "total f U = (\<Sum>u\<in>#U. f u)"

text \<open>
  An operation that adds a reference is started only while there are fewer than \<open>MAX_COUNT\<close>: with more,
  \<open>decStrong\<close> and \<open>decWeak\<close> abort.
\<close>

inductive ref_step :: "lifetime \<Rightarrow> ref_state \<Rightarrow> ref_state \<Rightarrow> bool" for life where
  start: "v \<in> set (starts life u) \<Longrightarrow> total references_of (add_mset v U) \<le> MAX_COUNT \<or> references_of v \<le> references_of u \<Longrightarrow>
    ref_step life (add_mset u U, r) (add_mset v U, r)"
| access: "user_step life choice u r = Some (us, r') \<Longrightarrow> ref_step life (add_mset u U, r) (mset us + U, r')"

inductive_cases ref_stepE: "ref_step life st st'"

end
