(* ===== verification/Ref_Base_Props.thy ===== *)
theory Ref_Base_Props
  imports Ref_Base
begin

text \<open>
  Reference counting is safe (\<open>RefBase.cpp\<close>): in every interleaving the counts are exact, the object lives while a
  strong reference is held, and it and its \<open>weakref_impl\<close> are deleted exactly once, when nobody can reach them
  any more.
\<close>

subsection \<open>What each user accounts for\<close>

fun weak_of :: "ref_user \<Rightarrow> int" where
  "weak_of Creator = 0"
| "weak_of (Inc_weak_part src) = (if src = From_creator then 0 else 1)"
| "weak_of (Inc_strong src) = (if src = From_creator then 1 else 2)"
| "weak_of (Inc_fix src) = (if src = From_creator then 1 else 2)"
| "weak_of Dec_final = 0"
| "weak_of Try_load = 2"
| "weak_of (Try_cas c) = 2"
| "weak_of (Try_hard c) = 2"
| "weak_of (Try_first c) = 2"
| "weak_of Try_ask = 2"
| "weak_of Try_grab = 2"
| "weak_of Try_extra = 2"
| "weak_of Try_fix = 2"
| "weak_of Try_undo = 2"
| "weak_of Force_strong = 2"
| "weak_of Force_fix = 2"
| "weak_of Force_call = 2"
| "weak_of _ = 1"

fun strong_of :: "ref_user \<Rightarrow> int" where
  "strong_of Holds_strong = 1"
| "strong_of (Inc_weak_part src) = (if src = From_strong then 1 else 0)"
| "strong_of (Inc_strong src) = (if src = From_strong then 1 else 0)"
| "strong_of (Inc_fix src) = (if src = From_strong then 2 else 1)"
| "strong_of (Inc_weak src) = (if src = From_strong then 1 else 0)"
| "strong_of Dec_strong = 1"
| "strong_of Try_extra = 1"
| "strong_of Try_fix = 1"
| "strong_of Force_fix = 1"
| "strong_of Force_call = 1"
| "strong_of _ = 0"

text \<open>Before and during the creator's first strong reference; about to notice the last strong one; about to clean up.\<close>

fun newborn :: "ref_user \<Rightarrow> int" where
  "newborn Creator = 1"
| "newborn (Inc_weak_part src) = of_bool (src = From_creator)"
| "newborn (Inc_strong src) = of_bool (src = From_creator)"
| "newborn _ = 0"

fun fixing :: "ref_user \<Rightarrow> int" where
  "fixing (Inc_fix src) = 1"
| "fixing _ = 0"

definition last_strong :: "ref_user \<Rightarrow> int" where "last_strong u = of_bool (u = Dec_last)"
definition final :: "ref_user \<Rightarrow> int" where "final u = of_bool (u = Dec_final)"
definition one :: "ref_user \<Rightarrow> int" where "one u = 1"

text \<open>The states of an operation that can come up.\<close>

fun sane_user :: "lifetime \<Rightarrow> ref_user \<Rightarrow> bool" where
  "sane_user life (Inc_weak_part src) = (src \<noteq> From_weak)"
| "sane_user life (Inc_strong src) = (src \<noteq> From_weak)"
| "sane_user life (Inc_fix src) = (src = From_creator)"
| "sane_user life (Inc_weak src) = (src \<noteq> From_creator)"
| "sane_user life (Try_cas c) = (0 < c \<and> c \<noteq> INITIAL_STRONG_VALUE)"
| "sane_user life (Try_hard c) = (c \<le> 0)"
| "sane_user life (Try_first c) = False"
| "sane_user life Try_fix = False"
| "sane_user life Force_fix = False"
| "sane_user life Try_ask = (life = LIFETIME_WEAK)"
| "sane_user life Try_grab = (life = LIFETIME_WEAK)"
| "sane_user life Try_extra = (life = LIFETIME_WEAK)"
| "sane_user life Force_weak = (life = LIFETIME_WEAK)"
| "sane_user life Force_strong = (life = LIFETIME_WEAK)"
| "sane_user life Force_call = (life = LIFETIME_WEAK)"
| "sane_user life _ = True"

definition ref_ok :: "lifetime \<Rightarrow> ref_state \<Rightarrow> bool" where
  "ref_ok life st \<longleftrightarrow>
     (let U = fst st; r = snd st in
      (\<forall>u\<in>#U. sane_user life u) \<and>
      mWeak r = total weak_of U \<and>
      mStrong r = total strong_of U + INITIAL_STRONG_VALUE * (total newborn U + total fixing U) \<and>
      total newborn U + total fixing U \<le> 1 \<and>
      (total newborn U + total final U \<ge> 1 \<longrightarrow> total one U = 1) \<and>
      total references_of U \<le> MAX_COUNT \<and>
      (life = LIFETIME_STRONG \<longrightarrow>
         (base_live r \<longleftrightarrow> total newborn U + total strong_of U + total last_strong U \<ge> 1) \<and>
         total last_strong U \<le> 1 \<and> (total last_strong U \<ge> 1 \<longrightarrow> total strong_of U = 0)) \<and>
      (life = LIFETIME_WEAK \<longrightarrow> (base_live r \<longleftrightarrow> total one U \<ge> 1)) \<and>
      (impl_live r \<longleftrightarrow> total one U \<ge> 1) \<and>
      base_deleted r = (if base_live r then 0 else 1) \<and> impl_deleted r = (if impl_live r then 0 else 1))"

lemma total_simps [simp]:
  "total f {#} = 0" "total f (add_mset u U) = f u + total f U" "total f (U + V) = total f U + total f V"
  by (simp_all add: total_def)

lemma total_mono: "(\<And>u. f u \<le> g u) \<Longrightarrow> total f U \<le> total g U"
  by (induction U) (auto intro: add_mono)

lemma total_plus: "total (\<lambda>u. f u + g u) U = total f U + total g U"
  by (induction U) auto

lemma total_bounds:
  "0 \<le> total newborn U" "0 \<le> total fixing U" "0 \<le> total last_strong U" "0 \<le> total final U" "0 \<le> total strong_of U"
  "total fixing U \<le> total strong_of U" "total strong_of U \<le> total weak_of U" "total weak_of U \<le> total references_of U"
  "total one U \<le> total weak_of U + total newborn U + total final U" "0 \<le> total one U"
proof -
  have user: "0 \<le> newborn u" "0 \<le> fixing u" "0 \<le> last_strong u" "0 \<le> final u" "0 \<le> strong_of u" "0 \<le> one u" "fixing u \<le> strong_of u"
      "strong_of u \<le> weak_of u" "weak_of u \<le> references_of u" "one u \<le> weak_of u + newborn u + final u" for u
    by (cases u; simp add: last_strong_def final_def one_def)+
  have zero: "total (\<lambda>u. 0) U = 0"
    by (induction U) auto
  show "0 \<le> total newborn U" "0 \<le> total fixing U" "0 \<le> total last_strong U" "0 \<le> total final U" "0 \<le> total strong_of U" "0 \<le> total one U"
    using total_mono [of "\<lambda>u. 0" _ U] user zero by metis+
  show "total fixing U \<le> total strong_of U" "total strong_of U \<le> total weak_of U" "total weak_of U \<le> total references_of U"
    by (rule total_mono, rule user)+
  show "total one U \<le> total weak_of U + total newborn U + total final U"
    using total_mono [of one "\<lambda>u. weak_of u + newborn u + final u" U] user(10) by (simp add: total_plus [of "\<lambda>u. weak_of u + newborn u"] total_plus [of weak_of])
qed



subsection \<open>The checks on counts\<close>

lemma small_bits: "0 \<le> (c :: int) \<Longrightarrow> c < 2 ^ n \<Longrightarrow> bit c m \<Longrightarrow> m < n"
proof (rule ccontr)
  assume c: "0 \<le> c" "c < 2 ^ n" "bit c m" "\<not> m < n"
  have "(2 :: int) ^ n \<le> 2 ^ m"
    using c(4) by (intro power_increasing) simp_all
  then have "c < 2 ^ m"
    using c(2) by linarith
  then show False
    using c(1,3) by (simp add: bit_iff_odd)
qed

lemma not_bad_weak: "1 \<le> c \<Longrightarrow> c \<le> MAX_COUNT \<Longrightarrow> \<not> BAD_WEAK c"
proof -
  assume c: "1 \<le> c" "c \<le> MAX_COUNT"
  have "MAX_COUNT = mask 20"
    by (simp add: MAX_COUNT_def mask_eq_exp_minus_1)
  then have "c AND NOT MAX_COUNT = 0"
    using c small_bits [of c 20] by (auto simp: bit_eq_iff bit_simps MAX_COUNT_def [symmetric]) (auto simp: MAX_COUNT_def)
  then show ?thesis
    using c by (simp add: BAD_WEAK_def)
qed

lemma bit_initial: "bit INITIAL_STRONG_VALUE m \<longleftrightarrow> m = 28"
  unfolding INITIAL_STRONG_VALUE_def bit_exp_iff by auto

lemma not_bad_strong:
  assumes "1 \<le> c" "c \<le> MAX_COUNT" "k = 0 \<or> k = 1"
  shows "\<not> BAD_STRONG (c + INITIAL_STRONG_VALUE * k)"
proof -
  have mask: "MAX_COUNT = mask 20"
    by (simp add: MAX_COUNT_def mask_eq_exp_minus_1)
  have c: "bit c m \<Longrightarrow> m < 20" for m
    using small_bits [of c 20 m] assms by (simp add: MAX_COUNT_def)
  have "c AND 2 ^ 28 = 0"
    using c [of 28] unfolding and_exp_eq_0_iff_not_bit by auto
  then have "c + INITIAL_STRONG_VALUE = c OR INITIAL_STRONG_VALUE"
    by (simp only: INITIAL_STRONG_VALUE_def disjunctive_add_eq_or)
  then have "bit (c + INITIAL_STRONG_VALUE * k) m \<Longrightarrow> m < 20 \<or> m = 28" for m
    using assms(3) c [of m] by (auto simp: bit_simps bit_initial)
  then have "(c + INITIAL_STRONG_VALUE * k) AND NOT (MAX_COUNT OR INITIAL_STRONG_VALUE) = 0"
    by (auto simp: bit_eq_iff bit_simps mask bit_initial)
  moreover have "c + INITIAL_STRONG_VALUE * k \<noteq> 0"
    using assms by (auto simp: INITIAL_STRONG_VALUE_def)
  ultimately show ?thesis
    by (simp add: BAD_STRONG_def)
qed


subsection \<open>Every access keeps the counts\<close>

text \<open>The state around one user, as linear constraints.\<close>

lemma ref_ok_user:
  assumes "ref_ok life (add_mset u U, r)"
  shows "sane_user life u" "\<forall>v\<in>#U. sane_user life v" "impl_live r" "impl_deleted r = 0"
    "mWeak r = weak_of u + total weak_of U"
    "mStrong r = strong_of u + total strong_of U + INITIAL_STRONG_VALUE * (newborn u + fixing u + total newborn U + total fixing U)"
    "newborn u + fixing u + total newborn U + total fixing U \<le> 1"
    "newborn u + final u + total newborn U + total final U \<ge> 1 \<Longrightarrow> total one U = 0"
    "references_of u + total references_of U \<le> MAX_COUNT"
    "base_deleted r = (if base_live r then 0 else 1)"
    "life = LIFETIME_STRONG \<Longrightarrow>
       (base_live r \<longleftrightarrow> newborn u + strong_of u + last_strong u + total newborn U + total strong_of U + total last_strong U \<ge> 1) \<and>
       last_strong u + total last_strong U \<le> 1 \<and>
       (last_strong u + total last_strong U \<ge> 1 \<longrightarrow> strong_of u + total strong_of U = 0)"
    "life = LIFETIME_WEAK \<Longrightarrow> base_live r"
  using assms total_bounds(10) [of U] by (auto simp: ref_ok_def one_def algebra_simps)

lemma total_one_0: "total one U \<le> 0 \<Longrightarrow> U = {#}"
proof (cases U)
  case (add u V)
  then show "total one U \<le> 0 \<Longrightarrow> U = {#}"
    using total_bounds(10) [of V] by (simp add: one_def)
qed simp

text \<open>The creator before its first reference, and a clean-up, are alone; otherwise nobody is either.\<close>

lemma alone:
  assumes ok: "ref_ok life (add_mset u U, r)"
  shows "newborn u = 1 \<or> u = Dec_final \<Longrightarrow> U = {#}"
    "newborn u = 0 \<Longrightarrow> total newborn U = 0" "u \<noteq> Dec_final \<Longrightarrow> total final U = 0"
proof -
  note user = ref_ok_user [OF ok] and bounds = total_bounds [of U]
  have "0 \<le> newborn u" "0 \<le> final u"
    by (cases u; simp add: final_def)+
  then have alone: "U = {#}" if "newborn u \<ge> 1 \<or> final u \<ge> 1 \<or> total newborn U \<ge> 1 \<or> total final U \<ge> 1"
    using that user(8) bounds by (intro total_one_0) fastforce
  then show "newborn u = 1 \<or> u = Dec_final \<Longrightarrow> U = {#}"
    by (auto simp: final_def)
  show "total newborn U = 0" "total final U = 0"
    using alone bounds(1,4) by (metis int_one_le_iff_zero_less order_le_less total_simps(1))+
qed

lemma strong_not_initial:
  assumes ok: "ref_ok life (add_mset u U, r)" and "newborn u = 0"
  shows "mStrong r \<noteq> INITIAL_STRONG_VALUE" "mStrong r > 0 \<longleftrightarrow> strong_of u + total strong_of U > 0"
    "mStrong r = 1 \<longleftrightarrow> strong_of u + total strong_of U = 1 \<and> fixing u + total fixing U = 0"
    "strong_of u + total strong_of U > 0 \<Longrightarrow> \<not> BAD_STRONG (mStrong r)"
proof -
  note bounds = total_bounds [of U]
  have young: "total newborn U = 0"
    using alone(2) [OF ok] assms(2) by simp
  let ?s = "strong_of u + total strong_of U" and ?f = "fixing u + total fixing U"
  have "0 \<le> fixing u" "fixing u \<le> strong_of u" "strong_of u \<le> weak_of u" "weak_of u \<le> references_of u" "0 \<le> strong_of u"
    by (cases u; simp)+
  then have f: "?f = 0 \<or> ?f = 1" "?f \<le> ?s" "?s \<le> MAX_COUNT" "0 \<le> ?s"
    using ref_ok_user(7,9) [OF ok] bounds assms(2) young by linarith+
  have strong: "mStrong r = ?s + INITIAL_STRONG_VALUE * ?f"
    using ref_ok_user(6) [OF ok] assms(2) young by simp
  then show "mStrong r \<noteq> INITIAL_STRONG_VALUE" "mStrong r > 0 \<longleftrightarrow> ?s > 0" "mStrong r = 1 \<longleftrightarrow> ?s = 1 \<and> ?f = 0"
    using f by (auto simp: INITIAL_STRONG_VALUE_def MAX_COUNT_def)
  show "?s > 0 \<Longrightarrow> \<not> BAD_STRONG (mStrong r)"
    unfolding strong using not_bad_strong f by simp
qed

lemma weak_not_bad:
  assumes ok: "ref_ok life (add_mset u U, r)" and "weak_of u \<ge> 1"
  shows "\<not> BAD_WEAK (mWeak r)"
proof (rule not_bad_weak)
  have "weak_of u \<le> references_of u" "0 \<le> total weak_of U"
    using total_bounds [of U] by (cases u; simp)+
  then show "1 \<le> mWeak r" "mWeak r \<le> MAX_COUNT"
    using ref_ok_user(5,9) [OF ok] assms(2) total_bounds(8) [of U] by linarith+
qed

lemmas counts = last_strong_def final_def one_def INITIAL_STRONG_VALUE_def MAX_COUNT_def

definition goes_on :: "lifetime \<Rightarrow> bool \<Rightarrow> ref_user \<Rightarrow> weakref_impl \<Rightarrow> ref_user multiset \<Rightarrow> bool" where
  "goes_on life choice u r U \<longleftrightarrow> (\<exists>us r'. user_step life choice u r = Some (us, r') \<and> ref_ok life (mset us + U, r'))"

lemma goes_onI: "user_step life choice u r = Some (us, r') \<Longrightarrow> ref_ok life (mset us + U, r') \<Longrightarrow> goes_on life choice u r U"
  by (auto simp: goes_on_def)

lemma inc_goes_on:
  assumes ok: "ref_ok life (add_mset u U, r)"
  shows "u = Inc_weak_part src \<Longrightarrow> goes_on life choice u r U" "u = Inc_strong src \<Longrightarrow> goes_on life choice u r U"
    "u = Inc_fix src \<Longrightarrow> goes_on life choice u r U" "u = Inc_weak src \<Longrightarrow> goes_on life choice u r U"
proof -
  note user = ref_ok_user [OF ok] and bounds = total_bounds [of U] and initial = strong_not_initial [OF ok] and alone = alone [OF ok]
  show "goes_on life choice u r U" if u: "u = Inc_weak_part src"
    by (rule goes_onI [where us = "[Inc_strong src]" and r' = "r\<lparr>mWeak := mWeak r + 1\<rparr>"])
      (use user bounds alone in \<open>cases src; cases life; auto simp: u user_step_def try_step_def ref_ok_def counts\<close>)+
  show "goes_on life choice u r U" if u: "u = Inc_strong src"
  proof (cases src)
    case From_creator
    then have "U = {#}"
      using alone(1) u by simp
    then show ?thesis
      by (intro goes_onI [where us = "[Inc_fix src]" and r' = "r\<lparr>mStrong := mStrong r + 1\<rparr>"])
        (use user in \<open>cases life; auto simp: u From_creator user_step_def try_step_def ref_ok_def counts\<close>)+
  next
    case From_strong
    then show ?thesis
      by (intro goes_onI [where us = "[Holds_strong, Holds_strong]" and r' = "r\<lparr>mStrong := mStrong r + 1\<rparr>"])
        (use user bounds alone initial in \<open>cases life; auto simp: u user_step_def try_step_def users_of_def ref_ok_def counts\<close>)+
  qed (use user(1) u in simp)
  show "goes_on life choice u r U" if u: "u = Inc_fix src"
    by (rule goes_onI [where us = "[Holds_strong]" and r' = "r\<lparr>mStrong := mStrong r - INITIAL_STRONG_VALUE\<rparr>"])
      (use user bounds alone in \<open>cases life; auto simp: u user_step_def try_step_def users_of_def ref_ok_def counts\<close>)+
  show "goes_on life choice u r U" if u: "u = Inc_weak src"
    by (rule goes_onI [where us = "Holds_weak # users_of src" and r' = "r\<lparr>mWeak := mWeak r + 1\<rparr>"])
      (use user bounds alone in \<open>cases src; cases life; auto simp: u user_step_def try_step_def users_of_def ref_ok_def counts\<close>)+
qed

lemma dec_goes_on:
  assumes ok: "ref_ok life (add_mset u U, r)"
  shows "u = Dec_strong \<Longrightarrow> goes_on life choice u r U" "u = Dec_last \<Longrightarrow> goes_on life choice u r U"
    "u = Dec_weak \<Longrightarrow> goes_on life choice u r U" "u = Dec_final \<Longrightarrow> goes_on life choice u r U"
proof -
  note user = ref_ok_user [OF ok] and bounds = total_bounds [of U] and initial = strong_not_initial [OF ok] and alone = alone [OF ok]
  show "goes_on life choice u r U" if u: "u = Dec_strong"
    by (rule goes_onI [where us = "[if mStrong r = 1 then Dec_last else Dec_weak]" and r' = "r\<lparr>mStrong := mStrong r - 1\<rparr>"])
      (use user bounds alone initial in \<open>cases life; auto simp: u user_step_def try_step_def ref_ok_def counts Let_def\<close>)+
  show "goes_on life choice u r U" if u: "u = Dec_last"
  proof (cases life)
    case LIFETIME_STRONG
    then show ?thesis
      by (intro goes_onI [where us = "[Dec_weak]" and r' = "r\<lparr>base_live := False, base_deleted := Suc (base_deleted r)\<rparr>"])
        (use user bounds alone initial in \<open>auto simp: u user_step_def try_step_def destroy_def ref_ok_def counts Let_def\<close>)+
  next
    case LIFETIME_WEAK
    then show ?thesis
      by (intro goes_onI [where us = "[Dec_weak]" and r' = r])
        (use user bounds alone initial in \<open>auto simp: u user_step_def try_step_def ref_ok_def counts Let_def\<close>)+
  qed
  show "goes_on life choice u r U" if u: "u = Dec_weak"
  proof (cases "mWeak r = 1")
    case True
    then have "total one U \<le> 0"
      using user(5) bounds(9) alone(2,3) u by simp
    then have "U = {#}"
      by (rule total_one_0)
    then show ?thesis
      by (intro goes_onI [where us = "[Dec_final]" and r' = "r\<lparr>mWeak := 0\<rparr>"])
        (use True user weak_not_bad [OF ok] in \<open>cases life; auto simp: u user_step_def try_step_def dec_weak_def ref_ok_def counts\<close>)+
  next
    case False
    then have "U \<noteq> {#}"
      using user(5) u by auto
    then have "total one U \<ge> 1"
      using total_one_0 [of U] by linarith
    then show ?thesis
      by (intro goes_onI [where us = "[]" and r' = "r\<lparr>mWeak := mWeak r - 1\<rparr>"])
        (use False user bounds alone weak_not_bad [OF ok] in \<open>cases life; auto simp: u user_step_def try_step_def dec_weak_def ref_ok_def counts\<close>)+
  qed
  show "goes_on life choice u r U" if u: "u = Dec_final"
  proof (cases life)
    case LIFETIME_STRONG
    then show ?thesis
      by (intro goes_onI [where us = "[]" and r' = "r\<lparr>impl_live := False, impl_deleted := Suc (impl_deleted r)\<rparr>"])
        (use user alone(1) initial in \<open>auto simp: u user_step_def try_step_def ref_ok_def counts\<close>)+
  next
    case LIFETIME_WEAK
    then show ?thesis
      by (intro goes_onI [where us = "[]" and r' = "r\<lparr>base_live := False, base_deleted := Suc (base_deleted r),
            impl_live := False, impl_deleted := Suc (impl_deleted r)\<rparr>"])
        (use user alone(1) in \<open>auto simp: u user_step_def try_step_def destroy_def ref_ok_def counts\<close>)+
  qed
qed

text \<open>Taking a strong reference while holding a weak one.\<close>

lemma grab_goes_on:
  assumes ok: "ref_ok life (add_mset u U, r)" and u: "weak_of u = 2" "strong_of u = 0" "newborn u = 0" "fixing u = 0" "references_of u = 2"
      "u \<noteq> Dec_final" "u \<noteq> Dec_last"
    and us: "us = [Holds_strong, Holds_weak] \<or> us = [Try_extra] \<and> life = LIFETIME_WEAK \<or> us = [Force_call] \<and> life = LIFETIME_WEAK"
    and live: "life = LIFETIME_STRONG \<Longrightarrow> mStrong r > 0"
    and run: "user_step life choice u r = Some (us, r\<lparr>mStrong := mStrong r + 1\<rparr>)"
  shows "goes_on life choice u r U"
  by (rule goes_onI [OF run])
    (use ref_ok_user [OF ok] total_bounds [of U] alone [OF ok] strong_not_initial(2) [OF ok] u us live
     in \<open>cases life; auto simp: ref_ok_def counts\<close>)

text \<open>Going on to the next access without touching the counts.\<close>

lemma moves_on:
  assumes ok: "ref_ok life (add_mset u U, r)"
    and u: "sane_user life v" "weak_of v = weak_of u" "strong_of v = strong_of u" "newborn v = newborn u" "fixing v = fixing u"
      "references_of v = references_of u" "final v = final u" "last_strong v = last_strong u"
    and run: "user_step life choice u r = Some ([v], r)"
  shows "goes_on life choice u r U"
  by (rule goes_onI [OF run]) (use ok u in \<open>auto simp: ref_ok_def one_def\<close>)

lemma weak_goes_on:
  assumes ok: "ref_ok life (add_mset u U, r)"
  shows "u = Try_weak \<or> u = Force_weak \<Longrightarrow> goes_on life choice u r U"
    "u = Try_undo \<Longrightarrow> goes_on life choice u r U" "u = Try_extra \<or> u = Force_call \<Longrightarrow> goes_on life choice u r U"
proof -
  note user = ref_ok_user [OF ok] and bounds = total_bounds [of U] and alone = alone [OF ok]
  show "goes_on life choice u r U" if u: "u = Try_weak \<or> u = Force_weak"
    by (rule goes_onI [where us = "[if u = Try_weak then Try_load else Force_strong]" and r' = "r\<lparr>mWeak := mWeak r + 1\<rparr>"])
      (use u user bounds alone in \<open>cases life; auto simp: user_step_def try_step_def ref_ok_def counts\<close>)+
  show "goes_on life choice u r U" if u: "u = Try_undo"
    by (rule goes_onI [where us = "[Holds_weak]" and r' = "r\<lparr>mWeak := mWeak r - 1\<rparr>"])
      (use user bounds alone weak_not_bad [OF ok] in \<open>cases life; auto simp: u user_step_def try_step_def dec_weak_def Let_def ref_ok_def counts\<close>)+
  show "goes_on life choice u r U" if u: "u = Try_extra \<or> u = Force_call"
    by (rule goes_onI [where us = "[Holds_strong, Holds_weak]" and r' = r])
      (use u user bounds alone in \<open>cases life; auto simp: user_step_def try_step_def ref_ok_def counts\<close>)+
qed

lemma try_goes_on:
  assumes ok: "ref_ok life (add_mset u U, r)"
  shows "u = Try_load \<Longrightarrow> goes_on life choice u r U" "u = Try_cas c \<Longrightarrow> goes_on life choice u r U"
    "u = Try_hard c \<Longrightarrow> goes_on life choice u r U" "u = Try_ask \<Longrightarrow> goes_on life choice u r U"
    "u = Try_grab \<Longrightarrow> goes_on life choice u r U" "u = Force_strong \<Longrightarrow> goes_on life choice u r U"
proof -
  note user = ref_ok_user [OF ok] and initial = strong_not_initial [OF ok]
  show "goes_on life choice u r U" if u: "u = Try_load"
    by (rule moves_on [OF ok, where v = "if mStrong r > 0 then Try_cas (mStrong r) else Try_hard (mStrong r)"])
      (use user(3) initial(1) in \<open>auto simp: u user_step_def try_step_def counts\<close>)
  show "goes_on life choice u r U" if u: "u = Try_cas c"
  proof (cases "choice \<and> mStrong r = c")
    case True
    then show ?thesis
      by (intro grab_goes_on [OF ok, where us = "[Holds_strong, Holds_weak]"]) (use user in \<open>auto simp: u user_step_def try_step_def\<close>)
  next
    case False
    then show ?thesis
      by (intro moves_on [OF ok, where v = "if mStrong r > 0 then Try_cas (mStrong r) else Try_hard (mStrong r)"])
        (use user(3) initial(1) in \<open>auto simp: u user_step_def try_step_def counts\<close>)
  qed
  show "goes_on life choice u r U" if u: "u = Try_hard c"
    by (rule moves_on [OF ok, where v = "if life = LIFETIME_STRONG then Try_undo else Try_ask"])
      (use user(1,3) in \<open>cases life; auto simp: u user_step_def try_step_def counts\<close>)+
  show "goes_on life choice u r U" if u: "u = Try_ask"
    by (rule moves_on [OF ok, where v = "if choice then Try_grab else Try_undo"])
      (use user(1,3,12) in \<open>auto simp: u user_step_def try_step_def counts\<close>)
  show "goes_on life choice u r U" if u: "u = Try_grab"
    by (rule grab_goes_on [OF ok, where us = "if mStrong r \<noteq> 0 then [Try_extra] else [Holds_strong, Holds_weak]"])
      (use user(1,3) initial(1) in \<open>auto simp: u user_step_def try_step_def Let_def\<close>)
  show "goes_on life choice u r U" if u: "u = Force_strong"
    by (rule grab_goes_on [OF ok, where us = "if mStrong r = 0 then [Force_call] else [Holds_strong, Holds_weak]"])
      (use user(1,3) initial(1) in \<open>auto simp: u user_step_def try_step_def Let_def\<close>)
qed

lemma every_user_goes_on:
  assumes ok: "ref_ok life (add_mset u U, r)"
  shows "goes_on life choice u r U"
proof (cases "u \<in> {Creator, Holds_strong, Holds_weak}")
  case True
  then have "user_step life choice u r = Some ([u], r)"
    using ref_ok_user(3) [OF ok] by (auto simp: user_step_def try_step_def)
  then show ?thesis
    by (rule goes_onI) (use ok in simp)
next
  case False
  then show ?thesis
    using inc_goes_on [OF ok] dec_goes_on [OF ok] weak_goes_on [OF ok] try_goes_on [OF ok] ref_ok_user(1) [OF ok]
    by (cases u) simp_all
qed

lemma start_keeps:
  assumes ok: "ref_ok life (add_mset u U, r)" and v: "v \<in> set (starts life u)"
    and room: "total references_of (add_mset v U) \<le> MAX_COUNT \<or> references_of v \<le> references_of u"
  shows "ref_ok life (add_mset v U, r)"
proof -
  have "weak_of v = weak_of u \<and> strong_of v = strong_of u \<and> newborn v = newborn u \<and> fixing v = fixing u \<and> final v = final u \<and>
      last_strong v = last_strong u \<and> sane_user life v"
    using v by (cases u) (auto simp: starts_def counts split: if_splits)
  then show ?thesis
    using ok room by (auto simp: ref_ok_def one_def)
qed

lemma ref_ok_step: "ref_ok life st \<Longrightarrow> ref_step life st st' \<Longrightarrow> ref_ok life st'"
proof (erule ref_stepE, goal_cases)
  case (1 v u U r)
  then show ?case
    using start_keeps by blast
next
  case (2 choice u r us r' U)
  then show ?case
    using every_user_goes_on [of life u U r choice] by (auto simp: goes_on_def)
qed

lemma ref_ok_init: "ref_ok life ({#Creator#}, new_impl)"
  by (cases life) (auto simp: ref_ok_def new_impl_def counts)

lemma ref_ok_steps: "(ref_step life)\<^sup>*\<^sup>* ({#Creator#}, new_impl) st \<Longrightarrow> ref_ok life st"
  by (induction rule: rtranclp_induct) (auto intro: ref_ok_init ref_ok_step)


text \<open>\<open>attemptIncWeak\<close> succeeds exactly when it never saw a count of 0.\<close>

lemma attemptIncWeak_iff:
  "fst (attemptIncWeak cur seen) \<longleftrightarrow> (\<forall>c\<in>set (cur # seen). c > 0)"
  by (induction cur seen rule: attemptIncWeak.induct) auto


subsection \<open>Properties\<close>

text \<open>
  C4. Memory safety of reference counting: from an object's creation on, in every interleaving of threads that copy,
  drop, promote and force references, no thread ever accesses the counts or the object after they were deleted,
  none of the checks on counts aborts, and whoever holds a strong reference, or has one while an operation is
  under way, finds the object alive.
\<close>

theorem references_safe:
  assumes "(ref_step life)\<^sup>*\<^sup>* ({#Creator#}, new_impl) (U, r)" "u \<in># U"
  shows "user_step life choice u r \<noteq> None \<and> (strong_of u > 0 \<longrightarrow> base_live r)"
proof -
  obtain V where U: "U = add_mset u V"
    using assms(2) by (meson multi_member_split)
  have ok: "ref_ok life (add_mset u V, r)"
    using ref_ok_steps [OF assms(1)] by (simp add: U)
  have "base_live r" if "strong_of u > 0"
  proof (cases life)
    case LIFETIME_STRONG
    have "0 \<le> newborn u" "0 \<le> last_strong u"
      by (cases u; simp add: last_strong_def)+
    then show ?thesis
      using ref_ok_user(11) [OF ok LIFETIME_STRONG] total_bounds(1,3,5) [of V] that by linarith
  next
    case LIFETIME_WEAK
    then show ?thesis
      using ref_ok_user(12) [OF ok] by simp
  qed
  then show ?thesis
    using every_user_goes_on [OF ok, of choice] by (auto simp: goes_on_def)
qed

text \<open>
  C23. No leak and no double delete: the object and its counts are deleted at most once, and when the last user is
  gone both have been deleted.
\<close>

theorem deleted_exactly_once:
  assumes "(ref_step life)\<^sup>*\<^sup>* ({#Creator#}, new_impl) (U, r)"
  shows "base_deleted r \<le> 1 \<and> impl_deleted r \<le> 1 \<and> (U = {#} \<longrightarrow> base_deleted r = 1 \<and> impl_deleted r = 1)"
proof -
  have ok: "ref_ok life (U, r)"
    by (rule ref_ok_steps [OF assms])
  then have "U = {#} \<Longrightarrow> \<not> base_live r" "U = {#} \<Longrightarrow> \<not> impl_live r"
    by (cases life; auto simp: ref_ok_def)+
  then show ?thesis
    using ok by (auto simp: ref_ok_def)
qed

text \<open>
  The counts are exact: whenever no operation is under way, the strong count is the number of strong references
  and the weak count the number of all references, and only an object without strong references is gone.
\<close>

theorem counts_exact:
  assumes "(ref_step life)\<^sup>*\<^sup>* ({#Creator#}, new_impl) (U, r)" "set_mset U \<subseteq> {Holds_strong, Holds_weak}"
  shows "mStrong r = int (count U Holds_strong) \<and> mWeak r = int (size U) \<and>
    (life = LIFETIME_STRONG \<longrightarrow> (base_live r \<longleftrightarrow> count U Holds_strong > 0))"
proof -
  have ok: "ref_ok life (U, r)"
    by (rule ref_ok_steps [OF assms(1)])
  have "total weak_of U = int (size U) \<and> total strong_of U = int (count U Holds_strong) \<and> total newborn U = 0 \<and> total fixing U = 0 \<and>
      total last_strong U = 0"
    using assms(2) by (induction U) (auto simp: last_strong_def)
  then show ?thesis
    using ok by (auto simp: ref_ok_def)
qed


subsection \<open>A life\<close>

lemma solo:
  "v \<in> set (starts life u) \<Longrightarrow> references_of v \<le> MAX_COUNT \<Longrightarrow> ref_step life ({#u#}, r) ({#v#}, r)"
  "user_step life choice u r = Some (us, r') \<Longrightarrow> ref_step life ({#u#}, r) (mset us, r')"
  using ref_step.start [of v life u "{#}" r] ref_step.access [of life choice u r us r' "{#}"] by simp_all

lemma then_step: "ref_step life st st1 \<Longrightarrow> (ref_step life)\<^sup>*\<^sup>* st1 st2 \<Longrightarrow> (ref_step life)\<^sup>*\<^sup>* st st2"
  by (rule converse_rtranclp_into_rtranclp)

abbreviation held_once :: weakref_impl where
  "held_once \<equiv> new_impl\<lparr>mStrong := 1, mWeak := 1\<rparr>"

lemma sample_made: "(ref_step LIFETIME_STRONG)\<^sup>*\<^sup>* ({#Creator#}, new_impl) ({#Holds_strong#}, held_once)"
proof -
  let ?step = "ref_step LIFETIME_STRONG"
  have a: "?step ({#Creator#}, new_impl) ({#Inc_weak_part From_creator#}, new_impl)"
    by (rule solo(1)) (simp_all add: starts_def MAX_COUNT_def)
  have b: "?step ({#Inc_weak_part From_creator#}, new_impl) ({#Inc_strong From_creator#}, new_impl\<lparr>mWeak := 1\<rparr>)"
    using solo(2) [where us = "[Inc_strong From_creator]"] by (simp add: user_step_def try_step_def new_impl_def)
  have c: "?step ({#Inc_strong From_creator#}, new_impl\<lparr>mWeak := 1\<rparr>)
      ({#Inc_fix From_creator#}, new_impl\<lparr>mStrong := INITIAL_STRONG_VALUE + 1, mWeak := 1\<rparr>)"
    using solo(2) [where us = "[Inc_fix From_creator]"] by (simp add: user_step_def try_step_def new_impl_def)
  have d: "?step ({#Inc_fix From_creator#}, new_impl\<lparr>mStrong := INITIAL_STRONG_VALUE + 1, mWeak := 1\<rparr>) ({#Holds_strong#}, held_once)"
    using solo(2) [where us = "[Holds_strong]"] by (simp add: user_step_def try_step_def new_impl_def users_of_def)
  show ?thesis
    by (rule then_step [OF a] then_step [OF b]
        then_step [OF c] then_step [OF d] rtranclp.rtrancl_refl)+
qed

lemma sample_dropped:
  "(ref_step LIFETIME_STRONG)\<^sup>*\<^sup>* ({#Holds_strong#}, held_once)
     ({#}, new_impl\<lparr>mStrong := 0, mWeak := 0, base_live := False, impl_live := False, base_deleted := 1, impl_deleted := 1\<rparr>)"
proof -
  let ?step = "ref_step LIFETIME_STRONG"
  let ?gone = "new_impl\<lparr>mStrong := 0, mWeak := 1, base_live := False, base_deleted := 1\<rparr>"
  note sane = not_bad_weak [of 1] not_bad_strong [of 1 0]
  have a: "?step ({#Holds_strong#}, held_once) ({#Dec_strong#}, held_once)"
    by (rule solo(1)) (simp_all add: starts_def MAX_COUNT_def)
  have b: "?step ({#Dec_strong#}, held_once) ({#Dec_last#}, new_impl\<lparr>mStrong := 0, mWeak := 1\<rparr>)"
    using solo(2) [where us = "[Dec_last]"] sane by (simp add: user_step_def try_step_def new_impl_def MAX_COUNT_def)
  have c: "?step ({#Dec_last#}, new_impl\<lparr>mStrong := 0, mWeak := 1\<rparr>) ({#Dec_weak#}, ?gone)"
    using solo(2) [where us = "[Dec_weak]"] by (simp add: user_step_def try_step_def new_impl_def destroy_def INITIAL_STRONG_VALUE_def)
  have d: "?step ({#Dec_weak#}, ?gone) ({#Dec_final#}, ?gone\<lparr>mWeak := 0\<rparr>)"
    using solo(2) [where us = "[Dec_final]"] sane by (simp add: user_step_def try_step_def new_impl_def dec_weak_def MAX_COUNT_def)
  have e: "?step ({#Dec_final#}, ?gone\<lparr>mWeak := 0\<rparr>) ({#}, ?gone\<lparr>mWeak := 0, impl_live := False, impl_deleted := 1\<rparr>)"
    using solo(2) [where us = "[]"] by (simp add: user_step_def try_step_def new_impl_def INITIAL_STRONG_VALUE_def)
  have "(?step)\<^sup>*\<^sup>* ({#Holds_strong#}, held_once) ({#}, ?gone\<lparr>mWeak := 0, impl_live := False, impl_deleted := 1\<rparr>)"
    by (rule then_step [OF a] then_step [OF b]
        then_step [OF c] then_step [OF d]
        then_step [OF e] rtranclp.rtrancl_refl)+
  then show ?thesis
    by (simp add: new_impl_def)
qed

theorem references_safe_witness:
  "(ref_step LIFETIME_STRONG)\<^sup>*\<^sup>* ({#Creator#}, new_impl) ({#Holds_strong#}, held_once) \<and> base_live held_once \<and>
     user_step LIFETIME_STRONG True Holds_strong held_once \<noteq> None"
  using references_safe [OF sample_made, of Holds_strong True] sample_made by simp

theorem deleted_exactly_once_witness:
  "\<exists>r. (ref_step LIFETIME_STRONG)\<^sup>*\<^sup>* ({#Creator#}, new_impl) ({#}, r) \<and> base_deleted r = 1 \<and> impl_deleted r = 1"
  using deleted_exactly_once [OF rtranclp_trans [OF sample_made sample_dropped]] rtranclp_trans [OF sample_made sample_dropped] by blast

theorem counts_exact_witness:
  "(ref_step LIFETIME_STRONG)\<^sup>*\<^sup>* ({#Creator#}, new_impl) ({#Holds_strong#}, held_once) \<and>
     mStrong held_once = int (count {#Holds_strong#} Holds_strong)"
  using counts_exact [OF sample_made] sample_made by simp

end
