(* ===== verification/Shared_Vector.thy ===== *)
theory Shared_Vector
  imports Parcel "HOL-Library.Multiset"
begin

text \<open>
  The vectors of libutils: reference-counted storage (\<open>system/core/libutils/SharedBuffer.cpp\<close>) and the untyped vector
  on it (\<open>VectorImpl.cpp\<close>), which copies its storage when it is changed while others share it. A buffer is a row of
  slots, each of which holds a constructed item or is raw. Items are passed by value, from outside the storage; the
  assertions of debug builds are off, as in a release build.
\<close>


subsection \<open>Storage\<close>

text \<open>
  What an operation comes to: a result, the end of the process (\<open>LOG_ALWAYS_FATAL_IF\<close>), or a misuse of memory: an
  access to storage that is gone or to an item that is not there, or an item lost before it was destroyed.
\<close>

datatype 'a vec_run = Gives 'a | Fatal_error | Misuse

definition vec_then :: "'a vec_run \<Rightarrow> ('a \<Rightarrow> 'b vec_run) \<Rightarrow> 'b vec_run" where
  "vec_then x f = (case x of Gives a \<Rightarrow> f a | Fatal_error \<Rightarrow> Fatal_error | Misuse \<Rightarrow> Misuse)"

text \<open>
  What a vector knows of its item type (\<open>mItemSize\<close>, \<open>mFlags\<close>), what its default constructor leaves at a position,
  and which allocations succeed.
\<close>

record 'a vec_env =
  mItemSize :: nat
  trivial_copy :: bool
  trivial_dtor :: bool
  fresh_item :: "nat \<Rightarrow> 'a"
  ve_room :: "nat \<Rightarrow> bool"

record 'a shared_buffer =
  mRefs :: int
  mSize :: nat
  sb_slots :: "'a option list"

record 'a buffers =
  bufs :: "nat \<Rightarrow> 'a shared_buffer option"
  next_buf :: nat

record vector_impl =
  mStorage :: "nat option"
  mCount :: nat

definition no_buffers :: "'a buffers" where
  "no_buffers = \<lparr>bufs = Map.empty, next_buf = 0\<rparr>"

definition header_size :: nat where "header_size = 24"

definition oversize :: "nat \<Rightarrow> bool" where
  "oversize bytes \<longleftrightarrow> bytes \<ge> SIZE_MAX - header_size"

definition slots_of :: "'a vec_env \<Rightarrow> nat \<Rightarrow> nat" where
  "slots_of env bytes = bytes div mItemSize env"

definition sb_alloc :: "'a vec_env \<Rightarrow> nat \<Rightarrow> 'a buffers \<Rightarrow> (nat option \<times> 'a buffers) vec_run" where
  "sb_alloc env bytes h =
     (if oversize bytes then Fatal_error
      else
        (let b = next_buf h; h1 = h\<lparr>next_buf := Suc b\<rparr>
         in Gives (if ve_room env b
                   then (Some b, h1\<lparr>bufs := (bufs h)(b \<mapsto> \<lparr>mRefs = 1, mSize = bytes, sb_slots = replicate (slots_of env bytes) None\<rparr>)\<rparr>)
                   else (None, h1))))"

definition at_buffer :: "nat \<Rightarrow> 'a buffers \<Rightarrow> 'a shared_buffer vec_run" where
  "at_buffer b h = (case bufs h b of None \<Rightarrow> Misuse | Some sb \<Rightarrow> Gives sb)"

definition set_buffer :: "nat \<Rightarrow> 'a shared_buffer option \<Rightarrow> 'a buffers \<Rightarrow> 'a buffers" where
  "set_buffer b x h = h\<lparr>bufs := (bufs h)(b := x)\<rparr>"

text \<open>Storage given back while it holds items that need their destructor is an error.\<close>

definition sb_dealloc :: "'a vec_env \<Rightarrow> nat \<Rightarrow> 'a shared_buffer \<Rightarrow> 'a buffers \<Rightarrow> 'a buffers vec_run" where
  "sb_dealloc env b sb h =
     (if trivial_dtor env \<or> list_all (\<lambda>x. x = None) (sb_slots sb) then Gives (set_buffer b None h) else Misuse)"

definition onlyOwner :: "'a shared_buffer \<Rightarrow> bool" where
  "onlyOwner sb \<longleftrightarrow> mRefs sb = 1"

definition sb_acquire :: "nat \<Rightarrow> 'a buffers \<Rightarrow> 'a buffers vec_run" where
  "sb_acquire b h = vec_then (at_buffer b h) (\<lambda>sb. Gives (set_buffer b (Some (sb\<lparr>mRefs := mRefs sb + 1\<rparr>)) h))"

definition sb_release :: "'a vec_env \<Rightarrow> nat \<Rightarrow> 'a buffers \<Rightarrow> 'a buffers vec_run" where
  "sb_release env b h =
     vec_then (at_buffer b h) (\<lambda>sb.
       if onlyOwner sb then sb_dealloc env b sb h else Gives (set_buffer b (Some (sb\<lparr>mRefs := mRefs sb - 1\<rparr>)) h))"

definition resized :: "nat \<Rightarrow> 'a option list \<Rightarrow> 'a option list" where
  "resized n slots = take n slots @ replicate (n - length slots) None"

definition moved_to :: "'a vec_env \<Rightarrow> nat \<Rightarrow> 'a shared_buffer \<Rightarrow> 'a shared_buffer" where
  "moved_to env bytes sb = sb\<lparr>mRefs := 1, mSize := bytes, sb_slots := resized (slots_of env bytes) (sb_slots sb)\<rparr>"

text \<open>
  \<open>editResize\<close> changes the size of a buffer in place (\<open>realloc\<close> may move the block); when that fails, or others share
  the buffer, a new one is made.
\<close>

definition resize_anew :: "'a vec_env \<Rightarrow> nat \<Rightarrow> nat \<Rightarrow> 'a shared_buffer \<Rightarrow> 'a buffers \<Rightarrow> (nat option \<times> 'a buffers) vec_run" where
  "resize_anew env b bytes sb h = vec_then (sb_alloc env bytes h) (\<lambda>(found, h1). case found of
       None \<Rightarrow> Gives (None, h1)
     | Some b1 \<Rightarrow> vec_then (sb_release env b (set_buffer b1 (Some (moved_to env bytes sb)) h1)) (\<lambda>h2. Gives (Some b1, h2)))"

definition sb_editResize :: "'a vec_env \<Rightarrow> nat \<Rightarrow> nat \<Rightarrow> 'a buffers \<Rightarrow> (nat option \<times> 'a buffers) vec_run" where
  "sb_editResize env b newSize h =
     vec_then (at_buffer b h) (\<lambda>sb.
       (let h1 = h\<lparr>next_buf := Suc (next_buf h)\<rparr>
        in if onlyOwner sb then
             (if mSize sb = newSize then Gives (Some b, h)
              else if oversize newSize then Fatal_error
              else if ve_room env (next_buf h)
              then Gives (Some (next_buf h), set_buffer (next_buf h) (Some (moved_to env newSize sb)) (set_buffer b None h1))
              else resize_anew env b newSize sb h1)
           else resize_anew env b newSize sb h))"


subsection \<open>Items in slots\<close>

definition read_items :: "nat \<Rightarrow> nat \<Rightarrow> 'a option list \<Rightarrow> 'a list vec_run" where
  "read_items i n slots =
     (let part = take n (drop i slots)
      in if i + n \<le> length slots \<and> list_all (\<lambda>x. x \<noteq> None) part then Gives (map the part) else Misuse)"

definition place_items :: "'a vec_env \<Rightarrow> nat \<Rightarrow> 'a list \<Rightarrow> 'a option list \<Rightarrow> 'a option list vec_run" where
  "place_items env i xs slots =
     (if i + length xs \<le> length slots \<and> (trivial_dtor env \<or> list_all (\<lambda>x. x = None) (take (length xs) (drop i slots)))
      then Gives (take i slots @ map Some xs @ drop (i + length xs) slots) else Misuse)"

definition blank :: "nat \<Rightarrow> nat \<Rightarrow> 'a option list \<Rightarrow> 'a option list" where
  "blank i n slots = take i slots @ replicate n None @ drop (i + n) slots"

definition destroy_items :: "'a vec_env \<Rightarrow> nat \<Rightarrow> nat \<Rightarrow> 'a option list \<Rightarrow> 'a option list vec_run" where
  "destroy_items env i n slots =
     (if trivial_dtor env then Gives slots
      else vec_then (read_items i n slots) (\<lambda>_. Gives (blank i n slots)))"

text \<open>\<open>move_forward_type\<close> and \<open>move_backward_type\<close>: the places the items leave are raw.\<close>

definition move_items :: "'a vec_env \<Rightarrow> nat \<Rightarrow> nat \<Rightarrow> nat \<Rightarrow> 'a option list \<Rightarrow> 'a option list vec_run" where
  "move_items env dst src n slots =
     vec_then (read_items src n slots) (\<lambda>xs. place_items env dst xs (blank src n slots))"

definition update_slots :: "('a option list \<Rightarrow> 'a option list vec_run) \<Rightarrow> nat \<Rightarrow> 'a buffers \<Rightarrow> 'a buffers vec_run" where
  "update_slots f b h =
     vec_then (at_buffer b h) (\<lambda>sb. vec_then (f (sb_slots sb)) (\<lambda>slots.
       Gives (set_buffer b (Some (sb\<lparr>sb_slots := slots\<rparr>)) h)))"


subsection \<open>Vectors\<close>

definition kMinVectorCapacity :: nat where "kMinVectorCapacity = 4"

definition new_vector :: vector_impl where
  "new_vector = \<lparr>mStorage = None, mCount = 0\<rparr>"

text \<open>The storage of a vector, and how many items fit into it.\<close>

definition storage_of :: "vector_impl \<Rightarrow> 'a buffers \<Rightarrow> 'a shared_buffer option vec_run" where
  "storage_of v h =
     (case mStorage v of None \<Rightarrow> Gives None | Some b \<Rightarrow> vec_then (at_buffer b h) (\<lambda>sb. Gives (Some sb)))"

definition capacity :: "'a vec_env \<Rightarrow> 'a shared_buffer option \<Rightarrow> nat" where
  "capacity env st = (case st of None \<Rightarrow> 0 | Some sb \<Rightarrow> slots_of env (mSize sb))"

definition release_storage :: "'a vec_env \<Rightarrow> vector_impl \<Rightarrow> 'a buffers \<Rightarrow> 'a buffers vec_run" where
  "release_storage env v h =
     (case mStorage v of
        None \<Rightarrow> Gives h
      | Some b \<Rightarrow>
          vec_then (at_buffer b h) (\<lambda>sb.
            if onlyOwner sb then
              vec_then (destroy_items env 0 (mCount v) (sb_slots sb)) (\<lambda>slots. sb_dealloc env b (sb\<lparr>sb_slots := slots\<rparr>) h)
            else Gives (set_buffer b (Some (sb\<lparr>mRefs := mRefs sb - 1\<rparr>)) h)))"

text \<open>\<open>VectorImpl (const VectorImpl&)\<close>, \<open>operator =\<close> (of another vector of the same item type) and \<open>finish_vector\<close>.\<close>

definition vector_copy :: "vector_impl \<Rightarrow> 'a buffers \<Rightarrow> (vector_impl \<times> 'a buffers) vec_run" where
  "vector_copy rhs h =
     (case mStorage rhs of
        None \<Rightarrow> Gives (rhs, h)
      | Some b \<Rightarrow> vec_then (sb_acquire b h) (\<lambda>h1. Gives (rhs, h1)))"

definition vector_assign :: "'a vec_env \<Rightarrow> vector_impl \<Rightarrow> vector_impl \<Rightarrow> 'a buffers \<Rightarrow> (vector_impl \<times> 'a buffers) vec_run" where
  "vector_assign env rhs v h =
     vec_then (release_storage env v h) (\<lambda>h1.
       if mCount rhs > 0 then vector_copy rhs h1 else Gives (new_vector, h1))"

definition finish_vector :: "'a vec_env \<Rightarrow> vector_impl \<Rightarrow> 'a buffers \<Rightarrow> (vector_impl \<times> 'a buffers) vec_run" where
  "finish_vector env v h = vec_then (release_storage env v h) (\<lambda>h1. Gives (new_vector, h1))"

text \<open>A copy of the first \<open>n\<close> items of the vector's storage goes to the slots of another buffer.\<close>

definition copy_items :: "'a vec_env \<Rightarrow> vector_impl \<Rightarrow> nat \<Rightarrow> nat \<Rightarrow> nat \<Rightarrow> nat \<Rightarrow> 'a buffers \<Rightarrow> 'a buffers vec_run" where
  "copy_items env v src n b dst h =
     (if n = 0 then Gives h
      else
        (case mStorage v of
           None \<Rightarrow> Misuse
         | Some b0 \<Rightarrow>
             vec_then (at_buffer b0 h) (\<lambda>sb0. vec_then (read_items src n (sb_slots sb0)) (\<lambda>xs.
               update_slots (place_items env dst xs) b h))))"

text \<open>
  A vector's items move to new storage: \<open>p\<close> items from the front, and \<open>m\<close> items from \<open>q\<close> on, which go to \<open>r\<close>. Then the
  old storage is released.
\<close>

definition move_anew :: "'a vec_env \<Rightarrow> nat \<Rightarrow> nat \<Rightarrow> nat \<Rightarrow> nat \<Rightarrow> nat \<Rightarrow> vector_impl \<Rightarrow> 'a buffers \<Rightarrow> (nat option \<times> 'a buffers) vec_run" where
  "move_anew env bytes p q m r v h =
     vec_then (sb_alloc env bytes h) (\<lambda>(found, h1). case found of
         None \<Rightarrow> Gives (None, h1)
       | Some b1 \<Rightarrow>
           vec_then (copy_items env v 0 p b1 0 h1) (\<lambda>h2.
           vec_then (copy_items env v q m b1 r h2) (\<lambda>h3.
           vec_then (release_storage env v h3) (\<lambda>h4. Gives (Some b1, h4)))))"

definition editArrayImpl :: "'a vec_env \<Rightarrow> vector_impl \<Rightarrow> 'a buffers \<Rightarrow> (vector_impl \<times> 'a buffers) vec_run" where
  "editArrayImpl env v h =
     (case mStorage v of
        None \<Rightarrow> Gives (v, h)
      | Some b \<Rightarrow>
          vec_then (at_buffer b h) (\<lambda>sb.
            if onlyOwner sb then Gives (v, h)
            else
              vec_then (move_anew env (mSize sb) (mCount v) (mCount v) 0 (mCount v) v h) (\<lambda>(editable, h1). case editable of
                  None \<Rightarrow> Fatal_error
                | Some b1 \<Rightarrow> Gives (v\<lparr>mStorage := Some b1\<rparr>, h1))))"

text \<open>The new capacity, unless a computation overflows.\<close>

definition grown_size :: "'a vec_env \<Rightarrow> nat \<Rightarrow> nat vec_run" where
  "grown_size env new_size =
     (let half = new_size + new_size div 2; new_capacity = max kMinVectorCapacity (half + 1)
      in if half > SIZE_MAX \<or> half + 1 > SIZE_MAX \<or> new_capacity * mItemSize env > SIZE_MAX then Fatal_error
         else Gives (new_capacity * mItemSize env))"

text \<open>\<open>_grow\<close> tells whether it returned a location.\<close>

definition grow_storage :: "'a vec_env \<Rightarrow> nat \<Rightarrow> nat \<Rightarrow> vector_impl \<Rightarrow> 'a buffers \<Rightarrow> (bool \<times> vector_impl \<times> 'a buffers) vec_run" where
  "grow_storage env pos amount v h =
     vec_then (grown_size env (mCount v + amount)) (\<lambda>new_alloc_size.
     vec_then (if mStorage v \<noteq> None \<and> mCount v = pos \<and> trivial_copy env \<and> trivial_dtor env
               then sb_editResize env (the (mStorage v)) new_alloc_size h
               else move_anew env new_alloc_size pos pos (mCount v - pos) (pos + amount) v h) (\<lambda>(found, h1). case found of
         None \<Rightarrow> Gives (False, v, h1)
       | Some b1 \<Rightarrow> Gives (True, v\<lparr>mStorage := Some b1\<rparr>, h1)))"

definition grow_in_place :: "'a vec_env \<Rightarrow> nat \<Rightarrow> nat \<Rightarrow> vector_impl \<Rightarrow> 'a buffers \<Rightarrow> (bool \<times> vector_impl \<times> 'a buffers) vec_run" where
  "grow_in_place env pos amount v h =
     vec_then (editArrayImpl env v h) (\<lambda>(v1, h1).
     vec_then (if pos \<noteq> mCount v
               then update_slots (move_items env (pos + amount) pos (mCount v - pos)) (the (mStorage v1)) h1
               else Gives h1) (\<lambda>h2. Gives (True, v1, h2)))"

definition vector_grow :: "'a vec_env \<Rightarrow> nat \<Rightarrow> nat \<Rightarrow> vector_impl \<Rightarrow> 'a buffers \<Rightarrow> (bool \<times> vector_impl \<times> 'a buffers) vec_run" where
  "vector_grow env pos amount v h =
     (let new_size = mCount v + amount
      in if new_size > SIZE_MAX then Fatal_error
         else
           vec_then (storage_of v h) (\<lambda>st.
           vec_then (if capacity env st < new_size then grow_storage env pos amount v h else grow_in_place env pos amount v h)
             (\<lambda>(grown, v2, h2).
                if \<not> grown then Gives (False, v2, h2)
                else
                  vec_then (storage_of v2 h2) (\<lambda>st2.
                    Gives (pos < capacity env st2, v2\<lparr>mCount := new_size\<rparr>, h2)))))"

definition vector_shrink :: "'a vec_env \<Rightarrow> nat \<Rightarrow> nat \<Rightarrow> vector_impl \<Rightarrow> 'a buffers \<Rightarrow> (vector_impl \<times> 'a buffers) vec_run" where
  "vector_shrink env pos amount v h =
     vec_then (storage_of v h) (\<lambda>st. case st of
         None \<Rightarrow> Gives (v, h)
       | Some sb \<Rightarrow>
           if amount > mCount v then Fatal_error
           else
             (let new_size = mCount v - amount; new_capacity = max kMinVectorCapacity (new_size * 2)
              in if new_size < capacity env st div 2 then
                   vec_then (if pos = new_size \<and> trivial_copy env \<and> trivial_dtor env
                             then sb_editResize env (the (mStorage v)) (new_capacity * mItemSize env) h
                             else move_anew env (new_capacity * mItemSize env) pos (pos + amount) (new_size - pos) pos v h)
                     (\<lambda>(found, h1). case found of
                        None \<Rightarrow> Gives (v, h1)
                      | Some b1 \<Rightarrow> Gives (\<lparr>mStorage = Some b1, mCount = new_size\<rparr>, h1))
                 else
                   vec_then (editArrayImpl env v h) (\<lambda>(v1, h1).
                   vec_then (update_slots (destroy_items env pos amount) (the (mStorage v1)) h1) (\<lambda>h2.
                   vec_then (if pos \<noteq> new_size
                             then update_slots (move_items env pos (pos + amount) (new_size - pos)) (the (mStorage v1)) h2
                             else Gives h2) (\<lambda>h3.
                   Gives (v1\<lparr>mCount := new_size\<rparr>, h3))))))"


subsection \<open>Operations\<close>

text \<open>The result of an insertion: the items go where \<open>_grow\<close> made room.\<close>

definition fill_hole :: "'a vec_env \<Rightarrow> nat \<Rightarrow> ('a buffers \<Rightarrow> 'a list vec_run) \<Rightarrow> bool \<times> vector_impl \<times> 'a buffers \<Rightarrow> (int \<times> vector_impl \<times> 'a buffers) vec_run" where
  "fill_hole env pos items grown = (case grown of (there, v, h) \<Rightarrow>
     if \<not> there then Gives (NO_MEMORY, v, h)
     else vec_then (items h) (\<lambda>xs. vec_then (update_slots (place_items env pos xs) (the (mStorage v)) h)
            (\<lambda>h1. Gives (int pos, v, h1))))"

text \<open>\<open>None\<close> inserts default items.\<close>

definition vector_insertAt :: "'a vec_env \<Rightarrow> 'a option \<Rightarrow> nat \<Rightarrow> nat \<Rightarrow> vector_impl \<Rightarrow> 'a buffers \<Rightarrow> (int \<times> vector_impl \<times> 'a buffers) vec_run" where
  "vector_insertAt env item index numItems v h =
     (if index > mCount v then Gives (BAD_INDEX, v, h)
      else
        vec_then (vector_grow env index numItems v h)
          (fill_hole env index (\<lambda>_. Gives (case item of
              Some x \<Rightarrow> replicate numItems x
            | None \<Rightarrow> map (fresh_item env) [index..<index + numItems]))))"

text \<open>The items of an array are read once there is room for them; the array is the storage of a vector.\<close>

definition vector_insertVectorAt :: "'a vec_env \<Rightarrow> vector_impl \<Rightarrow> nat \<Rightarrow> vector_impl \<Rightarrow> 'a buffers \<Rightarrow> (int \<times> vector_impl \<times> 'a buffers) vec_run" where
  "vector_insertVectorAt env vector index v h =
     (if index > mCount v then Gives (BAD_INDEX, v, h)
      else
        vec_then (vector_grow env index (mCount vector) v h)
          (fill_hole env index (\<lambda>h1. if mCount vector = 0 then Gives [] else
             (case mStorage vector of
                None \<Rightarrow> Misuse
              | Some b \<Rightarrow> vec_then (at_buffer b h1) (\<lambda>sb. read_items 0 (mCount vector) (sb_slots sb))))))"

definition vector_appendVector :: "'a vec_env \<Rightarrow> vector_impl \<Rightarrow> vector_impl \<Rightarrow> 'a buffers \<Rightarrow> (int \<times> vector_impl \<times> 'a buffers) vec_run" where
  "vector_appendVector env vector v h = vector_insertVectorAt env vector (mCount v) v h"

definition vector_add :: "'a vec_env \<Rightarrow> 'a option \<Rightarrow> vector_impl \<Rightarrow> 'a buffers \<Rightarrow> (int \<times> vector_impl \<times> 'a buffers) vec_run" where
  "vector_add env item v h = vector_insertAt env item (mCount v) 1 v h"

text \<open>\<open>replaceAt\<close> with an item.\<close>

definition vector_replaceAt :: "'a vec_env \<Rightarrow> 'a \<Rightarrow> nat \<Rightarrow> vector_impl \<Rightarrow> 'a buffers \<Rightarrow> (int \<times> vector_impl \<times> 'a buffers) vec_run" where
  "vector_replaceAt env item index v h =
     (if index \<ge> mCount v then Gives (BAD_INDEX, v, h)
      else
        vec_then (editArrayImpl env v h) (\<lambda>(v1, h1). case mStorage v1 of
            None \<Rightarrow> Gives (NO_MEMORY, v1, h1)
          | Some b \<Rightarrow>
              vec_then (update_slots (destroy_items env index 1) b h1) (\<lambda>h2.
              vec_then (update_slots (place_items env index [item]) b h2) (\<lambda>h3.
              Gives (int index, v1, h3)))))"

text \<open>The sum of \<open>index\<close> and \<open>count\<close> wraps around.\<close>

definition vector_removeItemsAt :: "'a vec_env \<Rightarrow> nat \<Rightarrow> nat \<Rightarrow> vector_impl \<Rightarrow> 'a buffers \<Rightarrow> (int \<times> vector_impl \<times> 'a buffers) vec_run" where
  "vector_removeItemsAt env index n v h =
     (if (index + n) mod 2 ^ 64 > mCount v then Gives (BAD_VALUE, v, h)
      else vec_then (vector_shrink env index n v h) (\<lambda>(v1, h1). Gives (int index, v1, h1)))"

definition vector_pop :: "'a vec_env \<Rightarrow> vector_impl \<Rightarrow> 'a buffers \<Rightarrow> (int \<times> vector_impl \<times> 'a buffers) vec_run" where
  "vector_pop env v h =
     (if mCount v > 0 then vector_removeItemsAt env (mCount v - 1) 1 v h else Gives (OK, v, h))"

definition vector_clear :: "'a vec_env \<Rightarrow> vector_impl \<Rightarrow> 'a buffers \<Rightarrow> (int \<times> vector_impl \<times> 'a buffers) vec_run" where
  "vector_clear env v h = vec_then (vector_shrink env 0 (mCount v) v h) (\<lambda>(v1, h1). Gives (OK, v1, h1))"

definition vector_setCapacity :: "'a vec_env \<Rightarrow> nat \<Rightarrow> vector_impl \<Rightarrow> 'a buffers \<Rightarrow> (int \<times> vector_impl \<times> 'a buffers) vec_run" where
  "vector_setCapacity env new_capacity v h =
     vec_then (storage_of v h) (\<lambda>st.
       if new_capacity \<le> mCount v then Gives (int (capacity env st), v, h)
       else if new_capacity * mItemSize env > SIZE_MAX then Fatal_error
       else
         vec_then (move_anew env (new_capacity * mItemSize env) (mCount v) (mCount v) 0 (mCount v) v h) (\<lambda>(found, h1). case found of
             None \<Rightarrow> Gives (NO_MEMORY, v, h1)
           | Some b1 \<Rightarrow> Gives (int new_capacity, v\<lparr>mStorage := Some b1\<rparr>, h1)))"

definition vector_resize :: "'a vec_env \<Rightarrow> nat \<Rightarrow> vector_impl \<Rightarrow> 'a buffers \<Rightarrow> (int \<times> vector_impl \<times> 'a buffers) vec_run" where
  "vector_resize env n v h =
     vec_then (if n > mCount v then vector_insertAt env None (mCount v) (n - mCount v) v h
               else if n < mCount v then vector_removeItemsAt env n (mCount v - n) v h
               else Gives (OK, v, h)) (\<lambda>(result, v1, h1). Gives (if result < 0 then result else int n, v1, h1))"

text \<open>
  \<open>sort\<close>: a stable insertion sort. \<open>sift_items\<close> is its inner loop, in which an item is destroyed and the copy of
  another put in its place. Storage is made editable, and room for one item found, at the first pair out of order.
\<close>

fun sift_items :: "('a \<Rightarrow> 'a \<Rightarrow> int) \<Rightarrow> 'a \<Rightarrow> 'a list \<Rightarrow> nat \<Rightarrow> 'a list" where
  "sift_items cmp temp xs 0 = xs[0 := temp]"
| "sift_items cmp temp xs (Suc j) =
     (if cmp (xs ! j) temp > 0 then sift_items cmp temp (xs[Suc j := xs ! j]) j else xs[Suc j := temp])"

function sort_items :: "('a \<Rightarrow> 'a \<Rightarrow> int) \<Rightarrow> nat \<Rightarrow> 'a list \<Rightarrow> 'a list" where
  "sort_items cmp i xs =
     (if i < length xs then
        sort_items cmp (Suc i) (if cmp (xs ! (i - 1)) (xs ! i) > 0 then sift_items cmp (xs ! i) xs i else xs)
      else xs)"
  by pat_completeness auto

lemma length_sift_items [simp]: "length (sift_items cmp temp xs j) = length xs"
  by (induction cmp temp xs j rule: sift_items.induct) auto

termination sort_items
  by (relation "measure (\<lambda>(cmp, i, xs). length xs - i)") auto

declare sort_items.simps [simp del]

definition pairs_in_order :: "('a \<Rightarrow> 'a \<Rightarrow> int) \<Rightarrow> 'a list \<Rightarrow> bool" where
  "pairs_in_order cmp xs \<longleftrightarrow> list_all (\<lambda>i. cmp (xs ! (i - 1)) (xs ! i) \<le> 0) [1..<length xs]"

definition vector_sort :: "'a vec_env \<Rightarrow> ('a \<Rightarrow> 'a \<Rightarrow> int) \<Rightarrow> vector_impl \<Rightarrow> 'a buffers \<Rightarrow> (int \<times> vector_impl \<times> 'a buffers) vec_run" where
  "vector_sort env cmp v h =
     (if mCount v \<le> 1 then Gives (OK, v, h)
      else
        vec_then (storage_of v h) (\<lambda>st. case st of
            None \<Rightarrow> Misuse
          | Some sb \<Rightarrow>
              vec_then (read_items 0 (mCount v) (sb_slots sb)) (\<lambda>xs.
                if pairs_in_order cmp xs then Gives (OK, v, h)
                else
                  vec_then (editArrayImpl env v h) (\<lambda>(v1, h1).
                    let h2 = h1\<lparr>next_buf := Suc (next_buf h1)\<rparr>
                    in if ve_room env (next_buf h1) then
                         vec_then (update_slots (\<lambda>slots. Gives (map Some (sort_items cmp 1 xs) @ drop (mCount v) slots))
                                     (the (mStorage v1)) h2) (\<lambda>h3. Gives (OK, v1, h3))
                       else Gives (NO_MEMORY, v1, h2)))))"

end
