(* ===== verification/Vector_Storage.thy ===== *)
theory Vector_Storage
  imports Shared_Vector
begin

text \<open>
  The storage of vectors is sound (\<open>SharedBuffer.cpp\<close>, \<open>VectorImpl.cpp\<close>): every buffer is counted exactly, holds
  the items of all vectors that share it and nothing else, and a vector that makes a buffer its own does so without
  touching the items of any other.
\<close>


subsection \<open>Items and slots\<close>

definition filled :: "'a vec_env \<Rightarrow> 'a list \<Rightarrow> 'a option list \<Rightarrow> bool" where
  "filled env xs slots \<longleftrightarrow>
     (\<exists>rest. slots = map Some xs @ rest \<and> (trivial_dtor env \<or> list_all (\<lambda>x. x = None) rest))"

lemma vec_then_simps [simp]:
  "vec_then (Gives a) f = f a" "vec_then Fatal_error f = Fatal_error" "vec_then Misuse f = Misuse"
  by (simp_all add: vec_then_def)

lemma all_None_replicate: "list_all (\<lambda>x. x = None) xs \<longleftrightarrow> xs = replicate (length xs) None"
  by (induction xs) auto

lemma all_None_simps [simp]:
  "list_all (\<lambda>x. x = None) (replicate n None)"
  "list_all (\<lambda>x. x = None) (map Some xs) \<longleftrightarrow> xs = []"
  by (simp_all add: list_all_iff)

lemma all_None_sub [simp]:
  "list_all (\<lambda>x. x = None) xs \<Longrightarrow> list_all (\<lambda>x. x = None) (take n xs)"
  "list_all (\<lambda>x. x = None) xs \<Longrightarrow> list_all (\<lambda>x. x = None) (drop n xs)"
  by (auto simp: list_all_iff dest: in_set_takeD in_set_dropD)

lemma read_items_map [simp]:
  "i + n \<le> length xs \<Longrightarrow> read_items i n (map Some xs @ rest) = Gives (take n (drop i xs))"
  by (simp add: read_items_def drop_map take_map list_all_iff comp_def)

lemma filled_read: "filled env xs slots \<Longrightarrow> i + n \<le> length xs \<Longrightarrow> read_items i n slots = Gives (take n (drop i xs))"
  by (auto simp: filled_def)

lemma filled_the: "filled env xs slots \<Longrightarrow> map the (take (length xs) slots) = xs"
  by (auto simp: filled_def comp_def)

lemma filled_length: "filled env xs slots \<Longrightarrow> length xs \<le> length slots"
  by (auto simp: filled_def)

lemma place_items_at:
  assumes "length pre = i" "length old = length xs" "trivial_dtor env \<or> list_all (\<lambda>x. x = None) old"
  shows "place_items env i xs (pre @ old @ post) = Gives (pre @ map Some xs @ post)"
  using assms by (auto simp: place_items_def)

lemma blank_at: "length pre = i \<Longrightarrow> length old = n \<Longrightarrow> blank i n (pre @ old @ post) = pre @ replicate n None @ post"
  by (simp add: blank_def)

lemma destroy_items_at:
  assumes "length pre = i"
  shows "\<exists>old. destroy_items env i (length xs) (pre @ map Some xs @ post) = Gives (pre @ old @ post) \<and>
    length old = length xs \<and> (trivial_dtor env \<or> list_all (\<lambda>x. x = None) old)"
proof (cases "trivial_dtor env")
  case False
  have "read_items i (length xs) (pre @ map Some xs @ post) = Gives xs"
    using assms by (auto simp: read_items_def list_all_iff comp_def)
  with False assms show ?thesis by (auto simp: destroy_items_def blank_def intro!: exI [of _ "replicate (length xs) None"])
qed (auto simp: destroy_items_def)


subsection \<open>What storage holds\<close>

definition owners :: "vector_impl multiset \<Rightarrow> nat \<Rightarrow> nat" where
  "owners W b = size (filter_mset (\<lambda>v. mStorage v = Some b) W)"

definition sized :: "'a vec_env \<Rightarrow> 'a shared_buffer \<Rightarrow> bool" where
  "sized env sb \<longleftrightarrow> length (sb_slots sb) = slots_of env (mSize sb) \<and> \<not> oversize (mSize sb)"

definition buffer_ok :: "'a vec_env \<Rightarrow> vector_impl multiset \<Rightarrow> nat \<Rightarrow> 'a shared_buffer \<Rightarrow> bool" where
  "buffer_ok env W b sb \<longleftrightarrow> mRefs sb = int (owners W b) \<and> owners W b > 0 \<and> sized env sb \<and>
     (\<exists>xs. filled env xs (sb_slots sb) \<and> (\<forall>v. v \<in># W \<longrightarrow> mStorage v = Some b \<longrightarrow> mCount v = length xs))"

definition heap_sound :: "'a vec_env \<Rightarrow> vector_impl multiset \<Rightarrow> 'a buffers \<Rightarrow> bool" where
  "heap_sound env W h \<longleftrightarrow>
     (\<forall>b sb. bufs h b = Some sb \<longrightarrow> b < next_buf h \<and> buffer_ok env W b sb) \<and>
     (\<forall>v b. v \<in># W \<longrightarrow> mStorage v = Some b \<longrightarrow> bufs h b \<noteq> None) \<and>
     (\<forall>v. v \<in># W \<longrightarrow> mStorage v = None \<longrightarrow> mCount v = 0)"

definition items :: "vector_impl \<Rightarrow> 'a buffers \<Rightarrow> 'a list" where
  "items v h = (case mStorage v of None \<Rightarrow> [] | Some b \<Rightarrow> map the (take (mCount v) (sb_slots (the (bufs h b)))))"

definition same_items :: "vector_impl multiset \<Rightarrow> 'a buffers \<Rightarrow> 'a buffers \<Rightarrow> bool" where
  "same_items W h h' \<longleftrightarrow> (\<forall>w. w \<in># W \<longrightarrow> items w h' = items w h)"

text \<open>A buffer that belongs to one vector, apart from what the others hold.\<close>

definition own_buffer :: "'a vec_env \<Rightarrow> vector_impl multiset \<Rightarrow> 'a buffers \<Rightarrow> nat \<Rightarrow> 'a shared_buffer \<Rightarrow> bool" where
  "own_buffer env W h b sb \<longleftrightarrow> heap_sound env W (set_buffer b None h) \<and> bufs h b = Some sb \<and> b < next_buf h \<and>
     mRefs sb = 1 \<and> sized env sb"

lemma owners_simps [simp]:
  "owners {#} b = 0"
  "owners (add_mset v W) b = (if mStorage v = Some b then Suc (owners W b) else owners W b)"
  by (simp_all add: owners_def)

lemma sized_refs [simp]: "sized env (sb\<lparr>mRefs := n\<rparr>) = sized env sb"
  by (simp add: sized_def)

lemma owners_0: "owners W b = 0 \<longleftrightarrow> (\<forall>v. v \<in># W \<longrightarrow> mStorage v \<noteq> Some b)"
  by (auto simp: owners_def)

lemma set_buffer_simps [simp]:
  "bufs (set_buffer b x h) = (bufs h)(b := x)" "next_buf (set_buffer b x h) = next_buf h"
  "set_buffer b x (set_buffer b y h) = set_buffer b x h"
  by (simp_all add: set_buffer_def)

lemma items_set [simp]: "mStorage v \<noteq> Some b \<Longrightarrow> items v (set_buffer b x h) = items v h"
  by (auto simp: items_def split: option.splits)

lemma items_next [simp]: "items v (h\<lparr>next_buf := n\<rparr>) = items v h"
  by (auto simp: items_def split: option.splits)

lemma same_items_refl [simp]: "same_items W h h"
  by (simp add: same_items_def)

lemma same_items_trans: "same_items W h h1 \<Longrightarrow> same_items W h1 h2 \<Longrightarrow> same_items W h h2"
  by (simp add: same_items_def)

lemma heap_soundI:
  assumes "\<And>b sb. bufs h b = Some sb \<Longrightarrow> b < next_buf h" "\<And>b sb. bufs h b = Some sb \<Longrightarrow> buffer_ok env W b sb"
    "\<And>v b. v \<in># W \<Longrightarrow> mStorage v = Some b \<Longrightarrow> \<exists>sb. bufs h b = Some sb" "\<And>v. v \<in># W \<Longrightarrow> mStorage v = None \<Longrightarrow> mCount v = 0"
  shows "heap_sound env W h"
  using assms by (auto simp: heap_sound_def)

lemma sound_buffer: "heap_sound env W h \<Longrightarrow> bufs h b = Some sb \<Longrightarrow> b < next_buf h \<and> buffer_ok env W b sb"
  by (simp add: heap_sound_def)

lemma sound_vector: "heap_sound env W h \<Longrightarrow> v \<in># W \<Longrightarrow> mStorage v = Some b \<Longrightarrow> \<exists>sb. bufs h b = Some sb"
  by (auto simp: heap_sound_def)

lemma sound_empty: "heap_sound env W h \<Longrightarrow> v \<in># W \<Longrightarrow> mStorage v = None \<Longrightarrow> mCount v = 0"
  by (simp add: heap_sound_def)

lemma buffer_ok_other [simp]: "mStorage v \<noteq> Some b \<Longrightarrow> buffer_ok env (add_mset v W) b sb = buffer_ok env W b sb"
  by (auto simp: buffer_ok_def)

lemma heap_sound_later: "heap_sound env W h \<Longrightarrow> next_buf h \<le> n \<Longrightarrow> heap_sound env W (h\<lparr>next_buf := n\<rparr>)"
  by (fastforce simp: heap_sound_def)

lemma heap_sound_next: "heap_sound env W h \<Longrightarrow> heap_sound env W (h\<lparr>next_buf := Suc (next_buf h)\<rparr>)"
  by (simp add: heap_sound_later)

lemma not_owned: "heap_sound env W (set_buffer b None h) \<Longrightarrow> v \<in># W \<Longrightarrow> mStorage v \<noteq> Some b"
  by (auto dest: sound_vector)

lemma no_owners: "heap_sound env W (set_buffer b None h) \<Longrightarrow> owners W b = 0"
  using not_owned owners_0 by blast

lemma own_same: "heap_sound env W (set_buffer b None h) \<Longrightarrow> same_items W h (set_buffer b x h)"
  by (auto simp: same_items_def dest: not_owned)

lemma unset_next: "set_buffer b x (h\<lparr>next_buf := n\<rparr>) = (set_buffer b x h)\<lparr>next_buf := n\<rparr>"
  by (cases h) (simp add: set_buffer_def)

lemma own_next:
  assumes "own_buffer env W h b sb"
  shows "own_buffer env W (h\<lparr>next_buf := Suc (next_buf h)\<rparr>) b sb"
  unfolding own_buffer_def unset_next
  using assms heap_sound_next [of env W "set_buffer b None h"] by (simp add: own_buffer_def)

lemma own_buffer_set:
  "own_buffer env W h b sb \<Longrightarrow> mRefs sb' = 1 \<Longrightarrow> sized env sb' \<Longrightarrow>
   own_buffer env W (set_buffer b (Some sb') h) b sb'"
  by (simp add: own_buffer_def)

lemma vector_stored:
  assumes "heap_sound env (add_mset v W) h" "mStorage v = Some b"
  obtains sb where "bufs h b = Some sb" "buffer_ok env (add_mset v W) b sb" "filled env (items v h) (sb_slots sb)"
    "length (items v h) = mCount v" "storage_of v h = Gives (Some sb)" "at_buffer b h = Gives sb"
proof -
  obtain sb where sb: "bufs h b = Some sb" using sound_vector [OF assms(1) _ assms(2)] by auto
  then have ok: "buffer_ok env (add_mset v W) b sb" using sound_buffer [OF assms(1)] by blast
  then obtain xs where "filled env xs (sb_slots sb)" "mCount v = length xs" using assms(2) by (auto simp: buffer_ok_def)
  with sb ok assms(2) show ?thesis by (intro that [of sb]) (auto simp: items_def filled_the storage_of_def at_buffer_def)
qed

lemma vector_unstored:
  assumes "heap_sound env (add_mset v W) h" "mStorage v = None"
  shows "mCount v = 0" "items v h = []" "storage_of v h = Gives None" "heap_sound env W h"
proof -
  show "mCount v = 0" using sound_empty [OF assms(1) _ assms(2)] by simp
  show "heap_sound env W h" using assms by (auto simp: heap_sound_def)
qed (use assms(2) in \<open>simp_all add: items_def storage_of_def\<close>)

lemma length_items: "heap_sound env (add_mset v W) h \<Longrightarrow> length (items v h) = mCount v"
  by (cases "mStorage v") (simp add: vector_unstored, metis vector_stored)

text \<open>Giving a buffer back to a vector, and taking it out of the shared storage.\<close>

lemma join:
  assumes own: "own_buffer env W h b sb" and xs: "filled env xs (sb_slots sb)" and v: "mStorage v = Some b" "mCount v = length xs"
  shows "heap_sound env (add_mset v W) h \<and> items v h = xs"
proof -
  have W: "heap_sound env W (set_buffer b None h)" and sb: "bufs h b = Some sb" using own by (auto simp: own_buffer_def)
  have "buffer_ok env (add_mset v W) b sb"
    using own xs v no_owners [OF W] by (auto simp: buffer_ok_def own_buffer_def owners_0)
  moreover have "b' < next_buf h \<and> buffer_ok env (add_mset v W) b' sb'" if "bufs h b' = Some sb'" "b' \<noteq> b" for b' sb'
    using that v(1) sound_buffer [OF W, of b' sb'] by auto
  moreover have "b < next_buf h" using own by (simp add: own_buffer_def)
  ultimately have "heap_sound env (add_mset v W) h"
  proof (intro heap_soundI, goal_cases)
    case (3 w b')
    then show ?case using sb v(1) sound_vector [OF W, of w b'] by (cases "b' = b") auto
  next
    case (4 w)
    then show ?case using v(1) sound_empty [OF W, of w] by auto
  qed (use sb in fastforce)+
  then show ?thesis using v sb xs by (simp add: items_def filled_the)
qed

lemma split_sole:
  assumes h: "heap_sound env (add_mset v W) h" and v: "mStorage v = Some b" and sb: "bufs h b = Some sb" "mRefs sb = 1"
  shows "own_buffer env W h b sb"
proof -
  have ok: "b < next_buf h" "buffer_ok env (add_mset v W) b sb" using sound_buffer [OF h sb(1)] by auto
  then have "owners W b = 0" using v sb by (auto simp: buffer_ok_def)
  then have "heap_sound env W (set_buffer b None h)"
  proof (intro heap_soundI, goal_cases)
    case (2 b' sb')
    then show ?case using v sound_buffer [OF h, of b' sb'] by (auto split: if_splits)
  next
    case (3 w b')
    then show ?case using sound_vector [OF h, of w b'] by (auto simp: owners_0)
  qed (use sound_buffer [OF h] sound_empty [OF h] in \<open>auto split: if_splits\<close>)
  with ok sb show ?thesis by (simp add: own_buffer_def buffer_ok_def)
qed

lemma split_shared:
  assumes h: "heap_sound env (add_mset v W) h" and v: "mStorage v = Some b" and sb: "bufs h b = Some sb" "mRefs sb \<noteq> 1"
  defines "h1 \<equiv> set_buffer b (Some (sb\<lparr>mRefs := mRefs sb - 1\<rparr>)) h"
  shows "heap_sound env W h1 \<and> same_items W h h1"
proof -
  have ok: "b < next_buf h" "buffer_ok env (add_mset v W) b sb" using sound_buffer [OF h sb(1)] by auto
  then have "buffer_ok env W b (sb\<lparr>mRefs := mRefs sb - 1\<rparr>)" using v sb(2) by (auto simp: buffer_ok_def)
  moreover have "buffer_ok env W b' sb'" if "bufs h b' = Some sb'" "b' \<noteq> b" for b' sb'
    using that v sound_buffer [OF h, of b' sb'] by simp
  ultimately have "heap_sound env W h1"
  proof (intro heap_soundI, goal_cases)
    case (3 w b')
    then show ?case using sound_vector [OF h, of w b'] by (auto simp: h1_def)
  qed (use ok(1) sound_buffer [OF h] sound_empty [OF h] in \<open>auto simp: h1_def split: if_splits\<close>)
  then show ?thesis using sb(1) by (auto simp: same_items_def items_def h1_def split: option.splits)
qed


subsection \<open>Changing hands\<close>

text \<open>A vector lets go of its storage: what the others hold stays, and a new buffer beside it is not touched.\<close>

lemma release_sound:
  assumes h: "heap_sound env (add_mset v W) h"
  obtains h1 where "release_storage env v h = Gives h1" "heap_sound env W h1" "same_items W h h1" "next_buf h1 = next_buf h"
    "\<And>b x. mStorage v \<noteq> Some b \<Longrightarrow> release_storage env v (set_buffer b x h) = Gives (set_buffer b x h1)"
    "\<And>b. bufs h b = None \<Longrightarrow> bufs h1 b = None"
proof (cases "mStorage v")
  case None
  then show thesis using vector_unstored(4) [OF h None] by (intro that [of h]) (simp_all add: release_storage_def)
next
  case (Some b)
  from vector_stored [OF h Some] obtain sb where sb: "bufs h b = Some sb" "filled env (items v h) (sb_slots sb)"
    "length (items v h) = mCount v" "at_buffer b h = Gives sb" by metis
  show thesis
  proof (cases "mRefs sb = 1")
    case True
    let ?h1 = "set_buffer b None h"
    obtain rest where rest: "sb_slots sb = [] @ map Some (items v h) @ rest" "trivial_dtor env \<or> list_all (\<lambda>x. x = None) rest"
      using sb(2) by (auto simp: filled_def)
    have own: "heap_sound env W ?h1" using split_sole [OF h Some sb(1) True] by (simp add: own_buffer_def)
    obtain old where "destroy_items env 0 (mCount v) (sb_slots sb) = Gives (old @ rest)"
      "trivial_dtor env \<or> list_all (\<lambda>x. x = None) (old @ rest)"
      using destroy_items_at [of "[]" 0 env "items v h" rest] rest sb(3) by auto
    then have "mStorage v \<noteq> Some b' \<Longrightarrow> release_storage env v (set_buffer b' x h) = Gives (set_buffer b' x ?h1)"
      "release_storage env v h = Gives ?h1" for b' x
      using Some sb True
      by (auto simp: release_storage_def at_buffer_def onlyOwner_def sb_dealloc_def set_buffer_def fun_upd_twist)
    then show thesis using own own_same [OF own] by (intro that [of ?h1]) auto
  next
    case False
    let ?h1 = "set_buffer b (Some (sb\<lparr>mRefs := mRefs sb - 1\<rparr>)) h"
    have "mStorage v \<noteq> Some b' \<Longrightarrow> release_storage env v (set_buffer b' x h) = Gives (set_buffer b' x ?h1)"
      "release_storage env v h = Gives ?h1" for b' x
      using Some sb False by (auto simp: release_storage_def at_buffer_def onlyOwner_def set_buffer_def fun_upd_twist)
    then show thesis using split_shared [OF h Some sb(1) False] sb(1) by (intro that [of ?h1]) auto
  qed
qed

lemma sb_alloc_cases:
  obtains "sb_alloc env bytes h = Fatal_error" "oversize bytes"
  | "sb_alloc env bytes h = Gives (None, h\<lparr>next_buf := Suc (next_buf h)\<rparr>)" "\<not> ve_room env (next_buf h)"
  | "sb_alloc env bytes h = Gives (Some (next_buf h), set_buffer (next_buf h)
       (Some \<lparr>mRefs = 1, mSize = bytes, sb_slots = replicate (slots_of env bytes) None\<rparr>) (h\<lparr>next_buf := Suc (next_buf h)\<rparr>))" "\<not> oversize bytes"
  by (cases "oversize bytes"; cases "ve_room env (next_buf h)") (simp_all add: sb_alloc_def Let_def set_buffer_def)

text \<open>
  A vector moves to new storage: a front part of its items and a part further on are copied there, with a gap
  between them, and the old storage is released.
\<close>

lemma rehoused:
  fixes h :: "'a buffers" and v :: vector_impl
  defines "xs \<equiv> items v h" and "b1 \<equiv> next_buf h" and "h0 \<equiv> h\<lparr>next_buf := Suc (next_buf h)\<rparr>"
  assumes h: "heap_sound env (add_mset v W) h" and n: "n = slots_of env bytes" "\<not> oversize bytes"
    and p: "p \<le> length xs" "p \<le> r" and m: "q + m \<le> length xs" "r + m \<le> n"
  obtains h2 h3 h4 sb where
    "copy_items env v 0 p b1 0 (set_buffer b1 (Some \<lparr>mRefs = 1, mSize = bytes, sb_slots = replicate n None\<rparr>) h0) = Gives h2"
    "copy_items env v q m b1 r h2 = Gives h3" "release_storage env v h3 = Gives h4"
    "own_buffer env W h4 b1 sb" "mSize sb = bytes" "same_items W h h4"
    "sb_slots sb = map Some (take p xs) @ replicate (r - p) None @ map Some (take m (drop q xs)) @ replicate (n - r - m) None"
proof -
  have h0: "heap_sound env (add_mset v W) h0" unfolding h0_def by (rule heap_sound_next [OF h])
  have new: "mStorage v \<noteq> Some b1" "bufs h b1 = None"
  proof -
    show b: "bufs h b1 = None" using sound_buffer [OF h, of b1] by (cases "bufs h b1") (auto simp: b1_def)
    then show "mStorage v \<noteq> Some b1" using sound_vector [OF h, of v b1] by auto
  qed
  let ?sb = "\<lambda>slots. \<lparr>mRefs = 1, mSize = bytes, sb_slots = slots\<rparr> :: 'a shared_buffer"
  let ?s2 = "map Some (take p xs) @ replicate (n - p) None"
  let ?s3 = "map Some (take p xs) @ replicate (r - p) None @ map Some (take m (drop q xs)) @ replicate (n - r - m) None"
  have src: "k > 0 \<Longrightarrow> i + k \<le> length xs \<Longrightarrow> copy_items env v i k b1 j (set_buffer b1 (Some (?sb slots)) h0)
      = vec_then (place_items env j (take k (drop i xs)) slots) (\<lambda>slots. Gives (set_buffer b1 (Some (?sb slots)) h0))" for i j k slots
  proof -
    assume k: "k > 0" "i + k \<le> length xs"
    then obtain b where b: "mStorage v = Some b" using vector_unstored(2) [OF h] by (cases "mStorage v") (auto simp: xs_def)
    from vector_stored [OF h b] obtain sb where "bufs h b = Some sb" "filled env xs (sb_slots sb)" unfolding xs_def by metis
    then show ?thesis using k b new filled_read [of env xs "sb_slots sb" i k]
      by (auto simp: copy_items_def at_buffer_def update_slots_def h0_def)
  qed
  have front: "place_items env 0 (take p xs) (replicate n None) = Gives ?s2"
    using place_items_at [of "[]" 0 "replicate p None" "take p xs" env "replicate (n - p) None"] p m
    by (simp flip: replicate_add)
  have hind: "place_items env r (take m (drop q xs)) ?s2 = Gives ?s3"
    using place_items_at [of "map Some (take p xs) @ replicate (r - p) None" r "replicate m None" "take m (drop q xs)" env
        "replicate (n - r - m) None"] p m by (simp flip: replicate_add)
  from release_sound [OF h0] obtain h4 where h4: "heap_sound env W h4" "same_items W h0 h4" "next_buf h4 = next_buf h0"
    "\<And>b x. mStorage v \<noteq> Some b \<Longrightarrow> release_storage env v (set_buffer b x h0) = Gives (set_buffer b x h4)"
    "\<And>b. bufs h0 b = None \<Longrightarrow> bufs h4 b = None" by metis
  have b1: "bufs h4 b1 = None" using h4(5) new(2) by (simp add: h0_def)
  then have unset: "set_buffer b1 None h4 = h4" by (simp add: set_buffer_def fun_upd_idem)
  show thesis
  proof (rule that [of "set_buffer b1 (Some (?sb ?s2)) h0" "set_buffer b1 (Some (?sb ?s3)) h0" "set_buffer b1 (Some (?sb ?s3)) h4" "?sb ?s3"])
    show "copy_items env v 0 p b1 0 (set_buffer b1 (Some (?sb (replicate n None))) h0) = Gives (set_buffer b1 (Some (?sb ?s2)) h0)"
      using src [of p 0] front p by (cases "p = 0") (simp_all add: copy_items_def)
    show "copy_items env v q m b1 r (set_buffer b1 (Some (?sb ?s2)) h0) = Gives (set_buffer b1 (Some (?sb ?s3)) h0)"
    proof (cases "m = 0")
      case True
      have "replicate (n - p) (None :: 'a option) = replicate (r - p) None @ replicate (n - r) None" using p m by (simp flip: replicate_add)
      with True show ?thesis by (simp add: copy_items_def)
    qed (use src [of m q] hind m in simp)
    show "own_buffer env W (set_buffer b1 (Some (?sb ?s3)) h4) b1 (?sb ?s3)"
    proof -
      have "length (take p xs) = p" "length (take m (drop q xs)) = m" using p m by simp_all
      then show ?thesis using h4(1,3) unset p m by (simp add: own_buffer_def sized_def n h0_def b1_def)
    qed
    have "same_items W h h0" by (simp add: same_items_def h0_def)
    moreover have "same_items W h4 (set_buffer b1 (Some (?sb ?s3)) h4)" using own_same [of env W b1 h4] h4(1) unset by simp
    ultimately show "same_items W h (set_buffer b1 (Some (?sb ?s3)) h4)" using h4(2) by (blast intro: same_items_trans)
  qed (use h4(4) new in simp_all)
qed

lemma anew_own:
  assumes h: "heap_sound env (add_mset v W) h" and n: "n = slots_of env bytes"
    and p: "p \<le> mCount v" "p \<le> r" and m: "q + m \<le> mCount v" "r + m \<le> n"
  obtains "move_anew env bytes p q m r v h = Fatal_error" "oversize bytes"
  | h1 where "move_anew env bytes p q m r v h = Gives (None, h1)" "heap_sound env (add_mset v W) h1" "same_items (add_mset v W) h h1"
      "\<exists>k. \<not> ve_room env k"
  | b1 h1 sb1 where "move_anew env bytes p q m r v h = Gives (Some b1, h1)" "own_buffer env W h1 b1 sb1" "mSize sb1 = bytes"
      "same_items W h h1" "sb_slots sb1 = map Some (take p (items v h)) @ replicate (r - p) None @
        map Some (take m (drop q (items v h))) @ replicate (n - r - m) None"
proof (cases rule: sb_alloc_cases [of env bytes h])
  case 1
  then show thesis using that(1) by (simp add: move_anew_def)
next
  case 2
  then show thesis using that(2) heap_sound_next [OF h] by (auto simp: move_anew_def same_items_def)
next
  case 3
  let ?b1 = "next_buf h"
  obtain h2 h3 h4 sb where
    c: "copy_items env v 0 p ?b1 0 (set_buffer ?b1 (Some \<lparr>mRefs = 1, mSize = bytes, sb_slots = replicate n None\<rparr>)
          (h\<lparr>next_buf := Suc ?b1\<rparr>)) = Gives h2"
      "copy_items env v q m ?b1 r h2 = Gives h3" "release_storage env v h3 = Gives h4"
    and own: "own_buffer env W h4 ?b1 sb" "mSize sb = bytes" "same_items W h h4"
    and s: "sb_slots sb = map Some (take p (items v h)) @ replicate (r - p) None @
        map Some (take m (drop q (items v h))) @ replicate (n - r - m) None"
    by (rule rehoused [OF h n 3(2)]) (use p m length_items [OF h] in auto)
  have "move_anew env bytes p q m r v h = Gives (Some ?b1, h4)" using 3(1) c n by (simp add: move_anew_def)
  then show thesis using that(3) own s by blast
qed

text \<open>Storage is made the vector's own: by a copy, when others share it.\<close>

lemma edit_own:
  assumes h: "heap_sound env (add_mset v W) h" and b: "mStorage v = Some b" and sb: "bufs h b = Some sb"
  obtains "editArrayImpl env v h = Fatal_error" "\<exists>k. \<not> ve_room env k"
  | b1 h1 sb1 where "editArrayImpl env v h = Gives (v\<lparr>mStorage := Some b1\<rparr>, h1)" "own_buffer env W h1 b1 sb1"
      "filled env (items v h) (sb_slots sb1)" "mSize sb1 = mSize sb" "same_items W h h1"
proof -
  obtain sb0 where "bufs h b = Some sb0" "buffer_ok env (add_mset v W) b sb0" "filled env (items v h) (sb_slots sb0)"
    "length (items v h) = mCount v" using vector_stored [OF h b] by metis
  then have xs: "filled env (items v h) (sb_slots sb)" "length (items v h) = mCount v"
    and n: "length (sb_slots sb) = slots_of env (mSize sb)" "\<not> oversize (mSize sb)" using sb by (auto simp: buffer_ok_def sized_def)
  have le: "mCount v \<le> slots_of env (mSize sb)" using filled_length [OF xs(1)] xs(2) n by simp
  show thesis
  proof (cases "mRefs sb = 1")
    case True
    have "editArrayImpl env v h = Gives (v\<lparr>mStorage := Some b\<rparr>, h)"
      using True b sb by (simp add: editArrayImpl_def at_buffer_def onlyOwner_def)
    then show thesis using that(2) split_sole [OF h b sb True] xs by auto
  next
    case False
    have eq: "editArrayImpl env v h = vec_then (move_anew env (mSize sb) (mCount v) (mCount v) 0 (mCount v) v h)
        (\<lambda>(editable, h1). case editable of None \<Rightarrow> Fatal_error | Some b1 \<Rightarrow> Gives (v\<lparr>mStorage := Some b1\<rparr>, h1))"
      using False b sb by (simp add: editArrayImpl_def at_buffer_def onlyOwner_def)
    show thesis
    proof (cases rule: anew_own [OF h refl, of "mCount v" "mCount v" "mCount v" 0 "mSize sb"])
      case (7 b1 h1 sb1)
      then have "filled env (items v h) (sb_slots sb1)" using xs(2) by (auto simp: filled_def)
      then show thesis using that(2) 7 by (simp add: eq)
    qed (use that(1) le n(2) in \<open>simp_all add: eq\<close>)
  qed
qed

text \<open>Storage of plain items is resized: in place when it is the vector's own, by a copy otherwise.\<close>

lemma length_resized [simp]: "length (resized n slots) = n"
  by (simp add: resized_def)

lemma own_fresh:
  assumes "heap_sound env W h" "bufs h b = None" "b < next_buf h" "mRefs sb = 1" "sized env sb"
  shows "own_buffer env W (set_buffer b (Some sb) h) b sb \<and> same_items W h (set_buffer b (Some sb) h)"
proof -
  have "set_buffer b None h = h" using assms(2) by (simp add: set_buffer_def fun_upd_idem)
  then show ?thesis using assms own_same [of env W b h] by (simp add: own_buffer_def)
qed

lemma fresh_buffer: "heap_sound env W h \<Longrightarrow> bufs h (next_buf h) = None"
  using sound_buffer [of env W h "next_buf h"] by (cases "bufs h (next_buf h)") auto

lemma release_plain:
  assumes h: "heap_sound env (add_mset v W) h" and b: "mStorage v = Some b" and plain: "trivial_dtor env" and "b1 \<noteq> b"
  obtains h1 where "sb_release env b (set_buffer b1 x h) = Gives (set_buffer b1 x h1)" "heap_sound env W h1"
    "same_items W h h1" "next_buf h1 = next_buf h" "\<And>b. bufs h b = None \<Longrightarrow> bufs h1 b = None"
proof -
  from release_sound [OF h] obtain h1 where h1: "release_storage env v h = Gives h1" "heap_sound env W h1" "same_items W h h1"
    "next_buf h1 = next_buf h" "\<And>b. bufs h b = None \<Longrightarrow> bufs h1 b = None" by metis
  from vector_stored [OF h b] obtain sb where "bufs h b = Some sb" by metis
  then have "sb_release env b (set_buffer b1 x h) = Gives (set_buffer b1 x h1)"
    using h1(1) b plain \<open>b1 \<noteq> b\<close>
    by (auto simp: release_storage_def sb_release_def at_buffer_def destroy_items_def sb_dealloc_def set_buffer_def fun_upd_twist
        split: if_splits)
  with h1 show thesis using that by blast
qed

lemma moved_to_simps [simp]:
  "mRefs (moved_to env bytes sb) = 1" "mSize (moved_to env bytes sb) = bytes"
  "sb_slots (moved_to env bytes sb) = resized (slots_of env bytes) (sb_slots sb)"
  by (simp_all add: moved_to_def)

lemma resize_anew_own:
  assumes h: "heap_sound env (add_mset v W) h" and b: "mStorage v = Some b" and sb: "bufs h b = Some sb"
    and plain: "trivial_dtor env"
  obtains "resize_anew env b bytes sb h = Fatal_error" "oversize bytes"
  | h1 where "resize_anew env b bytes sb h = Gives (None, h1)" "heap_sound env (add_mset v W) h1" "same_items (add_mset v W) h h1"
      "\<exists>k. \<not> ve_room env k"
  | b1 h1 where "resize_anew env b bytes sb h = Gives (Some b1, h1)" "own_buffer env W h1 b1 (moved_to env bytes sb)" "same_items W h h1"
proof (cases rule: sb_alloc_cases [of env bytes h])
  case 1
  then show thesis using that(1) by (simp add: resize_anew_def)
next
  case 2
  then show thesis using that(2) heap_sound_next [OF h] by (auto simp: resize_anew_def same_items_def)
next
  case 3
  let ?h = "h\<lparr>next_buf := Suc (next_buf h)\<rparr>" and ?b1 = "next_buf h" and ?m = "moved_to env bytes sb"
  have nb: "?b1 \<noteq> b" using fresh_buffer [OF h] sb by auto
  from release_plain [OF heap_sound_next [OF h] b plain nb] obtain h1 where
    h1: "sb_release env b (set_buffer ?b1 (Some ?m) ?h) = Gives (set_buffer ?b1 (Some ?m) h1)" "heap_sound env W h1" "same_items W ?h h1"
      "next_buf h1 = Suc ?b1" "\<And>b. bufs ?h b = None \<Longrightarrow> bufs h1 b = None" by (metis buffers.select_convs(2) buffers.surjective buffers.update_convs(2))
  have "resize_anew env b bytes sb h = Gives (Some ?b1, set_buffer ?b1 (Some ?m) h1)" using 3 h1(1) by (simp add: resize_anew_def)
  moreover have "own_buffer env W (set_buffer ?b1 (Some ?m) h1) ?b1 ?m \<and> same_items W h1 (set_buffer ?b1 (Some ?m) h1)"
    by (rule own_fresh [OF h1(2)]) (use h1(4,5) fresh_buffer [OF h] 3(2) in \<open>simp_all add: sized_def\<close>)
  moreover have "same_items W h h1" using h1(3) by (simp add: same_items_def)
  ultimately show thesis using that(3) same_items_trans by blast
qed

lemma resize_own:
  assumes h: "heap_sound env (add_mset v W) h" and b: "mStorage v = Some b" and sb: "bufs h b = Some sb"
    and plain: "trivial_dtor env"
  obtains "sb_editResize env b bytes h = Fatal_error" "oversize bytes"
  | h1 where "sb_editResize env b bytes h = Gives (None, h1)" "heap_sound env (add_mset v W) h1" "same_items (add_mset v W) h h1"
      "\<exists>k. \<not> ve_room env k"
  | b1 h1 sb1 where "sb_editResize env b bytes h = Gives (Some b1, h1)" "own_buffer env W h1 b1 sb1"
      "sb_slots sb1 = resized (slots_of env bytes) (sb_slots sb)" "mSize sb1 = bytes" "same_items W h h1"
proof (cases "mRefs sb = 1")
  case False
  then have "sb_editResize env b bytes h = resize_anew env b bytes sb h"
    using sb by (simp add: sb_editResize_def at_buffer_def onlyOwner_def Let_def)
  then show thesis using that by (cases rule: resize_anew_own [OF h b sb plain, of bytes]) auto
next
  case True
  let ?up = "h\<lparr>next_buf := Suc (next_buf h)\<rparr>" and ?m = "moved_to env bytes sb"
  note own = split_sole [OF h b sb True]
  consider "mSize sb = bytes" | "mSize sb \<noteq> bytes" "oversize bytes"
    | "mSize sb \<noteq> bytes" "\<not> oversize bytes" "ve_room env (next_buf h)"
    | "mSize sb \<noteq> bytes" "\<not> oversize bytes" "\<not> ve_room env (next_buf h)" by blast
  then show thesis
  proof cases
    case 1
    then have "resized (slots_of env bytes) (sb_slots sb) = sb_slots sb" using own by (simp add: resized_def own_buffer_def sized_def)
    with 1 show thesis using that(3) True own sb by (simp add: sb_editResize_def at_buffer_def onlyOwner_def)
  next
    case 2
    then show thesis using that(1) True sb by (simp add: sb_editResize_def at_buffer_def onlyOwner_def)
  next
    case 3
    let ?h1 = "set_buffer b None ?up"
    have "heap_sound env W ?h1" using own_next [OF own] by (simp add: own_buffer_def)
    then have "own_buffer env W (set_buffer (next_buf h) (Some ?m) ?h1) (next_buf h) ?m \<and>
        same_items W ?h1 (set_buffer (next_buf h) (Some ?m) ?h1)"
      by (rule own_fresh) (use fresh_buffer [OF h] 3(2) in \<open>simp_all add: sized_def\<close>)
    moreover have "same_items W h ?h1"
      using own by (auto simp: own_buffer_def same_items_def dest: not_owned)
    moreover have "sb_editResize env b bytes h = Gives (Some (next_buf h), set_buffer (next_buf h) (Some ?m) ?h1)"
      using 3 True sb by (simp add: sb_editResize_def at_buffer_def onlyOwner_def)
    ultimately show thesis
      by (intro that(3) [of "next_buf h" "set_buffer (next_buf h) (Some ?m) ?h1" ?m]) (auto intro: same_items_trans)
  next
    case 4
    then have "sb_editResize env b bytes h = resize_anew env b bytes sb ?up"
      using True sb by (simp add: sb_editResize_def at_buffer_def onlyOwner_def Let_def)
    moreover have "same_items X h ?up" for X by (simp add: same_items_def)
    ultimately show thesis using that sb same_items_trans
      by (cases rule: resize_anew_own [OF heap_sound_next [OF h] b _ plain, of sb bytes]) (auto simp: same_items_def)
  qed
qed

end
