(* ===== verification/Vector_Props.thy ===== *)
theory Vector_Props
  imports Vector_Storage
begin

text \<open>
  Vectors are values (\<open>VectorImpl.cpp\<close>): although they share storage, each behaves like a list of its own under
  insertion, removal, replacement, sorting, copying and assignment, and storage is given back when its last vector goes.
\<close>


subsection \<open>Making room\<close>

definition raw :: "'a vec_env \<Rightarrow> 'a option list \<Rightarrow> bool" where
  "raw env slots \<longleftrightarrow> trivial_dtor env \<or> list_all (\<lambda>x. x = None) slots"

lemma raw_simps [simp]: "raw env (replicate n None)" "raw env []" "raw env (xs @ ys) \<longleftrightarrow> raw env xs \<and> raw env ys"
  by (auto simp: raw_def)

lemma filled_raw: "filled env xs slots \<longleftrightarrow> (\<exists>rest. slots = map Some xs @ rest \<and> raw env rest)"
  by (simp add: filled_def raw_def)

text \<open>Where a vector has its items with room for \<open>n\<close> more at \<open>pos\<close>.\<close>

definition roomy :: "'a vec_env \<Rightarrow> 'a list \<Rightarrow> nat \<Rightarrow> nat \<Rightarrow> 'a option list \<Rightarrow> bool" where
  "roomy env xs pos n slots \<longleftrightarrow> (\<exists>hole rest. slots = map Some (take pos xs) @ hole @ map Some (drop pos xs) @ rest \<and>
     length hole = n \<and> raw env hole \<and> raw env rest)"

lemma slots_of_mult [simp]: "mItemSize env > 0 \<Longrightarrow> slots_of env (n * mItemSize env) = n"
  by (simp add: slots_of_def)

text \<open>Storage for \<open>n\<close> items is beyond what can be asked for.\<close>

definition too_big :: "'a vec_env \<Rightarrow> nat \<Rightarrow> bool" where
  "too_big env n \<longleftrightarrow> oversize (max kMinVectorCapacity (n + n div 2 + 1) * mItemSize env)"

lemma too_bigI:
  assumes "mItemSize env > 0" "SIZE_MAX \<le> n + n div 2 + 1"
  shows "too_big env n"
proof -
  have "n + n div 2 + 1 \<le> max kMinVectorCapacity (n + n div 2 + 1) * mItemSize env"
    using assms(1) by (metis max.cobounded2 le_trans mult.right_neutral mult_le_mono2 Suc_leI One_nat_def)
  then show ?thesis using assms(2) by (simp add: too_big_def oversize_def)
qed

lemma grown_size_cases:
  assumes "mItemSize env > 0"
  obtains "grown_size env n = Fatal_error" "too_big env n"
  | cap where "grown_size env n = Gives (cap * mItemSize env)" "n \<le> cap" "slots_of env (cap * mItemSize env) = cap"
      "oversize (cap * mItemSize env) \<longleftrightarrow> too_big env n"
proof (cases "grown_size env n")
  case (Gives k)
  then have "k = max kMinVectorCapacity (n + n div 2 + 1) * mItemSize env" by (auto simp: grown_size_def Let_def split: if_splits)
  with Gives show thesis using that(2) [of "max kMinVectorCapacity (n + n div 2 + 1)"] assms by (simp add: too_big_def)
next
  case Fatal_error
  show thesis
  proof (cases "SIZE_MAX \<le> n + n div 2 + 1")
    case False
    then have "max kMinVectorCapacity (n + n div 2 + 1) * mItemSize env > SIZE_MAX"
      using Fatal_error by (auto simp: grown_size_def Let_def split: if_splits)
    then show thesis using that(1) Fatal_error by (simp add: too_big_def oversize_def)
  qed (use that(1) Fatal_error too_bigI [OF assms] in blast)
qed (auto simp: grown_size_def Let_def split: if_splits)

lemma roomy_resized:
  assumes "filled env xs slots" "trivial_dtor env" "length xs + n \<le> cap"
  shows "roomy env xs (length xs) n (resized cap slots)"
proof -
  obtain rest where "slots = map Some xs @ rest" using assms(1) by (auto simp: filled_def)
  then have r: "resized cap slots = map Some xs @ resized (cap - length xs) rest" using assms(3) by (simp add: resized_def)
  show ?thesis unfolding roomy_def r using assms(2,3)
    by (intro exI [of _ "take n (resized (cap - length xs) rest)"] exI [of _ "drop n (resized (cap - length xs) rest)"])
      (simp add: raw_def)
qed

lemma grow_storage_own:
  assumes h: "heap_sound env (add_mset v W) h" and pos: "pos \<le> mCount v" and size: "mItemSize env > 0"
  obtains "grow_storage env pos n v h = Fatal_error" "too_big env (mCount v + n)"
  | h1 where "grow_storage env pos n v h = Gives (False, v, h1)" "heap_sound env (add_mset v W) h1" "same_items (add_mset v W) h h1"
      "\<exists>k. \<not> ve_room env k"
  | b1 h1 sb1 where "grow_storage env pos n v h = Gives (True, v\<lparr>mStorage := Some b1\<rparr>, h1)" "own_buffer env W h1 b1 sb1"
      "roomy env (items v h) pos n (sb_slots sb1)" "same_items W h h1"
proof (cases rule: grown_size_cases [OF size, of "mCount v + n"])
  case 1
  then show thesis using that(1) by (simp add: grow_storage_def)
next
  case (2 cap)
  let ?bytes = "cap * mItemSize env"
  have len: "length (items v h) = mCount v" by (rule length_items [OF h])
  show thesis
  proof (cases "mStorage v \<noteq> None \<and> mCount v = pos \<and> trivial_copy env \<and> trivial_dtor env")
    case True
    then obtain b where b: "mStorage v = Some b" by auto
    from vector_stored [OF h b] obtain sb where sb: "bufs h b = Some sb" "filled env (items v h) (sb_slots sb)" by metis
    have eq: "grow_storage env pos n v h = vec_then (sb_editResize env b ?bytes h) (\<lambda>(found, h1). case found of
               None \<Rightarrow> Gives (False, v, h1) | Some b1 \<Rightarrow> Gives (True, v\<lparr>mStorage := Some b1\<rparr>, h1))"
      using True b 2 by (simp add: grow_storage_def)
    have room: "roomy env (items v h) pos n (resized cap (sb_slots sb))"
      using roomy_resized [OF sb(2), of n cap] True 2(2) len by simp
    show thesis
      by (cases rule: resize_own [OF h b sb(1), of ?bytes]) (use True that room 2(3,4) in \<open>simp_all add: eq\<close>)
  next
    case False
    then have eq: "grow_storage env pos n v h = vec_then (move_anew env ?bytes pos pos (mCount v - pos) (pos + n) v h)
        (\<lambda>(found, h1). case found of None \<Rightarrow> Gives (False, v, h1) | Some b1 \<Rightarrow> Gives (True, v\<lparr>mStorage := Some b1\<rparr>, h1))"
      unfolding grow_storage_def 2(1) vec_then_simps by (simp only: if_False)
    have room: "roomy env (items v h) pos n (map Some (take pos (items v h)) @ replicate (pos + n - pos) None @
        map Some (take (mCount v - pos) (drop pos (items v h))) @ replicate (cap - (pos + n) - (mCount v - pos)) None)"
      unfolding roomy_def
      by (rule exI [of _ "replicate n None"], rule exI [of _ "replicate (cap - (pos + n) - (mCount v - pos)) None"])
        (use len pos in simp)
    show thesis
    proof (cases rule: anew_own [OF h, of cap ?bytes pos "pos + n" pos "mCount v - pos"])
      case (8 b1 h1 sb1)
      then show thesis using that(3) room by (simp add: eq)
    qed (use that(1,2) pos 2 in \<open>simp_all add: eq\<close>)
  qed
qed

lemma map_Some_split: "map Some xs = map Some (take n xs) @ map Some (drop n xs)"
  by (metis append_take_drop_id map_append)

lemma raw_sub [simp]: "raw env xs \<Longrightarrow> raw env (take n xs)" "raw env xs \<Longrightarrow> raw env (drop n xs)"
  by (auto simp: raw_def)

lemma place_raw:
  assumes "raw env g" "n + length xs \<le> length g" "length pre = i"
  shows "place_items env (i + n) xs (pre @ g) = Gives (pre @ take n g @ map Some xs @ drop (n + length xs) g)"
proof -
  have "pre @ g = (pre @ take n g) @ take (length xs) (drop n g) @ drop (n + length xs) g"
    by (metis append.assoc append_take_drop_id drop_drop add.commute)
  moreover have "place_items env (i + n) xs ((pre @ take n g) @ take (length xs) (drop n g) @ drop (n + length xs) g) =
      Gives ((pre @ take n g) @ map Some xs @ drop (n + length xs) g)"
    by (rule place_items_at) (use assms in \<open>auto simp: raw_def\<close>)
  ultimately show ?thesis by simp
qed

lemma roomy_moved:
  assumes xs: "filled env xs slots" and pos: "pos < length xs" and room: "length xs + n \<le> length slots"
  obtains slots1 where "move_items env (pos + n) pos (length xs - pos) slots = Gives slots1" "roomy env xs pos n slots1"
    "length slots1 = length slots"
proof -
  let ?m = "length xs - pos"
  obtain rest where rest: "slots = map Some (take pos xs) @ map Some (drop pos xs) @ rest" "raw env rest"
    using xs map_Some_split [of xs pos] by (auto simp: filled_raw)
  let ?g = "replicate ?m None @ rest"
  have "read_items pos ?m slots = Gives (drop pos xs)" using filled_read [OF xs, of pos ?m] pos by simp
  moreover have "blank pos ?m slots = map Some (take pos xs) @ ?g"
    unfolding rest by (rule blank_at) (use pos in auto)
  moreover have "place_items env (pos + n) (drop pos xs) (map Some (take pos xs) @ ?g) =
      Gives (map Some (take pos xs) @ take n ?g @ map Some (drop pos xs) @ drop (n + length (drop pos xs)) ?g)"
    by (rule place_raw) (use pos room rest in auto)
  ultimately have "move_items env (pos + n) pos ?m slots =
      Gives (map Some (take pos xs) @ take n ?g @ map Some (drop pos xs) @ drop (n + length (drop pos xs)) ?g)"
    by (simp add: move_items_def)
  moreover have "roomy env xs pos n (map Some (take pos xs) @ take n ?g @ map Some (drop pos xs) @ drop (n + length (drop pos xs)) ?g)"
    unfolding roomy_def
    by (rule exI [of _ "take n ?g"], rule exI [of _ "drop (n + length (drop pos xs)) ?g"]) (use pos room rest in auto)
  ultimately show thesis using pos room rest by (intro that) auto
qed

lemma roomy_0: "roomy env xs pos 0 slots \<longleftrightarrow> filled env xs slots"
  using map_Some_split [of xs pos] by (auto simp: roomy_def filled_raw)

lemma roomy_end:
  assumes "filled env xs slots" "length xs + n \<le> length slots"
  shows "roomy env xs (length xs) n slots"
proof -
  obtain rest where rest: "slots = map Some xs @ rest" "raw env rest" using assms(1) by (auto simp: filled_raw)
  show ?thesis unfolding roomy_def rest
    by (rule exI [of _ "take n rest"], rule exI [of _ "drop n rest"]) (use rest assms(2) in auto)
qed

lemma roomy_length: "roomy env xs pos n slots \<Longrightarrow> pos \<le> length xs \<Longrightarrow> length xs + n \<le> length slots"
  by (auto simp: roomy_def)

lemma roomy_filled:
  assumes "roomy env xs pos (length ys) slots" "pos \<le> length xs"
  obtains slots1 where "place_items env pos ys slots = Gives slots1" "filled env (take pos xs @ ys @ drop pos xs) slots1"
    "length slots1 = length slots"
proof -
  obtain hole rest where s: "slots = map Some (take pos xs) @ hole @ map Some (drop pos xs) @ rest" "length hole = length ys"
    "raw env hole" "raw env rest" using assms(1) by (auto simp: roomy_def)
  have "place_items env pos ys slots = Gives (map Some (take pos xs) @ map Some ys @ map Some (drop pos xs) @ rest)"
    unfolding s by (rule place_items_at) (use s assms(2) in \<open>auto simp: raw_def\<close>)
  then show thesis using s by (intro that) (auto simp: filled_raw)
qed

lemma update_own:
  assumes own: "own_buffer env W h b sb" and f: "f (sb_slots sb) = Gives slots" "length slots = length (sb_slots sb)"
  obtains h1 where "update_slots f b h = Gives h1" "own_buffer env W h1 b (sb\<lparr>sb_slots := slots\<rparr>)" "same_items W h h1"
proof (rule that [of "set_buffer b (Some (sb\<lparr>sb_slots := slots\<rparr>)) h"])
  show "update_slots f b h = Gives (set_buffer b (Some (sb\<lparr>sb_slots := slots\<rparr>)) h)"
    using own f(1) by (simp add: update_slots_def at_buffer_def own_buffer_def)
  show "own_buffer env W (set_buffer b (Some (sb\<lparr>sb_slots := slots\<rparr>)) h) b (sb\<lparr>sb_slots := slots\<rparr>)"
    by (rule own_buffer_set [OF own]) (use own f(2) in \<open>simp_all add: own_buffer_def sized_def\<close>)
  show "same_items W h (set_buffer b (Some (sb\<lparr>sb_slots := slots\<rparr>)) h)"
    by (rule own_same [of env]) (use own in \<open>simp add: own_buffer_def\<close>)
qed

lemma grow_in_place_own:
  assumes h: "heap_sound env (add_mset v W) h" and pos: "pos \<le> mCount v" and b: "mStorage v = Some b"
    and sb: "bufs h b = Some sb" and cap: "mCount v + n \<le> slots_of env (mSize sb)"
  obtains "grow_in_place env pos n v h = Fatal_error" "\<exists>k. \<not> ve_room env k"
  | b1 h1 sb1 where "grow_in_place env pos n v h = Gives (True, v\<lparr>mStorage := Some b1\<rparr>, h1)" "own_buffer env W h1 b1 sb1"
      "roomy env (items v h) pos n (sb_slots sb1)" "same_items W h h1"
proof (cases rule: edit_own [OF h b sb])
  case 1
  then show thesis using that(1) by (simp add: grow_in_place_def)
next
  case (2 b1 h1 sb1)
  have len: "length (items v h) = mCount v" by (rule length_items [OF h])
  have room: "length (items v h) + n \<le> length (sb_slots sb1)" using 2 cap len by (simp add: own_buffer_def sized_def)
  show thesis
  proof (cases "pos = mCount v")
    case True
    then have "grow_in_place env pos n v h = Gives (True, v\<lparr>mStorage := Some b1\<rparr>, h1)" using 2 by (simp add: grow_in_place_def)
    then show thesis using that(2) 2 roomy_end [OF 2(3) room] True len by auto
  next
    case False
    with pos len have "pos < length (items v h)" by simp
    from roomy_moved [OF 2(3) this room] obtain slots where slots: "move_items env (pos + n) pos (mCount v - pos) (sb_slots sb1) = Gives slots"
      "roomy env (items v h) pos n slots" "length slots = length (sb_slots sb1)" unfolding len by metis
    from update_own [OF 2(2), where f = "move_items env (pos + n) pos (mCount v - pos)", OF slots(1,3)] obtain h2 where h2:
      "update_slots (move_items env (pos + n) pos (mCount v - pos)) b1 h1 = Gives h2" "own_buffer env W h2 b1 (sb1\<lparr>sb_slots := slots\<rparr>)"
      "same_items W h1 h2" by metis
    have "grow_in_place env pos n v h = Gives (True, v\<lparr>mStorage := Some b1\<rparr>, h2)" using 2 h2(1) False by (simp add: grow_in_place_def)
    then show thesis using h2 2(5) slots(2) by (intro that(2) [of b1 h2 "sb1\<lparr>sb_slots := slots\<rparr>"]) (auto intro: same_items_trans)
  qed
qed

text \<open>What \<open>_grow\<close> leaves: nothing changed, or the vector on storage of its own with room for the new items.\<close>

lemma grow_own:
  assumes h: "heap_sound env (add_mset v W) h" and pos: "pos \<le> mCount v" and size: "mItemSize env > 0"
  obtains "vector_grow env pos n v h = Fatal_error" "(\<exists>k. \<not> ve_room env k) \<or> too_big env (mCount v + n)"
  | v1 h1 where "vector_grow env pos n v h = Gives (False, v1, h1)" "heap_sound env (add_mset v1 W) h1" "same_items W h h1"
      "items v1 h1 = items v h" "n = 0 \<or> (\<exists>k. \<not> ve_room env k)"
  | b1 h1 sb1 where "vector_grow env pos n v h = Gives (True, \<lparr>mStorage = Some b1, mCount = mCount v + n\<rparr>, h1)"
      "own_buffer env W h1 b1 sb1" "roomy env (items v h) pos n (sb_slots sb1)" "same_items W h h1"
proof (cases "mCount v + n > SIZE_MAX")
  case True
  then have "vector_grow env pos n v h = Fatal_error" by (simp add: vector_grow_def)
  then show thesis using that(1) too_bigI [OF size, of "mCount v + n"] True by simp
next
  case False
  note failed = that(2) and grown = that(3)
  have len: "length (items v h) = mCount v" by (rule length_items [OF h])
  let ?rest = "\<lambda>(grown, v2, h2). if \<not> grown then Gives (False, v2, h2)
                else vec_then (storage_of v2 h2) (\<lambda>st2. Gives (pos < capacity env st2, v2\<lparr>mCount := mCount v + n\<rparr>, h2))"
  have unfold: "vector_grow env pos n v h
      = vec_then (if capacity env st < mCount v + n then grow_storage env pos n v h else grow_in_place env pos n v h) ?rest"
    if "storage_of v h = Gives st" for st using that False by (simp add: vector_grow_def)
  have fin: thesis if eq: "vector_grow env pos n v h = ?rest (True, v\<lparr>mStorage := Some b1\<rparr>, h1)" and own: "own_buffer env W h1 b1 sb1"
    and room: "roomy env (items v h) pos n (sb_slots sb1)" and same: "same_items W h h1" for b1 h1 sb1
  proof -
    let ?v = "\<lparr>mStorage = Some b1, mCount = mCount v + n\<rparr>"
    have cap: "length (sb_slots sb1) = slots_of env (mSize sb1)" using own by (simp add: own_buffer_def sized_def)
    have g: "vector_grow env pos n v h = Gives (pos < slots_of env (mSize sb1), ?v, h1)"
      using own by (simp add: eq storage_of_def at_buffer_def own_buffer_def capacity_def)
    show thesis
    proof (cases "pos < slots_of env (mSize sb1)")
      case False
      then have "n = 0" using roomy_length [OF room] pos len cap by simp
      then have "heap_sound env (add_mset ?v W) h1 \<and> items ?v h1 = items v h"
        using join [OF own] room len by (simp add: roomy_0)
      then show thesis using failed [of ?v h1] g False same \<open>n = 0\<close> by simp
    qed (use grown g own room same in simp)
  qed
  show thesis
  proof (cases "mStorage v")
    case None
    note un = vector_unstored [OF h None]
    show thesis
    proof (cases "n = 0")
      case True
      have "vector_grow env pos n v h = Gives (False, v, h)"
        using True None un pos False by (simp add: vector_grow_def capacity_def grow_in_place_def editArrayImpl_def)
      then show thesis using that(2) h True by auto
    next
      case n: False
      then have eq: "vector_grow env pos n v h = vec_then (grow_storage env pos n v h) ?rest"
        using unfold [OF un(3)] by (simp add: capacity_def)
      show thesis
        by (cases rule: grow_storage_own [OF h pos size, of n]) (use that(1,2) fin in \<open>auto simp: eq same_items_def\<close>)
    qed
  next
    case (Some b)
    from vector_stored [OF h Some] obtain sb where sb: "bufs h b = Some sb" "storage_of v h = Gives (Some sb)" by metis
    show thesis
    proof (cases "slots_of env (mSize sb) < mCount v + n")
      case True
      then have eq: "vector_grow env pos n v h = vec_then (grow_storage env pos n v h) ?rest"
        using unfold [OF sb(2)] by (simp add: capacity_def)
      show thesis
        by (cases rule: grow_storage_own [OF h pos size, of n]) (use that(1,2) fin in \<open>auto simp: eq same_items_def\<close>)
    next
      case cap: False
      then have eq: "vector_grow env pos n v h = vec_then (grow_in_place env pos n v h) ?rest"
        using unfold [OF sb(2)] by (simp add: capacity_def)
      show thesis
        by (cases rule: grow_in_place_own [OF h pos Some sb(1), of n]) (use that(1) fin cap in \<open>auto simp: eq\<close>)
    qed
  qed
qed


subsection \<open>Closing gaps\<close>

lemma read_at: "length pre = i \<Longrightarrow> n = length xs \<Longrightarrow> read_items i n (pre @ map Some xs @ post) = Gives xs"
  by (simp add: read_items_def list_all_iff comp_def)

lemma closed_gap:
  assumes xs: "filled env xs slots" and pos: "pos + n \<le> length xs"
  obtains slots1 slots2 where "destroy_items env pos n slots = Gives slots1" "length slots1 = length slots"
    "(if pos \<noteq> length xs - n then move_items env pos (pos + n) (length xs - n - pos) slots1 else Gives slots1) = Gives slots2"
    "length slots2 = length slots" "filled env (take pos xs @ drop (pos + n) xs) slots2"
proof -
  let ?pre = "map Some (take pos xs)" and ?mid = "take n (drop pos xs)" and ?ys = "drop (pos + n) xs"
  obtain rest where rest: "slots = ?pre @ map Some ?mid @ map Some ?ys @ rest" "raw env rest"
  proof -
    have "xs = take pos xs @ ?mid @ ?ys" by (metis append_take_drop_id drop_drop add.commute)
    then have "map Some xs = ?pre @ map Some ?mid @ map Some ?ys" by (metis map_append)
    then show thesis using xs that by (auto simp: filled_raw)
  qed
  obtain old where old: "destroy_items env pos n slots = Gives (?pre @ old @ map Some ?ys @ rest)" "length old = n" "raw env old"
    using destroy_items_at [of ?pre pos env ?mid "map Some ?ys @ rest"] pos by (auto simp: rest raw_def)
  let ?m = "length xs - n - pos"
  let ?g = "old @ replicate ?m None @ rest"
  show thesis
  proof (cases "pos = length xs - n")
    case True
    then show thesis using old rest pos by (intro that [OF old(1)]) (auto simp: filled_raw)
  next
    case False
    have "read_items (pos + n) ?m ((?pre @ old) @ map Some ?ys @ rest) = Gives ?ys"
      by (rule read_at) (use pos old(2) in auto)
    moreover have "blank (pos + n) ?m ((?pre @ old) @ map Some ?ys @ rest) = (?pre @ old) @ replicate ?m None @ rest"
      by (rule blank_at) (use pos old(2) in auto)
    moreover have "place_items env (pos + 0) ?ys (?pre @ ?g) = Gives (?pre @ take 0 ?g @ map Some ?ys @ drop (0 + length ?ys) ?g)"
      by (rule place_raw) (use pos old rest in auto)
    ultimately have m: "move_items env pos (pos + n) ?m (?pre @ old @ map Some ?ys @ rest) = Gives (?pre @ map Some ?ys @ drop (length ?ys) ?g)"
      by (simp add: move_items_def)
    have "raw env ?g" using old rest by simp
    then have "filled env (take pos xs @ ?ys) (?pre @ map Some ?ys @ drop (length ?ys) ?g)"
      unfolding filled_raw by (intro exI [of _ "drop (length ?ys) ?g"]) (simp del: drop_append)
    then show thesis using False m old rest pos by (intro that [OF old(1)]) auto
  qed
qed

text \<open>
  \<open>_shrink\<close> closes the gap, or leaves everything as it was when it finds no room for smaller storage: its caller is
  not told.
\<close>

definition removed :: "'a vec_env \<Rightarrow> nat \<Rightarrow> nat \<Rightarrow> 'a list \<Rightarrow> 'a list \<Rightarrow> bool" where
  "removed env pos n xs ys \<longleftrightarrow> ys = take pos xs @ drop (pos + n) xs \<or> ys = xs \<and> (\<exists>k. \<not> ve_room env k)"

lemma shrink_in_place:
  assumes h: "heap_sound env (add_mset v W) h" and pos: "pos + n \<le> mCount v" and b: "mStorage v = Some b"
    and sb: "bufs h b = Some sb"
  defines "in_place \<equiv> vec_then (editArrayImpl env v h) (\<lambda>(v1, h1).
                   vec_then (update_slots (destroy_items env pos n) (the (mStorage v1)) h1) (\<lambda>h2.
                   vec_then (if pos \<noteq> mCount v - n
                             then update_slots (move_items env pos (pos + n) (mCount v - n - pos)) (the (mStorage v1)) h2
                             else Gives h2) (\<lambda>h3.
                   Gives (v1\<lparr>mCount := mCount v - n\<rparr>, h3))))"
  obtains "in_place = Fatal_error" "\<exists>k. \<not> ve_room env k"
  | v1 h1 where "in_place = Gives (v1, h1)" "heap_sound env (add_mset v1 W) h1" "same_items W h h1"
      "items v1 h1 = take pos (items v h) @ drop (pos + n) (items v h)"
proof (cases rule: edit_own [OF h b sb])
  case 1
  then show thesis using that(1) by (simp add: in_place_def)
next
  case (2 b1 h1 sb1)
  let ?move = "move_items env pos (pos + n) (mCount v - n - pos)" and ?xs = "take pos (items v h) @ drop (pos + n) (items v h)"
  let ?v1 = "\<lparr>mStorage = Some b1, mCount = mCount v - n\<rparr>"
  have len: "length (items v h) = mCount v" by (rule length_items [OF h])
  obtain s1 s2 where s1: "destroy_items env pos n (sb_slots sb1) = Gives s1" "length s1 = length (sb_slots sb1)"
    and s2: "(if pos \<noteq> mCount v - n then ?move s1 else Gives s1) = Gives s2" "length s2 = length (sb_slots sb1)" "filled env ?xs s2"
    using closed_gap [OF 2(3), of pos n] pos unfolding len by blast
  from update_own [OF 2(2), where f = "destroy_items env pos n", OF s1] obtain h2 where
    h2: "update_slots (destroy_items env pos n) b1 h1 = Gives h2" "own_buffer env W h2 b1 (sb1\<lparr>sb_slots := s1\<rparr>)" "same_items W h1 h2" by metis
  obtain h3 sb3 where h3: "(if pos \<noteq> mCount v - n then update_slots ?move b1 h2 else Gives h2) = Gives h3" "own_buffer env W h3 b1 sb3"
    "same_items W h2 h3" "sb_slots sb3 = s2"
  proof (cases "pos = mCount v - n")
    case False
    then have "?move (sb_slots (sb1\<lparr>sb_slots := s1\<rparr>)) = Gives s2" "length s2 = length (sb_slots (sb1\<lparr>sb_slots := s1\<rparr>))" using s1 s2 by simp_all
    then obtain h3 where "update_slots ?move b1 h2 = Gives h3" "own_buffer env W h3 b1 (sb1\<lparr>sb_slots := s1, sb_slots := s2\<rparr>)" "same_items W h2 h3"
      by (rule update_own [OF h2(2), where f = ?move])
    then show thesis using False by (intro that [of h3 "sb1\<lparr>sb_slots := s2\<rparr>"]) simp_all
  next
    case True
    then show thesis using s2 h2(2) by (intro that [of h2 "sb1\<lparr>sb_slots := s1\<rparr>"]) simp_all
  qed
  have "in_place = Gives (?v1, h3)"
    by (cases "pos = mCount v - n") (use h2(1) h3(1) in \<open>simp_all add: in_place_def 2(1)\<close>)
  moreover have "heap_sound env (add_mset ?v1 W) h3 \<and> items ?v1 h3 = ?xs"
    by (rule join [OF h3(2)]) (use h3(4) s2(3) len pos in auto)
  moreover have "same_items W h h3" using 2(5) h2(3) h3(3) by (blast intro: same_items_trans)
  ultimately show thesis using that(2) by blast
qed

lemma shrunk_size:
  assumes "left < slots_of env bytes div 2" "\<not> oversize bytes" "oversize (max kMinVectorCapacity (left * 2) * mItemSize env)"
  shows "too_big env n"
proof -
  have "left * 2 * mItemSize env \<le> slots_of env bytes * mItemSize env" using assms(1) by (intro mult_le_mono1) linarith
  also have "\<dots> \<le> bytes" by (simp add: slots_of_def)
  finally have "oversize (kMinVectorCapacity * mItemSize env)" using assms(2,3) by (auto simp: oversize_def max_def split: if_splits)
  moreover have "kMinVectorCapacity * mItemSize env \<le> max kMinVectorCapacity (n + n div 2 + 1) * mItemSize env"
    by (intro mult_le_mono1) simp
  ultimately show ?thesis unfolding too_big_def oversize_def by linarith
qed

lemma shrink_kept:
  assumes h: "heap_sound env (add_mset v W) h" and pos: "pos + n \<le> mCount v" and size: "mItemSize env > 0"
  obtains "vector_shrink env pos n v h = Fatal_error" "(\<exists>k. \<not> ve_room env k) \<or> too_big env (mCount v)"
  | v1 h1 where "vector_shrink env pos n v h = Gives (v1, h1)" "heap_sound env (add_mset v1 W) h1" "same_items W h h1"
      "removed env pos n (items v h) (items v1 h1)"
proof (cases "mStorage v")
  case None
  then have "vector_shrink env pos n v h = Gives (v, h)" using vector_unstored [OF h None] by (simp add: vector_shrink_def)
  then show thesis using that(2) h vector_unstored [OF h None] by (auto simp: removed_def)
next
  case (Some b)
  note gives = that(2)
  let ?left = "mCount v - n" and ?xs = "take pos (items v h) @ drop (pos + n) (items v h)"
  let ?cap = "max kMinVectorCapacity (?left * 2)"
  have len: "length (items v h) = mCount v" by (rule length_items [OF h])
  from vector_stored [OF h Some] obtain sb where sb: "bufs h b = Some sb" "storage_of v h = Gives (Some sb)"
    "filled env (items v h) (sb_slots sb)" "buffer_ok env (add_mset v W) b sb" by metis
  let ?found = "\<lambda>(found, h1). case found of None \<Rightarrow> Gives (v, h1) | Some b1 \<Rightarrow> Gives (\<lparr>mStorage = Some b1, mCount = ?left\<rparr>, h1)"
  have moved: thesis if eq: "vector_shrink env pos n v h = ?found (Some b1, h1)" and own: "own_buffer env W h1 b1 sb1"
    and xs: "filled env ?xs (sb_slots sb1)" and same: "same_items W h h1" for b1 h1 sb1
  proof -
    let ?v1 = "\<lparr>mStorage = Some b1, mCount = ?left\<rparr>"
    have "heap_sound env (add_mset ?v1 W) h1 \<and> items ?v1 h1 = ?xs" by (rule join [OF own xs]) (use pos len in auto)
    then show thesis using eq same by (intro gives [of ?v1 h1]) (auto simp: removed_def)
  qed
  have stuck: thesis if "vector_shrink env pos n v h = ?found (None, h1)" "heap_sound env (add_mset v W) h1"
    "same_items (add_mset v W) h h1" "\<exists>k. \<not> ve_room env k" for h1
    using that gives [of v h1] by (auto simp: removed_def same_items_def)
  show thesis
  proof (cases "?left < slots_of env (mSize sb) div 2")
    case small: True
    have big: "too_big env (mCount v)" if "oversize (?cap * mItemSize env)"
      using shrunk_size [OF small _ that] sb(4) by (simp add: buffer_ok_def sized_def)
    show thesis
    proof (cases "pos = ?left \<and> trivial_copy env \<and> trivial_dtor env")
      case True
      then have eq: "vector_shrink env pos n v h = vec_then (sb_editResize env b (?cap * mItemSize env) h) ?found"
        using small sb Some pos by (simp add: vector_shrink_def capacity_def Let_def)
      have plain: "trivial_dtor env" using True by simp
      have "filled env ?xs (resized ?cap (sb_slots sb))"
      proof -
        obtain rest where "sb_slots sb = map Some (take pos (items v h)) @ rest"
          using sb(3) map_Some_split [of "items v h" pos] by (auto simp: filled_def)
        then show ?thesis using True pos len by (auto simp: filled_def resized_def)
      qed
      then show thesis
        by (cases rule: resize_own [OF h Some sb(1) plain, of "?cap * mItemSize env"])
          (use that(1) moved stuck size big in \<open>simp_all add: eq\<close>)
    next
      case False
      then have eq: "vector_shrink env pos n v h = vec_then (move_anew env (?cap * mItemSize env) pos (pos + n) (?left - pos) pos v h) ?found"
        using small sb pos by (auto simp: vector_shrink_def capacity_def Let_def)
      show thesis
      proof (cases rule: anew_own [OF h, of ?cap "?cap * mItemSize env" pos pos "pos + n" "?left - pos"])
        case (8 b1 h1 sb1)
        then have "filled env ?xs (sb_slots sb1)" using len pos by (auto simp: filled_def)
        then show thesis using moved 8 by (simp add: eq)
      qed (use that(1) stuck pos size big in \<open>auto simp: eq\<close>)
    qed
  next
    case False
    have "vector_shrink env pos n v h = vec_then (editArrayImpl env v h) (\<lambda>(v1, h1).
                   vec_then (update_slots (destroy_items env pos n) (the (mStorage v1)) h1) (\<lambda>h2.
                   vec_then (if pos \<noteq> ?left
                             then update_slots (move_items env pos (pos + n) (?left - pos)) (the (mStorage v1)) h2
                             else Gives h2) (\<lambda>h3.
                   Gives (v1\<lparr>mCount := ?left\<rparr>, h3))))"
      using False sb pos by (simp add: vector_shrink_def capacity_def Let_def)
    then show thesis by (cases rule: shrink_in_place [OF h pos Some sb(1)]) (use that in \<open>auto simp: removed_def\<close>)
  qed
qed

end
