(* ===== verification/Vector_Values.thy ===== *)
theory Vector_Values
  imports Vector_Props
begin

text \<open>
  The operations of a vector (\<open>VectorImpl.cpp\<close>) as operations on lists, and every sequence of operations on any number
  of vectors that share storage as a sequence of operations on lists of their own.
\<close>


subsection \<open>Operations on one vector among others\<close>

definition short_of :: "'a vec_env \<Rightarrow> nat \<Rightarrow> bool" where
  "short_of env n \<longleftrightarrow> (\<exists>k. \<not> ve_room env k) \<or> too_big env n"

definition acts :: "'a vec_env \<Rightarrow> vector_impl multiset \<Rightarrow> 'a buffers \<Rightarrow> nat \<Rightarrow> (int \<Rightarrow> 'a list \<Rightarrow> bool)
    \<Rightarrow> (int \<times> vector_impl \<times> 'a buffers) vec_run \<Rightarrow> bool" where
  "acts env W h n R run = (case run of
       Misuse \<Rightarrow> False
     | Fatal_error \<Rightarrow> short_of env n
     | Gives (r, v1, h1) \<Rightarrow> heap_sound env (add_mset v1 W) h1 \<and> same_items W h h1 \<and> R r (items v1 h1))"

lemma acts_simps [simp]:
  "acts env W h n R Misuse = False" "acts env W h n R Fatal_error = short_of env n"
  "acts env W h n R (Gives (r, v1, h1)) \<longleftrightarrow> heap_sound env (add_mset v1 W) h1 \<and> same_items W h h1 \<and> R r (items v1 h1)"
  by (simp_all add: acts_def)

lemma acts_mono: "acts env W h n R run \<Longrightarrow> (\<And>r ys. R r ys \<Longrightarrow> R' r ys) \<Longrightarrow> acts env W h n R' run"
  by (auto simp: acts_def split: vec_run.splits)

definition inserted :: "'a vec_env \<Rightarrow> nat \<Rightarrow> 'a list \<Rightarrow> 'a list \<Rightarrow> int \<Rightarrow> 'a list \<Rightarrow> bool" where
  "inserted env pos new xs r ys \<longleftrightarrow>
     (if pos > length xs then r = BAD_INDEX \<and> ys = xs
      else r = int pos \<and> ys = take pos xs @ new @ drop pos xs \<or> r = NO_MEMORY \<and> ys = xs \<and> (new = [] \<or> (\<exists>k. \<not> ve_room env k)))"

lemma insertion:
  assumes h: "heap_sound env (add_mset v W) h" and pos: "pos \<le> mCount v" and size: "mItemSize env > 0" and n: "length ys = n"
    and src: "\<And>h1 b1 sb1. own_buffer env W h1 b1 sb1 \<Longrightarrow> same_items W h h1 \<Longrightarrow> f h1 = Gives ys"
  shows "acts env W h (mCount v + n) (inserted env pos ys (items v h)) (vec_then (vector_grow env pos n v h) (fill_hole env pos f))"
proof (cases rule: grow_own [OF h pos size, of n])
  case 1
  then show ?thesis by (simp add: short_of_def)
next
  case (2 v1 h1)
  then show ?thesis using n pos length_items [OF h] by (auto simp: fill_hole_def inserted_def)
next
  case (3 b1 h1 sb1)
  let ?v1 = "\<lparr>mStorage = Some b1, mCount = mCount v + n\<rparr>" and ?zs = "take pos (items v h) @ ys @ drop pos (items v h)"
  have len: "length (items v h) = mCount v" by (rule length_items [OF h])
  obtain s where s: "place_items env pos ys (sb_slots sb1) = Gives s" "filled env ?zs s" "length s = length (sb_slots sb1)"
    using roomy_filled [of env "items v h" pos ys] 3(3) n pos len by metis
  obtain h2 where h2: "update_slots (place_items env pos ys) b1 h1 = Gives h2" "own_buffer env W h2 b1 (sb1\<lparr>sb_slots := s\<rparr>)" "same_items W h1 h2"
    by (rule update_own [OF 3(2), where f = "place_items env pos ys", OF s(1,3)])
  have "heap_sound env (add_mset ?v1 W) h2 \<and> items ?v1 h2 = ?zs" by (rule join [OF h2(2)]) (use s(2) n pos len in auto)
  moreover have "same_items W h h2" using 3(4) h2(3) by (rule same_items_trans)
  ultimately show ?thesis using 3(1) src [OF 3(2,4)] h2(1) pos len by (simp add: fill_hole_def inserted_def)
qed

definition new_items :: "'a vec_env \<Rightarrow> 'a option \<Rightarrow> nat \<Rightarrow> nat \<Rightarrow> 'a list" where
  "new_items env item pos n = (case item of Some x \<Rightarrow> replicate n x | None \<Rightarrow> map (fresh_item env) [pos..<pos + n])"

lemma length_new_items [simp]: "length (new_items env item pos n) = n"
  by (simp add: new_items_def split: option.splits)

lemma insertAt_acts:
  assumes h: "heap_sound env (add_mset v W) h" and size: "mItemSize env > 0"
  shows "acts env W h (mCount v + n) (inserted env pos (new_items env item pos n) (items v h)) (vector_insertAt env item pos n v h)"
proof (cases "pos > mCount v")
  case True
  then show ?thesis using h length_items [OF h] by (simp add: vector_insertAt_def inserted_def)
next
  case False
  then show ?thesis
    using insertion [OF h _ size length_new_items, of pos "\<lambda>_. Gives (new_items env item pos n)"]
    by (simp add: vector_insertAt_def new_items_def)
qed

lemma other_items:
  assumes "own_buffer env W h1 b1 sb1" "same_items W h h1" "w \<in># W" "mStorage w = Some b"
  obtains sb where "at_buffer b h1 = Gives sb" "filled env (items w h) (sb_slots sb)" "length (items w h) = mCount w"
proof -
  have "heap_sound env (add_mset w (W - {#w#})) (set_buffer b1 None h1)" using assms(1,3) by (simp add: own_buffer_def)
  from vector_stored [OF this assms(4)] obtain sb where sb: "at_buffer b (set_buffer b1 None h1) = Gives sb"
    "filled env (items w (set_buffer b1 None h1)) (sb_slots sb)" "length (items w (set_buffer b1 None h1)) = mCount w" by metis
  moreover have "mStorage w \<noteq> Some b1" using assms(1,3) not_owned [of env W b1 h1 w] by (auto simp: own_buffer_def)
  ultimately show thesis using assms(2-4) by (intro that [of sb]) (auto simp: at_buffer_def same_items_def split: if_splits)
qed

lemma insertVectorAt_acts:
  assumes h: "heap_sound env (add_mset v W) h" and size: "mItemSize env > 0" and w: "w \<in># W"
  shows "acts env W h (mCount v + mCount w) (inserted env pos (items w h) (items v h)) (vector_insertVectorAt env w pos v h)"
proof (cases "pos > mCount v")
  case True
  then show ?thesis using h length_items [OF h] by (simp add: vector_insertVectorAt_def inserted_def)
next
  case False
  have "add_mset w (add_mset v W - {#w#}) = add_mset v W" using w by (intro insert_DiffM) simp
  then have len: "length (items w h) = mCount w" using length_items h by metis
  have "(if mCount w = 0 then Gives [] else case mStorage w of None \<Rightarrow> Misuse
            | Some b \<Rightarrow> vec_then (at_buffer b h1) (\<lambda>sb. read_items 0 (mCount w) (sb_slots sb))) = Gives (items w h)"
    if own: "own_buffer env W h1 b1 sb1" "same_items W h h1" for h1 b1 sb1
  proof (cases "mStorage w")
    case None
    then show ?thesis using len by (simp add: items_def)
  next
    case (Some b)
    from other_items [OF own w Some] obtain sb where "at_buffer b h1 = Gives sb" "filled env (items w h) (sb_slots sb)" by metis
    then show ?thesis using Some len filled_read [of env "items w h" "sb_slots sb" 0 "mCount w"] by (cases "mCount w = 0") auto
  qed
  then show ?thesis
    using insertion [OF h _ size len, of pos] False by (simp add: vector_insertVectorAt_def)
qed

definition replaced :: "nat \<Rightarrow> 'a \<Rightarrow> 'a list \<Rightarrow> int \<Rightarrow> 'a list \<Rightarrow> bool" where
  "replaced pos x xs r ys \<longleftrightarrow> (if pos \<ge> length xs then r = BAD_INDEX \<and> ys = xs else r = int pos \<and> ys = xs[pos := x])"

lemma replaceAt_acts:
  assumes h: "heap_sound env (add_mset v W) h"
  shows "acts env W h n (replaced pos x (items v h)) (vector_replaceAt env x pos v h)"
proof (cases "pos \<ge> mCount v")
  case True
  then show ?thesis using h length_items [OF h] by (simp add: vector_replaceAt_def replaced_def)
next
  case pos: False
  let ?xs = "items v h"
  have len: "length ?xs = mCount v" by (rule length_items [OF h])
  obtain b where b: "mStorage v = Some b" using vector_unstored(1) [OF h] pos by (cases "mStorage v") auto
  from vector_stored [OF h b] obtain sb where sb: "bufs h b = Some sb" by metis
  show ?thesis
  proof (cases rule: edit_own [OF h b sb])
    case 1
    then show ?thesis using pos by (simp add: vector_replaceAt_def short_of_def)
  next
    case (2 b1 h1 sb1)
    let ?pre = "map Some (take pos ?xs)" and ?post = "map Some (drop (Suc pos) ?xs)" and ?v1 = "v\<lparr>mStorage := Some b1\<rparr>"
    obtain rest where rest: "sb_slots sb1 = ?pre @ map Some [?xs ! pos] @ ?post @ rest" "raw env rest"
    proof -
      have "?xs = take pos ?xs @ [?xs ! pos] @ drop (Suc pos) ?xs" using pos len by (simp add: Cons_nth_drop_Suc)
      then have "map Some ?xs = ?pre @ map Some [?xs ! pos] @ ?post" by (metis map_append)
      then show thesis using 2(3) that by (auto simp: filled_raw)
    qed
    have lp: "length ?pre = pos" using pos len by simp
    obtain old where old: "destroy_items env pos 1 (sb_slots sb1) = Gives (?pre @ old @ ?post @ rest)" "length old = 1" "raw env old"
      using destroy_items_at [OF lp, of env "[?xs ! pos]" "?post @ rest"] by (auto simp: rest raw_def)
    obtain h2 where h2: "update_slots (destroy_items env pos 1) b1 h1 = Gives h2"
      "own_buffer env W h2 b1 (sb1\<lparr>sb_slots := ?pre @ old @ ?post @ rest\<rparr>)" "same_items W h1 h2"
      by (rule update_own [OF 2(2), where f = "destroy_items env pos 1", OF old(1)]) (use rest old(2) in simp)
    have "place_items env pos [x] (sb_slots (sb1\<lparr>sb_slots := ?pre @ old @ ?post @ rest\<rparr>)) = Gives (?pre @ map Some [x] @ ?post @ rest)"
      using place_items_at [OF lp, of old "[x]" env "?post @ rest"] old by (simp add: raw_def)
    then obtain h3 where h3: "update_slots (place_items env pos [x]) b1 h2 = Gives h3"
      "own_buffer env W h3 b1 (sb1\<lparr>sb_slots := ?pre @ old @ ?post @ rest, sb_slots := ?pre @ map Some [x] @ ?post @ rest\<rparr>)" "same_items W h2 h3"
      by (rule update_own [OF h2(2), where f = "place_items env pos [x]"]) (use old(2) in simp)
    have "heap_sound env (add_mset ?v1 W) h3 \<and> items ?v1 h3 = take pos ?xs @ [x] @ drop (Suc pos) ?xs"
      by (rule join [OF h3(2)]) (use rest(2) pos len in \<open>auto simp: filled_raw\<close>)
    moreover have "same_items W h h3" using 2(5) h2(3) h3(3) by (blast intro: same_items_trans)
    ultimately show ?thesis
      using pos len 2(1) h2(1) h3(1) by (simp add: vector_replaceAt_def replaced_def upd_conv_take_nth_drop)
  qed
qed

definition taken_out :: "'a vec_env \<Rightarrow> nat \<Rightarrow> nat \<Rightarrow> 'a list \<Rightarrow> int \<Rightarrow> 'a list \<Rightarrow> bool" where
  "taken_out env pos n xs r ys \<longleftrightarrow>
     (if pos + n > length xs then r = BAD_VALUE \<and> ys = xs else r = int pos \<and> removed env pos n xs ys)"

lemma removeItemsAt_acts:
  assumes h: "heap_sound env (add_mset v W) h" and size: "mItemSize env > 0" and "pos + n < 2 ^ 64"
  shows "acts env W h (mCount v) (taken_out env pos n (items v h)) (vector_removeItemsAt env pos n v h)"
proof (cases "pos + n > mCount v")
  case True
  then show ?thesis using h length_items [OF h] assms(3) by (simp add: vector_removeItemsAt_def taken_out_def)
next
  case False
  then show ?thesis using length_items [OF h] assms(3)
    by (cases rule: shrink_kept [OF h _ size, of pos n])
      (auto simp: vector_removeItemsAt_def taken_out_def short_of_def)
qed

lemma clear_acts:
  assumes h: "heap_sound env (add_mset v W) h" and size: "mItemSize env > 0"
  shows "acts env W h (mCount v) (\<lambda>r ys. r = OK \<and> removed env 0 (length (items v h)) (items v h) ys) (vector_clear env v h)"
  using length_items [OF h]
  by (cases rule: shrink_kept [OF h _ size, of 0 "mCount v"]) (auto simp: vector_clear_def short_of_def)

definition capacity_set :: "'a vec_env \<Rightarrow> nat \<Rightarrow> 'a list \<Rightarrow> int \<Rightarrow> 'a list \<Rightarrow> bool" where
  "capacity_set env n xs r ys \<longleftrightarrow> ys = xs \<and>
     (r \<ge> int (length xs) \<and> (n > length xs \<longrightarrow> r = int n) \<or> r = NO_MEMORY \<and> (\<exists>k. \<not> ve_room env k))"

lemma setCapacity_acts:
  assumes h: "heap_sound env (add_mset v W) h" and size: "mItemSize env > 0"
  shows "acts env W h n (capacity_set env n (items v h)) (vector_setCapacity env n v h)"
proof -
  let ?xs = "items v h"
  have len: "length ?xs = mCount v" by (rule length_items [OF h])
  obtain st where st: "storage_of v h = Gives st" "mCount v \<le> capacity env st"
  proof (cases "mStorage v")
    case None
    then show thesis using that vector_unstored [OF h None] by simp
  next
    case (Some b)
    from vector_stored [OF h Some] obtain sb where "storage_of v h = Gives (Some sb)" "filled env ?xs (sb_slots sb)"
      "buffer_ok env (add_mset v W) b sb" by metis
    then show thesis using that [of "Some sb"] filled_length [of env ?xs "sb_slots sb"] len by (simp add: capacity_def buffer_ok_def sized_def)
  qed
  have big: "too_big env n" if "oversize (n * mItemSize env)"
  proof -
    have "n * mItemSize env \<le> max kMinVectorCapacity (n + n div 2 + 1) * mItemSize env" by (intro mult_le_mono1) simp
    with that show ?thesis unfolding too_big_def oversize_def by linarith
  qed
  consider "n \<le> mCount v" | "n > mCount v" "n * mItemSize env > SIZE_MAX" | "n > mCount v" "n * mItemSize env \<le> SIZE_MAX" by linarith
  then show ?thesis
  proof cases
    case 1
    then show ?thesis using h st len by (simp add: vector_setCapacity_def capacity_set_def)
  next
    case 2
    then show ?thesis using st big by (simp add: vector_setCapacity_def short_of_def oversize_def)
  next
    case 3
    have eq: "vector_setCapacity env n v h = vec_then (move_anew env (n * mItemSize env) (mCount v) (mCount v) 0 (mCount v) v h)
        (\<lambda>(found, h1). case found of None \<Rightarrow> Gives (NO_MEMORY, v, h1) | Some b1 \<Rightarrow> Gives (int n, v\<lparr>mStorage := Some b1\<rparr>, h1))"
      using 3 st by (simp add: vector_setCapacity_def)
    show ?thesis
    proof (cases rule: anew_own [OF h, of n "n * mItemSize env" "mCount v" "mCount v" "mCount v" 0])
      case (8 b1 h1 sb1)
      then have "filled env ?xs (sb_slots sb1)" using len by (auto simp: filled_def)
      then have "heap_sound env (add_mset (v\<lparr>mStorage := Some b1\<rparr>) W) h1 \<and> items (v\<lparr>mStorage := Some b1\<rparr>) h1 = ?xs"
        by (rule join [OF 8(2)]) (use len in simp_all)
      then show ?thesis using 8 3 len by (simp add: eq capacity_set_def)
    qed (use 3 big size in \<open>auto simp: eq short_of_def capacity_set_def same_items_def\<close>)
  qed
qed

lemma sort_in_order:
  "(\<And>j. i \<le> j \<Longrightarrow> j < length xs \<Longrightarrow> cmp (xs ! (j - 1)) (xs ! j) \<le> 0) \<Longrightarrow> sort_items cmp i xs = xs"
proof (induction "length xs - i" arbitrary: i)
  case (Suc n)
  then have "sort_items cmp (Suc i) xs = xs" by auto
  moreover have "\<not> cmp (xs ! (i - 1)) (xs ! i) > 0" using Suc.prems [of i] Suc.hyps(2) by force
  ultimately show ?case by (subst sort_items.simps) simp
qed (subst sort_items.simps, simp)

lemma length_sort_items [simp]: "length (sort_items cmp i xs) = length xs"
proof (induction cmp i xs rule: sort_items.induct)
  case (1 cmp i xs)
  then show ?case by (subst sort_items.simps) simp
qed

definition sorted_by :: "'a vec_env \<Rightarrow> ('a \<Rightarrow> 'a \<Rightarrow> int) \<Rightarrow> 'a list \<Rightarrow> int \<Rightarrow> 'a list \<Rightarrow> bool" where
  "sorted_by env cmp xs r ys \<longleftrightarrow> r = OK \<and> ys = sort_items cmp 1 xs \<or> r = NO_MEMORY \<and> ys = xs \<and> (\<exists>k. \<not> ve_room env k)"

lemma sort_disordered:
  assumes h: "heap_sound env (add_mset v W) h" and b: "mStorage v = Some b" and sb: "bufs h b = Some sb"
  shows "acts env W h n (sorted_by env cmp (items v h)) (vec_then (editArrayImpl env v h) (\<lambda>(v1, h1).
      let h2 = h1\<lparr>next_buf := Suc (next_buf h1)\<rparr>
      in if ve_room env (next_buf h1) then
           vec_then (update_slots (\<lambda>slots. Gives (map Some (sort_items cmp 1 (items v h)) @ drop (mCount v) slots))
                       (the (mStorage v1)) h2) (\<lambda>h3. Gives (OK, v1, h3))
         else Gives (NO_MEMORY, v1, h2)))"
proof (cases rule: edit_own [OF h b sb])
  case 1
  then show ?thesis by (simp add: short_of_def)
next
  case (2 b1 h1 sb1)
  let ?xs = "items v h"
  let ?h2 = "h1\<lparr>next_buf := Suc (next_buf h1)\<rparr>" and ?v1 = "v\<lparr>mStorage := Some b1\<rparr>" and ?ys = "sort_items cmp 1 ?xs"
  let ?f = "\<lambda>slots. Gives (map Some ?ys @ drop (mCount v) slots)"
  have len: "length ?xs = mCount v" by (rule length_items [OF h])
  have own: "own_buffer env W ?h2 b1 sb1" by (rule own_next [OF 2(2)])
  obtain rest where rest: "sb_slots sb1 = map Some ?xs @ rest" "raw env rest" using 2(3) by (auto simp: filled_raw)
  have here: "same_items W h ?h2" using 2(5) by (simp add: same_items_def)
  show ?thesis
  proof (cases "ve_room env (next_buf h1)")
    case True
    obtain h3 where h3: "update_slots ?f b1 ?h2 = Gives h3" "own_buffer env W h3 b1 (sb1\<lparr>sb_slots := map Some ?ys @ rest\<rparr>)" "same_items W ?h2 h3"
      by (rule update_own [OF own, where f = ?f and slots = "map Some ?ys @ rest"]) (use rest len in simp_all)
    have "heap_sound env (add_mset ?v1 W) h3 \<and> items ?v1 h3 = ?ys"
      by (rule join [OF h3(2)]) (use rest(2) len in \<open>auto simp: filled_raw\<close>)
    then show ?thesis using True 2(1) h3 here by (auto simp: sorted_by_def intro: same_items_trans)
  next
    case False
    have "heap_sound env (add_mset ?v1 W) ?h2 \<and> items ?v1 ?h2 = ?xs" by (rule join [OF own 2(3)]) (use len in simp_all)
    then show ?thesis using False 2(1) here by (auto simp: sorted_by_def)
  qed
qed

lemma sort_acts:
  assumes h: "heap_sound env (add_mset v W) h"
  shows "acts env W h n (sorted_by env cmp (items v h)) (vector_sort env cmp v h)"
proof -
  let ?xs = "items v h"
  have len: "length ?xs = mCount v" by (rule length_items [OF h])
  have same: "sort_items cmp 1 ?xs = ?xs" if "pairs_in_order cmp ?xs \<or> mCount v \<le> 1"
    by (rule sort_in_order) (use that len in \<open>auto simp: pairs_in_order_def list_all_iff\<close>)
  show ?thesis
  proof (cases "mCount v \<le> 1")
    case True
    then show ?thesis using h same by (simp add: vector_sort_def sorted_by_def)
  next
    case many: False
    then obtain b where b: "mStorage v = Some b" using vector_unstored(1) [OF h] by (cases "mStorage v") auto
    from vector_stored [OF h b] obtain sb where sb: "bufs h b = Some sb" "storage_of v h = Gives (Some sb)" "filled env ?xs (sb_slots sb)" by metis
    have rd: "read_items 0 (mCount v) (sb_slots sb) = Gives ?xs" using filled_read [OF sb(3), of 0 "mCount v"] len by simp
    show ?thesis
      using many sb(2) rd h same sort_disordered [OF h b sb(1), of n cmp] by (auto simp: vector_sort_def sorted_by_def)
  qed
qed

lemma too_big_mono: "m \<le> n \<Longrightarrow> too_big env m \<Longrightarrow> too_big env n"
proof -
  assume "m \<le> n"
  then have "max kMinVectorCapacity (m + m div 2 + 1) * mItemSize env \<le> max kMinVectorCapacity (n + n div 2 + 1) * mItemSize env"
    by (intro mult_le_mono1 max.mono add_mono div_le_mono) auto
  then show "too_big env m \<Longrightarrow> too_big env n" unfolding too_big_def oversize_def by linarith
qed

lemma acts_more: "acts env W h m R run \<Longrightarrow> m \<le> n \<Longrightarrow> acts env W h n R run"
  by (auto simp: acts_def short_of_def dest: too_big_mono split: vec_run.splits)

lemma count_small:
  assumes "heap_sound env (add_mset v W) h"
  shows "mCount v < 2 ^ 64"
proof (cases "mStorage v")
  case (Some b)
  from vector_stored [OF assms Some] obtain sb where sb: "filled env (items v h) (sb_slots sb)" "length (items v h) = mCount v"
    "buffer_ok env (add_mset v W) b sb" by metis
  then have "sized env sb" unfolding buffer_ok_def by blast
  then have "length (sb_slots sb) = mSize sb div mItemSize env" "mSize sb < SIZE_MAX"
    by (auto simp: sized_def slots_of_def oversize_def)
  then have "mCount v < SIZE_MAX" using filled_length [OF sb(1)] sb(2) div_le_dividend [of "mSize sb" "mItemSize env"] by linarith
  then show ?thesis by (simp add: SIZE_MAX_def)
qed (use vector_unstored [OF assms] in simp)

definition resized_to :: "'a vec_env \<Rightarrow> nat \<Rightarrow> 'a list \<Rightarrow> int \<Rightarrow> 'a list \<Rightarrow> bool" where
  "resized_to env n xs r ys \<longleftrightarrow>
     (if n > length xs then
        r = int n \<and> ys = xs @ map (fresh_item env) [length xs..<n] \<or> r = NO_MEMORY \<and> ys = xs \<and> (\<exists>k. \<not> ve_room env k)
      else r = int n \<and> (ys = take n xs \<or> ys = xs \<and> (\<exists>k. \<not> ve_room env k)))"

lemma resize_acts:
  assumes h: "heap_sound env (add_mset v W) h" and size: "mItemSize env > 0"
  shows "acts env W h (max n (mCount v)) (resized_to env n (items v h)) (vector_resize env n v h)"
proof -
  have len: "length (items v h) = mCount v" by (rule length_items [OF h])
  consider "n > mCount v" | "n < mCount v" | "n = mCount v" by linarith
  then show ?thesis
  proof cases
    case 1
    have "acts env W h n (inserted env (mCount v) (map (fresh_item env) [mCount v..<n]) (items v h))
        (vector_insertAt env None (mCount v) (n - mCount v) v h)"
      using insertAt_acts [OF h size, where item = None and pos = "mCount v" and n = "n - mCount v"] 1 by (simp add: new_items_def)
    with 1 len show ?thesis
      by (cases "vector_insertAt env None (mCount v) (n - mCount v) v h")
        (auto simp: vector_resize_def inserted_def resized_to_def NO_MEMORY_def max_def)
  next
    case 2
    have "acts env W h (mCount v) (taken_out env n (mCount v - n) (items v h)) (vector_removeItemsAt env n (mCount v - n) v h)"
      by (rule removeItemsAt_acts [OF h size]) (use count_small [OF h] 2 in simp)
    with 2 len show ?thesis
      by (cases "vector_removeItemsAt env n (mCount v - n) v h")
        (auto simp: vector_resize_def taken_out_def resized_to_def removed_def max_def)
  next
    case 3
    then show ?thesis using h len by (auto simp: vector_resize_def resized_to_def OK_def)
  qed
qed

lemma pop_acts:
  assumes h: "heap_sound env (add_mset v W) h" and size: "mItemSize env > 0"
  shows "acts env W h (mCount v) (\<lambda>r ys. ys = butlast (items v h) \<or> ys = items v h \<and> (\<exists>k. \<not> ve_room env k)) (vector_pop env v h)"
proof (cases "mCount v = 0")
  case True
  then show ?thesis using h length_items [OF h] by (simp add: vector_pop_def)
next
  case False
  have "acts env W h (mCount v) (taken_out env (mCount v - 1) 1 (items v h)) (vector_removeItemsAt env (mCount v - 1) 1 v h)"
    by (rule removeItemsAt_acts [OF h size]) (use count_small [OF h] False in simp)
  then have "acts env W h (mCount v) (\<lambda>r ys. ys = butlast (items v h) \<or> ys = items v h \<and> (\<exists>k. \<not> ve_room env k))
      (vector_removeItemsAt env (mCount v - 1) 1 v h)"
    by (rule acts_mono) (use False length_items [OF h] in \<open>auto simp: taken_out_def removed_def butlast_conv_take split: if_splits\<close>)
  then show ?thesis using False by (simp add: vector_pop_def)
qed


subsection \<open>Any number of vectors\<close>

type_synonym 'a vectors = "vector_impl list \<times> 'a buffers"

definition on_vector :: "nat \<Rightarrow> (vector_impl \<Rightarrow> 'a buffers \<Rightarrow> (int \<times> vector_impl \<times> 'a buffers) vec_run) \<Rightarrow> 'a vectors \<Rightarrow> (int \<times> 'a vectors) vec_run" where
  "on_vector i f st = (case st of (vs, h) \<Rightarrow>
     vec_then (f (vs ! i) h) (\<lambda>(r, v1, h1). Gives (r, vs[i := v1], h1)))"

definition contents_of :: "'a vectors \<Rightarrow> 'a list list" where
  "contents_of st = (case st of (vs, h) \<Rightarrow> map (\<lambda>v. items v h) vs)"

definition store_ok :: "'a vec_env \<Rightarrow> 'a vectors \<Rightarrow> bool" where
  "store_ok env st = (case st of (vs, h) \<Rightarrow> heap_sound env (mset vs) h)"

text \<open>A step of the vectors stands for a step of the lists.\<close>

definition stands_for :: "'a vec_env \<Rightarrow> nat \<Rightarrow> (int \<Rightarrow> 'a list list \<Rightarrow> bool) \<Rightarrow> (int \<times> 'a vectors) vec_run \<Rightarrow> bool" where
  "stands_for env n R run = (case run of
       Misuse \<Rightarrow> False
     | Fatal_error \<Rightarrow> short_of env n
     | Gives (r, st1) \<Rightarrow> store_ok env st1 \<and> R r (contents_of st1))"

lemma split_nth:
  assumes "i < length vs"
  shows "mset vs = add_mset (vs ! i) (mset vs - {#vs ! i#})"
    and "j < length vs \<Longrightarrow> j \<noteq> i \<Longrightarrow> vs ! j \<in># mset vs - {#vs ! i#}"
proof -
  have "vs = take i vs @ vs ! i # drop (Suc i) vs" using assms by (rule id_take_nth_drop)
  then have "mset vs = mset (take i vs @ vs ! i # drop (Suc i) vs)" by (rule arg_cong)
  then have m: "mset vs - {#vs ! i#} = mset (take i vs @ drop (Suc i) vs)" by simp
  show "mset vs = add_mset (vs ! i) (mset vs - {#vs ! i#})" using assms by simp
  assume "j < length vs" "j \<noteq> i"
  then have "vs ! j \<in> set (take i vs) \<or> vs ! j \<in> set (drop (Suc i) vs)"
    by (cases "j < i") (auto simp: in_set_conv_nth intro: exI [of _ j] exI [of _ "j - Suc i"])
  then show "vs ! j \<in># mset vs - {#vs ! i#}" unfolding m by auto
qed

lemma on_vector_stands_for:
  assumes ok: "store_ok env (vs, h)" and i: "i < length vs"
    and f: "\<And>W. mset vs = add_mset (vs ! i) W \<Longrightarrow> acts env W h n R (f (vs ! i) h)"
  shows "stands_for env n (\<lambda>r yss. \<exists>ys. R r ys \<and> yss = (contents_of (vs, h))[i := ys]) (on_vector i f (vs, h))"
proof -
  let ?W = "mset vs - {#vs ! i#}"
  have a: "acts env ?W h n R (f (vs ! i) h)" by (rule f [OF split_nth(1) [OF i]])
  show ?thesis
  proof (cases "f (vs ! i) h")
    case (Gives x)
    obtain r v1 h1 where x: "x = (r, v1, h1)" by (cases x)
    from a have s: "heap_sound env (add_mset v1 ?W) h1" "same_items ?W h h1" "R r (items v1 h1)" by (auto simp: Gives x)
    have "mset (vs[i := v1]) = add_mset v1 ?W" using i by (simp add: mset_update)
    moreover have "map (\<lambda>v. items v h1) (vs[i := v1]) = (map (\<lambda>v. items v h) vs)[i := items v1 h1]"
      using i s(2) split_nth(2) [OF i] by (intro nth_equalityI) (auto simp: nth_list_update same_items_def)
    ultimately show ?thesis using s Gives x by (auto simp: on_vector_def stands_for_def store_ok_def contents_of_def)
  qed (use a in \<open>simp_all add: on_vector_def stands_for_def\<close>)
qed

datatype 'a vector_op =
  New_vector
| Copy_vector nat
| Assign nat nat
| Insert_items nat "'a option" nat nat
| Insert_vector nat nat nat
| Replace_item nat 'a nat
| Remove_items nat nat nat
| Pop nat
| Clear nat
| Set_capacity nat nat
| Resize nat nat
| Sort nat "'a \<Rightarrow> 'a \<Rightarrow> int"
| Finish nat

text \<open>\<open>operator =\<close> does nothing for a vector assigned to itself.\<close>

fun apply_op :: "'a vec_env \<Rightarrow> 'a vector_op \<Rightarrow> 'a vectors \<Rightarrow> (int \<times> 'a vectors) vec_run" where
  "apply_op env New_vector (vs, h) = Gives (OK, vs @ [new_vector], h)"
| "apply_op env (Copy_vector j) (vs, h) = vec_then (vector_copy (vs ! j) h) (\<lambda>(v, h1). Gives (OK, vs @ [v], h1))"
| "apply_op env (Assign i j) (vs, h) =
     (if i = j then Gives (OK, vs, h)
      else on_vector i (\<lambda>v h. vec_then (vector_assign env (vs ! j) v h) (\<lambda>(v1, h1). Gives (OK, v1, h1))) (vs, h))"
| "apply_op env (Insert_items i x pos n) (vs, h) = on_vector i (vector_insertAt env x pos n) (vs, h)"
| "apply_op env (Insert_vector i j pos) (vs, h) = on_vector i (vector_insertVectorAt env (vs ! j) pos) (vs, h)"
| "apply_op env (Replace_item i x pos) (vs, h) = on_vector i (vector_replaceAt env x pos) (vs, h)"
| "apply_op env (Remove_items i pos n) (vs, h) = on_vector i (vector_removeItemsAt env pos n) (vs, h)"
| "apply_op env (Pop i) (vs, h) = on_vector i (vector_pop env) (vs, h)"
| "apply_op env (Clear i) (vs, h) = on_vector i (vector_clear env) (vs, h)"
| "apply_op env (Set_capacity i n) (vs, h) = on_vector i (vector_setCapacity env n) (vs, h)"
| "apply_op env (Resize i n) (vs, h) = on_vector i (vector_resize env n) (vs, h)"
| "apply_op env (Sort i cmp) (vs, h) = on_vector i (vector_sort env cmp) (vs, h)"
| "apply_op env (Finish i) (vs, h) = on_vector i (\<lambda>v h. vec_then (finish_vector env v h) (\<lambda>(v1, h1). Gives (OK, v1, h1))) (vs, h)"

fun run_vectors :: "'a vec_env \<Rightarrow> 'a vector_op list \<Rightarrow> 'a vectors \<Rightarrow> 'a vectors vec_run" where
  "run_vectors env [] st = Gives st"
| "run_vectors env (c # cs) st = vec_then (apply_op env c st) (\<lambda>(r, st1). run_vectors env cs st1)"

text \<open>The same operations on lists that share nothing.\<close>

fun list_op :: "'a vec_env \<Rightarrow> 'a vector_op \<Rightarrow> 'a list list \<Rightarrow> int \<Rightarrow> 'a list list \<Rightarrow> bool" where
  "list_op env New_vector xss r yss \<longleftrightarrow> r = OK \<and> yss = xss @ [[]]"
| "list_op env (Copy_vector j) xss r yss \<longleftrightarrow> r = OK \<and> yss = xss @ [xss ! j]"
| "list_op env (Assign i j) xss r yss \<longleftrightarrow> r = OK \<and> yss = xss[i := xss ! j]"
| "list_op env (Insert_items i x pos n) xss r yss \<longleftrightarrow> (\<exists>ys. inserted env pos (new_items env x pos n) (xss ! i) r ys \<and> yss = xss[i := ys])"
| "list_op env (Insert_vector i j pos) xss r yss \<longleftrightarrow> (\<exists>ys. inserted env pos (xss ! j) (xss ! i) r ys \<and> yss = xss[i := ys])"
| "list_op env (Replace_item i x pos) xss r yss \<longleftrightarrow> (\<exists>ys. replaced pos x (xss ! i) r ys \<and> yss = xss[i := ys])"
| "list_op env (Remove_items i pos n) xss r yss \<longleftrightarrow> (\<exists>ys. taken_out env pos n (xss ! i) r ys \<and> yss = xss[i := ys])"
| "list_op env (Pop i) xss r yss \<longleftrightarrow> (\<exists>ys. (ys = butlast (xss ! i) \<or> ys = xss ! i \<and> (\<exists>k. \<not> ve_room env k)) \<and> yss = xss[i := ys])"
| "list_op env (Clear i) xss r yss \<longleftrightarrow> (\<exists>ys. (r = OK \<and> removed env 0 (length (xss ! i)) (xss ! i) ys) \<and> yss = xss[i := ys])"
| "list_op env (Set_capacity i n) xss r yss \<longleftrightarrow> (\<exists>ys. capacity_set env n (xss ! i) r ys \<and> yss = xss[i := ys])"
| "list_op env (Resize i n) xss r yss \<longleftrightarrow> (\<exists>ys. resized_to env n (xss ! i) r ys \<and> yss = xss[i := ys])"
| "list_op env (Sort i cmp) xss r yss \<longleftrightarrow> (\<exists>ys. sorted_by env cmp (xss ! i) r ys \<and> yss = xss[i := ys])"
| "list_op env (Finish i) xss r yss \<longleftrightarrow> r = OK \<and> yss = xss[i := []]"

fun list_runs :: "'a vec_env \<Rightarrow> 'a vector_op list \<Rightarrow> 'a list list \<Rightarrow> 'a list list \<Rightarrow> bool" where
  "list_runs env [] xss yss \<longleftrightarrow> yss = xss"
| "list_runs env (c # cs) xss yss \<longleftrightarrow> (\<exists>r zss. list_op env c xss r zss \<and> list_runs env cs zss yss)"

text \<open>
  The operations that are allowed with \<open>n\<close> vectors: they name vectors that exist, do not insert a vector into itself, and
  the range to remove does not wrap around.
\<close>

fun op_ok :: "nat \<Rightarrow> 'a vector_op \<Rightarrow> bool" where
  "op_ok n New_vector \<longleftrightarrow> True"
| "op_ok n (Copy_vector j) \<longleftrightarrow> j < n"
| "op_ok n (Assign i j) \<longleftrightarrow> i < n \<and> j < n"
| "op_ok n (Insert_items i x pos m) \<longleftrightarrow> i < n"
| "op_ok n (Insert_vector i j pos) \<longleftrightarrow> i < n \<and> j < n \<and> i \<noteq> j"
| "op_ok n (Replace_item i x pos) \<longleftrightarrow> i < n"
| "op_ok n (Remove_items i pos m) \<longleftrightarrow> i < n \<and> pos + m < 2 ^ 64"
| "op_ok n (Pop i) \<longleftrightarrow> i < n"
| "op_ok n (Clear i) \<longleftrightarrow> i < n"
| "op_ok n (Set_capacity i m) \<longleftrightarrow> i < n"
| "op_ok n (Resize i m) \<longleftrightarrow> i < n"
| "op_ok n (Sort i cmp) \<longleftrightarrow> i < n"
| "op_ok n (Finish i) \<longleftrightarrow> i < n"

fun ops_ok :: "nat \<Rightarrow> 'a vector_op list \<Rightarrow> bool" where
  "ops_ok n [] \<longleftrightarrow> True"
| "ops_ok n (c # cs) \<longleftrightarrow> op_ok n c \<and> ops_ok (case c of New_vector \<Rightarrow> Suc n | Copy_vector j \<Rightarrow> Suc n | _ \<Rightarrow> n) cs"

text \<open>How many items an operation needs storage for.\<close>

fun needs :: "'a vector_op \<Rightarrow> 'a list list \<Rightarrow> nat" where
  "needs (Insert_items i x pos n) xss = length (xss ! i) + n"
| "needs (Insert_vector i j pos) xss = length (xss ! i) + length (xss ! j)"
| "needs (Set_capacity i n) xss = n"
| "needs (Resize i n) xss = max n (length (xss ! i))"
| "needs (Remove_items i pos n) xss = length (xss ! i)"
| "needs (Pop i) xss = length (xss ! i)"
| "needs (Clear i) xss = length (xss ! i)"
| "needs c xss = 0"

lemma new_sound:
  assumes "heap_sound env W h"
  shows "heap_sound env (add_mset new_vector W) h" "items new_vector h = []"
  using assms by (auto simp: heap_sound_def new_vector_def items_def)

lemma copy_sound:
  assumes h: "heap_sound env W h" and w: "w \<in># W"
  obtains h1 where "vector_copy w h = Gives (w, h1)" "heap_sound env (add_mset w W) h1" "\<And>v. items v h1 = items v h"
proof (cases "mStorage w")
  case None
  then have "heap_sound env (add_mset w W) h" using h w by (auto simp: heap_sound_def)
  then show thesis using that None by (simp add: vector_copy_def)
next
  case (Some b)
  obtain sb where sb: "bufs h b = Some sb" using sound_vector [OF h w Some] by auto
  let ?h1 = "set_buffer b (Some (sb\<lparr>mRefs := mRefs sb + 1\<rparr>)) h"
  have "vector_copy w h = Gives (w, ?h1)" using Some sb by (simp add: vector_copy_def sb_acquire_def at_buffer_def)
  moreover have "items v ?h1 = items v h" for v using sb by (auto simp: items_def split: option.splits)
  moreover have "heap_sound env (add_mset w W) ?h1"
  proof (rule heap_soundI)
    fix b' sb' assume b': "bufs ?h1 b' = Some sb'"
    show "b' < next_buf ?h1" using b' sb sound_buffer [OF h] by (auto split: if_splits)
    show "buffer_ok env (add_mset w W) b' sb'"
    proof (cases "b' = b")
      case True
      then have "sb' = sb\<lparr>mRefs := mRefs sb + 1\<rparr>" using b' by simp
      moreover have "buffer_ok env W b sb" using sound_buffer [OF h sb] by simp
      ultimately show ?thesis using True Some w by (auto simp: buffer_ok_def)
    qed (use b' Some sound_buffer [OF h, of b' sb'] in auto)
  next
    fix v b' assume "v \<in># add_mset w W" "mStorage v = Some b'"
    then show "\<exists>sb. bufs ?h1 b' = Some sb" using sound_vector [OF h, of v b'] w by auto
  next
    fix v assume "v \<in># add_mset w W" "mStorage v = None"
    then show "mCount v = 0" using sound_empty [OF h, of v] w by auto
  qed
  ultimately show thesis using that by blast
qed

lemma assign_acts:
  assumes h: "heap_sound env (add_mset v W) h" and w: "w \<in># W"
  shows "acts env W h n (\<lambda>r ys. r = OK \<and> ys = items w h)
    (vec_then (vector_assign env w v h) (\<lambda>(v1, h1). Gives (OK, v1, h1)))"
proof -
  from release_sound [OF h] obtain h1 where h1: "release_storage env v h = Gives h1" "heap_sound env W h1" "same_items W h h1" by metis
  show ?thesis
  proof (cases "mCount w > 0")
    case True
    from copy_sound [OF h1(2) w] obtain h2 where h2: "vector_copy w h1 = Gives (w, h2)" "heap_sound env (add_mset w W) h2" "\<And>v. items v h2 = items v h1" by metis
    then show ?thesis using True h1 w by (simp add: vector_assign_def same_items_def)
  next
    case False
    then have "items w h = []" by (auto simp: items_def split: option.splits)
    then show ?thesis using False h1 new_sound [OF h1(2)] by (simp add: vector_assign_def)
  qed
qed

lemma finish_acts:
  assumes h: "heap_sound env (add_mset v W) h"
  shows "acts env W h n (\<lambda>r ys. r = OK \<and> ys = []) (vec_then (finish_vector env v h) (\<lambda>(v1, h1). Gives (OK, v1, h1)))"
proof -
  from release_sound [OF h] obtain h1 where h1: "release_storage env v h = Gives h1" "heap_sound env W h1" "same_items W h h1" by metis
  then show ?thesis using new_sound [OF h1(2)] by (simp add: finish_vector_def)
qed

lemma contents_nth [simp]: "i < length vs \<Longrightarrow> contents_of (vs, h) ! i = items (vs ! i) h"
  by (simp add: contents_of_def)

lemma length_contents [simp]: "length (contents_of (vs, h)) = length vs"
  by (simp add: contents_of_def)

lemma stands_for_mono:
  "stands_for env n R run \<Longrightarrow> (\<And>r yss. R r yss \<Longrightarrow> R' r yss) \<Longrightarrow> stands_for env n R' run"
  by (auto simp: stands_for_def split: vec_run.splits)

lemma other_vector:
  assumes "mset vs = add_mset (vs ! i) W" "j < length vs" "i < length vs" "i \<noteq> j"
  shows "vs ! j \<in># W"
  using split_nth(2) [of i vs j] assms by simp

lemma op_stands_for:
  assumes ok: "store_ok env (vs, h)" and size: "mItemSize env > 0" and c: "op_ok (length vs) c"
  shows "stands_for env (needs c (contents_of (vs, h))) (list_op env c (contents_of (vs, h))) (apply_op env c (vs, h))"
proof -
  have sound: "heap_sound env (mset vs) h" using ok by (simp add: store_ok_def)
  have len: "length (items (vs ! i) h) = mCount (vs ! i)" if "i < length vs" for i
    using length_items [of env "vs ! i" "mset vs - {#vs ! i#}" h] split_nth(1) [OF that] sound by simp
  have on: "stands_for env n (list_op env c (contents_of (vs, h))) (on_vector i f (vs, h))"
    if "i < length vs" "\<And>W. mset vs = add_mset (vs ! i) W \<Longrightarrow> acts env W h n R (f (vs ! i) h)"
      "\<And>r ys. R r ys \<Longrightarrow> list_op env c (contents_of (vs, h)) r ((contents_of (vs, h))[i := ys])" for i f R n
    by (rule stands_for_mono [OF on_vector_stands_for [OF ok that(1), where f = f and R = R]]) (use that in auto)
  show ?thesis
  proof (cases c)
    case New_vector
    then show ?thesis using new_sound [OF sound] by (simp add: stands_for_def store_ok_def contents_of_def)
  next
    case (Copy_vector j)
    then obtain h1 where "vector_copy (vs ! j) h = Gives (vs ! j, h1)" "heap_sound env (add_mset (vs ! j) (mset vs)) h1" "\<And>v. items v h1 = items v h"
      using copy_sound [OF sound, of "vs ! j"] c by auto
    then show ?thesis using Copy_vector c by (simp add: stands_for_def store_ok_def contents_of_def)
  next
    case (Assign i j)
    have "stands_for env 0 (list_op env c (contents_of (vs, h)))
        (on_vector i (\<lambda>v h. vec_then (vector_assign env (vs ! j) v h) (\<lambda>(v1, h1). Gives (OK, v1, h1))) (vs, h))" if "i \<noteq> j"
      by (rule on, use c Assign in simp, rule assign_acts) (use c Assign sound that in \<open>auto intro: other_vector\<close>)
    then show ?thesis using Assign ok c by (auto simp: stands_for_def simp flip: contents_nth)
  next
    case (Finish i)
    have "stands_for env 0 (list_op env c (contents_of (vs, h)))
        (on_vector i (\<lambda>v h. vec_then (finish_vector env v h) (\<lambda>(v1, h1). Gives (OK, v1, h1))) (vs, h))"
      by (rule on, use c Finish in simp, rule finish_acts) (use c Finish sound in auto)
    then show ?thesis using Finish by simp
  next
    case (Insert_items i x pos n)
    have "stands_for env (needs c (contents_of (vs, h))) (list_op env c (contents_of (vs, h))) (on_vector i (vector_insertAt env x pos n) (vs, h))"
      by (rule on, use c Insert_items in simp, rule acts_more [OF insertAt_acts [OF _ size]]) (use c Insert_items sound len in \<open>auto\<close>)
    then show ?thesis using Insert_items by simp
  next
    case (Insert_vector i j pos)
    have "stands_for env (needs c (contents_of (vs, h))) (list_op env c (contents_of (vs, h))) (on_vector i (vector_insertVectorAt env (vs ! j) pos) (vs, h))"
      by (rule on, use c Insert_vector in simp, rule acts_more [OF insertVectorAt_acts [OF _ size]]) (use c Insert_vector sound len in \<open>auto intro: other_vector\<close>)
    then show ?thesis using Insert_vector by simp
  next
    case (Replace_item i x pos)
    have "stands_for env (needs c (contents_of (vs, h))) (list_op env c (contents_of (vs, h))) (on_vector i (vector_replaceAt env x pos) (vs, h))"
      by (rule on, use c Replace_item in simp, rule acts_more [OF replaceAt_acts]) (use c Replace_item sound len in \<open>auto\<close>)
    then show ?thesis using Replace_item by simp
  next
    case (Remove_items i pos n)
    have "stands_for env (needs c (contents_of (vs, h))) (list_op env c (contents_of (vs, h))) (on_vector i (vector_removeItemsAt env pos n) (vs, h))"
      by (rule on, use c Remove_items in simp, rule acts_more [OF removeItemsAt_acts [OF _ size]]) (use c Remove_items sound len in \<open>auto\<close>)
    then show ?thesis using Remove_items by simp
  next
    case (Pop i)
    have "stands_for env (needs c (contents_of (vs, h))) (list_op env c (contents_of (vs, h))) (on_vector i (vector_pop env) (vs, h))"
      by (rule on, use c Pop in simp, rule acts_more [OF pop_acts [OF _ size]]) (use c Pop sound len in \<open>auto\<close>)
    then show ?thesis using Pop by simp
  next
    case (Clear i)
    have "stands_for env (needs c (contents_of (vs, h))) (list_op env c (contents_of (vs, h))) (on_vector i (vector_clear env) (vs, h))"
      by (rule on, use c Clear in simp, rule acts_more [OF clear_acts [OF _ size]]) (use c Clear sound len in \<open>auto\<close>)
    then show ?thesis using Clear by simp
  next
    case (Set_capacity i n)
    have "stands_for env (needs c (contents_of (vs, h))) (list_op env c (contents_of (vs, h))) (on_vector i (vector_setCapacity env n) (vs, h))"
      by (rule on, use c Set_capacity in simp, rule acts_more [OF setCapacity_acts [OF _ size]]) (use c Set_capacity sound len in \<open>auto\<close>)
    then show ?thesis using Set_capacity by simp
  next
    case (Resize i n)
    have "stands_for env (needs c (contents_of (vs, h))) (list_op env c (contents_of (vs, h))) (on_vector i (vector_resize env n) (vs, h))"
      by (rule on, use c Resize in simp, rule acts_more [OF resize_acts [OF _ size]]) (use c Resize sound len in \<open>auto\<close>)
    then show ?thesis using Resize by simp
  next
    case (Sort i cmp)
    have "stands_for env (needs c (contents_of (vs, h))) (list_op env c (contents_of (vs, h))) (on_vector i (vector_sort env cmp) (vs, h))"
      by (rule on, use c Sort in simp, rule acts_more [OF sort_acts]) (use c Sort sound len in \<open>auto\<close>)
    then show ?thesis using Sort by simp
  qed
qed

lemma list_op_length:
  "list_op env c xss r yss \<Longrightarrow> length yss = (case c of New_vector \<Rightarrow> Suc (length xss) | Copy_vector j \<Rightarrow> Suc (length xss) | _ \<Rightarrow> length xss)"
  by (cases c) auto

lemma run_stands_for:
  assumes size: "mItemSize env > 0"
  shows "store_ok env (vs, h) \<Longrightarrow> ops_ok (length vs) cs \<Longrightarrow>
    (case run_vectors env cs (vs, h) of
       Misuse \<Rightarrow> False
     | Fatal_error \<Rightarrow> \<exists>before c after yss. cs = before @ c # after \<and> list_runs env before (contents_of (vs, h)) yss \<and> short_of env (needs c yss)
     | Gives st \<Rightarrow> store_ok env st \<and> list_runs env cs (contents_of (vs, h)) (contents_of st))"
proof (induction cs arbitrary: vs h)
  case (Cons c cs)
  let ?xss = "contents_of (vs, h)"
  have s: "stands_for env (needs c ?xss) (list_op env c ?xss) (apply_op env c (vs, h))"
    using op_stands_for [OF Cons.prems(1) size] Cons.prems(2) by simp
  show ?case
  proof (cases "apply_op env c (vs, h)")
    case Fatal_error
    then have "run_vectors env (c # cs) (vs, h) = Fatal_error" "short_of env (needs c ?xss)" using s by (simp_all add: stands_for_def)
    then show ?thesis
      by (simp only: vec_run.case)
        (rule exI [of _ "[]"], rule exI [of _ c], rule exI [of _ cs], rule exI [of _ ?xss], simp)
  next
    case (Gives x)
    obtain r vs1 h1 where x: "x = (r, vs1, h1)" by (cases x)
    have c: "store_ok env (vs1, h1)" "list_op env c ?xss r (contents_of (vs1, h1))" using s by (simp_all add: Gives x stands_for_def)
    have "ops_ok (length vs1) cs" using Cons.prems(2) list_op_length [OF c(2), unfolded length_contents] by simp
    note IH = Cons.IH [OF c(1) this]
    show ?thesis
    proof (cases "run_vectors env cs (vs1, h1)")
      case Fatal_error
      with IH obtain before d after yss where d: "cs = before @ d # after" "list_runs env before (contents_of (vs1, h1)) yss" "short_of env (needs d yss)" by auto
      then have "list_runs env (c # before) ?xss yss" using c(2) by auto
      moreover have "run_vectors env (c # cs) (vs, h) = Fatal_error" using Gives x Fatal_error by simp
      ultimately show ?thesis unfolding d(1) using d(3)
        by (simp only: vec_run.case)
          (rule exI [of _ "c # before"], rule exI [of _ d], rule exI [of _ after], rule exI [of _ yss], simp)
    qed (use IH c(2) Gives x in auto)
  qed (use s in \<open>simp add: stands_for_def\<close>)
qed simp


subsection \<open>Vectors are values\<close>


definition sample_vec_env :: "int vec_env" where
  "sample_vec_env = \<lparr>mItemSize = 8, trivial_copy = False, trivial_dtor = False, fresh_item = (\<lambda>_. 0), ve_room = (\<lambda>_. True)\<rparr>"

definition sample_vec_ops :: "int vector_op list" where
  "sample_vec_ops = [New_vector, Insert_items 0 (Some 7) 0 2, Copy_vector 0, Replace_item 1 9 0, Insert_vector 0 1 1, Remove_items 1 1 1]"

lemmas vector_evaluation = sample_vec_env_def sample_vec_ops_def no_buffers_def new_vector_def on_vector_def contents_of_def items_def
  vector_insertAt_def vector_insertVectorAt_def vector_copy_def vector_replaceAt_def vector_removeItemsAt_def vector_grow_def
  grow_storage_def grow_in_place_def grown_size_def fill_hole_def vector_shrink_def move_anew_def sb_alloc_def sb_acquire_def
  release_storage_def sb_dealloc_def copy_items_def editArrayImpl_def update_slots_def storage_of_def capacity_def at_buffer_def
  set_buffer_def onlyOwner_def oversize_def slots_of_def header_size_def kMinVectorCapacity_def SIZE_MAX_def
  read_items_def place_items_def destroy_items_def move_items_def blank_def


end
