(* ===== verification/Sorted_Vector.thy ===== *)
theory Sorted_Vector
  imports Vector_Values Ordered_Map
begin

text \<open>
  Sorted vectors (\<open>SortedVectorImpl\<close> in \<open>system/core/libutils/VectorImpl.cpp\<close>), the keyed vectors on them
  (\<open>KeyedVector.h\<close>), and the objects attached to a proxy that are kept in one (\<open>BpBinder::ObjectManager\<close> in
  \<open>frameworks/native/libs/binder/BpBinder.cpp\<close>).
\<close>


subsection \<open>Comparisons\<close>

definition strictly_order_type :: "'k::linorder \<Rightarrow> 'k \<Rightarrow> int" where
  "strictly_order_type lhs rhs = (if lhs < rhs then 1 else 0)"

definition compare_type :: "'k::linorder \<Rightarrow> 'k \<Rightarrow> int" where
  "compare_type lhs rhs = strictly_order_type rhs lhs - strictly_order_type lhs rhs"

text \<open>The order of \<open>key_value_pair_t\<close>.\<close>

definition compare_pairs :: "'k::linorder \<times> 'v \<Rightarrow> 'k \<times> 'v \<Rightarrow> int" where
  "compare_pairs lhs rhs = compare_type (fst lhs) (fst rhs)"


subsection \<open>Sorted vectors\<close>

text \<open>The binary search of \<open>_indexOrderOf\<close>: the index or \<open>NAME_NOT_FOUND\<close>, and the order.\<close>

function search_loop :: "('a \<Rightarrow> 'a \<Rightarrow> int) \<Rightarrow> 'a list \<Rightarrow> 'a \<Rightarrow> int \<Rightarrow> int \<Rightarrow> int \<times> int" where
  "search_loop cmp a item l h =
     (if l \<le> h then
        (let mid = l + (h - l) div 2; c = cmp (a ! nat mid) item
         in if c = 0 then (mid, mid)
            else if c < 0 then search_loop cmp a item (mid + 1) h
            else search_loop cmp a item l (mid - 1))
      else (NAME_NOT_FOUND, l))"
  by pat_completeness auto

termination search_loop
  by (relation "measure (\<lambda>(cmp, a, item, l, h). nat (h - l + 1))") auto

declare search_loop.simps [simp del]

definition indexOrderOf :: "('a \<Rightarrow> 'a \<Rightarrow> int) \<Rightarrow> 'a list \<Rightarrow> 'a \<Rightarrow> int \<times> int" where
  "indexOrderOf cmp a item = (if a = [] then (NAME_NOT_FOUND, 0) else search_loop cmp a item 0 (int (length a) - 1))"

text \<open>The items as \<open>arrayImpl\<close> gives them.\<close>

definition array_items :: "vector_impl \<Rightarrow> 'a buffers \<Rightarrow> 'a list vec_run" where
  "array_items v h =
     (if mCount v = 0 then Gives []
      else vec_then (storage_of v h) (\<lambda>st. case st of None \<Rightarrow> Misuse | Some sb \<Rightarrow> read_items 0 (mCount v) (sb_slots sb)))"

definition sorted_add :: "'a vec_env \<Rightarrow> ('a \<Rightarrow> 'a \<Rightarrow> int) \<Rightarrow> 'a \<Rightarrow> vector_impl \<Rightarrow> 'a buffers \<Rightarrow> (int \<times> vector_impl \<times> 'a buffers) vec_run" where
  "sorted_add env cmp item v h =
     vec_then (array_items v h) (\<lambda>a. case indexOrderOf cmp a item of (index, order) \<Rightarrow>
       if index < 0 then vector_insertAt env (Some item) (nat order) 1 v h
       else vector_replaceAt env item (nat index) v h)"

definition sorted_remove :: "'a vec_env \<Rightarrow> ('a \<Rightarrow> 'a \<Rightarrow> int) \<Rightarrow> 'a \<Rightarrow> vector_impl \<Rightarrow> 'a buffers \<Rightarrow> (int \<times> vector_impl \<times> 'a buffers) vec_run" where
  "sorted_remove env cmp item v h =
     vec_then (array_items v h) (\<lambda>a. case indexOrderOf cmp a item of (i, _) \<Rightarrow>
       if i \<ge> 0 then vec_then (vector_removeItemsAt env (nat i) 1 v h) (\<lambda>(_, v1, h1). Gives (i, v1, h1))
       else Gives (i, v, h))"

text \<open>\<open>merge\<close> of a vector, whose items are \<open>xs\<close>, and of a sorted vector.\<close>

fun sorted_merge_items :: "'a vec_env \<Rightarrow> ('a \<Rightarrow> 'a \<Rightarrow> int) \<Rightarrow> 'a list \<Rightarrow> vector_impl \<Rightarrow> 'a buffers \<Rightarrow> (int \<times> vector_impl \<times> 'a buffers) vec_run" where
  "sorted_merge_items env cmp [] v h = Gives (OK, v, h)"
| "sorted_merge_items env cmp (x # xs) v h =
     vec_then (sorted_add env cmp x v h) (\<lambda>(err, v1, h1).
       if err < 0 then Gives (err, v1, h1) else sorted_merge_items env cmp xs v1 h1)"

definition item_at :: "nat \<Rightarrow> vector_impl \<Rightarrow> 'a buffers \<Rightarrow> 'a vec_run" where
  "item_at i v h = vec_then (storage_of v h) (\<lambda>st. case st of None \<Rightarrow> Misuse
     | Some sb \<Rightarrow> vec_then (read_items i 1 (sb_slots sb)) (\<lambda>xs. Gives (hd xs)))"

definition sorted_merge :: "'a vec_env \<Rightarrow> ('a \<Rightarrow> 'a \<Rightarrow> int) \<Rightarrow> vector_impl \<Rightarrow> vector_impl \<Rightarrow> 'a buffers \<Rightarrow> (int \<times> vector_impl \<times> 'a buffers) vec_run" where
  "sorted_merge env cmp vector v h =
     (if mCount vector = 0 then Gives (OK, v, h)
      else
        vec_then (item_at (mCount vector - 1) vector h) (\<lambda>last.
        vec_then (item_at 0 v h) (\<lambda>first.
        if cmp last first \<le> 0 then vector_insertVectorAt env vector 0 v h
        else
          vec_then (item_at 0 vector h) (\<lambda>first'.
          vec_then (item_at (mCount v - 1) v h) (\<lambda>last'.
          if cmp first' last' \<ge> 0 then vector_appendVector env vector v h
          else vec_then (array_items vector h) (\<lambda>xs. sorted_merge_items env cmp xs v h))))))"


subsection \<open>Keyed vectors\<close>

text \<open>A pair made of a key alone has a default value.\<close>

definition key_pair :: "('k \<times> 'v) vec_env \<Rightarrow> 'k \<Rightarrow> 'k \<times> 'v" where
  "key_pair env k = (k, snd (fresh_item env 0))"

definition keyed_indexOfKey :: "('k::linorder \<times> 'v) vec_env \<Rightarrow> 'k \<Rightarrow> vector_impl \<Rightarrow> ('k \<times> 'v) buffers \<Rightarrow> int vec_run" where
  "keyed_indexOfKey env k v h = vec_then (array_items v h) (\<lambda>a. Gives (fst (indexOrderOf compare_pairs a (key_pair env k))))"

definition keyed_valueAt :: "nat \<Rightarrow> vector_impl \<Rightarrow> ('k \<times> 'v) buffers \<Rightarrow> 'v vec_run" where
  "keyed_valueAt i v h = vec_then (item_at i v h) (\<lambda>e. Gives (snd e))"

definition keyed_valueFor :: "('k::linorder \<times> 'v) vec_env \<Rightarrow> 'k \<Rightarrow> vector_impl \<Rightarrow> ('k \<times> 'v) buffers \<Rightarrow> 'v vec_run" where
  "keyed_valueFor env k v h =
     vec_then (keyed_indexOfKey env k v h) (\<lambda>i. if i < 0 then Fatal_error else keyed_valueAt (nat i) v h)"

text \<open>\<open>DefaultKeyedVector::valueFor\<close>.\<close>

definition default_valueFor :: "('k::linorder \<times> 'v) vec_env \<Rightarrow> 'v \<Rightarrow> 'k \<Rightarrow> vector_impl \<Rightarrow> ('k \<times> 'v) buffers \<Rightarrow> 'v vec_run" where
  "default_valueFor env mDefault k v h =
     vec_then (keyed_indexOfKey env k v h) (\<lambda>i. if i \<ge> 0 then keyed_valueAt (nat i) v h else Gives mDefault)"

definition keyed_add :: "('k::linorder \<times> 'v) vec_env \<Rightarrow> 'k \<Rightarrow> 'v \<Rightarrow> vector_impl \<Rightarrow> ('k \<times> 'v) buffers \<Rightarrow> (int \<times> vector_impl \<times> ('k \<times> 'v) buffers) vec_run" where
  "keyed_add env k x v h = sorted_add env compare_pairs (k, x) v h"

definition keyed_removeItem :: "('k::linorder \<times> 'v) vec_env \<Rightarrow> 'k \<Rightarrow> vector_impl \<Rightarrow> ('k \<times> 'v) buffers \<Rightarrow> (int \<times> vector_impl \<times> ('k \<times> 'v) buffers) vec_run" where
  "keyed_removeItem env k v h = sorted_remove env compare_pairs (key_pair env k) v h"

definition keyed_replaceValueFor :: "('k::linorder \<times> 'v) vec_env \<Rightarrow> 'k \<Rightarrow> 'v \<Rightarrow> vector_impl \<Rightarrow> ('k \<times> 'v) buffers \<Rightarrow> (int \<times> vector_impl \<times> ('k \<times> 'v) buffers) vec_run" where
  "keyed_replaceValueFor env k x v h =
     vec_then (sorted_remove env compare_pairs (k, x) v h) (\<lambda>(_, v1, h1). sorted_add env compare_pairs (k, x) v1 h1)"

text \<open>\<open>editItemAt (index).value = item\<close>.\<close>

definition keyed_replaceValueAt :: "('k::linorder \<times> 'v) vec_env \<Rightarrow> nat \<Rightarrow> 'v \<Rightarrow> vector_impl \<Rightarrow> ('k \<times> 'v) buffers \<Rightarrow> (int \<times> vector_impl \<times> ('k \<times> 'v) buffers) vec_run" where
  "keyed_replaceValueAt env index x v h =
     (if index < mCount v then
        vec_then (item_at index v h) (\<lambda>e. vector_replaceAt env (fst e, x) index v h)
      else Gives (BAD_INDEX, v, h))"


subsection \<open>Objects attached to a proxy\<close>

record attached =
  at_object :: nat
  at_cookie :: nat
  at_func :: "nat option"

text \<open>A cleanup function that is called, with its object id, object and cookie.\<close>

type_synonym cleanup_call = "nat \<times> nat \<times> nat \<times> nat"

definition objects_attach :: "(nat \<times> attached) vec_env \<Rightarrow> nat \<Rightarrow> attached \<Rightarrow> vector_impl \<Rightarrow> (nat \<times> attached) buffers \<Rightarrow> (vector_impl \<times> (nat \<times> attached) buffers) vec_run" where
  "objects_attach env objectID e v h =
     vec_then (keyed_indexOfKey env objectID v h) (\<lambda>i.
       if i \<ge> 0 then Gives (v, h) else vec_then (keyed_add env objectID e v h) (\<lambda>(_, v1, h1). Gives (v1, h1)))"

definition objects_find :: "(nat \<times> attached) vec_env \<Rightarrow> nat \<Rightarrow> vector_impl \<Rightarrow> (nat \<times> attached) buffers \<Rightarrow> nat option vec_run" where
  "objects_find env objectID v h =
     vec_then (keyed_indexOfKey env objectID v h) (\<lambda>i.
       if i < 0 then Gives None else vec_then (keyed_valueAt (nat i) v h) (\<lambda>e. Gives (Some (at_object e))))"

definition objects_detach :: "(nat \<times> attached) vec_env \<Rightarrow> nat \<Rightarrow> vector_impl \<Rightarrow> (nat \<times> attached) buffers \<Rightarrow> (vector_impl \<times> (nat \<times> attached) buffers) vec_run" where
  "objects_detach env objectID v h = vec_then (keyed_removeItem env objectID v h) (\<lambda>(_, v1, h1). Gives (v1, h1))"

definition cleanups :: "(nat \<times> attached) list \<Rightarrow> cleanup_call list" where
  "cleanups es = concat (map (\<lambda>(k, e). case at_func e of None \<Rightarrow> [] | Some f \<Rightarrow> [(f, k, at_object e, at_cookie e)]) es)"

definition objects_kill :: "(nat \<times> attached) vec_env \<Rightarrow> vector_impl \<Rightarrow> (nat \<times> attached) buffers \<Rightarrow> (cleanup_call list \<times> vector_impl \<times> (nat \<times> attached) buffers) vec_run" where
  "objects_kill env v h =
     vec_then (array_items v h) (\<lambda>es.
     vec_then (vector_clear env v h) (\<lambda>(_, v1, h1). Gives (cleanups es, v1, h1)))"

end
