(* ===== verification/Keyed_Vector.thy ===== *)
theory Keyed_Vector
  imports Sorted_Vector
begin

text \<open>
  What an order gives sorted vectors (\<open>VectorImpl.cpp\<close>): the binary search finds what a search from the front finds,
  the insertion sort is a stable sort, and a keyed vector (\<open>KeyedVector.h\<close>) is a map. The order is the interface
  \<open>ranking\<close>; \<open>TypeHelpers.h\<close> provides it for every type with \<open><\<close> and for pairs by their keys.
\<close>


subsection \<open>Searching by rank\<close>

definition ranked :: "('a \<Rightarrow> 'k::linorder) \<Rightarrow> 'a list \<Rightarrow> bool" where
  "ranked key xs \<longleftrightarrow> sorted_wrt (<) (map key xs)"

definition place :: "('a \<Rightarrow> 'k::linorder) \<Rightarrow> 'k \<Rightarrow> 'a list \<Rightarrow> nat" where
  "place key k xs = length (takeWhile (\<lambda>y. key y < k) xs)"

definition found_at :: "('a \<Rightarrow> 'k::linorder) \<Rightarrow> 'k \<Rightarrow> 'a list \<Rightarrow> bool" where
  "found_at key k xs \<longleftrightarrow> place key k xs < length xs \<and> key (xs ! place key k xs) = k"

lemma ranked_nth: "ranked key xs \<Longrightarrow> i < j \<Longrightarrow> j < length xs \<Longrightarrow> key (xs ! i) < key (xs ! j)"
  by (auto simp: ranked_def sorted_wrt_iff_nth_less)

lemma place_eqI:
  assumes "p \<le> length xs" "\<And>i. i < p \<Longrightarrow> key (xs ! i) < k" "p < length xs \<Longrightarrow> \<not> key (xs ! p) < k"
  shows "place key k xs = p"
proof -
  have "takeWhile (\<lambda>y. key y < k) xs = take p xs"
    by (rule takeWhile_eq_take_P_nth) (use assms in auto)
  then show ?thesis using assms(1) by (simp add: place_def)
qed

locale ranking =
  fixes cmp :: "'a \<Rightarrow> 'a \<Rightarrow> int" and key :: "'a \<Rightarrow> 'k::linorder"
  assumes cmp_less: "cmp x y < 0 \<longleftrightarrow> key x < key y" and cmp_eq: "cmp x y = 0 \<longleftrightarrow> key x = key y"
begin

lemma cmp_greater: "cmp x y > 0 \<longleftrightarrow> key x > key y"
  using cmp_less [of x y] cmp_eq [of x y] by (metis linorder_neqE_linordered_idom not_less_iff_gr_or_eq)

lemma search_loop_exact:
  "ranked key a \<Longrightarrow> 0 \<le> l \<Longrightarrow> h < int (length a) \<Longrightarrow> l \<le> h + 1 \<Longrightarrow> (\<And>i. int i < l \<Longrightarrow> key (a ! i) < key item) \<Longrightarrow>
    (\<And>i. h < int i \<Longrightarrow> i < length a \<Longrightarrow> key item < key (a ! i)) \<Longrightarrow>
    search_loop cmp a item l h =
      (if found_at key (key item) a then int (place key (key item) a) else NAME_NOT_FOUND, int (place key (key item) a))"
proof (induction "nat (h - l + 1)" arbitrary: l h rule: less_induct)
  case less
  note prems = less.prems
  show ?case
  proof (cases "l \<le> h")
    case False
    have "place key (key item) a = nat l"
      by (rule place_eqI) (use prems False in \<open>auto simp: not_less less_imp_le\<close>)
    moreover have "\<not> found_at key (key item) a"
      using prems(6) [of "nat l"] False prems(2,4) calculation by (auto simp: found_at_def)
    ultimately show ?thesis using False prems(2) by (subst search_loop.simps) simp
  next
    case True
    define mid where "mid = l + (h - l) div 2"
    have mid: "l \<le> mid" "mid \<le> h" using True by (auto simp: mid_def)
    have at: "nat mid < length a" using mid prems(2,3) by linarith
    have before: "key (a ! i) < key (a ! nat mid)" if "int i < mid" for i using ranked_nth [OF prems(1), of i "nat mid"] that at mid prems(2) by linarith
    have after: "key (a ! nat mid) < key (a ! i)" if "mid < int i" "i < length a" for i 
      using ranked_nth [OF prems(1), of "nat mid" i] that mid prems(2) by (simp add: nat_less_iff)
    consider "cmp (a ! nat mid) item = 0" | "cmp (a ! nat mid) item < 0" | "cmp (a ! nat mid) item > 0" by linarith
    then show ?thesis
    proof cases
      case 1
      then have eq: "key (a ! nat mid) = key item" by (simp add: cmp_eq)
      have "place key (key item) a = nat mid" by (rule place_eqI) (use at before eq mid prems(2) in auto)
      then show ?thesis using 1 eq at True mid prems(2) by (subst search_loop.simps) (simp add: mid_def [symmetric] found_at_def Let_def)
    next
      case 2
      then have lt: "key (a ! nat mid) < key item" by (simp add: cmp_less)
      have "search_loop cmp a item (mid + 1) h =
          (if found_at key (key item) a then int (place key (key item) a) else NAME_NOT_FOUND, int (place key (key item) a))"
      proof (rule less.hyps)
        fix i assume "int i < mid + 1"
        then show "key (a ! i) < key item" using before [of i] lt by (cases "int i = mid") auto
      qed (use prems mid in auto)
      then show ?thesis using 2 True by (subst search_loop.simps) (simp add: mid_def [symmetric] Let_def)
    next
      case 3
      then have gt: "key (a ! nat mid) > key item" by (simp add: cmp_greater)
      have "search_loop cmp a item l (mid - 1) =
          (if found_at key (key item) a then int (place key (key item) a) else NAME_NOT_FOUND, int (place key (key item) a))"
      proof (rule less.hyps)
        fix i assume "mid - 1 < int i" "i < length a"
        then show "key item < key (a ! i)" using after [of i] gt by (cases "int i = mid") auto
      qed (use prems mid in auto)
      then show ?thesis using 3 True by (subst search_loop.simps) (simp add: mid_def [symmetric] Let_def)
    qed
  qed
qed

lemma indexOrderOf_exact:
  assumes "ranked key a"
  shows "indexOrderOf cmp a item =
    (if found_at key (key item) a then int (place key (key item) a) else NAME_NOT_FOUND, int (place key (key item) a))"
proof (cases "a = []")
  case False
  have "search_loop cmp a item 0 (int (length a) - 1) =
      (if found_at key (key item) a then int (place key (key item) a) else NAME_NOT_FOUND, int (place key (key item) a))"
    by (rule search_loop_exact [OF assms]) (use False in auto)
  then show ?thesis using False by (simp add: indexOrderOf_def)
qed (simp add: indexOrderOf_def found_at_def place_def)

text \<open>The insertion sort: one item sinks to its place behind those that rank as high.\<close>

lemma sift_sinks:
  "\<exists>q1 q2. p = q1 @ q2 \<and> sift_items cmp y (p @ hole # r) (length p) = q1 @ y # q2 @ r \<and> (\<forall>z\<in>set q2. key y < key z) \<and>
     (q1 \<noteq> [] \<longrightarrow> key (last q1) \<le> key y)"
proof (induction p arbitrary: hole r rule: rev_induct)
  case (snoc z p)
  show ?case
  proof (cases "key z > key y")
    case True
    have "sift_items cmp y ((p @ [z]) @ hole # r) (length (p @ [z])) = sift_items cmp y (p @ z # z # r) (length p)"
      using True cmp_greater [of z y] by (simp add: nth_append list_update_append)
    moreover obtain q1 q2 where "p = q1 @ q2" "sift_items cmp y (p @ z # z # r) (length p) = q1 @ y # q2 @ z # r"
      "\<forall>z\<in>set q2. key y < key z" "q1 \<noteq> [] \<longrightarrow> key (last q1) \<le> key y" using snoc [of z "z # r"] by blast
    ultimately show ?thesis using True by (intro exI [of _ q1] exI [of _ "q2 @ [z]"]) auto
  next
    case False
    have "sift_items cmp y ((p @ [z]) @ hole # r) (length (p @ [z])) = (p @ [z]) @ y # [] @ r"
      using False cmp_greater [of z y] by (simp add: nth_append list_update_append)
    with False show ?thesis by (intro exI [of _ "p @ [z]"] exI [of _ "[]"]) auto
  qed
qed simp

lemma sorted_last: "sorted (map key xs) \<Longrightarrow> z \<in> set xs \<Longrightarrow> key z \<le> key (last xs)"
  by (cases xs rule: rev_cases) (auto simp: sorted_append)

lemma sift_step:
  assumes sorted: "sorted (map key p)" and xs: "xs = p @ y # rest"
  defines "ys \<equiv> (if cmp (xs ! (length p - 1)) (xs ! length p) > 0 then sift_items cmp (xs ! length p) xs (length p) else xs)"
  shows "sorted (map key (take (Suc (length p)) ys)) \<and> mset ys = mset xs \<and> (\<forall>k. filter (\<lambda>x. key x = k) ys = filter (\<lambda>x. key x = k) xs)"
proof (cases "cmp (xs ! (length p - 1)) (xs ! length p) > 0")
  case True
  obtain q1 q2 where q: "p = q1 @ q2" "sift_items cmp y (p @ y # rest) (length p) = q1 @ y # q2 @ rest"
    "\<forall>z\<in>set q2. key y < key z" "q1 \<noteq> [] \<longrightarrow> key (last q1) \<le> key y"
    using sift_sinks [of p y y rest] by blast
  have ys: "ys = q1 @ y # q2 @ rest" using True q(2) by (simp add: ys_def xs)
  have "\<forall>z\<in>set q1. key z \<le> key y" using sorted_last [of q1] sorted q(1,4) by (fastforce simp: sorted_append)
  then have "sorted (map key (q1 @ y # q2))" using sorted q(1,3) by (auto simp: sorted_append less_imp_le)
  moreover have "filter (\<lambda>x. key x = k) ys = filter (\<lambda>x. key x = k) xs" for k
  proof -
    have "filter (\<lambda>x. key x = key y) q2 = []" using q(3) by (auto simp: filter_empty_conv)
    then show ?thesis by (cases "key y = k") (auto simp: ys xs q(1))
  qed
  ultimately show ?thesis by (simp add: ys xs q(1))
next
  case False
  have "key z \<le> key y" if "z \<in> set p" for z
  proof -
    have "p \<noteq> []" using that by auto
    then have "xs ! (length p - 1) = last p" by (simp add: xs nth_append last_conv_nth)
    then have "key (last p) \<le> key y" using False by (simp add: xs cmp_greater not_less)
    then show ?thesis using sorted_last [OF sorted that] by simp
  qed
  then show ?thesis using False sorted by (simp add: ys_def xs sorted_append)
qed

lemma sort_items_stable:
  "sorted (map key (take i xs)) \<Longrightarrow> sorted (map key (sort_items cmp i xs)) \<and> mset (sort_items cmp i xs) = mset xs \<and>
     (\<forall>k. filter (\<lambda>x. key x = k) (sort_items cmp i xs) = filter (\<lambda>x. key x = k) xs)"
proof (induction "length xs - i" arbitrary: i xs)
  case 0
  then show ?case by (subst (1 2 3) sort_items.simps) simp
next
  case (Suc n)
  then have i: "i < length xs" by simp
  let ?ys = "if cmp (xs ! (i - 1)) (xs ! i) > 0 then sift_items cmp (xs ! i) xs i else xs"
  have "xs = take i xs @ xs ! i # drop (Suc i) xs" using i by (rule id_take_nth_drop)
  have len: "length (take i xs) = i" using i by simp
  have ys: "sorted (map key (take (Suc i) ?ys))" "mset ?ys = mset xs" "\<forall>k. filter (\<lambda>x. key x = k) ?ys = filter (\<lambda>x. key x = k) xs"
    using sift_step [OF Suc.prems \<open>xs = take i xs @ xs ! i # drop (Suc i) xs\<close>, unfolded len] by blast+
  have "n = length ?ys - Suc i" using Suc.hyps(2) by simp
  from Suc.hyps(1) [OF this ys(1)] ys(2,3) show ?case using i by (subst (1 2 3) sort_items.simps) (simp split del: if_split)
qed

lemma sort_items_sort_key: "sort_items cmp 1 xs = sort_key key xs"
proof -
  have "sorted (map key (take 1 xs))" by (cases xs) simp_all
  note s = sort_items_stable [OF this]
  show ?thesis
  proof (rule sym, rule properties_for_sort_key)
    fix k
    show "filter (\<lambda>x. key k = key x) (sort_items cmp 1 xs) = filter (\<lambda>x. key k = key x) xs"
      using s by (simp add: eq_commute [of "key k"])
  qed (use s in auto)
qed

end


subsection \<open>Adding and removing by rank\<close>

definition rank_put :: "('a \<Rightarrow> 'k::linorder) \<Rightarrow> 'a \<Rightarrow> 'a list \<Rightarrow> 'a list" where
  "rank_put key x xs = takeWhile (\<lambda>y. key y < key x) xs @ x # dropWhile (\<lambda>y. key y \<le> key x) xs"

lemma array_items_sound:
  assumes h: "heap_sound env (add_mset v W) h"
  shows "array_items v h = Gives (items v h)"
proof (cases "mCount v = 0")
  case True
  then show ?thesis using length_items [OF h] by (simp add: array_items_def)
next
  case False
  then obtain b where b: "mStorage v = Some b" using vector_unstored(1) [OF h] by (cases "mStorage v") auto
  from vector_stored [OF h b] obtain sb where sb: "storage_of v h = Gives (Some sb)" "filled env (items v h) (sb_slots sb)"
    "length (items v h) = mCount v" by metis
  then show ?thesis using False filled_read [OF sb(2), of 0 "mCount v"] by (simp add: array_items_def)
qed

lemma item_at_sound:
  assumes h: "heap_sound env (add_mset v W) h" and i: "i < mCount v"
  shows "item_at i v h = Gives (items v h ! i)"
proof -
  obtain b where b: "mStorage v = Some b" using vector_unstored(1) [OF h] i by (cases "mStorage v") auto
  from vector_stored [OF h b] obtain sb where sb: "storage_of v h = Gives (Some sb)" "filled env (items v h) (sb_slots sb)"
    "length (items v h) = mCount v" by metis
  then show ?thesis using i filled_read [OF sb(2), of i 1] by (simp add: item_at_def take_Suc_conv_app_nth hd_drop_conv_nth take_Suc)
qed

lemma ranked_simps [simp]:
  "ranked key []" "ranked key (x # xs) \<longleftrightarrow> (\<forall>y\<in>set xs. key x < key y) \<and> ranked key xs"
  "place key k [] = 0" "place key k (x # xs) = (if key x < k then Suc (place key k xs) else 0)"
  "\<not> found_at key k []" "found_at key k (x # xs) \<longleftrightarrow> (if key x < k then found_at key k xs else key x = k)"
  by (auto simp: ranked_def place_def found_at_def)

lemma place_le: "place key k xs \<le> length xs"
  by (simp add: place_def length_takeWhile_le)

lemma above_drop [simp]: "\<forall>y\<in>set xs. (k :: 'k::linorder) < key y \<Longrightarrow> dropWhile (\<lambda>y. key y \<le> k) xs = xs"
  by (cases xs) (auto simp: not_le)

lemma above_filter [simp]: "\<forall>y\<in>set xs. (k :: 'k::linorder) < key y \<Longrightarrow> filter (\<lambda>y. key y \<noteq> k) xs = xs"
  by (rule filter_True) auto

lemma rank_put_found: "ranked key xs \<Longrightarrow> found_at key (key x) xs \<Longrightarrow> xs[place key (key x) xs := x] = rank_put key x xs"
  by (induction xs) (auto simp: rank_put_def split: if_splits)

lemma rank_put_new:
  "ranked key xs \<Longrightarrow> \<not> found_at key (key x) xs \<Longrightarrow> take (place key (key x) xs) xs @ x # drop (place key (key x) xs) xs = rank_put key x xs"
proof (induction xs)
  case (Cons y xs)
  show ?case
  proof (cases "key y < key x")
    case False
    then have "key x < key y" "\<forall>z\<in>set xs. key x < key z" using Cons.prems by (auto intro: less_trans)
    then show ?thesis using False by (auto simp: rank_put_def)
  qed (use Cons in \<open>auto simp: rank_put_def\<close>)
qed (simp add: rank_put_def)

lemma found_remove:
  "ranked key xs \<Longrightarrow> found_at key k xs \<Longrightarrow> take (place key k xs) xs @ drop (Suc (place key k xs)) xs = filter (\<lambda>y. key y \<noteq> k) xs"
  by (induction xs) (auto split: if_splits)

lemma not_found_remove: "ranked key xs \<Longrightarrow> \<not> found_at key k xs \<Longrightarrow> filter (\<lambda>y. key y \<noteq> k) xs = xs"
proof (induction xs)
  case (Cons y xs)
  then show ?case by (cases "key y < k") (auto intro!: above_filter intro: less_trans)
qed simp

lemma set_rank_put: "z \<in> set (rank_put key x xs) \<Longrightarrow> z = x \<or> z \<in> set xs"
  by (auto simp: rank_put_def dest: set_takeWhileD set_dropWhileD)

lemma rank_put_Cons:
  "rank_put key x (y # ys) = (if key y < key x then y # rank_put key x ys else x # dropWhile (\<lambda>z. key z \<le> key x) (y # ys))"
  by (auto simp: rank_put_def)

lemma ranked_put: "ranked key xs \<Longrightarrow> ranked key (rank_put key x xs)"
proof (induction xs)
  case (Cons y xs)
  show ?case
  proof (cases "key y < key x")
    case True
    then show ?thesis using Cons by (auto simp: rank_put_Cons dest!: set_rank_put)
  next
    case False
    have "\<forall>z\<in>set xs. key x < key z" using Cons.prems False by auto
    then show ?thesis using Cons.prems False by (auto simp: rank_put_Cons)
  qed
qed (simp add: rank_put_def)

lemma ranked_filter: "ranked key xs \<Longrightarrow> ranked key (filter P xs)"
  by (induction xs) auto

context ranking
begin

lemma sorted_add_acts:
  assumes h: "heap_sound env (add_mset v W) h" and size: "mItemSize env > 0" and r: "ranked key (items v h)"
  shows "acts env W h (mCount v + 1) (\<lambda>r ys. r \<ge> 0 \<and> ys = rank_put key item (items v h) \<or> r = NO_MEMORY \<and> ys = items v h \<and> (\<exists>k. \<not> ve_room env k))
    (sorted_add env cmp item v h)"
proof -
  let ?xs = "items v h" and ?p = "place key (key item) (items v h)"
  have len: "length ?xs = mCount v" by (rule length_items [OF h])
  show ?thesis
  proof (cases "found_at key (key item) ?xs")
    case True
    then have "?p < length ?xs" by (simp add: found_at_def)
    moreover have "sorted_add env cmp item v h = vector_replaceAt env item ?p v h"
      using True by (simp add: sorted_add_def array_items_sound [OF h] indexOrderOf_exact [OF r])
    ultimately show ?thesis
      by (simp only:) (rule acts_mono [OF replaceAt_acts [OF h]], use rank_put_found [OF r True] in \<open>auto simp: replaced_def\<close>)
  next
    case False
    have "sorted_add env cmp item v h = vector_insertAt env (Some item) ?p 1 v h"
      using False by (simp add: sorted_add_def array_items_sound [OF h] indexOrderOf_exact [OF r] NAME_NOT_FOUND_def)
    then show ?thesis
      by (simp only:) (rule acts_mono [OF insertAt_acts [OF h size]],
        use rank_put_new [OF r False] place_le [of key "key item" ?xs] in \<open>auto simp: inserted_def new_items_def\<close>)
  qed
qed

lemma sorted_remove_acts:
  assumes h: "heap_sound env (add_mset v W) h" and size: "mItemSize env > 0" and r: "ranked key (items v h)"
  shows "acts env W h (mCount v) (\<lambda>r ys. (r \<ge> 0 \<longleftrightarrow> found_at key (key item) (items v h)) \<and>
      (ys = filter (\<lambda>x. key x \<noteq> key item) (items v h) \<or> ys = items v h \<and> (\<exists>k. \<not> ve_room env k)))
    (sorted_remove env cmp item v h)"
proof -
  let ?xs = "items v h" and ?p = "place key (key item) (items v h)"
  have len: "length ?xs = mCount v" by (rule length_items [OF h])
  show ?thesis
  proof (cases "found_at key (key item) ?xs")
    case True
    then have p: "?p < mCount v" using len by (simp add: found_at_def)
    then have "acts env W h (mCount v) (taken_out env ?p 1 ?xs) (vector_removeItemsAt env ?p 1 v h)"
      using count_small [OF h] by (intro removeItemsAt_acts [OF h size]) simp
    moreover have "sorted_remove env cmp item v h = vec_then (vector_removeItemsAt env ?p 1 v h) (\<lambda>(_, v1, h1). Gives (int ?p, v1, h1))"
      using True by (simp add: sorted_remove_def array_items_sound [OF h] indexOrderOf_exact [OF r])
    ultimately show ?thesis using True p len found_remove [OF r True]
      by (cases "vector_removeItemsAt env ?p 1 v h") (auto simp: taken_out_def removed_def)
  next
    case False
    then show ?thesis using h not_found_remove [OF r False]
      by (simp add: sorted_remove_def array_items_sound [OF h] indexOrderOf_exact [OF r] NAME_NOT_FOUND_def)
  qed
qed

end

interpretation by_value: ranking compare_type "\<lambda>x. x"
  by unfold_locales (auto simp: compare_type_def strictly_order_type_def)

interpretation by_key: ranking compare_pairs fst
  by unfold_locales (auto simp: compare_pairs_def compare_type_def strictly_order_type_def)

end
