(* ===== verification/Keyed_Props.thy ===== *)
theory Keyed_Props
  imports Keyed_Vector
begin

text \<open>
  The properties of sorted and keyed vectors (\<open>VectorImpl.cpp\<close>, \<open>KeyedVector.h\<close>) and of the objects attached to a
  proxy (\<open>BpBinder.cpp\<close>).
\<close>


subsection \<open>Keyed vectors as maps\<close>

lemma ranked_map_ok: "ranked fst m \<longleftrightarrow> map_ok m"
  by (simp add: ranked_def map_ok_def strict_sorted_iff)

lemma rank_put_map: "ranked fst m \<Longrightarrow> rank_put fst (k, x) m = map_put k x m"
proof (induction m)
  case (Cons e m)
  obtain k' x' where e: "e = (k', x')" by (cases e)
  consider "k' < k" | "k' = k" | "k < k'" by force
  then show ?case
  proof cases
    case 1
    then show ?thesis using Cons by (auto simp: rank_put_Cons e)
  next
    case 2
    have "dropWhile (\<lambda>z. fst z \<le> k) m = m" by (rule above_drop) (use Cons.prems 2 e in auto)
    then show ?thesis using 2 by (simp add: rank_put_Cons e)
  next
    case 3
    then show ?thesis by (auto simp: rank_put_Cons e)
  qed
qed (simp add: rank_put_def)

lemma filter_map_erase: "filter (\<lambda>e. fst e \<noteq> k) m = map_erase k m"
  unfolding map_erase_def by (rule filter_cong) auto

lemma found_at_map: "ranked fst m \<Longrightarrow> found_at fst k m \<longleftrightarrow> map_of m k \<noteq> None"
proof (induction m)
  case (Cons e m)
  consider "fst e < k" | "fst e = k" | "k < fst e" by force
  then show ?case
  proof cases
    case 3
    then have "k \<notin> fst ` set m" using Cons.prems by force
    then show ?thesis using 3 by (cases e) (auto simp: map_of_eq_None_iff)
  qed (use Cons in \<open>cases e; auto\<close>)+
qed simp

lemma found_value: "ranked fst m \<Longrightarrow> found_at fst k m \<Longrightarrow> map_of m k = Some (snd (m ! place fst k m))"
  by (induction m) (auto split: if_splits)

datatype ('k, 'v) keyed_op = Add_value 'k 'v | Replace_value 'k 'v | Remove_key 'k

fun apply_keyed :: "('k::linorder \<times> 'v) vec_env \<Rightarrow> ('k, 'v) keyed_op \<Rightarrow> vector_impl \<Rightarrow> ('k \<times> 'v) buffers \<Rightarrow> (int \<times> vector_impl \<times> ('k \<times> 'v) buffers) vec_run" where
  "apply_keyed env (Add_value k x) v h = keyed_add env k x v h"
| "apply_keyed env (Replace_value k x) v h = keyed_replaceValueFor env k x v h"
| "apply_keyed env (Remove_key k) v h = keyed_removeItem env k v h"

fun run_keyed :: "('k::linorder \<times> 'v) vec_env \<Rightarrow> ('k, 'v) keyed_op list \<Rightarrow> vector_impl \<times> ('k \<times> 'v) buffers \<Rightarrow> (vector_impl \<times> ('k \<times> 'v) buffers) vec_run" where
  "run_keyed env [] st = Gives st"
| "run_keyed env (c # cs) (v, h) = vec_then (apply_keyed env c v h) (\<lambda>(r, st1). run_keyed env cs st1)"

fun map_step :: "('k, 'v) keyed_op \<Rightarrow> ('k \<Rightarrow> 'v option) \<Rightarrow> 'k \<Rightarrow> 'v option" where
  "map_step (Add_value k x) m = m(k \<mapsto> x)"
| "map_step (Replace_value k x) m = m(k \<mapsto> x)"
| "map_step (Remove_key k) m = m(k := None)"

text \<open>What a keyed vector with one owner is after a step that had room.\<close>

definition kept_as :: "('k::linorder \<times> 'v) vec_env \<Rightarrow> nat \<Rightarrow> ('k \<Rightarrow> 'v option) \<Rightarrow> (int \<times> vector_impl \<times> ('k \<times> 'v) buffers) vec_run \<Rightarrow> bool" where
  "kept_as env n m run = (case run of
      Misuse \<Rightarrow> False
    | Fatal_error \<Rightarrow> too_big env n
    | Gives (r, v1, h1) \<Rightarrow> heap_sound env {#v1#} h1 \<and> map_ok (items v1 h1) \<and> map_of (items v1 h1) = m \<and> mCount v1 \<le> n)"

lemma add_kept:
  assumes h: "heap_sound env {#v#} h" and size: "mItemSize env > 0" and room: "\<forall>k. ve_room env k" and m: "map_ok (items v h)"
  shows "kept_as env (Suc (mCount v)) ((map_of (items v h))(k \<mapsto> x)) (sorted_add env compare_pairs (k, x) v h)"
proof -
  have r: "ranked fst (items v h)" using m by (simp add: ranked_map_ok)
  have a: "acts env {#} h (mCount v + 1) (\<lambda>r ys. r \<ge> 0 \<and> ys = map_put k x (items v h) \<or> r = NO_MEMORY \<and> ys = items v h \<and> (\<exists>k. \<not> ve_room env k))
      (sorted_add env compare_pairs (k, x) v h)"
    using by_key.sorted_add_acts [OF h size r, of "(k, x)"] by (simp add: rank_put_map [OF r])
  have put: "length (map_put k x l) \<le> Suc (length l)" for l :: "('a \<times> 'b) list"
    by (induction k x l rule: map_put.induct) auto
  show ?thesis
  proof (cases "sorted_add env compare_pairs (k, x) v h")
    case (Gives y)
    obtain r v1 h1 where y: "y = (r, v1, h1)" by (cases y)
    have "heap_sound env {#v1#} h1" "items v1 h1 = map_put k x (items v h)" using a room by (auto simp: Gives y)
    then show ?thesis using put [of "items v h"] m length_items [OF h] length_items [of env v1 "{#}" h1]
      by (simp add: Gives y kept_as_def map_put_ok map_put_lookup)
  qed (use a room in \<open>auto simp: kept_as_def short_of_def\<close>)
qed

lemma remove_kept:
  assumes h: "heap_sound env {#v#} h" and size: "mItemSize env > 0" and room: "\<forall>k. ve_room env k" and m: "map_ok (items v h)"
  shows "kept_as env (mCount v) ((map_of (items v h))(fst e := None)) (sorted_remove env compare_pairs e v h)"
proof -
  have r: "ranked fst (items v h)" using m by (simp add: ranked_map_ok)
  note a = by_key.sorted_remove_acts [OF h size r, of e]
  show ?thesis
  proof (cases "sorted_remove env compare_pairs e v h")
    case (Gives y)
    obtain r v1 h1 where y: "y = (r, v1, h1)" by (cases y)
    have "heap_sound env {#v1#} h1" "items v1 h1 = map_erase (fst e) (items v h)" using a room by (auto simp: Gives y filter_map_erase)
    moreover have "length (map_erase (fst e) (items v h)) \<le> mCount v" using length_items [OF h] by (metis map_erase_def length_filter_le)
    ultimately show ?thesis using m length_items [of env v1 "{#}" h1]
      by (simp add: Gives y kept_as_def map_erase_ok map_erase_lookup)
  qed (use a room in \<open>auto simp: kept_as_def short_of_def\<close>)
qed

lemma step_kept:
  assumes h: "heap_sound env {#v#} h" and size: "mItemSize env > 0" and room: "\<forall>k. ve_room env k" and m: "map_ok (items v h)"
  shows "kept_as env (Suc (mCount v)) (map_step c (map_of (items v h))) (apply_keyed env c v h)"
proof (cases c)
  case (Add_value k x)
  then show ?thesis using add_kept [OF assms] by (simp add: keyed_add_def)
next
  case (Remove_key k)
  then show ?thesis using remove_kept [OF assms, of "key_pair env k"] too_big_mono [of "mCount v" "Suc (mCount v)" env]
    by (auto simp: keyed_removeItem_def key_pair_def kept_as_def split: vec_run.splits)
next
  case (Replace_value k x)
  note a = remove_kept [OF assms, of "(k, x)"]
  show ?thesis
  proof (cases "sorted_remove env compare_pairs (k, x) v h")
    case (Gives y)
    obtain r v1 h1 where y: "y = (r, v1, h1)" by (cases y)
    have v1: "heap_sound env {#v1#} h1" "map_ok (items v1 h1)" "map_of (items v1 h1) = (map_of (items v h))(k := None)" "mCount v1 \<le> mCount v"
      using a by (auto simp: Gives y kept_as_def)
    from add_kept [OF v1(1) size room v1(2), of k x] v1(3,4) too_big_mono [of "Suc (mCount v1)" "Suc (mCount v)" env]
    show ?thesis by (auto simp: Replace_value keyed_replaceValueFor_def Gives y kept_as_def split: vec_run.splits)
  qed (use a too_big_mono [of "mCount v" "Suc (mCount v)" env] in \<open>auto simp: Replace_value keyed_replaceValueFor_def kept_as_def\<close>)
qed

lemma keyed_run_kept:
  assumes size: "mItemSize env > 0" and room: "\<forall>k. ve_room env k"
  shows "heap_sound env {#v#} h \<Longrightarrow> map_ok (items v h) \<Longrightarrow>
    (case run_keyed env cs (v, h) of
       Misuse \<Rightarrow> False
     | Fatal_error \<Rightarrow> too_big env (mCount v + length cs)
     | Gives (v1, h1) \<Rightarrow> heap_sound env {#v1#} h1 \<and> map_ok (items v1 h1) \<and> map_of (items v1 h1) = fold map_step cs (map_of (items v h)))"
proof (induction cs arbitrary: v h)
  case (Cons c cs)
  note a = step_kept [OF Cons.prems(1) size room Cons.prems(2), of c]
  show ?case
  proof (cases "apply_keyed env c v h")
    case (Gives y)
    obtain r v1 h1 where y: "y = (r, v1, h1)" by (cases y)
    have v1: "heap_sound env {#v1#} h1" "map_ok (items v1 h1)" "map_of (items v1 h1) = map_step c (map_of (items v h))" "mCount v1 \<le> Suc (mCount v)"
      using a by (auto simp: Gives y kept_as_def)
    from Cons.IH [OF v1(1,2)] v1(3,4) too_big_mono [of "mCount v1 + length cs" "mCount v + length (c # cs)" env]
    show ?thesis by (auto simp: Gives y split: vec_run.splits)
  qed (use a too_big_mono [of "Suc (mCount v)" "mCount v + length (c # cs)" env] in \<open>auto simp: kept_as_def\<close>)
qed simp

lemma keyed_index:
  assumes h: "heap_sound env (add_mset v W) h" and m: "map_ok (items v h)"
  shows "keyed_indexOfKey env k v h = Gives (if map_of (items v h) k \<noteq> None then int (place fst k (items v h)) else NAME_NOT_FOUND)"
proof -
  have r: "ranked fst (items v h)" using m by (simp add: ranked_map_ok)
  show ?thesis
    using by_key.indexOrderOf_exact [OF r, of "key_pair env k"] found_at_map [OF r]
    by (simp add: keyed_indexOfKey_def array_items_sound [OF h] key_pair_def)
qed

lemma keyed_value:
  assumes h: "heap_sound env (add_mset v W) h" and m: "map_ok (items v h)" and k: "map_of (items v h) k = Some x"
  shows "keyed_valueAt (place fst k (items v h)) v h = Gives x"
proof -
  have r: "ranked fst (items v h)" using m by (simp add: ranked_map_ok)
  have f: "found_at fst k (items v h)" using k found_at_map [OF r] by simp
  then have "place fst k (items v h) < mCount v" using length_items [OF h] by (simp add: found_at_def)
  then show ?thesis using found_value [OF r f] k by (simp add: keyed_valueAt_def item_at_sound [OF h])
qed


subsection \<open>Objects attached to a proxy\<close>

datatype object_op = Attach nat attached | Detach nat

fun apply_object :: "(nat \<times> attached) vec_env \<Rightarrow> object_op \<Rightarrow> vector_impl \<times> (nat \<times> attached) buffers \<Rightarrow> (vector_impl \<times> (nat \<times> attached) buffers) vec_run" where
  "apply_object env (Attach k e) (v, h) = objects_attach env k e v h"
| "apply_object env (Detach k) (v, h) = objects_detach env k v h"

fun run_objects :: "(nat \<times> attached) vec_env \<Rightarrow> object_op list \<Rightarrow> vector_impl \<times> (nat \<times> attached) buffers \<Rightarrow> (vector_impl \<times> (nat \<times> attached) buffers) vec_run" where
  "run_objects env [] st = Gives st"
| "run_objects env (c # cs) st = vec_then (apply_object env c st) (run_objects env cs)"

text \<open>The first object attached under an id stays until it is detached.\<close>

fun attached_step :: "object_op \<Rightarrow> (nat \<Rightarrow> attached option) \<Rightarrow> nat \<Rightarrow> attached option" where
  "attached_step (Attach k e) m = (if m k = None then m(k \<mapsto> e) else m)"
| "attached_step (Detach k) m = m(k := None)"

lemma object_kept:
  assumes h: "heap_sound env {#v#} h" and size: "mItemSize env > 0" and room: "\<forall>k. ve_room env k" and m: "map_ok (items v h)"
  shows "kept_as env (Suc (mCount v)) (attached_step c (map_of (items v h)))
    (vec_then (apply_object env c (v, h)) (\<lambda>(v1, h1). Gives (0, v1, h1)))"
proof (cases c)
  case (Attach k e)
  then show ?thesis using add_kept [OF assms, of k e] keyed_index [OF h m, of k] h m
    by (auto simp: objects_attach_def keyed_add_def kept_as_def NAME_NOT_FOUND_def split: vec_run.splits)
next
  case (Detach k)
  then show ?thesis using remove_kept [OF assms, of "key_pair env k"] too_big_mono [of "mCount v" "Suc (mCount v)" env]
    by (auto simp: objects_detach_def keyed_removeItem_def key_pair_def kept_as_def split: vec_run.splits)
qed

lemma objects_kept:
  assumes size: "mItemSize env > 0" and room: "\<forall>k. ve_room env k"
  shows "heap_sound env {#v#} h \<Longrightarrow> map_ok (items v h) \<Longrightarrow>
    (case run_objects env cs (v, h) of
       Misuse \<Rightarrow> False
     | Fatal_error \<Rightarrow> too_big env (mCount v + length cs)
     | Gives (v1, h1) \<Rightarrow> heap_sound env {#v1#} h1 \<and> map_ok (items v1 h1) \<and> map_of (items v1 h1) = fold attached_step cs (map_of (items v h)) \<and>
         mCount v1 \<le> mCount v + length cs)"
proof (induction cs arbitrary: v h)
  case (Cons c cs)
  note a = object_kept [OF Cons.prems(1) size room Cons.prems(2), of c]
  show ?case
  proof (cases "apply_object env c (v, h)")
    case (Gives y)
    obtain v1 h1 where y: "y = (v1, h1)" by (cases y)
    have v1: "heap_sound env {#v1#} h1" "map_ok (items v1 h1)" "map_of (items v1 h1) = attached_step c (map_of (items v h))" "mCount v1 \<le> Suc (mCount v)"
      using a by (auto simp: Gives y kept_as_def)
    from Cons.IH [OF v1(1,2)] v1(3,4) too_big_mono [of "mCount v1 + length cs" "mCount v + length (c # cs)" env]
    show ?thesis by (auto simp: Gives y split: vec_run.splits)
  qed (use a too_big_mono [of "Suc (mCount v)" "mCount v + length (c # cs)" env] in \<open>auto simp: kept_as_def\<close>)
qed simp

lemma cleanups_simps [simp]:
  "cleanups [] = []"
  "cleanups (x # l) = (case at_func (snd x) of None \<Rightarrow> [] | Some f \<Rightarrow> [(f, fst x, at_object (snd x), at_cookie (snd x))]) @ cleanups l"
  by (auto simp: cleanups_def split: prod.splits option.splits)

lemma cleanups_exact:
  assumes "map_ok es"
  shows "set (cleanups es) = {(f, k, at_object e, at_cookie e) |f k e. map_of es k = Some e \<and> at_func e = Some f} \<and>
    distinct (map (\<lambda>(f, k, ob, c). k) (cleanups es))"
proof -
  have d: "distinct (map fst es)" using assms by (simp add: map_ok_def)
  have ids: "set (map (\<lambda>(f, k, ob, c). k) (cleanups l)) \<subseteq> fst ` set l" for l
    by (induction l) (auto split: option.splits)
  have "distinct (map fst l) \<Longrightarrow> distinct (map (\<lambda>(f, k, ob, c). k) (cleanups l))" for l
  proof (induction l)
    case (Cons x l)
    then show ?case using ids [of l] by (cases x) (auto split: option.splits)
  qed simp
  moreover have "(k, e) \<in> set es \<longleftrightarrow> map_of es k = Some e" for k e using d by (metis map_of_is_SomeI map_of_SomeD)
  moreover have "(f, k, ob, c) \<in> set (cleanups l) \<longleftrightarrow> (\<exists>e. (k, e) \<in> set l \<and> at_func e = Some f \<and> ob = at_object e \<and> c = at_cookie e)" for f k ob c l
    by (induction l) (auto split: option.splits)
  ultimately show ?thesis using d by auto
qed


subsection \<open>The properties\<close>

text \<open>
  The binary search of sorted vectors is the search from the front: in a vector whose items increase it gives the
  item's index if the item is there and \<open>NAME_NOT_FOUND\<close> otherwise, and in both cases the place where the item belongs.
\<close>

theorem binary_search_exact:
  assumes "sorted_wrt (<) a"
  shows "indexOrderOf compare_type a item =
    (if item \<in> set a then int (length (takeWhile (\<lambda>x. x < item) a)) else NAME_NOT_FOUND, int (length (takeWhile (\<lambda>x. x < item) a)))"
proof -
  have r: "ranked (\<lambda>x. x) a" using assms by (simp add: ranked_def)
  have "ranked (\<lambda>x. x) l \<Longrightarrow> found_at (\<lambda>x. x) item l \<longleftrightarrow> item \<in> set l" for l
    by (induction l) (auto dest: less_asym)
  then show ?thesis using by_value.indexOrderOf_exact [OF r, of item] r by (simp add: place_def)
qed

theorem binary_search_exact_witness:
  "sorted_wrt (<) [2, 3, 5, 8 :: int] \<and> indexOrderOf compare_type [2, 3, 5, 8 :: int] 5 = (2, 2) \<and>
   indexOrderOf compare_type [2, 3, 5, 8 :: int] 6 = (NAME_NOT_FOUND, 3)"
  using binary_search_exact [of "[2, 3, 5, 8 :: int]" 5] binary_search_exact [of "[2, 3, 5, 8 :: int]" 6] by simp

text \<open>
  C33. \<open>Vector::sort\<close> is a stable sort: with a comparison that ranks items by a key, the vector's items are afterwards sorted
  by their keys, items with equal keys in the order they had. Whoever else shares the storage keeps the old order, and
  a sort that finds no memory says so and changes nothing.
\<close>

theorem vector_sort_stable:
  assumes "\<forall>x y. (cmp x y < 0 \<longleftrightarrow> key x < key y) \<and> (cmp x y = 0 \<longleftrightarrow> key x = key y)"
    and "heap_sound env (add_mset v W) h"
  shows "acts env W h n (\<lambda>r ys. r = OK \<and> ys = sort_key key (items v h) \<or> r = NO_MEMORY \<and> ys = items v h \<and> (\<exists>k. \<not> ve_room env k))
    (vector_sort env cmp v h)"
proof -
  have "ranking cmp key" using assms(1) by unfold_locales auto
  then have "sort_items cmp 1 (items v h) = sort_key key (items v h)" by (rule ranking.sort_items_sort_key)
  then show ?thesis by (intro acts_mono [OF sort_acts [OF assms(2)]]) (auto simp: sorted_by_def)
qed

text \<open>
  C24. A keyed vector is a map: after any sequence of adding, replacing and removing, with memory to be had, looking up a key
  gives the value put last, or ends the process when the key is not there.
\<close>

theorem keyed_vector_is_map:
  assumes "mItemSize env > 0" "\<forall>k. ve_room env k"
  shows "case run_keyed env cs (new_vector, no_buffers) of
      Misuse \<Rightarrow> False
    | Fatal_error \<Rightarrow> too_big env (length cs)
    | Gives (v, h) \<Rightarrow> (\<forall>k. keyed_valueFor env k v h = (case fold map_step cs Map.empty k of None \<Rightarrow> Fatal_error | Some x \<Rightarrow> Gives x))"
proof -
  have empty: "heap_sound env {#new_vector#} no_buffers" "items new_vector no_buffers = []" "mCount new_vector = 0"
    by (auto simp: heap_sound_def new_vector_def no_buffers_def items_def)
  note run = keyed_run_kept [OF assms empty(1), of cs, unfolded empty(2,3)]
  show ?thesis
  proof (cases "run_keyed env cs (new_vector, no_buffers)")
    case (Gives y)
    obtain v h where y: "y = (v, h)" by (cases y)
    have h: "heap_sound env {#v#} h" "map_ok (items v h)" "map_of (items v h) = fold map_step cs Map.empty"
      using run by (simp_all add: Gives y map_ok_def)
    have "keyed_valueFor env k v h = (case map_of (items v h) k of None \<Rightarrow> Fatal_error | Some x \<Rightarrow> Gives x)" for k
      using keyed_index [OF h(1,2), of k] keyed_value [OF h(1,2), of k]
      by (cases "map_of (items v h) k") (simp_all add: keyed_valueFor_def NAME_NOT_FOUND_def)
    then show ?thesis using h(3) by (simp add: Gives y)
  qed (use run in \<open>simp_all add: map_ok_def\<close>)
qed

text \<open>
  Objects attached to a proxy are found under their ids until they are detached, the first one under an id counting;
  when the proxy goes, the cleanup function of each object still attached is called once, with that object and its
  cookie, and nothing stays attached.
\<close>

theorem attached_cleaned_once:
  fixes cs :: "object_op list"
  assumes "mItemSize env > 0" "\<forall>k. ve_room env k"
  defines "m \<equiv> fold attached_step cs Map.empty"
  shows "case run_objects env cs (new_vector, no_buffers) of
      Misuse \<Rightarrow> False
    | Fatal_error \<Rightarrow> too_big env (length cs)
    | Gives (v, h) \<Rightarrow>
        (\<forall>k. objects_find env k v h = Gives (map_option at_object (m k))) \<and>
        (case objects_kill env v h of
           Misuse \<Rightarrow> False
         | Fatal_error \<Rightarrow> too_big env (length cs)
         | Gives (calls, v1, h1) \<Rightarrow>
             set calls = {(f, k, at_object e, at_cookie e) |f k e. m k = Some e \<and> at_func e = Some f} \<and>
             distinct (map (\<lambda>(f, k, ob, c). k) calls) \<and> items v1 h1 = [])"
proof -
  have empty: "heap_sound env {#new_vector#} no_buffers" "items new_vector no_buffers = []" "mCount new_vector = 0"
    by (auto simp: heap_sound_def new_vector_def no_buffers_def items_def)
  note run = objects_kept [OF assms(1,2) empty(1), of cs, unfolded empty(2,3)]
  show ?thesis
  proof (cases "run_objects env cs (new_vector, no_buffers)")
    case (Gives y)
    obtain v h where y: "y = (v, h)" by (cases y)
    have h: "heap_sound env {#v#} h" "map_ok (items v h)" "map_of (items v h) = m" "mCount v \<le> length cs"
      using run by (simp_all add: Gives y map_ok_def m_def)
    have "objects_find env k v h = Gives (map_option at_object (m k))" for k
      using keyed_index [OF h(1,2), of k] keyed_value [OF h(1,2), of k] h(3)
      by (cases "m k") (simp_all add: objects_find_def NAME_NOT_FOUND_def)
    moreover have "acts env {#} h (mCount v) (\<lambda>r ys. r = OK \<and> removed env 0 (length (items v h)) (items v h) ys) (vector_clear env v h)"
      by (rule clear_acts [OF h(1) assms(1)])
    ultimately show ?thesis
      using cleanups_exact [OF h(2)] h(3,4) assms(2) too_big_mono [of "mCount v" "length cs" env]
      by (cases "vector_clear env v h") (auto simp: Gives y objects_kill_def array_items_sound [OF h(1)] removed_def short_of_def)
  qed (use run in \<open>simp_all add: map_ok_def\<close>)
qed

definition sample_pair_env :: "(int \<times> int) vec_env" where
  "sample_pair_env = \<lparr>mItemSize = 16, trivial_copy = False, trivial_dtor = False, fresh_item = (\<lambda>_. (0, 0)), ve_room = (\<lambda>_. True)\<rparr>"

definition sample_pairs :: "(int \<times> int) buffers" where
  "sample_pairs = \<lparr>bufs = [0 \<mapsto> \<lparr>mRefs = 1, mSize = 64, sb_slots = [Some (2, 1), Some (1, 2), Some (2, 3), None]\<rparr>], next_buf = 1\<rparr>"

definition sample_pair_vector :: vector_impl where
  "sample_pair_vector = \<lparr>mStorage = Some 0, mCount = 3\<rparr>"

lemma sample_pairs_sound:
  "heap_sound sample_pair_env {#sample_pair_vector#} sample_pairs" "items sample_pair_vector sample_pairs = [(2, 1), (1, 2), (2, 3)]"
proof -
  have "filled sample_pair_env [(2, 1), (1, 2), (2, 3)] [Some (2, 1), Some (1, 2), Some (2, 3), None]" by (simp add: filled_def)
  then have "buffer_ok sample_pair_env {#sample_pair_vector#} 0 \<lparr>mRefs = 1, mSize = 64, sb_slots = [Some (2, 1), Some (1, 2), Some (2, 3), None]\<rparr>"
    unfolding buffer_ok_def
    by (auto simp: sample_pair_vector_def sized_def slots_of_def sample_pair_env_def oversize_def SIZE_MAX_def header_size_def intro!: exI)
  then show "heap_sound sample_pair_env {#sample_pair_vector#} sample_pairs"
    by (intro heap_soundI) (auto simp: sample_pairs_def sample_pair_vector_def split: if_splits)
qed (simp add: items_def sample_pair_vector_def sample_pairs_def)

theorem vector_sort_stable_witness:
  "\<exists>v1 h1. vector_sort sample_pair_env compare_pairs sample_pair_vector sample_pairs = Gives (OK, v1, h1) \<and>
     items v1 h1 = [(1, 2), (2, 1), (2, 3)]"
proof -
  have "\<forall>x y :: int \<times> int. (compare_pairs x y < 0 \<longleftrightarrow> fst x < fst y) \<and> (compare_pairs x y = 0 \<longleftrightarrow> fst x = fst y)"
    by (auto simp: compare_pairs_def compare_type_def strictly_order_type_def)
  from vector_sort_stable [OF this sample_pairs_sound(1), of 0]
  have "acts sample_pair_env {#} sample_pairs 0 (\<lambda>r ys. r = OK \<and> ys = [(1, 2), (2, 1), (2, 3)]) (vector_sort sample_pair_env compare_pairs sample_pair_vector sample_pairs)"
    by (simp add: sample_pairs_sound(2) sample_pair_env_def)
  moreover have "\<not> short_of sample_pair_env 0" by (simp add: short_of_def too_big_def sample_pair_env_def oversize_def SIZE_MAX_def header_size_def kMinVectorCapacity_def)
  ultimately show ?thesis
    by (cases "vector_sort sample_pair_env compare_pairs sample_pair_vector sample_pairs") auto
qed

theorem keyed_vector_is_map_witness:
  "mItemSize sample_pair_env > 0 \<and> (\<forall>k. ve_room sample_pair_env k) \<and>
   (\<exists>v h. run_keyed sample_pair_env [Add_value 5 50, Add_value 3 30, Replace_value 5 51, Remove_key 3] (new_vector, no_buffers) = Gives (v, h) \<and>
      keyed_valueFor sample_pair_env 5 v h = Gives 51 \<and> keyed_valueFor sample_pair_env 3 v h = Fatal_error)"
proof -
  have ok: "mItemSize sample_pair_env > 0" "\<forall>k. ve_room sample_pair_env k" by (simp_all add: sample_pair_env_def)
  have "\<not> too_big sample_pair_env (Suc (Suc (Suc (Suc 0))))" by (simp add: too_big_def sample_pair_env_def oversize_def SIZE_MAX_def header_size_def kMinVectorCapacity_def)
  then show ?thesis using keyed_vector_is_map [OF ok, of "[Add_value 5 50, Add_value 3 30, Replace_value 5 51, Remove_key 3]"] ok
    by (cases "run_keyed sample_pair_env [Add_value 5 50, Add_value 3 30, Replace_value 5 51, Remove_key 3] (new_vector, no_buffers)")
      (auto simp del: run_keyed.simps)
qed

definition sample_object_env :: "(nat \<times> attached) vec_env" where
  "sample_object_env = \<lparr>mItemSize = 32, trivial_copy = True, trivial_dtor = True, fresh_item = (\<lambda>_. (0, \<lparr>at_object = 0, at_cookie = 0, at_func = None\<rparr>)),
     ve_room = (\<lambda>_. True)\<rparr>"

definition sample_object_ops :: "object_op list" where
  "sample_object_ops = [Attach 1 \<lparr>at_object = 10, at_cookie = 0, at_func = Some 7\<rparr>, Attach 2 \<lparr>at_object = 20, at_cookie = 0, at_func = None\<rparr>,
     Attach 1 \<lparr>at_object = 11, at_cookie = 0, at_func = None\<rparr>, Detach 2]"

theorem attached_cleaned_once_witness:
  "mItemSize sample_object_env > 0 \<and> (\<forall>k. ve_room sample_object_env k) \<and>
   (\<exists>v h calls v1 h1. run_objects sample_object_env sample_object_ops (new_vector, no_buffers) = Gives (v, h) \<and>
      objects_find sample_object_env 1 v h = Gives (Some 10) \<and> objects_find sample_object_env 2 v h = Gives None \<and>
      objects_kill sample_object_env v h = Gives (calls, v1, h1) \<and> set calls = {(7, 1, 10, 0)})"
proof -
  have ok: "mItemSize sample_object_env > 0" "\<forall>k. ve_room sample_object_env k" by (simp_all add: sample_object_env_def)
  let ?m = "fold attached_step sample_object_ops Map.empty"
  have m: "?m = [1 \<mapsto> \<lparr>at_object = 10, at_cookie = 0, at_func = Some 7\<rparr>]" by (simp add: sample_object_ops_def)
  have "\<not> too_big sample_object_env (length sample_object_ops)"
    by (simp add: too_big_def sample_object_env_def sample_object_ops_def oversize_def SIZE_MAX_def header_size_def kMinVectorCapacity_def)
  note run = attached_cleaned_once [OF ok, of sample_object_ops] this
  obtain v h where v: "run_objects sample_object_env sample_object_ops (new_vector, no_buffers) = Gives (v, h)"
    using run by (cases "run_objects sample_object_env sample_object_ops (new_vector, no_buffers)") auto
  obtain calls v1 h1 where "objects_kill sample_object_env v h = Gives (calls, v1, h1)"
    using run by (cases "objects_kill sample_object_env v h") (auto simp: v)
  with run v have "run_objects sample_object_env sample_object_ops (new_vector, no_buffers) = Gives (v, h)"
    "\<forall>k. objects_find sample_object_env k v h = Gives (map_option at_object (?m k))" "objects_kill sample_object_env v h = Gives (calls, v1, h1)"
    "set calls = {(f, k, at_object e, at_cookie e) |f k e. ?m k = Some e \<and> at_func e = Some f}" by simp_all
  moreover have "{(f, k, at_object e, at_cookie e) |f k e. ?m k = Some e \<and> at_func e = Some f} = {(7, 1, 10, 0)}"
    unfolding m by (auto split: if_splits)
  ultimately show ?thesis using ok m by auto
qed


subsection \<open>Where vectors go wrong\<close>

text \<open>Merging a sorted vector that has items into an empty one compares with an item that is not there.\<close>

lemma merge_into_empty_misuses:
  assumes "heap_sound env (add_mset w W) h" "mCount w > 0"
  shows "sorted_merge env cmp w new_vector h = Misuse"
proof -
  have "item_at 0 new_vector h = Misuse" by (simp add: item_at_def storage_of_def new_vector_def)
  then show ?thesis using assms(2) item_at_sound [OF assms(1), of "mCount w - 1"] by (simp add: sorted_merge_def)
qed

text \<open>Vectors that only meet at their ends are joined as they are, so an item can be there twice.\<close>

lemma merge_keeps_duplicates:
  "\<exists>v w h v1 h1. run_vectors sample_vec_env [New_vector, Insert_items 0 (Some 2) 0 1, New_vector, Insert_items 1 (Some 2) 0 1] ([], no_buffers) = Gives ([v, w], h) \<and>
     sorted_merge sample_vec_env compare_type w v h = Gives (0, v1, h1) \<and> items v1 h1 = [2, 2]"
  by (simp add: vector_evaluation sorted_merge_def item_at_def vector_appendVector_def compare_type_def strictly_order_type_def)

text \<open>A vector appended to itself reads the storage that growing has given back.\<close>

lemma append_self_misuses:
  "\<exists>v h. run_vectors sample_vec_env [New_vector, Insert_items 0 (Some 7) 0 3] ([], no_buffers) = Gives ([v], h) \<and>
     vector_appendVector sample_vec_env v v h = Misuse"
  by (simp add: vector_evaluation vector_appendVector_def Let_def list_all_iff)

text \<open>The end of the range to remove wraps around to the front of the vector.\<close>

lemma remove_wraps_misuses:
  "\<exists>v h. run_vectors sample_vec_env [New_vector, Insert_items 0 (Some 7) 0 3] ([], no_buffers) = Gives ([v], h) \<and>
     vector_removeItemsAt sample_vec_env (2 ^ 64 - 1) 1 v h = Misuse"
  by (simp add: vector_evaluation)

text \<open>Inserting nothing at the end of a full vector reports that there is no memory.\<close>

lemma insert_nothing_fails:
  "vector_insertAt sample_vec_env (Some 7) 0 0 new_vector no_buffers = Gives (NO_MEMORY, new_vector, no_buffers)"
  by (simp add: vector_evaluation)

end
