(* ===== verification/Looper.thy ===== *)
theory Looper
  imports Ordered_Map Binder_Status
begin

unbundle bit_operations_syntax

text \<open>
  The event loop of servicemanager, \<open>Looper\<close> (\<open>system/core/libutils/Looper.cpp\<close>): messages with a time, file descriptors
  with callbacks, and the thread that polls for both while other threads send, register and remove. The keyed vector
  of requests is the ordered map it implements. A step is what happens under the lock or between two uses of it; the
  kernel's answers (\<open>epoll_ctl\<close>, \<open>epoll_wait\<close>, the clock) are arguments. A handler does not poll the same looper again.
\<close>


subsection \<open>State\<close>

definition POLL_WAKE :: int where "POLL_WAKE = -1"
definition POLL_CALLBACK :: int where "POLL_CALLBACK = -2"
definition POLL_TIMEOUT :: int where "POLL_TIMEOUT = -3"
definition POLL_ERROR :: int where "POLL_ERROR = -4"
definition EVENT_INPUT :: nat where "EVENT_INPUT = 1"
definition EVENT_OUTPUT :: nat where "EVENT_OUTPUT = 2"
definition EVENT_ERROR :: nat where "EVENT_ERROR = 4"
definition EVENT_HANGUP :: nat where "EVENT_HANGUP = 8"
definition EPOLLIN :: nat where "EPOLLIN = 0x001"
definition EPOLLOUT :: nat where "EPOLLOUT = 0x004"
definition EPOLLERR :: nat where "EPOLLERR = 0x008"
definition EPOLLHUP :: nat where "EPOLLHUP = 0x010"
definition LLONG_MAX :: int where "LLONG_MAX = 2 ^ 63 - 1"
definition looper_EINTR :: nat where "looper_EINTR = 4"
definition looper_ENOENT :: nat where "looper_ENOENT = 2"
definition looper_EBADF :: nat where "looper_EBADF = 9"

record message_envelope =
  me_uptime :: int
  me_handler :: nat
  me_what :: int

record looper_request =
  rq_fd :: int
  rq_ident :: int
  rq_events :: nat
  rq_seq :: int
  rq_callback :: "nat option"
  rq_data :: nat

record looper_response =
  rs_events :: nat
  rs_request :: looper_request

text \<open>\<open>lp_wakes\<close> is the counter of \<open>mWakeEventFd\<close> and \<open>lp_epoll\<close> the events the epoll instance watches for each descriptor.\<close>

record looper =
  mAllowNonCallbacks :: bool
  mMessageEnvelopes :: "message_envelope list"
  mSendingMessage :: bool
  mPolling :: bool
  mEpollRebuildRequired :: bool
  mRequests :: "(int \<times> looper_request) list"
  mNextRequestSeq :: int
  mResponses :: "looper_response list"
  mResponseIndex :: nat
  mNextMessageUptime :: int
  lp_wakes :: nat
  lp_epoll :: "int \<Rightarrow> nat option"

definition new_looper :: "bool \<Rightarrow> looper" where
  "new_looper allowNonCallbacks =
     \<lparr>mAllowNonCallbacks = allowNonCallbacks, mMessageEnvelopes = [], mSendingMessage = False, mPolling = False,
      mEpollRebuildRequired = False, mRequests = [], mNextRequestSeq = 0, mResponses = [], mResponseIndex = 0,
      mNextMessageUptime = LLONG_MAX, lp_wakes = 0, lp_epoll = Map.empty\<rparr>"

definition toMillisecondTimeoutDelay :: "int \<Rightarrow> int \<Rightarrow> int" where
  "toMillisecondTimeoutDelay referenceTime timeoutTime =
     (if timeoutTime > referenceTime then
        (let timeoutDelay = timeoutTime - referenceTime
         in if timeoutDelay > (2 ^ 31 - 2) * 1000000 then -1 else (timeoutDelay + 999999) div 1000000)
      else 0)"

definition looper_wake :: "looper \<Rightarrow> looper" where
  "looper_wake l = l\<lparr>lp_wakes := Suc (lp_wakes l)\<rparr>"

definition looper_awoken :: "looper \<Rightarrow> looper" where
  "looper_awoken l = l\<lparr>lp_wakes := 0\<rparr>"


subsection \<open>File descriptors\<close>

definition initEventItem :: "looper_request \<Rightarrow> nat" where
  "initEventItem r =
     (if rq_events r AND EVENT_INPUT \<noteq> 0 then EPOLLIN else 0) OR (if rq_events r AND EVENT_OUTPUT \<noteq> 0 then EPOLLOUT else 0)"

text \<open>\<open>ctl\<close> tells how an operation on a descriptor's entry ends: 0, or an \<open>errno\<close>.\<close>

datatype epoll_op = EPOLL_CTL_ADD | EPOLL_CTL_MOD | EPOLL_CTL_DEL

type_synonym epoll_ctl = "epoll_op \<Rightarrow> int \<Rightarrow> nat"

definition scheduleEpollRebuildLocked :: "looper \<Rightarrow> looper" where
  "scheduleEpollRebuildLocked l = (if mEpollRebuildRequired l then l else looper_wake (l\<lparr>mEpollRebuildRequired := True\<rparr>))"

definition rebuildEpollLocked :: "epoll_ctl \<Rightarrow> looper \<Rightarrow> looper" where
  "rebuildEpollLocked ctl l =
     l\<lparr>lp_epoll := map_of (map (\<lambda>(fd, r). (fd, initEventItem r)) (filter (\<lambda>(fd, r). ctl EPOLL_CTL_ADD fd = 0) (mRequests l)))\<rparr>"

definition next_seq :: "int \<Rightarrow> int" where
  "next_seq s = (let n = (if s = 2 ^ 31 - 1 then - (2 ^ 31) else s + 1) in if n = -1 then 0 else n)"

definition set_epoll :: "int \<Rightarrow> nat option \<Rightarrow> looper \<Rightarrow> looper" where
  "set_epoll fd ev l = l\<lparr>lp_epoll := (lp_epoll l)(fd := ev)\<rparr>"

text \<open>The part of \<open>addFd\<close> under the lock, for a request that is complete but for its number.\<close>

definition register_fd :: "epoll_ctl \<Rightarrow> looper_request \<Rightarrow> looper \<Rightarrow> int \<times> looper" where
  "register_fd ctl request0 l =
     (let request = request0\<lparr>rq_seq := mNextRequestSeq l\<rparr>; fd = rq_fd request; item = Some (initEventItem request);
          l1 = l\<lparr>mNextRequestSeq := next_seq (mNextRequestSeq l)\<rparr>;
          put = (\<lambda>l. l\<lparr>mRequests := map_put fd request (mRequests l)\<rparr>)
      in case map_of (mRequests l) fd of
           None \<Rightarrow> if ctl EPOLL_CTL_ADD fd \<noteq> 0 then (-1, l1) else (1, put (set_epoll fd item l1))
         | Some _ \<Rightarrow>
             if ctl EPOLL_CTL_MOD fd = 0 then (1, put (set_epoll fd item l1))
             else if ctl EPOLL_CTL_MOD fd \<noteq> looper_ENOENT then (-1, l1)
             else if ctl EPOLL_CTL_ADD fd \<noteq> 0 then (-1, l1)
             else (1, put (scheduleEpollRebuildLocked (set_epoll fd item l1))))"

definition addFd :: "epoll_ctl \<Rightarrow> int \<Rightarrow> int \<Rightarrow> nat \<Rightarrow> nat option \<Rightarrow> nat \<Rightarrow> looper \<Rightarrow> int \<times> looper" where
  "addFd ctl fd ident events callback data l =
     (let request = (\<lambda>ident. \<lparr>rq_fd = fd, rq_ident = ident, rq_events = events, rq_seq = 0, rq_callback = callback, rq_data = data\<rparr>)
      in case callback of
           None \<Rightarrow> if \<not> mAllowNonCallbacks l \<or> ident < 0 then (-1, l) else register_fd ctl (request ident) l
         | Some _ \<Rightarrow> register_fd ctl (request POLL_CALLBACK) l)"

definition removeFd :: "epoll_ctl \<Rightarrow> int \<Rightarrow> int \<Rightarrow> looper \<Rightarrow> int \<times> looper" where
  "removeFd ctl fd seq l =
     (case map_of (mRequests l) fd of
        None \<Rightarrow> (0, l)
      | Some r \<Rightarrow>
          if seq \<noteq> -1 \<and> rq_seq r \<noteq> seq then (0, l)
          else
            (let l1 = l\<lparr>mRequests := map_erase fd (mRequests l)\<rparr>; e = ctl EPOLL_CTL_DEL fd
             in if e = 0 then (1, set_epoll fd None l1)
                else if seq \<noteq> -1 \<and> (e = looper_EBADF \<or> e = looper_ENOENT) then (1, scheduleEpollRebuildLocked l1)
                else (-1, scheduleEpollRebuildLocked l1)))"


subsection \<open>Messages\<close>

fun message_place :: "int \<Rightarrow> message_envelope list \<Rightarrow> nat" where
  "message_place uptime [] = 0"
| "message_place uptime (e # es) = (if uptime \<ge> me_uptime e then Suc (message_place uptime es) else 0)"

text \<open>The part of \<open>sendMessageAtTime\<close> under the lock: whether a wake-up has to follow.\<close>

definition enqueue_message :: "message_envelope \<Rightarrow> looper \<Rightarrow> bool \<times> looper" where
  "enqueue_message e l =
     (let i = message_place (me_uptime e) (mMessageEnvelopes l);
          l1 = l\<lparr>mMessageEnvelopes := take i (mMessageEnvelopes l) @ e # drop i (mMessageEnvelopes l)\<rparr>
      in (\<not> mSendingMessage l \<and> i = 0, l1))"

definition sendMessageAtTime :: "message_envelope \<Rightarrow> looper \<Rightarrow> looper" where
  "sendMessageAtTime e l = (case enqueue_message e l of (w, l1) \<Rightarrow> if w then looper_wake l1 else l1)"

text \<open>Both forms of \<open>removeMessages\<close>: the loop runs from the end.\<close>

fun remove_loop :: "(message_envelope \<Rightarrow> bool) \<Rightarrow> nat \<Rightarrow> message_envelope list \<Rightarrow> message_envelope list" where
  "remove_loop P 0 es = es"
| "remove_loop P (Suc i) es = remove_loop P i (if P (es ! i) then take i es @ drop (Suc i) es else es)"

definition concerns :: "nat \<Rightarrow> int option \<Rightarrow> message_envelope \<Rightarrow> bool" where
  "concerns handler what e \<longleftrightarrow> me_handler e = handler \<and> (case what of None \<Rightarrow> True | Some w \<Rightarrow> me_what e = w)"

definition removeMessages :: "nat \<Rightarrow> int option \<Rightarrow> looper \<Rightarrow> looper" where
  "removeMessages handler what l =
     l\<lparr>mMessageEnvelopes := remove_loop (concerns handler what) (length (mMessageEnvelopes l)) (mMessageEnvelopes l)\<rparr>"


subsection \<open>Polling\<close>

definition poll_timeout :: "int \<Rightarrow> int \<Rightarrow> looper \<Rightarrow> int" where
  "poll_timeout timeoutMillis now l =
     (if timeoutMillis \<noteq> 0 \<and> mNextMessageUptime l \<noteq> LLONG_MAX then
        (let m = toMillisecondTimeoutDelay now (mNextMessageUptime l)
         in if m \<ge> 0 \<and> (timeoutMillis < 0 \<or> m < timeoutMillis) then m else timeoutMillis)
      else timeoutMillis)"

definition begin_poll :: "looper \<Rightarrow> looper" where
  "begin_poll l = l\<lparr>mResponses := [], mResponseIndex := 0, mPolling := True\<rparr>"

datatype epoll_item = Wake_item nat | Fd_item int nat

datatype wait_outcome = Wait_error nat | Wait_items "epoll_item list"

definition response_events :: "nat \<Rightarrow> nat" where
  "response_events ev =
     (if ev AND EPOLLIN \<noteq> 0 then EVENT_INPUT else 0) OR (if ev AND EPOLLOUT \<noteq> 0 then EVENT_OUTPUT else 0) OR
     (if ev AND EPOLLERR \<noteq> 0 then EVENT_ERROR else 0) OR (if ev AND EPOLLHUP \<noteq> 0 then EVENT_HANGUP else 0)"

definition pushResponse :: "nat \<Rightarrow> looper_request \<Rightarrow> looper \<Rightarrow> looper" where
  "pushResponse events request l = l\<lparr>mResponses := mResponses l @ [\<lparr>rs_events = events, rs_request = request\<rparr>]\<rparr>"

fun take_item :: "epoll_item \<Rightarrow> looper \<Rightarrow> looper" where
  "take_item (Wake_item ev) l = (if ev AND EPOLLIN \<noteq> 0 then looper_awoken l else l)"
| "take_item (Fd_item fd ev) l = (case map_of (mRequests l) fd of None \<Rightarrow> l | Some r \<Rightarrow> pushResponse (response_events ev) r l)"

text \<open>From \<open>epoll_wait\<close> to \<open>Done\<close>.\<close>

definition after_wait :: "epoll_ctl \<Rightarrow> wait_outcome \<Rightarrow> looper \<Rightarrow> int \<times> looper" where
  "after_wait ctl outcome l0 =
     (let l = l0\<lparr>mPolling := False\<rparr>
      in if mEpollRebuildRequired l then (POLL_WAKE, rebuildEpollLocked ctl (l\<lparr>mEpollRebuildRequired := False\<rparr>))
         else case outcome of
                Wait_error e \<Rightarrow> (if e = looper_EINTR then POLL_WAKE else POLL_ERROR, l)
              | Wait_items [] \<Rightarrow> (POLL_TIMEOUT, l)
              | Wait_items evs \<Rightarrow> (POLL_WAKE, fold take_item evs l))"

text \<open>One turn of the loop over the messages: a message that is due, with the lock released for its handler, or the end.
  \<open>mNextMessageUptime\<close> is \<open>LLONG_MAX\<close> from before the first turn until the last one.\<close>

definition next_message :: "int \<Rightarrow> looper \<Rightarrow> message_envelope option \<times> looper" where
  "next_message now l0 =
     (let l = l0\<lparr>mNextMessageUptime := LLONG_MAX\<rparr>
      in case mMessageEnvelopes l of
           [] \<Rightarrow> (None, l)
         | e # es \<Rightarrow>
             if me_uptime e \<le> now then (Some e, l\<lparr>mMessageEnvelopes := es, mSendingMessage := True\<rparr>)
             else (None, l\<lparr>mNextMessageUptime := me_uptime e\<rparr>))"

definition end_message :: "looper \<Rightarrow> looper" where
  "end_message l = l\<lparr>mSendingMessage := False\<rparr>"

text \<open>What follows the callback of the \<open>i\<close>-th response, which returned \<open>callbackResult\<close>.\<close>

definition end_callback :: "epoll_ctl \<Rightarrow> nat \<Rightarrow> int \<Rightarrow> looper \<Rightarrow> looper" where
  "end_callback ctl i callbackResult l =
     (let r = rs_request (mResponses l ! i);
          l1 = (if callbackResult = 0 then snd (removeFd ctl (rq_fd r) (rq_seq r) l) else l)
      in l1\<lparr>mResponses := (mResponses l1)[i := (mResponses l1 ! i)\<lparr>rs_request := r\<lparr>rq_callback := None\<rparr>\<rparr>]\<rparr>)"

text \<open>The part of \<open>pollOnce\<close> that hands out responses without a callback.\<close>

function next_response :: "looper \<Rightarrow> looper_response option \<times> looper" where
  "next_response l =
     (if mResponseIndex l < length (mResponses l) then
        (let r = mResponses l ! mResponseIndex l; l1 = l\<lparr>mResponseIndex := Suc (mResponseIndex l)\<rparr>
         in if rq_ident (rs_request r) \<ge> 0 then (Some r, l1) else next_response l1)
      else (None, l))"
  by pat_completeness auto

termination next_response
  by (relation "measure (\<lambda>l. length (mResponses l) - mResponseIndex l)") auto

declare next_response.simps [simp del]

end
