(* ===== verification/Looper_Steps.thy ===== *)
theory Looper_Steps
  imports Looper "HOL-Library.Multiset"
begin

text \<open>
  The looper with the threads that use it. The polling thread goes through the phases of \<open>pollOnce\<close> and \<open>pollInner\<close>; the
  other threads, and the handlers and callbacks it runs, take the lock whenever it is free. A sender wakes the looper
  after it has released the lock, so its wake-up may come late. The clock never goes back. The history of the messages,
  newest first, tells what was asked for and what was handled when.
\<close>

datatype poll_phase =
    P_idle
  | P_wait int int
  | P_dispatch int
  | P_handling int
  | P_responses nat int
  | P_callback nat int

datatype message_event = Sent message_envelope | Cancelled nat "int option" | Handled message_envelope int

record looper_world =
  w_phase :: poll_phase
  w_looper :: looper
  w_late_wakes :: nat
  w_clock :: int
  w_history :: "message_event list"
  w_registered :: "looper_request list"
  w_returned :: "int list"

definition new_world :: "bool \<Rightarrow> int \<Rightarrow> looper_world" where
  "new_world allowNonCallbacks now =
     \<lparr>w_phase = P_idle, w_looper = new_looper allowNonCallbacks, w_late_wakes = 0, w_clock = now, w_history = [],
      w_registered = [], w_returned = []\<rparr>"

text \<open>The polling thread holds the lock while it dispatches, but for the time a handler runs.\<close>

fun lock_free :: "poll_phase \<Rightarrow> bool" where
  "lock_free (P_dispatch _) = False"
| "lock_free _ = True"

text \<open>The requests \<open>addFd\<close> has numbered, whether the kernel accepted them or not.\<close>

definition numbered :: "int \<Rightarrow> int \<Rightarrow> nat \<Rightarrow> nat option \<Rightarrow> nat \<Rightarrow> looper \<Rightarrow> looper_request list" where
  "numbered fd ident events callback data l =
     (if callback = None \<and> (\<not> mAllowNonCallbacks l \<or> ident < 0) then []
      else [\<lparr>rq_fd = fd, rq_ident = if callback = None then ident else POLL_CALLBACK, rq_events = events,
             rq_seq = mNextRequestSeq l, rq_callback = callback, rq_data = data\<rparr>])"

inductive looper_step :: "looper_world \<Rightarrow> looper_world \<Rightarrow> bool" where
  time_passes: "w_clock s \<le> t \<Longrightarrow> looper_step s (s\<lparr>w_clock := t\<rparr>)"
| poll_ready:
    "\<lbrakk>w_phase s = P_idle; next_response (w_looper s) = (Some r, l)\<rbrakk> \<Longrightarrow>
       looper_step s (s\<lparr>w_looper := l, w_returned := rq_ident (rs_request r) # w_returned s\<rparr>)"
| poll_begins:
    "\<lbrakk>w_phase s = P_idle; next_response (w_looper s) = (None, l)\<rbrakk> \<Longrightarrow>
       looper_step s (s\<lparr>w_phase := P_wait (w_clock s) (poll_timeout timeoutMillis (w_clock s) l), w_looper := begin_poll l\<rparr>)"
| wait_ends:
    "\<lbrakk>w_phase s = P_wait start timeout; after_wait ctl outcome (w_looper s) = (result, l)\<rbrakk> \<Longrightarrow>
       looper_step s (s\<lparr>w_phase := P_dispatch result, w_looper := l\<rparr>)"
| message_due:
    "\<lbrakk>w_phase s = P_dispatch result; next_message (w_clock s) (w_looper s) = (Some e, l)\<rbrakk> \<Longrightarrow>
       looper_step s (s\<lparr>w_phase := P_handling result, w_looper := l, w_history := Handled e (w_clock s) # w_history s\<rparr>)"
| message_handled:
    "w_phase s = P_handling result \<Longrightarrow>
       looper_step s (s\<lparr>w_phase := P_dispatch POLL_CALLBACK, w_looper := end_message (w_looper s)\<rparr>)"
| messages_over:
    "\<lbrakk>w_phase s = P_dispatch result; next_message (w_clock s) (w_looper s) = (None, l)\<rbrakk> \<Longrightarrow>
       looper_step s (s\<lparr>w_phase := P_responses 0 result, w_looper := l\<rparr>)"
| callback_starts:
    "\<lbrakk>w_phase s = P_responses i result; i < length (mResponses (w_looper s));
      rq_ident (rs_request (mResponses (w_looper s) ! i)) = POLL_CALLBACK\<rbrakk> \<Longrightarrow>
       looper_step s (s\<lparr>w_phase := P_callback i result\<rparr>)"
| callback_none:
    "\<lbrakk>w_phase s = P_responses i result; i < length (mResponses (w_looper s));
      rq_ident (rs_request (mResponses (w_looper s) ! i)) \<noteq> POLL_CALLBACK\<rbrakk> \<Longrightarrow>
       looper_step s (s\<lparr>w_phase := P_responses (Suc i) result\<rparr>)"
| callback_ends:
    "w_phase s = P_callback i result \<Longrightarrow>
       looper_step s (s\<lparr>w_phase := P_responses (Suc i) POLL_CALLBACK, w_looper := end_callback ctl i callbackResult (w_looper s)\<rparr>)"
| poll_returns:
    "\<lbrakk>w_phase s = P_responses i result; length (mResponses (w_looper s)) \<le> i; next_response (w_looper s) = (r, l)\<rbrakk> \<Longrightarrow>
       looper_step s (s\<lparr>w_phase := P_idle, w_looper := l,
         w_returned := (case r of None \<Rightarrow> result | Some r \<Rightarrow> rq_ident (rs_request r)) # w_returned s\<rparr>)"
| message_sent:
    "\<lbrakk>lock_free (w_phase s); enqueue_message e (w_looper s) = (w, l)\<rbrakk> \<Longrightarrow>
       looper_step s (s\<lparr>w_looper := l, w_late_wakes := (if w then Suc (w_late_wakes s) else w_late_wakes s),
         w_history := Sent e # w_history s\<rparr>)"
| wake_sent:
    "w_late_wakes s = Suc n \<Longrightarrow> looper_step s (s\<lparr>w_late_wakes := n, w_looper := looper_wake (w_looper s)\<rparr>)"
| woken: "looper_step s (s\<lparr>w_looper := looper_wake (w_looper s)\<rparr>)"
| messages_removed:
    "lock_free (w_phase s) \<Longrightarrow>
       looper_step s (s\<lparr>w_looper := removeMessages handler what (w_looper s), w_history := Cancelled handler what # w_history s\<rparr>)"
| fd_added:
    "\<lbrakk>lock_free (w_phase s); addFd ctl fd ident events callback data (w_looper s) = (result, l)\<rbrakk> \<Longrightarrow>
       looper_step s (s\<lparr>w_looper := l, w_registered := w_registered s @ numbered fd ident events callback data (w_looper s)\<rparr>)"
| fd_removed:
    "\<lbrakk>lock_free (w_phase s); removeFd ctl fd (-1) (w_looper s) = (result, l)\<rbrakk> \<Longrightarrow> looper_step s (s\<lparr>w_looper := l\<rparr>)"
| fd_closed: "looper_step s (s\<lparr>w_looper := set_epoll fd None (w_looper s)\<rparr>)"


subsection \<open>What is promised of messages\<close>

text \<open>The messages that wait, in the order in which they were sent, and the one to handle next.\<close>

fun waiting :: "message_event list \<Rightarrow> message_envelope list" where
  "waiting [] = []"
| "waiting (Sent e # h) = waiting h @ [e]"
| "waiting (Cancelled handler what # h) = filter (\<lambda>e. \<not> concerns handler what e) (waiting h)"
| "waiting (Handled e t # h) = remove1 e (waiting h)"

definition earliest :: "message_envelope list \<Rightarrow> message_envelope option" where
  "earliest w = find (\<lambda>e. \<forall>x\<in>set w. me_uptime e \<le> me_uptime x) w"

fun orderly :: "message_event list \<Rightarrow> bool" where
  "orderly [] = True"
| "orderly (Handled e t # h) = (orderly h \<and> me_uptime e \<le> t \<and> earliest (waiting h) = Some e)"
| "orderly (_ # h) = orderly h"

text \<open>A wait that began at \<open>st\<close> with the time-out \<open>t\<close> ends early enough for a message at \<open>u\<close>: within a millisecond of it,
  unless the message is further ahead than an \<open>int\<close> of milliseconds reaches.\<close>

definition covered :: "int \<Rightarrow> int \<Rightarrow> int \<Rightarrow> bool" where
  "covered st t u \<longleftrightarrow>
     0 \<le> t \<and> st + t * 1000000 < max st u + 1000000 \<or> u - st > (2 ^ 31 - 2) * 1000000 \<or> u \<ge> LLONG_MAX"

text \<open>A wake-up has been asked for, or every message is soon enough by \<open>R\<close>.\<close>

definition alarmed :: "(int \<Rightarrow> bool) \<Rightarrow> looper_world \<Rightarrow> bool" where
  "alarmed R s \<longleftrightarrow> w_late_wakes s + lp_wakes (w_looper s) > 0 \<or> (\<forall>e\<in>set (mMessageEnvelopes (w_looper s)). R (me_uptime e))"

end
