(* ===== verification/Looper_Props.thy ===== *)
theory Looper_Props
  imports Looper_Steps
begin

text \<open>
  What the looper promises: messages are handled in the order of their times and never forgotten, no wait lasts longer than
  the next message allows, and a callback that asks to be removed never removes a later registration of its descriptor.
\<close>

subsection \<open>The queue of messages\<close>

definition put_message :: "message_envelope \<Rightarrow> message_envelope list \<Rightarrow> message_envelope list" where
  "put_message e q = take (message_place (me_uptime e) q) q @ e # drop (message_place (me_uptime e) q) q"

lemma put_message_simps [simp]:
  "put_message e [] = [e]"
  "put_message e (x # q) = (if me_uptime e \<ge> me_uptime x then x # put_message e q else e # x # q)"
  by (simp_all add: put_message_def)

lemma mset_put_message: "mset (put_message e q) = add_mset e (mset q)"
  by (induction q) auto

lemma set_put_message: "set (put_message e q) = insert e (set q)"
  by (induction q) auto

lemma put_message_sorted: "sorted (map me_uptime q) \<Longrightarrow> sorted (map me_uptime (put_message e q))"
  by (induction q) (auto simp: set_put_message)

lemma put_message_filter:
  "sorted (map me_uptime q) \<Longrightarrow>
     filter (\<lambda>x. u = me_uptime x) (put_message e q) = filter (\<lambda>x. u = me_uptime x) (q @ [e])"
proof (induction q)
  case (Cons x q)
  have "filter (\<lambda>y. me_uptime e = me_uptime y) q = []" if "\<not> me_uptime x \<le> me_uptime e"
    using that Cons.prems by (force simp: filter_empty_conv)
  with Cons show ?case by auto
qed simp

lemma filter_uptime: "filter (\<lambda>x. u = f x) (sort_key f xs) = filter (\<lambda>x. u = f x) xs"
  using sort_key_stable [of f u xs] by (simp add: eq_commute)

text \<open>The queue is the waiting messages sorted stably by their times.\<close>

lemma put_message_sort: "put_message e (sort_key me_uptime w) = sort_key me_uptime (w @ [e])"
proof (rule sym, rule properties_for_sort_key)
  show "mset (put_message e (sort_key me_uptime w)) = mset (w @ [e])" by (simp add: mset_put_message)
  show "sorted (map me_uptime (put_message e (sort_key me_uptime w)))" by (rule put_message_sorted) simp
  fix k
  show "filter (\<lambda>x. me_uptime k = me_uptime x) (put_message e (sort_key me_uptime w)) = filter (\<lambda>x. me_uptime k = me_uptime x) (w @ [e])"
    by (simp add: put_message_filter filter_uptime)
qed

lemma filter_remove1: "filter P (remove1 e xs) = (if P e then remove1 e (filter P xs) else filter P xs)"
  by (induction xs) auto

lemma remove_first_sort: "sort_key f xs = e # es \<Longrightarrow> sort_key f (remove1 e xs) = es"
proof (rule properties_for_sort_key)
  assume s: "sort_key f xs = e # es"
  have m: "mset xs = add_mset e (mset es)" using mset_sort [of f xs] by (simp add: s)
  then show "mset es = mset (remove1 e xs)" by simp
  show "sorted (map f es)" using sorted_sort_key [of f xs] by (simp add: s)
  fix k
  have "filter (\<lambda>x. f k = f x) xs = filter (\<lambda>x. f k = f x) (e # es)" using filter_uptime [of "f k" f xs] by (simp add: s)
  then show "filter (\<lambda>x. f k = f x) es = filter (\<lambda>x. f k = f x) (remove1 e xs)"
    by (cases "f k = f e") (simp_all add: filter_remove1)
qed

lemma find_filter: "find P xs = (case filter P xs of [] \<Rightarrow> None | x # _ \<Rightarrow> Some x)"
  by (induction xs) auto

lemma first_earliest:
  assumes "sort_key me_uptime w = e # es"
  shows "earliest w = Some e"
proof -
  have s: "set w = insert e (set es)" using assms by (metis list.simps(15) set_sort)
  have l: "\<forall>x\<in>set w. me_uptime e \<le> me_uptime x" using sorted_sort_key [of me_uptime w] by (auto simp: assms s)
  have "filter (\<lambda>x. \<forall>y\<in>set w. me_uptime x \<le> me_uptime y) w = filter (\<lambda>x. me_uptime e = me_uptime x) w"
    using l s by (intro filter_cong refl) (force intro: antisym)
  also have "\<dots> = e # filter (\<lambda>x. me_uptime e = me_uptime x) es" using filter_uptime [of "me_uptime e" me_uptime w] by (simp add: assms)
  finally show ?thesis by (simp add: earliest_def find_filter)
qed

lemma remove_loop_filter: "i \<le> length es \<Longrightarrow> remove_loop P i es = filter (\<lambda>e. \<not> P e) (take i es) @ drop i es"
proof (induction i arbitrary: es)
  case (Suc i)
  let ?es = "if P (es ! i) then take i es @ drop (Suc i) es else es"
  have t: "take (Suc i) es = take i es @ [es ! i]" using Suc.prems by (simp add: take_Suc_conv_app_nth)
  have d: "drop i es = es ! i # drop (Suc i) es" using Suc.prems by (simp add: Cons_nth_drop_Suc)
  have "remove_loop P (Suc i) es = filter (\<lambda>e. \<not> P e) (take i ?es) @ drop i ?es"
    using Suc by (subst remove_loop.simps, subst Suc.IH) auto
  then show ?case using Suc.prems by (simp add: t d split: if_splits)
qed simp

lemma removeMessages_queue:
  "mMessageEnvelopes (removeMessages handler what l) = filter (\<lambda>e. \<not> concerns handler what e) (mMessageEnvelopes l)"
  by (simp add: removeMessages_def remove_loop_filter)

lemma removeMessages_frame [simp]:
  "mSendingMessage (removeMessages handler what l) = mSendingMessage l"
  "mNextMessageUptime (removeMessages handler what l) = mNextMessageUptime l"
  "lp_wakes (removeMessages handler what l) = lp_wakes l"
  by (simp_all add: removeMessages_def)

lemma enqueue_message_cases:
  assumes "enqueue_message e l = (w, l')"
  shows "l' = l\<lparr>mMessageEnvelopes := put_message e (mMessageEnvelopes l)\<rparr>"
    and "w \<longleftrightarrow> \<not> mSendingMessage l \<and> message_place (me_uptime e) (mMessageEnvelopes l) = 0"
  using assms by (auto simp: enqueue_message_def put_message_def Let_def)


subsection \<open>The parts of the looper that an operation leaves alone\<close>

definition message_part :: "looper \<Rightarrow> message_envelope list \<times> bool \<times> int" where
  "message_part l = (mMessageEnvelopes l, mSendingMessage l, mNextMessageUptime l)"

lemma same_messages:
  assumes "message_part l' = message_part l"
  shows "mMessageEnvelopes l' = mMessageEnvelopes l" "mSendingMessage l' = mSendingMessage l"
    "mNextMessageUptime l' = mNextMessageUptime l"
  using assms by (simp_all add: message_part_def)

lemma message_part_fds [simp]:
  "message_part (set_epoll fd ev l) = message_part l"
  "message_part (looper_wake l) = message_part l"
  "message_part (looper_awoken l) = message_part l"
  "message_part (l\<lparr>mRequests := x\<rparr>) = message_part l"
  "message_part (l\<lparr>mNextRequestSeq := j\<rparr>) = message_part l"
  "message_part (l\<lparr>mEpollRebuildRequired := b\<rparr>) = message_part l"
  "message_part (l\<lparr>mPolling := b\<rparr>) = message_part l"
  "message_part (l\<lparr>mResponses := rs\<rparr>) = message_part l"
  "message_part (l\<lparr>mResponseIndex := n\<rparr>) = message_part l"
  "message_part (rebuildEpollLocked ctl l) = message_part l"
  "message_part (scheduleEpollRebuildLocked l) = message_part l"
  "message_part (pushResponse n r l) = message_part l"
  "message_part (begin_poll l) = message_part l"
  by (simp_all add: message_part_def set_epoll_def looper_wake_def looper_awoken_def rebuildEpollLocked_def
    scheduleEpollRebuildLocked_def pushResponse_def begin_poll_def)

lemma message_part_item: "message_part (take_item ev l) = message_part l"
  by (cases ev) (simp_all split: option.splits)

lemma message_part_items: "message_part (fold take_item evs l) = message_part l"
proof (induction evs arbitrary: l)
  case (Cons ev evs)
  show ?case using Cons.IH by (simp add: message_part_item)
qed simp

lemma message_part_wait: "after_wait ctl outcome l = (result, l') \<Longrightarrow> message_part l' = message_part l"
  by (auto simp: after_wait_def Let_def message_part_items message_part_item split: wait_outcome.splits list.splits if_splits)

lemma message_part_response: "next_response l = (r, l') \<Longrightarrow> message_part l' = message_part l"
proof (induction l arbitrary: r l' rule: next_response.induct)
  case (1 l)
  from 1(2) show ?case by (subst (asm) next_response.simps) (auto simp: Let_def split: if_splits dest: 1(1) [OF _ refl refl])
qed

lemma wakes_response: "next_response l = (r, l') \<Longrightarrow> lp_wakes l' = lp_wakes l"
proof (induction l arbitrary: r l' rule: next_response.induct)
  case (1 l)
  from 1(2) show ?case by (subst (asm) next_response.simps) (auto simp: Let_def split: if_splits dest: 1(1) [OF _ refl refl])
qed

lemma wakes_simps [simp]:
  "lp_wakes (set_epoll fd ev l) = lp_wakes l"
  "lp_wakes (looper_wake l) = Suc (lp_wakes l)"
  "lp_wakes l \<le> lp_wakes (scheduleEpollRebuildLocked l)"
  by (simp_all add: set_epoll_def looper_wake_def scheduleEpollRebuildLocked_def)

lemma scheduled_wakes: "lp_wakes l = lp_wakes l' \<Longrightarrow> lp_wakes l \<le> lp_wakes (scheduleEpollRebuildLocked l')"
  by simp

lemma addFd_frame:
  assumes "addFd ctl fd ident events callback data l = (result, l')"
  shows "message_part l' = message_part l" and "lp_wakes l \<le> lp_wakes l'"
proof -
  have "message_part (snd (register_fd ctl r l)) = message_part l \<and> lp_wakes l \<le> lp_wakes (snd (register_fd ctl r l))" for r
    by (auto simp: register_fd_def Let_def intro: scheduled_wakes split: option.splits)
  with assms show "message_part l' = message_part l" and "lp_wakes l \<le> lp_wakes l'"
    by (auto simp: addFd_def Let_def split: option.splits if_splits) (metis snd_conv)+
qed

lemma removeFd_frame:
  assumes "removeFd ctl fd seq l = (result, l')"
  shows "message_part l' = message_part l" and "lp_wakes l \<le> lp_wakes l'"
  using assms by (auto simp: removeFd_def Let_def intro: scheduled_wakes split: option.splits if_splits)

lemma end_callback_frame:
  "message_part (end_callback ctl i res l) = message_part l" "lp_wakes l \<le> lp_wakes (end_callback ctl i res l)"
  using removeFd_frame [of ctl _ _ l] by (cases "removeFd ctl (rq_fd (rs_request (mResponses l ! i))) (rq_seq (rs_request (mResponses l ! i))) l";
    simp add: end_callback_def Let_def)+


subsection \<open>Messages in order, and no wait too long\<close>

lemma covered_mono: "covered st t u \<Longrightarrow> u \<le> v \<Longrightarrow> covered st t v"
  by (auto simp: covered_def)

lemma poll_timeout_covers:
  assumes "mNextMessageUptime l \<le> u"
  shows "covered now (poll_timeout timeoutMillis now l) u"
proof -
  let ?n = "mNextMessageUptime l" and ?t = "poll_timeout timeoutMillis now l"
  have c: "now + ((?n - now + 999999) div 1000000) * 1000000 < ?n + 1000000" by linarith
  have "covered now ?t ?n"
  proof (cases "timeoutMillis = 0 \<or> ?n \<ge> LLONG_MAX \<or> ?n - now > (2 ^ 31 - 2) * 1000000")
    case True
    then show ?thesis by (auto simp: covered_def poll_timeout_def)
  next
    case False
    define m where "m = toMillisecondTimeoutDelay now ?n"
    have m: "0 \<le> m" "now + m * 1000000 < max now ?n + 1000000"
      using False c by (auto simp: m_def toMillisecondTimeoutDelay_def Let_def)
    have "?t = (if timeoutMillis < 0 \<or> m < timeoutMillis then m else timeoutMillis)"
      using False m(1) by (simp add: poll_timeout_def m_def Let_def)
    then show ?thesis using m False by (auto simp: covered_def split: if_splits)
  qed
  with assms show ?thesis by (rule covered_mono [rotated])
qed

text \<open>What a phase needs of the next message, and what holds of every state.\<close>

definition next_known :: "looper_world \<Rightarrow> bool" where
  "next_known s \<longleftrightarrow>
     (case w_phase s of
        P_wait st t \<Rightarrow> alarmed (covered st t) s
      | P_dispatch _ \<Rightarrow> True
      | P_handling _ \<Rightarrow> True
      | _ \<Rightarrow> alarmed (\<lambda>u. mNextMessageUptime (w_looper s) \<le> u) s)"

definition is_handling :: "poll_phase \<Rightarrow> bool" where
  "is_handling p \<longleftrightarrow> (case p of P_handling _ \<Rightarrow> True | _ \<Rightarrow> False)"

definition queue_ok :: "looper_world \<Rightarrow> bool" where
  "queue_ok s \<longleftrightarrow>
     orderly (w_history s) \<and> mMessageEnvelopes (w_looper s) = sort_key me_uptime (waiting (w_history s)) \<and>
     mSendingMessage (w_looper s) = is_handling (w_phase s) \<and> next_known s"

lemma alarmed_mono:
  assumes "alarmed R s" "set (mMessageEnvelopes (w_looper s')) \<subseteq> set (mMessageEnvelopes (w_looper s))"
    "w_late_wakes s + lp_wakes (w_looper s) \<le> w_late_wakes s' + lp_wakes (w_looper s')"
  shows "alarmed R s'"
  using assms by (auto simp: alarmed_def)

lemma next_known_lift:
  assumes "next_known s" "w_phase s' = w_phase s" "mNextMessageUptime (w_looper s') = mNextMessageUptime (w_looper s)"
    and a: "\<And>R. alarmed R s \<Longrightarrow> (\<And>u v. R u \<Longrightarrow> u \<le> v \<Longrightarrow> R v) \<Longrightarrow> alarmed R s'"
  shows "next_known s'"
proof -
  note w = a [of "covered st t" for st t, OF _ covered_mono] and i = a [of "\<lambda>u. mNextMessageUptime (w_looper s) \<le> u"]
  show ?thesis using assms(1-3) w i by (cases "w_phase s") (auto simp: next_known_def)
qed

lemma next_known_mono:
  assumes "next_known s" "w_phase s' = w_phase s" "mNextMessageUptime (w_looper s') = mNextMessageUptime (w_looper s)"
    "set (mMessageEnvelopes (w_looper s')) \<subseteq> set (mMessageEnvelopes (w_looper s))"
    "w_late_wakes s + lp_wakes (w_looper s) \<le> w_late_wakes s' + lp_wakes (w_looper s')"
  shows "next_known s'"
  using assms(1-3) by (rule next_known_lift) (rule alarmed_mono [OF _ assms(4,5)])

text \<open>A step on file descriptors or wake-ups keeps the messages as they are.\<close>

lemma queue_ok_frame:
  assumes "queue_ok s" "w_phase s' = w_phase s" "w_history s' = w_history s"
    "message_part (w_looper s') = message_part (w_looper s)"
    "w_late_wakes s + lp_wakes (w_looper s) \<le> w_late_wakes s' + lp_wakes (w_looper s')"
  shows "queue_ok s'"
  using assms(1-3,5) same_messages [OF assms(4)] next_known_mono [of s s'] by (simp add: queue_ok_def)

lemma alarmed_sent:
  assumes "alarmed R s" "\<And>u v. R u \<Longrightarrow> u \<le> v \<Longrightarrow> R v" "\<not> mSendingMessage (w_looper s)"
    "enqueue_message e (w_looper s) = (w, w_looper s')"
    "w_late_wakes s' = (if w then Suc (w_late_wakes s) else w_late_wakes s)"
  shows "alarmed R s'"
proof (cases "mMessageEnvelopes (w_looper s)")
  case Nil
  with assms(3,5) enqueue_message_cases [OF assms(4)] show ?thesis by (simp add: alarmed_def)
next
  case (Cons x q)
  with assms(3,5) enqueue_message_cases [OF assms(4)] assms(1) show ?thesis
    by (cases "me_uptime x \<le> me_uptime e") (auto simp: alarmed_def set_put_message intro: assms(2))
qed

lemma queue_ok_sent:
  assumes "queue_ok s" "lock_free (w_phase s)" "enqueue_message e (w_looper s) = (w, l)"
  shows "queue_ok (s\<lparr>w_looper := l, w_late_wakes := (if w then Suc (w_late_wakes s) else w_late_wakes s),
           w_history := Sent e # w_history s\<rparr>)" (is "queue_ok ?s")
proof -
  note i = assms(1) [unfolded queue_ok_def] and c = enqueue_message_cases [OF assms(3)]
  have known: "next_known ?s"
  proof (cases "is_handling (w_phase s)")
    case True
    then show ?thesis by (simp add: next_known_def is_handling_def split: poll_phase.splits)
  next
    case False
    then have "\<not> mSendingMessage (w_looper s)" using i by simp
    then have "alarmed R s \<Longrightarrow> (\<And>u v. R u \<Longrightarrow> u \<le> v \<Longrightarrow> R v) \<Longrightarrow> alarmed R ?s" for R
      using assms(3) by (rule_tac alarmed_sent [of R s e w ?s]) (simp_all del: if_split)
    with i show ?thesis by (intro next_known_lift [of s ?s]) (simp_all add: c(1) del: if_split)
  qed
  from i known show ?thesis by (simp add: queue_ok_def c(1) put_message_sort del: if_split)
qed

lemma queue_ok_removed:
  assumes "queue_ok s"
  shows "queue_ok (s\<lparr>w_looper := removeMessages handler what (w_looper s), w_history := Cancelled handler what # w_history s\<rparr>)"
    (is "queue_ok ?s")
proof -
  have "next_known ?s" using assms by (intro next_known_mono [of s ?s]) (auto simp: queue_ok_def removeMessages_queue)
  with assms show ?thesis by (simp add: queue_ok_def removeMessages_queue filter_sort)
qed

lemma queue_ok_due:
  assumes "queue_ok s" "next_message (w_clock s) (w_looper s) = (Some e, l)"
  shows "queue_ok (s\<lparr>w_phase := P_handling r, w_looper := l, w_history := Handled e (w_clock s) # w_history s\<rparr>)"
proof -
  obtain es where q: "mMessageEnvelopes (w_looper s) = e # es" and d: "me_uptime e \<le> w_clock s"
    and l: "mMessageEnvelopes l = es" "mSendingMessage l"
    using assms(2) by (auto simp: next_message_def Let_def split: list.splits if_splits)
  have "sort_key me_uptime (waiting (w_history s)) = e # es" using assms(1) q by (simp add: queue_ok_def)
  with first_earliest [OF this] remove_first_sort [OF this] assms(1) d l show ?thesis
    by (simp add: queue_ok_def next_known_def is_handling_def)
qed

lemma queue_ok_over:
  assumes "queue_ok s" "w_phase s = P_dispatch r" "next_message (w_clock s) (w_looper s) = (None, l)"
  shows "queue_ok (s\<lparr>w_phase := P_responses 0 r, w_looper := l\<rparr>)" (is "queue_ok ?s")
proof -
  have q: "mMessageEnvelopes l = mMessageEnvelopes (w_looper s)" "mSendingMessage l = mSendingMessage (w_looper s)"
    using assms(3) by (auto simp: next_message_def Let_def split: list.splits if_splits)
  have s: "sorted (map me_uptime (mMessageEnvelopes l))" using assms(1) q by (simp add: queue_ok_def)
  have "\<forall>e\<in>set (mMessageEnvelopes l). mNextMessageUptime l \<le> me_uptime e"
    using assms(3) s by (auto simp: next_message_def Let_def split: list.splits if_splits)
  then have "next_known ?s" by (simp add: next_known_def alarmed_def)
  with assms(1,2) q show ?thesis by (simp add: queue_ok_def is_handling_def)
qed

lemma queue_ok_begins:
  assumes "queue_ok s" "w_phase s = P_idle" "next_response (w_looper s) = (None, l)"
  shows "queue_ok (s\<lparr>w_phase := P_wait (w_clock s) (poll_timeout timeoutMillis (w_clock s) l), w_looper := begin_poll l\<rparr>)"
    (is "queue_ok ?s")
proof -
  note m = same_messages [OF message_part_response [OF assms(3)]] and w = wakes_response [OF assms(3)]
  have b: "mMessageEnvelopes (begin_poll l) = mMessageEnvelopes l" "mSendingMessage (begin_poll l) = mSendingMessage l"
    "lp_wakes (begin_poll l) = lp_wakes l" by (simp_all add: begin_poll_def)
  have "next_known ?s"
    using assms(1,2) by (auto simp: queue_ok_def next_known_def alarmed_def b m w intro!: poll_timeout_covers)
  with assms(1,2) show ?thesis by (simp add: queue_ok_def is_handling_def b m)
qed

lemma queue_ok_step:
  assumes "looper_step s s'" "queue_ok s"
  shows "queue_ok s'"
  using assms(1)
proof cases
  case poll_ready
  then show ?thesis using message_part_response wakes_response by (auto intro!: queue_ok_frame [OF assms(2)])
next
  case wait_ends
  then show ?thesis
    using assms(2) same_messages [OF message_part_wait [OF wait_ends(3)]] by (simp add: queue_ok_def next_known_def is_handling_def)
next
  case message_handled
  then show ?thesis using assms(2) by (simp add: queue_ok_def next_known_def is_handling_def end_message_def)
next
  case callback_starts
  with assms(2) show ?thesis by (auto simp: queue_ok_def next_known_def alarmed_def is_handling_def)
next
  case callback_none
  with assms(2) show ?thesis by (auto simp: queue_ok_def next_known_def alarmed_def is_handling_def)
next
  case (callback_ends i result ctl callbackResult)
  with assms(2) same_messages [OF end_callback_frame(1)] end_callback_frame(2) [of "w_looper s" ctl i callbackResult] show ?thesis
    by (auto simp: queue_ok_def next_known_def alarmed_def is_handling_def)
next
  case (poll_returns i result r l)
  with assms(2) same_messages [OF message_part_response [OF poll_returns(4)]] wakes_response [OF poll_returns(4)] show ?thesis
    by (auto simp: queue_ok_def next_known_def alarmed_def is_handling_def)
next
  case fd_added
  then show ?thesis using addFd_frame by (auto intro!: queue_ok_frame [OF assms(2)])
next
  case fd_removed
  then show ?thesis using removeFd_frame by (auto intro!: queue_ok_frame [OF assms(2)])
next
  case message_sent
  then show ?thesis using assms(2) by (simp only: queue_ok_sent)
next
  case messages_removed
  then show ?thesis using assms(2) by (simp only: queue_ok_removed)
next
  case message_due
  then show ?thesis using assms(2) by (simp only: queue_ok_due)
next
  case messages_over
  then show ?thesis using assms(2) by (simp only: queue_ok_over)
next
  case poll_begins
  then show ?thesis using assms(2) by (simp only: queue_ok_begins)
qed (auto intro!: queue_ok_frame [OF assms(2)])

lemma queue_ok_steps: "looper_step\<^sup>*\<^sup>* (new_world allow now) s \<Longrightarrow> queue_ok s"
proof (induction rule: rtranclp_induct)
  case base
  show ?case by (simp add: queue_ok_def new_world_def new_looper_def next_known_def alarmed_def is_handling_def)
qed (rule queue_ok_step)

end
