(* ===== verification/Looper_Requests.thy ===== *)
theory Looper_Requests
  imports Looper_Props
begin

text \<open>
  The file descriptors of a looper: the requests, the numbers that tell two registrations of one descriptor apart, the
  responses of a poll and the epoll instance.
\<close>

subsection \<open>Numbers of registrations\<close>

definition seq_number :: "nat \<Rightarrow> int" where
  "seq_number k = (next_seq ^^ k) 0"

lemma seq_number_simps [simp]: "seq_number 0 = 0" "seq_number (Suc k) = next_seq (seq_number k)"
  by (simp_all add: seq_number_def)

lemma seq_number_closed: "k < 2 ^ 32 - 1 \<Longrightarrow> seq_number k = (if k < 2 ^ 31 then int k else int k - 2 ^ 32)"
proof (induction k)
  case (Suc k)
  then have "seq_number k = (if k < 2 ^ 31 then int k else int k - 2 ^ 32)" by simp
  with Suc.prems show ?case by (auto simp: next_seq_def Let_def split: if_splits)
qed simp

lemma seq_number_inj: "seq_number j = seq_number k \<Longrightarrow> j < 2 ^ 32 - 1 \<Longrightarrow> k < 2 ^ 32 - 1 \<Longrightarrow> j = k"
  by (auto simp: seq_number_closed split: if_splits)

lemma seq_number_reserved: "seq_number k \<noteq> -1"
  by (cases k) (simp_all add: next_seq_def Let_def)


subsection \<open>The invariant\<close>

definition answerable :: "looper_request \<Rightarrow> bool" where
  "answerable r \<longleftrightarrow> (if rq_callback r = None then rq_ident r \<ge> 0 else rq_ident r = POLL_CALLBACK)"

definition numbers_ok :: "looper_request list \<Rightarrow> bool" where
  "numbers_ok reg \<longleftrightarrow> (\<forall>k<length reg. rq_seq (reg ! k) = seq_number k) \<and> (\<forall>r\<in>set reg. answerable r)"

definition epoll_ok :: "looper \<Rightarrow> bool" where
  "epoll_ok l \<longleftrightarrow>
     (if mEpollRebuildRequired l then lp_wakes l > 0
      else \<forall>fd ev. lp_epoll l fd = Some ev \<longrightarrow> map_option initEventItem (map_of (mRequests l) fd) = Some ev)"

definition requests_ok :: "looper \<Rightarrow> looper_request list \<Rightarrow> bool" where
  "requests_ok l reg \<longleftrightarrow>
     numbers_ok reg \<and> mNextRequestSeq l = seq_number (length reg) \<and> map_ok (mRequests l) \<and>
     (\<forall>fd r. map_of (mRequests l) fd = Some r \<longrightarrow> rq_fd r = fd \<and> r \<in> set reg) \<and> epoll_ok l"

text \<open>The responses whose callbacks have not run yet are those from here on.\<close>

fun first_pending :: "poll_phase \<Rightarrow> nat option" where
  "first_pending P_idle = None"
| "first_pending (P_responses i _) = Some i"
| "first_pending (P_callback i _) = Some i"
| "first_pending _ = Some 0"

definition responses_ok :: "poll_phase \<Rightarrow> looper \<Rightarrow> looper_request list \<Rightarrow> bool" where
  "responses_ok p l reg \<longleftrightarrow>
     (case first_pending p of None \<Rightarrow> True
      | Some i \<Rightarrow> \<forall>j<length (mResponses l). i \<le> j \<longrightarrow> rs_request (mResponses l ! j) \<in> set reg) \<and>
     (case p of P_callback i _ \<Rightarrow> i < length (mResponses l) \<and> rq_ident (rs_request (mResponses l ! i)) = POLL_CALLBACK | _ \<Rightarrow> True)"

definition fds_ok :: "looper_world \<Rightarrow> bool" where
  "fds_ok s \<longleftrightarrow> requests_ok (w_looper s) (w_registered s) \<and> responses_ok (w_phase s) (w_looper s) (w_registered s)"

lemma numbers_ok_snoc: "numbers_ok reg \<Longrightarrow> rq_seq r = seq_number (length reg) \<Longrightarrow> answerable r \<Longrightarrow> numbers_ok (reg @ [r])"
  by (auto simp: numbers_ok_def nth_append less_Suc_eq)

lemma same_registration:
  assumes "numbers_ok reg" "length reg < 2 ^ 32 - 1" "r \<in> set reg" "r' \<in> set reg" "rq_seq r = rq_seq r'"
  shows "r = r'"
proof -
  obtain j k where "j < length reg" "r = reg ! j" "k < length reg" "r' = reg ! k" using assms(3,4) by (auto simp: in_set_conv_nth)
  with assms show ?thesis using seq_number_inj [of j k] by (simp add: numbers_ok_def)
qed

lemma never_reserved: "numbers_ok reg \<Longrightarrow> r \<in> set reg \<Longrightarrow> rq_seq r \<noteq> -1"
  by (auto simp: numbers_ok_def in_set_conv_nth seq_number_reserved)


subsection \<open>Operations keep it\<close>

lemma requests_ok_frame:
  "\<lbrakk>requests_ok l reg; mRequests l' = mRequests l; mNextRequestSeq l' = mNextRequestSeq l;
    mEpollRebuildRequired l' = mEpollRebuildRequired l; lp_epoll l' = lp_epoll l; lp_wakes l \<le> lp_wakes l'\<rbrakk> \<Longrightarrow> requests_ok l' reg"
  by (auto simp: requests_ok_def epoll_ok_def split: if_splits)

lemma scheduled_simps [simp]:
  "mRequests (scheduleEpollRebuildLocked l) = mRequests l"
  "mNextRequestSeq (scheduleEpollRebuildLocked l) = mNextRequestSeq l"
  "mResponses (scheduleEpollRebuildLocked l) = mResponses l"
  by (simp_all add: scheduleEpollRebuildLocked_def looper_wake_def)

lemma epoll_ok_scheduled:
  assumes "epoll_ok l" "lp_wakes l' = lp_wakes l" "mEpollRebuildRequired l' = mEpollRebuildRequired l"
  shows "epoll_ok ((scheduleEpollRebuildLocked l')\<lparr>mRequests := q\<rparr>)" "epoll_ok (scheduleEpollRebuildLocked l')"
  using assms by (auto simp: epoll_ok_def scheduleEpollRebuildLocked_def looper_wake_def)

lemma register_fd_cases:
  assumes "register_fd ctl r0 l = (result, l')" "r = r0\<lparr>rq_seq := mNextRequestSeq l\<rparr>"
  obtains (refused) "l' = l\<lparr>mNextRequestSeq := next_seq (mNextRequestSeq l)\<rparr>"
  | (registered) l1 where "l1 = set_epoll (rq_fd r) (Some (initEventItem r)) (l\<lparr>mNextRequestSeq := next_seq (mNextRequestSeq l)\<rparr>)"
      "l' = l1\<lparr>mRequests := map_put (rq_fd r) r (mRequests l)\<rparr> \<or>
       l' = (scheduleEpollRebuildLocked l1)\<lparr>mRequests := map_put (rq_fd r) r (mRequests l)\<rparr>"
proof -
  let ?l1 = "set_epoll (rq_fd r) (Some (initEventItem r)) (l\<lparr>mNextRequestSeq := next_seq (mNextRequestSeq l)\<rparr>)"
  have "mRequests ?l1 = mRequests l" by (simp add: set_epoll_def)
  then have "l' = l\<lparr>mNextRequestSeq := next_seq (mNextRequestSeq l)\<rparr> \<or> l' = ?l1\<lparr>mRequests := map_put (rq_fd r) r (mRequests l)\<rparr> \<or>
    l' = (scheduleEpollRebuildLocked ?l1)\<lparr>mRequests := map_put (rq_fd r) r (mRequests l)\<rparr>"
    using assms by (auto simp: register_fd_def Let_def split: option.splits if_splits)
  then show thesis using refused registered [OF refl] by blast
qed

lemma register_fd_ok:
  assumes "requests_ok l reg" "register_fd ctl r0 l = (result, l')" "r = r0\<lparr>rq_seq := mNextRequestSeq l\<rparr>" "answerable r"
  shows "requests_ok l' (reg @ [r])"
  using assms(2,3)
proof (cases rule: register_fd_cases)
  case refused
  with assms show ?thesis by (auto simp: requests_ok_def epoll_ok_def intro: numbers_ok_snoc split: if_splits)
next
  case (registered l1)
  note i = assms(1) [unfolded requests_ok_def]
  have m: "map_of (map_put (rq_fd r) r (mRequests l)) = (map_of (mRequests l))(rq_fd r \<mapsto> r)" "map_ok (map_put (rq_fd r) r (mRequests l))"
    using i by (simp_all add: map_put_lookup map_put_ok)
  have "epoll_ok (l1\<lparr>mRequests := map_put (rq_fd r) r (mRequests l)\<rparr>)"
    using i by (auto simp: epoll_ok_def registered(1) set_epoll_def m(1) split: if_splits)
  moreover have "epoll_ok ((scheduleEpollRebuildLocked l1)\<lparr>mRequests := map_put (rq_fd r) r (mRequests l)\<rparr>)"
    using i by (intro epoll_ok_scheduled(1) [of l]) (simp_all add: registered(1) set_epoll_def)
  ultimately have e: "epoll_ok l'" using registered(2) by auto
  have "mRequests l' = map_put (rq_fd r) r (mRequests l)" "mNextRequestSeq l' = next_seq (mNextRequestSeq l)"
    using registered(2) by (auto simp: registered(1) set_epoll_def)
  with i m e assms(3,4) show ?thesis by (auto simp: requests_ok_def intro: numbers_ok_snoc split: if_splits)
qed

lemma register_fd_responses: "register_fd ctl r0 l = (result, l') \<Longrightarrow> mResponses l' = mResponses l"
  by (auto simp: register_fd_def Let_def set_epoll_def split: option.splits if_splits)

lemma addFd_ok:
  assumes "requests_ok l reg" "addFd ctl fd ident events callback data l = (result, l')"
  shows "requests_ok l' (reg @ numbered fd ident events callback data l)" and "mResponses l' = mResponses l"
proof -
  consider (refused) "l' = l" "numbered fd ident events callback data l = []"
    | (added) r0 r where "register_fd ctl r0 l = (result, l')" "r = r0\<lparr>rq_seq := mNextRequestSeq l\<rparr>" "answerable r"
        "numbered fd ident events callback data l = [r]"
    using assms(2) by (auto simp: addFd_def numbered_def answerable_def Let_def split: option.splits if_splits)
  then have "requests_ok l' (reg @ numbered fd ident events callback data l) \<and> mResponses l' = mResponses l"
    using assms(1) register_fd_ok register_fd_responses by cases auto
  then show "requests_ok l' (reg @ numbered fd ident events callback data l)" and "mResponses l' = mResponses l" by auto
qed

lemma removeFd_cases:
  assumes "removeFd ctl fd seq l = (result, l')"
  obtains (kept) "l' = l" "\<forall>r. map_of (mRequests l) fd = Some r \<longrightarrow> seq \<noteq> -1 \<and> rq_seq r \<noteq> seq"
  | (removed) r where "map_of (mRequests l) fd = Some r" "seq = -1 \<or> rq_seq r = seq"
      "l' = set_epoll fd None (l\<lparr>mRequests := map_erase fd (mRequests l)\<rparr>) \<or>
       l' = scheduleEpollRebuildLocked (l\<lparr>mRequests := map_erase fd (mRequests l)\<rparr>)"
  using assms by (auto simp: removeFd_def Let_def split: option.splits if_splits)

lemma removeFd_requests:
  assumes "removeFd ctl fd seq l = (result, l')"
  shows "map_of (mRequests l') =
    (case map_of (mRequests l) fd of None \<Rightarrow> map_of (mRequests l)
     | Some r \<Rightarrow> if seq = -1 \<or> rq_seq r = seq then (map_of (mRequests l))(fd := None) else map_of (mRequests l))"
  using assms by (cases rule: removeFd_cases) (auto simp: set_epoll_def map_erase_lookup split: option.splits)

lemma removeFd_ok:
  assumes "requests_ok l reg" "removeFd ctl fd seq l = (result, l')"
  shows "requests_ok l' reg" and "mResponses l' = mResponses l"
proof -
  show "mResponses l' = mResponses l" using assms(2) by (cases rule: removeFd_cases) (auto simp: set_epoll_def)
  show "requests_ok l' reg"
    using assms(2)
  proof (cases rule: removeFd_cases)
    case (removed r)
    note i = assms(1) [unfolded requests_ok_def]
    let ?l = "l\<lparr>mRequests := map_erase fd (mRequests l)\<rparr>"
    have "epoll_ok (set_epoll fd None ?l)"
      using i by (auto simp: epoll_ok_def set_epoll_def map_erase_lookup split: if_splits)
    moreover have "epoll_ok (scheduleEpollRebuildLocked ?l)" using i by (intro epoll_ok_scheduled(2) [of l]) simp_all
    ultimately have "epoll_ok l'" using removed(3) by auto
    moreover have "mRequests l' = map_erase fd (mRequests l)" "mNextRequestSeq l' = mNextRequestSeq l"
      using removed(3) by (auto simp: set_epoll_def)
    ultimately show ?thesis using i by (auto simp: requests_ok_def map_erase_ok map_erase_lookup split: if_splits)
  qed (use assms(1) in simp)
qed

lemma rebuild_ok:
  assumes "requests_ok l reg"
  shows "requests_ok (rebuildEpollLocked ctl (l\<lparr>mPolling := False, mEpollRebuildRequired := False\<rparr>)) reg"
proof -
  note i = assms [unfolded requests_ok_def]
  let ?f = "filter (\<lambda>(fd, r). ctl EPOLL_CTL_ADD fd = 0) (mRequests l)"
  have "map_of ?f fd = (if ctl EPOLL_CTL_ADD fd = 0 then map_of (mRequests l) fd else None)" for fd
    using map_of_filter_key [of "\<lambda>fd. ctl EPOLL_CTL_ADD fd = 0" "mRequests l"] by simp
  then have "map_of (map (\<lambda>(fd, r). (fd, initEventItem r)) ?f) fd =
      (if ctl EPOLL_CTL_ADD fd = 0 then map_option initEventItem (map_of (mRequests l) fd) else None)" for fd
    by (simp add: map_of_values)
  with i show ?thesis by (auto simp: requests_ok_def epoll_ok_def rebuildEpollLocked_def split: if_splits)
qed

text \<open>Taking the events of a wait adds responses of registered requests only.\<close>

lemma take_item_ok:
  assumes "requests_ok l reg" "\<not> mEpollRebuildRequired l" "\<forall>x\<in>set (mResponses l). rs_request x \<in> set reg"
  shows "requests_ok (take_item ev l) reg" "\<not> mEpollRebuildRequired (take_item ev l)"
    "\<forall>x\<in>set (mResponses (take_item ev l)). rs_request x \<in> set reg"
  using assms
  by (cases ev; auto simp: requests_ok_def epoll_ok_def looper_awoken_def pushResponse_def split: option.splits)+

lemma take_items_ok:
  assumes "requests_ok l reg" "\<not> mEpollRebuildRequired l" "\<forall>x\<in>set (mResponses l). rs_request x \<in> set reg"
  shows "requests_ok (fold take_item evs l) reg \<and> (\<forall>x\<in>set (mResponses (fold take_item evs l)). rs_request x \<in> set reg)"
  using assms
proof (induction evs arbitrary: l)
  case (Cons ev evs)
  show ?case using Cons.IH [OF take_item_ok [OF Cons.prems]] by simp
qed simp

lemma after_wait_ok:
  assumes "requests_ok l reg" "\<forall>x\<in>set (mResponses l). rs_request x \<in> set reg" "after_wait ctl outcome l = (result, l')"
  shows "requests_ok l' reg \<and> (\<forall>x\<in>set (mResponses l'). rs_request x \<in> set reg)"
proof (cases "mEpollRebuildRequired l")
  case True
  then have "l' = rebuildEpollLocked ctl (l\<lparr>mPolling := False, mEpollRebuildRequired := False\<rparr>)"
    using assms(3) by (simp add: after_wait_def)
  with rebuild_ok [OF assms(1)] assms(2) show ?thesis by (simp add: rebuildEpollLocked_def)
next
  case False
  let ?l = "l\<lparr>mPolling := False\<rparr>"
  have p: "requests_ok ?l reg" using assms(1) by (rule requests_ok_frame) simp_all
  have "\<exists>evs. l' = fold take_item evs ?l"
  proof (cases outcome)
    case (Wait_items evs)
    with assms(3) False have "l' = fold take_item evs ?l" by (cases evs) (auto simp: after_wait_def)
    then show ?thesis ..
  qed (use assms(3) False in \<open>auto simp: after_wait_def intro: exI [of _ "[]"]\<close>)
  then show ?thesis using take_items_ok [OF p] False assms(2) by auto
qed

text \<open>What the end of a callback leaves of the requests and of the responses that still wait.\<close>

lemma end_callback_requests:
  assumes "rs_request (mResponses l ! i) = r"
  shows "mRequests (end_callback ctl i res l) = (if res = 0 then mRequests (snd (removeFd ctl (rq_fd r) (rq_seq r) l)) else mRequests l)"
  using assms by (simp add: end_callback_def Let_def)

lemma end_callback_ok:
  assumes "requests_ok l reg" "i < length (mResponses l)"
  shows "requests_ok (end_callback ctl i res l) reg"
    and "length (mResponses (end_callback ctl i res l)) = length (mResponses l)"
    and "i < j \<Longrightarrow> mResponses (end_callback ctl i res l) ! j = mResponses l ! j"
proof -
  define r where "r = rs_request (mResponses l ! i)"
  define l1 where "l1 = (if res = 0 then snd (removeFd ctl (rq_fd r) (rq_seq r) l) else l)"
  have l1: "requests_ok l1 reg" "mResponses l1 = mResponses l"
    using removeFd_ok [OF assms(1), of ctl "rq_fd r" "rq_seq r"] assms(1)
    by (cases "removeFd ctl (rq_fd r) (rq_seq r) l"; simp add: l1_def)+
  have e: "end_callback ctl i res l = l1\<lparr>mResponses := (mResponses l1)[i := (mResponses l1 ! i)\<lparr>rs_request := r\<lparr>rq_callback := None\<rparr>\<rparr>]\<rparr>"
    by (simp add: end_callback_def r_def l1_def Let_def)
  show "requests_ok (end_callback ctl i res l) reg" unfolding e by (rule requests_ok_frame [OF l1(1)]) simp_all
  show "length (mResponses (end_callback ctl i res l)) = length (mResponses l)" by (simp add: e l1(2))
  show "mResponses (end_callback ctl i res l) ! j = mResponses l ! j" if "i < j" using that by (simp add: e l1(2))
qed


subsection \<open>Every state\<close>

lemma responses_ok_grown:
  "responses_ok p l reg \<Longrightarrow> mResponses l' = mResponses l \<Longrightarrow> set reg \<subseteq> set reg' \<Longrightarrow> responses_ok p l' reg'"
  by (auto simp: responses_ok_def split: option.splits poll_phase.splits)

lemma fds_ok_frame:
  assumes "fds_ok s" "w_phase s' = w_phase s" "w_registered s' = w_registered s"
    "mRequests (w_looper s') = mRequests (w_looper s)" "mNextRequestSeq (w_looper s') = mNextRequestSeq (w_looper s)"
    "mEpollRebuildRequired (w_looper s') = mEpollRebuildRequired (w_looper s)" "lp_epoll (w_looper s') = lp_epoll (w_looper s)"
    "lp_wakes (w_looper s) \<le> lp_wakes (w_looper s')" "mResponses (w_looper s') = mResponses (w_looper s)"
  shows "fds_ok s'"
  using assms(1-3) requests_ok_frame [OF _ assms(4-8)] responses_ok_grown [OF _ assms(9) order_refl] by (simp add: fds_ok_def)

lemma next_response_frame:
  assumes "next_response l = (r, l')"
  shows "\<exists>k. l' = l\<lparr>mResponseIndex := k\<rparr>"
  using assms
proof (induction l arbitrary: r l' rule: next_response.induct)
  case (1 l)
  have "\<exists>k. l = l\<lparr>mResponseIndex := k\<rparr>" by (rule exI [of _ "mResponseIndex l"]) simp
  with 1(2) show ?case by (subst (asm) next_response.simps) (fastforce simp: Let_def split: if_splits dest: 1(1) [OF _ refl refl])
qed

lemma next_message_frame:
  assumes "next_message now l = (m, l')"
  shows "mRequests l' = mRequests l" "mNextRequestSeq l' = mNextRequestSeq l" "mEpollRebuildRequired l' = mEpollRebuildRequired l"
    "lp_epoll l' = lp_epoll l" "lp_wakes l' = lp_wakes l" "mResponses l' = mResponses l"
  using assms by (auto simp: next_message_def Let_def split: list.splits if_splits)

lemma fds_ok_step:
  assumes "looper_step s s'" "fds_ok s"
  shows "fds_ok s'"
  using assms(1)
proof cases
  case (poll_ready r l)
  then show ?thesis using next_response_frame [OF poll_ready(3)] by (auto intro!: fds_ok_frame [OF assms(2)])
next
  case (poll_begins l timeoutMillis)
  obtain k where "l = (w_looper s)\<lparr>mResponseIndex := k\<rparr>" using next_response_frame [OF poll_begins(3)] by auto
  then have "requests_ok (begin_poll l) (w_registered s)" "mResponses (begin_poll l) = []"
    using assms(2) by (auto simp: fds_ok_def begin_poll_def intro: requests_ok_frame)
  then show ?thesis by (simp add: poll_begins fds_ok_def responses_ok_def)
next
  case (wait_ends start timeout ctl outcome result l)
  have "\<forall>x\<in>set (mResponses (w_looper s)). rs_request x \<in> set (w_registered s)"
    using assms(2) wait_ends(2) by (auto simp: fds_ok_def responses_ok_def in_set_conv_nth)
  then show ?thesis using after_wait_ok [OF _ _ wait_ends(3)] assms(2) by (auto simp: wait_ends(1) fds_ok_def responses_ok_def)
next
  case (message_due result e l)
  note f = next_message_frame [OF message_due(3)]
  have "requests_ok l (w_registered s)" using assms(2) by (rule_tac requests_ok_frame [of "w_looper s"]) (simp_all add: fds_ok_def f)
  then show ?thesis using assms(2) by (simp add: message_due(1,2) fds_ok_def responses_ok_def f(6))
next
  case (messages_over result l)
  note f = next_message_frame [OF messages_over(3)]
  have "requests_ok l (w_registered s)" using assms(2) by (rule_tac requests_ok_frame [of "w_looper s"]) (simp_all add: fds_ok_def f)
  then show ?thesis using assms(2) by (simp add: messages_over(1,2) fds_ok_def responses_ok_def f(6))
next
  case (message_handled result)
  have "requests_ok (end_message (w_looper s)) (w_registered s)"
    using assms(2) by (rule_tac requests_ok_frame [of "w_looper s"]) (simp_all add: fds_ok_def end_message_def)
  then show ?thesis using assms(2) by (simp add: message_handled fds_ok_def responses_ok_def end_message_def)
next
  case (callback_ends i result ctl callbackResult)
  then have "i < length (mResponses (w_looper s))" using assms(2) by (simp add: fds_ok_def responses_ok_def)
  note e = end_callback_ok [OF _ this, of "w_registered s"]
  show ?thesis using assms(2) callback_ends(2) e by (auto simp: callback_ends(1) fds_ok_def responses_ok_def)
next
  case (poll_returns i result r l)
  obtain k where "l = (w_looper s)\<lparr>mResponseIndex := k\<rparr>" using next_response_frame [OF poll_returns(4)] by auto
  then have "requests_ok l (w_registered s)" using assms(2) by (auto simp: fds_ok_def intro: requests_ok_frame)
  then show ?thesis by (simp add: poll_returns(1) fds_ok_def responses_ok_def)
next
  case (message_sent e w l)
  then show ?thesis using enqueue_message_cases(1) [OF message_sent(3)] by (auto intro!: fds_ok_frame [OF assms(2)])
next
  case (fd_added ctl fd ident events callback data result l)
  note a = addFd_ok [OF _ fd_added(3), of "w_registered s"]
  show ?thesis using assms(2) a responses_ok_grown [OF _ a(2)] by (auto simp: fd_added(1) fds_ok_def)
next
  case (fd_removed ctl fd result l)
  note a = removeFd_ok [OF _ fd_removed(3), of "w_registered s"]
  show ?thesis using assms(2) a responses_ok_grown [OF _ a(2)] by (auto simp: fd_removed(1) fds_ok_def)
next
  case (fd_closed fd)
  have "requests_ok (set_epoll fd None (w_looper s)) (w_registered s)"
    using assms(2) by (auto simp: fds_ok_def requests_ok_def epoll_ok_def set_epoll_def split: if_splits)
  then show ?thesis using assms(2) responses_ok_grown [of "w_phase s" "w_looper s"] by (auto simp: fd_closed fds_ok_def set_epoll_def)
next
  case (callback_starts i result)
  with assms(2) show ?thesis by (simp add: fds_ok_def responses_ok_def)
next
  case (callback_none i result)
  with assms(2) show ?thesis by (simp add: fds_ok_def responses_ok_def)
qed (auto simp: looper_wake_def removeMessages_def intro!: fds_ok_frame [OF assms(2)])

lemma fds_ok_steps: "looper_step\<^sup>*\<^sup>* (new_world allow now) s \<Longrightarrow> fds_ok s"
proof (induction rule: rtranclp_induct)
  case base
  show ?case
    by (simp add: fds_ok_def new_world_def new_looper_def requests_ok_def responses_ok_def numbers_ok_def epoll_ok_def map_ok_def)
qed (rule fds_ok_step)

end
