(* ===== verification/Looper_Correct.thy ===== *)
theory Looper_Correct
  imports Looper_Requests
begin

text \<open>
  The properties of the looper, over every run of the polling thread with any number of other threads, and two runs on
  which they are tried.
\<close>

subsection \<open>What holds of a run\<close>

lemma next_message_earliest:
  assumes "mMessageEnvelopes l = sort_key me_uptime w"
  shows "fst (next_message now l) = (case earliest w of None \<Rightarrow> None | Some e \<Rightarrow> if me_uptime e \<le> now then Some e else None)"
proof (cases "sort_key me_uptime w")
  case Nil
  then have "w = []" by (metis length_0_conv length_sort)
  with Nil show ?thesis by (simp add: next_message_def earliest_def assms)
next
  case (Cons e es)
  with first_earliest [OF Cons] show ?thesis by (simp add: next_message_def assms)
qed

text \<open>A callback that returns 0 takes away the registration it ran for and no other.\<close>

lemma end_callback_own:
  assumes "requests_ok l reg" "length reg < 2 ^ 32 - 1" "rs_request (mResponses l ! i) = r" "r \<in> set reg"
  shows "map_of (mRequests (end_callback ctl i res l)) =
    (if res = 0 \<and> map_of (mRequests l) (rq_fd r) = Some r then (map_of (mRequests l))(rq_fd r := None) else map_of (mRequests l))"
proof -
  obtain result l' where rm: "removeFd ctl (rq_fd r) (rq_seq r) l = (result, l')" by (cases "removeFd ctl (rq_fd r) (rq_seq r) l")
  note i = assms(1) [unfolded requests_ok_def]
  have "rq_seq r' = rq_seq r \<longleftrightarrow> r' = r" if "map_of (mRequests l) (rq_fd r) = Some r'" for r'
    using that i assms(2,4) same_registration by blast
  moreover have "rq_seq r \<noteq> -1" using i assms(4) never_reserved by blast
  ultimately show ?thesis
    using removeFd_requests [OF rm] by (auto simp: end_callback_requests [OF assms(3)] rm split: option.splits)
qed

text \<open>A message more than an \<open>int\<close> of milliseconds ahead leaves the wait without an end.\<close>

lemma far_message_unlimited:
  "mNextMessageUptime l = 3 * 10 ^ 15 \<Longrightarrow> poll_timeout (-1) 0 l = -1"
  by (simp add: poll_timeout_def toMillisecondTimeoutDelay_def LLONG_MAX_def Let_def)


subsection \<open>Two runs\<close>

lemmas then_looper = rtranclp.rtrancl_into_rtrancl [of looper_step]

lemma masks [simp]: "EPOLLIN mod 2 = Suc 0" "response_events (Suc 0) = Suc 0"
  by (simp_all add: EPOLLIN_def EPOLLOUT_def EPOLLERR_def EPOLLHUP_def EVENT_INPUT_def response_events_def)

definition sample_message :: message_envelope where
  "sample_message = \<lparr>me_uptime = 5000000, me_handler = 1, me_what = 4\<rparr>"

text \<open>A message five milliseconds ahead, sent to an idle looper which then wakes for it and waits again.\<close>

definition sample_waiting :: looper_world where
  "sample_waiting = (new_world True 0)\<lparr>w_phase := P_wait 0 5,
     w_looper := (new_looper True)\<lparr>mMessageEnvelopes := [sample_message], mPolling := True, mNextMessageUptime := 5000000\<rparr>,
     w_history := [Sent sample_message], w_returned := [POLL_WAKE]\<rparr>"

lemma sample_waiting_run: "looper_step\<^sup>*\<^sup>* (new_world True 0) sample_waiting"
proof -
  let ?s0 = "new_world True 0"
  let ?l1 = "(new_looper True)\<lparr>mMessageEnvelopes := [sample_message]\<rparr>"
  let ?s1 = "?s0\<lparr>w_looper := ?l1, w_late_wakes := 1, w_history := [Sent sample_message]\<rparr>"
  let ?s2 = "?s1\<lparr>w_late_wakes := 0, w_looper := looper_wake ?l1\<rparr>"
  let ?l3 = "(looper_wake ?l1)\<lparr>mPolling := True\<rparr>"
  let ?s3 = "?s2\<lparr>w_phase := P_wait 0 (-1), w_looper := ?l3\<rparr>"
  let ?s4 = "?s3\<lparr>w_phase := P_dispatch POLL_WAKE, w_looper := ?l1\<rparr>"
  let ?l5 = "?l1\<lparr>mNextMessageUptime := 5000000\<rparr>"
  let ?s5 = "?s4\<lparr>w_phase := P_responses 0 POLL_WAKE, w_looper := ?l5\<rparr>"
  let ?s6 = "?s5\<lparr>w_phase := P_idle, w_returned := [POLL_WAKE]\<rparr>"
  have "looper_step ?s0 ?s1"
    using looper_step.message_sent [of ?s0 sample_message True ?l1] by (simp add: new_world_def new_looper_def enqueue_message_def)
  moreover have "looper_step ?s1 ?s2" using looper_step.wake_sent [of ?s1 0] by simp
  moreover have "looper_step ?s2 ?s3"
    using looper_step.poll_begins [of ?s2 "looper_wake ?l1" "-1"]
    by (simp add: new_world_def new_looper_def next_response.simps looper_wake_def begin_poll_def poll_timeout_def)
  moreover have "looper_step ?s3 ?s4"
    using looper_step.wait_ends [of ?s3 0 "-1" "\<lambda>_ _. 0" "Wait_items [Wake_item 1]" POLL_WAKE ?l1]
    by (simp add: after_wait_def Let_def looper_wake_def looper_awoken_def new_looper_def new_world_def)
  moreover have "looper_step ?s4 ?s5"
    using looper_step.messages_over [of ?s4 POLL_WAKE ?l5] by (simp add: next_message_def sample_message_def new_world_def)
  moreover have "looper_step ?s5 ?s6"
    using looper_step.poll_returns [of ?s5 0 POLL_WAKE None ?l5] by (simp add: next_response.simps new_looper_def new_world_def)
  moreover have "looper_step ?s6 sample_waiting"
    using looper_step.poll_begins [of ?s6 ?l5 "-1"]
    by (simp add: next_response.simps new_looper_def new_world_def sample_waiting_def begin_poll_def poll_timeout_def
      toMillisecondTimeoutDelay_def LLONG_MAX_def)
  ultimately show ?thesis by (meson then_looper rtranclp.rtrancl_refl)
qed

text \<open>A descriptor with a callback that is running, and that has registered the same descriptor anew.\<close>

definition sample_request :: "int \<Rightarrow> looper_request" where
  "sample_request n = \<lparr>rq_fd = 7, rq_ident = POLL_CALLBACK, rq_events = 1, rq_seq = n, rq_callback = Some 9, rq_data = 0\<rparr>"

definition sample_calling :: looper_world where
  "sample_calling = (new_world True 0)\<lparr>w_phase := P_callback 0 POLL_WAKE,
     w_looper := (new_looper True)\<lparr>mRequests := [(7, sample_request 1)], mNextRequestSeq := 2,
       mResponses := [\<lparr>rs_events = Suc 0, rs_request = sample_request 0\<rparr>], lp_epoll := [7 \<mapsto> 1]\<rparr>,
     w_registered := [sample_request 0, sample_request 1]\<rparr>"

lemma sample_item: "initEventItem (sample_request n) = Suc 0"
  by (simp add: initEventItem_def sample_request_def EVENT_INPUT_def EVENT_OUTPUT_def EPOLLIN_def)

lemma sample_added: "addFd (\<lambda>_ _. 0) 7 0 1 (Some 9) 0 l =
    (1, l\<lparr>mNextRequestSeq := next_seq (mNextRequestSeq l), mRequests := map_put 7 (sample_request (mNextRequestSeq l)) (mRequests l),
         lp_epoll := (lp_epoll l)(7 := Some 1)\<rparr>)"
  using sample_item [of "mNextRequestSeq l"]
  by (simp add: addFd_def register_fd_def set_epoll_def sample_request_def Let_def split: option.splits)

lemma sample_calling_run: "looper_step\<^sup>*\<^sup>* (new_world True 0) sample_calling"
proof -
  let ?s0 = "new_world True 0" and ?rs = "[\<lparr>rs_events = Suc 0, rs_request = sample_request 0\<rparr>]"
  let ?l1 = "(new_looper True)\<lparr>mNextRequestSeq := 1, mRequests := [(7, sample_request 0)], lp_epoll := [7 \<mapsto> 1]\<rparr>"
  let ?s1 = "?s0\<lparr>w_looper := ?l1, w_registered := [sample_request 0]\<rparr>"
  let ?s2 = "?s1\<lparr>w_phase := P_wait 0 (-1), w_looper := ?l1\<lparr>mPolling := True\<rparr>\<rparr>"
  let ?l3 = "?l1\<lparr>mResponses := ?rs\<rparr>"
  let ?s3 = "?s1\<lparr>w_phase := P_dispatch POLL_WAKE, w_looper := ?l3\<rparr>"
  let ?s4 = "?s1\<lparr>w_phase := P_responses 0 POLL_WAKE, w_looper := ?l3\<rparr>"
  let ?s5 = "?s1\<lparr>w_phase := P_callback 0 POLL_WAKE, w_looper := ?l3\<rparr>"
  have "looper_step ?s0 ?s1"
    using looper_step.fd_added [OF _ sample_added, of ?s0]
    by (simp add: new_world_def new_looper_def numbered_def sample_request_def next_seq_def)
  moreover have "looper_step ?s1 ?s2"
    using looper_step.poll_begins [of ?s1 ?l1 "-1"]
    by (simp add: new_world_def new_looper_def next_response.simps begin_poll_def poll_timeout_def)
  moreover have "looper_step ?s2 ?s3"
    using looper_step.wait_ends [of ?s2 0 "-1" "\<lambda>_ _. 0" "Wait_items [Fd_item 7 1]" POLL_WAKE ?l3]
    by (simp add: after_wait_def Let_def pushResponse_def new_looper_def new_world_def)
  moreover have "looper_step ?s3 ?s4"
    using looper_step.messages_over [of ?s3 POLL_WAKE ?l3] by (simp add: next_message_def new_looper_def new_world_def)
  moreover have "looper_step ?s4 ?s5"
    using looper_step.callback_starts [of ?s4 0 POLL_WAKE] by (simp add: sample_request_def new_world_def)
  moreover have "looper_step ?s5 sample_calling"
    using looper_step.fd_added [OF _ sample_added, of ?s5]
    by (simp add: new_world_def new_looper_def numbered_def sample_request_def next_seq_def sample_calling_def)
  ultimately show ?thesis by (meson then_looper rtranclp.rtrancl_refl)
qed


subsection \<open>Properties\<close>

text \<open>
  C25. Messages are handled in the order of their times, those of one time in the order in which they were sent; none is
  handled before its time, twice, or after it was removed, and none is lost. At every moment the queue is the waiting
  messages, as the calls of all threads leave them, sorted stably, and the next message is the earliest of them once it
  is due.
\<close>

theorem looper_messages_in_order:
  assumes "looper_step\<^sup>*\<^sup>* (new_world allow start) s"
  shows "orderly (w_history s) \<and>
    mMessageEnvelopes (w_looper s) = sort_key me_uptime (waiting (w_history s)) \<and>
    fst (next_message now (w_looper s)) =
      (case earliest (waiting (w_history s)) of None \<Rightarrow> None | Some e \<Rightarrow> if me_uptime e \<le> now then Some e else None)"
  using queue_ok_steps [OF assms] next_message_earliest by (simp add: queue_ok_def)

text \<open>
  C26. While the looper waits in \<open>epoll_wait\<close>, every message that waits has a wake-up pending or ends the wait less than a
  millisecond after its time, whatever other threads sent and removed before; a message further ahead than an \<open>int\<close> of
  milliseconds is excepted.
\<close>

theorem looper_never_oversleeps:
  assumes "looper_step\<^sup>*\<^sup>* (new_world allow start) s" "w_phase s = P_wait began timeout" "e \<in> set (waiting (w_history s))"
  shows "w_late_wakes s + lp_wakes (w_looper s) > 0 \<or> covered began timeout (me_uptime e)"
  using queue_ok_steps [OF assms(1)] assms(2,3) by (auto simp: queue_ok_def next_known_def alarmed_def)

text \<open>
  C27. A callback that runs is never null, and when it returns 0 the registration it ran for is removed if it still stands. A
  later registration of the same descriptor number, made while the callback ran or before, stays, for fewer than
  \<open>2 ^ 32 - 1\<close> registrations; a callback that returns another value removes nothing.
\<close>

theorem looper_callback_own_registration:
  assumes "looper_step\<^sup>*\<^sup>* (new_world allow start) s" "w_phase s = P_callback i result"
    "length (w_registered s) < 2 ^ 32 - 1" "r = rs_request (mResponses (w_looper s) ! i)"
  shows "rq_callback r \<noteq> None \<and>
    map_of (mRequests (end_callback ctl i callbackResult (w_looper s))) =
      (if callbackResult = 0 \<and> map_of (mRequests (w_looper s)) (rq_fd r) = Some r
       then (map_of (mRequests (w_looper s)))(rq_fd r := None) else map_of (mRequests (w_looper s)))"
proof -
  have f: "requests_ok (w_looper s) (w_registered s)" "r \<in> set (w_registered s)" "rq_ident r = POLL_CALLBACK"
    using fds_ok_steps [OF assms(1)] assms(2,4) by (auto simp: fds_ok_def responses_ok_def)
  then have "answerable r" by (auto simp: requests_ok_def numbers_ok_def)
  with f(3) have "rq_callback r \<noteq> None" by (auto simp: answerable_def POLL_CALLBACK_def split: if_splits)
  with end_callback_own [OF f(1) assms(3) assms(4) [symmetric] f(2)] show ?thesis by blast
qed

text \<open>The epoll instance watches registered descriptors only, for the events they were registered with, or a rebuild is due
  and the looper has been woken for it.\<close>

lemma looper_epoll_follows:
  assumes "looper_step\<^sup>*\<^sup>* (new_world allow start) s"
  shows "if mEpollRebuildRequired (w_looper s) then lp_wakes (w_looper s) > 0
    else \<forall>fd ev. lp_epoll (w_looper s) fd = Some ev \<longrightarrow>
      (\<exists>r. map_of (mRequests (w_looper s)) fd = Some r \<and> rq_fd r = fd \<and> ev = initEventItem r)"
  using fds_ok_steps [OF assms] by (fastforce simp: fds_ok_def requests_ok_def epoll_ok_def split: if_splits)


subsection \<open>Witnesses\<close>

theorem looper_messages_in_order_witness:
  "orderly (w_history sample_waiting) \<and> fst (next_message 5000000 (w_looper sample_waiting)) = Some sample_message \<and>
   fst (next_message 4999999 (w_looper sample_waiting)) = None"
  using looper_messages_in_order [OF sample_waiting_run, of 5000000] looper_messages_in_order [OF sample_waiting_run, of 4999999]
  by (simp add: sample_waiting_def earliest_def sample_message_def)

theorem looper_never_oversleeps_witness:
  "w_phase sample_waiting = P_wait 0 5 \<and> sample_message \<in> set (waiting (w_history sample_waiting)) \<and>
   covered 0 5 (me_uptime sample_message)"
  using looper_never_oversleeps [OF sample_waiting_run, of 0 5 sample_message]
  by (simp add: sample_waiting_def new_looper_def new_world_def)

theorem looper_callback_own_registration_witness:
  "map_of (mRequests (end_callback (\<lambda>_ _. 0) 0 0 (w_looper sample_calling))) 7 = Some (sample_request 1)"
  using looper_callback_own_registration [OF sample_calling_run, of 0 POLL_WAKE "sample_request 0" "\<lambda>_ _. 0" 0]
  by (simp add: sample_calling_def sample_request_def)

end
